(* ===== verification/Farm_Prelude.thy ===== *)
theory Farm_Prelude
  imports
    "HOL-Library.Word"
    "HOL-Library.Finite_Map"
    "HOL-Library.Countable"
begin

text \<open>
  Shared vocabulary of the development: the Go integer types the server uses, the reading of
  Go maps as finite maps, big-endian byte encoding, and the generic lemmas the component
  theories rely on.

  \<^item> \<open>uint8\<close>, \<open>uint32\<close>, \<open>uint64\<close> are machine words, so their wrap-around is the word's own.
  \<^item> \<open>int64\<close> (coins, milliseconds, fixed-point growth) is read as \<open>int\<close>; every Go operation on
    it that could leave the 64-bit range is written with \<open>to_i64\<close>.
  \<^item> \<open>time.Time\<close> enters the model only through \<open>UnixMilli\<close>, so an instant is an \<open>int\<close>.
  \<^item> a Go map is an \<open>fmap\<close>: no iteration order, reading an absent key gives the zero value.
\<close>

unbundle bit_operations_syntax

named_theorems go_defs "unfolding rules of the modelled helpers"
named_theorems frame_simps "fields an operation leaves unchanged"
named_theorems map_simps "reads, sizes and keys of updated maps"

type_synonym u8 = "8 word"
type_synonym u32 = "32 word"
type_synonym u64 = "64 word"
type_synonym bytes = "u8 list"

section \<open>Signed 64-bit arithmetic\<close>

definition max_i64 :: int where
  "max_i64 = 9223372036854775807"

definition to_i64 :: "int \<Rightarrow> int" where
  "to_i64 x = (x + 9223372036854775808) mod 18446744073709551616 - 9223372036854775808"

definition in_i64 :: "int \<Rightarrow> bool" where
  "in_i64 x \<longleftrightarrow> - 9223372036854775808 \<le> x \<and> x \<le> max_i64"

lemma to_i64_id [simp]: "in_i64 x \<Longrightarrow> to_i64 x = x"
  by (simp add: to_i64_def in_i64_def max_i64_def)

lemma in_i64_to_i64 [simp]: "in_i64 (to_i64 x)"
proof -
  have "0 \<le> (x + 9223372036854775808) mod 18446744073709551616"
    and "(x + 9223372036854775808) mod 18446744073709551616 < 18446744073709551616"
    by simp_all
  then show ?thesis
    unfolding to_i64_def in_i64_def max_i64_def by linarith
qed

lemma in_i64_nonneg: "0 \<le> x \<Longrightarrow> x \<le> max_i64 \<Longrightarrow> in_i64 x"
  by (simp add: in_i64_def)

text \<open>Go's integer division and remainder truncate towards zero.\<close>

definition go_quo :: "int \<Rightarrow> int \<Rightarrow> int" where
  "go_quo a b = sgn a * sgn b * (\<bar>a\<bar> div \<bar>b\<bar>)"

definition go_rem :: "int \<Rightarrow> int \<Rightarrow> int" where
  "go_rem a b = a - b * go_quo a b"

lemma go_quo_pos: "0 \<le> a \<Longrightarrow> 0 < b \<Longrightarrow> go_quo a b = a div b"
  by (cases "a = 0") (simp_all add: go_quo_def)

lemma go_rem_pos: "0 \<le> a \<Longrightarrow> 0 < b \<Longrightarrow> go_rem a b = a mod b"
  by (simp add: go_rem_def go_quo_pos minus_mult_div_eq_mod)

section \<open>Words\<close>

text \<open>\<open>math.MaxUint64\<close>.\<close>

definition max_u64 :: u64 where
  "max_u64 = 18446744073709551615"

instance word :: (len) countable
  by (rule countable_classI [of unat]) (rule unsigned_word_eqI)

lemma unat_add_bounded:
  fixes a b :: u32
  assumes "unat a + unat b \<le> n" "n < 4294967296"
  shows "unat (a + b) = unat a + unat b"
  using assms by (simp add: unat_word_ariths)

lemma unat_sub_le:
  fixes a b :: u32
  assumes "b \<le> a"
  shows "unat (a - b) = unat a - unat b"
  using assms by (rule unat_sub)

lemma u32_pos_iff: "(0 < (a :: u32)) \<longleftrightarrow> a \<noteq> 0"
  by (rule word_neq_0_conv [symmetric])

lemma unat_pred_u32: "(a :: u32) \<noteq> 0 \<Longrightarrow> unat (a - 1) = unat a - 1"
  by (rule unat_minus_one)

section \<open>Big-endian encoding\<close>

text \<open>The bytes of an ASCII string.\<close>

definition str_bytes :: "string \<Rightarrow> bytes" where
  "str_bytes cs = map of_char cs"

text \<open>\<open>binary.BigEndian.AppendUint32\<close> and \<open>AppendUint64\<close> append these bytes.\<close>

definition be32 :: "u32 \<Rightarrow> bytes" where
  "be32 x = map (\<lambda>i. ucast (drop_bit i x)) [24, 16, 8, 0]"

definition be64 :: "u64 \<Rightarrow> bytes" where
  "be64 x = map (\<lambda>i. ucast (drop_bit i x)) [56, 48, 40, 32, 24, 16, 8, 0]"

lemma length_be32 [simp]: "length (be32 x) = 4"
  by (simp add: be32_def)

lemma length_be64 [simp]: "length (be64 x) = 8"
  by (simp add: be64_def)

lemma byte_at_bit:
  fixes x y :: "'a::len word"
  assumes "(ucast (drop_bit i x) :: u8) = ucast (drop_bit i y)" "i \<le> n" "n < i + 8"
  shows "bit x n = bit y n"
proof -
  have "bit (ucast (drop_bit i x) :: u8) (n - i) = bit (ucast (drop_bit i y) :: u8) (n - i)"
    by (simp add: assms(1))
  then show ?thesis
    using assms(2,3) by (auto simp: bit_simps)
qed

lemma be32_inject [simp]: "be32 x = be32 y \<longleftrightarrow> x = y"
proof
  assume eq: "be32 x = be32 y"
  show "x = y"
  proof (rule bit_word_eqI)
    fix n assume "n < LENGTH(32)"
    then consider "n < 8" | "8 \<le> n \<and> n < 16" | "16 \<le> n \<and> n < 24" | "24 \<le> n \<and> n < 32"
      by fastforce
    then show "bit x n = bit y n"
      using eq byte_at_bit [of 0 x y n] byte_at_bit [of 8 x y n]
        byte_at_bit [of 16 x y n] byte_at_bit [of 24 x y n]
      by cases (simp_all add: be32_def)
  qed
qed simp

lemma be64_inject [simp]: "be64 x = be64 y \<longleftrightarrow> x = y"
proof
  assume eq: "be64 x = be64 y"
  show "x = y"
  proof (rule bit_word_eqI)
    fix n assume "n < LENGTH(64)"
    then consider "n < 8" | "8 \<le> n \<and> n < 16" | "16 \<le> n \<and> n < 24" | "24 \<le> n \<and> n < 32"
      | "32 \<le> n \<and> n < 40" | "40 \<le> n \<and> n < 48" | "48 \<le> n \<and> n < 56" | "56 \<le> n \<and> n < 64"
      by fastforce
    then show "bit x n = bit y n"
      using eq byte_at_bit [of 0 x y n] byte_at_bit [of 8 x y n]
        byte_at_bit [of 16 x y n] byte_at_bit [of 24 x y n]
        byte_at_bit [of 32 x y n] byte_at_bit [of 40 x y n]
        byte_at_bit [of 48 x y n] byte_at_bit [of 56 x y n]
      by cases (simp_all add: be64_def)
  qed
qed simp

text \<open>Two encodings that start with the same fixed-width field agree on that field.\<close>

lemma be32_append_inject [simp]: "be32 x @ xs = be32 y @ ys \<longleftrightarrow> x = y \<and> xs = ys"
  by (simp add: append_eq_append_conv)

lemma be64_append_inject [simp]: "be64 x @ xs = be64 y @ ys \<longleftrightarrow> x = y \<and> xs = ys"
  by (simp add: append_eq_append_conv)

section \<open>Go maps\<close>

text \<open>Indexing an absent key yields the element type's zero value.\<close>

definition map_get :: "('k, 'v::zero) fmap \<Rightarrow> 'k \<Rightarrow> 'v" where
  "map_get m k = (case fmlookup m k of None \<Rightarrow> 0 | Some v \<Rightarrow> v)"

definition map_len :: "('k, 'v) fmap \<Rightarrow> nat" where
  "map_len m = fcard (fmdom m)"

text \<open>The keys collected from a map and sorted, as every stable iteration of the server does.\<close>

definition map_keys :: "('k::linorder, 'v) fmap \<Rightarrow> 'k list" where
  "map_keys m = sorted_list_of_fset (fmdom m)"

lemma map_get_upd [map_simps]: "map_get (fmupd k v m) k' = (if k' = k then v else map_get m k')"
  by (simp add: map_get_def)

lemma map_get_drop [map_simps]: "map_get (fmdrop k m) k' = (if k' = k then 0 else map_get m k')"
  by (simp add: map_get_def)

lemma map_get_empty [map_simps]: "map_get fmempty k = 0"
  by (simp add: map_get_def)

lemma map_len_empty [map_simps]: "map_len fmempty = 0"
  by (simp add: map_len_def)

lemma map_len_upd [map_simps]:
  "map_len (fmupd k v m) = (if k |\<in>| fmdom m then map_len m else Suc (map_len m))"
  by (simp add: map_len_def fcard_finsert_if)

lemma map_len_drop_le: "map_len (fmdrop k m) \<le> map_len m"
  by (auto simp: map_len_def intro: fcard_mono)

lemma map_get_nonzeroD: "map_get m k \<noteq> 0 \<Longrightarrow> fmlookup m k = Some (map_get m k)"
  by (simp add: map_get_def split: option.splits)

lemma map_get_lookup: "fmlookup m k = Some v \<Longrightarrow> map_get m k = v"
  by (simp add: map_get_def)

lemma set_map_keys [simp]: "set (map_keys m) = fset (fmdom m)"
  by (simp add: map_keys_def)

lemma distinct_map_keys [simp]: "distinct (map_keys m)"
  by (simp add: map_keys_def sorted_list_of_fset.rep_eq)

lemma sorted_map_keys [simp]: "sorted (map_keys m)"
  by (simp add: map_keys_def sorted_list_of_fset.rep_eq)

lemma map_keys_upd_present: "k |\<in>| fmdom m \<Longrightarrow> map_keys (fmupd k v m) = map_keys m"
  by (simp add: map_keys_def finsert_absorb)

lemma map_keys_of_list: "map_keys (fmap_of_list xs) = sort (remdups (map fst xs))"
  by (simp add: map_keys_def fset_of_list_map sorted_list_of_fset.rep_eq fset_of_list.rep_eq
      sorted_list_of_set_sort_remdups flip: set_map)

end
