(* ===== verification/Farm_Types.thy ===== *)
theory Farm_Types
  imports Sha256
begin

text \<open>
  The wire and storage vocabulary of the Zone server: the enumerations and messages of
  \<open>proto/classicfarm/v1\<close> that package \<open>player\<close> builds, stores or reads. Messages are datatypes
  with one constructor and one selector per field (an absent sub-message is \<open>None\<close>); fields no
  code of package \<open>player\<close> writes (\<open>Error.params\<close>, \<open>retry_after_ms\<close>, \<open>debug_message\<close>) are left out.

  The protobuf runtime is a library outside the repository, so \<open>proto.Marshal\<close> and
  \<open>proto.Unmarshal\<close> are a parameter of the model: a \<open>codec\<close>, one pair of functions per stored
  message family, with the round trip the library documents stated as \<open>codec_ok\<close>.
\<close>

section \<open>Enumerations\<close>

datatype plot_state = PLOT_UNSPECIFIED | EMPTY | GROWING | MATURE | NEED_CLEANUP

datatype chapter_status = CHAPTER_UNSPECIFIED | IN_PROGRESS | CLAIMABLE | CLAIMED

datatype effect_kind = EFFECT_KIND_UNSPECIFIED | FERTILIZER | PEST

datatype message_kind = MESSAGE_KIND_UNSPECIFIED | REQUEST | RESPONSE | PUSH

datatype ws_action =
    ACTION_UNSPECIFIED | AUTH | PING
  | GET_PLAYER_SNAPSHOT | GET_SHOP | GET_PET_PANEL
  | BUY_SEEDS | PLANT | APPLY_FERTILIZER | HARVEST | CLEAN_PLOT | SELL_CROP
  | CLAIM_CHAPTER_REWARD | BUY_FERTILIZER | CATCH_PEST | BUY_PET | DEPLOY_PET
  | BUY_PET_FOOD | FEED_PET | SEND_FRIEND_GIFT | PLAYER_STATE_CHANGED

text \<open>The enum numbers of \<open>ws.proto\<close>, which \<open>uint32(request.Action)\<close> puts into fingerprints.\<close>

fun action_code :: "ws_action \<Rightarrow> u32" where
  "action_code ACTION_UNSPECIFIED = 0"
| "action_code AUTH = 1"
| "action_code PING = 2"
| "action_code GET_PLAYER_SNAPSHOT = 100"
| "action_code GET_SHOP = 101"
| "action_code GET_PET_PANEL = 102"
| "action_code BUY_SEEDS = 200"
| "action_code PLANT = 201"
| "action_code APPLY_FERTILIZER = 202"
| "action_code HARVEST = 203"
| "action_code CLEAN_PLOT = 204"
| "action_code SELL_CROP = 205"
| "action_code CLAIM_CHAPTER_REWARD = 206"
| "action_code BUY_FERTILIZER = 207"
| "action_code CATCH_PEST = 208"
| "action_code BUY_PET = 209"
| "action_code DEPLOY_PET = 210"
| "action_code BUY_PET_FOOD = 211"
| "action_code FEED_PET = 212"
| "action_code SEND_FRIEND_GIFT = 324"
| "action_code PLAYER_STATE_CHANGED = 1000"

lemma action_code_inject [simp]: "action_code a = action_code b \<longleftrightarrow> a = b"
  by (cases a; cases b) simp_all

datatype error_code =
    ERROR_UNSPECIFIED | INVALID_ARGUMENT | UNKNOWN_ACTION | UNSUPPORTED_PROTOCOL_VERSION | UNAUTHENTICATED
  | FORBIDDEN | REQUEST_ID_CONFLICT | RATE_LIMITED | SERVICE_UNAVAILABLE | SERVER_BUSY
  | REQUEST_OUTCOME_UNKNOWN | CONFIG_UNAVAILABLE | ZONE_MIGRATING | ZONE_UNAVAILABLE | ZONE_WARMING_UP
  | STORAGE_UNAVAILABLE | SHOP_ENTRY_NOT_FOUND | SHOP_ENTRY_DISABLED | PRICE_CHANGED | CONFIG_ENTRY_DISABLED
  | INSUFFICIENT_COINS | INVENTORY_TYPE_LIMIT | INVENTORY_STACK_LIMIT | ITEM_NOT_OWNED
  | INSUFFICIENT_ITEM_QUANTITY | ITEM_NOT_SELLABLE | PLOT_NOT_FOUND | PLOT_STATE_CONFLICT
  | FERTILIZER_ALREADY_ACTIVE | CROP_NOT_MATURE | CHAPTER_NOT_FOUND | CHAPTER_NOT_CLAIMABLE
  | CHAPTER_REWARD_ALREADY_CLAIMED | FRIEND_CODE_NOT_FOUND | FRIEND_CODE_EXPIRED | CANNOT_FRIEND_SELF
  | FRIEND_LIMIT_REACHED | NOT_MUTUAL_FRIEND | VISIT_NOT_FOUND | VISIT_EXPIRED | PLOT_NOT_ELIGIBLE
  | PEST_ALREADY_PRESENT | PEST_SOURCE_FORBIDDEN | STEAL_NOT_AVAILABLE | INSUFFICIENT_ACTION_CHANCE
  | INVENTORY_CAPACITY_EXCEEDED | INTERACTION_OUTCOME_UNKNOWN | PET_NOT_FOUND | PET_ALREADY_OWNED
  | PET_NOT_OWNED | PET_DISABLED

section \<open>Views sent to clients\<close>

datatype item_stack_view = ItemStackView (isv_item_id: u32) (isv_quantity: u32)

datatype effect_view = EffectView
  (ev_effect_instance_id: string) (ev_effect_item_id: u32) (ev_effect_config_version: u64)
  (ev_start_at_ms: int) (ev_end_at_ms: int) (ev_source_player_id: "u64 option")

datatype plot_view = PlotView
  (pv_plot_id: u32) (pv_plot_state: plot_state) (pv_crop_id: u32) (pv_crop_config_version: u64)
  (pv_planted_at_ms: int) (pv_estimated_mature_at_ms: int) (pv_harvestable_quantity: u32)
  (pv_fertilizer_effect: "effect_view option") (pv_pest_effect: "effect_view option")

datatype task_view = TaskProgressView
  (tv_task_id: u32) (tv_current_value: u32) (tv_target_value: u32) (tv_completed: bool)

datatype chapter_view = ChapterView
  (cv_chapter_id: u32) (cv_status: chapter_status) (cv_tasks: "task_view list")

datatype career_view = PlayerCareerView
  (crv_total_harvested: u64) (crv_total_stolen: u64)

datatype compendium_view = CropCompendiumView (cmv_unlocked_crop_ids: "u32 list")

datatype player_snapshot = PlayerSnapshot
  (snap_player_id: u64) (snap_coin_balance: int) (snap_inventory: "item_stack_view list")
  (snap_plots: "plot_view list") (snap_current_chapter: chapter_view)
  (snap_server_config_version: u64) (snap_career: career_view)
  (snap_crop_compendium: compendium_view)

datatype state_patch = PlayerStatePatch
  (sp_coin_balance: "int option") (sp_inventory_upserts: "item_stack_view list")
  (sp_inventory_removed_item_ids: "u32 list") (sp_plot_upserts: "plot_view list")
  (sp_current_chapter: "chapter_view option") (sp_career: "career_view option")
  (sp_crop_compendium: "compendium_view option")

datatype shop_entry_view = ShopEntryView
  (sev_shop_entry_id: u32) (sev_item_id: u32) (sev_unit_price: int) (sev_price_version: u64)
  (sev_enabled: bool)

datatype crop_catalog_view = CropCatalogEntryView
  (ccv_crop_id: u32) (ccv_name: string) (ccv_seed_item_id: u32) (ccv_crop_item_id: u32)
  (ccv_maturity_seconds: u64) (ccv_base_yield: u32) (ccv_seed_unit_price: int)
  (ccv_seed_price_version: u64) (ccv_seed_shop_entry_id: u32) (ccv_sell_unit_price: int)
  (ccv_sell_price_version: u64)

datatype pet_shop_entry_view = PetShopEntryView
  (psv_pet_id: u32) (psv_name: string) (psv_price_coins: int) (psv_guard_probability_bps: u32)
  (psv_guard_penalty_coins: int) (psv_config_version: u64) (psv_enabled: bool) (psv_owned: bool)

datatype pet_food_shop_view = PetFoodShopView
  (pfv_shop_entry_id: u32) (pfv_item_id: u32) (pfv_unit_price: int) (pfv_price_version: u64)
  (pfv_duration_seconds: u64) (pfv_enabled: bool)

datatype pet_panel_view = PetPanelView
  (ppv_pets: "pet_shop_entry_view list") (ppv_pet_food: "pet_food_shop_view option")
  (ppv_owned_pet_ids: "u32 list") (ppv_active_pet_id: u32) (ppv_pet_food_quantity: u32)
  (ppv_food_active_until_ms: int) (ppv_guard_buff_active: bool)

datatype ws_error = WsError
  (err_code: error_code) (err_retryable: bool)
  (err_latest_shop_entry: "shop_entry_view option") (err_current_plot: "plot_view option")

text \<open>The three shapes of \<open>wsv1.Error\<close> literals in the command handlers.\<close>

abbreviation plain_error :: "error_code \<Rightarrow> ws_error" where
  "plain_error c \<equiv> WsError c False None None"

abbreviation retryable_error :: "error_code \<Rightarrow> ws_error" where
  "retryable_error c \<equiv> WsError c True None None"

abbreviation plot_error :: "error_code \<Rightarrow> plot_view \<Rightarrow> ws_error" where
  "plot_error c v \<equiv> WsError c False None (Some v)"

section \<open>Requests and responses\<close>

datatype sell_amount = AmountUnset | AmountQuantity u32 | AmountSellAll bool

datatype buy_request = BuyRequest
  (br_shop_entry_id: u32) (br_quantity: u32) (br_expected_price_version: u64)

datatype sell_request = SellCropRequest
  (sr_crop_item_id: u32) (sr_expected_price_version: u64) (sr_amount: sell_amount)

datatype gift_request = SendFriendGiftRequest
  (gr_recipient_player_id: u64) (gr_crop_item_id: u32) (gr_quantity: u32)

datatype ws_request_payload =
    GetPlayerSnapshotRequest
  | GetShopRequest
  | GetPetPanelRequest
  | BuySeedsRequest buy_request
  | BuyFertilizerRequest buy_request
  | PlantRequest (plant_plot_id: u32) (plant_seed_item_id: u32)
  | ApplyFertilizerRequest (apply_plot_id: u32) (apply_fertilizer_item_id: u32)
  | HarvestRequest (harvest_plot_id: u32)
  | CleanPlotRequest (clean_plot_id: u32)
  | CatchPestRequest (catch_plot_id: u32)
  | SellRequest sell_request
  | ClaimChapterRewardRequest (claim_chapter_id: u32)
  | BuyPetRequest (buy_pet_id: u32) (buy_expected_config_version: u64)
  | DeployPetRequest (deploy_pet_id: u32)
  | BuyPetFoodRequest buy_request
  | FeedPetRequest
  | GiftRequest gift_request

datatype ws_payload =
    BuySeedsResponse u32 u32 u32 int int state_patch
  | BuyFertilizerResponse u32 u32 u32 int int state_patch
  | PlantResponse u32 state_patch
  | ApplyFertilizerResponse u32 string state_patch
  | HarvestResponse u32 u32 state_patch
  | CleanPlotResponse state_patch
  | CatchPestResponse state_patch
  | SellCropResponse u32 u32 int int state_patch
  | ClaimChapterRewardResponse u32 int "item_stack_view list" "item_stack_view list" state_patch
  | BuyPetResponse u32 int state_patch pet_panel_view
  | DeployPetResponse u32 state_patch pet_panel_view
  | BuyPetFoodResponse u32 u32 u32 int int state_patch pet_panel_view
  | FeedPetResponse int state_patch pet_panel_view
  | SendFriendGiftResponse bytes u32 u32 state_patch
  | GetPlayerSnapshotResponse player_snapshot
  | GetPetPanelResponse pet_panel_view
  | GetShopResponse u64 "shop_entry_view list" "crop_catalog_view list"
  | PlayerStateChangedPush state_patch

text \<open>The action whose response message a payload is: the Go type \<open>proto.Unmarshal\<close> is given.\<close>

fun payload_kind :: "ws_payload \<Rightarrow> ws_action" where
  "payload_kind (BuySeedsResponse _ _ _ _ _ _) = BUY_SEEDS"
| "payload_kind (BuyFertilizerResponse _ _ _ _ _ _) = BUY_FERTILIZER"
| "payload_kind (PlantResponse _ _) = PLANT"
| "payload_kind (ApplyFertilizerResponse _ _ _) = APPLY_FERTILIZER"
| "payload_kind (HarvestResponse _ _ _) = HARVEST"
| "payload_kind (CleanPlotResponse _) = CLEAN_PLOT"
| "payload_kind (CatchPestResponse _) = CATCH_PEST"
| "payload_kind (SellCropResponse _ _ _ _ _) = SELL_CROP"
| "payload_kind (ClaimChapterRewardResponse _ _ _ _ _) = CLAIM_CHAPTER_REWARD"
| "payload_kind (BuyPetResponse _ _ _ _) = BUY_PET"
| "payload_kind (DeployPetResponse _ _ _) = DEPLOY_PET"
| "payload_kind (BuyPetFoodResponse _ _ _ _ _ _ _) = BUY_PET_FOOD"
| "payload_kind (FeedPetResponse _ _ _) = FEED_PET"
| "payload_kind (SendFriendGiftResponse _ _ _ _) = SEND_FRIEND_GIFT"
| "payload_kind (GetPlayerSnapshotResponse _) = GET_PLAYER_SNAPSHOT"
| "payload_kind (GetPetPanelResponse _) = GET_PET_PANEL"
| "payload_kind (GetShopResponse _ _ _) = GET_SHOP"
| "payload_kind (PlayerStateChangedPush _) = PLAYER_STATE_CHANGED"

record ws_request =
  req_protocol_version :: u32
  req_message_kind :: message_kind
  req_action :: ws_action
  req_request_id :: string
  req_target_player_id :: u64
  req_payload :: ws_request_payload

record ws_response =
  resp_protocol_version :: u32
  resp_message_kind :: message_kind
  resp_action :: ws_action
  resp_request_id :: string
  resp_target_player_id :: u64
  resp_state_version :: "(u64 \<times> u64) option"
  resp_server_time_ms :: int
  resp_replayed :: bool
  resp_error :: "ws_error option"
  resp_payload :: "ws_payload option"

section \<open>Stored records\<close>

record timed_effect =
  eff_instance_id :: bytes
  eff_kind :: effect_kind
  eff_item_or_pest_id :: u32
  eff_source_player_id :: "u64 option"
  eff_config_version :: u64
  eff_modifier :: "int option"
  eff_start_at_ms :: int
  eff_end_at_ms :: int

record idempotency_result =
  ir_caller_player_id :: u64
  ir_request_id :: bytes
  ir_fingerprint_schema_version :: u32
  ir_protocol_version :: u32
  ir_action :: u32
  ir_target_player_id :: u64
  ir_payload_fingerprint :: bytes
  ir_completed_at_ms :: int
  ir_success :: bool
  ir_result_owner_epoch :: u64
  ir_result_player_seq :: u64
  ir_response_payload_type :: u32
  ir_response_payload :: bytes
  ir_error_payload :: bytes
  ir_outbox_ids :: "bytes list"

datatype outbox_event_type = OUTBOX_UNSPECIFIED | CREATE_REWARD_MAIL | CREATE_GIFT_MAIL

record pending_outbox =
  po_event_id :: bytes
  po_event_type :: outbox_event_type
  po_event_contract_version :: u32
  po_aggregate_player_id :: u64
  po_caused_by_request_id :: bytes
  po_created_owner_epoch :: u64
  po_created_player_seq :: u64
  po_created_at_ms :: int
  po_payload :: bytes
  po_payload_sha256 :: bytes

record pet_record =
  pet_owned_ids :: "u32 list"
  pet_active_id :: u32
  pet_food_active_until_ms :: int

record career_record =
  car_total_harvested :: u64
  car_total_stolen :: u64

record mail_claim_receipt =
  mcr_mail_id :: string
  mcr_claim_id :: bytes
  mcr_applied_at_ms :: int
  mcr_attachments :: "(u32 \<times> u32) list"
  mcr_coin_amount :: int

text \<open>\<open>eventv1.CreateRewardMailV1\<close>, the payload of a reward-mail outbox entry.\<close>

datatype reward_mail = CreateRewardMailV1
  (rm_recipient_player_id: u64) (rm_subject_text_key: string) (rm_body_text_key: string)
  (rm_chapter_id: u32) (rm_chapter_config_version: u64) (rm_request_id: bytes)
  (rm_attachments: "item_stack_view list")

section \<open>The protobuf codec\<close>

record codec =
  marshal_payload :: "ws_payload \<Rightarrow> bytes"
  unmarshal_payload :: "ws_action \<Rightarrow> bytes \<Rightarrow> ws_payload option"
  marshal_error :: "ws_error \<Rightarrow> bytes"
  unmarshal_error :: "bytes \<Rightarrow> ws_error option"
  marshal_reward_mail :: "reward_mail \<Rightarrow> bytes"

text \<open>What the library documents: unmarshalling what was marshalled gives the message back.\<close>

definition codec_ok :: "codec \<Rightarrow> bool" where
  "codec_ok C \<longleftrightarrow>
     (\<forall>p. unmarshal_payload C (payload_kind p) (marshal_payload C p) = Some p) \<and>
     (\<forall>e. unmarshal_error C (marshal_error C e) = Some e)"

lemma codec_payload: "codec_ok C \<Longrightarrow> unmarshal_payload C (payload_kind p) (marshal_payload C p) = Some p"
  by (simp add: codec_ok_def)

lemma codec_error: "codec_ok C \<Longrightarrow> unmarshal_error C (marshal_error C e) = Some e"
  by (simp add: codec_ok_def)

instance plot_state :: countable by countable_datatype
instance chapter_status :: countable by countable_datatype
instance error_code :: countable by countable_datatype
instance item_stack_view :: countable by countable_datatype
instance effect_view :: countable by countable_datatype
instance plot_view :: countable by countable_datatype
instance task_view :: countable by countable_datatype
instance chapter_view :: countable by countable_datatype
instance career_view :: countable by countable_datatype
instance compendium_view :: countable by countable_datatype
instance player_snapshot :: countable by countable_datatype
instance state_patch :: countable by countable_datatype
instance shop_entry_view :: countable by countable_datatype
instance crop_catalog_view :: countable by countable_datatype
instance pet_shop_entry_view :: countable by countable_datatype
instance pet_food_shop_view :: countable by countable_datatype
instance pet_panel_view :: countable by countable_datatype
instance ws_error :: countable by countable_datatype
instance ws_payload :: countable by countable_datatype
instance reward_mail :: countable by countable_datatype

text \<open>
  A codec that satisfies \<open>codec_ok\<close>, built from the countability of the message types: a message
  is a string of bytes whose length is its number. It shows that the round trip can hold; the
  properties hold for every codec that has it.
\<close>

definition ref_codec :: codec where
  "ref_codec = \<lparr>
     marshal_payload = (\<lambda>p. replicate (to_nat p) 0),
     unmarshal_payload = (\<lambda>k b. Some (from_nat (length b))),
     marshal_error = (\<lambda>e. replicate (to_nat e) 0),
     unmarshal_error = (\<lambda>b. Some (from_nat (length b))),
     marshal_reward_mail = (\<lambda>m. replicate (to_nat m mod 1000) 0)\<rparr>"

lemma ref_codec_ok: "codec_ok ref_codec"
  by (simp add: codec_ok_def ref_codec_def)

end
