(* ===== verification/Farm_State.thy ===== *)
theory Farm_State
  imports Farm_Types
begin

text \<open>
  The player aggregate of \<open>server/internal/player/state.go\<close> and the small helpers around it:
  the \<open>Plot\<close>, \<open>Task\<close> and \<open>State\<close> structs, the initial farm and its backfill, the client
  projection (\<open>Snapshot\<close>, \<open>View\<close>), career and compendium bookkeeping (\<open>career.go\<close>), the visitor
  predicates (\<open>public_plot_view.go\<close>) and the public-plot change sets (\<open>domain_change.go\<close>).
\<close>

section \<open>Structs\<close>

record task =
  tk_id :: u32
  tk_current :: u32
  tk_target :: u32

record plot =
  pl_id :: u32
  pl_state :: plot_state
  pl_crop_id :: u32
  pl_crop_item_id :: u32
  pl_crop_config_version :: u64
  pl_planted_at_ms :: int
  pl_maturity_scaled9 :: int
  pl_base_rate_scaled6 :: int
  pl_base_yield :: u32
  pl_stolen_quantity :: u32
  pl_settled_scaled9 :: int
  pl_last_settled_at_ms :: int
  pl_estimated_mature_at_ms :: "int option"
  pl_fertilizer_effect :: "timed_effect option"
  pl_pest_effect :: "timed_effect option"
  pl_steal_count :: u32
  pl_steal_quantity :: u32
  pl_max_steal_times :: u32
  pl_protected_owner_yield :: u32
  pl_steal_visitor_ids :: "u64 list"

record friend_actions =
  fa_apply_pest_chances :: u32
  fa_catch_pest_chances :: u32
  fa_help_clean_chances :: u32

datatype friend_action =
    FRIEND_ACTION_UNSPECIFIED | APPLY_PEST_TO_FRIEND | CATCH_PEST_FOR_FRIEND
  | HELP_CLEAN_FRIEND_PLOT | STEAL_FRIEND_CROP

datatype reservation_status =
    RESERVATION_UNSPECIFIED | RESERVATION_RESERVED | RESERVATION_CONSUMED | RESERVATION_RELEASED

datatype receipt_role = RECEIPT_ROLE_UNSPECIFIED | RECEIPT_VISITOR | RECEIPT_OWNER

datatype receipt_status = RECEIPT_STATUS_UNSPECIFIED | RECEIPT_APPLIED | RECEIPT_COMMITTED

record friend_reservation =
  fr_interaction_id :: bytes
  fr_action :: friend_action
  fr_status :: reservation_status
  fr_reserved_action_chances :: u32
  fr_reserved_item_id :: "u32 option"
  fr_reserved_quantity :: "u32 option"
  fr_created_at_ms :: int
  fr_updated_at_ms :: int

record friend_receipt =
  rc_interaction_id :: bytes
  rc_role :: receipt_role
  rc_action :: friend_action
  rc_status :: receipt_status
  rc_result_digest :: bytes
  rc_result_payload :: bytes
  rc_committed_at_ms :: int

record state =
  st_player_id :: u64
  st_owner_epoch :: u64
  st_player_seq :: u64
  st_checkpoint_revision :: u64
  st_coins :: int
  st_inventory :: "(u32, u32) fmap"
  st_plots :: "(u32, plot) fmap"
  st_chapter_id :: u32
  st_chapter_config_version :: u64
  st_chapter :: chapter_status
  st_chapter_activated_at_ms :: int
  st_tasks :: "task list"
  st_config_version :: u64
  st_created_at_ms :: int
  st_updated_at_ms :: int
  st_recent_results :: "idempotency_result list"
  st_pending_outbox :: "pending_outbox list"
  st_friend_actions :: "friend_actions option"
  st_friend_reservations :: "friend_reservation list"
  st_friend_receipts :: "friend_receipt list"
  st_friend_task_credits :: "(bytes \<times> int) list"
  st_mail_claim_receipts :: "mail_claim_receipt list"
  st_pet_state :: "pet_record option"
  st_career :: "career_record option"
  st_crop_compendium :: "u32 list option"

text \<open>The Go literal \<open>Plot{ID: id, State: EMPTY}\<close>: every other field is its zero value.\<close>

definition empty_plot :: "u32 \<Rightarrow> plot" where
  "empty_plot i = \<lparr>pl_id = i, pl_state = EMPTY, pl_crop_id = 0, pl_crop_item_id = 0,
     pl_crop_config_version = 0, pl_planted_at_ms = 0, pl_maturity_scaled9 = 0,
     pl_base_rate_scaled6 = 0, pl_base_yield = 0, pl_stolen_quantity = 0,
     pl_settled_scaled9 = 0, pl_last_settled_at_ms = 0, pl_estimated_mature_at_ms = None,
     pl_fertilizer_effect = None, pl_pest_effect = None, pl_steal_count = 0,
     pl_steal_quantity = 0, pl_max_steal_times = 0, pl_protected_owner_yield = 0,
     pl_steal_visitor_ids = []\<rparr>"

section \<open>The initial farm\<close>

definition InitialCoinBalance :: int where "InitialCoinBalance = 10"
definition BasicFertilizerID :: u32 where "BasicFertilizerID = 1"
definition InitialPlotID :: u32 where "InitialPlotID = 1"
definition InitialPlotCount :: u32 where "InitialPlotCount = 16"
definition InitialChapterID :: u32 where "InitialChapterID = 1"
definition ServerConfigVersion :: u64 where "ServerConfigVersion = 2"
definition LocalOwnerEpoch :: u64 where "LocalOwnerEpoch = 1"
definition ProtocolVersion :: u32 where "ProtocolVersion = 1"

text \<open>The loop \<open>for plotID := InitialPlotID; plotID < InitialPlotID+InitialPlotCount; plotID++\<close>.\<close>

definition initial_plot_ids :: "u32 list" where
  "initial_plot_ids = map of_nat [unat InitialPlotID ..< unat (InitialPlotID + InitialPlotCount)]"

definition newInitialPlots :: "(u32, plot) fmap" where
  "newInitialPlots = fold (\<lambda>i m. fmupd i (empty_plot i) m) initial_plot_ids fmempty"

definition initial_tasks :: "task list" where
  "initial_tasks =
     [\<lparr>tk_id = 1, tk_current = 0, tk_target = 3\<rparr>, \<lparr>tk_id = 2, tk_current = 0, tk_target = 1\<rparr>,
      \<lparr>tk_id = 3, tk_current = 0, tk_target = 1\<rparr>, \<lparr>tk_id = 4, tk_current = 0, tk_target = 1\<rparr>,
      \<lparr>tk_id = 5, tk_current = 0, tk_target = 1\<rparr>]"

definition NewDevelopmentState :: "u64 \<Rightarrow> int \<Rightarrow> state" where
  "NewDevelopmentState playerID nowMS = \<lparr>
     st_player_id = playerID, st_owner_epoch = LocalOwnerEpoch, st_player_seq = 0,
     st_checkpoint_revision = 1, st_coins = InitialCoinBalance,
     st_inventory = fmupd BasicFertilizerID 1 fmempty, st_plots = newInitialPlots,
     st_chapter_id = InitialChapterID, st_chapter_config_version = ServerConfigVersion,
     st_chapter = IN_PROGRESS, st_chapter_activated_at_ms = nowMS, st_tasks = initial_tasks,
     st_config_version = ServerConfigVersion, st_created_at_ms = nowMS, st_updated_at_ms = nowMS,
     st_recent_results = [], st_pending_outbox = [], st_friend_actions = None,
     st_friend_reservations = [], st_friend_receipts = [], st_friend_task_credits = [],
     st_mail_claim_receipts = [], st_pet_state = None, st_career = None,
     st_crop_compendium = None\<rparr>"

fun backfill_plots :: "u32 list \<Rightarrow> bool \<Rightarrow> (u32, plot) fmap \<Rightarrow> bool \<times> (u32, plot) fmap" where
  "backfill_plots [] b m = (b, m)"
| "backfill_plots (i # is) b m =
     (case fmlookup m i of
        Some _ \<Rightarrow> backfill_plots is b m
      | None \<Rightarrow> backfill_plots is True (fmupd i (empty_plot i) m))"

definition ensureInitialPlots :: "state \<Rightarrow> bool \<times> state" where
  "ensureInitialPlots s =
     (let (b, m) = backfill_plots initial_plot_ids False (st_plots s)
      in (b, s\<lparr>st_plots := m\<rparr>))"

section \<open>Identifiers as text\<close>

definition hex_digit :: "nat \<Rightarrow> char" where
  "hex_digit n = ''0123456789abcdef'' ! n"

definition hex_encode :: "bytes \<Rightarrow> string" where
  "hex_encode bs = concat (map (\<lambda>b. [hex_digit (unat b div 16), hex_digit (unat b mod 16)]) bs)"

definition formatUUIDBytes :: "bytes \<Rightarrow> string" where
  "formatUUIDBytes value =
     (if length value \<noteq> 16 then []
      else let e = hex_encode value
           in take 8 e @ ''-'' @ take 4 (drop 8 e) @ ''-'' @ take 4 (drop 12 e) @ ''-'' @
              take 4 (drop 16 e) @ ''-'' @ take 12 (drop 20 e))"

text \<open>
  The derived identifiers (effects, mail events): the first sixteen bytes of a digest with the
  version and variant bits of a UUID written over bytes six and eight.
\<close>

definition uuid_of_digest :: "bytes \<Rightarrow> bytes" where
  "uuid_of_digest digest =
     (let d = take 16 digest; d1 = d[6 := (d ! 6 AND 0x0f) OR 0x50]
      in d1[8 := (d1 ! 8 AND 0x3f) OR 0x80])"

section \<open>Client projection\<close>

definition effectView :: "timed_effect \<Rightarrow> effect_view" where
  "effectView e = EffectView (formatUUIDBytes (eff_instance_id e)) (eff_item_or_pest_id e)
     (eff_config_version e) (eff_start_at_ms e) (eff_end_at_ms e) (eff_source_player_id e)"

definition harvestable :: "plot \<Rightarrow> u32" where
  "harvestable p =
     (if pl_state p = MATURE \<and> pl_stolen_quantity p \<le> pl_base_yield p
      then pl_base_yield p - pl_stolen_quantity p else 0)"

definition plotView :: "plot \<Rightarrow> plot_view" where
  "plotView p = PlotView (pl_id p) (pl_state p) (pl_crop_id p) (pl_crop_config_version p)
     (pl_planted_at_ms p)
     (case pl_estimated_mature_at_ms p of None \<Rightarrow> 0 | Some e \<Rightarrow> e)
     (harvestable p)
     (map_option effectView (pl_fertilizer_effect p)) (map_option effectView (pl_pest_effect p))"

definition taskView :: "task \<Rightarrow> task_view" where
  "taskView t = TaskProgressView (tk_id t) (tk_current t) (tk_target t) (tk_target t \<le> tk_current t)"

definition chapterView :: "state \<Rightarrow> chapter_view" where
  "chapterView s = ChapterView (st_chapter_id s) (st_chapter s)
     (map taskView (sort_key tk_id (st_tasks s)))"

definition careerView :: "state \<Rightarrow> career_view" where
  "careerView s = (case st_career s of
       None \<Rightarrow> PlayerCareerView 0 0
     | Some c \<Rightarrow> PlayerCareerView (car_total_harvested c) (car_total_stolen c))"

definition compendiumView :: "state \<Rightarrow> compendium_view" where
  "compendiumView s = CropCompendiumView (case st_crop_compendium s of None \<Rightarrow> [] | Some ids \<Rightarrow> ids)"

definition inventoryView :: "(u32, u32) fmap \<Rightarrow> item_stack_view list" where
  "inventoryView items =
     map (\<lambda>i. ItemStackView i (map_get items i)) (filter (\<lambda>i. 0 < map_get items i) (map_keys items))"

definition plotsView :: "(u32, plot) fmap \<Rightarrow> plot_view list" where
  "plotsView ps = map (\<lambda>i. plotView (the (fmlookup ps i))) (map_keys ps)"

definition Snapshot :: "state \<Rightarrow> player_snapshot" where
  "Snapshot s = PlayerSnapshot (st_player_id s) (st_coins s) (inventoryView (st_inventory s))
     (plotsView (st_plots s)) (chapterView s) (st_config_version s) (careerView s)
     (compendiumView s)"

section \<open>Career and compendium\<close>

definition ensureCareer :: "state \<Rightarrow> state" where
  "ensureCareer s = (case st_career s of
       None \<Rightarrow> s\<lparr>st_career := Some \<lparr>car_total_harvested = 0, car_total_stolen = 0\<rparr>\<rparr>
     | Some _ \<Rightarrow> s)"

definition careerOf :: "state \<Rightarrow> career_record" where
  "careerOf s = (case st_career s of
       None \<Rightarrow> \<lparr>car_total_harvested = 0, car_total_stolen = 0\<rparr> | Some c \<Rightarrow> c)"

definition checkedAddUint64 :: "u64 \<Rightarrow> u64 \<Rightarrow> u64 option" where
  "checkedAddUint64 current delta = (if delta > max_u64 - current then None else Some (current + delta))"

definition addHarvestedCareer :: "state \<Rightarrow> u32 \<Rightarrow> state option" where
  "addHarvestedCareer s quantity =
     (if quantity = 0 then Some s
      else case checkedAddUint64 (car_total_harvested (careerOf s)) (ucast quantity) of
             None \<Rightarrow> None
           | Some n \<Rightarrow> Some (s\<lparr>st_career := Some ((careerOf s)\<lparr>car_total_harvested := n\<rparr>)\<rparr>))"

definition addStolenCareer :: "state \<Rightarrow> u32 \<Rightarrow> state option" where
  "addStolenCareer s quantity =
     (if quantity = 0 then Some s
      else case checkedAddUint64 (car_total_stolen (careerOf s)) (ucast quantity) of
             None \<Rightarrow> None
           | Some n \<Rightarrow> Some (s\<lparr>st_career := Some ((careerOf s)\<lparr>car_total_stolen := n\<rparr>)\<rparr>))"

definition unlockCrop :: "state \<Rightarrow> u32 \<Rightarrow> state" where
  "unlockCrop s cropID =
     (if cropID = 0 then s
      else let ids = (case st_crop_compendium s of None \<Rightarrow> [] | Some ids \<Rightarrow> ids)
           in if cropID \<in> set ids then s\<lparr>st_crop_compendium := Some ids\<rparr>
              else s\<lparr>st_crop_compendium := Some (sort (ids @ [cropID]))\<rparr>)"

text \<open>
  The defensive loop of \<open>normalizeCompendium\<close> over the sorted identifiers: \<open>fst_it\<close> is \<open>i = 0\<close>,
  \<open>prev\<close> the identifier kept most recently.
\<close>

fun compendium_unique :: "bool \<Rightarrow> u32 \<Rightarrow> u32 list \<Rightarrow> u32 list" where
  "compendium_unique fst_it prev [] = []"
| "compendium_unique fst_it prev (i # is) =
     (if i = 0 then compendium_unique False prev is
      else if \<not> fst_it \<and> i = prev then compendium_unique False prev is
      else i # compendium_unique False i is)"

definition normalizeCompendium :: "u32 list \<Rightarrow> u32 list" where
  "normalizeCompendium ids = compendium_unique True 0 (sort ids)"

section \<open>Pet state\<close>

text \<open>\<open>ensurePetState\<close> of \<open>pet.go\<close>: the record is created on first use; readers take \<open>nil\<close> for an empty one.\<close>

definition empty_pet :: pet_record where
  "empty_pet = \<lparr>pet_owned_ids = [], pet_active_id = 0, pet_food_active_until_ms = 0\<rparr>"

definition ensurePetState :: "state \<Rightarrow> state" where
  "ensurePetState s = (case st_pet_state s of None \<Rightarrow> s\<lparr>st_pet_state := Some empty_pet\<rparr> | Some _ \<Rightarrow> s)"

definition petOf :: "state \<Rightarrow> pet_record" where
  "petOf s = (case st_pet_state s of None \<Rightarrow> empty_pet | Some p \<Rightarrow> p)"

section \<open>What visitors may do\<close>

definition CanSteal :: "plot \<Rightarrow> bool" where
  "CanSteal p \<longleftrightarrow>
     pl_state p = MATURE \<and> pl_steal_quantity p \<noteq> 0 \<and> pl_max_steal_times p \<noteq> 0 \<and>
     \<not> pl_max_steal_times p \<le> pl_steal_count p \<and>
     unat (pl_stolen_quantity p) + unat (pl_steal_quantity p) + unat (pl_protected_owner_yield p)
       \<le> unat (pl_base_yield p)"

definition visitorAlreadyStole :: "plot \<Rightarrow> u64 \<Rightarrow> bool" where
  "visitorAlreadyStole p visitorID \<longleftrightarrow> visitorID \<noteq> 0 \<and> visitorID \<in> set (pl_steal_visitor_ids p)"

definition CanApplyPest :: "plot \<Rightarrow> bool" where
  "CanApplyPest p \<longleftrightarrow> pl_state p = GROWING \<and> pl_pest_effect p = None"

definition CanCatchPest :: "plot \<Rightarrow> u64 \<Rightarrow> bool" where
  "CanCatchPest p catcher \<longleftrightarrow>
     pl_state p = GROWING \<and>
     (case pl_pest_effect p of
        None \<Rightarrow> False
      | Some e \<Rightarrow> eff_source_player_id e = None \<or> eff_source_player_id e \<noteq> Some catcher)"

definition CanHelpClean :: "plot \<Rightarrow> bool" where
  "CanHelpClean p \<longleftrightarrow> pl_state p = NEED_CLEANUP"

section \<open>Public plot changes\<close>

type_synonym domain_changes = "u32 fset"

definition PlotChanged :: "domain_changes \<Rightarrow> u32 \<Rightarrow> domain_changes" where
  "PlotChanged c plotID = (if plotID = 0 then c else finsert plotID c)"

definition mergeChanges :: "domain_changes \<Rightarrow> domain_changes \<Rightarrow> domain_changes" where
  "mergeChanges c other = fold (\<lambda>i acc. PlotChanged acc i) (sorted_list_of_fset other) c"

definition PlotIDs :: "domain_changes \<Rightarrow> u32 list" where
  "PlotIDs c = sorted_list_of_fset c"

definition DomainChangesFromPlotIDs :: "u32 list \<Rightarrow> domain_changes" where
  "DomainChangesFromPlotIDs ids = fold (\<lambda>i c. PlotChanged c i) ids {||}"

section \<open>Lemmas\<close>

lemmas initial_consts = InitialCoinBalance_def BasicFertilizerID_def InitialPlotID_def
  InitialPlotCount_def InitialChapterID_def ServerConfigVersion_def LocalOwnerEpoch_def
  ProtocolVersion_def

lemma initial_plot_ids_eq:
  "initial_plot_ids = [1, 2, 3, 4, 5, 6, 7, 8, 9, 10, 11, 12, 13, 14, 15, 16]"
  by (simp add: initial_plot_ids_def initial_consts upt_rec)

lemma empty_plot_simps [simp]:
  "pl_id (empty_plot i) = i" "pl_state (empty_plot i) = EMPTY" "pl_crop_id (empty_plot i) = 0"
  "pl_fertilizer_effect (empty_plot i) = None" "pl_pest_effect (empty_plot i) = None"
  "pl_estimated_mature_at_ms (empty_plot i) = None" "pl_steal_visitor_ids (empty_plot i) = []"
  by (simp_all add: empty_plot_def)

lemma fmlookup_fold_upd:
  "fmlookup (fold (\<lambda>i m. fmupd i (f i) m) ids m) k = (if k \<in> set ids then Some (f k) else fmlookup m k)"
  by (induction ids arbitrary: m) auto

lemma newInitialPlots_lookup:
  "fmlookup newInitialPlots k = (if k \<in> set initial_plot_ids then Some (empty_plot k) else None)"
  by (simp add: newInitialPlots_def fmlookup_fold_upd)

lemma backfill_plots_lookup:
  "fmlookup (snd (backfill_plots ids b m)) k =
     (case fmlookup m k of Some p \<Rightarrow> Some p
      | None \<Rightarrow> if k \<in> set ids then Some (empty_plot k) else None)"
  by (induction ids b m rule: backfill_plots.induct) (auto split: option.splits)

lemma backfill_plots_flag:
  "fst (backfill_plots ids b m) \<longleftrightarrow> b \<or> (\<exists>i \<in> set ids. fmlookup m i = None)"
  by (induction ids b m rule: backfill_plots.induct) (auto split: option.splits if_splits)

lemma fset_fold_PlotChanged:
  "fset (fold (\<lambda>i c. PlotChanged c i) ids c) = fset c \<union> (set ids - {0})"
  by (induction ids arbitrary: c) (auto simp: PlotChanged_def)

lemma PlotIDs_FromPlotIDs:
  "PlotIDs (DomainChangesFromPlotIDs ids) = sorted_list_of_set (set ids - {0})"
  by (simp add: PlotIDs_def DomainChangesFromPlotIDs_def sorted_list_of_fset.rep_eq
      fset_fold_PlotChanged)

lemma ensurePetState_frame [simp]:
  "st_coins (ensurePetState s) = st_coins s" "st_inventory (ensurePetState s) = st_inventory s"
  "st_plots (ensurePetState s) = st_plots s" "st_tasks (ensurePetState s) = st_tasks s"
  "st_chapter (ensurePetState s) = st_chapter s" "st_chapter_id (ensurePetState s) = st_chapter_id s"
  "st_chapter_config_version (ensurePetState s) = st_chapter_config_version s"
  "st_player_id (ensurePetState s) = st_player_id s" "st_player_seq (ensurePetState s) = st_player_seq s"
  "st_owner_epoch (ensurePetState s) = st_owner_epoch s"
  "st_checkpoint_revision (ensurePetState s) = st_checkpoint_revision s"
  "st_recent_results (ensurePetState s) = st_recent_results s"
  "st_pending_outbox (ensurePetState s) = st_pending_outbox s"
  "st_career (ensurePetState s) = st_career s" "st_crop_compendium (ensurePetState s) = st_crop_compendium s"
  "st_pet_state (ensurePetState s) = Some (petOf s)"
  by (simp_all add: ensurePetState_def petOf_def split: option.splits)

lemma petOf_ensure [simp]: "petOf (ensurePetState s) = petOf s"
  by (simp add: petOf_def)

lemma checkedAddUint64_Some:
  assumes "checkedAddUint64 a b = Some c"
  shows "unat c = unat a + unat b"
proof -
  have le: "b \<le> max_u64 - a" and c: "c = a + b"
    using assms by (auto simp: checkedAddUint64_def not_less split: if_splits)
  have "unat (max_u64 - a) = unat max_u64 - unat a"
    by (rule unat_sub) (simp add: max_u64_def word_le_nat_alt unsigned_less [of a, simplified] less_Suc_eq_le [symmetric])
  then have "unat a + unat b < 2 ^ 64"
    using le unsigned_less [of a, where ?'a = nat] by (simp add: word_le_nat_alt max_u64_def)
  then show ?thesis
    by (simp add: c unat_word_ariths)
qed

text \<open>A compendium is well formed when it is strictly ascending and free of zero.\<close>

definition ids_ok :: "u32 list \<Rightarrow> bool" where
  "ids_ok ids \<longleftrightarrow> sorted_wrt (<) ids \<and> 0 \<notin> set ids"

lemma sort_strict: "distinct xs \<Longrightarrow> sorted_wrt (<) (sort (xs :: u32 list))"
  by (simp add: strict_sorted_iff)

lemma strict_distinct: "sorted_wrt (<) (xs :: u32 list) \<Longrightarrow> distinct xs"
  by (simp add: strict_sorted_iff)

lemma ids_ok_insert:
  "ids_ok ids \<Longrightarrow> i \<noteq> 0 \<Longrightarrow> i \<notin> set ids \<Longrightarrow> ids_ok (sort (ids @ [i]))"
  by (simp add: ids_ok_def sort_strict strict_distinct)

lemma compendium_unique_False:
  "sorted ids \<Longrightarrow> \<forall>i \<in> set ids. prev \<le> i \<Longrightarrow>
     sorted_wrt (<) (compendium_unique False prev ids) \<and>
     set (compendium_unique False prev ids) = set ids - {0, prev}"
proof (induction ids arbitrary: prev)
  case Nil
  then show ?case by simp
next
  case (Cons i "is")
  have *: "sorted is" "\<forall>j \<in> set is. i \<le> j" "\<forall>j \<in> set is. prev \<le> j" "prev \<le> i"
    using Cons.prems by auto
  show ?case
    using Cons.IH [OF *(1,2)] Cons.IH [OF *(1,3)] *(2,4) by (auto simp: less_le)
qed

lemma compendium_unique_Cons:
  assumes "i \<noteq> 0" "sorted (i # is)"
  shows "sorted_wrt (<) (compendium_unique True 0 (i # is)) \<and>
    set (compendium_unique True 0 (i # is)) = set (i # is) - {0}"
proof -
  have "sorted is" "\<forall>j \<in> set is. i \<le> j"
    using assms(2) by auto
  then have u: "sorted_wrt (<) (compendium_unique False i is)"
    "set (compendium_unique False i is) = set is - {0, i}"
    using compendium_unique_False by blast+
  have "\<forall>j \<in> set is - {0, i}. i < j"
    using \<open>\<forall>j \<in> set is. i \<le> j\<close> by (auto simp: less_le)
  with u assms(1) show ?thesis by auto
qed

lemma compendium_unique_True:
  assumes "sorted ids"
  shows "sorted_wrt (<) (compendium_unique True 0 ids) \<and>
    set (compendium_unique True 0 ids) = set ids - {0}"
proof (cases ids)
  case Nil
  then show ?thesis by simp
next
  case (Cons i "is")
  show ?thesis
  proof (cases "i = 0")
    case True
    then show ?thesis
      using compendium_unique_False [of "is" 0] assms by (auto simp: Cons)
  next
    case False
    then show ?thesis
      using compendium_unique_Cons assms unfolding Cons by blast
  qed
qed

text \<open>The defensive normalisation keeps the set of unlocked crops and makes the list well formed.\<close>

lemma normalizeCompendium_ok: "ids_ok (normalizeCompendium ids)"
  and set_normalizeCompendium: "set (normalizeCompendium ids) = set ids - {0}"
  using compendium_unique_True [of "sort ids"] by (simp_all add: ids_ok_def normalizeCompendium_def)

lemma normalizeCompendium_id:
  assumes "ids_ok ids"
  shows "normalizeCompendium ids = ids"
proof (rule sorted_distinct_set_unique)
  show "sorted (normalizeCompendium ids)" "distinct (normalizeCompendium ids)"
    using normalizeCompendium_ok [of ids] by (auto simp: ids_ok_def strict_sorted_iff)
  show "sorted ids" "distinct ids"
    using assms by (auto simp: ids_ok_def strict_sorted_iff)
  show "set (normalizeCompendium ids) = set ids"
    using assms by (auto simp: set_normalizeCompendium ids_ok_def)
qed

end
