(* ===== verification/Growth.thy ===== *)
theory Growth
  imports Farm_State
begin

text \<open>
  Crop growth (\<open>server/internal/player/growth.go\<close>): a plot accumulates fixed-point growth at a
  base rate that a fertilizer raises and a pest lowers for a limited time; the server settles it
  lazily, stores the next maturity instant as an estimate and turns a due plot \<open>MATURE\<close>.

  A Go \<open>error\<close> is \<open>None\<close>. \<open>big.Int\<close> is \<open>int\<close>; an \<open>int64\<close> difference is written with \<open>to_i64\<close>.

  The reference is \<open>growth_sum\<close>, the sum over the milliseconds of an interval of the rate in
  force: \<open>growthBetween\<close> computes it by segments, \<open>estimatePlotMatureAtMS\<close> inverts it, and
  settling twice is settling once.
\<close>

section \<open>Definitions\<close>

definition effects_of :: "plot \<Rightarrow> timed_effect list" where
  "effects_of p = (case pl_fertilizer_effect p of None \<Rightarrow> [] | Some e \<Rightarrow> [e]) @
     (case pl_pest_effect p of None \<Rightarrow> [] | Some e \<Rightarrow> [e])"

definition effect_active :: "timed_effect \<Rightarrow> int \<Rightarrow> bool" where
  "effect_active e atMS \<longleftrightarrow> eff_start_at_ms e \<le> atMS \<and> atMS < eff_end_at_ms e"

fun add_modifiers :: "int \<Rightarrow> timed_effect list \<Rightarrow> int \<Rightarrow> int option" where
  "add_modifiers atMS [] rate = Some rate"
| "add_modifiers atMS (e # es) rate =
     (if effect_active e atMS
      then (case eff_modifier e of None \<Rightarrow> None | Some m \<Rightarrow> add_modifiers atMS es (rate + m))
      else add_modifiers atMS es rate)"

definition effectiveRateScaled6 :: "plot \<Rightarrow> int \<Rightarrow> int option" where
  "effectiveRateScaled6 p atMS =
     (case add_modifiers atMS (effects_of p) (pl_base_rate_scaled6 p) of
        None \<Rightarrow> None
      | Some rate \<Rightarrow> if \<not> in_i64 rate \<or> rate \<le> 0 then None else Some rate)"

fun growth_segments :: "plot \<Rightarrow> int list \<Rightarrow> int \<Rightarrow> int option" where
  "growth_segments p (left # right # rest) acc =
     (if right \<le> left then growth_segments p (right # rest) acc
      else case effectiveRateScaled6 p left of
             None \<Rightarrow> None
           | Some rate \<Rightarrow> growth_segments p (right # rest) (acc + to_i64 (right - left) * rate))"
| "growth_segments p _ acc = Some acc"

definition growthBetween :: "plot \<Rightarrow> int \<Rightarrow> int \<Rightarrow> int option" where
  "growthBetween p startMS endMS =
     (if endMS < startMS then None
      else let inner = concat (map (\<lambda>e.
                 (if startMS < eff_start_at_ms e \<and> eff_start_at_ms e < endMS then [eff_start_at_ms e] else []) @
                 (if startMS < eff_end_at_ms e \<and> eff_end_at_ms e < endMS then [eff_end_at_ms e] else []))
               (effects_of p))
           in growth_segments p (sort ([startMS, endMS] @ inner)) 0)"

definition addGrowthDuration :: "int \<Rightarrow> int \<Rightarrow> int \<Rightarrow> int option" where
  "addGrowthDuration fromMS remaining rate =
     (if remaining \<le> 0 \<or> rate \<le> 0 then None
      else let quotient = go_quo remaining rate;
               quotient = (if go_rem remaining rate \<noteq> 0 then quotient + 1 else quotient)
           in if \<not> in_i64 quotient then None
              else if quotient \<le> 0 \<or> fromMS > max_i64 - quotient then None
              else Some (fromMS + quotient))"

fun estimate_loop :: "plot \<Rightarrow> int list \<Rightarrow> int \<Rightarrow> int \<Rightarrow> int option" where
  "estimate_loop p [] cursor remaining =
     (case effectiveRateScaled6 p cursor of
        None \<Rightarrow> None | Some rate \<Rightarrow> addGrowthDuration cursor remaining rate)"
| "estimate_loop p (b # bs) cursor remaining =
     (if b \<le> cursor then estimate_loop p bs cursor remaining
      else case effectiveRateScaled6 p cursor of
             None \<Rightarrow> None
           | Some rate \<Rightarrow>
               (let capacity = to_i64 (b - cursor) * rate
                in if remaining \<le> capacity then addGrowthDuration cursor remaining rate
                   else estimate_loop p bs b (remaining - capacity)))"

definition estimatePlotMatureAtMS :: "plot \<Rightarrow> int \<Rightarrow> int option" where
  "estimatePlotMatureAtMS p fromMS =
     (let remaining = to_i64 (pl_maturity_scaled9 p - pl_settled_scaled9 p)
      in if remaining \<le> 0 then None
         else let bounds = concat (map (\<lambda>e.
                    (if fromMS < eff_start_at_ms e then [eff_start_at_ms e] else []) @
                    (if fromMS < eff_end_at_ms e then [eff_end_at_ms e] else []))
                  (effects_of p))
              in estimate_loop p (sort bounds) fromMS remaining)"

definition estimateMatureAtMS :: "int \<Rightarrow> int \<Rightarrow> int \<Rightarrow> int option" where
  "estimateMatureAtMS fromMS remaining rate =
     (if remaining \<le> 0 \<or> rate \<le> 0 then None
      else let duration = go_quo remaining rate;
               duration = (if go_rem remaining rate \<noteq> 0 then duration + 1 else duration)
           in if duration \<le> 0 \<or> fromMS > max_i64 - duration then None
              else Some (fromMS + duration))"

text \<open>
  \<open>settleGrowingPlot\<close> mutates the plot it is given, also on one of its error paths, so the model
  returns the outcome (\<open>None\<close> an error, \<open>Some b\<close> whether it matured) and the plot.
\<close>

definition drop_expired :: "int \<Rightarrow> timed_effect option \<Rightarrow> timed_effect option" where
  "drop_expired nowMS e = (case e of
       None \<Rightarrow> None | Some x \<Rightarrow> if eff_end_at_ms x \<le> nowMS then None else Some x)"

definition growing_fields_ok :: "plot \<Rightarrow> bool" where
  "growing_fields_ok p \<longleftrightarrow>
     0 < pl_maturity_scaled9 p \<and> 0 < pl_base_rate_scaled6 p \<and> 0 \<le> pl_settled_scaled9 p \<and>
     pl_settled_scaled9 p < pl_maturity_scaled9 p \<and> pl_planted_at_ms p \<le> pl_last_settled_at_ms p"

definition settleGrowingPlot :: "plot \<Rightarrow> int \<Rightarrow> bool option \<times> plot" where
  "settleGrowingPlot p serverNowMS =
     (if pl_state p \<noteq> GROWING \<or> \<not> growing_fields_ok p then (None, p)
      else let nowMS = max serverNowMS (pl_last_settled_at_ms p);
               remaining = pl_maturity_scaled9 p - pl_settled_scaled9 p
           in case growthBetween p (pl_last_settled_at_ms p) nowMS of
                None \<Rightarrow> (None, p)
              | Some delta \<Rightarrow>
                  if remaining \<le> delta then
                    (Some True, p\<lparr>pl_settled_scaled9 := pl_maturity_scaled9 p,
                       pl_last_settled_at_ms := nowMS, pl_state := MATURE,
                       pl_estimated_mature_at_ms := None, pl_fertilizer_effect := None,
                       pl_pest_effect := None\<rparr>)
                  else
                    let p1 = p\<lparr>pl_settled_scaled9 := pl_settled_scaled9 p + delta,
                          pl_last_settled_at_ms := nowMS,
                          pl_fertilizer_effect := drop_expired nowMS (pl_fertilizer_effect p),
                          pl_pest_effect := drop_expired nowMS (pl_pest_effect p)\<rparr>
                    in case estimatePlotMatureAtMS p1 nowMS of
                         None \<Rightarrow> (None, p1)
                       | Some m \<Rightarrow> (Some False, p1\<lparr>pl_estimated_mature_at_ms := Some m\<rparr>))"

record maturity_event =
  me_player_id :: u64
  me_owner_epoch :: u64
  me_player_seq :: u64
  me_server_time_ms :: int
  me_plot :: plot_view
  me_stealable :: bool

definition mature_bookkeeping :: "int \<Rightarrow> state \<Rightarrow> state" where
  "mature_bookkeeping nowMS s = s\<lparr>st_player_seq := st_player_seq s + 1,
     st_checkpoint_revision := st_checkpoint_revision s + 1,
     st_updated_at_ms := max nowMS (st_updated_at_ms s)\<rparr>"

definition event_for :: "int \<Rightarrow> state \<Rightarrow> plot \<Rightarrow> maturity_event" where
  "event_for nowMS s p = \<lparr>me_player_id = st_player_id s, me_owner_epoch = st_owner_epoch s,
     me_player_seq = st_player_seq s, me_server_time_ms = nowMS, me_plot = plotView p,
     me_stealable = CanSteal p\<rparr>"

definition not_yet_due :: "int \<Rightarrow> plot \<Rightarrow> bool" where
  "not_yet_due nowMS p \<longleftrightarrow>
     pl_state p \<noteq> GROWING \<or>
     (case pl_estimated_mature_at_ms p of None \<Rightarrow> False | Some m \<Rightarrow> nowMS < m)"

text \<open>The loop over the sorted plot identifiers; the flag tells whether it stopped with an error.\<close>

fun materialize_loop ::
  "int \<Rightarrow> u32 list \<Rightarrow> maturity_event list \<Rightarrow> state \<Rightarrow> bool \<times> maturity_event list \<times> state" where
  "materialize_loop nowMS [] evs s = (True, evs, s)"
| "materialize_loop nowMS (i # is) evs s =
     (case fmlookup (st_plots s) i of
        None \<Rightarrow> materialize_loop nowMS is evs s
      | Some p \<Rightarrow>
          if not_yet_due nowMS p then materialize_loop nowMS is evs s
          else case settleGrowingPlot p nowMS of
                 (None, p') \<Rightarrow> (False, evs, s\<lparr>st_plots := fmupd i p' (st_plots s)\<rparr>)
               | (Some False, p') \<Rightarrow>
                   materialize_loop nowMS is evs (s\<lparr>st_plots := fmupd i p' (st_plots s)\<rparr>)
               | (Some True, p') \<Rightarrow>
                   let s' = mature_bookkeeping nowMS (s\<lparr>st_plots := fmupd i p' (st_plots s)\<rparr>)
                   in materialize_loop nowMS is (evs @ [event_for nowMS s' p']) s')"

definition materializeDueMaturities :: "state \<Rightarrow> int \<Rightarrow> bool \<times> maturity_event list \<times> state" where
  "materializeDueMaturities s nowMS = materialize_loop nowMS (map_keys (st_plots s)) [] s"

text \<open>\<open>maturedPlotIDs\<close> of \<open>runtime.go\<close> and the tick of \<open>actor_tick.go\<close>.\<close>

definition maturedPlotIDs :: "maturity_event list \<Rightarrow> u32 list" where
  "maturedPlotIDs evs = filter (\<lambda>i. i \<noteq> 0) (map (\<lambda>e. pv_plot_id (me_plot e)) evs)"

definition nextTickAt :: "state \<Rightarrow> int option" where
  "nextTickAt s =
     (let es = [m. i \<leftarrow> map_keys (st_plots s), p \<leftarrow> [the (fmlookup (st_plots s) i)],
                   pl_state p = GROWING, m \<leftarrow> (case pl_estimated_mature_at_ms p of None \<Rightarrow> [] | Some m \<Rightarrow> [m])]
      in if es = [] then None else Some (Min (set es)))"

record tick_result =
  tr_dirty_revision :: u64
  tr_events :: "maturity_event list"
  tr_changes :: domain_changes
  tr_next_tick_at :: "int option"

definition tick :: "state \<Rightarrow> int \<Rightarrow> tick_result option \<times> state" where
  "tick s nowMS =
     (case materializeDueMaturities s nowMS of
        (False, _, s') \<Rightarrow> (None, s')
      | (True, evs, s') \<Rightarrow>
          (Some \<lparr>tr_dirty_revision = st_checkpoint_revision s', tr_events = evs,
             tr_changes = DomainChangesFromPlotIDs (maturedPlotIDs evs),
             tr_next_tick_at = nextTickAt s'\<rparr>, s'))"

section \<open>The reference: growth millisecond by millisecond\<close>

definition rate_at :: "plot \<Rightarrow> int \<Rightarrow> int" where
  "rate_at p t = pl_base_rate_scaled6 p +
     (\<Sum>e \<leftarrow> effects_of p. if effect_active e t then the (eff_modifier e) else 0)"

definition growth_sum :: "plot \<Rightarrow> int \<Rightarrow> int \<Rightarrow> int" where
  "growth_sum p a b = (\<Sum>t \<in> {a..<b}. rate_at p t)"

definition rate_valid :: "plot \<Rightarrow> int \<Rightarrow> bool" where
  "rate_valid p t \<longleftrightarrow> effectiveRateScaled6 p t \<noteq> None"

text \<open>The instants at which the rate can change.\<close>

definition breakpoints :: "plot \<Rightarrow> int set" where
  "breakpoints p = (\<Union>e \<in> set (effects_of p). {eff_start_at_ms e, eff_end_at_ms e})"

lemma add_modifiers_Some:
  "add_modifiers t es r = Some r' \<Longrightarrow>
     r' = r + (\<Sum>e \<leftarrow> es. if effect_active e t then the (eff_modifier e) else 0)"
proof (induction es arbitrary: r)
  case (Cons e es)
  then show ?case
    by (auto split: if_splits option.splits dest: Cons.IH)
qed simp

lemma effectiveRate_Some:
  "effectiveRateScaled6 p t = Some r \<Longrightarrow> r = rate_at p t \<and> 0 < r \<and> in_i64 r"
  by (auto simp: effectiveRateScaled6_def rate_at_def dest: add_modifiers_Some
      split: option.splits if_splits)

lemma rate_valid_Some: "rate_valid p t \<Longrightarrow> effectiveRateScaled6 p t = Some (rate_at p t)"
  using effectiveRate_Some by (auto simp: rate_valid_def)

lemma rate_valid_pos: "rate_valid p t \<Longrightarrow> 0 < rate_at p t"
  using effectiveRate_Some by (auto simp: rate_valid_def)

lemma effect_active_stable:
  assumes "e \<in> set (effects_of p)" "l \<le> t" "t < r" "\<forall>x \<in> breakpoints p. l < x \<longrightarrow> r \<le> x"
  shows "effect_active e t = effect_active e l"
proof -
  have "l < eff_start_at_ms e \<Longrightarrow> r \<le> eff_start_at_ms e" "l < eff_end_at_ms e \<Longrightarrow> r \<le> eff_end_at_ms e"
    using assms(1,4) by (auto simp: breakpoints_def)
  with assms(2,3) show ?thesis
    unfolding effect_active_def by linarith
qed

lemma add_modifiers_cong:
  "(\<And>e. e \<in> set es \<Longrightarrow> effect_active e t = effect_active e l) \<Longrightarrow>
     add_modifiers t es r = add_modifiers l es r"
  by (induction es arbitrary: r) (auto split: option.splits)

lemma effectiveRate_stable:
  assumes "l \<le> t" "t < r" "\<forall>x \<in> breakpoints p. l < x \<longrightarrow> r \<le> x"
  shows "effectiveRateScaled6 p t = effectiveRateScaled6 p l"
proof -
  have "add_modifiers t (effects_of p) b = add_modifiers l (effects_of p) b" for b
    by (rule add_modifiers_cong) (rule effect_active_stable [OF _ assms])
  then show ?thesis by (simp add: effectiveRateScaled6_def)
qed

lemma rate_at_stable:
  assumes "l \<le> t" "t < r" "\<forall>x \<in> breakpoints p. l < x \<longrightarrow> r \<le> x"
  shows "rate_at p t = rate_at p l"
proof -
  have "map (\<lambda>e. if effect_active e t then the (eff_modifier e) else 0) (effects_of p) =
    map (\<lambda>e. if effect_active e l then the (eff_modifier e) else 0) (effects_of p)"
    using effect_active_stable [OF _ assms] by auto
  then show ?thesis by (simp only: rate_at_def)
qed

lemma growth_sum_split: "a \<le> b \<Longrightarrow> b \<le> c \<Longrightarrow> growth_sum p a c = growth_sum p a b + growth_sum p b c"
  unfolding growth_sum_def
  by (subst sum.union_disjoint [symmetric]) (auto intro: sum.cong)

lemma growth_sum_empty [simp]: "b \<le> a \<Longrightarrow> growth_sum p a b = 0"
  by (simp add: growth_sum_def)

lemma growth_sum_segment:
  assumes "l \<le> r" "\<forall>x \<in> breakpoints p. l < x \<longrightarrow> r \<le> x"
  shows "growth_sum p l r = (r - l) * rate_at p l"
proof -
  have "rate_at p t = rate_at p l" if "t \<in> {l..<r}" for t
    using that by (intro rate_at_stable [OF _ _ assms(2)]) auto
  then have "growth_sum p l r = (\<Sum>t \<in> {l..<r}. rate_at p l)"
    unfolding growth_sum_def by (rule sum.cong [OF refl])
  then show ?thesis using assms(1) by simp
qed

lemma growth_sum_nonneg: "(\<And>t. a \<le> t \<Longrightarrow> t < b \<Longrightarrow> rate_valid p t) \<Longrightarrow> 0 \<le> growth_sum p a b"
  unfolding growth_sum_def by (rule sum_nonneg) (auto intro: less_imp_le dest: rate_valid_pos)

lemma growth_sum_mono:
  assumes "a \<le> b" "b \<le> c" "\<And>t. b \<le> t \<Longrightarrow> t < c \<Longrightarrow> rate_valid p t"
  shows "growth_sum p a b \<le> growth_sum p a c"
  using growth_sum_split [OF assms(1,2), of p] growth_sum_nonneg [of b c p, OF assms(3)] by simp

section \<open>Segments compute the sum\<close>

text \<open>An instant and all breakpoints of a plot are representable, so differences do not wrap.\<close>

definition span_ok :: "plot \<Rightarrow> int \<Rightarrow> bool" where
  "span_ok p t \<longleftrightarrow> 0 \<le> t \<and> t \<le> max_i64 \<and> (\<forall>x \<in> breakpoints p. 0 \<le> x \<and> x \<le> max_i64)"

lemma to_i64_diff: "0 \<le> a \<Longrightarrow> a \<le> b \<Longrightarrow> b \<le> max_i64 \<Longrightarrow> to_i64 (b - a) = b - a"
  by (rule to_i64_id) (auto simp: in_i64_def)

definition all_valid :: "plot \<Rightarrow> int \<Rightarrow> int \<Rightarrow> bool" where
  "all_valid p a b \<longleftrightarrow> (\<forall>t. a \<le> t \<and> t < b \<longrightarrow> rate_valid p t)"

lemma all_valid_segment:
  assumes "l < r" "\<forall>x \<in> breakpoints p. l < x \<longrightarrow> r \<le> x"
  shows "all_valid p l r \<longleftrightarrow> rate_valid p l"
proof -
  have "rate_valid p t = rate_valid p l" if "l \<le> t" "t < r" for t
    using effectiveRate_stable [OF that assms(2)] by (simp add: rate_valid_def)
  with assms(1) show ?thesis unfolding all_valid_def by blast
qed

lemma all_valid_split:
  assumes "a \<le> b" "b \<le> c"
  shows "all_valid p a c \<longleftrightarrow> all_valid p a b \<and> all_valid p b c"
proof -
  have "a \<le> t \<and> t < c \<longleftrightarrow> (a \<le> t \<and> t < b) \<or> (b \<le> t \<and> t < c)" for t
    using assms by linarith
  then show ?thesis by (auto simp: all_valid_def)
qed

lemma growth_segments_eq:
  assumes "sorted (l # bs)" "\<forall>x \<in> set (l # bs). 0 \<le> x \<and> x \<le> max_i64"
    "\<forall>x \<in> breakpoints p. l < x \<and> x < last (l # bs) \<longrightarrow> x \<in> set bs"
  shows "growth_segments p (l # bs) acc =
    (if all_valid p l (last (l # bs)) then Some (acc + growth_sum p l (last (l # bs))) else None)"
  using assms
proof (induction bs arbitrary: l acc)
  case Nil
  then show ?case by (simp add: all_valid_def)
next
  case (Cons r rs)
  let ?z = "last (r # rs)"
  have z: "last (l # r # rs) = ?z" by simp
  have lr: "l \<le> r" and rz: "r \<le> ?z" and srt: "sorted (r # rs)"
    using Cons.prems(1) by (auto intro: last_in_set)
  have prem3: "\<forall>x \<in> breakpoints p. r < x \<and> x < ?z \<longrightarrow> x \<in> set rs"
    using Cons.prems(3) lr by auto
  have IH: "growth_segments p (r # rs) a =
    (if all_valid p r ?z then Some (a + growth_sum p r ?z) else None)" for a
    using Cons.IH [OF srt _ prem3] Cons.prems(2) by simp
  show ?case
  proof (cases "r \<le> l")
    case True
    with lr have "r = l" by simp
    then show ?thesis using IH by simp
  next
    case False
    have free: "\<forall>x \<in> breakpoints p. l < x \<longrightarrow> r \<le> x"
    proof (intro ballI impI)
      fix x assume "x \<in> breakpoints p" "l < x"
      show "r \<le> x"
      proof (cases "x < ?z")
        case True
        then have "x \<in> set (r # rs)"
          using Cons.prems(3) \<open>x \<in> breakpoints p\<close> \<open>l < x\<close> by simp
        then show ?thesis using srt by auto
      qed (use rz in simp)
    qed
    have "to_i64 (r - l) = r - l"
      using Cons.prems(2) lr by (intro to_i64_diff) auto
    then have seg: "to_i64 (r - l) * rate_at p l = growth_sum p l r"
      using growth_sum_segment [OF lr free] by simp
    have val: "all_valid p l ?z \<longleftrightarrow> rate_valid p l \<and> all_valid p r ?z"
      using all_valid_split [OF lr rz, of p] all_valid_segment [OF _ free] False by simp
    show ?thesis
    proof (cases "rate_valid p l")
      case True
      then show ?thesis
        using False IH seg val growth_sum_split [OF lr rz, of p] rate_valid_Some [OF True] by simp
    next
      case inval: False
      then have "effectiveRateScaled6 p l = None" by (simp add: rate_valid_def)
      then show ?thesis using False inval val by simp
    qed
  qed
qed

lemma sorted_last_max: "sorted xs \<Longrightarrow> x \<in> set xs \<Longrightarrow> x \<le> last xs"
  by (induction xs) auto

lemma growthBetween_eq:
  assumes "span_ok p a" "a \<le> b" "b \<le> max_i64"
  shows "growthBetween p a b = (if all_valid p a b then Some (growth_sum p a b) else None)"
proof -
  define inner where "inner = concat (map (\<lambda>e.
      (if a < eff_start_at_ms e \<and> eff_start_at_ms e < b then [eff_start_at_ms e] else []) @
      (if a < eff_end_at_ms e \<and> eff_end_at_ms e < b then [eff_end_at_ms e] else [])) (effects_of p))"
  have inner: "x \<in> set inner \<longleftrightarrow> x \<in> breakpoints p \<and> a < x \<and> x < b" for x
    by (auto simp: inner_def breakpoints_def)
  obtain l bs where xs: "sort ([a, b] @ inner) = l # bs"
    by (cases "sort ([a, b] @ inner)") (auto dest: arg_cong [where f = length])
  have set_xs: "set (l # bs) = {a, b} \<union> set inner"
    using arg_cong [OF xs, of set] by (simp only: set_sort) auto
  have srt: "sorted (l # bs)"
    using sorted_sort [of "[a, b] @ inner"] unfolding xs .
  have mem: "x \<in> set (l # bs) \<Longrightarrow> a \<le> x \<and> x \<le> b" for x
    using inner [of x] assms(2) unfolding set_xs by auto
  have ab: "a \<in> set (l # bs)" "b \<in> set (l # bs)"
    unfolding set_xs by auto
  have l: "l = a"
    using mem [of l] ab(1) srt by fastforce
  have z: "last (l # bs) = b"
    using mem [of "last (l # bs)"] sorted_last_max [OF srt ab(2)] last_in_set [of "l # bs"] by fastforce
  have "\<forall>x \<in> set (l # bs). 0 \<le> x \<and> x \<le> max_i64"
    using assms inner unfolding set_xs span_ok_def by auto
  moreover have "\<forall>x \<in> breakpoints p. l < x \<and> x < last (l # bs) \<longrightarrow> x \<in> set bs"
    unfolding z unfolding l
  proof (intro ballI impI)
    fix x assume "x \<in> breakpoints p" "a < x \<and> x < b"
    then have "x \<in> set (l # bs)" using inner [of x] unfolding set_xs by blast
    then show "x \<in> set bs" using \<open>a < x \<and> x < b\<close> l by simp
  qed
  ultimately have "growth_segments p (l # bs) 0 =
      (if all_valid p l (last (l # bs)) then Some (0 + growth_sum p l (last (l # bs))) else None)"
    by (rule growth_segments_eq [OF srt])
  then have "growth_segments p (sort ([a, b] @ inner)) 0 =
      (if all_valid p a b then Some (growth_sum p a b) else None)"
    unfolding z unfolding l xs by simp
  then show ?thesis
    using assms(2) unfolding growthBetween_def Let_def inner_def by (simp only: not_less if_False linorder_not_le [symmetric] split: if_split) simp
qed

section \<open>The estimate inverts the sum\<close>

text \<open>\<open>m\<close> is the first instant after \<open>c\<close> by which \<open>rem\<close> has grown, at valid rates throughout.\<close>

definition reaches :: "plot \<Rightarrow> int \<Rightarrow> int \<Rightarrow> int \<Rightarrow> bool" where
  "reaches p c rem m \<longleftrightarrow> c < m \<and> m \<le> max_i64 \<and> all_valid p c m \<and>
     growth_sum p c (m - 1) < rem \<and> rem \<le> growth_sum p c m"

lemma ceil_unique:
  fixes rem r d :: int
  assumes "0 < rem" "0 < r"
  shows "(if rem mod r \<noteq> 0 then rem div r + 1 else rem div r) = d \<longleftrightarrow> (d - 1) * r < rem \<and> rem \<le> d * r"
    (is "?c = d \<longleftrightarrow> _")
proof -
  have m: "0 \<le> rem mod r" "rem mod r < r" and e: "rem = rem div r * r + rem mod r"
    using assms(2) by simp_all
  have c: "(?c - 1) * r < rem \<and> rem \<le> ?c * r"
  proof (cases "rem mod r = 0")
    case True
    then show ?thesis using e assms(2) by (simp add: left_diff_distrib)
  next
    case False
    have "rem div r * r < rem" "rem \<le> rem div r * r + r" using e m False by linarith+
    then show ?thesis using False by (simp add: distrib_right)
  qed
  have "x = d" if x: "(x - 1) * r < rem" "rem \<le> x * r" and d: "(d - 1) * r < rem" "rem \<le> d * r" for x
  proof -
    have "(x - 1) * r < d * r" "(d - 1) * r < x * r" using x d by linarith+
    then have "x - 1 < d" "d - 1 < x" using assms(2) by simp_all
    then show ?thesis by simp
  qed
  with c show ?thesis by blast
qed

lemma addGrowthDuration_iff:
  assumes "0 < rem" "0 < r" "0 \<le> c"
  shows "addGrowthDuration c rem r = Some m \<longleftrightarrow>
    c < m \<and> m \<le> max_i64 \<and> (m - 1 - c) * r < rem \<and> rem \<le> (m - c) * r"
proof -
  define d where "d = (if rem mod r \<noteq> 0 then rem div r + 1 else rem div r)"
  have "addGrowthDuration c rem r = Some m \<longleftrightarrow>
    in_i64 d \<and> 0 < d \<and> c \<le> max_i64 - d \<and> m = c + d"
    using assms by (auto simp: addGrowthDuration_def go_quo_pos go_rem_pos Let_def d_def)
  also have "\<dots> \<longleftrightarrow> c < m \<and> m \<le> max_i64 \<and> d = m - c"
    using assms(3) by (auto simp: in_i64_def)
  also have "d = m - c \<longleftrightarrow> (m - 1 - c) * r < rem \<and> rem \<le> (m - c) * r"
    using ceil_unique [OF assms(1,2), of "m - c"] by (simp add: d_def diff_right_commute)
  finally show ?thesis .
qed

lemma segment_sum:
  assumes "\<forall>x \<in> breakpoints p. c < x \<longrightarrow> r \<le> x" "c \<le> m" "m \<le> r"
  shows "growth_sum p c m = (m - c) * rate_at p c"
  by (rule growth_sum_segment) (use assms in auto)

lemma reaches_in_segment:
  assumes "\<forall>x \<in> breakpoints p. c < x \<longrightarrow> r \<le> x" "c < m" "m \<le> r"
  shows "reaches p c rem m \<longleftrightarrow> m \<le> max_i64 \<and> rate_valid p c \<and>
    (m - 1 - c) * rate_at p c < rem \<and> rem \<le> (m - c) * rate_at p c"
proof -
  have "\<forall>x \<in> breakpoints p. c < x \<longrightarrow> m \<le> x" using assms by auto
  then show ?thesis
    using assms segment_sum [OF assms(1), of m] segment_sum [OF assms(1), of "m - 1"]
      all_valid_segment [of c m p]
    unfolding reaches_def by auto
qed

lemma rate_invalid_None: "\<not> rate_valid p t \<Longrightarrow> effectiveRateScaled6 p t = None"
  by (simp add: rate_valid_def)

lemma reaches_valid: "reaches p c rem m \<Longrightarrow> rate_valid p c"
  by (simp add: reaches_def all_valid_def)

lemma estimate_segment:
  assumes free: "\<forall>x \<in> breakpoints p. c < x \<longrightarrow> r \<le> x" and "c < r" "0 < rem" "0 \<le> c"
    "rate_valid p c" "rem \<le> growth_sum p c r"
  shows "addGrowthDuration c rem (rate_at p c) = Some m \<longleftrightarrow> reaches p c rem m"
proof -
  have pos: "0 < rate_at p c" using assms(5) by (rule rate_valid_pos)
  have sum_r: "growth_sum p c r = (r - c) * rate_at p c"
    using segment_sum [OF free, of r] assms(2) by simp
  show ?thesis
  proof (cases "c < m \<and> m \<le> r")
    case True
    then show ?thesis
      using addGrowthDuration_iff [OF assms(3) pos assms(4), of m] reaches_in_segment [OF free, of m rem]
        assms(5) by auto
  next
    case False
    have "\<not> (c < m \<and> (m - 1 - c) * rate_at p c < rem)"
    proof
      assume *: "c < m \<and> (m - 1 - c) * rate_at p c < rem"
      then have "(m - 1 - c) * rate_at p c < (r - c) * rate_at p c" using sum_r assms(6) by linarith
      then have "m - 1 - c < r - c" using pos by simp
      with * False show False by simp
    qed
    moreover have "\<not> reaches p c rem m"
    proof
      assume rch: "reaches p c rem m"
      then have "c < m" by (simp add: reaches_def)
      with False have "r \<le> m - 1" by simp
      have "growth_sum p c r \<le> growth_sum p c (m - 1)"
        using rch \<open>r \<le> m - 1\<close> assms(2) by (intro growth_sum_mono) (auto simp: reaches_def all_valid_def)
      with rch assms(6) show False by (simp add: reaches_def)
    qed
    ultimately show ?thesis
      using addGrowthDuration_iff [OF assms(3) pos assms(4), of m] by auto
  qed
qed

lemma reaches_step:
  assumes "c < b" "rate_valid p c" "\<forall>x \<in> breakpoints p. c < x \<longrightarrow> b \<le> x" "growth_sum p c b < rem"
  shows "reaches p c rem m \<longleftrightarrow> reaches p b (rem - growth_sum p c b) m"
proof -
  have val: "all_valid p c b" using all_valid_segment [OF assms(1,3)] assms(2) by simp
  have "b < m" if "reaches p c rem m"
  proof (rule ccontr)
    assume "\<not> b < m"
    then have "growth_sum p c m \<le> growth_sum p c b"
      using val that by (intro growth_sum_mono) (auto simp: all_valid_def reaches_def)
    with that assms(4) show False by (simp add: reaches_def)
  qed
  then show ?thesis
    using growth_sum_split [of c b m p] growth_sum_split [of c b "m - 1" p]
      all_valid_split [of c b m p] val assms(1)
    unfolding reaches_def by auto
qed

lemma sorted_head_le: "sorted (b # bs) \<Longrightarrow> x \<in> set (b # bs) \<Longrightarrow> b \<le> x"
  by auto

lemma estimate_loop_iff:
  assumes "sorted bs" "\<forall>x \<in> breakpoints p. c < x \<longrightarrow> x \<in> set bs" "\<forall>x \<in> set bs. x \<le> max_i64"
    "0 \<le> c" "c \<le> max_i64" "0 < rem"
  shows "estimate_loop p bs c rem = Some m \<longleftrightarrow> reaches p c rem m"
  using assms
proof (induction bs arbitrary: c rem)
  case Nil
  show ?case
  proof (cases "rate_valid p c")
    case True
    define r where "r = c + rem"
    have free: "\<forall>x \<in> breakpoints p. c < x \<longrightarrow> r \<le> x" using Nil.prems by auto
    have "rem \<le> growth_sum p c r"
      using segment_sum [OF free, of r] rate_valid_pos [OF True] Nil.prems(6)
        mult_left_mono [of 1 "rate_at p c" rem] by (simp add: r_def)
    then show ?thesis
      using estimate_segment [OF free _ Nil.prems(6,4) True] rate_valid_Some [OF True] Nil.prems(6)
      by (simp add: r_def)
  qed (use reaches_valid in \<open>auto simp: rate_invalid_None\<close>)
next
  case (Cons b bs)
  have srt: "sorted bs" and max: "\<forall>x \<in> set bs. x \<le> max_i64" using Cons.prems by auto
  show ?case
  proof (cases "b \<le> c")
    case True
    then have "\<forall>x \<in> breakpoints p. c < x \<longrightarrow> x \<in> set bs" using Cons.prems(2) by auto
    then show ?thesis using Cons.IH [OF srt _ max Cons.prems(4-6)] True by simp
  next
    case False
    have free: "\<forall>x \<in> breakpoints p. c < x \<longrightarrow> b \<le> x"
      using Cons.prems(2) sorted_head_le [OF Cons.prems(1)] by blast
    have later: "\<forall>x \<in> breakpoints p. b < x \<longrightarrow> x \<in> set bs"
      using Cons.prems(2) False by auto
    show ?thesis
    proof (cases "rate_valid p c")
      case True
      have cap: "to_i64 (b - c) * rate_at p c = growth_sum p c b"
        using segment_sum [OF free, of b] to_i64_diff [of c b] False Cons.prems(3,4) by simp
      show ?thesis
      proof (cases "rem \<le> growth_sum p c b")
        case le: True
        then show ?thesis
          using estimate_segment [OF free _ Cons.prems(6,4) True le] False rate_valid_Some [OF True] cap
          by simp
      next
        case gt: False
        then show ?thesis
          using Cons.IH [OF srt later max, of "rem - growth_sum p c b"] reaches_step [OF _ True free, of rem m]
            False rate_valid_Some [OF True] cap Cons.prems(3,4) by simp
      qed
    qed (use False reaches_valid in \<open>auto simp: rate_invalid_None\<close>)
  qed
qed

lemma estimatePlotMatureAtMS_iff:
  assumes "span_ok p c" "0 \<le> pl_settled_scaled9 p" "pl_settled_scaled9 p < pl_maturity_scaled9 p"
    "pl_maturity_scaled9 p \<le> max_i64"
  shows "estimatePlotMatureAtMS p c = Some m \<longleftrightarrow>
    reaches p c (pl_maturity_scaled9 p - pl_settled_scaled9 p) m"
proof -
  define rem where "rem = pl_maturity_scaled9 p - pl_settled_scaled9 p"
  define bounds where "bounds = concat (map (\<lambda>e.
      (if c < eff_start_at_ms e then [eff_start_at_ms e] else []) @
      (if c < eff_end_at_ms e then [eff_end_at_ms e] else [])) (effects_of p))"
  have rem: "to_i64 rem = rem" "0 < rem"
    using assms(2-4) to_i64_diff [of "pl_settled_scaled9 p" "pl_maturity_scaled9 p"]
    by (simp_all add: rem_def)
  have bounds: "x \<in> set bounds \<longleftrightarrow> x \<in> breakpoints p \<and> c < x" for x
    by (auto simp: bounds_def breakpoints_def)
  have "estimatePlotMatureAtMS p c = estimate_loop p (sort bounds) c rem"
    using rem by (simp add: estimatePlotMatureAtMS_def bounds_def flip: rem_def)
  then show ?thesis
    using estimate_loop_iff [of "sort bounds" p c rem m] bounds assms(1) rem(2)
    by (simp add: span_ok_def flip: rem_def)
qed

section \<open>Settling\<close>

definition growing_plot_ok :: "plot \<Rightarrow> bool" where
  "growing_plot_ok p \<longleftrightarrow> pl_state p = GROWING \<and> growing_fields_ok p \<and>
     span_ok p (pl_last_settled_at_ms p) \<and> pl_maturity_scaled9 p \<le> max_i64"

text \<open>The plot carries the estimate its own fields give.\<close>

definition estimate_ok :: "plot \<Rightarrow> bool" where
  "estimate_ok p \<longleftrightarrow> growing_plot_ok p \<and> pl_estimated_mature_at_ms p \<noteq> None \<and>
     pl_estimated_mature_at_ms p = estimatePlotMatureAtMS p (pl_last_settled_at_ms p)"

lemma estimate_ok_reaches:
  assumes "estimate_ok p"
  obtains m where "pl_estimated_mature_at_ms p = Some m"
    "reaches p (pl_last_settled_at_ms p) (pl_maturity_scaled9 p - pl_settled_scaled9 p) m"
proof -
  obtain m where m: "pl_estimated_mature_at_ms p = Some m"
    "estimatePlotMatureAtMS p (pl_last_settled_at_ms p) = Some m"
    using assms by (fastforce simp: estimate_ok_def)
  moreover have "reaches p (pl_last_settled_at_ms p) (pl_maturity_scaled9 p - pl_settled_scaled9 p) m"
    using assms m(2)
    by (subst estimatePlotMatureAtMS_iff [symmetric]) (auto simp: estimate_ok_def growing_plot_ok_def growing_fields_ok_def)
  ultimately show thesis using that by blast
qed

text \<open>The plot after settling \<open>delta\<close> up to \<open>t\<close>, before its estimate is renewed.\<close>

definition settled_to :: "plot \<Rightarrow> int \<Rightarrow> plot" where
  "settled_to p t = p\<lparr>pl_settled_scaled9 := pl_settled_scaled9 p + growth_sum p (pl_last_settled_at_ms p) t,
     pl_last_settled_at_ms := t,
     pl_fertilizer_effect := drop_expired t (pl_fertilizer_effect p),
     pl_pest_effect := drop_expired t (pl_pest_effect p)\<rparr>"

definition matured_at :: "plot \<Rightarrow> int \<Rightarrow> plot" where
  "matured_at p t = p\<lparr>pl_settled_scaled9 := pl_maturity_scaled9 p, pl_last_settled_at_ms := t,
     pl_state := MATURE, pl_estimated_mature_at_ms := None, pl_fertilizer_effect := None,
     pl_pest_effect := None\<rparr>"

lemma settled_to_simps [simp]:
  "pl_settled_scaled9 (settled_to p t) = pl_settled_scaled9 p + growth_sum p (pl_last_settled_at_ms p) t"
  "pl_last_settled_at_ms (settled_to p t) = t" "pl_state (settled_to p t) = pl_state p"
  "pl_maturity_scaled9 (settled_to p t) = pl_maturity_scaled9 p"
  "pl_base_rate_scaled6 (settled_to p t) = pl_base_rate_scaled6 p"
  "pl_planted_at_ms (settled_to p t) = pl_planted_at_ms p"
  by (simp_all add: settled_to_def)

lemma effects_of_settled:
  "effects_of (settled_to p t) = filter (\<lambda>e. t < eff_end_at_ms e) (effects_of p)"
  by (auto simp: settled_to_def effects_of_def drop_expired_def split: option.splits)

lemma breakpoints_settled: "breakpoints (settled_to p t) \<subseteq> breakpoints p"
  unfolding breakpoints_def effects_of_settled by auto

lemma add_modifiers_filter:
  "t \<le> u \<Longrightarrow> add_modifiers u (filter (\<lambda>e. t < eff_end_at_ms e) es) r = add_modifiers u es r"
  by (induction es arbitrary: r) (auto simp: effect_active_def split: option.splits)

lemma effectiveRate_settled:
  "t \<le> u \<Longrightarrow> effectiveRateScaled6 (settled_to p t) u = effectiveRateScaled6 p u"
  using add_modifiers_filter [of t u "effects_of p"]
  by (simp add: effectiveRateScaled6_def effects_of_settled)

lemma rate_at_filter:
  "t \<le> u \<Longrightarrow> (\<Sum>e \<leftarrow> filter (\<lambda>e. t < eff_end_at_ms e) es. if effect_active e u then f e else (0::int)) =
     (\<Sum>e \<leftarrow> es. if effect_active e u then f e else 0)"
  by (induction es) (auto simp: effect_active_def)

lemma rate_at_settled: "t \<le> u \<Longrightarrow> rate_at (settled_to p t) u = rate_at p u"
  unfolding rate_at_def effects_of_settled by (subst rate_at_filter) auto

lemma growth_sum_settled: "t \<le> a \<Longrightarrow> growth_sum (settled_to p t) a b = growth_sum p a b"
  unfolding growth_sum_def by (rule sum.cong) (auto intro: rate_at_settled)

lemma all_valid_settled: "t \<le> a \<Longrightarrow> all_valid (settled_to p t) a b = all_valid p a b"
  using effectiveRate_settled [of t _ p] unfolding all_valid_def rate_valid_def
  by (metis order_trans)

lemma settleGrowingPlot_eq:
  assumes "growing_plot_ok p" "t = max now (pl_last_settled_at_ms p)" "t \<le> max_i64"
  shows "settleGrowingPlot p now =
    (if \<not> all_valid p (pl_last_settled_at_ms p) t then (None, p)
     else if pl_maturity_scaled9 p - pl_settled_scaled9 p \<le> growth_sum p (pl_last_settled_at_ms p) t
          then (Some True, matured_at p t)
     else case estimatePlotMatureAtMS (settled_to p t) t of
            None \<Rightarrow> (None, settled_to p t)
          | Some m \<Rightarrow> (Some False, (settled_to p t)\<lparr>pl_estimated_mature_at_ms := Some m\<rparr>))"
proof -
  have "growthBetween p (pl_last_settled_at_ms p) t =
    (if all_valid p (pl_last_settled_at_ms p) t then Some (growth_sum p (pl_last_settled_at_ms p) t) else None)"
    using assms by (intro growthBetween_eq) (auto simp: growing_plot_ok_def)
  then show ?thesis
    using assms(1) by (simp add: settleGrowingPlot_def growing_plot_ok_def settled_to_def matured_at_def
        Let_def flip: assms(2) split: option.split)
qed

text \<open>The estimate is not an input of the growth functions.\<close>

lemma effects_of_est [simp]: "effects_of (p\<lparr>pl_estimated_mature_at_ms := x\<rparr>) = effects_of p"
  by (simp add: effects_of_def)

lemma growth_est [simp]:
  "effectiveRateScaled6 (p\<lparr>pl_estimated_mature_at_ms := x\<rparr>) = effectiveRateScaled6 p"
  "rate_at (p\<lparr>pl_estimated_mature_at_ms := x\<rparr>) = rate_at p"
  "breakpoints (p\<lparr>pl_estimated_mature_at_ms := x\<rparr>) = breakpoints p"
  by (simp_all add: fun_eq_iff effectiveRateScaled6_def rate_at_def breakpoints_def)

lemma growth_est' [simp]:
  "growth_sum (p\<lparr>pl_estimated_mature_at_ms := x\<rparr>) = growth_sum p"
  "all_valid (p\<lparr>pl_estimated_mature_at_ms := x\<rparr>) = all_valid p"
  "span_ok (p\<lparr>pl_estimated_mature_at_ms := x\<rparr>) = span_ok p"
  by (simp_all add: fun_eq_iff growth_sum_def all_valid_def rate_valid_def span_ok_def)

lemma growing_plot_ok_est [simp]:
  "growing_plot_ok (p\<lparr>pl_estimated_mature_at_ms := x\<rparr>) = growing_plot_ok p"
  by (simp add: growing_plot_ok_def growing_fields_ok_def)

lemma settled_to_est:
  "settled_to (p\<lparr>pl_estimated_mature_at_ms := x\<rparr>) t = (settled_to p t)\<lparr>pl_estimated_mature_at_ms := x\<rparr>"
  "matured_at (p\<lparr>pl_estimated_mature_at_ms := x\<rparr>) t = matured_at p t"
  by (simp_all add: settled_to_def matured_at_def)

lemma estimate_loop_est [simp]:
  "estimate_loop (p\<lparr>pl_estimated_mature_at_ms := x\<rparr>) bs c r = estimate_loop p bs c r"
  by (induction bs arbitrary: c r) (auto simp: Let_def split: option.splits)

lemma estimatePlot_est [simp]:
  "estimatePlotMatureAtMS (p\<lparr>pl_estimated_mature_at_ms := x\<rparr>) t = estimatePlotMatureAtMS p t"
  by (simp add: estimatePlotMatureAtMS_def Let_def)

lemma drop_expired_twice: "t1 \<le> t2 \<Longrightarrow> drop_expired t2 (drop_expired t1 e) = drop_expired t2 e"
  by (simp add: drop_expired_def split: option.splits)

lemma settled_to_twice:
  assumes "pl_last_settled_at_ms p \<le> t1" "t1 \<le> t2"
  shows "settled_to (settled_to p t1) t2 = settled_to p t2"
    and "matured_at (settled_to p t1) t2 = matured_at p t2"
proof -
  have "pl_settled_scaled9 (settled_to p t1) + growth_sum (settled_to p t1) t1 t2 =
    pl_settled_scaled9 p + growth_sum p (pl_last_settled_at_ms p) t2"
    using growth_sum_split [OF assms, of p] growth_sum_settled [of t1 t1 p t2] by simp
  then show "settled_to (settled_to p t1) t2 = settled_to p t2"
    using drop_expired_twice [OF assms(2)]
    unfolding settled_to_def [of "settled_to p t1"] by (simp add: settled_to_def)
  show "matured_at (settled_to p t1) t2 = matured_at p t2"
    by (simp add: matured_at_def settled_to_def)
qed

lemma settled_to_ok:
  assumes "growing_plot_ok p" "pl_last_settled_at_ms p \<le> t" "t \<le> max_i64"
    "all_valid p (pl_last_settled_at_ms p) t"
    "growth_sum p (pl_last_settled_at_ms p) t < pl_maturity_scaled9 p - pl_settled_scaled9 p"
  shows "growing_plot_ok (settled_to p t)"
proof -
  have "0 \<le> growth_sum p (pl_last_settled_at_ms p) t"
    using assms(4) by (intro growth_sum_nonneg) (auto simp: all_valid_def)
  then show ?thesis
    using assms breakpoints_settled [of p t]
    by (auto simp: growing_plot_ok_def growing_fields_ok_def span_ok_def)
qed

text \<open>Settling on the way changes nothing that settling at the end observes.\<close>

lemma settle_again:
  assumes ok: "growing_plot_ok p" and t1: "settleGrowingPlot p t1 = (Some False, p1)"
    and le: "pl_last_settled_at_ms p \<le> t1" "t1 \<le> t2" "t2 \<le> max_i64"
  shows "fst (settleGrowingPlot p1 t2) = fst (settleGrowingPlot p t2)"
    and "fst (settleGrowingPlot p t2) \<noteq> None \<Longrightarrow> settleGrowingPlot p1 t2 = settleGrowingPlot p t2"
proof -
  let ?l = "pl_last_settled_at_ms p"
  have "t1 \<le> max_i64" using le by simp
  from t1 have v1: "all_valid p ?l t1"
    and lt: "growth_sum p ?l t1 < pl_maturity_scaled9 p - pl_settled_scaled9 p"
    and "\<exists>m. p1 = (settled_to p t1)\<lparr>pl_estimated_mature_at_ms := Some m\<rparr>"
    using settleGrowingPlot_eq [OF ok refl, of t1] le \<open>t1 \<le> max_i64\<close>
    by (auto simp: not_le split: if_splits option.splits)
  then obtain m where p1: "p1 = (settled_to p t1)\<lparr>pl_estimated_mature_at_ms := Some m\<rparr>" by blast
  have ok1: "growing_plot_ok (settled_to p t1)"
    using settled_to_ok [OF ok _ _ v1 lt] le by simp
  have val: "all_valid p ?l t2 \<longleftrightarrow> all_valid (settled_to p t1) t1 t2"
    using all_valid_split [OF le(1,2), of p] v1 by (simp add: all_valid_settled)
  have sum: "growth_sum p ?l t2 = growth_sum p ?l t1 + growth_sum (settled_to p t1) t1 t2"
    using growth_sum_split [OF le(1,2), of p] by (simp add: growth_sum_settled)
  have e1: "settleGrowingPlot p1 t2 =
    (if \<not> all_valid (settled_to p t1) t1 t2 then (None, p1)
     else if pl_maturity_scaled9 p - pl_settled_scaled9 p \<le> growth_sum p ?l t2
          then (Some True, matured_at p t2)
     else case estimatePlotMatureAtMS (settled_to p t2) t2 of
            None \<Rightarrow> (None, (settled_to p t2)\<lparr>pl_estimated_mature_at_ms := Some m\<rparr>)
          | Some m \<Rightarrow> (Some False, (settled_to p t2)\<lparr>pl_estimated_mature_at_ms := Some m\<rparr>))"
    using settleGrowingPlot_eq [of p1 t2 t2] ok1 le settled_to_twice [OF le(1,2)] sum
    by (simp add: p1 settled_to_est split: option.split)
  have e2: "settleGrowingPlot p t2 =
    (if \<not> all_valid p ?l t2 then (None, p)
     else if pl_maturity_scaled9 p - pl_settled_scaled9 p \<le> growth_sum p ?l t2
          then (Some True, matured_at p t2)
     else case estimatePlotMatureAtMS (settled_to p t2) t2 of
            None \<Rightarrow> (None, settled_to p t2)
          | Some m \<Rightarrow> (Some False, (settled_to p t2)\<lparr>pl_estimated_mature_at_ms := Some m\<rparr>))"
    using settleGrowingPlot_eq [OF ok, of t2 t2] le by simp
  show "fst (settleGrowingPlot p1 t2) = fst (settleGrowingPlot p t2)"
    unfolding e1 e2 val by (simp split: option.split)
  show "fst (settleGrowingPlot p t2) \<noteq> None \<Longrightarrow> settleGrowingPlot p1 t2 = settleGrowingPlot p t2"
    unfolding e1 e2 val by (simp split: option.splits if_splits)
qed

lemma reaches_split:
  assumes "reaches p a rem m" "a \<le> t" "t < m"
  shows "growth_sum p a t < rem" "reaches p t (rem - growth_sum p a t) m" "all_valid p a t"
proof -
  have v: "all_valid p a t" "all_valid p t m"
    using assms all_valid_split [of a t m p] by (auto simp: reaches_def)
  have "growth_sum p a t \<le> growth_sum p a (m - 1)"
    using assms v(2) by (intro growth_sum_mono) (auto simp: all_valid_def)
  then show "growth_sum p a t < rem" "all_valid p a t"
    using assms(1) v by (auto simp: reaches_def)
  show "reaches p t (rem - growth_sum p a t) m"
    using assms v growth_sum_split [of a t m p] growth_sum_split [of a t "m - 1" p]
    by (auto simp: reaches_def)
qed

lemma reaches_settled: "t \<le> a \<Longrightarrow> reaches (settled_to p t) a rem m = reaches p a rem m"
  by (simp add: reaches_def growth_sum_settled all_valid_settled)

text \<open>Before its estimate a plot does not mature and keeps the very same estimate.\<close>

lemma settle_before_estimate:
  assumes ok: "estimate_ok p" and m: "pl_estimated_mature_at_ms p = Some m" and "now < m"
  shows "settleGrowingPlot p now =
    (Some False, settled_to p (max now (pl_last_settled_at_ms p)))" (is "_ = (_, settled_to p ?t)")
    and "estimate_ok (settled_to p (max now (pl_last_settled_at_ms p)))"
proof -
  let ?rem = "pl_maturity_scaled9 p - pl_settled_scaled9 p"
  have g: "growing_plot_ok p" using ok by (simp add: estimate_ok_def)
  have r: "reaches p (pl_last_settled_at_ms p) ?rem m"
    using estimate_ok_reaches [OF ok] m by (metis option.inject)
  then have lt: "?t < m" "m \<le> max_i64" using assms(3) by (simp_all add: reaches_def)
  note s = reaches_split [OF r _ lt(1)]
  have ok': "growing_plot_ok (settled_to p ?t)"
    using settled_to_ok [OF g _ _ s(3,1)] lt by simp
  have "estimatePlotMatureAtMS (settled_to p ?t) ?t = Some m"
    using s(2) ok' by (subst estimatePlotMatureAtMS_iff)
      (auto simp: growing_plot_ok_def growing_fields_ok_def reaches_settled algebra_simps)
  moreover have "(settled_to p ?t)\<lparr>pl_estimated_mature_at_ms := Some m\<rparr> = settled_to p ?t"
    using m by (simp add: settled_to_def)
  ultimately show "settleGrowingPlot p now = (Some False, settled_to p ?t)"
    and "estimate_ok (settled_to p ?t)"
    using settleGrowingPlot_eq [OF g refl, of now] s(1,3) lt ok' m
    by (simp_all add: estimate_ok_def settled_to_def)
qed

text \<open>From its estimate on a plot matures, as long as its rate stays valid.\<close>

lemma settle_from_estimate:
  assumes ok: "estimate_ok p" and m: "pl_estimated_mature_at_ms p = Some m" and "m \<le> now"
    "now \<le> max_i64" "all_valid p m now"
  shows "settleGrowingPlot p now = (Some True, matured_at p now)"
proof -
  let ?l = "pl_last_settled_at_ms p"
  have g: "growing_plot_ok p" using ok by (simp add: estimate_ok_def)
  have r: "reaches p ?l (pl_maturity_scaled9 p - pl_settled_scaled9 p) m"
    using estimate_ok_reaches [OF ok] m by (metis option.inject)
  then have t: "max now ?l = now" and lm: "?l \<le> m" using assms(3) by (simp_all add: reaches_def)
  have v: "all_valid p ?l now"
    using all_valid_split [OF lm assms(3), of p] r assms(5) by (simp add: reaches_def)
  have "growth_sum p ?l m \<le> growth_sum p ?l now"
    using lm assms(3,5) by (intro growth_sum_mono) (auto simp: all_valid_def)
  then show ?thesis
    using settleGrowingPlot_eq [OF g refl, of now] assms(4) r v by (simp add: t reaches_def)
qed

section \<open>Materialising due plots\<close>

definition rates_ok :: "plot \<Rightarrow> bool" where
  "rates_ok p \<longleftrightarrow> (\<forall>t. rate_valid p t)"

lemma rates_ok_all_valid: "rates_ok p \<Longrightarrow> all_valid p a b"
  by (simp add: rates_ok_def all_valid_def)

definition farm_growth_ok :: "state \<Rightarrow> bool" where
  "farm_growth_ok s \<longleftrightarrow> (\<forall>i p. fmlookup (st_plots s) i = Some p \<longrightarrow>
     pl_id p = i \<and> i \<noteq> 0 \<and> (pl_state p = GROWING \<longrightarrow> estimate_ok p \<and> rates_ok p))"

definition mature_if_due :: "int \<Rightarrow> plot \<Rightarrow> plot" where
  "mature_if_due now p = (if not_yet_due now p then p else matured_at p now)"

definition due :: "int \<Rightarrow> (u32, plot) fmap \<Rightarrow> u32 \<Rightarrow> bool" where
  "due now ps i \<longleftrightarrow> (case fmlookup ps i of None \<Rightarrow> False | Some p \<Rightarrow> \<not> not_yet_due now p)"

lemma settle_due:
  assumes "estimate_ok p" "rates_ok p" "\<not> not_yet_due now p" "now \<le> max_i64"
  shows "settleGrowingPlot p now = (Some True, matured_at p now)"
proof -
  obtain m where m: "pl_estimated_mature_at_ms p = Some m"
    using assms(1) by (fastforce simp: estimate_ok_def)
  with assms show ?thesis
    by (intro settle_from_estimate [OF _ m]) (auto simp: not_yet_due_def rates_ok_all_valid)
qed

lemma farm_growth_ok_upd:
  "farm_growth_ok s \<Longrightarrow> pl_id p = i \<Longrightarrow> i \<noteq> 0 \<Longrightarrow> pl_state p \<noteq> GROWING \<Longrightarrow>
     farm_growth_ok (mature_bookkeeping now (s\<lparr>st_plots := fmupd i p (st_plots s)\<rparr>))"
  by (simp add: farm_growth_ok_def mature_bookkeeping_def)

lemma matured_at_simps [simp]: "pl_id (matured_at p t) = pl_id p" "pl_state (matured_at p t) = MATURE"
  by (simp_all add: matured_at_def)

text \<open>Unconditionally maturing a list of plots, one bookkeeping step and one event each.\<close>

fun mature_run :: "int \<Rightarrow> u32 list \<Rightarrow> maturity_event list \<Rightarrow> state \<Rightarrow> maturity_event list \<times> state" where
  "mature_run now [] evs s = (evs, s)"
| "mature_run now (i # is) evs s =
     (let p = matured_at (the (fmlookup (st_plots s) i)) now;
          s' = mature_bookkeeping now (s\<lparr>st_plots := fmupd i p (st_plots s)\<rparr>)
      in mature_run now is (evs @ [event_for now s' p]) s')"

lemma plots_bookkeeping [simp]: "st_plots (mature_bookkeeping now s) = st_plots s"
  by (simp add: mature_bookkeeping_def)

lemma due_upd: "j \<noteq> i \<Longrightarrow> due now (fmupd i p ps) j = due now ps j"
  by (simp add: due_def)

lemma materialize_loop_eq:
  assumes "farm_growth_ok s" "distinct ids" "now \<le> max_i64"
  shows "materialize_loop now ids evs s = (True, mature_run now (filter (due now (st_plots s)) ids) evs s)"
  using assms
proof (induction ids arbitrary: s evs)
  case (Cons i ids)
  show ?case
  proof (cases "due now (st_plots s) i")
    case False
    then have "materialize_loop now (i # ids) evs s = materialize_loop now ids evs s"
      by (auto simp: due_def split: option.splits)
    then show ?thesis using Cons False by simp
  next
    case True
    then obtain p where p: "fmlookup (st_plots s) i = Some p" "\<not> not_yet_due now p"
      by (auto simp: due_def split: option.splits)
    then have id: "pl_id p = i" "i \<noteq> 0" and settle: "settleGrowingPlot p now = (Some True, matured_at p now)"
      using Cons.prems(1,3) settle_due by (auto simp: farm_growth_ok_def not_yet_due_def)
    define s1 where "s1 = mature_bookkeeping now (s\<lparr>st_plots := fmupd i (matured_at p now) (st_plots s)\<rparr>)"
    have ok1: "farm_growth_ok s1"
      unfolding s1_def by (rule farm_growth_ok_upd) (use Cons.prems id in auto)
    have filt: "filter (due now (st_plots s1)) ids = filter (due now (st_plots s)) ids"
      unfolding s1_def using Cons.prems(2) by (intro filter_cong) (auto intro!: due_upd)
    have "materialize_loop now (i # ids) evs s =
      materialize_loop now ids (evs @ [event_for now s1 (matured_at p now)]) s1"
      using p settle by (simp add: s1_def Let_def)
    also have "\<dots> = (True, mature_run now (filter (due now (st_plots s)) ids)
        (evs @ [event_for now s1 (matured_at p now)]) s1)"
      using Cons.IH [OF ok1] Cons.prems(2,3) filt by simp
    finally show ?thesis using True p(1) by (simp add: s1_def Let_def)
  qed
qed simp

lemma mature_run_lookup:
  "distinct is \<Longrightarrow> fmlookup (st_plots (snd (mature_run now is evs s))) j =
     (if j \<in> set is then Some (matured_at (the (fmlookup (st_plots s) j)) now) else fmlookup (st_plots s) j)"
  by (induction "is" arbitrary: evs s) (auto simp: Let_def)

lemma mature_run_seq:
  "st_player_seq (snd (mature_run now is evs s)) = st_player_seq s + of_nat (length is)"
  "st_checkpoint_revision (snd (mature_run now is evs s)) = st_checkpoint_revision s + of_nat (length is)"
  by (induction "is" arbitrary: evs s) (auto simp: Let_def mature_bookkeeping_def)

lemma mature_run_frame [frame_simps]:
  "st_coins (snd (mature_run now is evs s)) = st_coins s"
  "st_inventory (snd (mature_run now is evs s)) = st_inventory s"
  "st_recent_results (snd (mature_run now is evs s)) = st_recent_results s"
  "st_owner_epoch (snd (mature_run now is evs s)) = st_owner_epoch s"
  "st_player_id (snd (mature_run now is evs s)) = st_player_id s"
  "st_tasks (snd (mature_run now is evs s)) = st_tasks s"
  by (induction "is" arbitrary: evs s) (auto simp: Let_def mature_bookkeeping_def)

lemma mature_run_ids:
  "\<forall>i \<in> set is. \<exists>p. fmlookup (st_plots s) i = Some p \<and> pl_id p = i \<Longrightarrow> distinct is \<Longrightarrow>
     map (\<lambda>e. pv_plot_id (me_plot e)) (fst (mature_run now is evs s)) =
     map (\<lambda>e. pv_plot_id (me_plot e)) evs @ is"
  by (induction "is" arbitrary: evs s) (auto simp: Let_def event_for_def plotView_def mature_bookkeeping_def)

lemma mature_run_event_seq:
  "map me_player_seq (fst (mature_run now is evs s)) =
     map me_player_seq evs @ map (\<lambda>k. st_player_seq s + of_nat k) [1 ..< Suc (length is)]"
proof (induction "is" arbitrary: evs s)
  case (Cons i "is")
  have "[1 ..< Suc (Suc (length is))] = 1 # map Suc [1 ..< Suc (length is)]"
    unfolding map_Suc_upt by (rule upt_conv_Cons) simp
  then show ?case
    by (simp add: Let_def Cons.IH event_for_def mature_bookkeeping_def del: upt_Suc)
qed simp

lemma due_keys:
  "set (filter (due now (st_plots s)) (map_keys (st_plots s))) = {i. due now (st_plots s) i}"
  by (auto simp: due_def fmlookup_dom_iff split: option.splits)

lemma materialize_eq:
  assumes "farm_growth_ok s" "now \<le> max_i64"
  shows "materializeDueMaturities s now =
    (True, mature_run now (filter (due now (st_plots s)) (map_keys (st_plots s))) [] s)"
  unfolding materializeDueMaturities_def using assms by (intro materialize_loop_eq) simp_all

lemma materialize_lookup:
  assumes "farm_growth_ok s" "now \<le> max_i64" "materializeDueMaturities s now = (ok, evs, s')"
  shows "fmlookup (st_plots s') i = map_option (mature_if_due now) (fmlookup (st_plots s) i)"
proof -
  have "s' = snd (mature_run now (filter (due now (st_plots s)) (map_keys (st_plots s))) [] s)"
    using assms(3) unfolding materialize_eq [OF assms(1,2)] by (metis Pair_inject snd_conv)
  then show ?thesis
    using mature_run_lookup [of "filter (due now (st_plots s)) (map_keys (st_plots s))" now "[]" s i]
    unfolding due_keys
    by (auto simp: due_def mature_if_due_def split: option.splits)
qed

lemma nextTickAt_Some:
  assumes "nextTickAt s = Some t"
  shows "\<exists>i p. fmlookup (st_plots s) i = Some p \<and> pl_state p = GROWING \<and> pl_estimated_mature_at_ms p = Some t"
proof -
  define es where "es = [m. i \<leftarrow> map_keys (st_plots s), p \<leftarrow> [the (fmlookup (st_plots s) i)],
      pl_state p = GROWING, m \<leftarrow> (case pl_estimated_mature_at_ms p of None \<Rightarrow> [] | Some m \<Rightarrow> [m])]"
  have "es \<noteq> []" "t = Min (set es)"
    using assms unfolding nextTickAt_def es_def [symmetric] Let_def by (simp_all split: if_splits)
  then have "t \<in> set es" using Min_in [of "set es"] by simp
  then obtain i p where "i |\<in>| fmdom (st_plots s)" "p = the (fmlookup (st_plots s) i)"
    "pl_state p = GROWING" "pl_estimated_mature_at_ms p = Some t"
    by (auto simp: es_def split: option.splits if_splits)
  then show ?thesis by (metis fmdom_notI option.exhaust_sel)
qed

lemma nextTickAt_le:
  assumes "fmlookup (st_plots s) i = Some p" "pl_state p = GROWING"
  shows "pl_estimated_mature_at_ms p = Some m \<Longrightarrow> \<exists>t. nextTickAt s = Some t \<and> t \<le> m"
proof -
  assume m: "pl_estimated_mature_at_ms p = Some m"
  define es where "es = [m. i \<leftarrow> map_keys (st_plots s), p \<leftarrow> [the (fmlookup (st_plots s) i)],
      pl_state p = GROWING, m \<leftarrow> (case pl_estimated_mature_at_ms p of None \<Rightarrow> [] | Some m \<Rightarrow> [m])]"
  have "i |\<in>| fmdom (st_plots s)" using assms(1) by (rule fmdomI)
  then have mem: "m \<in> set es"
    using assms m unfolding es_def by (force simp: image_iff)
  then have "nextTickAt s = Some (Min (set es))"
    unfolding nextTickAt_def es_def [symmetric] Let_def by (auto split: if_splits)
  then show "\<exists>t. nextTickAt s = Some t \<and> t \<le> m" using mem by simp
qed

lemma estimate_fresh:
  assumes "pl_fertilizer_effect p = None" "pl_pest_effect p = None"
    "in_i64 (pl_maturity_scaled9 p - pl_settled_scaled9 p)" "in_i64 (pl_base_rate_scaled6 p)"
  shows "estimateMatureAtMS c (pl_maturity_scaled9 p - pl_settled_scaled9 p) (pl_base_rate_scaled6 p) =
    estimatePlotMatureAtMS p c"
proof -
  let ?rem = "pl_maturity_scaled9 p - pl_settled_scaled9 p" and ?r = "pl_base_rate_scaled6 p"
  have eff: "effects_of p = []" using assms(1,2) by (simp add: effects_of_def)
  have rate: "effectiveRateScaled6 p c = (if ?r \<le> 0 then None else Some ?r)"
    using assms(4) by (simp add: effectiveRateScaled6_def eff)
  define d where "d = (if go_rem ?rem ?r \<noteq> 0 then go_quo ?rem ?r + 1 else go_quo ?rem ?r)"
  have "in_i64 d" if pos: "0 < ?rem" "0 < ?r"
  proof -
    have "(if ?rem mod ?r \<noteq> 0 then ?rem div ?r + 1 else ?rem div ?r) = d"
      using pos by (simp add: d_def go_quo_pos go_rem_pos)
    then have b: "(d - 1) * ?r < ?rem" "0 < d * ?r"
      using ceil_unique [OF pos, of d] pos(1) by linarith+
    then have "0 < d" using pos(2) by (simp add: zero_less_mult_iff)
    then have "(d - 1) * 1 \<le> (d - 1) * ?r" using pos(2) by (intro mult_left_mono) simp_all
    then show ?thesis using b assms(3) \<open>0 < d\<close> by (simp add: in_i64_def)
  qed
  then show ?thesis
    using assms(3) rate
    by (simp add: estimateMatureAtMS_def estimatePlotMatureAtMS_def eff addGrowthDuration_def d_def Let_def)
qed

section \<open>Properties\<close>

definition sample_fertilizer :: timed_effect where
  "sample_fertilizer = \<lparr>eff_instance_id = [], eff_kind = FERTILIZER, eff_item_or_pest_id = 1,
     eff_source_player_id = None, eff_config_version = 2, eff_modifier = Some 1000000,
     eff_start_at_ms = 1000, eff_end_at_ms = 3000\<rparr>"

definition sample_plot :: plot where
  "sample_plot = (empty_plot 1)\<lparr>pl_state := GROWING, pl_crop_id := 1, pl_planted_at_ms := 1000,
     pl_maturity_scaled9 := 10000000000, pl_base_rate_scaled6 := 1000000,
     pl_last_settled_at_ms := 1000, pl_estimated_mature_at_ms := Some 9000,
     pl_fertilizer_effect := Some sample_fertilizer\<rparr>"

lemmas sample_defs = sample_plot_def sample_fertilizer_def empty_plot_def

lemma sample_fields [simp]:
  "pl_id sample_plot = 1" "pl_state sample_plot = GROWING" "pl_settled_scaled9 sample_plot = 0"
  "pl_maturity_scaled9 sample_plot = 10000000000" "pl_base_rate_scaled6 sample_plot = 1000000"
  "pl_last_settled_at_ms sample_plot = 1000" "pl_planted_at_ms sample_plot = 1000"
  "pl_estimated_mature_at_ms sample_plot = Some 9000"
  by (simp_all add: sample_defs)

lemma sample_breakpoints: "breakpoints sample_plot = {1000, 3000}"
  by (auto simp: breakpoints_def effects_of_def sample_defs)

lemma sample_rates_ok: "rates_ok sample_plot"
  by (auto simp: rates_ok_def rate_valid_def effectiveRateScaled6_def effects_of_def effect_active_def
      sample_defs in_i64_def max_i64_def)

lemma sample_span_ok: "span_ok sample_plot 1000"
  by (simp add: span_ok_def sample_breakpoints max_i64_def)

lemma sample_estimate_ok: "estimate_ok sample_plot"
proof -
  have "estimatePlotMatureAtMS sample_plot 1000 = Some 9000" by code_simp
  moreover have "growing_plot_ok sample_plot"
    using sample_span_ok by (simp add: growing_plot_ok_def growing_fields_ok_def max_i64_def)
  ultimately show ?thesis by (simp add: estimate_ok_def)
qed

text \<open>
  C8: growth over an interval is the sum, millisecond by millisecond, of the rate in force (base
  rate plus the modifiers of the effects active at that instant), and it is an error exactly when
  some instant of the interval has no valid rate: the segment computation of \<open>growthBetween\<close>
  agrees with that reference for every pair of effects.
\<close>

theorem growthBetween_is_rate_sum:
  assumes "span_ok p a" "a \<le> b" "b \<le> max_i64"
  shows "growthBetween p a b = (if all_valid p a b then Some (growth_sum p a b) else None)"
  using assms by (rule growthBetween_eq)

theorem growthBetween_is_rate_sum_witness:
  "growthBetween sample_plot 1000 4000 = Some (growth_sum sample_plot 1000 4000) \<and>
   growthBetween sample_plot 1000 4000 = Some 5000000000"
proof
  show "growthBetween sample_plot 1000 4000 = Some (growth_sum sample_plot 1000 4000)"
    using growthBetween_is_rate_sum [of sample_plot 1000 4000] sample_span_ok
      rates_ok_all_valid [OF sample_rates_ok] by (simp add: max_i64_def)
  show "growthBetween sample_plot 1000 4000 = Some 5000000000" by code_simp
qed

text \<open>
  C9: the estimate is exact. \<open>estimatePlotMatureAtMS\<close> returns \<open>m\<close> if and only if \<open>m\<close> is the first
  millisecond after the settling instant at which the missing growth has accumulated, with a valid
  rate all the way, and \<open>m\<close> fits an \<open>int64\<close>; otherwise it is an error.
\<close>

theorem estimatePlotMatureAtMS_exact:
  assumes "span_ok p c" "0 \<le> pl_settled_scaled9 p" "pl_settled_scaled9 p < pl_maturity_scaled9 p"
    "pl_maturity_scaled9 p \<le> max_i64"
  shows "estimatePlotMatureAtMS p c = Some m \<longleftrightarrow>
    c < m \<and> m \<le> max_i64 \<and> all_valid p c m \<and>
    growth_sum p c (m - 1) < pl_maturity_scaled9 p - pl_settled_scaled9 p \<and>
    pl_maturity_scaled9 p - pl_settled_scaled9 p \<le> growth_sum p c m"
  using estimatePlotMatureAtMS_iff [OF assms] by (simp add: reaches_def)

theorem estimatePlotMatureAtMS_exact_witness:
  "estimatePlotMatureAtMS sample_plot 1000 = Some 9000 \<and>
   growth_sum sample_plot 1000 8999 < 10000000000 \<and> 10000000000 \<le> growth_sum sample_plot 1000 9000"
proof -
  have e: "estimatePlotMatureAtMS sample_plot 1000 = Some 9000" by code_simp
  show ?thesis
    using estimatePlotMatureAtMS_exact [of sample_plot 1000 9000] e sample_span_ok
    by (simp add: max_i64_def)
qed

text \<open>
  C15: lazy settling is unobservable. Settling a growing plot at \<open>t1\<close> and again at a later \<open>t2\<close>
  gives what settling once at \<open>t2\<close> gives: the same outcome (an error included) and, unless it is an
  error, the same plot, although the first call already dropped expired effects.
\<close>

theorem settleGrowingPlot_compose:
  assumes "growing_plot_ok p" "settleGrowingPlot p t1 = (Some False, p1)"
    "pl_last_settled_at_ms p \<le> t1" "t1 \<le> t2" "t2 \<le> max_i64"
  shows "fst (settleGrowingPlot p1 t2) = fst (settleGrowingPlot p t2) \<and>
    (fst (settleGrowingPlot p t2) \<noteq> None \<longrightarrow> settleGrowingPlot p1 t2 = settleGrowingPlot p t2)"
  using settle_again [OF assms] by blast

theorem settleGrowingPlot_compose_witness:
  "fst (settleGrowingPlot (snd (settleGrowingPlot sample_plot 3500)) 9000) = Some True \<and>
   settleGrowingPlot (snd (settleGrowingPlot sample_plot 3500)) 9000 = settleGrowingPlot sample_plot 9000"
proof -
  have f: "fst (settleGrowingPlot sample_plot 3500) = Some False"
    and t: "fst (settleGrowingPlot sample_plot 9000) = Some True" by code_simp+
  have g: "growing_plot_ok sample_plot" using sample_estimate_ok by (simp add: estimate_ok_def)
  show ?thesis
    using settleGrowingPlot_compose [OF g, of 3500 "snd (settleGrowingPlot sample_plot 3500)" 9000] f t
    by (simp add: prod_eq_iff max_i64_def)
qed

text \<open>
  The stored estimate decides maturity. For a plot whose stored estimate \<open>m\<close> is the one its own
  fields give, settling before \<open>m\<close> never matures it and leaves the estimate at \<open>m\<close> (and consistent),
  and settling at any instant from \<open>m\<close> on, while rates stay valid, turns it \<open>MATURE\<close> with its growth
  complete and its effects and estimate cleared. The check \<open>now < EstimatedMatureAtMS\<close> of
  \<open>materializeDueMaturities\<close> therefore skips exactly the plots that would not mature.
\<close>

theorem settleGrowingPlot_at_estimate:
  assumes "estimate_ok p" "pl_estimated_mature_at_ms p = Some m" "now \<le> max_i64"
  shows "(now < m \<longrightarrow> (\<exists>p'. settleGrowingPlot p now = (Some False, p') \<and> estimate_ok p' \<and>
            pl_estimated_mature_at_ms p' = Some m)) \<and>
    (m \<le> now \<and> all_valid p m now \<longrightarrow> settleGrowingPlot p now =
       (Some True, p\<lparr>pl_settled_scaled9 := pl_maturity_scaled9 p, pl_last_settled_at_ms := now,
          pl_state := MATURE, pl_estimated_mature_at_ms := None, pl_fertilizer_effect := None,
          pl_pest_effect := None\<rparr>))"
proof (intro conjI impI)
  assume "now < m"
  with settle_before_estimate [OF assms(1,2)] assms(2)
  show "\<exists>p'. settleGrowingPlot p now = (Some False, p') \<and> estimate_ok p' \<and> pl_estimated_mature_at_ms p' = Some m"
    by (auto simp: settled_to_def)
next
  assume "m \<le> now \<and> all_valid p m now"
  then show "settleGrowingPlot p now = (Some True, p\<lparr>pl_settled_scaled9 := pl_maturity_scaled9 p,
      pl_last_settled_at_ms := now, pl_state := MATURE, pl_estimated_mature_at_ms := None,
      pl_fertilizer_effect := None, pl_pest_effect := None\<rparr>)"
    using settle_from_estimate [OF assms(1,2) _ assms(3)] by (simp add: matured_at_def)
qed

theorem settleGrowingPlot_at_estimate_witness:
  "(\<exists>p'. settleGrowingPlot sample_plot 8999 = (Some False, p') \<and> estimate_ok p') \<and>
   fst (settleGrowingPlot sample_plot 9000) = Some True"
  using settleGrowingPlot_at_estimate [OF sample_estimate_ok, of 9000 8999]
    settleGrowingPlot_at_estimate [OF sample_estimate_ok, of 9000 9000]
    rates_ok_all_valid [OF sample_rates_ok]
  by (auto simp: max_i64_def)

text \<open>
  C16: \<open>materializeDueMaturities\<close>. On a farm whose growing plots carry consistent estimates and valid
  rates it never fails; it matures exactly the plots whose estimate has passed and leaves every other
  plot as it is; its events name those plots in ascending order, carry consecutive player sequence
  numbers, and the state's sequence and checkpoint revision advance by their number. Coins,
  inventory and stored results do not change.
\<close>

theorem materializeDueMaturities_spec:
  assumes "farm_growth_ok s" "now \<le> max_i64"
  shows "\<exists>evs s'. materializeDueMaturities s now = (True, evs, s') \<and>
    (\<forall>i. fmlookup (st_plots s') i = map_option (mature_if_due now) (fmlookup (st_plots s) i)) \<and>
    map (\<lambda>e. pv_plot_id (me_plot e)) evs = filter (due now (st_plots s)) (map_keys (st_plots s)) \<and>
    map me_player_seq evs = map (\<lambda>k. st_player_seq s + of_nat k) [1 ..< Suc (length evs)] \<and>
    st_player_seq s' = st_player_seq s + of_nat (length evs) \<and>
    st_checkpoint_revision s' = st_checkpoint_revision s + of_nat (length evs) \<and>
    st_coins s' = st_coins s \<and> st_inventory s' = st_inventory s \<and>
    st_recent_results s' = st_recent_results s"
proof -
  define ids where "ids = filter (due now (st_plots s)) (map_keys (st_plots s))"
  define evs where "evs = fst (mature_run now ids [] s)"
  define s' where "s' = snd (mature_run now ids [] s)"
  have eq: "materializeDueMaturities s now = (True, evs, s')"
    using materialize_eq [OF assms] by (simp add: evs_def s'_def ids_def)
  have "\<forall>i \<in> set ids. \<exists>p. fmlookup (st_plots s) i = Some p \<and> pl_id p = i"
    using assms(1) by (auto simp: ids_def due_def farm_growth_ok_def split: option.splits)
  then have names: "map (\<lambda>e. pv_plot_id (me_plot e)) evs = ids"
    using mature_run_ids [of ids s now "[]"] by (simp add: evs_def ids_def)
  then have len: "length ids = length evs" by (metis length_map)
  show ?thesis
    using eq names materialize_lookup [OF assms eq] mature_run_event_seq [of now ids "[]" s]
      mature_run_seq [of now ids "[]" s] mature_run_frame [of now ids "[]" s]
    by (auto simp: len ids_def [symmetric] evs_def [symmetric] s'_def [symmetric] simp del: upt_Suc)
qed

definition sample_farm :: state where
  "sample_farm = (NewDevelopmentState 7 1000)\<lparr>st_plots := fmupd 1 sample_plot (fmupd 2 (empty_plot 2) fmempty)\<rparr>"

lemma sample_farm_ok: "farm_growth_ok sample_farm"
  using sample_estimate_ok sample_rates_ok by (simp add: farm_growth_ok_def sample_farm_def)

theorem materializeDueMaturities_spec_witness:
  "\<exists>evs s'. materializeDueMaturities sample_farm 9000 = (True, evs, s') \<and>
    map (\<lambda>e. pv_plot_id (me_plot e)) evs = [1]"
proof -
  have "filter (due 9000 (st_plots sample_farm)) (map_keys (st_plots sample_farm)) = [1]"
    by code_simp
  then show ?thesis
    using materializeDueMaturities_spec [OF sample_farm_ok, of 9000] by (auto simp: max_i64_def)
qed

text \<open>
  A tick makes progress. After a successful \<open>tick\<close> at \<open>now\<close> the next tick, if any, lies strictly
  after \<open>now\<close>, and it is requested for the earliest estimate of a plot that is still growing: the
  actor neither spins on a due plot nor forgets one.
\<close>

theorem tick_progress:
  assumes "farm_growth_ok s" "now \<le> max_i64"
  shows "\<exists>r s'. tick s now = (Some r, s') \<and>
    (\<forall>t. tr_next_tick_at r = Some t \<longrightarrow> now < t) \<and>
    (\<forall>i p. fmlookup (st_plots s') i = Some p \<and> pl_state p = GROWING \<longrightarrow>
       (\<exists>t m. tr_next_tick_at r = Some t \<and> pl_estimated_mature_at_ms p = Some m \<and> t \<le> m))"
proof -
  obtain evs s' where eq: "materializeDueMaturities s now = (True, evs, s')"
    using materialize_eq [OF assms] by (metis prod.exhaust)
  have look: "fmlookup (st_plots s') i = map_option (mature_if_due now) (fmlookup (st_plots s) i)" for i
    by (rule materialize_lookup [OF assms eq])
  have grow: "\<exists>m. pl_estimated_mature_at_ms p = Some m \<and> now < m"
    if "fmlookup (st_plots s') i = Some p" "pl_state p = GROWING" for i p
  proof -
    from that obtain q where q: "fmlookup (st_plots s) i = Some q" "p = mature_if_due now q"
      using look by auto
    with that(2) have "not_yet_due now q" "p = q"
      by (auto simp: mature_if_due_def split: if_splits)
    moreover have "estimate_ok q"
      using assms(1) q that(2) \<open>p = q\<close> by (auto simp: farm_growth_ok_def)
    ultimately show ?thesis
      using that(2) by (auto simp: not_yet_due_def estimate_ok_def split: option.splits)
  qed
  have "now < t" if "nextTickAt s' = Some t" for t
    using nextTickAt_Some [OF that] grow by fastforce
  moreover have "\<exists>t m. nextTickAt s' = Some t \<and> pl_estimated_mature_at_ms p = Some m \<and> t \<le> m"
    if "fmlookup (st_plots s') i = Some p" "pl_state p = GROWING" for i p
    using nextTickAt_le [OF that] grow [OF that] by blast
  ultimately show ?thesis by (auto simp: tick_def eq)
qed

theorem tick_progress_witness:
  "\<exists>r s'. tick sample_farm 5000 = (Some r, s') \<and> (\<forall>t. tr_next_tick_at r = Some t \<longrightarrow> 5000 < t)"
  using tick_progress [OF sample_farm_ok, of 5000] by (auto simp: max_i64_def)

text \<open>
  The estimate \<open>plant\<close> stores (\<open>estimateMatureAtMS\<close>, one division) is the one the general
  algorithm computes for a plot without effects, errors included.
\<close>

theorem estimateMatureAtMS_agrees:
  assumes "pl_fertilizer_effect p = None" "pl_pest_effect p = None"
    "in_i64 (pl_maturity_scaled9 p - pl_settled_scaled9 p)" "in_i64 (pl_base_rate_scaled6 p)"
  shows "estimateMatureAtMS c (pl_maturity_scaled9 p - pl_settled_scaled9 p) (pl_base_rate_scaled6 p) =
    estimatePlotMatureAtMS p c"
  using assms by (rule estimate_fresh)

theorem estimateMatureAtMS_agrees_witness:
  "estimateMatureAtMS 1000 10000000000 1000000 =
   estimatePlotMatureAtMS (sample_plot\<lparr>pl_fertilizer_effect := None\<rparr>) 1000 \<and>
   estimateMatureAtMS 1000 10000000000 1000000 = Some 11000"
proof
  show "estimateMatureAtMS 1000 10000000000 1000000 =
    estimatePlotMatureAtMS (sample_plot\<lparr>pl_fertilizer_effect := None\<rparr>) 1000"
    using estimateMatureAtMS_agrees [of "sample_plot\<lparr>pl_fertilizer_effect := None\<rparr>" 1000]
    by (simp add: sample_defs in_i64_def max_i64_def)
  show "estimateMatureAtMS 1000 10000000000 1000000 = Some 11000" by code_simp
qed

definition late_pest :: timed_effect where
  "late_pest = sample_fertilizer\<lparr>eff_kind := PEST, eff_modifier := Some (- 1000000), eff_end_at_ms := 90000\<rparr>"

definition late_plot :: plot where
  "late_plot = sample_plot\<lparr>pl_fertilizer_effect := Some (sample_fertilizer\<lparr>eff_end_at_ms := 20000\<rparr>),
     pl_pest_effect := Some late_pest, pl_estimated_mature_at_ms := Some 11000\<rparr>"

text \<open>
  C17: a late tick can fail where a punctual one succeeds. When a pest takes away the whole base rate
  and only the fertilizer keeps the rate positive, the estimate is consistent and a tick at the
  estimate matures the plot, but the same plot settled after the fertilizer ran out is an error
  (\<open>growthBetween\<close> looks at every segment up to \<open>now\<close>), so every later command on that farm fails.
\<close>

theorem late_settle_fails:
  "estimate_ok late_plot \<and> fst (settleGrowingPlot late_plot 11000) = Some True \<and>
   fst (settleGrowingPlot late_plot 20001) = None \<and>
   fst (tick ((NewDevelopmentState 7 1000)\<lparr>st_plots := fmupd 1 late_plot fmempty\<rparr>) 20001) = None"
proof (intro conjI)
  have "breakpoints late_plot = {1000, 20000, 90000}"
    by (auto simp: breakpoints_def effects_of_def late_plot_def late_pest_def sample_defs)
  moreover have "estimatePlotMatureAtMS late_plot 1000 = Some 11000" by code_simp
  ultimately show "estimate_ok late_plot"
    by (simp add: estimate_ok_def growing_plot_ok_def growing_fields_ok_def span_ok_def late_plot_def max_i64_def)
  show "fst (settleGrowingPlot late_plot 11000) = Some True" by code_simp
  show "fst (settleGrowingPlot late_plot 20001) = None" by code_simp
  show "fst (tick ((NewDevelopmentState 7 1000)\<lparr>st_plots := fmupd 1 late_plot fmempty\<rparr>) 20001) = None"
    by code_simp
qed

end
