(* ===== verification/Farm_Config.thy ===== *)
theory Farm_Config
  imports Farm_State
begin

text \<open>
  The immutable configuration snapshot of \<open>server/internal/player/config.go\<close>: its sections, the
  validating constructor, the built-in development content, and the lookups the commands use.

  A \<open>nil\<close> snapshot is not modelled: \<open>NewRuntime\<close> stores the development snapshot and
  \<open>ReplaceConfig\<close> refuses \<open>nil\<close>. The constructor's error messages are not modelled either; an error
  is \<open>None\<close>. Where the code ranges over a Go map and stops at the first hit, the order is a
  parameter: \<open>ord\<close> lists the keys in the order in which the runtime happens to visit them.
\<close>

section \<open>Sections of a snapshot\<close>

record shop_entry =
  se_id :: u32
  se_item_id :: u32
  se_unit_price :: int
  se_price_version :: u64
  se_enabled :: bool

record crop_config =
  cc_seed_item_id :: u32
  cc_crop_id :: u32
  cc_crop_item_id :: u32
  cc_name :: string
  cc_config_version :: u64
  cc_maturity_scaled9 :: int
  cc_base_rate_scaled6 :: int
  cc_base_yield :: u32
  cc_enabled :: bool
  cc_steal_quantity :: u32
  cc_max_steal_times :: u32
  cc_protected_owner_yield :: u32

record fertilizer_config =
  fc_item_id :: u32
  fc_config_version :: u64
  fc_modifier_scaled6 :: int
  fc_duration_ms :: int
  fc_enabled :: bool

record pest_config =
  pc_pest_id :: u32
  pc_config_version :: u64
  pc_modifier_scaled6 :: int
  pc_duration_ms :: int
  pc_enabled :: bool

record pet_config =
  ptc_pet_id :: u32
  ptc_name :: string
  ptc_price_coins :: int
  ptc_guard_probability_bps :: u32
  ptc_guard_penalty_coins :: int
  ptc_config_version :: u64
  ptc_enabled :: bool

record pet_food_config =
  pf_item_id :: u32
  pf_duration_seconds :: u64
  pf_config_version :: u64
  pf_enabled :: bool

record sell_rule =
  sl_shop_entry_id :: u32
  sl_item_id :: u32
  sl_unit_price :: int
  sl_price_version :: u64
  sl_enabled :: bool

record reward_item =
  ri_item_id :: u32
  ri_quantity :: u32

record chapter_config =
  ch_id :: u32
  ch_config_version :: u64
  ch_tasks :: "task list"
  ch_reward_coins :: int
  ch_reward_items :: "reward_item list"
  ch_next_chapter_id :: u32

record config_snapshot =
  cfg_version :: u64
  cfg_shop_entries :: "(u32, shop_entry) fmap"
  cfg_crops_by_seed :: "(u32, crop_config) fmap"
  cfg_fertilizers :: "(u32, fertilizer_config) fmap"
  cfg_pests :: "(u32, pest_config) fmap"
  cfg_pets :: "(u32, pet_config) fmap"
  cfg_pet_food :: "(u32, pet_food_config) fmap"
  cfg_sell_rules :: "(u32, sell_rule) fmap"
  cfg_chapters :: "(u32, chapter_config) fmap"

definition sellRuleView :: "sell_rule \<Rightarrow> shop_entry_view" where
  "sellRuleView r = ShopEntryView (sl_shop_entry_id r) (sl_item_id r) (sl_unit_price r)
     (sl_price_version r) (sl_enabled r)"

definition shopEntryView :: "shop_entry \<Rightarrow> shop_entry_view" where
  "shopEntryView e = ShopEntryView (se_id e) (se_item_id e) (se_unit_price e)
     (se_price_version e) (se_enabled e)"

section \<open>The validating constructor\<close>

definition shop_entry_valid :: "shop_entry \<Rightarrow> bool" where
  "shop_entry_valid e \<longleftrightarrow> \<not> (se_id e = 0 \<or> se_item_id e = 0 \<or> se_unit_price e \<le> 0 \<or> se_price_version e = 0)"

definition crop_valid :: "crop_config \<Rightarrow> bool" where
  "crop_valid c \<longleftrightarrow> \<not> (cc_seed_item_id c = 0 \<or> cc_crop_id c = 0 \<or> cc_crop_item_id c = 0 \<or>
     cc_config_version c = 0 \<or> cc_maturity_scaled9 c \<le> 0 \<or> cc_base_rate_scaled6 c \<le> 0 \<or> cc_base_yield c = 0)"

definition fertilizer_valid :: "fertilizer_config \<Rightarrow> bool" where
  "fertilizer_valid f \<longleftrightarrow> \<not> (fc_item_id f = 0 \<or> fc_config_version f = 0 \<or> fc_modifier_scaled6 f \<le> 0 \<or>
     fc_duration_ms f \<le> 0)"

definition pest_valid :: "pest_config \<Rightarrow> bool" where
  "pest_valid p \<longleftrightarrow> \<not> (pc_pest_id p = 0 \<or> pc_config_version p = 0 \<or> 0 \<le> pc_modifier_scaled6 p \<or>
     pc_duration_ms p \<le> 0)"

definition pet_valid :: "pet_config \<Rightarrow> bool" where
  "pet_valid p \<longleftrightarrow> \<not> (ptc_pet_id p = 0 \<or> ptc_name p = [] \<or> ptc_price_coins p \<le> 0 \<or>
     ptc_guard_probability_bps p = 0 \<or> ptc_guard_probability_bps p > 10000 \<or>
     ptc_guard_penalty_coins p < 0 \<or> ptc_config_version p = 0)"

definition pet_food_valid :: "pet_food_config \<Rightarrow> bool" where
  "pet_food_valid f \<longleftrightarrow> \<not> (pf_item_id f = 0 \<or> pf_duration_seconds f = 0 \<or> pf_config_version f = 0)"

definition sell_rule_valid :: "sell_rule \<Rightarrow> bool" where
  "sell_rule_valid r \<longleftrightarrow> \<not> (sl_shop_entry_id r = 0 \<or> sl_item_id r = 0 \<or> sl_unit_price r \<le> 0 \<or> sl_price_version r = 0)"

definition chapter_valid :: "chapter_config \<Rightarrow> bool" where
  "chapter_valid c \<longleftrightarrow> \<not> (ch_id c = 0 \<or> ch_config_version c = 0 \<or> ch_reward_coins c < 0)"

text \<open>The loop every section runs: validate, refuse a duplicate key, insert.\<close>

fun load_section :: "('a \<Rightarrow> bool) \<Rightarrow> ('a \<Rightarrow> u32) \<Rightarrow> 'a list \<Rightarrow> (u32, 'a) fmap \<Rightarrow> (u32, 'a) fmap option" where
  "load_section valid key [] m = Some m"
| "load_section valid key (x # xs) m =
     (if \<not> valid x then None
      else if fmlookup m (key x) \<noteq> None then None
      else load_section valid key xs (fmupd (key x) x m))"

fun no_duplicates :: "('a \<Rightarrow> u32) \<Rightarrow> 'a list \<Rightarrow> u32 fset \<Rightarrow> bool" where
  "no_duplicates key [] seen = True"
| "no_duplicates key (x # xs) seen =
     (if key x |\<in>| seen then False else no_duplicates key xs (finsert (key x) seen))"

fun load_sell_rules :: "sell_rule list \<Rightarrow> u32 fset \<Rightarrow> (u32, sell_rule) fmap \<Rightarrow> (u32, sell_rule) fmap option" where
  "load_sell_rules [] entryIDs m = Some m"
| "load_sell_rules (r # rs) entryIDs m =
     (if \<not> sell_rule_valid r then None
      else if sl_shop_entry_id r |\<in>| entryIDs then None
      else if fmlookup m (sl_item_id r) \<noteq> None then None
      else load_sell_rules rs (finsert (sl_shop_entry_id r) entryIDs) (fmupd (sl_item_id r) r m))"

fun task_ids_ok :: "task list \<Rightarrow> u32 fset \<Rightarrow> bool" where
  "task_ids_ok [] seen = True"
| "task_ids_ok (t # ts) seen =
     (if tk_id t = 0 \<or> tk_target t = 0 then False
      else if tk_id t |\<in>| seen then False
      else task_ids_ok ts (finsert (tk_id t) seen))"

fun reward_ids_ok :: "reward_item list \<Rightarrow> u32 fset \<Rightarrow> bool" where
  "reward_ids_ok [] seen = True"
| "reward_ids_ok (r # rs) seen =
     (if ri_item_id r = 0 \<or> ri_quantity r = 0 then False
      else if ri_item_id r |\<in>| seen then False
      else reward_ids_ok rs (finsert (ri_item_id r) seen))"

fun load_chapters :: "chapter_config list \<Rightarrow> (u32, chapter_config) fmap \<Rightarrow> (u32, chapter_config) fmap option" where
  "load_chapters [] m = Some m"
| "load_chapters (c # cs) m =
     (if \<not> chapter_valid c then None
      else if fmlookup m (ch_id c) \<noteq> None then None
      else if \<not> task_ids_ok (ch_tasks c) {||} then None
      else if \<not> reward_ids_ok (ch_reward_items c) {||} then None
      else load_chapters cs (fmupd (ch_id c)
             (c\<lparr>ch_tasks := sort_key tk_id (ch_tasks c),
               ch_reward_items := sort_key ri_item_id (ch_reward_items c)\<rparr>) m))"

definition next_chapters_ok :: "(u32, chapter_config) fmap \<Rightarrow> bool" where
  "next_chapters_ok m \<longleftrightarrow> (\<forall>i \<in> set (map_keys m).
     let c = the (fmlookup m i) in ch_next_chapter_id c \<noteq> 0 \<longrightarrow> fmlookup m (ch_next_chapter_id c) \<noteq> None)"

definition newConfigSnapshot ::
  "u64 \<Rightarrow> shop_entry list \<Rightarrow> crop_config list \<Rightarrow> fertilizer_config list \<Rightarrow> pest_config list \<Rightarrow>
   pet_config list \<Rightarrow> pet_food_config list \<Rightarrow> sell_rule list \<Rightarrow> chapter_config list \<Rightarrow> config_snapshot option" where
  "newConfigSnapshot version entries crops fertilizers pests pets petFood sellRules chapters =
     (if version = 0 then None
      else case load_section shop_entry_valid se_id entries fmempty of None \<Rightarrow> None | Some es \<Rightarrow>
           case load_section crop_valid cc_seed_item_id crops fmempty of None \<Rightarrow> None | Some cs \<Rightarrow>
           if \<not> no_duplicates cc_crop_id crops {||} \<or> \<not> no_duplicates cc_crop_item_id crops {||} then None
           else case load_section fertilizer_valid fc_item_id fertilizers fmempty of None \<Rightarrow> None | Some fs \<Rightarrow>
           case load_section pest_valid pc_pest_id pests fmempty of None \<Rightarrow> None | Some ps \<Rightarrow>
           case load_section pet_valid ptc_pet_id pets fmempty of None \<Rightarrow> None | Some pts \<Rightarrow>
           case load_section pet_food_valid pf_item_id petFood fmempty of None \<Rightarrow> None | Some pfs \<Rightarrow>
           case load_sell_rules sellRules (fmdom es) fmempty of None \<Rightarrow> None | Some rs \<Rightarrow>
           case load_chapters chapters fmempty of None \<Rightarrow> None | Some chs \<Rightarrow>
           if \<not> next_chapters_ok chs then None
           else Some \<lparr>cfg_version = version, cfg_shop_entries = es, cfg_crops_by_seed = cs,
             cfg_fertilizers = fs, cfg_pests = ps, cfg_pets = pts, cfg_pet_food = pfs,
             cfg_sell_rules = rs, cfg_chapters = chs\<rparr>)"

section \<open>Yields\<close>

definition protectedOwnerYieldFromBaseYield :: "u32 \<Rightarrow> u32" where
  "protectedOwnerYieldFromBaseYield baseYield = (if baseYield = 0 then 0 else (baseYield + 1) div 2)"

definition maxStealTimesFromBaseYield :: "u32 \<Rightarrow> u32" where
  "maxStealTimesFromBaseYield baseYield =
     (let protected = protectedOwnerYieldFromBaseYield baseYield
      in if baseYield \<le> protected then 0 else baseYield - protected)"

definition stealQuantityFromBaseYield :: "u32 \<Rightarrow> u32" where
  "stealQuantityFromBaseYield baseYield = (if maxStealTimesFromBaseYield baseYield = 0 then 0 else 1)"

section \<open>Development content\<close>

datatype development_crop_def = DevelopmentCropDef
  (dc_name: string) (dc_crop_id: u32) (dc_seed_item_id: u32) (dc_crop_item_id: u32)
  (dc_seed_shop_entry_id: u32) (dc_sell_shop_entry_id: u32) (dc_seed_price: int)
  (dc_seed_price_version: u64) (dc_maturity_scaled9: int) (dc_base_yield: u32)

text \<open>Names are Go strings, that is UTF-8 bytes.\<close>

definition utf8 :: "nat list \<Rightarrow> string" where
  "utf8 bs = map char_of bs"

definition developmentExtraCrops :: "development_crop_def list" where
  "developmentExtraCrops =
     [DevelopmentCropDef (utf8 [232, 131, 161, 232, 144, 157, 229, 141, 156]) 2002 1005 1015 5005 5015 3 12 60000000000 3,
      DevelopmentCropDef (utf8 [231, 153, 189, 232, 144, 157, 229, 141, 156]) 2003 1006 1016 5006 5016 3 12 70000000000 3,
      DevelopmentCropDef (utf8 [231, 142, 137, 231, 177, 179]) 2004 1007 1017 5007 5017 4 12 80000000000 3,
      DevelopmentCropDef (utf8 [231, 149, 170, 232, 140, 132]) 2005 1008 1018 5008 5018 4 12 90000000000 4,
      DevelopmentCropDef (utf8 [229, 156, 159, 232, 177, 134]) 2006 1009 1019 5009 5019 4 12 100000000000 4,
      DevelopmentCropDef (utf8 [232, 140, 132, 229, 173, 144]) 2007 1010 1020 5010 5020 4 12 110000000000 5,
      DevelopmentCropDef (utf8 [232, 141, 137, 232, 142, 147]) 2008 1011 1021 5011 5021 5 12 120000000000 4,
      DevelopmentCropDef (utf8 [229, 141, 151, 231, 147, 156]) 2009 1012 1022 5012 5022 5 12 130000000000 5,
      DevelopmentCropDef (utf8 [232, 165, 191, 231, 147, 156]) 2010 1013 1023 5013 5023 5 12 140000000000 5,
      DevelopmentCropDef (utf8 [232, 145, 161, 232, 144, 132]) 2011 1014 1024 5014 5024 5 12 150000000000 6]"

definition development_shop_entries :: "shop_entry list" where
  "development_shop_entries =
     [\<lparr>se_id = 5001, se_item_id = 1001, se_unit_price = 2, se_price_version = 8, se_enabled = True\<rparr>,
      \<lparr>se_id = 5003, se_item_id = BasicFertilizerID, se_unit_price = 2, se_price_version = 10, se_enabled = True\<rparr>,
      \<lparr>se_id = 5004, se_item_id = 1004, se_unit_price = 5, se_price_version = 11, se_enabled = True\<rparr>] @
     map (\<lambda>d. \<lparr>se_id = dc_seed_shop_entry_id d, se_item_id = dc_seed_item_id d,
       se_unit_price = dc_seed_price d, se_price_version = dc_seed_price_version d, se_enabled = True\<rparr>)
       developmentExtraCrops"

definition development_crops :: "crop_config list" where
  "development_crops =
     \<lparr>cc_seed_item_id = 1001, cc_crop_id = 2001, cc_crop_item_id = 1002,
       cc_name = utf8 [230, 188, 148, 231, 164, 186, 228, 189, 156, 231, 137, 169], cc_config_version = ServerConfigVersion,
       cc_maturity_scaled9 = 100000000000, cc_base_rate_scaled6 = 1000000, cc_base_yield = 3,
       cc_enabled = True, cc_steal_quantity = 1, cc_max_steal_times = 1, cc_protected_owner_yield = 2\<rparr> #
     map (\<lambda>d. \<lparr>cc_seed_item_id = dc_seed_item_id d, cc_crop_id = dc_crop_id d,
       cc_crop_item_id = dc_crop_item_id d, cc_name = dc_name d, cc_config_version = ServerConfigVersion,
       cc_maturity_scaled9 = dc_maturity_scaled9 d, cc_base_rate_scaled6 = 1000000,
       cc_base_yield = dc_base_yield d, cc_enabled = True,
       cc_steal_quantity = stealQuantityFromBaseYield (dc_base_yield d),
       cc_max_steal_times = maxStealTimesFromBaseYield (dc_base_yield d),
       cc_protected_owner_yield = protectedOwnerYieldFromBaseYield (dc_base_yield d)\<rparr>)
       developmentExtraCrops"

definition development_sell_rules :: "sell_rule list" where
  "development_sell_rules =
     \<lparr>sl_shop_entry_id = 5002, sl_item_id = 1002, sl_unit_price = 5, sl_price_version = 9, sl_enabled = True\<rparr> #
     map (\<lambda>d. \<lparr>sl_shop_entry_id = dc_sell_shop_entry_id d, sl_item_id = dc_crop_item_id d,
       sl_unit_price = 5, sl_price_version = 9, sl_enabled = True\<rparr>) developmentExtraCrops"

definition development_chapters :: "chapter_config list" where
  "development_chapters =
     [\<lparr>ch_id = InitialChapterID, ch_config_version = ServerConfigVersion,
       ch_tasks = map (\<lambda>(i, n). \<lparr>tk_id = i, tk_current = 0, tk_target = n\<rparr>) [(1, 3), (2, 1), (3, 1), (4, 1), (5, 1)],
       ch_reward_coins = 10,
       ch_reward_items = [\<lparr>ri_item_id = BasicFertilizerID, ri_quantity = 1\<rparr>, \<lparr>ri_item_id = 1012, ri_quantity = 3\<rparr>],
       ch_next_chapter_id = 2\<rparr>,
      \<lparr>ch_id = 2, ch_config_version = ServerConfigVersion,
       ch_tasks = map (\<lambda>(i, n). \<lparr>tk_id = i, tk_current = 0, tk_target = n\<rparr>) [(6, 1), (7, 1), (8, 1)],
       ch_reward_coins = 10,
       ch_reward_items = [\<lparr>ri_item_id = BasicFertilizerID, ri_quantity = 5\<rparr>, \<lparr>ri_item_id = 1013, ri_quantity = 10\<rparr>],
       ch_next_chapter_id = 0\<rparr>]"

text \<open>\<open>None\<close> is the \<open>panic(err)\<close> of \<open>NewDevelopmentConfigSnapshot\<close>.\<close>

definition NewDevelopmentConfigSnapshot :: "config_snapshot option" where
  "NewDevelopmentConfigSnapshot = newConfigSnapshot ServerConfigVersion development_shop_entries
     development_crops
     [\<lparr>fc_item_id = BasicFertilizerID, fc_config_version = ServerConfigVersion,
       fc_modifier_scaled6 = 500000, fc_duration_ms = 60000, fc_enabled = True\<rparr>]
     [\<lparr>pc_pest_id = 1, pc_config_version = ServerConfigVersion, pc_modifier_scaled6 = - 300000,
       pc_duration_ms = 120000, pc_enabled = True\<rparr>]
     [\<lparr>ptc_pet_id = 1, ptc_name = utf8 [231, 148, 176, 229, 155, 173, 231, 138, 172], ptc_price_coins = 5,
       ptc_guard_probability_bps = 1000, ptc_guard_penalty_coins = 2,
       ptc_config_version = ServerConfigVersion, ptc_enabled = True\<rparr>,
      \<lparr>ptc_pet_id = 2, ptc_name = utf8 [231, 137, 167, 231, 190, 138, 231, 138, 172], ptc_price_coins = 10,
       ptc_guard_probability_bps = 1000, ptc_guard_penalty_coins = 4,
       ptc_config_version = ServerConfigVersion, ptc_enabled = True\<rparr>]
     [\<lparr>pf_item_id = 1004, pf_duration_seconds = 86400, pf_config_version = ServerConfigVersion, pf_enabled = True\<rparr>]
     development_sell_rules development_chapters"

section \<open>Lookups\<close>

definition ShopEntry :: "config_snapshot \<Rightarrow> u32 \<Rightarrow> shop_entry option" where
  "ShopEntry c i = fmlookup (cfg_shop_entries c) i"

definition CropForSeed :: "config_snapshot \<Rightarrow> u32 \<Rightarrow> crop_config option" where
  "CropForSeed c i = fmlookup (cfg_crops_by_seed c) i"

definition Fertilizer :: "config_snapshot \<Rightarrow> u32 \<Rightarrow> fertilizer_config option" where
  "Fertilizer c i = fmlookup (cfg_fertilizers c) i"

definition Pest :: "config_snapshot \<Rightarrow> u32 \<Rightarrow> pest_config option" where
  "Pest c i = fmlookup (cfg_pests c) i"

definition Pet :: "config_snapshot \<Rightarrow> u32 \<Rightarrow> pet_config option" where
  "Pet c i = fmlookup (cfg_pets c) i"

definition PetFood :: "config_snapshot \<Rightarrow> u32 \<Rightarrow> pet_food_config option" where
  "PetFood c i = fmlookup (cfg_pet_food c) i"

definition SellRule :: "config_snapshot \<Rightarrow> u32 \<Rightarrow> sell_rule option" where
  "SellRule c i = fmlookup (cfg_sell_rules c) i"

definition Chapter :: "config_snapshot \<Rightarrow> u32 \<Rightarrow> chapter_config option" where
  "Chapter c i = fmlookup (cfg_chapters c) i"

definition IsCropItem :: "config_snapshot \<Rightarrow> u32 \<Rightarrow> bool" where
  "IsCropItem c i = (case SellRule c i of None \<Rightarrow> False | Some r \<Rightarrow> sl_enabled r)"

definition ActivePets :: "config_snapshot \<Rightarrow> pet_config list" where
  "ActivePets c = map (\<lambda>i. the (fmlookup (cfg_pets c) i))
     (filter (\<lambda>i. ptc_enabled (the (fmlookup (cfg_pets c) i))) (map_keys (cfg_pets c)))"

fun first_hit :: "('a \<Rightarrow> 'b option) \<Rightarrow> 'a list \<Rightarrow> 'b option" where
  "first_hit f [] = None"
| "first_hit f (x # xs) = (case f x of Some y \<Rightarrow> Some y | None \<Rightarrow> first_hit f xs)"

definition PrimaryPetFood :: "u32 list \<Rightarrow> config_snapshot \<Rightarrow> (pet_food_config \<times> shop_entry) option" where
  "PrimaryPetFood ord c = first_hit (\<lambda>i.
     case fmlookup (cfg_shop_entries c) i of None \<Rightarrow> None | Some e \<Rightarrow>
     (case fmlookup (cfg_pet_food c) (se_item_id e) of None \<Rightarrow> None
      | Some f \<Rightarrow> if pf_enabled f \<and> se_enabled e then Some (f, e) else None)) ord"

definition CropByID :: "u32 list \<Rightarrow> config_snapshot \<Rightarrow> u32 \<Rightarrow> crop_config option" where
  "CropByID ord c cropID = first_hit (\<lambda>i.
     case fmlookup (cfg_crops_by_seed c) i of None \<Rightarrow> None
     | Some crop \<Rightarrow> if cc_crop_id crop = cropID then Some crop else None) ord"

definition shopEntryForItem :: "u32 list \<Rightarrow> config_snapshot \<Rightarrow> u32 \<Rightarrow> shop_entry option" where
  "shopEntryForItem ord c itemID = first_hit (\<lambda>i.
     case fmlookup (cfg_shop_entries c) i of None \<Rightarrow> None
     | Some e \<Rightarrow> if se_item_id e = itemID \<and> se_enabled e then Some e else None) ord"

definition active_views :: "config_snapshot \<Rightarrow> (u32 \<times> shop_entry_view) list" where
  "active_views c =
     [(i, shopEntryView e). i \<leftarrow> map_keys (cfg_shop_entries c),
        e \<leftarrow> [the (fmlookup (cfg_shop_entries c) i)], se_enabled e] @
     [(sl_shop_entry_id r, sellRuleView r). i \<leftarrow> map_keys (cfg_sell_rules c),
        r \<leftarrow> [the (fmlookup (cfg_sell_rules c) i)], sl_enabled r]"

definition ActiveShopEntries :: "config_snapshot \<Rightarrow> shop_entry_view list" where
  "ActiveShopEntries c =
     (let avs = active_views c;
          views = fold (\<lambda>(i, v) m. fmupd i v m) avs fmempty
      in map (\<lambda>i. the (fmlookup views i)) (sort (map fst avs)))"

text \<open>
  \<open>SoleStealableCrop\<close> walks the seeds in ascending order and keeps the smallest crop item; the
  accumulator is the named result \<open>(cropItemID, stealQuantity, ok)\<close>.
\<close>

definition SoleStealableCrop :: "config_snapshot \<Rightarrow> (u32 \<times> u32) option" where
  "SoleStealableCrop c = fold (\<lambda>i acc.
     let crop = the (fmlookup (cfg_crops_by_seed c) i)
     in if cc_steal_quantity crop = 0 \<or> cc_max_steal_times crop = 0 then acc
        else case acc of
               None \<Rightarrow> Some (cc_crop_item_id crop, cc_steal_quantity crop)
             | Some (j, q) \<Rightarrow> if cc_crop_item_id crop < j
                 then Some (cc_crop_item_id crop, cc_steal_quantity crop) else acc)
     (map_keys (cfg_crops_by_seed c)) None"

definition catalog_entry :: "u32 list \<Rightarrow> config_snapshot \<Rightarrow> crop_config \<Rightarrow> crop_catalog_view" where
  "catalog_entry ord c crop =
     (let shop = shopEntryForItem ord c (cc_seed_item_id crop);
          rule = SellRule c (cc_crop_item_id crop)
      in CropCatalogEntryView (cc_crop_id crop) (cc_name crop) (cc_seed_item_id crop) (cc_crop_item_id crop)
           (of_int (go_quo (cc_maturity_scaled9 crop) 1000000000)) (cc_base_yield crop)
           (case shop of None \<Rightarrow> 0 | Some e \<Rightarrow> se_unit_price e)
           (case shop of None \<Rightarrow> 0 | Some e \<Rightarrow> se_price_version e)
           (case shop of None \<Rightarrow> 0 | Some e \<Rightarrow> se_id e)
           (case rule of None \<Rightarrow> 0 | Some r \<Rightarrow> sl_unit_price r)
           (case rule of None \<Rightarrow> 0 | Some r \<Rightarrow> sl_price_version r))"

definition ActiveCropCatalog :: "u32 list \<Rightarrow> config_snapshot \<Rightarrow> crop_catalog_view list" where
  "ActiveCropCatalog ord c =
     (let crops = filter cc_enabled (map (\<lambda>i. the (fmlookup (cfg_crops_by_seed c) i)) (map_keys (cfg_crops_by_seed c)));
          byID = fold (\<lambda>crop m. fmupd (cc_crop_id crop) crop m) crops fmempty
      in map (\<lambda>i. catalog_entry ord c (the (fmlookup byID i))) (sort (map cc_crop_id crops)))"

section \<open>What the constructor guarantees\<close>

definition section_ok :: "('a \<Rightarrow> bool) \<Rightarrow> ('a \<Rightarrow> u32) \<Rightarrow> (u32, 'a) fmap \<Rightarrow> bool" where
  "section_ok valid key m \<longleftrightarrow> (\<forall>k x. fmlookup m k = Some x \<longrightarrow> valid x \<and> key x = k)"

definition chapter_ok :: "chapter_config \<Rightarrow> bool" where
  "chapter_ok c \<longleftrightarrow> chapter_valid c \<and>
     sorted_wrt (<) (map tk_id (ch_tasks c)) \<and> (\<forall>t \<in> set (ch_tasks c). tk_id t \<noteq> 0 \<and> tk_target t \<noteq> 0) \<and>
     sorted_wrt (<) (map ri_item_id (ch_reward_items c)) \<and>
     (\<forall>r \<in> set (ch_reward_items c). ri_item_id r \<noteq> 0 \<and> ri_quantity r \<noteq> 0)"

definition config_ok :: "config_snapshot \<Rightarrow> bool" where
  "config_ok c \<longleftrightarrow> cfg_version c \<noteq> 0 \<and>
     section_ok shop_entry_valid se_id (cfg_shop_entries c) \<and>
     section_ok crop_valid cc_seed_item_id (cfg_crops_by_seed c) \<and>
     section_ok fertilizer_valid fc_item_id (cfg_fertilizers c) \<and>
     section_ok pest_valid pc_pest_id (cfg_pests c) \<and>
     section_ok pet_valid ptc_pet_id (cfg_pets c) \<and>
     section_ok pet_food_valid pf_item_id (cfg_pet_food c) \<and>
     section_ok sell_rule_valid sl_item_id (cfg_sell_rules c) \<and>
     section_ok chapter_ok ch_id (cfg_chapters c) \<and>
     (\<forall>i j a b. fmlookup (cfg_crops_by_seed c) i = Some a \<and> fmlookup (cfg_crops_by_seed c) j = Some b \<and>
        (cc_crop_id a = cc_crop_id b \<or> cc_crop_item_id a = cc_crop_item_id b) \<longrightarrow> a = b) \<and>
     (\<forall>i j a b. fmlookup (cfg_sell_rules c) i = Some a \<and> fmlookup (cfg_sell_rules c) j = Some b \<and>
        sl_shop_entry_id a = sl_shop_entry_id b \<longrightarrow> a = b) \<and>
     (\<forall>i a. fmlookup (cfg_sell_rules c) i = Some a \<longrightarrow> sl_shop_entry_id a |\<notin>| fmdom (cfg_shop_entries c)) \<and>
     (\<forall>i a. fmlookup (cfg_chapters c) i = Some a \<and> ch_next_chapter_id a \<noteq> 0 \<longrightarrow>
        ch_next_chapter_id a |\<in>| fmdom (cfg_chapters c))"

lemma load_section_ok:
  "load_section valid key xs m = Some m' \<Longrightarrow> section_ok valid key m \<Longrightarrow> section_ok valid key m'"
proof (induction xs arbitrary: m)
  case (Cons x xs)
  then have x: "valid x" "load_section valid key xs (fmupd (key x) x m) = Some m'"
    by (auto split: if_splits)
  have "section_ok valid key (fmupd (key x) x m)"
    using Cons.prems(2) x(1) by (simp add: section_ok_def)
  then show ?case by (rule Cons.IH [OF x(2)])
qed simp

lemma load_section_range:
  "load_section valid key xs m = Some m' \<Longrightarrow> fmlookup m' k = Some x \<Longrightarrow> fmlookup m k = Some x \<or> x \<in> set xs"
proof (induction xs arbitrary: m)
  case (Cons y xs)
  then have "load_section valid key xs (fmupd (key y) y m) = Some m'" by (auto split: if_splits)
  from Cons.IH [OF this Cons.prems(2)] show ?case by (auto split: if_splits)
qed simp

lemma section_ok_empty [simp]: "section_ok valid key fmempty"
  by (simp add: section_ok_def)

lemma no_duplicates_inj:
  "no_duplicates key xs seen \<Longrightarrow> inj_on key (set xs) \<and> distinct xs \<and> key ` set xs \<inter> fset seen = {}"
  by (induction xs arbitrary: seen) (auto split: if_splits)

lemma load_sell_rules_spec:
  assumes "load_sell_rules rs ids m = Some m'"
    "section_ok sell_rule_valid sl_item_id m"
    "\<forall>k x. fmlookup m k = Some x \<longrightarrow> sl_shop_entry_id x |\<in>| ids"
    "\<forall>i j a b. fmlookup m i = Some a \<and> fmlookup m j = Some b \<and> sl_shop_entry_id a = sl_shop_entry_id b \<longrightarrow> a = b"
  shows "section_ok sell_rule_valid sl_item_id m' \<and>
    (\<forall>i j a b. fmlookup m' i = Some a \<and> fmlookup m' j = Some b \<and> sl_shop_entry_id a = sl_shop_entry_id b \<longrightarrow> a = b)"
  using assms
proof (induction rs arbitrary: ids m)
  case (Cons r rs)
  then have c: "sell_rule_valid r" "sl_shop_entry_id r |\<notin>| ids"
    "load_sell_rules rs (finsert (sl_shop_entry_id r) ids) (fmupd (sl_item_id r) r m) = Some m'"
    by (auto split: if_splits)
  show ?case
  proof (rule Cons.IH [OF c(3)])
    show "section_ok sell_rule_valid sl_item_id (fmupd (sl_item_id r) r m)"
      using Cons.prems(2) c(1) by (simp add: section_ok_def)
    show "\<forall>k x. fmlookup (fmupd (sl_item_id r) r m) k = Some x \<longrightarrow>
        sl_shop_entry_id x |\<in>| finsert (sl_shop_entry_id r) ids"
      using Cons.prems(3) by auto
    show "\<forall>i j a b. fmlookup (fmupd (sl_item_id r) r m) i = Some a \<and>
        fmlookup (fmupd (sl_item_id r) r m) j = Some b \<and> sl_shop_entry_id a = sl_shop_entry_id b \<longrightarrow> a = b"
      using Cons.prems(3,4) c(2) by (metis fmupd_lookup option.inject)
  qed
qed simp

lemma load_sell_rules_fresh:
  "load_sell_rules rs ids m = Some m' \<Longrightarrow> fmlookup m' k = Some x \<Longrightarrow>
     fmlookup m k = Some x \<or> sl_shop_entry_id x |\<notin>| ids"
  by (induction rs arbitrary: ids m) (fastforce split: if_splits)+

lemma task_ids_ok_spec:
  "task_ids_ok ts seen \<Longrightarrow> distinct (map tk_id ts) \<and> tk_id ` set ts \<inter> fset seen = {} \<and>
     (\<forall>t \<in> set ts. tk_id t \<noteq> 0 \<and> tk_target t \<noteq> 0)"
  by (induction ts arbitrary: seen) (auto split: if_splits)

lemma reward_ids_ok_spec:
  "reward_ids_ok rs seen \<Longrightarrow> distinct (map ri_item_id rs) \<and> ri_item_id ` set rs \<inter> fset seen = {} \<and>
     (\<forall>r \<in> set rs. ri_item_id r \<noteq> 0 \<and> ri_quantity r \<noteq> 0)"
  by (induction rs arbitrary: seen) (auto split: if_splits)

lemma sort_key_strict:
  assumes "distinct (map f xs)"
  shows "sorted_wrt (<) (map f (sort_key (f :: 'a \<Rightarrow> u32) xs))"
proof -
  have "distinct (map f (sort_key f xs))" using assms by (simp add: distinct_map)
  then show ?thesis by (simp add: strict_sorted_iff)
qed

lemma load_chapters_ok:
  "load_chapters cs m = Some m' \<Longrightarrow> section_ok chapter_ok ch_id m \<Longrightarrow> section_ok chapter_ok ch_id m'"
proof (induction cs arbitrary: m)
  case (Cons c cs)
  let ?c = "c\<lparr>ch_tasks := sort_key tk_id (ch_tasks c), ch_reward_items := sort_key ri_item_id (ch_reward_items c)\<rparr>"
  from Cons.prems have c: "chapter_valid c" "task_ids_ok (ch_tasks c) {||}" "reward_ids_ok (ch_reward_items c) {||}"
    "load_chapters cs (fmupd (ch_id c) ?c m) = Some m'"
    by (auto split: if_splits)
  have "chapter_ok ?c"
    using c(1) task_ids_ok_spec [OF c(2)] reward_ids_ok_spec [OF c(3)]
    by (simp add: chapter_ok_def chapter_valid_def sort_key_strict)
  then have "section_ok chapter_ok ch_id (fmupd (ch_id c) ?c m)"
    using Cons.prems(2) by (simp add: section_ok_def)
  then show ?case using Cons.IH [OF c(4)] by simp
qed simp

lemma newConfigSnapshot_parts:
  assumes "newConfigSnapshot v es cs fs ps pts pfs rs chs = Some c"
  shows "v \<noteq> 0" "cfg_version c = v"
    "load_section shop_entry_valid se_id es fmempty = Some (cfg_shop_entries c)"
    "load_section crop_valid cc_seed_item_id cs fmempty = Some (cfg_crops_by_seed c)"
    "no_duplicates cc_crop_id cs {||}" "no_duplicates cc_crop_item_id cs {||}"
    "load_section fertilizer_valid fc_item_id fs fmempty = Some (cfg_fertilizers c)"
    "load_section pest_valid pc_pest_id ps fmempty = Some (cfg_pests c)"
    "load_section pet_valid ptc_pet_id pts fmempty = Some (cfg_pets c)"
    "load_section pet_food_valid pf_item_id pfs fmempty = Some (cfg_pet_food c)"
    "load_sell_rules rs (fmdom (cfg_shop_entries c)) fmempty = Some (cfg_sell_rules c)"
    "load_chapters chs fmempty = Some (cfg_chapters c)" "next_chapters_ok (cfg_chapters c)"
  using assms by (auto simp: newConfigSnapshot_def split: if_splits option.splits)

lemma newConfigSnapshot_config_ok:
  assumes "newConfigSnapshot v es cs fs ps pts pfs rs chs = Some c"
  shows "config_ok c"
proof -
  note p = newConfigSnapshot_parts [OF assms]
  note sections = p(3,4,7-10) [THEN load_section_ok, OF section_ok_empty]
  have crops: "a = b" if "fmlookup (cfg_crops_by_seed c) i = Some a" "fmlookup (cfg_crops_by_seed c) j = Some b"
    "cc_crop_id a = cc_crop_id b \<or> cc_crop_item_id a = cc_crop_item_id b" for i j a b
    using load_section_range [OF p(4)] that no_duplicates_inj [OF p(5)] no_duplicates_inj [OF p(6)]
    by (metis fmempty_lookup inj_onD option.distinct(1))
  have rules: "section_ok sell_rule_valid sl_item_id (cfg_sell_rules c) \<and>
    (\<forall>i j a b. fmlookup (cfg_sell_rules c) i = Some a \<and> fmlookup (cfg_sell_rules c) j = Some b \<and>
      sl_shop_entry_id a = sl_shop_entry_id b \<longrightarrow> a = b)"
    by (rule load_sell_rules_spec [OF p(11)]) simp_all
  have fresh: "sl_shop_entry_id a |\<notin>| fmdom (cfg_shop_entries c)" if "fmlookup (cfg_sell_rules c) i = Some a" for i a
    using load_sell_rules_fresh [OF p(11) that] by simp
  have "ch_next_chapter_id a |\<in>| fmdom (cfg_chapters c)"
    if "fmlookup (cfg_chapters c) i = Some a" "ch_next_chapter_id a \<noteq> 0" for i a
  proof -
    have "i |\<in>| fmdom (cfg_chapters c)" using that(1) by (rule fmdomI)
    then have "fmlookup (cfg_chapters c) (ch_next_chapter_id a) \<noteq> None"
      using p(13) that unfolding next_chapters_ok_def by (metis option.sel set_map_keys)
    then show ?thesis by (simp add: fmlookup_dom_iff)
  qed
  moreover have "cfg_version c \<noteq> 0" "section_ok chapter_ok ch_id (cfg_chapters c)"
    using p(1,2) load_chapters_ok [OF p(12) section_ok_empty] by simp_all
  ultimately show ?thesis
    unfolding config_ok_def using sections crops rules fresh by (intro conjI) blast+
qed

lemma section_okD: "section_ok valid key m \<Longrightarrow> fmlookup m i = Some x \<Longrightarrow> valid x \<and> key x = i"
  unfolding section_ok_def by blast

lemma config_ok_sections:
  assumes "config_ok c"
  shows "section_ok shop_entry_valid se_id (cfg_shop_entries c)"
    "section_ok crop_valid cc_seed_item_id (cfg_crops_by_seed c)"
    "section_ok fertilizer_valid fc_item_id (cfg_fertilizers c)"
    "section_ok pest_valid pc_pest_id (cfg_pests c)"
    "section_ok pet_valid ptc_pet_id (cfg_pets c)"
    "section_ok pet_food_valid pf_item_id (cfg_pet_food c)"
    "section_ok sell_rule_valid sl_item_id (cfg_sell_rules c)"
    "section_ok chapter_ok ch_id (cfg_chapters c)"
  using assms unfolding config_ok_def by simp_all

text \<open>What a lookup in an accepted configuration returns.\<close>

lemma config_lookup:
  assumes "config_ok c"
  shows "ShopEntry c i = Some e \<Longrightarrow> shop_entry_valid e \<and> se_id e = i"
    "CropForSeed c i = Some cr \<Longrightarrow> crop_valid cr \<and> cc_seed_item_id cr = i"
    "Fertilizer c i = Some f \<Longrightarrow> fertilizer_valid f \<and> fc_item_id f = i"
    "Pest c i = Some ps \<Longrightarrow> pest_valid ps \<and> pc_pest_id ps = i"
    "Pet c i = Some pt \<Longrightarrow> pet_valid pt \<and> ptc_pet_id pt = i"
    "PetFood c i = Some pf \<Longrightarrow> pet_food_valid pf \<and> pf_item_id pf = i"
    "SellRule c i = Some r \<Longrightarrow> sell_rule_valid r \<and> sl_item_id r = i"
    "Chapter c i = Some ch \<Longrightarrow> chapter_ok ch \<and> ch_id ch = i"
  using config_ok_sections [OF assms, THEN section_okD]
  unfolding ShopEntry_def CropForSeed_def Fertilizer_def Pest_def Pet_def PetFood_def SellRule_def Chapter_def
  by blast+

lemma load_section_mono:
  "load_section valid key xs m = Some m' \<Longrightarrow> fmlookup m k = Some x \<Longrightarrow> fmlookup m' k = Some x"
proof (induction xs arbitrary: m)
  case (Cons y xs)
  then show ?case by (intro Cons.IH [of "fmupd (key y) y m"]) (auto split: if_splits)
qed simp

lemma load_section_lookup:
  "load_section valid key xs m = Some m' \<Longrightarrow> x \<in> set xs \<Longrightarrow> fmlookup m' (key x) = Some x"
proof (induction xs arbitrary: m)
  case (Cons y xs)
  then have step: "load_section valid key xs (fmupd (key y) y m) = Some m'" by (auto split: if_splits)
  show ?case
  proof (cases "x \<in> set xs")
    case True
    then show ?thesis by (rule Cons.IH [OF step])
  next
    case False
    then have "x = y" using Cons.prems(2) by simp
    then show ?thesis using load_section_mono [OF step, of "key x" x] by simp
  qed
qed simp

section \<open>The development snapshot\<close>

lemmas dev_defs = development_shop_entries_def development_crops_def development_sell_rules_def
  development_chapters_def developmentExtraCrops_def initial_consts utf8_def
  shop_entry_valid_def crop_valid_def sell_rule_valid_def chapter_valid_def fertilizer_valid_def
  pest_valid_def pet_valid_def pet_food_valid_def

lemma development_config_accepted: "\<exists>c. NewDevelopmentConfigSnapshot = Some c"
  by (simp add: NewDevelopmentConfigSnapshot_def newConfigSnapshot_def next_chapters_ok_def Let_def dev_defs)

definition dev_config :: config_snapshot where
  "dev_config = the NewDevelopmentConfigSnapshot"

lemma dev_config_Some: "NewDevelopmentConfigSnapshot = Some dev_config"
  using development_config_accepted by (auto simp: dev_config_def)

lemmas dev_parts = newConfigSnapshot_parts [OF dev_config_Some [unfolded NewDevelopmentConfigSnapshot_def]]

lemma dev_config_ok: "config_ok dev_config"
  by (rule newConfigSnapshot_config_ok) (rule dev_config_Some [unfolded NewDevelopmentConfigSnapshot_def])

lemma dev_version [simp]: "cfg_version dev_config = 2"
  using dev_parts(2) by (simp add: ServerConfigVersion_def)

lemma dev_fertilizer: "Fertilizer dev_config 1 = Some \<lparr>fc_item_id = 1, fc_config_version = 2,
    fc_modifier_scaled6 = 500000, fc_duration_ms = 60000, fc_enabled = True\<rparr>"
  using load_section_lookup [OF dev_parts(7)] by (simp add: Fertilizer_def initial_consts)

lemma dev_chapter_lookup:
  "Chapter dev_config i = (if i = 1 then Some (development_chapters ! 0)
     else if i = 2 then Some (development_chapters ! 1) else None)"
proof -
  have "load_chapters development_chapters fmempty =
    Some (fmupd 2 (development_chapters ! 1) (fmupd 1 (development_chapters ! 0) fmempty))"
    by (simp add: development_chapters_def chapter_valid_def initial_consts)
  then show ?thesis using dev_parts(12) by (auto simp: Chapter_def)
qed

lemmas dev_chapters = dev_chapter_lookup [of 1, simplified] dev_chapter_lookup [of 2, simplified]

lemma first_hit_Some: "first_hit f xs = Some y \<Longrightarrow> \<exists>x \<in> set xs. f x = Some y"
  by (induction xs) (auto split: option.splits)

lemma first_hit_None: "first_hit f xs = None \<longleftrightarrow> (\<forall>x \<in> set xs. f x = None)"
  by (induction xs) (auto split: option.splits)

text \<open>A search whose hits all agree does not depend on the order in which it looks.\<close>

lemma first_hit_order:
  assumes "set xs = set ys"
    "\<And>x y a b. x \<in> set xs \<Longrightarrow> y \<in> set xs \<Longrightarrow> f x = Some a \<Longrightarrow> f y = Some b \<Longrightarrow> a = b"
  shows "first_hit f xs = first_hit f ys"
proof (cases "first_hit f xs")
  case None
  then show ?thesis using first_hit_None [of f xs] first_hit_None [of f ys] assms(1) by simp
next
  case (Some a)
  then obtain b where "first_hit f ys = Some b"
    using first_hit_None [of f xs] first_hit_None [of f ys] assms(1) by fastforce
  then show ?thesis
    using Some first_hit_Some [of f xs a] first_hit_Some [of f ys b] assms by fastforce
qed

lemma fmlookup_fold_pairs:
  assumes "distinct (map fst xs)"
  shows "fmlookup (fold (\<lambda>(i, v) m. fmupd i v m) xs m) k =
    (case map_of xs k of Some v \<Rightarrow> Some v | None \<Rightarrow> fmlookup m k)"
  using assms
proof (induction xs arbitrary: m)
  case (Cons x xs)
  obtain i v where x: "x = (i, v)" by fastforce
  have "map_of xs i = None" using Cons.prems x by (simp add: map_of_eq_None_iff)
  then show ?case using Cons x by (simp split: option.splits)
qed simp

lemma set_entries:
  "set [f i x. i \<leftarrow> map_keys m, x \<leftarrow> [the (fmlookup m i)], P x] =
     {f i x | i x. fmlookup m i = Some x \<and> P x}"
proof (rule set_eqI)
  fix y
  have "y \<in> set [f i x. i \<leftarrow> map_keys m, x \<leftarrow> [the (fmlookup m i)], P x] \<longleftrightarrow>
    (\<exists>i. i |\<in>| fmdom m \<and> P (the (fmlookup m i)) \<and> y = f i (the (fmlookup m i)))"
    by (auto split: if_splits)
  also have "\<dots> \<longleftrightarrow> (\<exists>i x. fmlookup m i = Some x \<and> P x \<and> y = f i x)"
    by (metis fmlookup_dom_iff option.sel)
  finally show "y \<in> set [f i x. i \<leftarrow> map_keys m, x \<leftarrow> [the (fmlookup m i)], P x] \<longleftrightarrow>
    y \<in> {f i x | i x. fmlookup m i = Some x \<and> P x}" by blast
qed

lemma active_views_set:
  "set (active_views c) =
     {(i, shopEntryView e) | i e. fmlookup (cfg_shop_entries c) i = Some e \<and> se_enabled e} \<union>
     {(sl_shop_entry_id r, sellRuleView r) | i r. fmlookup (cfg_sell_rules c) i = Some r \<and> sl_enabled r}"
  unfolding active_views_def set_append set_entries by (rule refl)

lemma active_views_distinct:
  assumes "config_ok c"
  shows "distinct (map fst (active_views c))"
proof -
  let ?es = "filter (\<lambda>i. se_enabled (the (fmlookup (cfg_shop_entries c) i))) (map_keys (cfg_shop_entries c))"
  let ?rs = "filter (\<lambda>i. sl_enabled (the (fmlookup (cfg_sell_rules c) i))) (map_keys (cfg_sell_rules c))"
  have flat: "concat (map (\<lambda>i. if P i then [f i] else []) xs) = map f (filter P xs)"
    for P and f :: "u32 \<Rightarrow> u32 \<times> shop_entry_view" and xs
    by (induction xs) auto
  have views: "map fst (active_views c) =
    ?es @ map (\<lambda>i. sl_shop_entry_id (the (fmlookup (cfg_sell_rules c) i))) ?rs"
    by (simp add: active_views_def flat comp_def)
  have sell: "fmlookup (cfg_sell_rules c) i = Some a \<Longrightarrow> sl_item_id a = i" for i a
    using assms by (auto simp: config_ok_def section_ok_def)
  have "inj_on (\<lambda>i. sl_shop_entry_id (the (fmlookup (cfg_sell_rules c) i))) (fset (fmdom (cfg_sell_rules c)))"
  proof (rule inj_onI)
    fix i j assume ij: "i \<in> fset (fmdom (cfg_sell_rules c))" "j \<in> fset (fmdom (cfg_sell_rules c))"
      "sl_shop_entry_id (the (fmlookup (cfg_sell_rules c) i)) = sl_shop_entry_id (the (fmlookup (cfg_sell_rules c) j))"
    then obtain a b where "fmlookup (cfg_sell_rules c) i = Some a" "fmlookup (cfg_sell_rules c) j = Some b"
      by (meson fmlookup_dom_iff)
    moreover from this have "a = b" using ij(3) assms unfolding config_ok_def by (metis option.sel)
    ultimately show "i = j" using sell by metis
  qed
  then have "distinct (map (\<lambda>i. sl_shop_entry_id (the (fmlookup (cfg_sell_rules c) i))) ?rs)"
    by (simp add: distinct_map inj_on_subset [of _ "fset (fmdom (cfg_sell_rules c))"] subset_iff)
  moreover have "sl_shop_entry_id (the (fmlookup (cfg_sell_rules c) i)) \<notin> set ?es"
    if "i \<in> set ?rs" for i
    using that assms by (auto simp: config_ok_def fmlookup_dom_iff)
  ultimately show ?thesis unfolding views by auto
qed

lemma ActiveShopEntries_ids:
  assumes "config_ok c"
  shows "map sev_shop_entry_id (ActiveShopEntries c) = sort (map fst (active_views c))"
    and "set (ActiveShopEntries c) = snd ` set (active_views c)"
proof -
  have look: "fmlookup (fold (\<lambda>(i, v) m. fmupd i v m) (active_views c) fmempty) i = Some v"
    if "(i, v) \<in> set (active_views c)" for i v
    using fmlookup_fold_pairs [OF active_views_distinct [OF assms]]
      map_of_is_SomeI [OF active_views_distinct [OF assms] that] by simp
  have id: "sev_shop_entry_id v = i" if "(i, v) \<in> set (active_views c)" for i v
    using that assms unfolding active_views_set
    by (auto simp: config_ok_def section_ok_def shopEntryView_def sellRuleView_def)
  show "map sev_shop_entry_id (ActiveShopEntries c) = sort (map fst (active_views c))"
    unfolding ActiveShopEntries_def Let_def map_map
    by (rule map_idI) (use look id in \<open>auto simp: image_iff\<close>)
  show "set (ActiveShopEntries c) = snd ` set (active_views c)"
    unfolding ActiveShopEntries_def Let_def using look by (force simp: image_iff)
qed

section \<open>Properties\<close>

text \<open>
  C18: what the validating constructor accepts is well formed: every section maps an identifier to
  a valid entry carrying that identifier, crop identifiers, crop items and shop-entry identifiers are
  unique across sections, chapter tasks and rewards come out strictly ascending, and every next
  chapter exists.
\<close>

theorem newConfigSnapshot_well_formed:
  assumes "newConfigSnapshot v es cs fs ps pts pfs rs chs = Some c"
  shows "config_ok c"
  using assms by (rule newConfigSnapshot_config_ok)

theorem newConfigSnapshot_well_formed_witness:
  "config_ok dev_config"
  by (rule newConfigSnapshot_well_formed) (rule dev_config_Some [unfolded NewDevelopmentConfigSnapshot_def])

text \<open>
  The development content does not panic, and the farm \<open>NewDevelopmentState\<close> creates is
  consistent with it: chapter one is configured at the version the state records, with exactly the
  tasks the state starts with, and the starting item is a configured fertilizer.
\<close>

theorem development_content_consistent:
  "\<exists>c ch. NewDevelopmentConfigSnapshot = Some c \<and> config_ok c \<and>
     Chapter c (st_chapter_id (NewDevelopmentState p t)) = Some ch \<and>
     ch_config_version ch = st_chapter_config_version (NewDevelopmentState p t) \<and>
     ch_tasks ch = st_tasks (NewDevelopmentState p t) \<and>
     cfg_version c = st_config_version (NewDevelopmentState p t) \<and>
     Fertilizer c BasicFertilizerID \<noteq> None"
  using dev_config_Some dev_config_ok dev_chapters(1) dev_fertilizer
  by (intro exI [of _ dev_config] exI [of _ "development_chapters ! 0"])
    (simp add: NewDevelopmentState_def initial_tasks_def development_chapters_def initial_consts)

text \<open>
  C19: the steal parameters derived from a base yield. Below the largest \<open>uint32\<close>, the owner keeps
  the rounded-up half, visitors may take the rounded-down half one unit at a time, and together they
  make up the yield; at the largest \<open>uint32\<close> the addition \<open>baseYield + 1\<close> wraps and nothing is protected.
\<close>

theorem steal_parameters_split_yield:
  "(y \<noteq> 0xFFFFFFFF \<longrightarrow>
      unat (protectedOwnerYieldFromBaseYield y) = (unat y + 1) div 2 \<and>
      unat (maxStealTimesFromBaseYield y) = unat y div 2 \<and>
      unat (maxStealTimesFromBaseYield y) * unat (stealQuantityFromBaseYield y) +
        unat (protectedOwnerYieldFromBaseYield y) = unat y) \<and>
   protectedOwnerYieldFromBaseYield 0xFFFFFFFF = 0"
proof (intro conjI impI)
  show "protectedOwnerYieldFromBaseYield 0xFFFFFFFF = 0" by code_simp
next
  assume y: "y \<noteq> 0xFFFFFFFF"
  have "unat y < 2 ^ 32" using unsigned_less [of y, where ?'a = nat] by simp
  moreover have "unat y \<noteq> unat (0xFFFFFFFF :: u32)" using y by (metis unsigned_word_eqI)
  ultimately have u: "unat (y + 1) = unat y + 1" by (simp add: unat_word_ariths)
  show p: "unat (protectedOwnerYieldFromBaseYield y) = (unat y + 1) div 2"
    using u by (auto simp: protectedOwnerYieldFromBaseYield_def unat_div)
  have le: "protectedOwnerYieldFromBaseYield y \<le> y \<longleftrightarrow> (unat y + 1) div 2 \<le> unat y"
    by (simp add: word_le_nat_alt p)
  show m: "unat (maxStealTimesFromBaseYield y) = unat y div 2"
    using p by (auto simp: maxStealTimesFromBaseYield_def Let_def word_le_nat_alt unat_sub)
  show "unat (maxStealTimesFromBaseYield y) * unat (stealQuantityFromBaseYield y) +
      unat (protectedOwnerYieldFromBaseYield y) = unat y"
    using p m by (cases "maxStealTimesFromBaseYield y = 0") (auto simp: stealQuantityFromBaseYield_def)
qed

theorem steal_parameters_split_yield_witness:
  "unat (protectedOwnerYieldFromBaseYield 7) = 4 \<and> unat (maxStealTimesFromBaseYield 7) = 3"
  using steal_parameters_split_yield [of 7] by simp

text \<open>
  Looking a crop up by its identifier does not depend on the iteration order of the Go map,
  because crop identifiers are unique in an accepted configuration.
\<close>

theorem CropByID_order_independent:
  assumes "config_ok c" "set ord = set ord'"
  shows "CropByID ord c cropID = CropByID ord' c cropID"
  unfolding CropByID_def
proof (rule first_hit_order [OF assms(2)])
  fix i j a b
  assume "(case fmlookup (cfg_crops_by_seed c) i of None \<Rightarrow> None
     | Some crop \<Rightarrow> if cc_crop_id crop = cropID then Some crop else None) = Some a"
    "(case fmlookup (cfg_crops_by_seed c) j of None \<Rightarrow> None
     | Some crop \<Rightarrow> if cc_crop_id crop = cropID then Some crop else None) = Some b"
  then have "fmlookup (cfg_crops_by_seed c) i = Some a \<and> cc_crop_id a = cropID"
    "fmlookup (cfg_crops_by_seed c) j = Some b \<and> cc_crop_id b = cropID"
    by (auto split: option.splits if_splits)
  then show "a = b" using assms(1) unfolding config_ok_def by metis
qed

theorem CropByID_order_independent_witness:
  "CropByID [1001, 1005] dev_config 2002 = CropByID [1005, 1001] dev_config 2002"
  by (rule CropByID_order_independent [OF dev_config_ok]) auto

text \<open>
  The shop lists every enabled shop entry and sell rule exactly once, in strictly ascending
  order of its entry identifier.
\<close>

theorem ActiveShopEntries_complete:
  assumes "config_ok c"
  shows "sorted_wrt (<) (map sev_shop_entry_id (ActiveShopEntries c)) \<and>
    set (ActiveShopEntries c) =
      {shopEntryView e | i e. fmlookup (cfg_shop_entries c) i = Some e \<and> se_enabled e} \<union>
      {sellRuleView r | i r. fmlookup (cfg_sell_rules c) i = Some r \<and> sl_enabled r}"
proof
  show "sorted_wrt (<) (map sev_shop_entry_id (ActiveShopEntries c))"
    unfolding ActiveShopEntries_ids [OF assms]
    using active_views_distinct [OF assms] by (rule sort_strict)
  show "set (ActiveShopEntries c) =
      {shopEntryView e | i e. fmlookup (cfg_shop_entries c) i = Some e \<and> se_enabled e} \<union>
      {sellRuleView r | i r. fmlookup (cfg_sell_rules c) i = Some r \<and> sl_enabled r}"
    unfolding ActiveShopEntries_ids [OF assms] active_views_set image_Un by (rule arg_cong2 [where f = "(\<union>)"]) force+
qed

theorem ActiveShopEntries_complete_witness:
  "sorted_wrt (<) (map sev_shop_entry_id (ActiveShopEntries dev_config))"
  using ActiveShopEntries_complete [OF dev_config_ok] by blast

end
