(* ===== verification/Idempotency.thy ===== *)
theory Idempotency
  imports Farm_Config
begin

text \<open>
  The protocol every player command follows (\<open>buy_seeds.go\<close> holds the shared helpers): parse the
  request identifier, look for a stored result of the same caller and identifier, refuse a reused
  identifier whose fingerprint differs, replay a stored result, and otherwise run the command body
  and store its outcome.

  Every command handler of package \<open>player\<close> repeats this text around its own body, so the model has
  the text once: \<open>run_command\<close> takes the handler's \<open>store...Failure\<close> and \<open>replay...\<close> functions, its
  fingerprint and its body. A body returns \<open>Failed\<close> (an error to be stored; the state keeps what the
  body had already changed) or \<open>Done\<close> (the response payload, the identifiers of the outbox entries it
  created, the state before the bookkeeping, and the public plots it changed). The handler's \<open>bool\<close>
  result, whether the state became dirty, is the second component of \<open>run_command\<close>.
\<close>

section \<open>Request identifiers\<close>

definition hex_value :: "char \<Rightarrow> nat option" where
  "hex_value c =
     (let n = of_char c :: nat
      in if 48 \<le> n \<and> n \<le> 57 then Some (n - 48)
         else if 97 \<le> n \<and> n \<le> 102 then Some (n - 87)
         else if 65 \<le> n \<and> n \<le> 70 then Some (n - 55)
         else None)"

text \<open>\<open>hex.DecodeString\<close>.\<close>

fun hex_decode :: "string \<Rightarrow> bytes option" where
  "hex_decode [] = Some []"
| "hex_decode [c] = None"
| "hex_decode (c # d # cs) =
     (case (hex_value c, hex_value d, hex_decode cs) of
        (Some h, Some l, Some bs) \<Rightarrow> Some (of_nat (16 * h + l) # bs)
      | _ \<Rightarrow> None)"

definition parseRequestID :: "string \<Rightarrow> bytes option" where
  "parseRequestID value =
     (let compact = filter (\<lambda>c. c \<noteq> CHR ''-'') value
      in if length compact \<noteq> 32 then None else hex_decode compact)"

section \<open>Envelopes\<close>

definition idempotencyFingerprintSchemaVersion :: u32 where
  "idempotencyFingerprintSchemaVersion = 1"

definition maxRecentResults :: nat where
  "maxRecentResults = 100"

definition errorEnvelope :: "ws_request \<Rightarrow> state \<Rightarrow> int \<Rightarrow> ws_error \<Rightarrow> ws_response" where
  "errorEnvelope req s now e = \<lparr>resp_protocol_version = ProtocolVersion, resp_message_kind = RESPONSE,
     resp_action = req_action req, resp_request_id = req_request_id req,
     resp_target_player_id = req_target_player_id req,
     resp_state_version = Some (st_owner_epoch s, st_player_seq s), resp_server_time_ms = now,
     resp_replayed = False, resp_error = Some e, resp_payload = None\<rparr>"

definition successEnvelope :: "ws_request \<Rightarrow> state \<Rightarrow> int \<Rightarrow> ws_payload \<Rightarrow> ws_response" where
  "successEnvelope req s now p = \<lparr>resp_protocol_version = ProtocolVersion, resp_message_kind = RESPONSE,
     resp_action = req_action req, resp_request_id = req_request_id req,
     resp_target_player_id = req_target_player_id req,
     resp_state_version = Some (st_owner_epoch s, st_player_seq s), resp_server_time_ms = now,
     resp_replayed = False, resp_error = None, resp_payload = Some p\<rparr>"

section \<open>Stored results\<close>

definition appendResult :: "idempotency_result \<Rightarrow> int \<Rightarrow> state \<Rightarrow> state" where
  "appendResult r now s =
     (let cutoff = now - 86400000;
          retained = filter (\<lambda>x. cutoff \<le> ir_completed_at_ms x) (st_recent_results s);
          rs = retained @ [r]
      in s\<lparr>st_recent_results :=
             (if length rs > maxRecentResults then drop (length rs - maxRecentResults) rs else rs)\<rparr>)"

text \<open>The \<open>IdempotencyResultRecord\<close> literals of the success and failure paths.\<close>

definition success_record ::
  "codec \<Rightarrow> ws_action \<Rightarrow> u64 \<Rightarrow> ws_request \<Rightarrow> bytes \<Rightarrow> bytes \<Rightarrow> int \<Rightarrow> state \<Rightarrow> ws_payload \<Rightarrow>
   bytes list \<Rightarrow> idempotency_result" where
  "success_record C act caller req rid fp now s p obx = \<lparr>
     ir_caller_player_id = caller, ir_request_id = rid,
     ir_fingerprint_schema_version = idempotencyFingerprintSchemaVersion,
     ir_protocol_version = req_protocol_version req, ir_action = action_code (req_action req),
     ir_target_player_id = req_target_player_id req, ir_payload_fingerprint = fp,
     ir_completed_at_ms = now, ir_success = True, ir_result_owner_epoch = st_owner_epoch s,
     ir_result_player_seq = st_player_seq s, ir_response_payload_type = action_code act,
     ir_response_payload = marshal_payload C p, ir_error_payload = [], ir_outbox_ids = obx\<rparr>"

definition failure_record ::
  "codec \<Rightarrow> ws_action \<Rightarrow> ws_request \<Rightarrow> bytes \<Rightarrow> bytes \<Rightarrow> int \<Rightarrow> state \<Rightarrow> ws_error \<Rightarrow> idempotency_result" where
  "failure_record C act req rid fp now s e = \<lparr>
     ir_caller_player_id = req_target_player_id req, ir_request_id = rid,
     ir_fingerprint_schema_version = idempotencyFingerprintSchemaVersion,
     ir_protocol_version = req_protocol_version req, ir_action = action_code (req_action req),
     ir_target_player_id = req_target_player_id req, ir_payload_fingerprint = fp,
     ir_completed_at_ms = now, ir_success = False, ir_result_owner_epoch = st_owner_epoch s,
     ir_result_player_seq = st_player_seq s, ir_response_payload_type = action_code act,
     ir_response_payload = [], ir_error_payload = marshal_error C e, ir_outbox_ids = []\<rparr>"

text \<open>
  \<open>storeFailure\<close> is the body the \<open>store...Failure\<close> functions share: bump the checkpoint revision,
  stamp configuration version and time, store the error, answer with it. The player sequence stays.
\<close>

definition storeFailure ::
  "codec \<Rightarrow> ws_action \<Rightarrow> ws_request \<Rightarrow> bytes \<Rightarrow> bytes \<Rightarrow> u64 \<Rightarrow> int \<Rightarrow> ws_error \<Rightarrow> state \<Rightarrow> ws_response \<times> state" where
  "storeFailure C act req rid fp cv now e s =
     (let s1 = s\<lparr>st_checkpoint_revision := st_checkpoint_revision s + 1, st_config_version := cv,
                 st_updated_at_ms := now\<rparr>;
          s2 = appendResult (failure_record C act req rid fp now s1 e) now s1
      in (errorEnvelope req s2 now e, s2))"

definition replayStored ::
  "codec \<Rightarrow> ws_action \<Rightarrow> ws_request \<Rightarrow> idempotency_result \<Rightarrow> int \<Rightarrow> ws_response" where
  "replayStored C act req r now =
     (let response = \<lparr>resp_protocol_version = ProtocolVersion, resp_message_kind = RESPONSE,
            resp_action = req_action req, resp_request_id = req_request_id req,
            resp_target_player_id = req_target_player_id req,
            resp_state_version = Some (ir_result_owner_epoch r, ir_result_player_seq r),
            resp_server_time_ms = now, resp_replayed = True, resp_error = None, resp_payload = None\<rparr>;
          unknown = response\<lparr>resp_error := Some (plain_error REQUEST_OUTCOME_UNKNOWN)\<rparr>
      in if ir_success r
         then (case unmarshal_payload C act (ir_response_payload r) of
                 Some p \<Rightarrow> response\<lparr>resp_payload := Some p\<rparr> | None \<Rightarrow> unknown)
         else (case unmarshal_error C (ir_error_payload r) of
                 Some e \<Rightarrow> response\<lparr>resp_error := Some e\<rparr> | None \<Rightarrow> unknown))"

section \<open>Running a command\<close>

datatype outcome = Failed ws_error state | Done ws_payload "bytes list" state domain_changes

type_synonym handler_result = "ws_response \<times> bool \<times> domain_changes \<times> state"

definition find_stored :: "u64 \<Rightarrow> bytes \<Rightarrow> idempotency_result list \<Rightarrow> idempotency_result option" where
  "find_stored caller rid rs = find (\<lambda>r. ir_caller_player_id r = caller \<and> ir_request_id r = rid) rs"

definition same_request :: "ws_request \<Rightarrow> bytes \<Rightarrow> idempotency_result \<Rightarrow> bool" where
  "same_request req fp r \<longleftrightarrow>
     ir_fingerprint_schema_version r = idempotencyFingerprintSchemaVersion \<and>
     ir_protocol_version r = req_protocol_version req \<and>
     ir_action r = action_code (req_action req) \<and>
     ir_target_player_id r = req_target_player_id req \<and>
     ir_payload_fingerprint r = fp"

text \<open>The four assignments that end a successful body.\<close>

definition bump :: "u64 \<Rightarrow> int \<Rightarrow> state \<Rightarrow> state" where
  "bump cv now s = s\<lparr>st_player_seq := st_player_seq s + 1,
     st_checkpoint_revision := st_checkpoint_revision s + 1,
     st_config_version := cv, st_updated_at_ms := now\<rparr>"

definition run_command ::
  "codec \<Rightarrow> ws_action \<Rightarrow>
   (ws_request \<Rightarrow> bytes \<Rightarrow> bytes \<Rightarrow> u64 \<Rightarrow> int \<Rightarrow> ws_error \<Rightarrow> state \<Rightarrow> ws_response \<times> state) \<Rightarrow>
   (ws_request \<Rightarrow> idempotency_result \<Rightarrow> int \<Rightarrow> ws_response) \<Rightarrow>
   bytes \<Rightarrow> u64 \<Rightarrow> ws_request \<Rightarrow> u64 \<Rightarrow> int \<Rightarrow> (bytes \<Rightarrow> state \<Rightarrow> outcome) \<Rightarrow> state \<Rightarrow> handler_result" where
  "run_command C act store replay fp caller req cv now body s =
     (case parseRequestID (req_request_id req) of
        None \<Rightarrow> (errorEnvelope req s now (plain_error INVALID_ARGUMENT), False, {||}, s)
      | Some rid \<Rightarrow>
          (case find_stored caller rid (st_recent_results s) of
             Some r \<Rightarrow>
               if \<not> same_request req fp r
               then (errorEnvelope req s now (plain_error REQUEST_ID_CONFLICT), False, {||}, s)
               else (replay req r now, False, {||}, s)
           | None \<Rightarrow>
               (case body rid s of
                  Failed e s1 \<Rightarrow> (let (resp, s2) = store req rid fp cv now e s1 in (resp, True, {||}, s2))
                | Done p obx s1 changes \<Rightarrow>
                    (let s2 = bump cv now s1;
                         s3 = appendResult (success_record C act caller req rid fp now s2 p obx) now s2
                     in (successEnvelope req s3 now p, True, changes, s3)))))"

text \<open>The fields every fingerprint starts with.\<close>

definition fingerprint_head :: "u64 \<Rightarrow> ws_request \<Rightarrow> bytes" where
  "fingerprint_head caller req =
     be32 idempotencyFingerprintSchemaVersion @ be32 (req_protocol_version req) @
     be32 (action_code (req_action req)) @ be64 caller @ be64 (req_target_player_id req)"

section \<open>Lemmas\<close>

lemma appendResult_frame [frame_simps, simp]:
  "st_coins (appendResult r now s) = st_coins s"
  "st_inventory (appendResult r now s) = st_inventory s"
  "st_plots (appendResult r now s) = st_plots s"
  "st_tasks (appendResult r now s) = st_tasks s"
  "st_chapter (appendResult r now s) = st_chapter s"
  "st_chapter_id (appendResult r now s) = st_chapter_id s"
  "st_player_id (appendResult r now s) = st_player_id s"
  "st_player_seq (appendResult r now s) = st_player_seq s"
  "st_owner_epoch (appendResult r now s) = st_owner_epoch s"
  "st_checkpoint_revision (appendResult r now s) = st_checkpoint_revision s"
  "st_config_version (appendResult r now s) = st_config_version s"
  "st_updated_at_ms (appendResult r now s) = st_updated_at_ms s"
  "st_career (appendResult r now s) = st_career s"
  "st_crop_compendium (appendResult r now s) = st_crop_compendium s"
  "st_pet_state (appendResult r now s) = st_pet_state s"
  "st_pending_outbox (appendResult r now s) = st_pending_outbox s"
  by (simp_all add: appendResult_def Let_def)

text \<open>The new result is stored last, behind a part of the old ones, and never more than 100.\<close>

lemma appendResult_shape:
  obtains rs where "st_recent_results (appendResult r now s) = rs @ [r]"
    "set rs \<subseteq> set (st_recent_results s)" "length rs < maxRecentResults"
proof -
  define kept where "kept = filter (\<lambda>x. now - 86400000 \<le> ir_completed_at_ms x) (st_recent_results s)"
  have kept: "set kept \<subseteq> set (st_recent_results s)" by (auto simp: kept_def)
  show thesis
  proof (cases "length kept < maxRecentResults")
    case True
    then have "st_recent_results (appendResult r now s) = kept @ [r]"
      by (simp add: appendResult_def Let_def flip: kept_def)
    then show ?thesis using that kept True by blast
  next
    case False
    let ?d = "drop (length kept + 1 - maxRecentResults) kept"
    have "st_recent_results (appendResult r now s) = ?d @ [r]"
      using False by (simp add: appendResult_def Let_def maxRecentResults_def flip: kept_def)
    moreover have "set ?d \<subseteq> set (st_recent_results s)" using kept set_drop_subset [of _ kept] by blast
    moreover have "length ?d < maxRecentResults" using False by (simp add: maxRecentResults_def)
    ultimately show ?thesis using that by blast
  qed
qed

lemma find_append: "find P (xs @ ys) = (case find P xs of None \<Rightarrow> find P ys | Some x \<Rightarrow> Some x)"
  by (induction xs) auto

lemma find_stored_append:
  assumes "find_stored caller rid (st_recent_results s) = None"
    "ir_caller_player_id r = caller" "ir_request_id r = rid"
  shows "find_stored caller rid (st_recent_results (appendResult r now s)) = Some r"
proof -
  obtain rs where rs: "st_recent_results (appendResult r now s) = rs @ [r]" "set rs \<subseteq> set (st_recent_results s)"
    by (rule appendResult_shape)
  have "find_stored caller rid rs = None"
    using assms(1) rs(2) unfolding find_stored_def find_None_iff by blast
  then show ?thesis
    using assms(2,3) by (simp add: find_stored_def rs(1) find_append)
qed

lemma find_stored_Some:
  "find_stored caller rid rs = Some r \<Longrightarrow> r \<in> set rs \<and> ir_caller_player_id r = caller \<and> ir_request_id r = rid"
  unfolding find_stored_def find_Some_iff by (auto simp: in_set_conv_nth)

lemma bump_frame [frame_simps, simp]:
  "st_coins (bump cv now s) = st_coins s"
  "st_inventory (bump cv now s) = st_inventory s"
  "st_plots (bump cv now s) = st_plots s"
  "st_tasks (bump cv now s) = st_tasks s"
  "st_chapter (bump cv now s) = st_chapter s"
  "st_chapter_id (bump cv now s) = st_chapter_id s"
  "st_player_id (bump cv now s) = st_player_id s"
  "st_player_seq (bump cv now s) = st_player_seq s + 1"
  "st_owner_epoch (bump cv now s) = st_owner_epoch s"
  "st_checkpoint_revision (bump cv now s) = st_checkpoint_revision s + 1"
  "st_recent_results (bump cv now s) = st_recent_results s"
  "st_career (bump cv now s) = st_career s"
  "st_crop_compendium (bump cv now s) = st_crop_compendium s"
  "st_pet_state (bump cv now s) = st_pet_state s"
  "st_pending_outbox (bump cv now s) = st_pending_outbox s"
  by (simp_all add: bump_def)

section \<open>The contract of a command\<close>

text \<open>
  What a handler promises about its body: it is run through \<open>run_command\<close> with the handler's own
  store and replay functions, a failing body changes nothing (but may have created the empty pet
  record), and a successful body answers with the
  message type of its action and leaves the bookkeeping fields to \<open>run_command\<close>.
\<close>

locale command =
  fixes act :: ws_action
    and body :: "codec \<Rightarrow> u64 \<Rightarrow> ws_request \<Rightarrow> config_snapshot \<Rightarrow> int \<Rightarrow> bytes \<Rightarrow> state \<Rightarrow> outcome"
    and fingerprint :: "u64 \<Rightarrow> ws_request \<Rightarrow> bytes"
    and handler :: "codec \<Rightarrow> u64 \<Rightarrow> ws_request \<Rightarrow> config_snapshot \<Rightarrow> int \<Rightarrow> state \<Rightarrow> handler_result"
  assumes handler_runs: "handler C caller req cfg now s =
      run_command C act (storeFailure C act) (replayStored C act) (fingerprint caller req) caller req
        (cfg_version cfg) now (body C caller req cfg now) s"
    and failed_same: "body C caller req cfg now rid s = Failed e s1 \<Longrightarrow> s1 = s \<or> s1 = ensurePetState s"
    and done_kind: "body C caller req cfg now rid s = Done p obx s1 ch \<Longrightarrow> payload_kind p = act"
    and done_frame: "body C caller req cfg now rid s = Done p obx s1 ch \<Longrightarrow>
      st_recent_results s1 = st_recent_results s \<and> st_player_seq s1 = st_player_seq s \<and>
      st_checkpoint_revision s1 = st_checkpoint_revision s \<and> st_owner_epoch s1 = st_owner_epoch s \<and>
      st_player_id s1 = st_player_id s"
begin

lemma handler_cases:
  obtains (malformed) "parseRequestID (req_request_id req) = None"
      "handler C caller req cfg now s = (errorEnvelope req s now (plain_error INVALID_ARGUMENT), False, {||}, s)"
  | (conflict) rid r where "parseRequestID (req_request_id req) = Some rid"
      "find_stored caller rid (st_recent_results s) = Some r" "\<not> same_request req (fingerprint caller req) r"
      "handler C caller req cfg now s = (errorEnvelope req s now (plain_error REQUEST_ID_CONFLICT), False, {||}, s)"
  | (replayed) rid r where "parseRequestID (req_request_id req) = Some rid"
      "find_stored caller rid (st_recent_results s) = Some r" "same_request req (fingerprint caller req) r"
      "handler C caller req cfg now s = (replayStored C act req r now, False, {||}, s)"
  | (failed) rid e s0 s2 where "parseRequestID (req_request_id req) = Some rid"
      "find_stored caller rid (st_recent_results s) = None"
      "body C caller req cfg now rid s = Failed e s0" "s0 = s \<or> s0 = ensurePetState s"
      "s2 = snd (storeFailure C act req rid (fingerprint caller req) (cfg_version cfg) now e s0)"
      "handler C caller req cfg now s = (errorEnvelope req s2 now e, True, {||}, s2)"
  | (succeeded) rid p obx s1 ch s3 where "parseRequestID (req_request_id req) = Some rid"
      "find_stored caller rid (st_recent_results s) = None"
      "body C caller req cfg now rid s = Done p obx s1 ch"
      "s3 = appendResult (success_record C act caller req rid (fingerprint caller req) now
         (bump (cfg_version cfg) now s1) p obx) now (bump (cfg_version cfg) now s1)"
      "handler C caller req cfg now s = (successEnvelope req s3 now p, True, ch, s3)"
proof (cases "parseRequestID (req_request_id req)")
  case None
  then show ?thesis using malformed by (simp add: handler_runs run_command_def)
next
  case rid: (Some rid)
  show ?thesis
  proof (cases "find_stored caller rid (st_recent_results s)")
    case (Some r)
    then show ?thesis
      using rid conflict replayed by (cases "same_request req (fingerprint caller req) r")
        (simp_all add: handler_runs run_command_def)
  next
    case None
    show ?thesis
    proof (cases "body C caller req cfg now rid s")
      case (Failed e s1)
      then have "s1 = s \<or> s1 = ensurePetState s" by (rule failed_same)
      then show ?thesis
        using rid None Failed failed [of rid e s1] by (simp add: handler_runs run_command_def storeFailure_def Let_def)
    next
      case (Done p obx s1 ch)
      then show ?thesis
        using rid None succeeded by (simp add: handler_runs run_command_def Let_def)
    qed
  qed
qed

text \<open>A handler that does not report the state dirty has not touched it.\<close>

lemma clean_unchanged:
  assumes "handler C caller req cfg now s = (resp, False, ch, s')"
  shows "s' = s \<and> ch = {||}"
  by (rule handler_cases [of req C caller cfg now s]) (use assms in auto)

lemma replay_of_success:
  assumes "codec_ok C" "payload_kind p = act"
  shows "replayStored C act req (success_record C act caller req rid fp now s p obx) now' =
    (successEnvelope req s now' p)\<lparr>resp_replayed := True\<rparr>"
  using codec_payload [OF assms(1), of p]
  by (simp add: replayStored_def success_record_def successEnvelope_def assms(2))

lemma replay_of_failure:
  assumes "codec_ok C"
  shows "replayStored C act req (failure_record C act req rid fp now s e) now' =
    (errorEnvelope req s now' e)\<lparr>resp_replayed := True\<rparr>"
  using codec_error [OF assms, of e]
  by (simp add: replayStored_def failure_record_def errorEnvelope_def)

lemma same_request_records:
  "same_request req fp (success_record C act caller req rid fp now s p obx)"
  "same_request req fp (failure_record C act req rid fp now s e)"
  by (simp_all add: same_request_def success_record_def failure_record_def)

text \<open>
  Exactly once: the same request again, whatever the time and the configuration, gets the first
  answer back, marked as a replay, and changes nothing.
\<close>

lemma retry_replays:
  assumes "codec_ok C" "req_target_player_id req = caller"
    "handler C caller req cfg now s = (resp, True, ch, s')"
  shows "handler C caller req cfg' now' s' =
    (resp\<lparr>resp_replayed := True, resp_server_time_ms := now'\<rparr>, False, {||}, s')"
proof (rule handler_cases [of req C caller cfg now s])
  fix rid e s0 s2
  assume f: "parseRequestID (req_request_id req) = Some rid"
    "find_stored caller rid (st_recent_results s) = None"
    "s2 = snd (storeFailure C act req rid (fingerprint caller req) (cfg_version cfg) now e s0)"
    "handler C caller req cfg now s = (errorEnvelope req s2 now e, True, {||}, s2)"
    "s0 = s \<or> s0 = ensurePetState s"
  then have fresh: "find_stored caller rid (st_recent_results s0) = None" by auto
  define s1 where "s1 = s0\<lparr>st_checkpoint_revision := st_checkpoint_revision s0 + 1,
    st_config_version := cfg_version cfg, st_updated_at_ms := now\<rparr>"
  define r where "r = failure_record C act req rid (fingerprint caller req) now s1 e"
  have s2: "s2 = appendResult r now s1"
    using f(3) by (simp add: storeFailure_def Let_def r_def s1_def)
  have "find_stored caller rid (st_recent_results s2) = Some r"
    unfolding s2 by (rule find_stored_append) (use fresh assms(2) in \<open>simp_all add: r_def s1_def failure_record_def\<close>)
  then have "handler C caller req cfg' now' s2 = (replayStored C act req r now', False, {||}, s2)"
    using f(1) same_request_records(2) by (simp add: handler_runs run_command_def r_def)
  then show ?thesis
    using f(4) assms(3) replay_of_failure [OF assms(1)]
    by (auto simp: r_def errorEnvelope_def s2)
next
  fix rid p obx s1 ch' s3
  assume d: "parseRequestID (req_request_id req) = Some rid"
    "find_stored caller rid (st_recent_results s) = None"
    "body C caller req cfg now rid s = Done p obx s1 ch'"
    "s3 = appendResult (success_record C act caller req rid (fingerprint caller req) now
       (bump (cfg_version cfg) now s1) p obx) now (bump (cfg_version cfg) now s1)"
    "handler C caller req cfg now s = (successEnvelope req s3 now p, True, ch', s3)"
  define r where "r = success_record C act caller req rid (fingerprint caller req) now
    (bump (cfg_version cfg) now s1) p obx"
  have "find_stored caller rid (st_recent_results s3) = Some r"
    unfolding d(4) r_def
    by (rule find_stored_append) (use d(2) done_frame [OF d(3)] in \<open>simp_all add: success_record_def\<close>)
  then have "handler C caller req cfg' now' s3 = (replayStored C act req r now', False, {||}, s3)"
    using d(1) same_request_records(1) by (simp add: handler_runs run_command_def r_def)
  then show ?thesis
    using d(5) assms(3) replay_of_success [OF assms(1) done_kind [OF d(3)]]
    by (auto simp: r_def successEnvelope_def d(4))
qed (use assms(3) in auto)

text \<open>The same on any later state that still stores the results.\<close>

lemma retry_replays_later:
  assumes "codec_ok C" "req_target_player_id req = caller" "parseRequestID (req_request_id req) = Some rid"
    "find_stored caller rid (st_recent_results s) = None" "handler C caller req cfg now s = (resp, dirty, ch, s')"
    "st_recent_results x = st_recent_results s'"
  shows "handler C caller req cfg' now' x =
    (resp\<lparr>resp_replayed := True, resp_server_time_ms := now'\<rparr>, False, {||}, x)"
proof -
  have dirty: dirty by (rule handler_cases [of req C caller cfg now s]) (use assms(3-5) in auto)
  then have r: "handler C caller req cfg' now' s' =
      (resp\<lparr>resp_replayed := True, resp_server_time_ms := now'\<rparr>, False, {||}, s')"
    using retry_replays [OF assms(1,2), of cfg now s resp ch s'] assms(5) by simp
  have stored: "find_stored caller rid (st_recent_results s') \<noteq> None"
  proof (rule handler_cases [of req C caller cfg now s])
    fix rid' e s0 s2
    assume f: "parseRequestID (req_request_id req) = Some rid'" "s0 = s \<or> s0 = ensurePetState s"
      "s2 = snd (storeFailure C act req rid' (fingerprint caller req) (cfg_version cfg) now e s0)"
      "handler C caller req cfg now s = (errorEnvelope req s2 now e, True, {||}, s2)"
    then show ?thesis
      using assms(2-5) find_stored_append [of caller rid "s0\<lparr>st_checkpoint_revision := st_checkpoint_revision s0 + 1,
        st_config_version := cfg_version cfg, st_updated_at_ms := now\<rparr>"]
      by (auto simp: storeFailure_def Let_def failure_record_def)
  next
    fix rid' p obx s1 ch' s3
    assume f: "parseRequestID (req_request_id req) = Some rid'" "body C caller req cfg now rid' s = Done p obx s1 ch'"
      "s3 = appendResult (success_record C act caller req rid' (fingerprint caller req) now
         (bump (cfg_version cfg) now s1) p obx) now (bump (cfg_version cfg) now s1)"
      "handler C caller req cfg now s = (successEnvelope req s3 now p, True, ch', s3)"
    then show ?thesis
      using assms(3-5) done_frame [OF f(2)] find_stored_append [of caller rid "bump (cfg_version cfg) now s1"]
      by (auto simp: success_record_def)
  qed (use assms(3-5) dirty in auto)
  then obtain q where q: "find_stored caller rid (st_recent_results s') = Some q" by blast
  have "resp_replayed (fst (handler C caller req cfg' now' s'))"
    by (simp add: r)
  then have same: "same_request req (fingerprint caller req) q"
    using q assms(3) by (simp add: handler_runs run_command_def errorEnvelope_def split: if_splits)
  from r q same assms(3,6) show ?thesis by (simp add: handler_runs run_command_def)
qed

text \<open>A request that has not been seen is answered by the body alone.\<close>

lemma fresh_handler:
  assumes "parseRequestID (req_request_id req) = Some rid" "find_stored caller rid (st_recent_results s) = None"
    "handler C caller req cfg now s = (resp, dirty, ch, s')"
  shows "dirty" "resp_error resp = None \<longleftrightarrow> (\<exists>p obx s1 c. body C caller req cfg now rid s = Done p obx s1 c)"
    "body C caller req cfg now rid s = Done p obx s1 c \<Longrightarrow> resp_payload resp = Some p \<and> ch = c \<and>
       s' = appendResult (success_record C act caller req rid (fingerprint caller req) now
         (bump (cfg_version cfg) now s1) p obx) now (bump (cfg_version cfg) now s1)"
    "body C caller req cfg now rid s = Failed e s1 \<Longrightarrow> resp_error resp = Some e"
  by (rule handler_cases [of req C caller cfg now s]; use assms in \<open>auto simp: errorEnvelope_def successEnvelope_def\<close>)+

text \<open>A request identifier reused with another fingerprint is refused and changes nothing.\<close>

lemma reuse_conflicts:
  assumes "parseRequestID (req_request_id req) = Some rid"
    "find_stored caller rid (st_recent_results s) = Some r" "ir_payload_fingerprint r \<noteq> fingerprint caller req"
  shows "handler C caller req cfg now s =
    (errorEnvelope req s now (plain_error REQUEST_ID_CONFLICT), False, {||}, s)"
  using assms by (simp add: handler_runs run_command_def same_request_def)

text \<open>The player sequence counts exactly the successful, fresh commands.\<close>

lemma seq_counts_success:
  assumes "handler C caller req cfg now s = (resp, dirty, ch, s')"
  shows "st_player_seq s' = st_player_seq s + (if dirty \<and> resp_error resp = None then 1 else 0)"
    and "st_checkpoint_revision s' = st_checkpoint_revision s + (if dirty then 1 else 0)"
  by (rule handler_cases [of req C caller cfg now s];
      use assms done_frame in \<open>auto simp: errorEnvelope_def successEnvelope_def storeFailure_def Let_def\<close>)+

lemma results_bounded:
  assumes "handler C caller req cfg now s = (resp, dirty, ch, s')"
    "length (st_recent_results s) \<le> maxRecentResults"
  shows "length (st_recent_results s') \<le> maxRecentResults"
proof -
  have "length (st_recent_results (appendResult r now x)) \<le> maxRecentResults" for r x
    by (rule appendResult_shape [of r now x]) simp
  then show ?thesis
    by (rule_tac handler_cases [of req C caller cfg now s])
      (use assms in \<open>auto simp: storeFailure_def Let_def\<close>)
qed

text \<open>A stored failure leaves the player's possessions and farm alone.\<close>

lemma error_keeps_farm:
  assumes "handler C caller req cfg now s = (resp, dirty, ch, s')" "resp_error resp \<noteq> None"
  shows "st_coins s' = st_coins s \<and> st_inventory s' = st_inventory s \<and> st_plots s' = st_plots s \<and>
    st_tasks s' = st_tasks s \<and> petOf s' = petOf s \<and> st_player_seq s' = st_player_seq s \<and> ch = {||}"
  by (rule handler_cases [of req C caller cfg now s])
    (use assms in \<open>auto simp: storeFailure_def Let_def successEnvelope_def petOf_def\<close>)

end

section \<open>Round trip of identifiers\<close>

lemma hex_digit_props: "n < 16 \<Longrightarrow> hex_value (hex_digit n) = Some n \<and> hex_digit n \<noteq> CHR ''-''"
proof -
  have "\<forall>n \<in> set [0 ..< 16]. hex_value (hex_digit n) = Some n \<and> hex_digit n \<noteq> CHR ''-''"
    by code_simp
  then show "n < 16 \<Longrightarrow> ?thesis" by simp
qed

lemma byte_halves: "unat (b :: u8) div 16 < 16" "unat b mod 16 < 16" "of_nat (16 * (unat b div 16) + unat b mod 16) = b"
  using unsigned_less [of b, where ?'a = nat] by (simp_all add: less_mult_imp_div_less del: of_nat_add of_nat_mult)

lemma hex_decode_encode: "hex_decode (hex_encode bs) = Some bs"
proof (induction bs)
  case (Cons b bs)
  then show ?case
    using hex_digit_props [OF byte_halves(1), of b] hex_digit_props [OF byte_halves(2), of b] byte_halves(3) [of b]
    by (simp add: hex_encode_def del: of_nat_add of_nat_mult)
qed (simp add: hex_encode_def)

lemma length_hex_encode [simp]: "length (hex_encode bs) = 2 * length bs"
  by (induction bs) (simp_all add: hex_encode_def)

lemma hex_encode_no_dash: "CHR ''-'' \<notin> set (hex_encode bs)"
proof -
  have "CHR ''-'' \<noteq> hex_digit (unat b div 16)" "CHR ''-'' \<noteq> hex_digit (unat b mod 16)" for b :: u8
    using hex_digit_props byte_halves by metis+
  then show ?thesis by (simp add: hex_encode_def)
qed

lemma take_drop_chunks:
  assumes "length e = 32"
  shows "take 8 e @ take 4 (drop 8 e) @ take 4 (drop 12 e) @ take 4 (drop 16 e) @ take 12 (drop 20 e) = e"
proof -
  have "e = take 8 e @ drop 8 e" by simp
  also have "drop 8 e = take 4 (drop 8 e) @ drop 12 e" using append_take_drop_id [of 4 "drop 8 e"] by simp
  also have "drop 12 e = take 4 (drop 12 e) @ drop 16 e" using append_take_drop_id [of 4 "drop 12 e"] by simp
  also have "drop 16 e = take 4 (drop 16 e) @ drop 20 e" using append_take_drop_id [of 4 "drop 16 e"] by simp
  also have "drop 20 e = take 12 (drop 20 e)" using assms by simp
  finally show ?thesis by (rule sym)
qed

lemma filter_keeps: "(\<And>c. c \<in> set xs \<Longrightarrow> P c) \<Longrightarrow> filter P xs = xs"
  by (rule filter_True) blast

lemma parse_format:
  assumes "length b = 16"
  shows "parseRequestID (formatUUIDBytes b) = Some b"
proof -
  let ?e = "hex_encode b" and ?P = "\<lambda>c. c \<noteq> CHR ''-''"
  have keep: "set xs \<subseteq> set ?e \<Longrightarrow> filter ?P xs = xs" for xs
    using hex_encode_no_dash [of b] by (intro filter_keeps) blast
  have "set (take n (drop m ?e)) \<subseteq> set ?e" for n m
    by (meson order_trans set_drop_subset set_take_subset)
  then have chunk: "filter ?P (take n (drop m ?e)) = take n (drop m ?e)" for n m
    by (rule keep)
  have "filter ?P (formatUUIDBytes b) = ?e"
    using take_drop_chunks [of ?e] chunk [of 8 0] chunk [of 12 20] assms by (simp add: formatUUIDBytes_def Let_def chunk)
  then show ?thesis
    using assms by (simp add: parseRequestID_def hex_decode_encode)
qed

section \<open>How long a result is kept\<close>

definition append_all :: "(idempotency_result \<times> int) list \<Rightarrow> state \<Rightarrow> state" where
  "append_all rs s = fold (\<lambda>(r, t) s. appendResult r t s) rs s"

lemma appendResult_keeps:
  assumes "st_recent_results s = xs @ r # ys" "now - 86400000 \<le> ir_completed_at_ms r"
    "length ys + 2 \<le> maxRecentResults"
  shows "\<exists>xs' ys'. st_recent_results (appendResult q now s) = xs' @ r # ys' \<and>
    set xs' \<subseteq> set xs \<and> length ys' \<le> length ys + 1"
proof -
  let ?k = "filter (\<lambda>x. now - 86400000 \<le> ir_completed_at_ms x)"
  let ?n = "length (?k xs) + length (?k ys) + 2 - maxRecentResults"
  have n: "?n \<le> length (?k xs)" using assms(3) length_filter_le [of "\<lambda>x. now - 86400000 \<le> ir_completed_at_ms x" ys] by linarith
  have "st_recent_results (appendResult q now s) = drop ?n (?k xs @ r # ?k ys @ [q])"
    using assms(1,2) by (simp add: appendResult_def Let_def)
  also have "\<dots> = drop ?n (?k xs) @ r # ?k ys @ [q]" using n by simp
  finally show ?thesis
    using set_drop_subset [of ?n "?k xs"] length_filter_le [of "\<lambda>x. now - 86400000 \<le> ir_completed_at_ms x" ys]
    by (intro exI [of _ "drop ?n (?k xs)"] exI [of _ "?k ys @ [q]"]) auto
qed

lemma append_all_keeps:
  assumes "st_recent_results s = xs @ r # ys" "\<forall>(q, t) \<in> set rs. t - 86400000 \<le> ir_completed_at_ms r"
    "length ys + length rs < maxRecentResults"
  shows "\<exists>xs' ys'. st_recent_results (append_all rs s) = xs' @ r # ys' \<and> set xs' \<subseteq> set xs"
  using assms
proof (induction rs arbitrary: s xs ys)
  case (Cons qt rs)
  obtain q t where qt: "qt = (q, t)" by fastforce
  obtain xs' ys' where step: "st_recent_results (appendResult q t s) = xs' @ r # ys'" "set xs' \<subseteq> set xs"
    "length ys' \<le> length ys + 1"
    using appendResult_keeps [OF Cons.prems(1), of t q] Cons.prems(2,3) qt by auto
  have "append_all (qt # rs) s = append_all rs (appendResult q t s)"
    by (simp add: append_all_def qt)
  then show ?case
    using Cons.IH [OF step(1)] Cons.prems(2,3) step(2,3) by fastforce
qed (auto simp: append_all_def)

section \<open>Fingerprints\<close>

text \<open>The preimages of the fingerprints are concatenations of fixed-width fields, so they determine every field.\<close>

lemma fingerprint_head_append:
  "fingerprint_head c r @ xs = fingerprint_head c' r' @ ys \<longleftrightarrow>
     req_protocol_version r = req_protocol_version r' \<and> req_action r = req_action r' \<and> c = c' \<and>
     req_target_player_id r = req_target_player_id r' \<and> xs = ys"
  by (simp add: fingerprint_head_def)

section \<open>Properties\<close>

text \<open>
  A stored result stays replayable for its whole window. If the result of a request is the
  newest of its caller and identifier, then after up to 99 further stored results, each written no
  more than 24 hours after it, looking the request up still finds that very result.
\<close>

theorem stored_result_window:
  assumes "find_stored caller rid (st_recent_results s) = None"
    "ir_caller_player_id r = caller" "ir_request_id r = rid" "ir_completed_at_ms r = now"
    "length later < maxRecentResults" "\<forall>(q, t) \<in> set later. t \<le> now + 86400000"
  shows "find_stored caller rid (st_recent_results (append_all later (appendResult r now s))) = Some r"
proof -
  obtain rs where rs: "st_recent_results (appendResult r now s) = rs @ [r]" "set rs \<subseteq> set (st_recent_results s)"
    by (rule appendResult_shape)
  obtain xs ys where keep: "st_recent_results (append_all later (appendResult r now s)) = xs @ r # ys" "set xs \<subseteq> set rs"
    using append_all_keeps [OF rs(1)] assms(4-6) by fastforce
  have "find_stored caller rid xs = None"
    using assms(1) rs(2) keep(2) unfolding find_stored_def find_None_iff by blast
  then show ?thesis
    using assms(2,3) by (simp add: find_stored_def keep(1) find_append)
qed

definition sample_request :: "ws_action \<Rightarrow> ws_request_payload \<Rightarrow> ws_request" where
  "sample_request act payload = \<lparr>req_protocol_version = 1, req_message_kind = REQUEST, req_action = act,
     req_request_id = formatUUIDBytes (replicate 16 1), req_target_player_id = 7, req_payload = payload\<rparr>"

lemma sample_request_simps [simp]:
  "req_target_player_id (sample_request act p) = 7" "req_action (sample_request act p) = act"
  "req_payload (sample_request act p) = p" "req_protocol_version (sample_request act p) = 1"
  "parseRequestID (req_request_id (sample_request act p)) = Some (replicate 16 1)"
  by (simp_all add: sample_request_def parse_format)

definition sample_result :: "bytes \<Rightarrow> int \<Rightarrow> idempotency_result" where
  "sample_result rid now = failure_record ref_codec PLANT (sample_request PLANT (PlantRequest 1 1001)) rid [] now
     (NewDevelopmentState 7 0) (plain_error PLOT_NOT_FOUND)"

theorem stored_result_window_witness:
  "find_stored 7 [1] (st_recent_results
     (append_all [(sample_result [2] 600, 600)] (appendResult (sample_result [1] 500) 500 (NewDevelopmentState 7 0)))) =
   Some (sample_result [1] 500)"
  by (rule stored_result_window)
    (simp_all add: NewDevelopmentState_def find_stored_def sample_result_def failure_record_def maxRecentResults_def)

text \<open>
  The textual form of a sixteen-byte identifier parses back to it.
\<close>

theorem parseRequestID_formatUUIDBytes:
  assumes "length b = 16"
  shows "parseRequestID (formatUUIDBytes b) = Some b"
  using assms by (rule parse_format)

theorem parseRequestID_formatUUIDBytes_witness:
  "parseRequestID (formatUUIDBytes (replicate 16 0xAB)) = Some (replicate 16 0xAB)"
  by (rule parseRequestID_formatUUIDBytes) simp

end
