(* ===== verification/Farm_Invariant.thy ===== *)
theory Farm_Invariant
  imports Growth Idempotency
begin

text \<open>
  The invariant of a player's state. It is what \<open>ValidateCheckpoint\<close> and \<open>validatePlotRecord\<close> of
  \<open>checkpoint.go\<close> demand of a state before it may be stored (a stack holds 1 to 300 items, a plot
  carries exactly the fields of its state, coins are not negative, ...), read on the in-memory
  structs, together with the ranges the Go types enforce. A command that breaks it makes the player
  impossible to save.

  \<open>safe_command\<close> extends the contract \<open>command\<close>: a successful body keeps the invariant.
\<close>

section \<open>Plots\<close>

definition crop_identity :: "plot \<Rightarrow> bool" where
  "crop_identity p \<longleftrightarrow> pl_crop_id p \<noteq> 0 \<and> pl_crop_item_id p \<noteq> 0 \<and> pl_crop_config_version p \<noteq> 0 \<and>
     0 < pl_planted_at_ms p \<and> 0 < pl_base_yield p \<and> pl_stolen_quantity p \<le> pl_base_yield p \<and>
     pl_steal_count p \<le> pl_max_steal_times p"

definition effect_ok :: "effect_kind \<Rightarrow> int \<Rightarrow> timed_effect option \<Rightarrow> bool" where
  "effect_ok kind planted e = (case e of None \<Rightarrow> True | Some x \<Rightarrow>
     length (eff_instance_id x) = 16 \<and> eff_kind x = kind \<and> eff_item_or_pest_id x \<noteq> 0 \<and>
     eff_config_version x \<noteq> 0 \<and> (\<exists>m. eff_modifier x = Some m \<and> m \<noteq> 0 \<and> (kind = FERTILIZER \<longrightarrow> 0 < m)) \<and>
     planted \<le> eff_start_at_ms x \<and> eff_start_at_ms x < eff_end_at_ms x \<and> eff_end_at_ms x \<le> max_i64 \<and>
     (kind = FERTILIZER \<longrightarrow> eff_source_player_id x = None))"

definition growing_ok :: "plot \<Rightarrow> bool" where
  "growing_ok p \<longleftrightarrow> crop_identity p \<and> growing_fields_ok p \<and> pl_maturity_scaled9 p \<le> max_i64 \<and>
     in_i64 (pl_base_rate_scaled6 p) \<and> pl_last_settled_at_ms p \<le> max_i64 \<and>
     (\<exists>m. pl_estimated_mature_at_ms p = Some m \<and> pl_last_settled_at_ms p < m \<and> m \<le> max_i64) \<and>
     effect_ok FERTILIZER (pl_planted_at_ms p) (pl_fertilizer_effect p) \<and>
     effect_ok PEST (pl_planted_at_ms p) (pl_pest_effect p)"

definition mature_ok :: "plot \<Rightarrow> bool" where
  "mature_ok p \<longleftrightarrow> crop_identity p \<and> 0 < pl_maturity_scaled9 p \<and> 0 < pl_base_rate_scaled6 p \<and>
     pl_settled_scaled9 p = pl_maturity_scaled9 p \<and> pl_planted_at_ms p \<le> pl_last_settled_at_ms p \<and>
     pl_estimated_mature_at_ms p = None \<and> pl_fertilizer_effect p = None \<and> pl_pest_effect p = None"

definition cleanup_ok :: "plot \<Rightarrow> bool" where
  "cleanup_ok p \<longleftrightarrow> crop_identity p \<and> pl_maturity_scaled9 p = 0 \<and> pl_base_rate_scaled6 p = 0 \<and>
     pl_settled_scaled9 p = 0 \<and> pl_last_settled_at_ms p = 0 \<and> pl_estimated_mature_at_ms p = None \<and>
     pl_fertilizer_effect p = None \<and> pl_pest_effect p = None"

definition plot_ok :: "plot \<Rightarrow> bool" where
  "plot_ok p \<longleftrightarrow> pl_id p \<noteq> 0 \<and>
     (case pl_state p of
        PLOT_UNSPECIFIED \<Rightarrow> False
      | EMPTY \<Rightarrow> p = empty_plot (pl_id p)
      | GROWING \<Rightarrow> growing_ok p
      | MATURE \<Rightarrow> mature_ok p
      | NEED_CLEANUP \<Rightarrow> cleanup_ok p)"

lemma plot_ok_empty [simp]: "i \<noteq> 0 \<Longrightarrow> plot_ok (empty_plot i)"
  by (simp add: plot_ok_def)

lemma plot_okD:
  "plot_ok p \<Longrightarrow> pl_state p = GROWING \<Longrightarrow> growing_ok p"
  "plot_ok p \<Longrightarrow> pl_state p = MATURE \<Longrightarrow> mature_ok p"
  "plot_ok p \<Longrightarrow> pl_state p = NEED_CLEANUP \<Longrightarrow> cleanup_ok p"
  by (simp_all add: plot_ok_def)

lemma growing_ok_growth:
  assumes "growing_ok p" "pl_state p = GROWING"
  shows "growing_plot_ok p"
proof -
  have "\<forall>x \<in> breakpoints p. 0 \<le> x \<and> x \<le> max_i64"
    using assms(1) by (auto simp: growing_ok_def crop_identity_def effect_ok_def breakpoints_def
        effects_of_def split: option.splits)
  then show ?thesis
    using assms by (auto simp: growing_ok_def growing_plot_ok_def growing_fields_ok_def span_ok_def crop_identity_def)
qed

lemma effect_ok_drop [simp]: "effect_ok k t e \<Longrightarrow> effect_ok k t (drop_expired u e)"
  by (simp add: effect_ok_def drop_expired_def split: option.splits)

lemma effect_ok_None [simp]: "effect_ok k t None"
  by (simp add: effect_ok_def)

text \<open>Settling keeps a plot well formed, whether it matures or not.\<close>

lemma settle_plot_ok:
  assumes ok: "plot_ok p" and now: "now \<le> max_i64" and st: "settleGrowingPlot p now = (Some b, p')"
  shows "plot_ok p' \<and> pl_id p' = pl_id p \<and> pl_state p' = (if b then MATURE else GROWING) \<and>
    pl_planted_at_ms p' = pl_planted_at_ms p \<and> pl_last_settled_at_ms p' = max now (pl_last_settled_at_ms p) \<and>
    pl_pest_effect p' = (if b then None else drop_expired (max now (pl_last_settled_at_ms p)) (pl_pest_effect p))"
proof -
  let ?t = "max now (pl_last_settled_at_ms p)"
  have g: "pl_state p = GROWING" "growing_ok p"
    using st ok by (auto simp: settleGrowingPlot_def plot_ok_def split: if_splits plot_state.splits)
  have gp: "growing_plot_ok p" using growing_ok_growth g by blast
  have t: "?t \<le> max_i64" using now g(2) by (simp add: growing_ok_def)
  note eq = settleGrowingPlot_eq [OF gp refl t]
  show ?thesis
  proof (cases b)
    case True
    then have "p' = matured_at p ?t"
      using st unfolding eq by (auto split: if_splits option.splits)
    moreover have "mature_ok (matured_at p ?t)"
      using g(2) by (auto simp: mature_ok_def matured_at_def growing_ok_def growing_fields_ok_def crop_identity_def)
    ultimately show ?thesis
      using True ok by (simp add: plot_ok_def) (simp add: matured_at_def)
  next
    case False
    then obtain m where m: "estimatePlotMatureAtMS (settled_to p ?t) ?t = Some m"
      and p': "p' = (settled_to p ?t)\<lparr>pl_estimated_mature_at_ms := Some m\<rparr>"
      and v: "all_valid p (pl_last_settled_at_ms p) ?t"
      and lt: "growth_sum p (pl_last_settled_at_ms p) ?t < pl_maturity_scaled9 p - pl_settled_scaled9 p"
      using st unfolding eq by (auto simp: not_le split: if_splits option.splits)
    have ok': "growing_plot_ok (settled_to p ?t)"
      using settled_to_ok [OF gp _ t v lt] by simp
    have "reaches (settled_to p ?t) ?t (pl_maturity_scaled9 (settled_to p ?t) - pl_settled_scaled9 (settled_to p ?t)) m"
      using m ok' by (subst estimatePlotMatureAtMS_iff [symmetric])
        (auto simp: growing_plot_ok_def growing_fields_ok_def)
    then have "?t < m" "m \<le> max_i64" by (simp_all add: reaches_def)
    then have "growing_ok p'"
      using g(2) ok' t unfolding p'
      by (auto simp: growing_ok_def growing_plot_ok_def growing_fields_ok_def crop_identity_def settled_to_def)
    moreover have "pl_id p' = pl_id p" by (simp add: p' settled_to_def)
    ultimately show ?thesis
      using False ok g(1) by (auto simp: plot_ok_def p') (simp_all add: settled_to_def)
  qed
qed

section \<open>States\<close>

definition inventory_ok :: "(u32, u32) fmap \<Rightarrow> bool" where
  "inventory_ok m \<longleftrightarrow> (\<forall>i q. fmlookup m i = Some q \<longrightarrow> i \<noteq> 0 \<and> 0 < q \<and> q \<le> 300)"

definition plots_ok :: "(u32, plot) fmap \<Rightarrow> bool" where
  "plots_ok m \<longleftrightarrow> (\<forall>i p. fmlookup m i = Some p \<longrightarrow> pl_id p = i \<and> plot_ok p)"

definition task_ok :: "task \<Rightarrow> bool" where
  "task_ok t \<longleftrightarrow> tk_id t \<noteq> 0 \<and> tk_target t \<noteq> 0 \<and> tk_current t \<le> tk_target t"

definition pet_ok :: "pet_record \<Rightarrow> bool" where
  "pet_ok p \<longleftrightarrow> 0 \<le> pet_food_active_until_ms p \<and> pet_food_active_until_ms p \<le> max_i64 \<and>
     ids_ok (pet_owned_ids p) \<and> (pet_active_id p \<noteq> 0 \<longrightarrow> pet_active_id p \<in> set (pet_owned_ids p))"

definition state_ok :: "state \<Rightarrow> bool" where
  "state_ok s \<longleftrightarrow> 0 \<le> st_coins s \<and> st_coins s \<le> max_i64 \<and> inventory_ok (st_inventory s) \<and>
     plots_ok (st_plots s) \<and> (\<forall>t \<in> set (st_tasks s). task_ok t) \<and>
     st_chapter s \<noteq> CHAPTER_UNSPECIFIED \<and> st_chapter_id s \<noteq> 0 \<and> st_chapter_config_version s \<noteq> 0 \<and>
     length (st_recent_results s) \<le> maxRecentResults \<and>
     (case st_crop_compendium s of None \<Rightarrow> True | Some ids \<Rightarrow> ids_ok ids) \<and> pet_ok (petOf s)"

text \<open>Instants of the farm do not lie in the future of the clock.\<close>

definition clock_ok :: "state \<Rightarrow> int \<Rightarrow> bool" where
  "clock_ok s now \<longleftrightarrow> (\<forall>i p. fmlookup (st_plots s) i = Some p \<longrightarrow>
     pl_planted_at_ms p \<le> now \<and> pl_last_settled_at_ms p \<le> now)"

text \<open>
  What a configuration must satisfy beyond the checks of its constructor: the \<open>int64\<close> fields are in
  range, and the tasks of a chapter do not start beyond their target.
\<close>

definition config_range :: "config_snapshot \<Rightarrow> bool" where
  "config_range c \<longleftrightarrow>
     (\<forall>i x. fmlookup (cfg_crops_by_seed c) i = Some x \<longrightarrow>
        cc_maturity_scaled9 x \<le> max_i64 \<and> cc_base_rate_scaled6 x \<le> max_i64) \<and>
     (\<forall>i x. fmlookup (cfg_shop_entries c) i = Some x \<longrightarrow> se_unit_price x \<le> max_i64) \<and>
     (\<forall>i x. fmlookup (cfg_sell_rules c) i = Some x \<longrightarrow> sl_unit_price x \<le> max_i64) \<and>
     (\<forall>i x. fmlookup (cfg_fertilizers c) i = Some x \<longrightarrow> fc_duration_ms x \<le> max_i64) \<and>
     (\<forall>i x. fmlookup (cfg_chapters c) i = Some x \<longrightarrow>
        ch_reward_coins x \<le> max_i64 \<and> (\<forall>t \<in> set (ch_tasks x). tk_current t \<le> tk_target t))"

text \<open>
  \<open>feedPet\<close> adds a food duration to an instant without a check; it stays in range as long as one more
  meal does not reach beyond the last \<open>int64\<close> millisecond.
\<close>

definition food_ok :: "config_snapshot \<Rightarrow> int \<Rightarrow> pet_record \<Rightarrow> bool" where
  "food_ok c now pet \<longleftrightarrow> (\<forall>i f. fmlookup (cfg_pet_food c) i = Some f \<longrightarrow>
     max now (pet_food_active_until_ms pet) + int (unat (pf_duration_seconds f)) * 1000 \<le> max_i64)"

text \<open>The circumstances in which a command runs.\<close>

definition env_ok :: "config_snapshot \<Rightarrow> int \<Rightarrow> state \<Rightarrow> bool" where
  "env_ok c now s \<longleftrightarrow> config_ok c \<and> config_range c \<and> 0 < now \<and> now \<le> max_i64 \<and> clock_ok s now \<and>
     food_ok c now (petOf s)"

lemma petOf_upd [simp]:
  "petOf (s\<lparr>st_inventory := a\<rparr>) = petOf s" "petOf (s\<lparr>st_plots := b\<rparr>) = petOf s"
  "petOf (s\<lparr>st_coins := c\<rparr>) = petOf s" "petOf (s\<lparr>st_tasks := d\<rparr>) = petOf s"
  "petOf (s\<lparr>st_chapter := e\<rparr>) = petOf s" "petOf (s\<lparr>st_career := f\<rparr>) = petOf s"
  "petOf (s\<lparr>st_crop_compendium := g\<rparr>) = petOf s" "petOf (s\<lparr>st_pending_outbox := h\<rparr>) = petOf s"
  "petOf (s\<lparr>st_updated_at_ms := u\<rparr>) = petOf s" "petOf (s\<lparr>st_config_version := v\<rparr>) = petOf s"
  "petOf (s\<lparr>st_checkpoint_revision := r\<rparr>) = petOf s" "petOf (s\<lparr>st_player_seq := q\<rparr>) = petOf s"
  "petOf (s\<lparr>st_chapter_id := i\<rparr>) = petOf s" "petOf (s\<lparr>st_chapter_config_version := j\<rparr>) = petOf s"
  "petOf (s\<lparr>st_chapter_activated_at_ms := k\<rparr>) = petOf s" "petOf (s\<lparr>st_recent_results := l\<rparr>) = petOf s"
  by (simp_all add: petOf_def)

lemma petOf_career [simp]: "petOf (ensureCareer s) = petOf s" "petOf (unlockCrop s i) = petOf s"
  by (simp_all add: petOf_def ensureCareer_def unlockCrop_def Let_def split: option.splits)

lemma petOf_bookkeeping [simp]:
  "petOf (bump cv now s) = petOf s" "petOf (appendResult r now s) = petOf s"
  by (simp_all add: petOf_def)

lemma state_ok_ensure [simp]: "state_ok (ensurePetState s) = state_ok s"
  by (simp add: state_ok_def)

lemma inventory_ok_get: "inventory_ok m \<Longrightarrow> map_get m i \<le> 300"
  by (simp add: inventory_ok_def map_get_def split: option.splits)

lemma inventory_ok_upd: "inventory_ok m \<Longrightarrow> i \<noteq> 0 \<Longrightarrow> 0 < q \<Longrightarrow> q \<le> 300 \<Longrightarrow> inventory_ok (fmupd i q m)"
  by (simp add: inventory_ok_def)

lemma inventory_ok_drop: "inventory_ok m \<Longrightarrow> inventory_ok (fmdrop i m)"
  by (simp add: inventory_ok_def)

lemma inventory_ok_key: "inventory_ok m \<Longrightarrow> map_get m i \<noteq> 0 \<Longrightarrow> i \<noteq> 0"
  by (auto simp: inventory_ok_def dest: map_get_nonzeroD)

lemma plots_ok_upd: "plots_ok m \<Longrightarrow> pl_id p = i \<Longrightarrow> plot_ok p \<Longrightarrow> plots_ok (fmupd i p m)"
  by (simp add: plots_ok_def)

lemma plots_okD: "plots_ok m \<Longrightarrow> fmlookup m i = Some p \<Longrightarrow> pl_id p = i \<and> plot_ok p"
  by (simp add: plots_ok_def)

text \<open>The bookkeeping of a command does not enter the invariant.\<close>

lemma state_ok_bump [simp]: "state_ok (bump cv now s) = state_ok s"
  by (simp add: state_ok_def bump_def)

lemma results_bounded_append: "length (st_recent_results (appendResult r now s)) \<le> maxRecentResults"
  by (rule appendResult_shape [of r now s]) simp

lemma state_ok_append: "state_ok s \<Longrightarrow> state_ok (appendResult r now s)"
proof -
  have "st_chapter_config_version (appendResult r now s) = st_chapter_config_version s"
    by (simp add: appendResult_def Let_def)
  then show "state_ok s \<Longrightarrow> ?thesis"
    using results_bounded_append by (simp add: state_ok_def)
qed

lemma state_ok_stamp [simp]:
  "state_ok (s\<lparr>st_checkpoint_revision := r, st_config_version := v, st_updated_at_ms := t\<rparr>) = state_ok s"
  by (simp add: state_ok_def)

lemma empty_pet_ok: "pet_ok empty_pet"
  by (simp add: pet_ok_def empty_pet_def ids_ok_def max_i64_def)

lemma initial_pet [simp]: "petOf (NewDevelopmentState i t) = empty_pet"
  by (simp add: petOf_def NewDevelopmentState_def)

lemma initial_state_ok: "state_ok (NewDevelopmentState i t)"
proof -
  have "plots_ok newInitialPlots"
    by (auto simp: plots_ok_def newInitialPlots_lookup initial_plot_ids_eq split: if_splits)
  then show ?thesis
    unfolding state_ok_def initial_pet using empty_pet_ok
    by (simp add: NewDevelopmentState_def inventory_ok_def task_ok_def initial_tasks_def
        initial_consts max_i64_def maxRecentResults_def)
qed

lemma state_ok_pay:
  assumes "state_ok s" "0 \<le> price" "price \<le> st_coins s"
  shows "state_ok (s\<lparr>st_coins := to_i64 (st_coins s - price)\<rparr>)" "to_i64 (st_coins s - price) = st_coins s - price"
proof -
  have c: "0 \<le> st_coins s" "st_coins s \<le> max_i64" using assms(1) by (simp_all add: state_ok_def)
  then show "to_i64 (st_coins s - price) = st_coins s - price"
    using assms(2,3) by (intro to_i64_id in_i64_nonneg) simp_all
  then show "state_ok (s\<lparr>st_coins := to_i64 (st_coins s - price)\<rparr>)"
    using assms c by (simp add: state_ok_def)
qed

lemma state_ok_inventory: "state_ok s \<Longrightarrow> inventory_ok m \<Longrightarrow> state_ok (s\<lparr>st_inventory := m\<rparr>)"
  by (simp add: state_ok_def)

lemma state_ok_tasks: "state_ok s \<Longrightarrow> \<forall>t \<in> set ts. task_ok t \<Longrightarrow> state_ok (s\<lparr>st_tasks := ts\<rparr>)"
  by (simp add: state_ok_def)

text \<open>A purchase: the price is covered and the goods fit on their stack.\<close>

lemma purchase_ok:
  assumes "state_ok s" "item \<noteq> 0" "0 < q" "price \<le> st_coins s" "0 \<le> price"
    "unat (map_get (st_inventory s) item) + unat q \<le> 300"
  shows "state_ok (s\<lparr>st_coins := to_i64 (st_coins s - price),
    st_inventory := fmupd item (map_get (st_inventory s) item + q) (st_inventory s)\<rparr>)"
proof -
  have u: "unat (map_get (st_inventory s) item + q) = unat (map_get (st_inventory s) item) + unat q"
    using unat_add_bounded [OF assms(6)] by simp
  have "0 < unat q" using assms(3) by (simp add: word_less_nat_alt)
  then have "0 < map_get (st_inventory s) item + q" "map_get (st_inventory s) item + q \<le> 300"
    using u assms(6) by (simp_all add: word_less_nat_alt word_le_nat_alt)
  then have "inventory_ok (fmupd item (map_get (st_inventory s) item + q) (st_inventory s))"
    using assms(1,2) by (intro inventory_ok_upd) (simp_all add: state_ok_def)
  then show ?thesis
    using state_ok_inventory [OF state_ok_pay(1) [OF assms(1,5,4)]] by simp
qed

section \<open>Maturing due plots keeps the invariant\<close>

lemma state_ok_plots:
  "state_ok s \<Longrightarrow> plots_ok m \<Longrightarrow> state_ok (s\<lparr>st_plots := m\<rparr>)"
  by (simp add: state_ok_def)

lemma state_ok_mature_bookkeeping [simp]: "state_ok (mature_bookkeeping now s) = state_ok s"
  by (simp add: state_ok_def mature_bookkeeping_def)

lemma state_ok_plotsD: "state_ok s \<Longrightarrow> plots_ok (st_plots s)"
  by (simp add: state_ok_def)

text \<open>Whatever settling a plot and the bookkeeping of a maturity keep, a materialization without error keeps.\<close>

lemma materialize_loop_keeps:
  assumes "P s" "materialize_loop now ids evs s = (True, evs', s')"
    and settle: "\<And>s i p b p'. P s \<Longrightarrow> fmlookup (st_plots s) i = Some p \<Longrightarrow> settleGrowingPlot p now = (Some b, p') \<Longrightarrow>
      P (s\<lparr>st_plots := fmupd i p' (st_plots s)\<rparr>)"
    and book: "\<And>s. P s \<Longrightarrow> P (mature_bookkeeping now s)"
  shows "P s'"
  using assms(1,2)
proof (induction ids arbitrary: evs s)
  case (Cons i ids)
  show ?case
  proof (cases "fmlookup (st_plots s) i")
    case None
    then show ?thesis using Cons by simp
  next
    case (Some p)
    obtain r p' where st: "settleGrowingPlot p now = (r, p')" by fastforce
    show ?thesis
    proof (cases "not_yet_due now p")
      case True
      then show ?thesis using Cons Some by simp
    next
      case False
      then obtain b where b: "r = Some b"
        using Cons.prems(2) Some st by (cases r) auto
      have upd: "P (s\<lparr>st_plots := fmupd i p' (st_plots s)\<rparr>)"
        using settle [OF Cons.prems(1) Some] st b by blast
      show ?thesis
        using Cons.prems(2) Some False st b Cons.IH [OF upd] Cons.IH [OF book [OF upd]]
        by (cases b) (auto simp: Let_def)
    qed
  qed
qed simp

lemma settle_state_ok:
  assumes "state_ok s" "now \<le> max_i64" "fmlookup (st_plots s) i = Some p" "settleGrowingPlot p now = (Some b, p')"
  shows "state_ok (s\<lparr>st_plots := fmupd i p' (st_plots s)\<rparr>)"
proof -
  have "plot_ok p'" "pl_id p' = i"
    using settle_plot_ok [OF _ assms(2,4)] plots_okD [OF state_ok_plotsD [OF assms(1)] assms(3)] by auto
  then show ?thesis using assms(1) by (intro state_ok_plots plots_ok_upd state_ok_plotsD)
qed

lemma materialize_loop_ok:
  assumes "state_ok s" "now \<le> max_i64" "materialize_loop now ids evs s = (True, evs', s')"
  shows "state_ok s'"
  using assms(1,3) by (rule materialize_loop_keeps) (use assms(2) settle_state_ok in auto)

text \<open>A materialization at \<open>now\<close> keeps the instants of the farm in the past and the pets as they are.\<close>

lemma materialize_loop_env:
  assumes "state_ok s" "clock_ok s now" "now \<le> max_i64" "materialize_loop now ids evs s = (True, evs', s')"
  shows "clock_ok s' now \<and> petOf s' = petOf s \<and> st_recent_results s' = st_recent_results s"
proof -
  let ?P = "\<lambda>x. state_ok x \<and> clock_ok x now \<and> petOf x = petOf s \<and> st_recent_results x = st_recent_results s"
  have "?P s'"
  proof (rule materialize_loop_keeps [where P = ?P, OF _ assms(4)])
    fix x i p b p'
    assume x: "?P x" "fmlookup (st_plots x) i = Some p" "settleGrowingPlot p now = (Some b, p')"
    have "pl_planted_at_ms p \<le> now" "pl_last_settled_at_ms p \<le> now" using x(1,2) by (auto simp: clock_ok_def)
    moreover have "plot_ok p" using x(1,2) plots_okD state_ok_plotsD by blast
    ultimately show "?P (x\<lparr>st_plots := fmupd i p' (st_plots x)\<rparr>)"
      using settle_plot_ok [OF _ assms(3) x(3)] settle_state_ok [OF _ assms(3) x(2,3)] x(1) by (auto simp: clock_ok_def)
  next
    fix x assume "?P x"
    then show "?P (mature_bookkeeping now x)" by (auto simp: mature_bookkeeping_def clock_ok_def state_ok_def)
  qed (use assms in simp)
  then show ?thesis by simp
qed

section \<open>Commands that keep the invariant\<close>

locale safe_command = command +
  assumes done_ok: "state_ok s \<Longrightarrow> env_ok cfg now s \<Longrightarrow>
    body C caller req cfg now rid s = Done p obx s1 ch \<Longrightarrow> state_ok s1"
begin

lemma handler_ok:
  assumes "state_ok s" "env_ok cfg now s" "handler C caller req cfg now s = (resp, dirty, ch, s')"
  shows "state_ok s'"
proof (rule handler_cases [of req C caller cfg now s])
  fix rid e s0 s2
  assume "s0 = s \<or> s0 = ensurePetState s"
    "s2 = snd (storeFailure C act req rid (fingerprint caller req) (cfg_version cfg) now e s0)"
    "handler C caller req cfg now s = (errorEnvelope req s2 now e, True, {||}, s2)"
  then show ?thesis
    using assms(1,3) by (auto simp: storeFailure_def Let_def intro!: state_ok_append)
next
  fix rid p obx s1 ch' s3
  assume d: "body C caller req cfg now rid s = Done p obx s1 ch'"
    "s3 = appendResult (success_record C act caller req rid (fingerprint caller req) now
       (bump (cfg_version cfg) now s1) p obx) now (bump (cfg_version cfg) now s1)"
    "handler C caller req cfg now s = (successEnvelope req s3 now p, True, ch', s3)"
  have "state_ok s1" by (rule done_ok [OF assms(1,2) d(1)])
  then show ?thesis
    using d(2,3) assms(3) by (auto intro!: state_ok_append)
qed (use assms in auto)

end

end
