(* ===== verification/Farm_Client.thy ===== *)
theory Farm_Client
  imports Farm_Invariant
begin

text \<open>
  Two abstractions of a player's state that the commands are measured against.

  \<^item> The account: coins as an integer and every item as a natural number, without machine widths.
    Each command is specified by what it does to the account.
  \<^item> The client: what a player's client shows. A client starts from a snapshot and then only applies
    the patches of the responses it receives (\<open>PlayerStatePatch\<close> of \<open>ws.proto\<close>); \<open>synced_command\<close>
    demands that a response's patch takes the client exactly to the new state, and that every plot
    the command touched is reported as changed to visitors.
\<close>

section \<open>The account\<close>

datatype account = Account (acc_coins: int) (acc_item: "u32 \<Rightarrow> nat")

definition account_of :: "state \<Rightarrow> account" where
  "account_of s = Account (st_coins s) (\<lambda>i. unat (map_get (st_inventory s) i))"

fun pay :: "int \<Rightarrow> account \<Rightarrow> account" where
  "pay c (Account coins items) = Account (coins - c) items"

fun gain :: "u32 \<Rightarrow> nat \<Rightarrow> account \<Rightarrow> account" where
  "gain i n (Account coins items) = Account coins (items(i := items i + n))"

fun spend :: "u32 \<Rightarrow> nat \<Rightarrow> account \<Rightarrow> account" where
  "spend i n (Account coins items) = Account coins (items(i := items i - n))"

lemma account_plots [simp]:
  "account_of (s\<lparr>st_plots := x\<rparr>) = account_of s" "account_of (s\<lparr>st_tasks := y\<rparr>) = account_of s"
  by (simp_all add: account_of_def)

lemma account_bump [simp]:
  "account_of (bump cv now s) = account_of s" "account_of (appendResult r now s) = account_of s"
  by (simp_all add: account_of_def)

section \<open>The client\<close>

record client =
  cl_coins :: int
  cl_items :: "u32 \<Rightarrow> u32"
  cl_plots :: "u32 \<Rightarrow> plot_view option"
  cl_chapter :: chapter_view
  cl_career :: career_view
  cl_compendium :: compendium_view

definition client_of :: "state \<Rightarrow> client" where
  "client_of s = \<lparr>cl_coins = st_coins s, cl_items = map_get (st_inventory s),
     cl_plots = (\<lambda>i. map_option plotView (fmlookup (st_plots s) i)), cl_chapter = chapterView s,
     cl_career = careerView s, cl_compendium = compendiumView s\<rparr>"

definition apply_patch :: "state_patch \<Rightarrow> client \<Rightarrow> client" where
  "apply_patch p c = \<lparr>
     cl_coins = (case sp_coin_balance p of None \<Rightarrow> cl_coins c | Some x \<Rightarrow> x),
     cl_items = fold (\<lambda>i m. m(i := 0)) (sp_inventory_removed_item_ids p)
       (fold (\<lambda>v m. m(isv_item_id v := isv_quantity v)) (sp_inventory_upserts p) (cl_items c)),
     cl_plots = fold (\<lambda>v m. m(pv_plot_id v \<mapsto> v)) (sp_plot_upserts p) (cl_plots c),
     cl_chapter = (case sp_current_chapter p of None \<Rightarrow> cl_chapter c | Some x \<Rightarrow> x),
     cl_career = (case sp_career p of None \<Rightarrow> cl_career c | Some x \<Rightarrow> x),
     cl_compendium = (case sp_crop_compendium p of None \<Rightarrow> cl_compendium c | Some x \<Rightarrow> x)\<rparr>"

text \<open>The patch a response carries; reads and pushes have none.\<close>

fun payload_patch :: "ws_payload \<Rightarrow> state_patch option" where
  "payload_patch (BuySeedsResponse _ _ _ _ _ p) = Some p"
| "payload_patch (BuyFertilizerResponse _ _ _ _ _ p) = Some p"
| "payload_patch (PlantResponse _ p) = Some p"
| "payload_patch (ApplyFertilizerResponse _ _ p) = Some p"
| "payload_patch (HarvestResponse _ _ p) = Some p"
| "payload_patch (CleanPlotResponse p) = Some p"
| "payload_patch (CatchPestResponse p) = Some p"
| "payload_patch (SellCropResponse _ _ _ _ p) = Some p"
| "payload_patch (ClaimChapterRewardResponse _ _ _ _ p) = Some p"
| "payload_patch (BuyPetResponse _ _ p _) = Some p"
| "payload_patch (DeployPetResponse _ p _) = Some p"
| "payload_patch (BuyPetFoodResponse _ _ _ _ _ p _) = Some p"
| "payload_patch (FeedPetResponse _ p _) = Some p"
| "payload_patch (SendFriendGiftResponse _ _ _ p) = Some p"
| "payload_patch (PlayerStateChangedPush p) = Some p"
| "payload_patch _ = None"

lemma client_bump [simp]:
  "client_of (bump cv now s) = client_of s" "client_of (appendResult r now s) = client_of s"
  by (simp_all add: client_of_def chapterView_def careerView_def compendiumView_def)

lemma client_stamp [simp]:
  "client_of (s\<lparr>st_checkpoint_revision := r, st_config_version := v, st_updated_at_ms := t\<rparr>) = client_of s"
  by (simp add: client_of_def chapterView_def careerView_def compendiumView_def)

lemma map_get_fun_upd: "map_get (fmupd i q m) = (map_get m)(i := q)"
  by (rule ext) (simp add: map_simps)

lemma map_get_fun_drop: "map_get (fmdrop i m) = (map_get m)(i := 0)"
  by (rule ext) (simp add: map_simps)

lemma plots_fun_upd:
  "(\<lambda>j. map_option plotView (fmlookup (fmupd i p m) j)) = (\<lambda>j. map_option plotView (fmlookup m j))(i \<mapsto> plotView p)"
  by (rule ext) simp

lemmas client_simps = client_of_def apply_patch_def map_get_fun_upd map_get_fun_drop plots_fun_upd
  chapterView_def careerView_def compendiumView_def

lemma plotView_id [simp]: "pv_plot_id (plotView p) = pl_id p"
  by (simp add: plotView_def)

text \<open>The shapes of patch the handlers build.\<close>

lemma patch_coins_items:
  assumes "st_coins s1 = c" "chapterView s1 = chv" "st_plots s1 = st_plots s"
    "st_career s1 = st_career s" "st_crop_compendium s1 = st_crop_compendium s"
    "fold (\<lambda>i m. m(i := 0)) rem (fold (\<lambda>v m. m(isv_item_id v := isv_quantity v)) ups (map_get (st_inventory s))) =
     map_get (st_inventory s1)"
  shows "apply_patch (PlayerStatePatch (Some c) ups rem [] (Some chv) None None) (client_of s) = client_of s1"
  using assms by (auto simp: client_of_def apply_patch_def careerView_def compendiumView_def)

lemma patch_plot_items:
  assumes "st_coins s1 = st_coins s" "st_plots s1 = fmupd i p (st_plots s)" "pl_id p = i"
    "st_career s1 = st_career s" "st_crop_compendium s1 = st_crop_compendium s" "plotView p = v"
    "fold (\<lambda>i m. m(i := 0)) rem (fold (\<lambda>v m. m(isv_item_id v := isv_quantity v)) ups (map_get (st_inventory s))) =
     map_get (st_inventory s1)"
    "cho = Some (chapterView s1) \<or> cho = None \<and> chapterView s1 = chapterView s"
  shows "apply_patch (PlayerStatePatch None ups rem [v] cho None None) (client_of s) = client_of s1"
  using assms by (auto simp: client_of_def apply_patch_def careerView_def compendiumView_def plots_fun_upd)

section \<open>Commands that keep clients and visitors in step\<close>

definition unchanged_outside :: "domain_changes \<Rightarrow> state \<Rightarrow> state \<Rightarrow> bool" where
  "unchanged_outside ch s s' \<longleftrightarrow> (\<forall>i. i |\<notin>| ch \<longrightarrow> fmlookup (st_plots s') i = fmlookup (st_plots s) i)"

locale synced_command = safe_command +
  assumes done_patch: "state_ok s \<Longrightarrow> body C caller req cfg now rid s = Done p obx s1 ch \<Longrightarrow>
      \<exists>patch. payload_patch p = Some patch \<and> apply_patch patch (client_of s) = client_of s1"
    and done_changes: "state_ok s \<Longrightarrow> body C caller req cfg now rid s = Done p obx s1 ch \<Longrightarrow>
      unchanged_outside ch s s1"
begin

text \<open>Applying the patch of a fresh success to the old client state gives the new one.\<close>

lemma handler_patch:
  assumes "state_ok s" "handler C caller req cfg now s = (resp, True, ch, s')" "resp_error resp = None"
  shows "\<exists>p patch. resp_payload resp = Some p \<and> payload_patch p = Some patch \<and>
    apply_patch patch (client_of s) = client_of s'"
proof (rule handler_cases [of req C caller cfg now s])
  fix rid p obx s1 ch' s3
  assume d: "body C caller req cfg now rid s = Done p obx s1 ch'"
    "s3 = appendResult (success_record C act caller req rid (fingerprint caller req) now
       (bump (cfg_version cfg) now s1) p obx) now (bump (cfg_version cfg) now s1)"
    "handler C caller req cfg now s = (successEnvelope req s3 now p, True, ch', s3)"
  then show ?thesis
    using done_patch [OF assms(1) d(1)] assms(2) by (auto simp: successEnvelope_def)
qed (use assms in \<open>auto simp: errorEnvelope_def\<close>)

text \<open>A plot that is not reported as changed has not changed.\<close>

lemma handler_changes:
  assumes "state_ok s" "handler C caller req cfg now s = (resp, dirty, ch, s')"
  shows "unchanged_outside ch s s'"
proof (rule handler_cases [of req C caller cfg now s])
  fix rid p obx s1 ch' s3
  assume d: "body C caller req cfg now rid s = Done p obx s1 ch'"
    "s3 = appendResult (success_record C act caller req rid (fingerprint caller req) now
       (bump (cfg_version cfg) now s1) p obx) now (bump (cfg_version cfg) now s1)"
    "handler C caller req cfg now s = (successEnvelope req s3 now p, True, ch', s3)"
  then show ?thesis
    using done_changes [OF assms(1) d(1)] assms(2) by (auto simp: unchanged_outside_def)
qed (use assms in \<open>auto simp: unchanged_outside_def storeFailure_def Let_def\<close>)

end

end
