(* ===== verification/Shop.thy ===== *)
theory Shop
  imports Farm_Client
begin

text \<open>
  The economy commands: \<open>buySeeds\<close> (\<open>buy_seeds.go\<close>), \<open>buyFertilizer\<close> (\<open>buy_fertilizer.go\<close>) and
  \<open>sellCrop\<close> (\<open>sell_crop.go\<close>). Each has its body, its fingerprint, its failure and replay functions
  and its handler; each interprets \<open>safe_command\<close>, which gives it replay, conflict detection, the
  sequence discipline and the state invariant.
\<close>

section \<open>Task progress\<close>

text \<open>
  Two loops over the tasks occur in the handlers: add a quantity to the first task with an
  identifier, capped at its target (\<open>uint64\<close> arithmetic), and count one up on the first task with
  the identifier that is not complete.
\<close>

fun add_progress :: "u32 \<Rightarrow> u32 \<Rightarrow> task list \<Rightarrow> task list" where
  "add_progress i q [] = []"
| "add_progress i q (t # ts) =
     (if tk_id t = i
      then let n = ucast (tk_current t) + ucast q :: u64;
               n = (if n > ucast (tk_target t) then ucast (tk_target t) else n)
           in t\<lparr>tk_current := ucast n\<rparr> # ts
      else t # add_progress i q ts)"

fun count_task :: "u32 \<Rightarrow> task list \<Rightarrow> task list" where
  "count_task i [] = []"
| "count_task i (t # ts) =
     (if tk_id t = i \<and> tk_current t < tk_target t
      then t\<lparr>tk_current := tk_current t + 1\<rparr> # ts
      else t # count_task i ts)"

definition allTasksComplete :: "task list \<Rightarrow> bool" where
  "allTasksComplete ts \<longleftrightarrow> ts \<noteq> [] \<and> list_all (\<lambda>t. \<not> (tk_target t = 0 \<or> tk_current t < tk_target t)) ts"

section \<open>Buying seeds\<close>

definition buySeedsFingerprint :: "u64 \<Rightarrow> ws_request \<Rightarrow> buy_request \<Rightarrow> bytes" where
  "buySeedsFingerprint caller req buy = sha256 (fingerprint_head caller req @
     be32 (br_shop_entry_id buy) @ be32 (br_quantity buy) @ be64 (br_expected_price_version buy))"

definition storeBuySeedsFailure ::
  "codec \<Rightarrow> ws_request \<Rightarrow> bytes \<Rightarrow> bytes \<Rightarrow> u64 \<Rightarrow> int \<Rightarrow> ws_error \<Rightarrow> state \<Rightarrow> ws_response \<times> state" where
  "storeBuySeedsFailure C = storeFailure C BUY_SEEDS"

definition replayBuySeeds :: "codec \<Rightarrow> ws_request \<Rightarrow> idempotency_result \<Rightarrow> int \<Rightarrow> ws_response" where
  "replayBuySeeds C = replayStored C BUY_SEEDS"

definition buySeedsBody :: "config_snapshot \<Rightarrow> buy_request \<Rightarrow> state \<Rightarrow> outcome" where
  "buySeedsBody cfg buy s =
     (if br_quantity buy = 0 \<or> br_quantity buy > 50 then Failed (plain_error INVALID_ARGUMENT) s
      else case ShopEntry cfg (br_shop_entry_id buy) of
        None \<Rightarrow> Failed (plain_error SHOP_ENTRY_NOT_FOUND) s
      | Some entry \<Rightarrow>
          if \<not> se_enabled entry then Failed (plain_error SHOP_ENTRY_DISABLED) s
          else if se_item_id entry = BasicFertilizerID then Failed (plain_error SHOP_ENTRY_NOT_FOUND) s
          else if PetFood cfg (se_item_id entry) \<noteq> None then Failed (plain_error SHOP_ENTRY_NOT_FOUND) s
          else if br_expected_price_version buy \<noteq> se_price_version entry
          then Failed (WsError PRICE_CHANGED False (Some (shopEntryView entry)) None) s
          else if int (unat (br_quantity buy)) > go_quo max_i64 (se_unit_price entry)
          then Failed (plain_error INVALID_ARGUMENT) s
          else let totalPrice = to_i64 (int (unat (br_quantity buy)) * se_unit_price entry)
          in if st_coins s < totalPrice then Failed (plain_error INSUFFICIENT_COINS) s
          else let currentQuantity = map_get (st_inventory s) (se_item_id entry)
          in if unat currentQuantity + unat (br_quantity buy) > 300
          then Failed (plain_error INVENTORY_STACK_LIMIT) s
          else let s1 = s\<lparr>st_coins := to_i64 (st_coins s - totalPrice),
                 st_inventory := fmupd (se_item_id entry) (currentQuantity + br_quantity buy) (st_inventory s),
                 st_tasks := add_progress 1 (br_quantity buy) (st_tasks s)\<rparr>
          in Done (BuySeedsResponse (br_shop_entry_id buy) (se_item_id entry) (br_quantity buy)
                 (se_unit_price entry) totalPrice
                 (PlayerStatePatch (Some (st_coins s1))
                   [ItemStackView (se_item_id entry) (map_get (st_inventory s1) (se_item_id entry))] [] []
                   (Some (chapterView s1)) None None))
               [] s1 {||})"

definition buySeeds ::
  "codec \<Rightarrow> u64 \<Rightarrow> ws_request \<Rightarrow> buy_request \<Rightarrow> config_snapshot \<Rightarrow> int \<Rightarrow> state \<Rightarrow> handler_result" where
  "buySeeds C caller req buy cfg now s =
     run_command C BUY_SEEDS (storeBuySeedsFailure C) (replayBuySeeds C)
       (buySeedsFingerprint caller req buy) caller req (cfg_version cfg) now
       (\<lambda>rid. buySeedsBody cfg buy) s"

section \<open>Buying fertilizer\<close>

definition buyFertilizerFingerprint :: "u64 \<Rightarrow> ws_request \<Rightarrow> buy_request \<Rightarrow> bytes" where
  "buyFertilizerFingerprint caller req buy = sha256 (fingerprint_head caller req @
     be32 (br_shop_entry_id buy) @ be32 (br_quantity buy) @ be64 (br_expected_price_version buy))"

definition storeBuyFertilizerFailure ::
  "codec \<Rightarrow> ws_request \<Rightarrow> bytes \<Rightarrow> bytes \<Rightarrow> u64 \<Rightarrow> int \<Rightarrow> ws_error \<Rightarrow> state \<Rightarrow> ws_response \<times> state" where
  "storeBuyFertilizerFailure C = storeFailure C BUY_FERTILIZER"

definition replayBuyFertilizer :: "codec \<Rightarrow> ws_request \<Rightarrow> idempotency_result \<Rightarrow> int \<Rightarrow> ws_response" where
  "replayBuyFertilizer C = replayStored C BUY_FERTILIZER"

definition buyFertilizerBody :: "config_snapshot \<Rightarrow> buy_request \<Rightarrow> state \<Rightarrow> outcome" where
  "buyFertilizerBody cfg buy s =
     (if br_quantity buy = 0 \<or> br_quantity buy > 50 then Failed (plain_error INVALID_ARGUMENT) s
      else case ShopEntry cfg (br_shop_entry_id buy) of
        None \<Rightarrow> Failed (plain_error SHOP_ENTRY_NOT_FOUND) s
      | Some entry \<Rightarrow>
          if se_item_id entry \<noteq> BasicFertilizerID then Failed (plain_error SHOP_ENTRY_NOT_FOUND) s
          else if \<not> se_enabled entry then Failed (plain_error SHOP_ENTRY_DISABLED) s
          else if br_expected_price_version buy \<noteq> se_price_version entry
          then Failed (WsError PRICE_CHANGED False (Some (shopEntryView entry)) None) s
          else if int (unat (br_quantity buy)) > go_quo max_i64 (se_unit_price entry)
          then Failed (plain_error INVALID_ARGUMENT) s
          else let totalPrice = to_i64 (int (unat (br_quantity buy)) * se_unit_price entry)
          in if st_coins s < totalPrice then Failed (plain_error INSUFFICIENT_COINS) s
          else let currentQuantity = map_get (st_inventory s) (se_item_id entry)
          in if unat currentQuantity + unat (br_quantity buy) > 300
          then Failed (plain_error INVENTORY_STACK_LIMIT) s
          else let s1 = s\<lparr>st_coins := to_i64 (st_coins s - totalPrice),
                 st_inventory := fmupd (se_item_id entry) (currentQuantity + br_quantity buy) (st_inventory s)\<rparr>
          in Done (BuyFertilizerResponse (br_shop_entry_id buy) (se_item_id entry) (br_quantity buy)
                 (se_unit_price entry) totalPrice
                 (PlayerStatePatch (Some (st_coins s1))
                   [ItemStackView (se_item_id entry) (map_get (st_inventory s1) (se_item_id entry))] [] []
                   (Some (chapterView s1)) None None))
               [] s1 {||})"

definition buyFertilizer ::
  "codec \<Rightarrow> u64 \<Rightarrow> ws_request \<Rightarrow> buy_request \<Rightarrow> config_snapshot \<Rightarrow> int \<Rightarrow> state \<Rightarrow> handler_result" where
  "buyFertilizer C caller req buy cfg now s =
     run_command C BUY_FERTILIZER (storeBuyFertilizerFailure C) (replayBuyFertilizer C)
       (buyFertilizerFingerprint caller req buy) caller req (cfg_version cfg) now
       (\<lambda>rid. buyFertilizerBody cfg buy) s"

section \<open>Selling crops\<close>

fun validSellAmount :: "sell_request \<Rightarrow> bool" where
  "validSellAmount (SellCropRequest i v (AmountQuantity q)) = (q > 0)"
| "validSellAmount (SellCropRequest i v (AmountSellAll b)) = b"
| "validSellAmount (SellCropRequest i v AmountUnset) = False"

text \<open>The protobuf getters \<open>GetQuantity\<close> and \<open>GetSellAll\<close> of the \<open>oneof\<close>.\<close>

definition sell_quantity :: "sell_request \<Rightarrow> u32" where
  "sell_quantity r = (case sr_amount r of AmountQuantity q \<Rightarrow> q | _ \<Rightarrow> 0)"

definition sell_all :: "sell_request \<Rightarrow> bool" where
  "sell_all r = (case sr_amount r of AmountSellAll b \<Rightarrow> b | _ \<Rightarrow> False)"

fun amount_bytes :: "sell_amount \<Rightarrow> bytes" where
  "amount_bytes (AmountQuantity q) = 1 # be32 q"
| "amount_bytes (AmountSellAll b) = [2, if b then 1 else 0]"
| "amount_bytes AmountUnset = [0]"

definition sellCropFingerprint :: "u64 \<Rightarrow> ws_request \<Rightarrow> sell_request \<Rightarrow> bytes" where
  "sellCropFingerprint caller req sell = sha256 (fingerprint_head caller req @
     be32 (sr_crop_item_id sell) @ be64 (sr_expected_price_version sell) @ amount_bytes (sr_amount sell))"

definition storeSellCropFailure ::
  "codec \<Rightarrow> ws_request \<Rightarrow> bytes \<Rightarrow> bytes \<Rightarrow> u64 \<Rightarrow> int \<Rightarrow> ws_error \<Rightarrow> state \<Rightarrow> ws_response \<times> state" where
  "storeSellCropFailure C = storeFailure C SELL_CROP"

definition replaySellCrop :: "codec \<Rightarrow> ws_request \<Rightarrow> idempotency_result \<Rightarrow> int \<Rightarrow> ws_response" where
  "replaySellCrop C = replayStored C SELL_CROP"

text \<open>Taking \<open>sold\<close> of \<open>current\<close> items: an emptied stack is deleted, and the patch says so.\<close>

definition take_items :: "u32 \<Rightarrow> u32 \<Rightarrow> (u32, u32) fmap \<Rightarrow> (u32, u32) fmap" where
  "take_items i remaining m = (if remaining = 0 then fmdrop i m else fmupd i remaining m)"

definition take_patch :: "u32 \<Rightarrow> u32 \<Rightarrow> item_stack_view list \<times> u32 list" where
  "take_patch i remaining = (if remaining = 0 then ([], [i]) else ([ItemStackView i remaining], []))"

definition sellCropBody :: "config_snapshot \<Rightarrow> sell_request \<Rightarrow> state \<Rightarrow> outcome" where
  "sellCropBody cfg sell s =
     (if sr_crop_item_id sell = 0 \<or> sr_expected_price_version sell = 0 \<or> \<not> validSellAmount sell
      then Failed (plain_error INVALID_ARGUMENT) s
      else case SellRule cfg (sr_crop_item_id sell) of
        None \<Rightarrow> Failed (plain_error ITEM_NOT_SELLABLE) s
      | Some rule \<Rightarrow>
          if \<not> sl_enabled rule then Failed (plain_error ITEM_NOT_SELLABLE) s
          else if sr_expected_price_version sell \<noteq> sl_price_version rule
          then Failed (plain_error PRICE_CHANGED) s
          else let currentQuantity = map_get (st_inventory s) (sr_crop_item_id sell);
                   soldQuantity = (if sell_all sell then currentQuantity else sell_quantity sell)
          in if soldQuantity = 0 \<or> soldQuantity > currentQuantity
          then Failed (plain_error INSUFFICIENT_ITEM_QUANTITY) s
          else if int (unat soldQuantity) > go_quo max_i64 (sl_unit_price rule)
          then Failed (retryable_error CONFIG_UNAVAILABLE) s
          else let totalPrice = to_i64 (int (unat soldQuantity) * sl_unit_price rule)
          in if st_coins s > to_i64 (max_i64 - totalPrice)
          then Failed (retryable_error CONFIG_UNAVAILABLE) s
          else let remaining = currentQuantity - soldQuantity;
                   tasks = add_progress 5 soldQuantity (st_tasks s);
                   s1 = s\<lparr>st_inventory := take_items (sr_crop_item_id sell) remaining (st_inventory s),
                     st_coins := to_i64 (st_coins s + totalPrice), st_tasks := tasks,
                     st_chapter := (if st_chapter s = IN_PROGRESS \<and> allTasksComplete tasks
                       then CLAIMABLE else st_chapter s)\<rparr>;
                   (upserts, removed) = take_patch (sr_crop_item_id sell) remaining
          in Done (SellCropResponse (sr_crop_item_id sell) soldQuantity (sl_unit_price rule) totalPrice
                 (PlayerStatePatch (Some (st_coins s1)) upserts removed [] (Some (chapterView s1)) None None))
               [] s1 {||})"

definition sellCrop ::
  "codec \<Rightarrow> u64 \<Rightarrow> ws_request \<Rightarrow> sell_request \<Rightarrow> config_snapshot \<Rightarrow> int \<Rightarrow> state \<Rightarrow> handler_result" where
  "sellCrop C caller req sell cfg now s =
     run_command C SELL_CROP (storeSellCropFailure C) (replaySellCrop C)
       (sellCropFingerprint caller req sell) caller req (cfg_version cfg) now
       (\<lambda>rid. sellCropBody cfg sell) s"

section \<open>Lemmas\<close>

lemma unat_add_u64: "unat (ucast (a :: u32) + ucast (b :: u32) :: u64) = unat a + unat b"
proof -
  have "unat a < 2 ^ 32" "unat b < 2 ^ 32"
    using unsigned_less [of a, where ?'a = nat] unsigned_less [of b, where ?'a = nat] by simp_all
  then show ?thesis by (simp add: unat_word_ariths unsigned_ucast_eq take_bit_nat_eq_self)
qed

lemma capped_progress:
  fixes cur q tgt :: u32
  defines "n \<equiv> ucast cur + ucast q :: u64"
  shows "unat (ucast (if n > ucast tgt then ucast tgt else n) :: u32) = min (unat cur + unat q) (unat tgt)"
proof -
  have n: "unat n = unat cur + unat q" by (simp add: n_def unat_add_u64)
  have t: "unat (ucast tgt :: u64) = unat tgt" "unat tgt < 2 ^ 32"
    using unsigned_less [of tgt, where ?'a = nat] by (simp_all add: unsigned_ucast_eq take_bit_nat_eq_self)
  then show ?thesis
    by (auto simp: n word_less_nat_alt unsigned_ucast_eq take_bit_nat_eq_self min_def)
qed

lemma add_progress_ok: "\<forall>t \<in> set ts. task_ok t \<Longrightarrow> t \<in> set (add_progress i q ts) \<Longrightarrow> task_ok t"
proof (induction ts)
  case (Cons a ts)
  show ?case
  proof (cases "tk_id a = i")
    case True
    then have "t \<in> set ts \<or> t = a\<lparr>tk_current := ucast (if (ucast (tk_current a) + ucast q :: u64) > ucast (tk_target a)
        then ucast (tk_target a) else ucast (tk_current a) + ucast q :: u64)\<rparr>"
      using Cons.prems(2) by (auto simp: Let_def)
    then show ?thesis
      using Cons.prems(1) capped_progress [of "tk_target a" "tk_current a" q]
      by (auto simp: task_ok_def word_le_nat_alt simp del: of_nat_add)
  next
    case False
    then show ?thesis using Cons by auto
  qed
qed simp

lemma add_progress_ids [simp]: "map tk_id (add_progress i q ts) = map tk_id ts"
  by (induction ts) (simp_all add: Let_def)

lemma add_progress_targets [simp]: "map tk_target (add_progress i q ts) = map tk_target ts"
  by (induction ts) (simp_all add: Let_def)

lemma count_task_ok: "\<forall>t \<in> set ts. task_ok t \<Longrightarrow> t \<in> set (count_task i ts) \<Longrightarrow> task_ok t"
proof (induction ts)
  case (Cons a ts)
  have "tk_current a < tk_target a \<Longrightarrow> tk_current a + 1 \<le> tk_target a"
    by (rule inc_le)
  then show ?case using Cons by (auto simp: task_ok_def split: if_splits)
qed simp

lemma price_exact:
  assumes "0 < price" "int n \<le> go_quo max_i64 price"
  shows "to_i64 (int n * price) = int n * price" "0 \<le> int n * price" "int n * price \<le> max_i64"
proof -
  have "int n \<le> max_i64 div price" using assms by (simp add: go_quo_pos max_i64_def)
  then have "int n * price \<le> max_i64 div price * price" using assms(1) by (simp add: mult_right_mono)
  also have "\<dots> \<le> max_i64"
    using div_mult_mod_eq [of max_i64 price] pos_mod_sign [OF assms(1), of max_i64] by linarith
  finally show "int n * price \<le> max_i64" .
  show "0 \<le> int n * price" using assms(1) by simp
  with \<open>int n * price \<le> max_i64\<close> show "to_i64 (int n * price) = int n * price"
    by (intro to_i64_id in_i64_nonneg)
qed

lemma stack_add:
  fixes a b :: u32
  assumes "unat a + unat b \<le> 300"
  shows "unat (a + b) = unat a + unat b" "a + b \<le> 300" "b \<noteq> 0 \<Longrightarrow> 0 < a + b"
proof -
  show u: "unat (a + b) = unat a + unat b" using unat_add_bounded [of a b 300] assms by simp
  show "a + b \<le> 300" using u assms by (simp add: word_le_nat_alt)
  assume "b \<noteq> 0"
  then have "unat b \<noteq> 0" by (simp add: unat_eq_zero)
  then show "0 < a + b" using u by (simp add: word_less_nat_alt)
qed

lemma config_ok_shop:
  "config_ok c \<Longrightarrow> ShopEntry c i = Some e \<Longrightarrow> se_item_id e \<noteq> 0 \<and> 0 < se_unit_price e"
  using config_lookup(1) by (fastforce simp: shop_entry_valid_def not_le)

lemma config_ok_sell:
  "config_ok c \<Longrightarrow> SellRule c i = Some r \<Longrightarrow> sl_item_id r = i \<and> 0 < sl_unit_price r"
  using config_lookup(7) by (fastforce simp: sell_rule_valid_def not_le)

text \<open>What a successful purchase is, for both shops.\<close>

lemma buySeeds_Done:
  assumes "config_ok cfg" "buySeedsBody cfg buy s = Done p obx s1 ch"
  obtains e where "ShopEntry cfg (br_shop_entry_id buy) = Some e" "se_enabled e"
    "se_item_id e \<noteq> BasicFertilizerID" "PetFood cfg (se_item_id e) = None"
    "br_expected_price_version buy = se_price_version e" "0 < br_quantity buy" "br_quantity buy \<le> 50"
    "int (unat (br_quantity buy)) * se_unit_price e \<le> st_coins s"
    "0 \<le> int (unat (br_quantity buy)) * se_unit_price e"
    "unat (map_get (st_inventory s) (se_item_id e)) + unat (br_quantity buy) \<le> 300"
    "s1 = s\<lparr>st_coins := to_i64 (st_coins s - int (unat (br_quantity buy)) * se_unit_price e),
       st_inventory := fmupd (se_item_id e) (map_get (st_inventory s) (se_item_id e) + br_quantity buy) (st_inventory s),
       st_tasks := add_progress 1 (br_quantity buy) (st_tasks s)\<rparr>"
    "p = BuySeedsResponse (br_shop_entry_id buy) (se_item_id e) (br_quantity buy) (se_unit_price e)
       (int (unat (br_quantity buy)) * se_unit_price e)
       (PlayerStatePatch (Some (st_coins s1))
         [ItemStackView (se_item_id e) (map_get (st_inventory s1) (se_item_id e))] [] [] (Some (chapterView s1)) None None)"
    "ch = {||}"
proof -
  obtain e where e: "ShopEntry cfg (br_shop_entry_id buy) = Some e"
    using assms(2) by (auto simp: buySeedsBody_def split: if_splits option.splits)
  have pr: "0 < se_unit_price e" using config_ok_shop [OF assms(1) e] by simp
  have g: "int (unat (br_quantity buy)) \<le> go_quo max_i64 (se_unit_price e)"
    using assms(2) e by (auto simp: buySeedsBody_def split: if_splits)
  note exact = price_exact [OF pr g]
  show thesis
    by (rule that [OF e])
      (use assms(2) e exact in \<open>auto simp: buySeedsBody_def Let_def word_neq_0_conv not_less split: if_splits\<close>)
qed

lemma buyFertilizer_Done:
  assumes "config_ok cfg" "buyFertilizerBody cfg buy s = Done p obx s1 ch"
  obtains e where "ShopEntry cfg (br_shop_entry_id buy) = Some e" "se_enabled e"
    "se_item_id e = BasicFertilizerID"
    "br_expected_price_version buy = se_price_version e" "0 < br_quantity buy" "br_quantity buy \<le> 50"
    "int (unat (br_quantity buy)) * se_unit_price e \<le> st_coins s"
    "0 \<le> int (unat (br_quantity buy)) * se_unit_price e"
    "unat (map_get (st_inventory s) (se_item_id e)) + unat (br_quantity buy) \<le> 300"
    "s1 = s\<lparr>st_coins := to_i64 (st_coins s - int (unat (br_quantity buy)) * se_unit_price e),
       st_inventory := fmupd (se_item_id e) (map_get (st_inventory s) (se_item_id e) + br_quantity buy) (st_inventory s)\<rparr>"
    "p = BuyFertilizerResponse (br_shop_entry_id buy) (se_item_id e) (br_quantity buy) (se_unit_price e)
       (int (unat (br_quantity buy)) * se_unit_price e)
       (PlayerStatePatch (Some (st_coins s1))
         [ItemStackView (se_item_id e) (map_get (st_inventory s1) (se_item_id e))] [] [] (Some (chapterView s1)) None None)"
    "ch = {||}"
proof -
  obtain e where e: "ShopEntry cfg (br_shop_entry_id buy) = Some e"
    using assms(2) by (auto simp: buyFertilizerBody_def split: if_splits option.splits)
  have pr: "0 < se_unit_price e" using config_ok_shop [OF assms(1) e] by simp
  have g: "int (unat (br_quantity buy)) \<le> go_quo max_i64 (se_unit_price e)"
    using assms(2) e by (auto simp: buyFertilizerBody_def split: if_splits)
  note exact = price_exact [OF pr g]
  show thesis
    by (rule that [OF e])
      (use assms(2) e exact in \<open>auto simp: buyFertilizerBody_def Let_def word_neq_0_conv not_less split: if_splits\<close>)
qed

definition sold_quantity :: "sell_request \<Rightarrow> state \<Rightarrow> u32" where
  "sold_quantity sell s =
     (if sell_all sell then map_get (st_inventory s) (sr_crop_item_id sell) else sell_quantity sell)"

lemma sellCrop_Done:
  assumes "config_ok cfg" "0 \<le> st_coins s" "sellCropBody cfg sell s = Done p obx s1 ch"
  obtains r where "SellRule cfg (sr_crop_item_id sell) = Some r" "sl_enabled r"
    "sr_expected_price_version sell = sl_price_version r" "sr_crop_item_id sell \<noteq> 0"
    "0 < sold_quantity sell s" "sold_quantity sell s \<le> map_get (st_inventory s) (sr_crop_item_id sell)"
    "0 \<le> int (unat (sold_quantity sell s)) * sl_unit_price r"
    "st_coins s + int (unat (sold_quantity sell s)) * sl_unit_price r \<le> max_i64"
    "s1 = s\<lparr>st_inventory := take_items (sr_crop_item_id sell)
         (map_get (st_inventory s) (sr_crop_item_id sell) - sold_quantity sell s) (st_inventory s),
       st_coins := st_coins s + int (unat (sold_quantity sell s)) * sl_unit_price r,
       st_tasks := add_progress 5 (sold_quantity sell s) (st_tasks s),
       st_chapter := (if st_chapter s = IN_PROGRESS \<and> allTasksComplete (add_progress 5 (sold_quantity sell s) (st_tasks s))
         then CLAIMABLE else st_chapter s)\<rparr>"
    "\<exists>ups rem. take_patch (sr_crop_item_id sell)
         (map_get (st_inventory s) (sr_crop_item_id sell) - sold_quantity sell s) = (ups, rem) \<and>
       p = SellCropResponse (sr_crop_item_id sell) (sold_quantity sell s) (sl_unit_price r)
         (int (unat (sold_quantity sell s)) * sl_unit_price r)
         (PlayerStatePatch (Some (st_coins s1)) ups rem [] (Some (chapterView s1)) None None)"
    "ch = {||}"
proof -
  obtain r where r: "SellRule cfg (sr_crop_item_id sell) = Some r"
    using assms(3) by (auto simp: sellCropBody_def split: if_splits option.splits)
  have pr: "0 < sl_unit_price r" using config_ok_sell [OF assms(1) r] by simp
  have g: "int (unat (sold_quantity sell s)) \<le> go_quo max_i64 (sl_unit_price r)"
    using assms(3) r by (auto simp: sellCropBody_def Let_def sold_quantity_def split: if_splits)
  let ?tp = "int (unat (sold_quantity sell s)) * sl_unit_price r"
  note exact = price_exact [OF pr g]
  have "to_i64 (max_i64 - ?tp) = max_i64 - ?tp" using exact by (intro to_i64_id) (simp add: in_i64_def)
  then have le: "st_coins s + ?tp \<le> max_i64"
    using assms(3) r exact by (auto simp: sellCropBody_def Let_def sold_quantity_def split: if_splits)
  then have add: "to_i64 (st_coins s + ?tp) = st_coins s + ?tp"
    using assms(2) exact by (intro to_i64_id) (simp add: in_i64_def)
  show thesis
    by (rule that [OF r])
      (use assms(3) r exact le add in
        \<open>auto simp: sellCropBody_def Let_def sold_quantity_def word_neq_0_conv not_less split: if_splits prod.splits\<close>)
qed

lemma take_items_ok:
  "inventory_ok m \<Longrightarrow> i \<noteq> 0 \<Longrightarrow> rest \<le> 300 \<Longrightarrow> inventory_ok (take_items i rest m)"
  by (auto simp: take_items_def word_neq_0_conv intro: inventory_ok_upd inventory_ok_drop)

lemma take_items_get: "map_get (take_items i rest m) = (map_get m)(i := rest)"
  by (auto simp: take_items_def map_get_fun_upd map_get_fun_drop)

lemma take_patch_apply:
  "take_patch i rest = (ups, rem) \<Longrightarrow>
     fold (\<lambda>i m. m(i := 0)) rem (fold (\<lambda>v m. m(isv_item_id v := isv_quantity v)) ups f) = f(i := rest)"
  by (auto simp: take_patch_def split: if_splits)

lemma word_sub_le: "(a :: u32) \<le> b \<Longrightarrow> b - a \<le> b"
  by (simp add: word_le_nat_alt unat_sub)

section \<open>Interpretations\<close>

interpretation buy_seeds: synced_command BUY_SEEDS
  "\<lambda>C caller req cfg now rid. buySeedsBody cfg buy" "\<lambda>caller req. buySeedsFingerprint caller req buy"
  "\<lambda>C caller req. buySeeds C caller req buy" for buy
proof (unfold_locales, goal_cases)
  case (1 C caller req cfg now s)
  then show ?case by (simp add: buySeeds_def storeBuySeedsFailure_def replayBuySeeds_def)
next
  case (2 C caller req cfg now rid s e s1)
  then show ?case by (auto simp: buySeedsBody_def Let_def split: if_splits option.splits)
next
  case (3 C caller req cfg now rid s p obx s1 ch)
  then show ?case by (auto simp: buySeedsBody_def Let_def split: if_splits option.splits)
next
  case (4 C caller req cfg now rid s p obx s1 ch)
  then show ?case by (auto simp: buySeedsBody_def Let_def split: if_splits option.splits)
next
  case (5 s cfg now C caller req rid p obx s1 ch)
  then have c: "config_ok cfg" by (simp add: env_ok_def)
  show ?case
  proof (rule buySeeds_Done [OF c 5(3)])
    fix e
    assume e: "ShopEntry cfg (br_shop_entry_id buy) = Some e" "0 < br_quantity buy"
      "int (unat (br_quantity buy)) * se_unit_price e \<le> st_coins s"
      "0 \<le> int (unat (br_quantity buy)) * se_unit_price e"
      "unat (map_get (st_inventory s) (se_item_id e)) + unat (br_quantity buy) \<le> 300"
      "s1 = s\<lparr>st_coins := to_i64 (st_coins s - int (unat (br_quantity buy)) * se_unit_price e),
         st_inventory := fmupd (se_item_id e) (map_get (st_inventory s) (se_item_id e) + br_quantity buy) (st_inventory s),
         st_tasks := add_progress 1 (br_quantity buy) (st_tasks s)\<rparr>"
    have "state_ok (s\<lparr>st_coins := to_i64 (st_coins s - int (unat (br_quantity buy)) * se_unit_price e),
        st_inventory := fmupd (se_item_id e) (map_get (st_inventory s) (se_item_id e) + br_quantity buy) (st_inventory s)\<rparr>)"
      using config_ok_shop [OF c e(1)] e by (intro purchase_ok [OF 5(1)]) simp_all
    from state_ok_tasks [OF this] show "state_ok s1"
      using 5(1) add_progress_ok by (auto simp: e(6) state_ok_def)
  qed
next
  case (6 s C caller req cfg now rid p obx s1 ch)
  then show ?case
    by (auto simp: buySeedsBody_def Let_def map_get_fun_upd intro!: patch_coins_items
        split: if_splits option.splits)
next
  case (7 s C caller req cfg now rid p obx s1 ch)
  then show ?case
    by (auto simp: buySeedsBody_def Let_def unchanged_outside_def split: if_splits option.splits)
qed

interpretation buy_fertilizer: synced_command BUY_FERTILIZER
  "\<lambda>C caller req cfg now rid. buyFertilizerBody cfg buy" "\<lambda>caller req. buyFertilizerFingerprint caller req buy"
  "\<lambda>C caller req. buyFertilizer C caller req buy" for buy
proof (unfold_locales, goal_cases)
  case (1 C caller req cfg now s)
  then show ?case by (simp add: buyFertilizer_def storeBuyFertilizerFailure_def replayBuyFertilizer_def)
next
  case (2 C caller req cfg now rid s e s1)
  then show ?case by (auto simp: buyFertilizerBody_def Let_def split: if_splits option.splits)
next
  case (3 C caller req cfg now rid s p obx s1 ch)
  then show ?case by (auto simp: buyFertilizerBody_def Let_def split: if_splits option.splits)
next
  case (4 C caller req cfg now rid s p obx s1 ch)
  then show ?case by (auto simp: buyFertilizerBody_def Let_def split: if_splits option.splits)
next
  case (5 s cfg now C caller req rid p obx s1 ch)
  then have c: "config_ok cfg" by (simp add: env_ok_def)
  show ?case
  proof (rule buyFertilizer_Done [OF c 5(3)])
    fix e
    assume e: "ShopEntry cfg (br_shop_entry_id buy) = Some e" "0 < br_quantity buy"
      "int (unat (br_quantity buy)) * se_unit_price e \<le> st_coins s"
      "0 \<le> int (unat (br_quantity buy)) * se_unit_price e"
      "unat (map_get (st_inventory s) (se_item_id e)) + unat (br_quantity buy) \<le> 300"
      "s1 = s\<lparr>st_coins := to_i64 (st_coins s - int (unat (br_quantity buy)) * se_unit_price e),
         st_inventory := fmupd (se_item_id e) (map_get (st_inventory s) (se_item_id e) + br_quantity buy) (st_inventory s)\<rparr>"
    show "state_ok s1"
      unfolding e(6) using config_ok_shop [OF c e(1)] e by (intro purchase_ok [OF 5(1)]) simp_all
  qed
next
  case (6 s C caller req cfg now rid p obx s1 ch)
  then show ?case
    by (auto simp: buyFertilizerBody_def Let_def map_get_fun_upd intro!: patch_coins_items
        split: if_splits option.splits)
next
  case (7 s C caller req cfg now rid p obx s1 ch)
  then show ?case
    by (auto simp: buyFertilizerBody_def Let_def unchanged_outside_def split: if_splits option.splits)
qed

interpretation sell_crop: synced_command SELL_CROP
  "\<lambda>C caller req cfg now rid. sellCropBody cfg sell" "\<lambda>caller req. sellCropFingerprint caller req sell"
  "\<lambda>C caller req. sellCrop C caller req sell" for sell
proof (unfold_locales, goal_cases)
  case (1 C caller req cfg now s)
  then show ?case by (simp add: sellCrop_def storeSellCropFailure_def replaySellCrop_def)
next
  case (2 C caller req cfg now rid s e s1)
  then show ?case by (auto simp: sellCropBody_def Let_def split: if_splits option.splits prod.splits)
next
  case (3 C caller req cfg now rid s p obx s1 ch)
  then show ?case by (auto simp: sellCropBody_def Let_def split: if_splits option.splits prod.splits)
next
  case (4 C caller req cfg now rid s p obx s1 ch)
  then show ?case by (auto simp: sellCropBody_def Let_def split: if_splits option.splits prod.splits)
next
  case (5 s cfg now C caller req rid p obx s1 ch)
  then have c: "config_ok cfg" "0 \<le> st_coins s" by (simp_all add: env_ok_def state_ok_def)
  show ?case
  proof (rule sellCrop_Done [OF c 5(3)])
    fix r
    let ?rest = "map_get (st_inventory s) (sr_crop_item_id sell) - sold_quantity sell s"
    assume r: "sr_crop_item_id sell \<noteq> 0"
      "sold_quantity sell s \<le> map_get (st_inventory s) (sr_crop_item_id sell)"
      "0 \<le> int (unat (sold_quantity sell s)) * sl_unit_price r"
      "st_coins s + int (unat (sold_quantity sell s)) * sl_unit_price r \<le> max_i64"
      "s1 = s\<lparr>st_inventory := take_items (sr_crop_item_id sell) ?rest (st_inventory s),
         st_coins := st_coins s + int (unat (sold_quantity sell s)) * sl_unit_price r,
         st_tasks := add_progress 5 (sold_quantity sell s) (st_tasks s),
         st_chapter := (if st_chapter s = IN_PROGRESS \<and> allTasksComplete (add_progress 5 (sold_quantity sell s) (st_tasks s))
           then CLAIMABLE else st_chapter s)\<rparr>"
    have inv: "inventory_ok (st_inventory s)" using 5(1) by (simp add: state_ok_def)
    have "?rest \<le> 300"
      using inventory_ok_get [OF inv, of "sr_crop_item_id sell"] word_sub_le [OF r(2)] by (rule order_trans [rotated])
    then have "inventory_ok (st_inventory s1)"
      using take_items_ok [OF inv r(1)] by (simp add: r(5))
    then show "state_ok s1"
      using 5(1) r(3,4) add_progress_ok by (auto simp: state_ok_def r(5))
  qed
next
  case (6 s C caller req cfg now rid p obx s1 ch)
  then show ?case
    by (auto simp: sellCropBody_def Let_def take_items_get take_patch_apply intro!: patch_coins_items
        split: if_splits option.splits prod.splits)
next
  case (7 s C caller req cfg now rid p obx s1 ch)
  then show ?case
    by (auto simp: sellCropBody_def Let_def unchanged_outside_def split: if_splits option.splits prod.splits)
qed

lemma load_sell_rules_mono:
  "load_sell_rules rs ids m = Some m' \<Longrightarrow> fmlookup m k = Some x \<Longrightarrow> fmlookup m' k = Some x"
proof (induction rs arbitrary: ids m)
  case (Cons r rs)
  then show ?case
    by (intro Cons.IH [of "finsert (sl_shop_entry_id r) ids" "fmupd (sl_item_id r) r m"]) (auto split: if_splits)
qed simp

lemma load_sell_rules_range:
  "load_sell_rules rs ids m = Some m' \<Longrightarrow> fmlookup m' k = Some x \<Longrightarrow> fmlookup m k = Some x \<or> x \<in> set rs"
proof (induction rs arbitrary: ids m)
  case (Cons r rs)
  then have "load_sell_rules rs (finsert (sl_shop_entry_id r) ids) (fmupd (sl_item_id r) r m) = Some m'"
    by (auto split: if_splits)
  from Cons.IH [OF this Cons.prems(2)] show ?case by (auto split: if_splits)
qed simp

lemma load_sell_rules_lookup:
  "load_sell_rules rs ids m = Some m' \<Longrightarrow> x \<in> set rs \<Longrightarrow> fmlookup m' (sl_item_id x) = Some x"
proof (induction rs arbitrary: ids m)
  case (Cons r rs)
  then have step: "load_sell_rules rs (finsert (sl_shop_entry_id r) ids) (fmupd (sl_item_id r) r m) = Some m'"
    by (auto split: if_splits)
  show ?case
  proof (cases "x \<in> set rs")
    case True
    then show ?thesis by (rule Cons.IH [OF step])
  next
    case False
    then have "x = r" using Cons.prems(2) by simp
    then show ?thesis using load_sell_rules_mono [OF step, of "sl_item_id x" x] by simp
  qed
qed simp

section \<open>Properties\<close>

text \<open>When a purchase is due, and what it does, in terms of the account.\<close>

definition purchasable :: "config_snapshot \<Rightarrow> buy_request \<Rightarrow> account \<Rightarrow> shop_entry \<Rightarrow> bool" where
  "purchasable cfg buy a e \<longleftrightarrow>
     0 < br_quantity buy \<and> br_quantity buy \<le> 50 \<and> ShopEntry cfg (br_shop_entry_id buy) = Some e \<and>
     se_enabled e \<and> br_expected_price_version buy = se_price_version e \<and>
     int (unat (br_quantity buy)) * se_unit_price e \<le> acc_coins a \<and>
     acc_item a (se_item_id e) + unat (br_quantity buy) \<le> 300"

definition purchase :: "buy_request \<Rightarrow> shop_entry \<Rightarrow> account \<Rightarrow> account" where
  "purchase buy e a = gain (se_item_id e) (unat (br_quantity buy)) (pay (int (unat (br_quantity buy)) * se_unit_price e) a)"

lemma price_guard:
  assumes "0 < price" "int n * price \<le> max_i64"
  shows "int n \<le> go_quo max_i64 price"
proof -
  have "int n * price div price \<le> max_i64 div price" using assms by (intro zdiv_mono1) auto
  then show ?thesis using assms(1) by (simp add: go_quo_pos max_i64_def)
qed

lemma buySeeds_Done_iff:
  assumes "config_ok cfg" "state_ok s"
  shows "(\<exists>p obx s1 ch. buySeedsBody cfg buy s = Done p obx s1 ch) \<longleftrightarrow>
    (\<exists>e. purchasable cfg buy (account_of s) e \<and> se_item_id e \<noteq> BasicFertilizerID \<and> PetFood cfg (se_item_id e) = None)"
    (is "?l \<longleftrightarrow> ?r")
proof
  assume ?l
  then obtain p obx s1 ch where d: "buySeedsBody cfg buy s = Done p obx s1 ch" by blast
  show ?r
    by (rule buySeeds_Done [OF assms(1) d]) (auto simp: purchasable_def account_of_def)
next
  assume ?r
  then obtain e where e: "purchasable cfg buy (account_of s) e" "se_item_id e \<noteq> BasicFertilizerID"
    "PetFood cfg (se_item_id e) = None" by blast
  have pr: "0 < se_unit_price e" using e(1) config_ok_shop [OF assms(1)] by (auto simp: purchasable_def)
  have "int (unat (br_quantity buy)) * se_unit_price e \<le> max_i64"
    using e(1) assms(2) by (auto simp: purchasable_def account_of_def state_ok_def)
  note g = price_guard [OF pr this]
  show ?l
    using e g price_exact(1) [OF pr g]
    by (auto simp: buySeedsBody_def purchasable_def account_of_def Let_def not_less word_neq_0_conv)
qed

lemma buySeeds_account:
  assumes "config_ok cfg" "state_ok s" "buySeedsBody cfg buy s = Done p obx s1 ch"
    "ShopEntry cfg (br_shop_entry_id buy) = Some e"
  shows "account_of s1 = purchase buy e (account_of s)"
proof (rule buySeeds_Done [OF assms(1,3)])
  fix e'
  assume e': "ShopEntry cfg (br_shop_entry_id buy) = Some e'"
    "int (unat (br_quantity buy)) * se_unit_price e' \<le> st_coins s"
    "0 \<le> int (unat (br_quantity buy)) * se_unit_price e'"
    "unat (map_get (st_inventory s) (se_item_id e')) + unat (br_quantity buy) \<le> 300"
    "s1 = s\<lparr>st_coins := to_i64 (st_coins s - int (unat (br_quantity buy)) * se_unit_price e'),
       st_inventory := fmupd (se_item_id e') (map_get (st_inventory s) (se_item_id e') + br_quantity buy) (st_inventory s),
       st_tasks := add_progress 1 (br_quantity buy) (st_tasks s)\<rparr>"
  have "in_i64 (st_coins s - int (unat (br_quantity buy)) * se_unit_price e')"
    using assms(2) e'(2,3) by (simp add: state_ok_def in_i64_def)
  then show ?thesis
    using e' assms(4) stack_add(1) [OF e'(4)]
    by (auto simp: account_of_def purchase_def map_simps fun_eq_iff)
qed


lemma dev_shop_entry:
  "ShopEntry dev_config 5001 = Some \<lparr>se_id = 5001, se_item_id = 1001, se_unit_price = 2, se_price_version = 8, se_enabled = True\<rparr>"
proof -
  let ?e = "\<lparr>se_id = 5001, se_item_id = 1001, se_unit_price = 2, se_price_version = 8, se_enabled = True\<rparr>"
  have "?e \<in> set development_shop_entries" by (simp add: development_shop_entries_def)
  from load_section_lookup [OF dev_parts(3) this] show ?thesis by (simp add: ShopEntry_def)
qed

lemma dev_pet_food: "PetFood dev_config i =
    (if i = 1004 then Some \<lparr>pf_item_id = 1004, pf_duration_seconds = 86400, pf_config_version = 2, pf_enabled = True\<rparr> else None)"
proof -
  have "cfg_pet_food dev_config = fmupd 1004
      \<lparr>pf_item_id = 1004, pf_duration_seconds = 86400, pf_config_version = 2, pf_enabled = True\<rparr> fmempty"
    using dev_parts(10) by (simp add: pet_food_valid_def ServerConfigVersion_def)
  then show ?thesis by (simp add: PetFood_def)
qed

lemma dev_sell_rule:
  "SellRule dev_config 1002 = Some \<lparr>sl_shop_entry_id = 5002, sl_item_id = 1002, sl_unit_price = 5, sl_price_version = 9, sl_enabled = True\<rparr>"
proof -
  let ?r = "\<lparr>sl_shop_entry_id = 5002, sl_item_id = 1002, sl_unit_price = 5, sl_price_version = 9, sl_enabled = True\<rparr>"
  have "?r \<in> set development_sell_rules" by (simp add: development_sell_rules_def)
  from load_sell_rules_lookup [OF dev_parts(11) this] show ?thesis by (simp add: SellRule_def)
qed

lemma dev_range: "config_range dev_config"
proof -
  have "\<forall>x \<in> set development_crops. cc_maturity_scaled9 x \<le> max_i64 \<and> cc_base_rate_scaled6 x \<le> max_i64"
    by (simp add: development_crops_def developmentExtraCrops_def max_i64_def)
  moreover have "\<forall>x \<in> set development_shop_entries. se_unit_price x \<le> max_i64"
    by (simp add: development_shop_entries_def developmentExtraCrops_def max_i64_def)
  moreover have "\<forall>x \<in> set development_sell_rules. sl_unit_price x \<le> max_i64"
    by (simp add: development_sell_rules_def developmentExtraCrops_def max_i64_def)
  moreover have "fc_duration_ms x \<le> max_i64" if "fmlookup (cfg_fertilizers dev_config) i = Some x" for i x
    using load_section_range [OF dev_parts(7) that] by (simp add: max_i64_def)
  moreover have "ch_reward_coins x \<le> max_i64 \<and> (\<forall>t \<in> set (ch_tasks x). tk_current t \<le> tk_target t)"
    if "fmlookup (cfg_chapters dev_config) i = Some x" for i x
    using dev_chapter_lookup [of i] that by (auto simp: Chapter_def development_chapters_def max_i64_def split: if_splits)
  ultimately show ?thesis
    using load_section_range [OF dev_parts(4)] load_section_range [OF dev_parts(3)]
      load_sell_rules_range [OF dev_parts(11)]
    unfolding config_range_def by (metis fmempty_lookup option.distinct(1))
qed

lemma initial_account: "account_of (NewDevelopmentState p t) = Account 10 (\<lambda>i. if i = 1 then 1 else 0)"
  by (simp add: account_of_def NewDevelopmentState_def initial_consts map_get_def fun_eq_iff)

lemma dev_food: "food_ok dev_config 1000 empty_pet"
  unfolding food_ok_def
proof (intro allI impI)
  fix i f assume "fmlookup (cfg_pet_food dev_config) i = Some f"
  then have "unat (pf_duration_seconds f) = 86400" using dev_pet_food [of i] by (auto simp: PetFood_def split: if_splits)
  then show "max 1000 (pet_food_active_until_ms empty_pet) + int (unat (pf_duration_seconds f)) * 1000 \<le> max_i64"
    by (simp add: empty_pet_def max_i64_def)
qed

lemma dev_env: "env_ok dev_config 1000 (NewDevelopmentState 7 1000)"
proof -
  have "clock_ok (NewDevelopmentState 7 1000) 1000"
    by (auto simp: clock_ok_def NewDevelopmentState_def newInitialPlots_lookup empty_plot_def split: if_splits)
  then show ?thesis by (simp add: env_ok_def dev_config_ok dev_range dev_food max_i64_def)
qed


text \<open>When a sale is due, and what it does.\<close>

definition sellable :: "config_snapshot \<Rightarrow> sell_request \<Rightarrow> state \<Rightarrow> sell_rule \<Rightarrow> bool" where
  "sellable cfg sell s r \<longleftrightarrow>
     sr_crop_item_id sell \<noteq> 0 \<and> sr_expected_price_version sell \<noteq> 0 \<and> validSellAmount sell \<and>
     SellRule cfg (sr_crop_item_id sell) = Some r \<and> sl_enabled r \<and>
     sr_expected_price_version sell = sl_price_version r \<and>
     0 < unat (sold_quantity sell s) \<and> unat (sold_quantity sell s) \<le> acc_item (account_of s) (sr_crop_item_id sell) \<and>
     st_coins s + int (unat (sold_quantity sell s)) * sl_unit_price r \<le> max_i64"

lemma unat_pos_iff: "0 < unat (x :: u32) \<longleftrightarrow> x \<noteq> 0"
  using unat_eq_zero [of x] by auto

lemma sellCrop_Done_iff:
  assumes "config_ok cfg" "state_ok s"
  shows "(\<exists>p obx s1 ch. sellCropBody cfg sell s = Done p obx s1 ch) \<longleftrightarrow> (\<exists>r. sellable cfg sell s r)"
    (is "?l \<longleftrightarrow> ?r")
proof
  assume ?l
  then obtain p obx s1 ch where d: "sellCropBody cfg sell s = Done p obx s1 ch" by blast
  have c: "0 \<le> st_coins s" using assms(2) by (simp add: state_ok_def)
  have v: "validSellAmount sell" "sr_expected_price_version sell \<noteq> 0"
    using d by (auto simp: sellCropBody_def split: if_splits)
  show ?r
    by (rule sellCrop_Done [OF assms(1) c d])
      (use v in \<open>auto simp: sellable_def account_of_def word_le_nat_alt unat_pos_iff\<close>)
next
  assume ?r
  then obtain r where r: "sellable cfg sell s r" by blast
  have pr: "0 < sl_unit_price r" using r config_ok_sell [OF assms(1)] by (auto simp: sellable_def)
  have c: "0 \<le> st_coins s" using assms(2) by (simp add: state_ok_def)
  let ?tp = "int (unat (sold_quantity sell s)) * sl_unit_price r"
  have "?tp \<le> max_i64" using r c by (auto simp: sellable_def)
  note g = price_guard [OF pr this]
  have "to_i64 (max_i64 - ?tp) = max_i64 - ?tp"
    using price_exact [OF pr g] by (intro to_i64_id) (simp add: in_i64_def)
  then show ?l
    using r g price_exact(1) [OF pr g]
    by (auto simp: sellCropBody_def sellable_def account_of_def Let_def not_less unat_pos_iff word_le_nat_alt
        sold_quantity_def take_patch_def split: if_splits)
qed

lemma sellCrop_account:
  assumes "config_ok cfg" "state_ok s" "sellCropBody cfg sell s = Done p obx s1 ch"
    "SellRule cfg (sr_crop_item_id sell) = Some r"
  shows "account_of s1 = spend (sr_crop_item_id sell) (unat (sold_quantity sell s))
      (pay (- (int (unat (sold_quantity sell s)) * sl_unit_price r)) (account_of s))" "st_plots s1 = st_plots s"
    "st_chapter s1 = (if st_chapter s = IN_PROGRESS \<and> allTasksComplete (st_tasks s1) then CLAIMABLE else st_chapter s)"
proof -
  have c: "0 \<le> st_coins s" using assms(2) by (simp add: state_ok_def)
  show "account_of s1 = spend (sr_crop_item_id sell) (unat (sold_quantity sell s))
      (pay (- (int (unat (sold_quantity sell s)) * sl_unit_price r)) (account_of s))" "st_plots s1 = st_plots s"
    "st_chapter s1 = (if st_chapter s = IN_PROGRESS \<and> allTasksComplete (st_tasks s1) then CLAIMABLE else st_chapter s)"
    by (rule sellCrop_Done [OF assms(1) c assms(3)];
        use assms(4) in \<open>auto simp: account_of_def take_items_get fun_eq_iff unat_sub\<close>)+
qed

text \<open>
  A fresh \<open>SELL_CROP\<close> succeeds exactly when the item has an enabled rule at the expected price
  version, the amount is valid and owned, and the proceeds fit an \<open>int64\<close>; then exactly the sold
  quantity leaves the account (everything, for \<open>sell_all\<close>) and exactly quantity times price is
  earned, and the chapter becomes claimable precisely when all its tasks are complete.
\<close>

theorem sellCrop_exact:
  assumes "state_ok s" "env_ok cfg now s" "parseRequestID (req_request_id req) = Some rid"
    "find_stored caller rid (st_recent_results s) = None"
    "sellCrop C caller req sell cfg now s = (resp, dirty, ch, s')"
  shows "(resp_error resp = None \<longleftrightarrow> (\<exists>r. sellable cfg sell s r)) \<and>
    (\<forall>r. resp_error resp = None \<and> SellRule cfg (sr_crop_item_id sell) = Some r \<longrightarrow>
      account_of s' = spend (sr_crop_item_id sell) (unat (sold_quantity sell s))
        (pay (- (int (unat (sold_quantity sell s)) * sl_unit_price r)) (account_of s)) \<and>
      st_plots s' = st_plots s \<and>
      st_chapter s' = (if st_chapter s = IN_PROGRESS \<and> allTasksComplete (st_tasks s') then CLAIMABLE else st_chapter s))"
proof -
  have c: "config_ok cfg" using assms(2) by (simp add: env_ok_def)
  note f = sell_crop.fresh_handler [OF assms(3-5)]
  have "account_of s' = spend (sr_crop_item_id sell) (unat (sold_quantity sell s))
        (pay (- (int (unat (sold_quantity sell s)) * sl_unit_price r)) (account_of s)) \<and>
      st_plots s' = st_plots s \<and>
      st_chapter s' = (if st_chapter s = IN_PROGRESS \<and> allTasksComplete (st_tasks s') then CLAIMABLE else st_chapter s)"
    if ok: "resp_error resp = None" and r: "SellRule cfg (sr_crop_item_id sell) = Some r" for r
  proof -
    obtain p obx s1 ch1 where d: "sellCropBody cfg sell s = Done p obx s1 ch1" using f(2) ok by blast
    show ?thesis
      using f(3) [OF d] sellCrop_account [OF c assms(1) d r] by simp
  qed
  then show ?thesis using f(2) sellCrop_Done_iff [OF c assms(1)] by blast
qed

definition seller :: state where
  "seller = (NewDevelopmentState 7 1000)\<lparr>st_inventory := fmupd 1002 3 fmempty\<rparr>"

lemma seller_ok: "state_ok seller" "env_ok dev_config 1000 seller"
  using initial_state_ok [of 7 1000] dev_env
  by (auto simp: seller_def state_ok_def inventory_ok_def env_ok_def clock_ok_def)

theorem sellCrop_exact_witness:
  "resp_error (fst (sellCrop ref_codec 7 (sample_request SELL_CROP (SellRequest (SellCropRequest 1002 9 (AmountQuantity 2))))
     (SellCropRequest 1002 9 (AmountQuantity 2)) dev_config 1000 seller)) = None"
proof -
  let ?r = "sellCrop ref_codec 7 (sample_request SELL_CROP (SellRequest (SellCropRequest 1002 9 (AmountQuantity 2))))
     (SellCropRequest 1002 9 (AmountQuantity 2)) dev_config 1000 seller"
  obtain resp dirty ch s' where r: "?r = (resp, dirty, ch, s')" by (metis prod.exhaust)
  have "sellable dev_config (SellCropRequest 1002 9 (AmountQuantity 2)) seller
      \<lparr>sl_shop_entry_id = 5002, sl_item_id = 1002, sl_unit_price = 5, sl_price_version = 9, sl_enabled = True\<rparr>"
    by (simp add: sellable_def dev_sell_rule seller_def sold_quantity_def sell_all_def sell_quantity_def
        account_of_def map_get_def NewDevelopmentState_def initial_consts max_i64_def)
  moreover have "find_stored 7 (replicate 16 1) (st_recent_results seller) = None"
    by (simp add: find_stored_def seller_def NewDevelopmentState_def)
  ultimately show ?thesis
    using sellCrop_exact [OF seller_ok _ _ r, of "replicate 16 1"] unfolding r by auto
qed

definition collector :: state where
  "collector = (NewDevelopmentState 7 1000)\<lparr>st_inventory := fmap_of_list (map (\<lambda>n. (of_nat n, 1)) [1 ..< 101])\<rparr>"

text \<open>
  \<open>buySeeds\<close> does not enforce the limit of 100 item types that \<open>harvest\<close> and the chapter reward
  respect and that \<open>ValidateCheckpoint\<close> demands: there is a well-formed state with exactly 100 types
  on which a purchase succeeds and leaves 101 types, a state that can no longer be checkpointed.
\<close>

theorem buySeeds_exceeds_type_limit:
  "state_ok collector \<and> map_len (st_inventory collector) = 100 \<and>
   (\<exists>p obx s1 ch. buySeedsBody dev_config (BuyRequest 5001 1 8) collector = Done p obx s1 ch \<and>
      map_len (st_inventory s1) = 101)"
proof (intro conjI)
  have look: "fmlookup (st_inventory collector) i = Some q \<Longrightarrow> q = 1 \<and> i \<in> of_nat ` {1 ..< 101}" for i q
    by (simp add: collector_def fmlookup_of_list) (drule map_of_SomeD, auto)
  have ne: "i \<noteq> 0 \<and> i \<noteq> 1001" if mem: "i \<in> of_nat ` {1 ..< 101}" for i :: u32
  proof -
    obtain n where n: "n < 101" "1 \<le> n" "i = of_nat n" using mem by auto
    then have "unat i = n" by (simp add: unat_of_nat)
    then show ?thesis using n by auto
  qed
  have inv: "inventory_ok (st_inventory collector)"
    using look ne by (fastforce simp: inventory_ok_def)
  then show "state_ok collector"
    using initial_state_ok [of 7 1000] by (simp add: state_ok_def collector_def)
  have inj: "inj_on (of_nat :: nat \<Rightarrow> u32) {1 ..< 101}"
    by (rule inj_on_inverseI [of _ unat]) (simp add: unat_of_nat)
  have "map_len (st_inventory collector) = card ((of_nat :: nat \<Rightarrow> u32) ` {1 ..< 101})"
    by (simp add: map_len_def collector_def fcard.rep_eq fset_of_list.rep_eq)
  then show len: "map_len (st_inventory collector) = 100"
    using card_image [OF inj] by simp
  have none: "fmlookup (st_inventory collector) 1001 = None"
    using look [of 1001] ne [of 1001] by (cases "fmlookup (st_inventory collector) 1001") blast+
  then have dom: "1001 |\<notin>| fmdom (st_inventory collector)" by (rule fmdom_notI)
  show "\<exists>p obx s1 ch. buySeedsBody dev_config (BuyRequest 5001 1 8) collector = Done p obx s1 ch \<and>
      map_len (st_inventory s1) = 101"
    using none dom len
    by (simp add: buySeedsBody_def dev_shop_entry dev_pet_food initial_consts map_get_def Let_def map_simps
        go_quo_def to_i64_def max_i64_def)
      (simp add: collector_def NewDevelopmentState_def initial_consts)
qed

end
