(* ===== verification/Farming.thy ===== *)
theory Farming
  imports Shop
begin

text \<open>
  The commands of the crop cycle: \<open>plant\<close>, \<open>applyFertilizer\<close>, \<open>catchPest\<close> (the owner's own pest),
  \<open>harvest\<close> and \<open>cleanPlot\<close>, from the files of the same names (\<open>fertilizer.go\<close>,
  \<open>owner_catch_pest.go\<close>, \<open>clean_plot.go\<close>). The plot map holds pointers in Go; a handler mutates the
  plot in place and restores the clone it took when it fails later, so a failing body leaves the state
  as it was.
\<close>

section \<open>Planting\<close>

definition plantFingerprint :: "u64 \<Rightarrow> ws_request \<Rightarrow> u32 \<Rightarrow> u32 \<Rightarrow> bytes" where
  "plantFingerprint caller req plotId seedItemId =
     sha256 (fingerprint_head caller req @ be32 plotId @ be32 seedItemId)"

definition storePlantFailure ::
  "codec \<Rightarrow> ws_request \<Rightarrow> bytes \<Rightarrow> bytes \<Rightarrow> u64 \<Rightarrow> int \<Rightarrow> ws_error \<Rightarrow> state \<Rightarrow> ws_response \<times> state" where
  "storePlantFailure C = storeFailure C PLANT"

definition replayPlant :: "codec \<Rightarrow> ws_request \<Rightarrow> idempotency_result \<Rightarrow> int \<Rightarrow> ws_response" where
  "replayPlant C = replayStored C PLANT"

definition planted_plot :: "u32 \<Rightarrow> crop_config \<Rightarrow> int \<Rightarrow> int \<Rightarrow> plot" where
  "planted_plot i crop now estimate = (empty_plot i)\<lparr>pl_state := GROWING,
     pl_crop_id := cc_crop_id crop, pl_crop_item_id := cc_crop_item_id crop,
     pl_crop_config_version := cc_config_version crop, pl_planted_at_ms := now,
     pl_maturity_scaled9 := cc_maturity_scaled9 crop, pl_base_rate_scaled6 := cc_base_rate_scaled6 crop,
     pl_base_yield := cc_base_yield crop, pl_settled_scaled9 := 0, pl_last_settled_at_ms := now,
     pl_estimated_mature_at_ms := Some estimate, pl_steal_quantity := cc_steal_quantity crop,
     pl_max_steal_times := cc_max_steal_times crop,
     pl_protected_owner_yield := cc_protected_owner_yield crop\<rparr>"

definition plantBody :: "config_snapshot \<Rightarrow> u32 \<Rightarrow> u32 \<Rightarrow> int \<Rightarrow> state \<Rightarrow> outcome" where
  "plantBody cfg plotId seedItemId now s =
     (if plotId = 0 \<or> seedItemId = 0 then Failed (plain_error INVALID_ARGUMENT) s
      else case fmlookup (st_plots s) plotId of
        None \<Rightarrow> Failed (plain_error PLOT_NOT_FOUND) s
      | Some plot \<Rightarrow>
          if pl_state plot \<noteq> EMPTY then Failed (plot_error PLOT_STATE_CONFLICT (plotView plot)) s
          else case CropForSeed cfg seedItemId of
            None \<Rightarrow> Failed (retryable_error CONFIG_UNAVAILABLE) s
          | Some crop \<Rightarrow>
              if \<not> cc_enabled crop then Failed (plain_error CONFIG_ENTRY_DISABLED) s
              else let seedQuantity = map_get (st_inventory s) seedItemId
              in if seedQuantity = 0 then Failed (plain_error ITEM_NOT_OWNED) s
              else case estimateMatureAtMS now (cc_maturity_scaled9 crop) (cc_base_rate_scaled6 crop) of
                None \<Rightarrow> Failed (retryable_error CONFIG_UNAVAILABLE) s
              | Some estimate \<Rightarrow>
                  let plot' = planted_plot (pl_id plot) crop now estimate;
                      s1 = s\<lparr>st_inventory := (if seedQuantity = 1 then fmdrop seedItemId (st_inventory s)
                               else fmupd seedItemId (seedQuantity - 1) (st_inventory s)),
                             st_plots := fmupd plotId plot' (st_plots s),
                             st_tasks := count_task 2 (st_tasks s)\<rparr>;
                      (upserts, removed) = (if seedQuantity = 1 then ([], [seedItemId])
                               else ([ItemStackView seedItemId (seedQuantity - 1)], []))
                  in Done (PlantResponse seedItemId
                       (PlayerStatePatch None upserts removed [plotView plot'] (Some (chapterView s1)) None None))
                     [] s1 (PlotChanged {||} plotId))"

definition plant ::
  "codec \<Rightarrow> u64 \<Rightarrow> ws_request \<Rightarrow> u32 \<Rightarrow> u32 \<Rightarrow> config_snapshot \<Rightarrow> int \<Rightarrow> state \<Rightarrow> handler_result" where
  "plant C caller req plotId seedItemId cfg now s =
     run_command C PLANT (storePlantFailure C) (replayPlant C)
       (plantFingerprint caller req plotId seedItemId) caller req (cfg_version cfg) now
       (\<lambda>rid. plantBody cfg plotId seedItemId now) s"

section \<open>Fertilizing\<close>

definition fertilizerFingerprint :: "u64 \<Rightarrow> ws_request \<Rightarrow> u32 \<Rightarrow> u32 \<Rightarrow> bytes" where
  "fertilizerFingerprint caller req plotId fertilizerItemId =
     sha256 (fingerprint_head caller req @ be32 plotId @ be32 fertilizerItemId)"

definition fertilizerEffectID :: "u64 \<Rightarrow> bytes \<Rightarrow> bytes" where
  "fertilizerEffectID playerID requestID =
     uuid_of_digest (sha256 (str_bytes ''fertilizer-effect:'' @ be64 playerID @ requestID))"

definition storeFertilizerFailure ::
  "codec \<Rightarrow> ws_request \<Rightarrow> bytes \<Rightarrow> bytes \<Rightarrow> u64 \<Rightarrow> int \<Rightarrow> ws_error \<Rightarrow> state \<Rightarrow> ws_response \<times> state" where
  "storeFertilizerFailure C = storeFailure C APPLY_FERTILIZER"

definition replayFertilizer :: "codec \<Rightarrow> ws_request \<Rightarrow> idempotency_result \<Rightarrow> int \<Rightarrow> ws_response" where
  "replayFertilizer C = replayStored C APPLY_FERTILIZER"

definition fertilizer_effect :: "bytes \<Rightarrow> u32 \<Rightarrow> fertilizer_config \<Rightarrow> int \<Rightarrow> timed_effect" where
  "fertilizer_effect effectID itemId f now = \<lparr>eff_instance_id = effectID, eff_kind = FERTILIZER,
     eff_item_or_pest_id = itemId, eff_source_player_id = None, eff_config_version = fc_config_version f,
     eff_modifier = Some (fc_modifier_scaled6 f), eff_start_at_ms = now,
     eff_end_at_ms = to_i64 (now + fc_duration_ms f)\<rparr>"

text \<open>The part after the effect was put on the settled plot.\<close>

definition fertilizer_finish :: "u32 \<Rightarrow> u32 \<Rightarrow> u32 \<Rightarrow> bytes \<Rightarrow> plot \<Rightarrow> int \<Rightarrow> state \<Rightarrow> outcome" where
  "fertilizer_finish plotId itemId itemQuantity effectID plot1 now s =
     (case estimatePlotMatureAtMS plot1 now of
        None \<Rightarrow> Failed (retryable_error CONFIG_UNAVAILABLE) s
      | Some estimate \<Rightarrow>
          let plot2 = plot1\<lparr>pl_estimated_mature_at_ms := Some estimate\<rparr>;
              s1 = s\<lparr>st_plots := fmupd plotId plot2 (st_plots s),
                     st_inventory := (if itemQuantity = 1 then fmdrop itemId (st_inventory s)
                       else fmupd itemId (itemQuantity - 1) (st_inventory s)),
                     st_tasks := count_task 3 (st_tasks s)\<rparr>;
              (upserts, removed) = (if itemQuantity = 1 then ([], [itemId])
                       else ([ItemStackView itemId (itemQuantity - 1)], []))
          in Done (ApplyFertilizerResponse itemId (formatUUIDBytes effectID)
               (PlayerStatePatch None upserts removed [plotView plot2] (Some (chapterView s1)) None None))
             [] s1 (PlotChanged {||} plotId))"

definition fertilizerBody ::
  "config_snapshot \<Rightarrow> u64 \<Rightarrow> u32 \<Rightarrow> u32 \<Rightarrow> int \<Rightarrow> bytes \<Rightarrow> state \<Rightarrow> outcome" where
  "fertilizerBody cfg caller plotId itemId now rid s =
     (if plotId = 0 \<or> itemId = 0 then Failed (plain_error INVALID_ARGUMENT) s
      else case fmlookup (st_plots s) plotId of
        None \<Rightarrow> Failed (plain_error PLOT_NOT_FOUND) s
      | Some plot \<Rightarrow>
          if pl_state plot \<noteq> GROWING then Failed (plot_error PLOT_STATE_CONFLICT (plotView plot)) s
          else if (case pl_fertilizer_effect plot of None \<Rightarrow> False | Some e \<Rightarrow> now < eff_end_at_ms e)
          then Failed (plot_error FERTILIZER_ALREADY_ACTIVE (plotView plot)) s
          else case Fertilizer cfg itemId of
            None \<Rightarrow> Failed (retryable_error CONFIG_UNAVAILABLE) s
          | Some f \<Rightarrow>
              if \<not> fc_enabled f then Failed (plain_error CONFIG_ENTRY_DISABLED) s
              else let itemQuantity = map_get (st_inventory s) itemId
              in if itemQuantity = 0 then Failed (plain_error ITEM_NOT_OWNED) s
              else if now > to_i64 (max_i64 - fc_duration_ms f) then Failed (retryable_error CONFIG_UNAVAILABLE) s
              else case settleGrowingPlot plot now of
                (Some False, settled) \<Rightarrow>
                  (let effectID = fertilizerEffectID caller rid
                   in fertilizer_finish plotId itemId itemQuantity effectID
                        (settled\<lparr>pl_fertilizer_effect := Some (fertilizer_effect effectID itemId f now)\<rparr>) now s)
              | _ \<Rightarrow> Failed (plot_error PLOT_STATE_CONFLICT (plotView plot)) s)"

definition applyFertilizer ::
  "codec \<Rightarrow> u64 \<Rightarrow> ws_request \<Rightarrow> u32 \<Rightarrow> u32 \<Rightarrow> config_snapshot \<Rightarrow> int \<Rightarrow> state \<Rightarrow> handler_result" where
  "applyFertilizer C caller req plotId itemId cfg now s =
     run_command C APPLY_FERTILIZER (storeFertilizerFailure C) (replayFertilizer C)
       (fertilizerFingerprint caller req plotId itemId) caller req (cfg_version cfg) now
       (fertilizerBody cfg caller plotId itemId now) s"

section \<open>Catching one's own pest\<close>

definition catchPestFingerprint :: "u64 \<Rightarrow> ws_request \<Rightarrow> u32 \<Rightarrow> bytes" where
  "catchPestFingerprint caller req plotId = sha256 (fingerprint_head caller req @ be32 plotId)"

definition storeCatchPestFailure ::
  "codec \<Rightarrow> ws_request \<Rightarrow> bytes \<Rightarrow> bytes \<Rightarrow> u64 \<Rightarrow> int \<Rightarrow> ws_error \<Rightarrow> state \<Rightarrow> ws_response \<times> state" where
  "storeCatchPestFailure C = storeFailure C CATCH_PEST"

definition replayCatchPest :: "codec \<Rightarrow> ws_request \<Rightarrow> idempotency_result \<Rightarrow> int \<Rightarrow> ws_response" where
  "replayCatchPest C = replayStored C CATCH_PEST"

definition catchPestBody :: "u32 \<Rightarrow> int \<Rightarrow> state \<Rightarrow> outcome" where
  "catchPestBody plotId now s =
     (if plotId = 0 then Failed (plain_error INVALID_ARGUMENT) s
      else case fmlookup (st_plots s) plotId of
        None \<Rightarrow> Failed (plain_error PLOT_NOT_FOUND) s
      | Some plot \<Rightarrow>
          if pl_state plot \<noteq> GROWING \<or> pl_pest_effect plot = None
          then Failed (plot_error PLOT_STATE_CONFLICT (plotView plot)) s
          else case settleGrowingPlot plot now of
            (Some False, settled) \<Rightarrow>
              if pl_pest_effect settled = None then Failed (plot_error PLOT_STATE_CONFLICT (plotView plot)) s
              else let plot1 = settled\<lparr>pl_pest_effect := None\<rparr>
              in (case estimatePlotMatureAtMS plot1 now of
                    None \<Rightarrow> Failed (retryable_error CONFIG_UNAVAILABLE) s
                  | Some estimate \<Rightarrow>
                      let plot2 = plot1\<lparr>pl_estimated_mature_at_ms := Some estimate\<rparr>
                      in Done (CatchPestResponse (PlayerStatePatch None [] [] [plotView plot2] None None None))
                           [] (s\<lparr>st_plots := fmupd plotId plot2 (st_plots s)\<rparr>) (PlotChanged {||} plotId))
          | _ \<Rightarrow> Failed (plot_error PLOT_STATE_CONFLICT (plotView plot)) s)"

definition catchPest ::
  "codec \<Rightarrow> u64 \<Rightarrow> ws_request \<Rightarrow> u32 \<Rightarrow> config_snapshot \<Rightarrow> int \<Rightarrow> state \<Rightarrow> handler_result" where
  "catchPest C caller req plotId cfg now s =
     run_command C CATCH_PEST (storeCatchPestFailure C) (replayCatchPest C)
       (catchPestFingerprint caller req plotId) caller req (cfg_version cfg) now
       (\<lambda>rid. catchPestBody plotId now) s"

section \<open>Harvesting\<close>

definition inventoryTypeLimit :: nat where "inventoryTypeLimit = 100"
definition inventoryStackLimit :: nat where "inventoryStackLimit = 300"

definition harvestFingerprint :: "u64 \<Rightarrow> ws_request \<Rightarrow> u32 \<Rightarrow> bytes" where
  "harvestFingerprint caller req plotId = sha256 (fingerprint_head caller req @ be32 plotId)"

definition storeHarvestFailure ::
  "codec \<Rightarrow> ws_request \<Rightarrow> bytes \<Rightarrow> bytes \<Rightarrow> u64 \<Rightarrow> int \<Rightarrow> ws_error \<Rightarrow> state \<Rightarrow> ws_response \<times> state" where
  "storeHarvestFailure C = storeFailure C HARVEST"

definition replayHarvest :: "codec \<Rightarrow> ws_request \<Rightarrow> idempotency_result \<Rightarrow> int \<Rightarrow> ws_response" where
  "replayHarvest C = replayStored C HARVEST"

definition harvested_plot :: "plot \<Rightarrow> plot" where
  "harvested_plot p = p\<lparr>pl_state := NEED_CLEANUP, pl_maturity_scaled9 := 0, pl_base_rate_scaled6 := 0,
     pl_settled_scaled9 := 0, pl_last_settled_at_ms := 0, pl_estimated_mature_at_ms := None,
     pl_fertilizer_effect := None, pl_pest_effect := None\<rparr>"

text \<open>The part after the career was credited (\<open>s\<close> already holds the crops).\<close>

definition harvest_finish :: "u32 \<Rightarrow> plot \<Rightarrow> u32 \<Rightarrow> u32 \<Rightarrow> state \<Rightarrow> outcome" where
  "harvest_finish plotId plot harvested current s =
     (let plot' = harvested_plot plot;
          s1 = s\<lparr>st_plots := fmupd plotId plot' (st_plots s), st_tasks := count_task 4 (st_tasks s)\<rparr>
      in Done (HarvestResponse (pl_crop_item_id plot) harvested
           (PlayerStatePatch None
             (if harvested > 0 then [ItemStackView (pl_crop_item_id plot) (current + harvested)] else [])
             [] [plotView plot'] (Some (chapterView s1)) (Some (careerView s1)) (Some (compendiumView s1))))
         [] s1 (PlotChanged {||} plotId))"

definition harvestBody :: "u32 \<Rightarrow> state \<Rightarrow> outcome" where
  "harvestBody plotId s =
     (if plotId = 0 then Failed (plain_error INVALID_ARGUMENT) s
      else case fmlookup (st_plots s) plotId of
        None \<Rightarrow> Failed (plain_error PLOT_NOT_FOUND) s
      | Some plot \<Rightarrow>
          if pl_state plot = GROWING then Failed (plot_error CROP_NOT_MATURE (plotView plot)) s
          else if pl_state plot \<noteq> MATURE then Failed (plot_error PLOT_STATE_CONFLICT (plotView plot)) s
          else let harvested = pl_base_yield plot - pl_stolen_quantity plot;
                   current = map_get (st_inventory s) (pl_crop_item_id plot)
          in if harvested > 0 \<and> current = 0 \<and> inventoryTypeLimit \<le> map_len (st_inventory s)
          then Failed (plain_error INVENTORY_TYPE_LIMIT) s
          else if unat current + unat harvested > inventoryStackLimit
          then Failed (plain_error INVENTORY_STACK_LIMIT) s
          else if harvested > 0 then
            let sc = ensureCareer s; career = careerOf sc
            in (case checkedAddUint64 (car_total_harvested career) (ucast harvested) of
                  None \<Rightarrow> Failed (plain_error INVALID_ARGUMENT) sc
                | Some nextHarvested \<Rightarrow>
                    harvest_finish plotId plot harvested current
                      (unlockCrop (sc\<lparr>st_inventory := fmupd (pl_crop_item_id plot) (current + harvested) (st_inventory sc),
                         st_career := Some (career\<lparr>car_total_harvested := nextHarvested\<rparr>)\<rparr>) (pl_crop_id plot)))
          else harvest_finish plotId plot harvested current s)"

definition harvest ::
  "codec \<Rightarrow> u64 \<Rightarrow> ws_request \<Rightarrow> u32 \<Rightarrow> config_snapshot \<Rightarrow> int \<Rightarrow> state \<Rightarrow> handler_result" where
  "harvest C caller req plotId cfg now s =
     run_command C HARVEST (storeHarvestFailure C) (replayHarvest C)
       (harvestFingerprint caller req plotId) caller req (cfg_version cfg) now
       (\<lambda>rid. harvestBody plotId) s"

section \<open>Cleaning up\<close>

definition cleanPlotFingerprint :: "u64 \<Rightarrow> ws_request \<Rightarrow> u32 \<Rightarrow> bytes" where
  "cleanPlotFingerprint caller req plotId = sha256 (fingerprint_head caller req @ be32 plotId)"

definition storeCleanPlotFailure ::
  "codec \<Rightarrow> ws_request \<Rightarrow> bytes \<Rightarrow> bytes \<Rightarrow> u64 \<Rightarrow> int \<Rightarrow> ws_error \<Rightarrow> state \<Rightarrow> ws_response \<times> state" where
  "storeCleanPlotFailure C = storeFailure C CLEAN_PLOT"

definition replayCleanPlot :: "codec \<Rightarrow> ws_request \<Rightarrow> idempotency_result \<Rightarrow> int \<Rightarrow> ws_response" where
  "replayCleanPlot C = replayStored C CLEAN_PLOT"

definition cleanPlotBody :: "u32 \<Rightarrow> state \<Rightarrow> outcome" where
  "cleanPlotBody plotId s =
     (if plotId = 0 then Failed (plain_error INVALID_ARGUMENT) s
      else case fmlookup (st_plots s) plotId of
        None \<Rightarrow> Failed (plain_error PLOT_NOT_FOUND) s
      | Some plot \<Rightarrow>
          if pl_state plot \<noteq> NEED_CLEANUP then Failed (plot_error PLOT_STATE_CONFLICT (plotView plot)) s
          else Done (CleanPlotResponse (PlayerStatePatch None [] [] [plotView (empty_plot plotId)] None None None))
                 [] (s\<lparr>st_plots := fmupd plotId (empty_plot plotId) (st_plots s)\<rparr>) (PlotChanged {||} plotId))"

definition cleanPlot ::
  "codec \<Rightarrow> u64 \<Rightarrow> ws_request \<Rightarrow> u32 \<Rightarrow> config_snapshot \<Rightarrow> int \<Rightarrow> state \<Rightarrow> handler_result" where
  "cleanPlot C caller req plotId cfg now s =
     run_command C CLEAN_PLOT (storeCleanPlotFailure C) (replayCleanPlot C)
       (cleanPlotFingerprint caller req plotId) caller req (cfg_version cfg) now
       (\<lambda>rid. cleanPlotBody plotId) s"

section \<open>Lemmas\<close>

lemma PlotChanged_empty [simp]: "i \<noteq> 0 \<Longrightarrow> PlotChanged {||} i = {|i|}"
  by (simp add: PlotChanged_def)

lemma estimateMatureAtMS_bounds:
  "estimateMatureAtMS c rem r = Some m \<Longrightarrow> c < m \<and> m \<le> max_i64"
  by (auto simp: estimateMatureAtMS_def Let_def split: if_splits)

lemma length_uuid [simp]: "length (uuid_of_digest (sha256 b)) = 16"
  by (simp add: uuid_of_digest_def Let_def)

lemma take_one_ok:
  assumes "inventory_ok m" "map_get m i \<noteq> 0"
  shows "inventory_ok (if map_get m i = 1 then fmdrop i m else fmupd i (map_get m i - 1) m)"
proof (cases "map_get m i = 1")
  case True
  then show ?thesis using assms(1) by (simp add: inventory_ok_drop)
next
  case False
  have q: "map_get m i \<le> 300" using inventory_ok_get [OF assms(1)] .
  have u: "unat (map_get m i - 1) = unat (map_get m i) - 1" using assms(2) by (rule unat_pred_u32)
  have "unat (map_get m i) \<noteq> 0" using assms(2) by (simp add: unat_eq_zero)
  moreover have "unat (map_get m i) \<noteq> 1" using False by (metis unsigned_word_eqI unsigned_1)
  ultimately have "0 < map_get m i - 1" "map_get m i - 1 \<le> 300"
    using u q by (simp_all add: word_less_nat_alt word_le_nat_alt)
  then show ?thesis
    using False inventory_ok_upd [OF assms(1) inventory_ok_key [OF assms]] by simp
qed

lemma take_one_get:
  fixes m :: "(u32, u32) fmap"
  shows
  "map_get (if map_get m i = 1 then fmdrop i m else fmupd i (map_get m i - 1) m) = (map_get m)(i := map_get m i - 1)"
  by (auto simp: map_simps fun_eq_iff)

lemma take_one_account:
  fixes m :: "(u32, u32) fmap"
  assumes "map_get m i \<noteq> 0"
  shows "(\<lambda>j. unat (map_get (if map_get m i = 1 then fmdrop i m else fmupd i (map_get m i - 1) m) j)) =
    (\<lambda>j. unat (map_get m j))(i := unat (map_get m i) - 1)"
  unfolding take_one_get using unat_pred_u32 [OF assms] by (auto simp: fun_eq_iff)

text \<open>Updating the fields the farming commands update keeps a well-formed state well formed.\<close>

lemma state_ok_farm:
  assumes "state_ok s" "inventory_ok items" "plots_ok ps" "\<forall>t \<in> set ts. task_ok t"
  shows "state_ok (s\<lparr>st_inventory := items, st_plots := ps, st_tasks := ts\<rparr>)"
  using assms by (simp add: state_ok_def)

lemma planted_plot_ok:
  assumes "crop_valid crop" "cc_maturity_scaled9 crop \<le> max_i64" "cc_base_rate_scaled6 crop \<le> max_i64"
    "0 < now" "now < m" "m \<le> max_i64" "i \<noteq> 0"
  shows "plot_ok (planted_plot i crop now m)"
  using assms by (auto simp: plot_ok_def planted_plot_def growing_ok_def crop_identity_def growing_fields_ok_def
      empty_plot_def crop_valid_def effect_ok_def in_i64_def word_neq_0_conv)

lemma planted_plot_estimate:
  assumes "crop_valid crop" "cc_maturity_scaled9 crop \<le> max_i64" "cc_base_rate_scaled6 crop \<le> max_i64"
    "0 < now" "now \<le> max_i64" "i \<noteq> 0"
    "estimateMatureAtMS now (cc_maturity_scaled9 crop) (cc_base_rate_scaled6 crop) = Some m"
  shows "estimate_ok (planted_plot i crop now m)"
proof -
  let ?p = "planted_plot i crop now m"
  have m: "now < m" "m \<le> max_i64" using estimateMatureAtMS_bounds [OF assms(7)] by simp_all
  have "growing_ok ?p"
    using plot_okD(1) [OF planted_plot_ok [OF assms(1-4) m assms(6)]] by (simp add: planted_plot_def)
  then have "growing_plot_ok ?p" by (rule growing_ok_growth) (simp add: planted_plot_def)
  moreover have "in_i64 (cc_maturity_scaled9 crop)" "in_i64 (cc_base_rate_scaled6 crop)"
    using assms(1-3) by (simp_all add: crop_valid_def in_i64_def)
  then have "estimatePlotMatureAtMS ?p now = Some m"
    using estimate_fresh [of ?p now] assms(7) by (simp add: planted_plot_def empty_plot_def)
  ultimately show ?thesis by (simp add: estimate_ok_def planted_plot_def)
qed

lemma renew_estimate:
  assumes "plot_ok q" "pl_state q = GROWING" "estimatePlotMatureAtMS q (pl_last_settled_at_ms q) = Some m"
  shows "plot_ok (q\<lparr>pl_estimated_mature_at_ms := Some m\<rparr>)" "estimate_ok (q\<lparr>pl_estimated_mature_at_ms := Some m\<rparr>)"
proof -
  have g: "growing_ok q" using assms(1,2) by (rule plot_okD)
  have gp: "growing_plot_ok q" using growing_ok_growth [OF g assms(2)] .
  have "reaches q (pl_last_settled_at_ms q) (pl_maturity_scaled9 q - pl_settled_scaled9 q) m"
    using assms(3) gp by (subst estimatePlotMatureAtMS_iff [symmetric])
      (auto simp: growing_plot_ok_def growing_fields_ok_def)
  then have "pl_last_settled_at_ms q < m" "m \<le> max_i64" by (simp_all add: reaches_def)
  then show "plot_ok (q\<lparr>pl_estimated_mature_at_ms := Some m\<rparr>)"
    using assms(1,2) g by (simp add: plot_ok_def growing_ok_def crop_identity_def growing_fields_ok_def)
  show "estimate_ok (q\<lparr>pl_estimated_mature_at_ms := Some m\<rparr>)"
    using gp assms(3) by (simp add: estimate_ok_def)
qed

lemma plot_ok_set_fertilizer:
  "plot_ok q \<Longrightarrow> pl_state q = GROWING \<Longrightarrow> effect_ok FERTILIZER (pl_planted_at_ms q) e \<Longrightarrow>
     plot_ok (q\<lparr>pl_fertilizer_effect := e\<rparr>)"
  by (simp add: plot_ok_def growing_ok_def crop_identity_def growing_fields_ok_def)

lemma plot_ok_set_pest:
  "plot_ok q \<Longrightarrow> pl_state q = GROWING \<Longrightarrow> effect_ok PEST (pl_planted_at_ms q) e \<Longrightarrow>
     plot_ok (q\<lparr>pl_pest_effect := e\<rparr>)"
  by (simp add: plot_ok_def growing_ok_def crop_identity_def growing_fields_ok_def)

lemma plot_ok_harvested: "plot_ok q \<Longrightarrow> pl_state q = MATURE \<Longrightarrow> plot_ok (harvested_plot q)"
  by (simp add: plot_ok_def harvested_plot_def mature_ok_def cleanup_ok_def crop_identity_def)

section \<open>What a success of each command is\<close>

lemma plant_Done:
  assumes "plantBody cfg plotId seed now s = Done p obx s1 ch"
  obtains plot crop m where "plotId \<noteq> 0" "fmlookup (st_plots s) plotId = Some plot" "pl_state plot = EMPTY"
    "CropForSeed cfg seed = Some crop" "cc_enabled crop" "map_get (st_inventory s) seed \<noteq> 0"
    "estimateMatureAtMS now (cc_maturity_scaled9 crop) (cc_base_rate_scaled6 crop) = Some m"
    "s1 = s\<lparr>st_inventory := (if map_get (st_inventory s) seed = 1 then fmdrop seed (st_inventory s)
         else fmupd seed (map_get (st_inventory s) seed - 1) (st_inventory s)),
       st_plots := fmupd plotId (planted_plot (pl_id plot) crop now m) (st_plots s),
       st_tasks := count_task 2 (st_tasks s)\<rparr>"
    "\<exists>ups rem. (ups, rem) = (if map_get (st_inventory s) seed = 1 then ([], [seed])
         else ([ItemStackView seed (map_get (st_inventory s) seed - 1)], [])) \<and>
       p = PlantResponse seed (PlayerStatePatch None ups rem [plotView (planted_plot (pl_id plot) crop now m)]
         (Some (chapterView s1)) None None)"
    "obx = []" "ch = {|plotId|}"
  using assms unfolding plantBody_def by (auto simp: Let_def split: if_splits option.splits)

lemma fertilizer_Done:
  assumes "fertilizerBody cfg caller plotId item now rid s = Done p obx s1 ch"
  obtains plot f settled m plot1 where "plotId \<noteq> 0" "item \<noteq> 0" "fmlookup (st_plots s) plotId = Some plot"
    "pl_state plot = GROWING" "\<forall>e. pl_fertilizer_effect plot = Some e \<longrightarrow> eff_end_at_ms e \<le> now"
    "Fertilizer cfg item = Some f" "fc_enabled f" "map_get (st_inventory s) item \<noteq> 0"
    "now \<le> to_i64 (max_i64 - fc_duration_ms f)"
    "settleGrowingPlot plot now = (Some False, settled)"
    "plot1 = settled\<lparr>pl_fertilizer_effect := Some (fertilizer_effect (fertilizerEffectID caller rid) item f now)\<rparr>"
    "estimatePlotMatureAtMS plot1 now = Some m"
    "s1 = s\<lparr>st_plots := fmupd plotId (plot1\<lparr>pl_estimated_mature_at_ms := Some m\<rparr>) (st_plots s),
       st_inventory := (if map_get (st_inventory s) item = 1 then fmdrop item (st_inventory s)
         else fmupd item (map_get (st_inventory s) item - 1) (st_inventory s)),
       st_tasks := count_task 3 (st_tasks s)\<rparr>"
    "\<exists>ups rem. (ups, rem) = (if map_get (st_inventory s) item = 1 then ([], [item])
         else ([ItemStackView item (map_get (st_inventory s) item - 1)], [])) \<and>
       p = ApplyFertilizerResponse item (formatUUIDBytes (fertilizerEffectID caller rid))
         (PlayerStatePatch None ups rem [plotView (plot1\<lparr>pl_estimated_mature_at_ms := Some m\<rparr>)]
           (Some (chapterView s1)) None None)"
    "obx = []" "ch = {|plotId|}"
proof -
  obtain plot where plot: "plotId \<noteq> 0" "item \<noteq> 0" "fmlookup (st_plots s) plotId = Some plot" "pl_state plot = GROWING"
    "\<not> (case pl_fertilizer_effect plot of None \<Rightarrow> False | Some e \<Rightarrow> now < eff_end_at_ms e)"
    using assms unfolding fertilizerBody_def by (auto split: if_splits option.splits)
  obtain f where f: "Fertilizer cfg item = Some f" "fc_enabled f" "map_get (st_inventory s) item \<noteq> 0"
    "now \<le> to_i64 (max_i64 - fc_duration_ms f)"
    using assms plot unfolding fertilizerBody_def by (auto simp: Let_def split: if_splits option.splits)
  obtain r settled where st: "settleGrowingPlot plot now = (r, settled)" by fastforce
  define plot1 where "plot1 = settled\<lparr>pl_fertilizer_effect := Some (fertilizer_effect (fertilizerEffectID caller rid) item f now)\<rparr>"
  have body: "fertilizerBody cfg caller plotId item now rid s =
    (case r of Some False \<Rightarrow> fertilizer_finish plotId item (map_get (st_inventory s) item)
        (fertilizerEffectID caller rid) plot1 now s
     | _ \<Rightarrow> Failed (plot_error PLOT_STATE_CONFLICT (plotView plot)) s)"
    using plot f st by (simp add: fertilizerBody_def plot1_def not_less Let_def split: option.split bool.split)
  have r: "r = Some False" using assms body by (auto split: option.splits bool.splits)
  have fin: "fertilizer_finish plotId item (map_get (st_inventory s) item) (fertilizerEffectID caller rid) plot1 now s =
      Done p obx s1 ch" using assms body r by simp
  have "\<forall>e. pl_fertilizer_effect plot = Some e \<longrightarrow> eff_end_at_ms e \<le> now"
    using plot(5) by (auto simp: not_less)
  moreover obtain m where m: "estimatePlotMatureAtMS plot1 now = Some m"
    using fin by (auto simp: fertilizer_finish_def split: option.splits)
  ultimately show thesis
    by (rule that [OF plot(1-4) _ f st [unfolded r] plot1_def])
      (use fin m plot(1) in \<open>auto simp: fertilizer_finish_def Let_def split: if_splits\<close>)
qed

lemma catchPest_Done:
  assumes "catchPestBody plotId now s = Done p obx s1 ch"
  obtains plot settled m where "plotId \<noteq> 0" "fmlookup (st_plots s) plotId = Some plot"
    "pl_state plot = GROWING" "pl_pest_effect plot \<noteq> None"
    "settleGrowingPlot plot now = (Some False, settled)" "pl_pest_effect settled \<noteq> None"
    "estimatePlotMatureAtMS (settled\<lparr>pl_pest_effect := None\<rparr>) now = Some m"
    "s1 = s\<lparr>st_plots := fmupd plotId (settled\<lparr>pl_pest_effect := None, pl_estimated_mature_at_ms := Some m\<rparr>) (st_plots s)\<rparr>"
    "p = CatchPestResponse (PlayerStatePatch None [] []
       [plotView (settled\<lparr>pl_pest_effect := None, pl_estimated_mature_at_ms := Some m\<rparr>)] None None None)"
    "obx = []" "ch = {|plotId|}"
  using assms unfolding catchPestBody_def
  by (auto simp: Let_def split: if_splits option.splits prod.splits bool.splits)

lemma cleanPlot_Done:
  assumes "cleanPlotBody plotId s = Done p obx s1 ch"
  obtains plot where "plotId \<noteq> 0" "fmlookup (st_plots s) plotId = Some plot" "pl_state plot = NEED_CLEANUP"
    "s1 = s\<lparr>st_plots := fmupd plotId (empty_plot plotId) (st_plots s)\<rparr>"
    "p = CleanPlotResponse (PlayerStatePatch None [] [] [plotView (empty_plot plotId)] None None None)"
    "obx = []" "ch = {|plotId|}"
  using assms unfolding cleanPlotBody_def by (auto split: if_splits option.splits)

lemma unlockCrop_frame [frame_simps, simp]:
  "st_coins (unlockCrop s i) = st_coins s" "st_inventory (unlockCrop s i) = st_inventory s"
  "st_plots (unlockCrop s i) = st_plots s" "st_tasks (unlockCrop s i) = st_tasks s"
  "st_chapter (unlockCrop s i) = st_chapter s" "st_chapter_id (unlockCrop s i) = st_chapter_id s"
  "st_chapter_config_version (unlockCrop s i) = st_chapter_config_version s"
  "st_recent_results (unlockCrop s i) = st_recent_results s" "st_player_seq (unlockCrop s i) = st_player_seq s"
  "st_checkpoint_revision (unlockCrop s i) = st_checkpoint_revision s"
  "st_owner_epoch (unlockCrop s i) = st_owner_epoch s" "st_player_id (unlockCrop s i) = st_player_id s"
  "st_career (unlockCrop s i) = st_career s"
  by (simp_all add: unlockCrop_def Let_def)

lemma ensureCareer_frame [frame_simps, simp]:
  "st_coins (ensureCareer s) = st_coins s" "st_inventory (ensureCareer s) = st_inventory s"
  "st_plots (ensureCareer s) = st_plots s" "st_tasks (ensureCareer s) = st_tasks s"
  "st_chapter (ensureCareer s) = st_chapter s" "st_chapter_id (ensureCareer s) = st_chapter_id s"
  "st_chapter_config_version (ensureCareer s) = st_chapter_config_version s"
  "st_recent_results (ensureCareer s) = st_recent_results s" "st_player_seq (ensureCareer s) = st_player_seq s"
  "st_checkpoint_revision (ensureCareer s) = st_checkpoint_revision s"
  "st_owner_epoch (ensureCareer s) = st_owner_epoch s" "st_player_id (ensureCareer s) = st_player_id s"
  "st_crop_compendium (ensureCareer s) = st_crop_compendium s" "careerOf (ensureCareer s) = careerOf s"
  by (simp_all add: ensureCareer_def careerOf_def split: option.splits)

text \<open>A counter that overflows is not fresh, so the failing path has not created a career.\<close>

lemma career_overflow:
  assumes "checkedAddUint64 (car_total_harvested (careerOf s)) (ucast (q :: u32)) = None"
  shows "ensureCareer s = s"
proof (cases "st_career s")
  case None
  have "ucast q \<le> (max_u64 :: u64)"
    using unsigned_less [of q, where ?'a = nat]
    by (simp add: word_le_nat_alt max_u64_def unsigned_ucast_eq take_bit_nat_eq_self)
  then have False using assms None by (simp add: checkedAddUint64_def careerOf_def not_less split: if_splits)
  then show ?thesis ..
qed (simp add: ensureCareer_def)

lemma harvest_Failed: "harvestBody plotId s = Failed e s1 \<Longrightarrow> s1 = s"
  using career_overflow [of s]
  by (auto simp: harvestBody_def harvest_finish_def Let_def split: if_splits option.splits)

definition credited :: "plot \<Rightarrow> u32 \<Rightarrow> state \<Rightarrow> state \<Rightarrow> bool" where
  "credited plot harvested s s0 \<longleftrightarrow>
     (if 0 < harvested then \<exists>c. checkedAddUint64 (car_total_harvested (careerOf s)) (ucast harvested) = Some c \<and>
        s0 = unlockCrop ((ensureCareer s)\<lparr>st_inventory := fmupd (pl_crop_item_id plot)
             (map_get (st_inventory s) (pl_crop_item_id plot) + harvested) (st_inventory s),
           st_career := Some ((careerOf s)\<lparr>car_total_harvested := c\<rparr>)\<rparr>) (pl_crop_id plot)
      else s0 = s)"

lemma harvest_Done:
  assumes "harvestBody plotId s = Done p obx s1 ch"
  obtains plot s0 where "plotId \<noteq> 0" "fmlookup (st_plots s) plotId = Some plot" "pl_state plot = MATURE"
    "unat (map_get (st_inventory s) (pl_crop_item_id plot)) + unat (pl_base_yield plot - pl_stolen_quantity plot) \<le> 300"
    "\<not> (0 < pl_base_yield plot - pl_stolen_quantity plot \<and> map_get (st_inventory s) (pl_crop_item_id plot) = 0 \<and>
        100 \<le> map_len (st_inventory s))"
    "credited plot (pl_base_yield plot - pl_stolen_quantity plot) s s0"
    "harvest_finish plotId plot (pl_base_yield plot - pl_stolen_quantity plot)
       (map_get (st_inventory s) (pl_crop_item_id plot)) s0 = Done p obx s1 ch"
proof -
  obtain plot where plot: "plotId \<noteq> 0" "fmlookup (st_plots s) plotId = Some plot" "pl_state plot = MATURE"
    using assms unfolding harvestBody_def by (auto split: if_splits option.splits)
  show thesis
  proof (cases "0 < pl_base_yield plot - pl_stolen_quantity plot")
    case True
    obtain c where c: "checkedAddUint64 (car_total_harvested (careerOf s)) (ucast (pl_base_yield plot - pl_stolen_quantity plot)) = Some c"
      using assms plot True by (auto simp: harvestBody_def Let_def split: if_splits option.splits)
    show ?thesis
      by (rule that [OF plot])
        (use assms plot True c in \<open>auto simp: harvestBody_def Let_def credited_def not_less not_le
          inventoryTypeLimit_def inventoryStackLimit_def split: if_splits\<close>)
  next
    case False
    show ?thesis
      by (rule that [OF plot])
        (use assms plot False in \<open>auto simp: harvestBody_def Let_def credited_def not_less not_le
          inventoryTypeLimit_def inventoryStackLimit_def split: if_splits\<close>)
  qed
qed

lemma unlockCrop_ids:
  assumes "case st_crop_compendium s of None \<Rightarrow> True | Some ids \<Rightarrow> ids_ok ids"
  shows "case st_crop_compendium (unlockCrop s i) of None \<Rightarrow> True | Some ids \<Rightarrow> ids_ok ids"
  using assms ids_ok_insert [of _ i] by (auto simp: unlockCrop_def Let_def ids_ok_def split: option.splits)

lemma credited_frame:
  assumes "credited plot h s s0"
  shows "st_plots s0 = st_plots s" "st_tasks s0 = st_tasks s" "st_coins s0 = st_coins s"
    "st_inventory s0 = (if 0 < h then fmupd (pl_crop_item_id plot)
       (map_get (st_inventory s) (pl_crop_item_id plot) + h) (st_inventory s) else st_inventory s)"
    "st_recent_results s0 = st_recent_results s" "st_player_seq s0 = st_player_seq s"
    "st_checkpoint_revision s0 = st_checkpoint_revision s" "st_owner_epoch s0 = st_owner_epoch s"
    "st_player_id s0 = st_player_id s"
  using assms by (auto simp: credited_def split: if_splits)

lemma credited_ok:
  assumes "state_ok s" "fmlookup (st_plots s) i = Some plot" "pl_state plot = MATURE"
    "unat (map_get (st_inventory s) (pl_crop_item_id plot)) + unat h \<le> 300" "credited plot h s s0"
  shows "state_ok s0"
proof -
  have "plot_ok plot" using plots_okD [OF state_ok_plotsD [OF assms(1)] assms(2)] by simp
  then have item: "pl_crop_item_id plot \<noteq> 0"
    using assms(3) by (simp add: plot_ok_def mature_ok_def crop_identity_def)
  have inv: "0 < h \<Longrightarrow> inventory_ok (fmupd (pl_crop_item_id plot)
      (map_get (st_inventory s) (pl_crop_item_id plot) + h) (st_inventory s))"
    using assms(1) item stack_add [OF assms(4)]
    by (intro inventory_ok_upd) (auto simp: state_ok_def word_neq_0_conv)
  have comp: "case st_crop_compendium s of None \<Rightarrow> True | Some ids \<Rightarrow> ids_ok ids"
    using assms(1) by (simp add: state_ok_def)
  show ?thesis
    using assms(1,5) inv unlockCrop_ids [of "(ensureCareer s)\<lparr>st_inventory := fmupd (pl_crop_item_id plot)
        (map_get (st_inventory s) (pl_crop_item_id plot) + h) (st_inventory s), st_career := c\<rparr>" for c] comp
    by (auto simp: credited_def state_ok_def split: if_splits)
qed

lemma harvest_finish_Done:
  "harvest_finish plotId plot h c s = Done p obx s1 ch \<longleftrightarrow>
     s1 = s\<lparr>st_plots := fmupd plotId (harvested_plot plot) (st_plots s), st_tasks := count_task 4 (st_tasks s)\<rparr> \<and>
     p = HarvestResponse (pl_crop_item_id plot) h (PlayerStatePatch None
       (if 0 < h then [ItemStackView (pl_crop_item_id plot) (c + h)] else []) [] [plotView (harvested_plot plot)]
       (Some (chapterView s1)) (Some (careerView s1)) (Some (compendiumView s1))) \<and>
     obx = [] \<and> ch = PlotChanged {||} plotId"
  by (auto simp: harvest_finish_def Let_def)

section \<open>Interpretations\<close>

lemma fold_item_ups:
  "(ups, rem) = (if q = 1 then ([], [i]) else ([ItemStackView i (q - 1)], [])) \<Longrightarrow>
     fold (\<lambda>i m. m(i := 0)) rem (fold (\<lambda>v m. m(isv_item_id v := isv_quantity v)) ups f) = f(i := q - 1)"
  by (auto split: if_splits)

lemma chapterView_cong:
  "st_chapter_id s1 = st_chapter_id s \<Longrightarrow> st_chapter s1 = st_chapter s \<Longrightarrow> st_tasks s1 = st_tasks s \<Longrightarrow>
     chapterView s1 = chapterView s"
  by (simp add: chapterView_def)

lemma unchanged_outside_upd: "st_plots s1 = fmupd i p (st_plots s) \<Longrightarrow> unchanged_outside {|i|} s s1"
  by (auto simp: unchanged_outside_def)

lemma settle_id: "settleGrowingPlot p now = (r, p') \<Longrightarrow> pl_id p' = pl_id p"
  by (auto simp: settleGrowingPlot_def Let_def split: if_splits option.splits)

lemma state_ok_id: "state_ok s \<Longrightarrow> fmlookup (st_plots s) i = Some p \<Longrightarrow> pl_id p = i \<and> plot_ok p"
  by (rule plots_okD [OF state_ok_plotsD])

lemma plant_done_ok:
  assumes ok: "state_ok s" "env_ok cfg now s" and dn: "plantBody cfg plotId seed now s = Done p obx s1 ch"
  shows "state_ok s1"
proof (rule plant_Done [OF dn])
  fix plot crop m
  assume d: "fmlookup (st_plots s) plotId = Some plot" "CropForSeed cfg seed = Some crop"
    "map_get (st_inventory s) seed \<noteq> 0"
    "estimateMatureAtMS now (cc_maturity_scaled9 crop) (cc_base_rate_scaled6 crop) = Some m"
    "s1 = s\<lparr>st_inventory := (if map_get (st_inventory s) seed = 1 then fmdrop seed (st_inventory s)
         else fmupd seed (map_get (st_inventory s) seed - 1) (st_inventory s)),
       st_plots := fmupd plotId (planted_plot (pl_id plot) crop now m) (st_plots s),
       st_tasks := count_task 2 (st_tasks s)\<rparr>"
  have id: "pl_id plot = plotId" "plotId \<noteq> 0"
    using state_ok_id [OF ok(1) d(1)] by (auto simp: plot_ok_def)
  have "config_ok cfg" "config_range cfg" "0 < now" using ok(2) by (simp_all add: env_ok_def)
  then have "plot_ok (planted_plot plotId crop now m)"
    using config_lookup(2) [of cfg seed crop] d(2) estimateMatureAtMS_bounds [OF d(4)] id(2)
    by (intro planted_plot_ok) (auto simp: config_range_def CropForSeed_def)
  then have "plots_ok (fmupd plotId (planted_plot plotId crop now m) (st_plots s))"
    using state_ok_plotsD [OF ok(1)] by (intro plots_ok_upd) (simp_all add: planted_plot_def)
  moreover have "inventory_ok (if map_get (st_inventory s) seed = 1 then fmdrop seed (st_inventory s)
      else fmupd seed (map_get (st_inventory s) seed - 1) (st_inventory s))"
    using ok(1) d(3) by (intro take_one_ok) (auto simp: state_ok_def)
  ultimately show ?thesis
    unfolding d(5) id(1) using ok(1) count_task_ok by (intro state_ok_farm) (auto simp: state_ok_def)
qed

text \<open>The patch of a command that takes one item and changes one plot.\<close>

lemma patch_take_one:
  assumes "(ups, rem) = (if map_get (st_inventory s) i = 1 then ([], [i])
      else ([ItemStackView i (map_get (st_inventory s) i - 1)], []))"
    "st_inventory s1 = (if map_get (st_inventory s) i = 1 then fmdrop i (st_inventory s)
       else fmupd i (map_get (st_inventory s) i - 1) (st_inventory s))"
    "st_plots s1 = fmupd (pl_id q) q (st_plots s)" "st_coins s1 = st_coins s" "st_career s1 = st_career s"
    "st_crop_compendium s1 = st_crop_compendium s"
  shows "apply_patch (PlayerStatePatch None ups rem [plotView q] (Some (chapterView s1)) None None) (client_of s) = client_of s1"
  using assms fold_item_ups [OF assms(1)] take_one_get [of "st_inventory s" i]
  by (intro patch_plot_items [of s1 s "pl_id q" q]) simp_all

lemma plant_done_patch:
  assumes ok: "state_ok s" and dn: "plantBody cfg plotId seed now s = Done p obx s1 ch"
  shows "\<exists>patch. payload_patch p = Some patch \<and> apply_patch patch (client_of s) = client_of s1"
proof (rule plant_Done [OF dn])
  fix plot crop m
  assume d: "fmlookup (st_plots s) plotId = Some plot"
    "s1 = s\<lparr>st_inventory := (if map_get (st_inventory s) seed = 1 then fmdrop seed (st_inventory s)
         else fmupd seed (map_get (st_inventory s) seed - 1) (st_inventory s)),
       st_plots := fmupd plotId (planted_plot (pl_id plot) crop now m) (st_plots s),
       st_tasks := count_task 2 (st_tasks s)\<rparr>"
    "\<exists>ups rem. (ups, rem) = (if map_get (st_inventory s) seed = 1 then ([], [seed])
         else ([ItemStackView seed (map_get (st_inventory s) seed - 1)], [])) \<and>
       p = PlantResponse seed (PlayerStatePatch None ups rem [plotView (planted_plot (pl_id plot) crop now m)]
         (Some (chapterView s1)) None None)"
  have "pl_id (planted_plot (pl_id plot) crop now m) = plotId"
    using state_ok_id [OF ok d(1)] by (simp add: planted_plot_def)
  then show ?thesis
    using d(3) patch_take_one [of _ _ s seed s1 "planted_plot (pl_id plot) crop now m"] d(2) by fastforce
qed

interpretation plant: synced_command PLANT
  "\<lambda>C caller req cfg now rid. plantBody cfg plotId seed now" "\<lambda>caller req. plantFingerprint caller req plotId seed"
  "\<lambda>C caller req. plant C caller req plotId seed" for plotId seed
proof (unfold_locales, goal_cases)
  case (1 C caller req cfg now s)
  then show ?case by (simp add: plant_def storePlantFailure_def replayPlant_def)
next
  case (2 C caller req cfg now rid s e s1)
  then show ?case by (auto simp: plantBody_def Let_def split: if_splits option.splits)
next
  case (5 s cfg now C caller req rid p obx s1 ch)
  then show ?case by (rule plant_done_ok)
next
  case (6 s C caller req cfg now rid p obx s1 ch)
  then show ?case by (rule plant_done_patch)
next
  case (7 s C caller req cfg now rid p obx s1 ch)
  then show ?case by (elim plant_Done) (auto intro: unchanged_outside_upd)
qed (elim plant_Done, auto)+

lemma fertilizer_effect_ok:
  assumes "fertilizer_valid f" "planted \<le> now" "0 < now" "now \<le> to_i64 (max_i64 - fc_duration_ms f)" "i \<noteq> 0"
    "length e = 16" "fc_duration_ms f \<le> max_i64"
  shows "effect_ok FERTILIZER planted (Some (fertilizer_effect e i f now))"
proof -
  have "to_i64 (max_i64 - fc_duration_ms f) = max_i64 - fc_duration_ms f"
    using assms(1,7) by (intro to_i64_id) (auto simp: fertilizer_valid_def in_i64_def max_i64_def)
  then have "now + fc_duration_ms f \<le> max_i64" using assms(4) by simp
  moreover from this have "to_i64 (now + fc_duration_ms f) = now + fc_duration_ms f"
    using assms(1,3) by (intro to_i64_id) (auto simp: fertilizer_valid_def in_i64_def)
  ultimately show ?thesis
    using assms(1,2,5,6) by (simp add: effect_ok_def fertilizer_effect_def fertilizer_valid_def)
qed

lemma settle_clock:
  assumes "state_ok s" "env_ok cfg now s" "fmlookup (st_plots s) i = Some plot"
    "settleGrowingPlot plot now = (Some False, settled)"
  shows "plot_ok settled" "pl_id settled = i" "pl_state settled = GROWING" "pl_last_settled_at_ms settled = now"
    "pl_planted_at_ms settled \<le> now" "i \<noteq> 0"
proof -
  have n: "now \<le> max_i64" "pl_planted_at_ms plot \<le> now" "pl_last_settled_at_ms plot \<le> now"
    using assms(2,3) by (auto simp: env_ok_def clock_ok_def)
  show "plot_ok settled" "pl_id settled = i" "pl_state settled = GROWING" "pl_last_settled_at_ms settled = now"
    "pl_planted_at_ms settled \<le> now" "i \<noteq> 0"
    using settle_plot_ok [OF _ n(1) assms(4)] state_ok_id [OF assms(1,3)] n by (auto simp: plot_ok_def)
qed

lemma fertilizer_done_ok:
  assumes ok: "state_ok s" "env_ok cfg now s" and dn: "fertilizerBody cfg caller plotId item now rid s = Done p obx s1 ch"
  shows "state_ok s1"
proof (rule fertilizer_Done [OF dn])
  fix plot f settled m plot1
  assume d: "item \<noteq> 0" "fmlookup (st_plots s) plotId = Some plot" "Fertilizer cfg item = Some f"
    "map_get (st_inventory s) item \<noteq> 0" "now \<le> to_i64 (max_i64 - fc_duration_ms f)"
    "settleGrowingPlot plot now = (Some False, settled)"
    "plot1 = settled\<lparr>pl_fertilizer_effect := Some (fertilizer_effect (fertilizerEffectID caller rid) item f now)\<rparr>"
    "estimatePlotMatureAtMS plot1 now = Some m"
    "s1 = s\<lparr>st_plots := fmupd plotId (plot1\<lparr>pl_estimated_mature_at_ms := Some m\<rparr>) (st_plots s),
       st_inventory := (if map_get (st_inventory s) item = 1 then fmdrop item (st_inventory s)
         else fmupd item (map_get (st_inventory s) item - 1) (st_inventory s)),
       st_tasks := count_task 3 (st_tasks s)\<rparr>"
  have env: "config_ok cfg" "config_range cfg" "0 < now" using ok(2) by (simp_all add: env_ok_def)
  note st = settle_clock [OF ok d(2,6)]
  have "fertilizer_valid f" "fc_duration_ms f \<le> max_i64"
    using config_lookup(3) [OF env(1) d(3)] env(2) d(3) by (auto simp: config_range_def Fertilizer_def)
  then have p1: "plot_ok plot1" "pl_state plot1 = GROWING" "pl_last_settled_at_ms plot1 = now" "pl_id plot1 = plotId"
    using st env(3) d(1,5) fertilizer_effect_ok plot_ok_set_fertilizer
    by (auto simp: d(7) fertilizerEffectID_def)
  have "plots_ok (fmupd plotId (plot1\<lparr>pl_estimated_mature_at_ms := Some m\<rparr>) (st_plots s))"
    using state_ok_plotsD [OF ok(1)] renew_estimate(1) [OF p1(1,2)] d(8) p1(3,4)
    by (intro plots_ok_upd) simp_all
  moreover have "inventory_ok (if map_get (st_inventory s) item = 1 then fmdrop item (st_inventory s)
      else fmupd item (map_get (st_inventory s) item - 1) (st_inventory s))"
    using ok(1) d(4) by (intro take_one_ok) (auto simp: state_ok_def)
  ultimately show ?thesis
    unfolding d(9) using ok(1) count_task_ok by (simp add: state_ok_def) blast
qed

lemma fertilizer_done_patch:
  assumes ok: "state_ok s" and dn: "fertilizerBody cfg caller plotId item now rid s = Done p obx s1 ch"
  shows "\<exists>patch. payload_patch p = Some patch \<and> apply_patch patch (client_of s) = client_of s1"
proof (rule fertilizer_Done [OF dn])
  fix plot f settled m plot1
  assume d: "fmlookup (st_plots s) plotId = Some plot"
    "settleGrowingPlot plot now = (Some False, settled)"
    "plot1 = settled\<lparr>pl_fertilizer_effect := Some (fertilizer_effect (fertilizerEffectID caller rid) item f now)\<rparr>"
    "s1 = s\<lparr>st_plots := fmupd plotId (plot1\<lparr>pl_estimated_mature_at_ms := Some m\<rparr>) (st_plots s),
       st_inventory := (if map_get (st_inventory s) item = 1 then fmdrop item (st_inventory s)
         else fmupd item (map_get (st_inventory s) item - 1) (st_inventory s)),
       st_tasks := count_task 3 (st_tasks s)\<rparr>"
    "\<exists>ups rem. (ups, rem) = (if map_get (st_inventory s) item = 1 then ([], [item])
         else ([ItemStackView item (map_get (st_inventory s) item - 1)], [])) \<and>
       p = ApplyFertilizerResponse item (formatUUIDBytes (fertilizerEffectID caller rid))
         (PlayerStatePatch None ups rem [plotView (plot1\<lparr>pl_estimated_mature_at_ms := Some m\<rparr>)]
           (Some (chapterView s1)) None None)"
  have "pl_id plot1 = plotId"
    using settle_id [OF d(2)] state_ok_id [OF ok d(1)] by (simp add: d(3))
  then show ?thesis
    using d(5) patch_take_one [of _ _ s item s1 "plot1\<lparr>pl_estimated_mature_at_ms := Some m\<rparr>"] d(4) by fastforce
qed

interpretation apply_fertilizer: synced_command APPLY_FERTILIZER
  "\<lambda>C caller req cfg now. fertilizerBody cfg caller plotId item now"
  "\<lambda>caller req. fertilizerFingerprint caller req plotId item"
  "\<lambda>C caller req. applyFertilizer C caller req plotId item" for plotId item
proof (unfold_locales, goal_cases)
  case (1 C caller req cfg now s)
  then show ?case by (simp add: applyFertilizer_def storeFertilizerFailure_def replayFertilizer_def)
next
  case (2 C caller req cfg now rid s e s1)
  then show ?case
    by (auto simp: fertilizerBody_def fertilizer_finish_def Let_def
        split: if_splits option.splits prod.splits bool.splits)
next
  case (5 s cfg now C caller req rid p obx s1 ch)
  then show ?case by (rule fertilizer_done_ok)
next
  case (6 s C caller req cfg now rid p obx s1 ch)
  then show ?case by (rule fertilizer_done_patch)
next
  case (7 s C caller req cfg now rid p obx s1 ch)
  then show ?case by (elim fertilizer_Done) (auto intro: unchanged_outside_upd)
qed (elim fertilizer_Done, auto)+

lemma catchPest_done_ok:
  assumes ok: "state_ok s" "env_ok cfg now s" and dn: "catchPestBody plotId now s = Done p obx s1 ch"
  shows "state_ok s1"
proof (rule catchPest_Done [OF dn])
  fix plot settled m
  assume d: "fmlookup (st_plots s) plotId = Some plot" "settleGrowingPlot plot now = (Some False, settled)"
    "estimatePlotMatureAtMS (settled\<lparr>pl_pest_effect := None\<rparr>) now = Some m"
    "s1 = s\<lparr>st_plots := fmupd plotId (settled\<lparr>pl_pest_effect := None, pl_estimated_mature_at_ms := Some m\<rparr>) (st_plots s)\<rparr>"
  note st = settle_clock [OF ok d(1,2)]
  have "plot_ok (settled\<lparr>pl_pest_effect := None\<rparr>)"
    by (rule plot_ok_set_pest) (use st in simp_all)
  then have "plots_ok (fmupd plotId (settled\<lparr>pl_pest_effect := None, pl_estimated_mature_at_ms := Some m\<rparr>) (st_plots s))"
    using renew_estimate(1) [of "settled\<lparr>pl_pest_effect := None\<rparr>" m] st d(3) state_ok_plotsD [OF ok(1)]
    by (intro plots_ok_upd) simp_all
  then show ?thesis unfolding d(4) using ok(1) by (intro state_ok_plots)
qed

lemma catchPest_done_patch:
  assumes ok: "state_ok s" and dn: "catchPestBody plotId now s = Done p obx s1 ch"
  shows "\<exists>patch. payload_patch p = Some patch \<and> apply_patch patch (client_of s) = client_of s1"
proof (rule catchPest_Done [OF dn])
  fix plot settled :: plot and m
  let ?q = "settled\<lparr>pl_pest_effect := None, pl_estimated_mature_at_ms := Some m\<rparr>"
  assume d: "fmlookup (st_plots s) plotId = Some plot" "settleGrowingPlot plot now = (Some False, settled)"
    "s1 = s\<lparr>st_plots := fmupd plotId ?q (st_plots s)\<rparr>"
    "p = CatchPestResponse (PlayerStatePatch None [] [] [plotView ?q] None None None)"
  have "pl_id ?q = plotId" using settle_id [OF d(2)] state_ok_id [OF ok d(1)] by simp
  then have "apply_patch (PlayerStatePatch None [] [] [plotView ?q] None None None) (client_of s) = client_of s1"
    by (intro patch_plot_items [of s1 s plotId ?q]) (simp_all add: d(3) chapterView_def)
  then show ?thesis by (simp add: d(4))
qed

interpretation catch_pest: synced_command CATCH_PEST
  "\<lambda>C caller req cfg now rid. catchPestBody plotId now" "\<lambda>caller req. catchPestFingerprint caller req plotId"
  "\<lambda>C caller req. catchPest C caller req plotId" for plotId
proof (unfold_locales, goal_cases)
  case (1 C caller req cfg now s)
  then show ?case by (simp add: catchPest_def storeCatchPestFailure_def replayCatchPest_def)
next
  case (2 C caller req cfg now rid s e s1)
  then show ?case
    by (auto simp: catchPestBody_def Let_def split: if_splits option.splits prod.splits bool.splits)
next
  case (5 s cfg now C caller req rid p obx s1 ch)
  then show ?case by (rule catchPest_done_ok)
next
  case (6 s C caller req cfg now rid p obx s1 ch)
  then show ?case by (rule catchPest_done_patch)
next
  case (7 s C caller req cfg now rid p obx s1 ch)
  then show ?case by (elim catchPest_Done) (auto intro: unchanged_outside_upd)
qed (elim catchPest_Done, auto)+

lemma harvest_done_ok:
  assumes ok: "state_ok s" and dn: "harvestBody plotId s = Done p obx s1 ch"
  shows "state_ok s1"
proof (rule harvest_Done [OF dn])
  fix plot s0
  assume d: "fmlookup (st_plots s) plotId = Some plot" "pl_state plot = MATURE"
    "unat (map_get (st_inventory s) (pl_crop_item_id plot)) + unat (pl_base_yield plot - pl_stolen_quantity plot) \<le> 300"
    "credited plot (pl_base_yield plot - pl_stolen_quantity plot) s s0"
    "harvest_finish plotId plot (pl_base_yield plot - pl_stolen_quantity plot)
       (map_get (st_inventory s) (pl_crop_item_id plot)) s0 = Done p obx s1 ch"
  have c: "state_ok s0" by (rule credited_ok [OF ok d(1-4)])
  have "plots_ok (fmupd plotId (harvested_plot plot) (st_plots s0))"
    using state_ok_id [OF ok d(1)] plot_ok_harvested [OF _ d(2)] state_ok_plotsD [OF c]
    by (intro plots_ok_upd) (simp_all add: harvested_plot_def)
  moreover have "s1 = s0\<lparr>st_plots := fmupd plotId (harvested_plot plot) (st_plots s0), st_tasks := count_task 4 (st_tasks s0)\<rparr>"
    using d(5) by (simp add: harvest_finish_Done)
  ultimately show ?thesis
    using c count_task_ok by (simp add: state_ok_def) blast
qed

lemma harvest_done_patch:
  assumes ok: "state_ok s" and dn: "harvestBody plotId s = Done p obx s1 ch"
  shows "\<exists>patch. payload_patch p = Some patch \<and> apply_patch patch (client_of s) = client_of s1"
proof (rule harvest_Done [OF dn])
  fix plot :: plot and s0
  let ?h = "pl_base_yield plot - pl_stolen_quantity plot"
  let ?c = "map_get (st_inventory s) (pl_crop_item_id plot)"
  assume d: "fmlookup (st_plots s) plotId = Some plot" "pl_state plot = MATURE"
    "unat ?c + unat ?h \<le> 300" "credited plot ?h s s0" "harvest_finish plotId plot ?h ?c s0 = Done p obx s1 ch"
  have "pl_id (harvested_plot plot) = plotId" using state_ok_id [OF ok d(1)] by (simp add: harvested_plot_def)
  then show ?thesis
    using d(5) credited_frame(1,3,4) [OF d(4)]
    by (auto simp: harvest_finish_Done client_of_def apply_patch_def map_get_fun_upd plots_fun_upd)
qed

interpretation harvest: synced_command HARVEST
  "\<lambda>C caller req cfg now rid. harvestBody plotId" "\<lambda>caller req. harvestFingerprint caller req plotId"
  "\<lambda>C caller req. harvest C caller req plotId" for plotId
proof (unfold_locales, goal_cases)
  case (1 C caller req cfg now s)
  then show ?case by (simp add: harvest_def storeHarvestFailure_def replayHarvest_def)
next
  case (2 C caller req cfg now rid s e s1)
  then show ?case by (blast dest: harvest_Failed)
next
  case (3 C caller req cfg now rid s p obx s1 ch)
  then show ?case by (elim harvest_Done) (simp add: harvest_finish_Done)
next
  case (4 C caller req cfg now rid s p obx s1 ch)
  then show ?case
    by (elim harvest_Done) (simp add: harvest_finish_Done credited_frame)
next
  case (5 s cfg now C caller req rid p obx s1 ch)
  show ?case by (rule harvest_done_ok [OF 5(1,3)])
next
  case (6 s C caller req cfg now rid p obx s1 ch)
  then show ?case by (rule harvest_done_patch)
next
  case (7 s C caller req cfg now rid p obx s1 ch)
  then show ?case
    by (elim harvest_Done) (auto simp: harvest_finish_Done credited_frame intro!: unchanged_outside_upd)
qed

interpretation clean_plot: synced_command CLEAN_PLOT
  "\<lambda>C caller req cfg now rid. cleanPlotBody plotId" "\<lambda>caller req. cleanPlotFingerprint caller req plotId"
  "\<lambda>C caller req. cleanPlot C caller req plotId" for plotId
proof (unfold_locales, goal_cases)
  case (1 C caller req cfg now s)
  then show ?case by (simp add: cleanPlot_def storeCleanPlotFailure_def replayCleanPlot_def)
next
  case (2 C caller req cfg now rid s e s1)
  then show ?case by (auto simp: cleanPlotBody_def split: if_splits option.splits)
next
  case (5 s cfg now C caller req rid p obx s1 ch)
  then show ?case
    by (elim cleanPlot_Done) (auto intro!: state_ok_plots plots_ok_upd state_ok_plotsD)
next
  case (6 s C caller req cfg now rid p obx s1 ch)
  then show ?case
    by (elim cleanPlot_Done) (auto intro!: patch_plot_items simp: chapterView_def)
next
  case (7 s C caller req cfg now rid p obx s1 ch)
  then show ?case by (elim cleanPlot_Done) (auto intro: unchanged_outside_upd)
qed (elim cleanPlot_Done, auto)+

section \<open>Effects and the time of maturity\<close>

lemma growth_sum_mono_rate:
  "(\<And>t. a \<le> t \<Longrightarrow> t < b \<Longrightarrow> rate_at p t \<le> rate_at q t) \<Longrightarrow> growth_sum p a b \<le> growth_sum q a b"
  unfolding growth_sum_def by (rule sum_mono) simp

text \<open>A plot that grows at least as fast matures no later.\<close>

lemma faster_reaches:
  assumes "reaches p a rem m" "reaches q a rem m'" "\<And>t. a \<le> t \<Longrightarrow> rate_at p t \<le> rate_at q t"
  shows "m' \<le> m"
proof (rule ccontr)
  assume "\<not> m' \<le> m"
  then have "growth_sum q a m \<le> growth_sum q a (m' - 1)"
    using assms(1,2) by (intro growth_sum_mono) (auto simp: reaches_def all_valid_def)
  moreover have "growth_sum p a m \<le> growth_sum q a m"
    using assms(3) by (intro growth_sum_mono_rate)
  ultimately show False using assms(1,2) by (simp add: reaches_def)
qed

lemma rate_at_eq:
  "rate_at p t = pl_base_rate_scaled6 p +
     (case pl_fertilizer_effect p of Some e \<Rightarrow> if effect_active e t then the (eff_modifier e) else 0 | None \<Rightarrow> 0) +
     (case pl_pest_effect p of Some e \<Rightarrow> if effect_active e t then the (eff_modifier e) else 0 | None \<Rightarrow> 0)"
  by (simp add: rate_at_def effects_of_def split: option.split)

lemma settle_keeps_estimate:
  assumes ok: "estimate_ok p" "pl_estimated_mature_at_ms p = Some m" "now \<le> max_i64"
    and st: "settleGrowingPlot p now = (Some False, q)"
  shows "now < m" "q = settled_to p (max now (pl_last_settled_at_ms p))"
proof -
  show lt: "now < m"
  proof (rule ccontr)
    assume "\<not> now < m"
    then have m: "m \<le> now" by simp
    have g: "growing_plot_ok p" using ok(1) by (simp add: estimate_ok_def)
    have r: "reaches p (pl_last_settled_at_ms p) (pl_maturity_scaled9 p - pl_settled_scaled9 p) m"
      using estimate_ok_reaches [OF ok(1)] ok(2) by (metis option.inject)
    then have t: "max now (pl_last_settled_at_ms p) = now" using m by (simp add: reaches_def)
    have "all_valid p (pl_last_settled_at_ms p) now"
      using st settleGrowingPlot_eq [OF g refl, of now] ok(3) t by (auto split: if_splits)
    then have "all_valid p m now"
      using r m all_valid_split [of "pl_last_settled_at_ms p" m now p] by (simp add: reaches_def)
    then show False using settle_from_estimate [OF ok(1,2) m ok(3)] st by simp
  qed
  show "q = settled_to p (max now (pl_last_settled_at_ms p))"
    using settle_before_estimate(1) [OF ok(1,2) lt] st by simp
qed

text \<open>The estimate after settling at the present instant and changing effects for the better.\<close>

lemma better_effects_mature_sooner:
  assumes ok: "estimate_ok p" "pl_estimated_mature_at_ms p = Some m" "pl_last_settled_at_ms p \<le> now" "now \<le> max_i64"
    and st: "settleGrowingPlot p now = (Some False, q)"
    and q': "pl_settled_scaled9 q' = pl_settled_scaled9 q" "pl_maturity_scaled9 q' = pl_maturity_scaled9 q"
      "growing_plot_ok q'" "pl_last_settled_at_ms q' = now"
    and rates: "\<And>t. now \<le> t \<Longrightarrow> rate_at q t \<le> rate_at q' t"
    and m': "estimatePlotMatureAtMS q' now = Some m'"
  shows "m' \<le> m"
proof -
  have q: "now < m" "q = settled_to p now"
    using settle_keeps_estimate [OF ok(1,2,4) st] ok(3) by (simp_all add: max_def)
  have "estimate_ok q" "pl_estimated_mature_at_ms q = Some m"
    using settle_before_estimate(2) [OF ok(1,2) q(1)] ok(2,3) by (simp_all add: q(2) max_def settled_to_def)
  then have "reaches q now (pl_maturity_scaled9 q - pl_settled_scaled9 q) m"
    using estimate_ok_reaches [of q] q(2) by (metis option.inject settled_to_simps(2))
  moreover have "reaches q' now (pl_maturity_scaled9 q' - pl_settled_scaled9 q') m'"
    using m' q'(3,4) by (subst estimatePlotMatureAtMS_iff [symmetric])
      (auto simp: growing_plot_ok_def growing_fields_ok_def)
  ultimately show ?thesis using rates by (intro faster_reaches [of q now _ m q']) (simp_all add: q'(1,2))
qed

section \<open>Properties\<close>

definition plantable :: "config_snapshot \<Rightarrow> u32 \<Rightarrow> u32 \<Rightarrow> int \<Rightarrow> state \<Rightarrow> crop_config \<Rightarrow> bool" where
  "plantable cfg plotId seed now s crop \<longleftrightarrow> plotId \<noteq> 0 \<and> seed \<noteq> 0 \<and>
     (\<exists>plot. fmlookup (st_plots s) plotId = Some plot \<and> pl_state plot = EMPTY) \<and>
     CropForSeed cfg seed = Some crop \<and> cc_enabled crop \<and> 0 < acc_item (account_of s) seed \<and>
     estimateMatureAtMS now (cc_maturity_scaled9 crop) (cc_base_rate_scaled6 crop) \<noteq> None"

lemma plant_Done_iff:
  "(\<exists>p obx s1 ch. plantBody cfg plotId seed now s = Done p obx s1 ch) \<longleftrightarrow> (\<exists>crop. plantable cfg plotId seed now s crop)"
proof
  assume "\<exists>p obx s1 ch. plantBody cfg plotId seed now s = Done p obx s1 ch"
  then show "\<exists>crop. plantable cfg plotId seed now s crop"
    by (auto simp: plantBody_def plantable_def Let_def account_of_def unat_pos_iff split: if_splits option.splits)
next
  assume "\<exists>crop. plantable cfg plotId seed now s crop"
  then show "\<exists>p obx s1 ch. plantBody cfg plotId seed now s = Done p obx s1 ch"
    by (auto simp: plantBody_def plantable_def Let_def account_of_def unat_pos_iff)
qed

lemma plant_effect:
  assumes ok: "state_ok s" "env_ok cfg now s" and dn: "plantBody cfg plotId seed now s = Done p obx s1 ch"
  shows "account_of s1 = spend seed 1 (account_of s)"
    "\<exists>crop q. CropForSeed cfg seed = Some crop \<and> fmlookup (st_plots s1) plotId = Some q \<and>
       pl_state q = GROWING \<and> pl_crop_id q = cc_crop_id crop \<and> pl_planted_at_ms q = now \<and> estimate_ok q"
proof -
  show "account_of s1 = spend seed 1 (account_of s)"
    by (rule plant_Done [OF dn]) (simp only: account_of_def, simp add: take_one_account)
  show "\<exists>crop q. CropForSeed cfg seed = Some crop \<and> fmlookup (st_plots s1) plotId = Some q \<and>
       pl_state q = GROWING \<and> pl_crop_id q = cc_crop_id crop \<and> pl_planted_at_ms q = now \<and> estimate_ok q"
  proof (rule plant_Done [OF dn])
    fix plot crop m
    assume d: "plotId \<noteq> 0" "fmlookup (st_plots s) plotId = Some plot" "CropForSeed cfg seed = Some crop"
      "estimateMatureAtMS now (cc_maturity_scaled9 crop) (cc_base_rate_scaled6 crop) = Some m"
      "s1 = s\<lparr>st_inventory := (if map_get (st_inventory s) seed = 1 then fmdrop seed (st_inventory s)
           else fmupd seed (map_get (st_inventory s) seed - 1) (st_inventory s)),
         st_plots := fmupd plotId (planted_plot (pl_id plot) crop now m) (st_plots s),
         st_tasks := count_task 2 (st_tasks s)\<rparr>"
    have env: "config_ok cfg" "config_range cfg" "0 < now" "now \<le> max_i64" using ok(2) by (simp_all add: env_ok_def)
    have "estimate_ok (planted_plot (pl_id plot) crop now m)"
      using config_lookup(2) [OF env(1) d(3)] env d(1,3,4) state_ok_id [OF ok(1) d(2)]
      by (intro planted_plot_estimate) (auto simp: config_range_def CropForSeed_def)
    then show ?thesis using d(3,5) by (auto simp: planted_plot_def)
  qed
qed

text \<open>
  C21: a fresh \<open>PLANT\<close> succeeds exactly when the plot exists and is empty, the seed belongs to an
  enabled crop and is owned, and the maturity instant fits an \<open>int64\<close>; then exactly one seed is
  spent, the plot grows that crop from now on with an exact estimate, and no other plot changes.
\<close>

theorem plant_exact:
  assumes "state_ok s" "env_ok cfg now s" "parseRequestID (req_request_id req) = Some rid"
    "find_stored caller rid (st_recent_results s) = None"
    "plant C caller req plotId seed cfg now s = (resp, dirty, ch, s')"
  shows "(resp_error resp = None \<longleftrightarrow> (\<exists>crop. plantable cfg plotId seed now s crop)) \<and>
    (resp_error resp = None \<longrightarrow>
      account_of s' = spend seed 1 (account_of s) \<and>
      (\<exists>crop q. CropForSeed cfg seed = Some crop \<and> fmlookup (st_plots s') plotId = Some q \<and>
         pl_state q = GROWING \<and> pl_crop_id q = cc_crop_id crop \<and> pl_planted_at_ms q = now \<and> estimate_ok q) \<and>
      (\<forall>i. i \<noteq> plotId \<longrightarrow> fmlookup (st_plots s') i = fmlookup (st_plots s) i))"
proof -
  note f = plant.fresh_handler [OF assms(3-5)]
  have "account_of s' = spend seed 1 (account_of s) \<and>
      (\<exists>crop q. CropForSeed cfg seed = Some crop \<and> fmlookup (st_plots s') plotId = Some q \<and>
         pl_state q = GROWING \<and> pl_crop_id q = cc_crop_id crop \<and> pl_planted_at_ms q = now \<and> estimate_ok q) \<and>
      (\<forall>i. i \<noteq> plotId \<longrightarrow> fmlookup (st_plots s') i = fmlookup (st_plots s) i)"
    if ok: "resp_error resp = None"
  proof -
    obtain p obx s1 ch1 where d: "plantBody cfg plotId seed now s = Done p obx s1 ch1" using f(2) ok by blast
    have "\<forall>i. i \<noteq> plotId \<longrightarrow> fmlookup (st_plots s1) i = fmlookup (st_plots s) i"
      by (rule plant_Done [OF d]) simp
    then show ?thesis using f(3) [OF d] plant_effect [OF assms(1,2) d] by simp
  qed
  then show ?thesis using f(2) plant_Done_iff by blast
qed

definition sower :: state where
  "sower = (NewDevelopmentState 7 1000)\<lparr>st_inventory := fmupd 1001 2 (fmupd 1 1 fmempty)\<rparr>"

lemma sower_ok: "state_ok sower" "env_ok dev_config 1000 sower"
  using initial_state_ok [of 7 1000] dev_env
  by (auto simp: sower_def state_ok_def inventory_ok_def env_ok_def clock_ok_def)

lemma dev_crop: "CropForSeed dev_config 1001 = Some (hd development_crops)"
proof -
  have "hd development_crops \<in> set development_crops" by (simp add: development_crops_def)
  from load_section_lookup [OF dev_parts(4) this] show ?thesis
    by (simp add: CropForSeed_def development_crops_def)
qed

lemma fresh_sower [simp]: "find_stored 7 rid (st_recent_results sower) = None"
  by (simp add: find_stored_def sower_def NewDevelopmentState_def)

theorem plant_exact_witness:
  "resp_error (fst (plant ref_codec 7 (sample_request PLANT (PlantRequest 1 1001)) 1 1001 dev_config 1000 sower)) = None"
proof -
  let ?r = "plant ref_codec 7 (sample_request PLANT (PlantRequest 1 1001)) 1 1001 dev_config 1000 sower"
  obtain resp dirty ch s' where r: "?r = (resp, dirty, ch, s')" by (metis prod.exhaust)
  have "plantable dev_config 1 1001 1000 sower (hd development_crops)"
    by (simp add: plantable_def dev_crop development_crops_def sower_def account_of_def map_get_def
        NewDevelopmentState_def newInitialPlots_lookup initial_plot_ids_eq estimateMatureAtMS_def
        go_quo_def go_rem_def max_i64_def)
  then show ?thesis
    using plant_exact [OF sower_ok _ fresh_sower r] unfolding r by auto
qed

definition harvestable_now :: "u32 \<Rightarrow> state \<Rightarrow> plot \<Rightarrow> bool" where
  "harvestable_now plotId s plot \<longleftrightarrow> plotId \<noteq> 0 \<and> fmlookup (st_plots s) plotId = Some plot \<and> pl_state plot = MATURE \<and>
     (harvestable plot \<noteq> 0 \<and> acc_item (account_of s) (pl_crop_item_id plot) = 0 \<longrightarrow> map_len (st_inventory s) < 100) \<and>
     acc_item (account_of s) (pl_crop_item_id plot) + unat (harvestable plot) \<le> 300 \<and>
     unat (car_total_harvested (careerOf s)) + unat (harvestable plot) < 2 ^ 64"

lemma unat_ucast_u64: "unat (ucast (q :: u32) :: u64) = unat q"
  using unsigned_less [of q, where ?'a = nat] by (simp add: unsigned_ucast_eq take_bit_nat_eq_self)

lemma checkedAddUint64_None:
  "checkedAddUint64 a (ucast (q :: u32)) = None \<longleftrightarrow> 2 ^ 64 \<le> unat a + unat q"
proof -
  have a: "unat a < 2 ^ 64" using unsigned_less [of a, where ?'a = nat] by simp
  have q: "unat (ucast q :: u64) = unat q" "unat q < 2 ^ 32"
    using unsigned_less [of q, where ?'a = nat] by (simp_all add: unsigned_ucast_eq take_bit_nat_eq_self)
  have "unat (max_u64 - a) = unat max_u64 - unat a"
    by (rule unat_sub) (use a in \<open>simp add: max_u64_def word_le_nat_alt\<close>)
  then show ?thesis
    using a q by (auto simp: checkedAddUint64_def word_less_nat_alt max_u64_def)
qed

lemma mature_harvestable:
  "plot_ok plot \<Longrightarrow> pl_state plot = MATURE \<Longrightarrow> harvestable plot = pl_base_yield plot - pl_stolen_quantity plot"
  by (simp add: harvestable_def plot_ok_def mature_ok_def crop_identity_def)

lemma harvest_Done_iff:
  assumes "state_ok s"
  shows "(\<exists>p obx s1 ch. harvestBody plotId s = Done p obx s1 ch) \<longleftrightarrow> (\<exists>plot. harvestable_now plotId s plot)"
proof
  assume "\<exists>p obx s1 ch. harvestBody plotId s = Done p obx s1 ch"
  then obtain p obx s1 ch where d: "harvestBody plotId s = Done p obx s1 ch" by blast
  show "\<exists>plot. harvestable_now plotId s plot"
  proof (rule harvest_Done [OF d])
    fix plot :: plot and s0
    let ?h = "pl_base_yield plot - pl_stolen_quantity plot"
    assume h: "plotId \<noteq> 0" "fmlookup (st_plots s) plotId = Some plot" "pl_state plot = MATURE"
      "unat (map_get (st_inventory s) (pl_crop_item_id plot)) + unat ?h \<le> 300"
      "\<not> (0 < ?h \<and> map_get (st_inventory s) (pl_crop_item_id plot) = 0 \<and> 100 \<le> map_len (st_inventory s))"
      "credited plot ?h s s0"
    have "harvestable plot = ?h" using mature_harvestable [OF _ h(3)] state_ok_id [OF assms h(2)] by simp
    moreover have "unat (car_total_harvested (careerOf s)) + unat ?h < 2 ^ 64"
      using h(6) checkedAddUint64_None [of "car_total_harvested (careerOf s)" ?h]
        unsigned_less [of "car_total_harvested (careerOf s)", where ?'a = nat]
      by (auto simp: credited_def u32_pos_iff split: if_splits)
    ultimately show ?thesis
      using h by (auto simp: harvestable_now_def account_of_def word_neq_0_conv unat_eq_zero)
  qed
next
  assume "\<exists>plot. harvestable_now plotId s plot"
  then obtain plot where h: "harvestable_now plotId s plot" by blast
  have eq: "harvestable plot = pl_base_yield plot - pl_stolen_quantity plot"
    using h mature_harvestable state_ok_id [OF assms] by (auto simp: harvestable_now_def)
  obtain c where "checkedAddUint64 (car_total_harvested (careerOf s)) (ucast (harvestable plot)) = Some c"
    using h checkedAddUint64_None [of "car_total_harvested (careerOf s)" "harvestable plot"]
    by (auto simp: harvestable_now_def)
  then show "\<exists>p obx s1 ch. harvestBody plotId s = Done p obx s1 ch"
    using h by (auto simp: harvestable_now_def eq harvestBody_def harvest_finish_def account_of_def Let_def
        inventoryTypeLimit_def inventoryStackLimit_def unat_eq_zero u32_pos_iff)
qed

lemma harvest_effect:
  assumes ok: "state_ok s" and dn: "harvestBody plotId s = Done p obx s1 ch" and plot: "fmlookup (st_plots s) plotId = Some plot"
  shows "account_of s1 = gain (pl_crop_item_id plot) (unat (harvestable plot)) (account_of s)"
    "unat (car_total_harvested (careerOf s1)) = unat (car_total_harvested (careerOf s)) + unat (harvestable plot)"
    "map_option pl_state (fmlookup (st_plots s1) plotId) = Some NEED_CLEANUP"
    "\<And>i. i \<noteq> plotId \<Longrightarrow> fmlookup (st_plots s1) i = fmlookup (st_plots s) i"
    "harvestable plot \<noteq> 0 \<Longrightarrow> pl_crop_id plot \<in> set (cmv_unlocked_crop_ids (compendiumView s1))"
proof -
  obtain s0 where d: "pl_state plot = MATURE"
    "unat (map_get (st_inventory s) (pl_crop_item_id plot)) + unat (harvestable plot) \<le> 300"
    "credited plot (harvestable plot) s s0"
    "harvest_finish plotId plot (harvestable plot) (map_get (st_inventory s) (pl_crop_item_id plot)) s0 = Done p obx s1 ch"
    using harvest_Done [OF dn] plot mature_harvestable state_ok_id [OF ok plot] by (metis option.inject)
  have h: "0 < harvestable plot \<longleftrightarrow> harvestable plot \<noteq> 0" by (rule u32_pos_iff)
  have s1: "s1 = s0\<lparr>st_plots := fmupd plotId (harvested_plot plot) (st_plots s0), st_tasks := count_task 4 (st_tasks s0)\<rparr>"
    using d(4) by (simp add: harvest_finish_Done)
  note c = credited_frame [OF d(3)]
  show "account_of s1 = gain (pl_crop_item_id plot) (unat (harvestable plot)) (account_of s)"
    using stack_add(1) [OF d(2)] by (auto simp: s1 account_of_def c(3,4) map_simps fun_eq_iff h)
  show "unat (car_total_harvested (careerOf s1)) = unat (car_total_harvested (careerOf s)) + unat (harvestable plot)"
    using d(3) checkedAddUint64_Some [of "car_total_harvested (careerOf s)" "ucast (harvestable plot)"]
    by (auto simp: s1 credited_def h careerOf_def unat_ucast_u64 split: if_splits)
  show "map_option pl_state (fmlookup (st_plots s1) plotId) = Some NEED_CLEANUP"
    by (simp add: s1 harvested_plot_def)
  show "fmlookup (st_plots s1) i = fmlookup (st_plots s) i" if "i \<noteq> plotId" for i
    using that by (simp add: s1 c(1))
  have id: "pl_crop_id plot \<noteq> 0"
    using state_ok_id [OF ok plot] d(1) by (simp add: plot_ok_def mature_ok_def crop_identity_def)
  show "pl_crop_id plot \<in> set (cmv_unlocked_crop_ids (compendiumView s1))" if "harvestable plot \<noteq> 0"
    using that d(3) id by (auto simp: s1 credited_def h compendiumView_def unlockCrop_def Let_def split: option.splits)
qed

text \<open>
  C22: a fresh \<open>HARVEST\<close> succeeds exactly when the plot is mature and the crop fits (a new item type
  only below 100 types, a stack only up to 300, the career counter within \<open>uint64\<close>); then the account
  gains precisely what the plot view advertised as harvestable, the lifetime counter grows by as
  much, the crop is unlocked in the compendium, the plot needs cleanup and no other plot changes.
\<close>

theorem harvest_exact:
  assumes "state_ok s" "parseRequestID (req_request_id req) = Some rid"
    "find_stored caller rid (st_recent_results s) = None"
    "harvest C caller req plotId cfg now s = (resp, dirty, ch, s')"
  shows "(resp_error resp = None \<longleftrightarrow> (\<exists>plot. harvestable_now plotId s plot)) \<and>
    (\<forall>plot. resp_error resp = None \<and> fmlookup (st_plots s) plotId = Some plot \<longrightarrow>
      account_of s' = gain (pl_crop_item_id plot) (unat (pv_harvestable_quantity (plotView plot))) (account_of s) \<and>
      unat (car_total_harvested (careerOf s')) =
        unat (car_total_harvested (careerOf s)) + unat (pv_harvestable_quantity (plotView plot)) \<and>
      map_option pl_state (fmlookup (st_plots s') plotId) = Some NEED_CLEANUP \<and>
      (\<forall>i. i \<noteq> plotId \<longrightarrow> fmlookup (st_plots s') i = fmlookup (st_plots s) i) \<and>
      (pv_harvestable_quantity (plotView plot) \<noteq> 0 \<longrightarrow>
        pl_crop_id plot \<in> set (cmv_unlocked_crop_ids (compendiumView s'))))"
proof -
  note f = harvest.fresh_handler [OF assms(2-4)]
  have "account_of s' = gain (pl_crop_item_id plot) (unat (harvestable plot)) (account_of s) \<and>
      unat (car_total_harvested (careerOf s')) = unat (car_total_harvested (careerOf s)) + unat (harvestable plot) \<and>
      map_option pl_state (fmlookup (st_plots s') plotId) = Some NEED_CLEANUP \<and>
      (\<forall>i. i \<noteq> plotId \<longrightarrow> fmlookup (st_plots s') i = fmlookup (st_plots s) i) \<and>
      (harvestable plot \<noteq> 0 \<longrightarrow> pl_crop_id plot \<in> set (cmv_unlocked_crop_ids (compendiumView s')))"
    if ok: "resp_error resp = None" and plot: "fmlookup (st_plots s) plotId = Some plot" for plot
  proof -
    obtain p obx s1 ch1 where d: "harvestBody plotId s = Done p obx s1 ch1" using f(2) ok by blast
    show ?thesis
      using f(3) [OF d] harvest_effect [OF assms(1) d plot] by (simp add: careerOf_def compendiumView_def)
  qed
  moreover have "pv_harvestable_quantity (plotView plot) = harvestable plot" for plot
    by (simp add: plotView_def)
  ultimately show ?thesis using f(2) harvest_Done_iff [OF assms(1)] by simp
qed

definition ripe_plot :: plot where
  "ripe_plot = matured_at (planted_plot 1 (hd development_crops) 1000 101000) 101000"

definition reaper :: state where
  "reaper = sower\<lparr>st_plots := fmupd 1 ripe_plot fmempty\<rparr>"

lemma reaper_ok: "state_ok reaper"
proof -
  have "plot_ok ripe_plot"
    by (simp add: plot_ok_def ripe_plot_def matured_at_def planted_plot_def empty_plot_def mature_ok_def
        crop_identity_def development_crops_def ServerConfigVersion_def)
  then show ?thesis
    using sower_ok(1) by (simp add: state_ok_def reaper_def plots_ok_def ripe_plot_def planted_plot_def)
qed

theorem harvest_exact_witness:
  "account_of (snd (snd (snd (harvest ref_codec 7 (sample_request HARVEST (HarvestRequest 1)) 1 dev_config 101000 reaper)))) =
   gain 1002 3 (account_of reaper)"
proof -
  let ?r = "harvest ref_codec 7 (sample_request HARVEST (HarvestRequest 1)) 1 dev_config 101000 reaper"
  obtain resp dirty ch s' where r: "?r = (resp, dirty, ch, s')" by (metis prod.exhaust)
  have look: "fmlookup (st_plots reaper) 1 = Some ripe_plot" by (simp add: reaper_def)
  have q: "harvestable ripe_plot = 3" "pl_crop_item_id ripe_plot = 1002" "pl_state ripe_plot = MATURE"
    by (simp_all add: harvestable_def ripe_plot_def matured_at_def planted_plot_def empty_plot_def development_crops_def)
  have "harvestable_now 1 reaper ripe_plot"
    by (simp add: harvestable_now_def look q account_of_def map_get_def careerOf_def reaper_def sower_def
        NewDevelopmentState_def map_simps)
  moreover have "find_stored 7 (replicate 16 1) (st_recent_results reaper) = None"
    using fresh_sower by (simp add: reaper_def)
  ultimately show ?thesis
    using harvest_exact [OF reaper_ok _ _ r, of "replicate 16 1"] look q unfolding r
    by (auto simp: plotView_def)
qed

text \<open>
  Fertilizing never delays a crop. If a plot's stored estimate \<open>m\<close> is exact and the clock has
  not run backwards, a successful \<open>APPLY_FERTILIZER\<close> spends one item and leaves the plot growing with
  an exact estimate no later than \<open>m\<close>.
\<close>

theorem applyFertilizer_never_delays:
  assumes "state_ok s" "env_ok cfg now s" "fmlookup (st_plots s) plotId = Some plot" "estimate_ok plot"
    "pl_estimated_mature_at_ms plot = Some m"
    "fertilizerBody cfg caller plotId item now rid s = Done p obx s1 ch"
  shows "account_of s1 = spend item 1 (account_of s) \<and>
    (\<exists>q m'. fmlookup (st_plots s1) plotId = Some q \<and> estimate_ok q \<and> pl_estimated_mature_at_ms q = Some m' \<and> m' \<le> m)"
proof (rule fertilizer_Done [OF assms(6)])
  fix plot' f settled m' plot1
  assume d: "item \<noteq> 0" "fmlookup (st_plots s) plotId = Some plot'"
    "\<forall>e. pl_fertilizer_effect plot' = Some e \<longrightarrow> eff_end_at_ms e \<le> now" "Fertilizer cfg item = Some f"
    "map_get (st_inventory s) item \<noteq> 0" "now \<le> to_i64 (max_i64 - fc_duration_ms f)"
    "settleGrowingPlot plot' now = (Some False, settled)"
    "plot1 = settled\<lparr>pl_fertilizer_effect := Some (fertilizer_effect (fertilizerEffectID caller rid) item f now)\<rparr>"
    "estimatePlotMatureAtMS plot1 now = Some m'"
    "s1 = s\<lparr>st_plots := fmupd plotId (plot1\<lparr>pl_estimated_mature_at_ms := Some m'\<rparr>) (st_plots s),
       st_inventory := (if map_get (st_inventory s) item = 1 then fmdrop item (st_inventory s)
         else fmupd item (map_get (st_inventory s) item - 1) (st_inventory s)),
       st_tasks := count_task 3 (st_tasks s)\<rparr>"
  have plot: "plot' = plot" using assms(3) d(2) by simp
  have env: "config_ok cfg" "config_range cfg" "0 < now" "now \<le> max_i64" "pl_last_settled_at_ms plot \<le> now"
    using assms(2,3) by (auto simp: env_ok_def clock_ok_def)
  note st = settle_clock [OF assms(1,2) d(2,7)]
  have f: "fertilizer_valid f" "fc_duration_ms f \<le> max_i64"
    using config_lookup(3) [OF env(1) d(4)] env(2) d(4) by (auto simp: config_range_def Fertilizer_def)
  then have p1: "plot_ok plot1" "pl_state plot1 = GROWING" "pl_last_settled_at_ms plot1 = now"
    using st env(3) d(1,6) fertilizer_effect_ok plot_ok_set_fertilizer
    by (auto simp: d(8) fertilizerEffectID_def)
  have q: "settled = settled_to plot now"
    using settle_keeps_estimate(2) [OF assms(4,5) env(4)] d(7) env(5) plot by (simp add: max_def)
  have "pl_fertilizer_effect settled = None"
    using d(3) by (auto simp: q settled_to_def drop_expired_def plot split: option.splits)
  then have "rate_at settled t \<le> rate_at plot1 t" for t
    using f(1) by (simp add: d(8) rate_at_eq fertilizer_effect_def fertilizer_valid_def)
  then have "m' \<le> m"
    using better_effects_mature_sooner [OF assms(4,5) env(5,4), of settled plot1 m'] d(7,9) plot p1
      growing_ok_growth [OF plot_okD(1) [OF p1(1,2)] p1(2)]
    by (simp add: d(8))
  moreover have "estimate_ok (plot1\<lparr>pl_estimated_mature_at_ms := Some m'\<rparr>)"
    using renew_estimate(2) [OF p1(1,2)] p1(3) d(9) by simp
  ultimately show ?thesis
    using d(5) unfolding d(10) by (simp add: account_of_def take_one_account)
qed

definition seedling :: plot where
  "seedling = planted_plot 1 (hd development_crops) 1000 101000"

definition grower :: state where
  "grower = sower\<lparr>st_plots := fmupd 1 seedling fmempty\<rparr>"

lemma seedling_ok: "plot_ok seedling" "estimate_ok seedling"
proof -
  have c: "crop_valid (hd development_crops)" "cc_maturity_scaled9 (hd development_crops) \<le> max_i64"
    "cc_base_rate_scaled6 (hd development_crops) \<le> max_i64"
    by (simp_all add: development_crops_def crop_valid_def max_i64_def ServerConfigVersion_def)
  show "plot_ok seedling"
    unfolding seedling_def using c by (rule planted_plot_ok) (simp_all add: max_i64_def)
  show "estimate_ok seedling"
    unfolding seedling_def using c by (rule planted_plot_estimate)
      (simp_all add: max_i64_def development_crops_def estimateMatureAtMS_def go_quo_def go_rem_def)
qed

lemma grower_ok: "state_ok grower" "env_ok dev_config 1000 grower"
proof -
  show "state_ok grower"
    using sower_ok(1) seedling_ok(1) by (simp add: state_ok_def grower_def plots_ok_def seedling_def planted_plot_def)
  show "env_ok dev_config 1000 grower"
    using sower_ok(2) by (simp add: env_ok_def clock_ok_def grower_def seedling_def planted_plot_def)
qed

lemma seedling_settle: "settleGrowingPlot seedling 1000 = (Some False, seedling)"
  by code_simp

lemma seedling_estimate:
  "estimatePlotMatureAtMS (seedling\<lparr>pl_fertilizer_effect := Some (fertilizer_effect x 1
     \<lparr>fc_item_id = 1, fc_config_version = 2, fc_modifier_scaled6 = 500000, fc_duration_ms = 60000, fc_enabled = True\<rparr>
     1000)\<rparr>) 1000 = Some 71000"
  by code_simp

lemma seedling_fields: "pl_state seedling = GROWING" "pl_fertilizer_effect seedling = None"
  by (simp_all add: seedling_def planted_plot_def)

theorem applyFertilizer_never_delays_witness:
  "\<exists>p obx s1 ch. fertilizerBody dev_config 7 1 1 1000 (replicate 16 1) grower = Done p obx s1 ch \<and>
     account_of s1 = spend 1 1 (account_of grower)"
proof -
  let ?b = "fertilizerBody dev_config 7 1 1 1000 (replicate 16 1) grower"
  have look: "fmlookup (st_plots grower) 1 = Some seedling" by (simp add: grower_def)
  have "\<exists>p obx s1 ch. ?b = Done p obx s1 ch"
    by (simp add: fertilizerBody_def look dev_fertilizer seedling_settle fertilizer_finish_def seedling_estimate Let_def
        seedling_fields grower_def sower_def map_get_def to_i64_def max_i64_def)
  then obtain p obx s1 ch where d: "?b = Done p obx s1 ch" by blast
  then show ?thesis
    using applyFertilizer_never_delays [OF grower_ok look seedling_ok(2) _ d, of 101000]
    by (simp add: seedling_def planted_plot_def)
qed

end
