(* ===== verification/Chapter.thy ===== *)
theory Chapter
  imports Farming
begin

text \<open>
  \<open>claim_reward.go\<close>: claiming the reward of the current chapter. Coins are credited, items go into the
  inventory as far as stacks and types allow, the rest becomes one reward-mail entry of the outbox,
  and the player moves on to the next chapter.
\<close>

section \<open>The command\<close>

definition claimRewardFingerprint :: "u64 \<Rightarrow> ws_request \<Rightarrow> u32 \<Rightarrow> bytes" where
  "claimRewardFingerprint caller req chapterId = sha256 (fingerprint_head caller req @ be32 chapterId)"

definition storeClaimRewardFailure ::
  "codec \<Rightarrow> ws_request \<Rightarrow> bytes \<Rightarrow> bytes \<Rightarrow> u64 \<Rightarrow> int \<Rightarrow> ws_error \<Rightarrow> state \<Rightarrow> ws_response \<times> state" where
  "storeClaimRewardFailure C = storeFailure C CLAIM_CHAPTER_REWARD"

definition replayClaimReward :: "codec \<Rightarrow> ws_request \<Rightarrow> idempotency_result \<Rightarrow> int \<Rightarrow> ws_response" where
  "replayClaimReward C = replayStored C CLAIM_CHAPTER_REWARD"

definition rewardMailEventID :: "u64 \<Rightarrow> bytes \<Rightarrow> bytes" where
  "rewardMailEventID playerID requestID =
     uuid_of_digest (sha256 (str_bytes ''chapter-reward-mail:'' @ be64 playerID @ requestID))"

text \<open>\<open>None\<close> is the error for a payload beyond 48 KiB.\<close>

definition buildRewardMailOutbox ::
  "codec \<Rightarrow> u64 \<Rightarrow> bytes \<Rightarrow> chapter_config \<Rightarrow> item_stack_view list \<Rightarrow> u64 \<Rightarrow> u64 \<Rightarrow> int \<Rightarrow> pending_outbox option" where
  "buildRewardMailOutbox C playerID requestID chapter pending ownerEpoch playerSeq now =
     (let body = marshal_reward_mail C (CreateRewardMailV1 playerID ''mail.chapter_reward.subject''
            ''mail.chapter_reward.body'' (ch_id chapter) (ch_config_version chapter) requestID pending)
      in if length body > 49152 then None
         else Some \<lparr>po_event_id = rewardMailEventID playerID requestID, po_event_type = CREATE_REWARD_MAIL,
           po_event_contract_version = 1, po_aggregate_player_id = playerID,
           po_caused_by_request_id = requestID, po_created_owner_epoch = ownerEpoch,
           po_created_player_seq = playerSeq, po_created_at_ms = now, po_payload = body,
           po_payload_sha256 = sha256 body\<rparr>)"

text \<open>The loop over the reward items: what was added, what is pending, the inventory afterwards.\<close>

definition reward_capacity :: "(u32, u32) fmap \<Rightarrow> u32 \<Rightarrow> u32" where
  "reward_capacity inventory itemId =
     (let current = map_get inventory itemId
      in if current > 0 then of_nat inventoryStackLimit - current
         else if map_len inventory < inventoryTypeLimit then of_nat inventoryStackLimit
         else 0)"

fun reward_loop ::
  "reward_item list \<Rightarrow> (u32, u32) fmap \<Rightarrow> item_stack_view list \<times> item_stack_view list \<times> (u32, u32) fmap" where
  "reward_loop [] inventory = ([], [], inventory)"
| "reward_loop (r # rs) inventory =
     (let current = map_get inventory (ri_item_id r);
          capacity = reward_capacity inventory (ri_item_id r);
          added = (if ri_quantity r > capacity then capacity else ri_quantity r);
          inventory1 = (if added > 0 then fmupd (ri_item_id r) (current + added) inventory else inventory);
          pending = ri_quantity r - added;
          (itemsAdded, itemsPending, inventory2) = reward_loop rs inventory1
      in ((if added > 0 then [ItemStackView (ri_item_id r) added] else []) @ itemsAdded,
          (if pending > 0 then [ItemStackView (ri_item_id r) pending] else []) @ itemsPending, inventory2))"

text \<open>The assignments after all checks have passed.\<close>

definition advance_chapter :: "chapter_config option \<Rightarrow> int \<Rightarrow> state \<Rightarrow> state" where
  "advance_chapter nextChapter now s = (case nextChapter of
       None \<Rightarrow> s\<lparr>st_chapter := CLAIMED\<rparr>
     | Some nc \<Rightarrow> s\<lparr>st_chapter_id := ch_id nc, st_chapter_config_version := ch_config_version nc,
         st_chapter := IN_PROGRESS, st_chapter_activated_at_ms := now, st_tasks := ch_tasks nc\<rparr>)"

definition claim_finish ::
  "u32 \<Rightarrow> chapter_config \<Rightarrow> chapter_config option \<Rightarrow> item_stack_view list \<Rightarrow> item_stack_view list \<Rightarrow>
   (u32, u32) fmap \<Rightarrow> pending_outbox option \<Rightarrow> int \<Rightarrow> state \<Rightarrow> outcome" where
  "claim_finish claimId chapter nextChapter itemsAdded itemsPending inventoryAfter pendingRecord now s =
     (let s1 = (advance_chapter nextChapter now s)\<lparr>st_coins := to_i64 (st_coins s + ch_reward_coins chapter),
            st_inventory := inventoryAfter,
            st_pending_outbox := st_pending_outbox s @ (case pendingRecord of None \<Rightarrow> [] | Some r \<Rightarrow> [r])\<rparr>
      in Done (ClaimChapterRewardResponse claimId (ch_reward_coins chapter) itemsAdded itemsPending
             (PlayerStatePatch (Some (st_coins s1))
               (map (\<lambda>v. ItemStackView (isv_item_id v) (map_get inventoryAfter (isv_item_id v))) itemsAdded)
               [] [] (Some (chapterView s1)) None None))
           (case pendingRecord of None \<Rightarrow> [] | Some r \<Rightarrow> [po_event_id r]) s1 {||})"

definition claimRewardBody ::
  "codec \<Rightarrow> config_snapshot \<Rightarrow> u64 \<Rightarrow> u32 \<Rightarrow> int \<Rightarrow> bytes \<Rightarrow> state \<Rightarrow> outcome" where
  "claimRewardBody C cfg caller claimId now rid s =
     (if claimId = 0 then Failed (plain_error INVALID_ARGUMENT) s
      else if claimId \<noteq> st_chapter_id s then Failed (plain_error CHAPTER_NOT_FOUND) s
      else if st_chapter s = CLAIMED then Failed (plain_error CHAPTER_REWARD_ALREADY_CLAIMED) s
      else if st_chapter s \<noteq> CLAIMABLE \<or> \<not> allTasksComplete (st_tasks s)
      then Failed (plain_error CHAPTER_NOT_CLAIMABLE) s
      else case Chapter cfg (st_chapter_id s) of
        None \<Rightarrow> Failed (retryable_error CONFIG_UNAVAILABLE) s
      | Some chapter \<Rightarrow>
          if ch_config_version chapter \<noteq> st_chapter_config_version s
          then Failed (retryable_error CONFIG_UNAVAILABLE) s
          else let terminal = (ch_next_chapter_id chapter = 0);
                   nextChapter = (if terminal then None else Chapter cfg (ch_next_chapter_id chapter))
          in if \<not> terminal \<and> nextChapter = None then Failed (retryable_error CONFIG_UNAVAILABLE) s
          else if st_coins s > to_i64 (max_i64 - ch_reward_coins chapter)
          then Failed (retryable_error CONFIG_UNAVAILABLE) s
          else case reward_loop (ch_reward_items chapter) (st_inventory s) of
            (itemsAdded, itemsPending, inventoryAfter) \<Rightarrow>
              if itemsPending = []
              then claim_finish claimId chapter nextChapter itemsAdded itemsPending inventoryAfter None now s
              else case buildRewardMailOutbox C caller rid chapter itemsPending (st_owner_epoch s)
                     (st_player_seq s + 1) now of
                None \<Rightarrow> Failed (retryable_error CONFIG_UNAVAILABLE) s
              | Some r \<Rightarrow> claim_finish claimId chapter nextChapter itemsAdded itemsPending inventoryAfter
                  (Some r) now s)"

definition claimChapterReward ::
  "codec \<Rightarrow> u64 \<Rightarrow> ws_request \<Rightarrow> u32 \<Rightarrow> config_snapshot \<Rightarrow> int \<Rightarrow> state \<Rightarrow> handler_result" where
  "claimChapterReward C caller req claimId cfg now s =
     run_command C CLAIM_CHAPTER_REWARD (storeClaimRewardFailure C) (replayClaimReward C)
       (claimRewardFingerprint caller req claimId) caller req (cfg_version cfg) now
       (claimRewardBody C cfg caller claimId now) s"

section \<open>The reward loop\<close>

text \<open>How much of an item a list of stacks holds, and how much the chapter promises.\<close>

definition stacks :: "u32 \<Rightarrow> item_stack_view list \<Rightarrow> nat" where
  "stacks i vs = sum_list (map (\<lambda>v. if isv_item_id v = i then unat (isv_quantity v) else 0) vs)"

definition promised :: "u32 \<Rightarrow> reward_item list \<Rightarrow> nat" where
  "promised i rs = sum_list (map (\<lambda>r. if ri_item_id r = i then unat (ri_quantity r) else 0) rs)"

lemma stacks_simps [simp]:
  "stacks i [] = 0" "stacks i (v # vs) = (if isv_item_id v = i then unat (isv_quantity v) else 0) + stacks i vs"
  "stacks i (us @ vs) = stacks i us + stacks i vs"
  by (simp_all add: stacks_def)

lemma promised_simps [simp]:
  "promised i [] = 0" "promised i (r # rs) = (if ri_item_id r = i then unat (ri_quantity r) else 0) + promised i rs"
  by (simp_all add: promised_def)

lemma reward_capacity_bound:
  assumes "inventory_ok m"
  shows "unat (map_get m i) + unat (reward_capacity m i) \<le> 300"
    "unat (reward_capacity m i) < 300 - unat (map_get m i) \<Longrightarrow>
      map_get m i = 0 \<and> reward_capacity m i = 0 \<and> 100 \<le> map_len m"
proof -
  have le: "map_get m i \<le> 300" using inventory_ok_get [OF assms] .
  then have "unat (300 - map_get m i) = 300 - unat (map_get m i)" "unat (map_get m i) \<le> 300"
    by (simp_all add: unat_sub_le word_le_nat_alt)
  then show "unat (map_get m i) + unat (reward_capacity m i) \<le> 300"
    "unat (reward_capacity m i) < 300 - unat (map_get m i) \<Longrightarrow>
      map_get m i = 0 \<and> reward_capacity m i = 0 \<and> 100 \<le> map_len m"
    by (auto simp: reward_capacity_def inventoryStackLimit_def inventoryTypeLimit_def Let_def u32_pos_iff
        split: if_splits)
qed

text \<open>An item is full when neither its stack nor the number of types leaves room for more of it.\<close>

definition no_room :: "(u32, u32) fmap \<Rightarrow> u32 \<Rightarrow> bool" where
  "no_room m i \<longleftrightarrow> map_get m i = 300 \<or> map_get m i = 0 \<and> 100 \<le> map_len m"

text \<open>One item: everything promised is either added or pending, and pending only when nothing more fits.\<close>

lemma reward_step:
  assumes ok: "inventory_ok m" and r: "ri_item_id r \<noteq> 0"
    and added: "added = (if ri_quantity r > reward_capacity m (ri_item_id r) then reward_capacity m (ri_item_id r) else ri_quantity r)"
    and m1: "m1 = (if added > 0 then fmupd (ri_item_id r) (map_get m (ri_item_id r) + added) m else m)"
  shows "inventory_ok m1"
    "\<And>i. unat (map_get m1 i) = unat (map_get m i) + (if i = ri_item_id r then unat added else 0)"
    "unat added + unat (ri_quantity r - added) = unat (ri_quantity r)"
    "ri_quantity r - added > 0 \<Longrightarrow> no_room m1 (ri_item_id r)"
    "no_room m i \<Longrightarrow> no_room m1 i" "map_len m1 \<le> max 100 (map_len m)"
proof -
  let ?i = "ri_item_id r"
  have cap: "unat added \<le> unat (reward_capacity m ?i)" "added \<le> ri_quantity r"
    using added by (auto simp: word_le_nat_alt word_less_nat_alt split: if_splits)
  have bound: "unat (map_get m ?i) + unat added \<le> 300"
    using reward_capacity_bound(1) [OF ok, of ?i] cap(1) by linarith
  note sum = stack_add [OF bound]
  show "inventory_ok m1"
    using m1 ok r sum(2,3) by (auto simp: u32_pos_iff intro!: inventory_ok_upd)
  show get: "unat (map_get m1 i) = unat (map_get m i) + (if i = ?i then unat added else 0)" for i
    using m1 sum(1) by (auto simp: map_simps u32_pos_iff)
  show "unat added + unat (ri_quantity r - added) = unat (ri_quantity r)"
    using cap(2) by (simp add: unat_sub_le word_le_nat_alt)
  have len: "map_len m \<le> map_len m1" "map_len m1 \<le> max 100 (map_len m)"
  proof -
    show "map_len m \<le> map_len m1" using m1 by (simp add: map_len_upd)
    have "map_len m < 100" if "?i |\<notin>| fmdom m" "added \<noteq> 0"
      using that cap(1) by (auto simp: reward_capacity_def map_get_def fmdom_notD inventoryTypeLimit_def unat_eq_zero split: if_splits)
    then show "map_len m1 \<le> max 100 (map_len m)" using m1 by (auto simp: map_len_upd u32_pos_iff)
  qed
  then show "map_len m1 \<le> max 100 (map_len m)" by simp
  show "no_room m1 ?i" if pend: "ri_quantity r - added > 0"
  proof -
    have "added = reward_capacity m ?i" using pend added by (auto split: if_splits)
    then show ?thesis
      using reward_capacity_bound [OF ok, of ?i] get [of ?i] len(1)
      by (cases "unat added < 300 - unat (map_get m ?i)") (auto simp: no_room_def word_unat_eq_iff)
  qed
  show "no_room m1 i" if "no_room m i"
  proof (cases "i = ?i \<and> added \<noteq> 0")
    case True
    then have "map_len m < 100 \<or> map_get m i \<noteq> 0"
      using cap(1) by (auto simp: reward_capacity_def inventoryTypeLimit_def unat_eq_zero split: if_splits)
    then have "map_get m i = 300" using that by (auto simp: no_room_def)
    then have "unat added = 0" using bound True by simp
    then show ?thesis using True by (simp add: unat_eq_zero)
  next
    case False
    then have "map_get m1 i = map_get m i" using get [of i] by (auto simp: word_unat_eq_iff)
    then show ?thesis using that len(1) by (auto simp: no_room_def)
  qed
qed

lemma reward_loop_Cons:
  assumes "reward_loop (r # rs) m = (as, ps, m')"
  obtains added m1 as1 ps1 where
    "added = (if ri_quantity r > reward_capacity m (ri_item_id r) then reward_capacity m (ri_item_id r) else ri_quantity r)"
    "m1 = (if added > 0 then fmupd (ri_item_id r) (map_get m (ri_item_id r) + added) m else m)"
    "reward_loop rs m1 = (as1, ps1, m')"
    "as = (if added > 0 then [ItemStackView (ri_item_id r) added] else []) @ as1"
    "ps = (if ri_quantity r - added > 0 then [ItemStackView (ri_item_id r) (ri_quantity r - added)] else []) @ ps1"
proof -
  define added where "added = (if ri_quantity r > reward_capacity m (ri_item_id r) then reward_capacity m (ri_item_id r) else ri_quantity r)"
  define m1 where "m1 = (if added > 0 then fmupd (ri_item_id r) (map_get m (ri_item_id r) + added) m else m)"
  obtain as1 ps1 m2 where l: "reward_loop rs m1 = (as1, ps1, m2)" by (metis prod.exhaust)
  then have "m2 = m'" "(if added > 0 then [ItemStackView (ri_item_id r) added] else []) @ as1 = as"
    "(if ri_quantity r - added > 0 then [ItemStackView (ri_item_id r) (ri_quantity r - added)] else []) @ ps1 = ps"
    using assms unfolding reward_loop.simps Let_def added_def [symmetric] m1_def [symmetric] l by simp_all
  then show thesis using that [OF added_def m1_def] l by metis
qed

lemma reward_loop_spec:
  assumes "inventory_ok m" "\<forall>r \<in> set rs. ri_item_id r \<noteq> 0" "reward_loop rs m = (as, ps, m')"
  shows "inventory_ok m' \<and> map_len m' \<le> max 100 (map_len m) \<and>
    (\<forall>i. unat (map_get m' i) = unat (map_get m i) + stacks i as) \<and>
    (\<forall>i. stacks i as + stacks i ps = promised i rs) \<and>
    (\<forall>i. stacks i ps > 0 \<or> no_room m i \<longrightarrow> no_room m' i) \<and>
    (\<forall>i. stacks i as = 0 \<longrightarrow> i \<notin> isv_item_id ` set as)"
  using assms
proof (induction rs arbitrary: m as ps)
  case (Cons r rs)
  obtain added m1 as1 ps1 where added: "added = (if ri_quantity r > reward_capacity m (ri_item_id r) then
      reward_capacity m (ri_item_id r) else ri_quantity r)"
    and m1: "m1 = (if added > 0 then fmupd (ri_item_id r) (map_get m (ri_item_id r) + added) m else m)"
    and rec: "reward_loop rs m1 = (as1, ps1, m')"
    and as: "as = (if added > 0 then [ItemStackView (ri_item_id r) added] else []) @ as1"
    and ps: "ps = (if ri_quantity r - added > 0 then [ItemStackView (ri_item_id r) (ri_quantity r - added)] else []) @ ps1"
    by (rule reward_loop_Cons [OF Cons.prems(3)])
  have r: "ri_item_id r \<noteq> 0" using Cons.prems(2) by simp
  note st = reward_step [OF Cons.prems(1) r added m1]
  have IH: "inventory_ok m'" "map_len m' \<le> max 100 (map_len m1)"
    "\<And>i. unat (map_get m' i) = unat (map_get m1 i) + stacks i as1"
    "\<And>i. stacks i as1 + stacks i ps1 = promised i rs"
    "\<And>i. stacks i ps1 > 0 \<or> no_room m1 i \<Longrightarrow> no_room m' i"
    "\<And>i. stacks i as1 = 0 \<Longrightarrow> i \<notin> isv_item_id ` set as1"
    using Cons.IH [OF st(1) _ rec] Cons.prems(2) by auto
  have zero: "(if x > 0 then [ItemStackView i x] else []) = [] \<longleftrightarrow> x = 0" for x :: u32 and i
    by (simp add: u32_pos_iff)
  have sas: "stacks i as = (if i = ri_item_id r then unat added else 0) + stacks i as1" for i
    by (auto simp: as u32_pos_iff)
  have sps: "stacks i ps = (if i = ri_item_id r then unat (ri_quantity r - added) else 0) + stacks i ps1" for i
    by (auto simp: ps u32_pos_iff)
  have "no_room m' i" if "stacks i ps > 0 \<or> no_room m i" for i
    using that IH(5) [of i] st(4) [unfolded u32_pos_iff] st(5) [of i] by (auto simp: sps unat_gt_0 word_neq_0_conv split: if_splits)
  moreover have "stacks i as + stacks i ps = promised i (r # rs)" for i
    using IH(4) [of i] st(3) by (auto simp: sas sps)
  moreover have "i \<notin> isv_item_id ` set as" if "stacks i as = 0" for i
    using that IH(6) [of i] by (auto simp: sas as u32_pos_iff unat_eq_zero split: if_splits)
  moreover have "map_len m' \<le> max 100 (map_len m)" using IH(2) st(6) by simp
  ultimately show ?case using IH(1,3) st(2) by (auto simp: sas)
qed simp

section \<open>What a successful claim is\<close>

lemma claim_Done:
  assumes "claimRewardBody C cfg caller claimId now rid s = Done p obx s1 ch"
  obtains chp nc as ps m' rec where "claimId \<noteq> 0" "claimId = st_chapter_id s" "st_chapter s = CLAIMABLE"
    "allTasksComplete (st_tasks s)" "Chapter cfg claimId = Some chp"
    "ch_config_version chp = st_chapter_config_version s"
    "nc = (if ch_next_chapter_id chp = 0 then None else Chapter cfg (ch_next_chapter_id chp))"
    "ch_next_chapter_id chp \<noteq> 0 \<Longrightarrow> nc \<noteq> None" "st_coins s \<le> to_i64 (max_i64 - ch_reward_coins chp)"
    "reward_loop (ch_reward_items chp) (st_inventory s) = (as, ps, m')"
    "if ps = [] then rec = None else rec = buildRewardMailOutbox C caller rid chp ps (st_owner_epoch s)
       (st_player_seq s + 1) now \<and> rec \<noteq> None"
    "claim_finish claimId chp nc as ps m' rec now s = Done p obx s1 ch"
proof -
  obtain chp where c: "claimId \<noteq> 0" "claimId = st_chapter_id s" "st_chapter s = CLAIMABLE"
    "allTasksComplete (st_tasks s)" "Chapter cfg claimId = Some chp"
    "ch_config_version chp = st_chapter_config_version s"
    using assms unfolding claimRewardBody_def by (auto split: if_splits option.splits)
  define nc where "nc = (if ch_next_chapter_id chp = 0 then None else Chapter cfg (ch_next_chapter_id chp))"
  obtain as ps m' where l: "reward_loop (ch_reward_items chp) (st_inventory s) = (as, ps, m')" by (metis prod.exhaust)
  have body: "claimRewardBody C cfg caller claimId now rid s =
     (if ch_next_chapter_id chp \<noteq> 0 \<and> nc = None then Failed (retryable_error CONFIG_UNAVAILABLE) s
      else if st_coins s > to_i64 (max_i64 - ch_reward_coins chp) then Failed (retryable_error CONFIG_UNAVAILABLE) s
      else if ps = [] then claim_finish claimId chp nc as ps m' None now s
      else case buildRewardMailOutbox C caller rid chp ps (st_owner_epoch s) (st_player_seq s + 1) now of
          None \<Rightarrow> Failed (retryable_error CONFIG_UNAVAILABLE) s
        | Some r \<Rightarrow> claim_finish claimId chp nc as ps m' (Some r) now s)"
    using c l unfolding claimRewardBody_def Let_def nc_def by auto
  have g: "ch_next_chapter_id chp \<noteq> 0 \<Longrightarrow> nc \<noteq> None" "st_coins s \<le> to_i64 (max_i64 - ch_reward_coins chp)"
    using assms unfolding body by (auto split: if_splits)
  define rec where "rec = (if ps = [] then None else buildRewardMailOutbox C caller rid chp ps (st_owner_epoch s) (st_player_seq s + 1) now)"
  have "if ps = [] then rec = None else rec = buildRewardMailOutbox C caller rid chp ps (st_owner_epoch s)
       (st_player_seq s + 1) now \<and> rec \<noteq> None" "claim_finish claimId chp nc as ps m' rec now s = Done p obx s1 ch"
    using assms g unfolding body rec_def by (auto split: if_splits option.splits)
  then show thesis using that c g l nc_def by blast
qed

lemma claim_finish_Done:
  "claim_finish claimId chp nc as ps m' rec now s = Done p obx s1 ch \<longleftrightarrow>
     s1 = (advance_chapter nc now s)\<lparr>st_coins := to_i64 (st_coins s + ch_reward_coins chp), st_inventory := m',
       st_pending_outbox := st_pending_outbox s @ (case rec of None \<Rightarrow> [] | Some r \<Rightarrow> [r])\<rparr> \<and>
     p = ClaimChapterRewardResponse claimId (ch_reward_coins chp) as ps
       (PlayerStatePatch (Some (st_coins s1))
         (map (\<lambda>v. ItemStackView (isv_item_id v) (map_get m' (isv_item_id v))) as) [] [] (Some (chapterView s1)) None None) \<and>
     obx = (case rec of None \<Rightarrow> [] | Some r \<Rightarrow> [po_event_id r]) \<and> ch = {||}"
  by (auto simp: claim_finish_def Let_def)

lemma advance_chapter_frame [simp]:
  "st_coins (advance_chapter nc now s) = st_coins s" "st_plots (advance_chapter nc now s) = st_plots s"
  "st_recent_results (advance_chapter nc now s) = st_recent_results s"
  "st_player_seq (advance_chapter nc now s) = st_player_seq s"
  "st_checkpoint_revision (advance_chapter nc now s) = st_checkpoint_revision s"
  "st_owner_epoch (advance_chapter nc now s) = st_owner_epoch s"
  "st_player_id (advance_chapter nc now s) = st_player_id s"
  "st_career (advance_chapter nc now s) = st_career s"
  "st_crop_compendium (advance_chapter nc now s) = st_crop_compendium s"
  "st_inventory (advance_chapter nc now s) = st_inventory s" "petOf (advance_chapter nc now s) = petOf s"
  by (simp_all add: advance_chapter_def split: option.splits)

lemma advance_chapter_status:
  "st_chapter (advance_chapter nc now s) = (if nc = None then CLAIMED else IN_PROGRESS)"
  by (simp add: advance_chapter_def split: option.splits)

lemma chapter_reward_items:
  assumes "config_ok cfg" "Chapter cfg i = Some chp"
  shows "\<forall>r \<in> set (ch_reward_items chp). ri_item_id r \<noteq> 0" "ch_config_version chp \<noteq> 0" "ch_id chp = i" "i \<noteq> 0"
    "0 \<le> ch_reward_coins chp" "\<forall>t \<in> set (ch_tasks chp). tk_id t \<noteq> 0 \<and> tk_target t \<noteq> 0"
  using config_lookup(8) [OF assms] by (auto simp: chapter_ok_def chapter_valid_def)

text \<open>The coin guard makes the addition exact.\<close>

lemma claim_coins:
  assumes "0 \<le> st_coins s" "0 \<le> c" "c \<le> max_i64" "st_coins s \<le> to_i64 (max_i64 - c)"
  shows "to_i64 (st_coins s + c) = st_coins s + c" "st_coins s + c \<le> max_i64"
proof -
  have "to_i64 (max_i64 - c) = max_i64 - c" using assms(2,3) by (intro to_i64_id in_i64_nonneg) simp_all
  then show le: "st_coins s + c \<le> max_i64" using assms(4) by simp
  show "to_i64 (st_coins s + c) = st_coins s + c" using assms(1,2) le by (intro to_i64_id in_i64_nonneg) simp_all
qed

lemma claim_done_ok:
  assumes ok: "state_ok s" and env: "env_ok cfg now s"
    and dn: "claimRewardBody C cfg caller claimId now rid s = Done p obx s1 ch"
  shows "state_ok s1"
proof (rule claim_Done [OF dn])
  fix chp nc as ps m' rec
  assume c: "Chapter cfg claimId = Some chp"
    "nc = (if ch_next_chapter_id chp = 0 then None else Chapter cfg (ch_next_chapter_id chp))"
    "st_coins s \<le> to_i64 (max_i64 - ch_reward_coins chp)"
    "reward_loop (ch_reward_items chp) (st_inventory s) = (as, ps, m')"
    "claim_finish claimId chp nc as ps m' rec now s = Done p obx s1 ch"
  have cfg: "config_ok cfg" "config_range cfg" using env by (simp_all add: env_ok_def)
  note r = chapter_reward_items [OF cfg(1) c(1)]
  have st: "inventory_ok (st_inventory s)" "0 \<le> st_coins s" using ok by (simp_all add: state_ok_def)
  have m': "inventory_ok m'" using reward_loop_spec [OF st(1) r(1) c(4)] by simp
  have "ch_reward_coins chp \<le> max_i64" using cfg(2) c(1) by (auto simp: config_range_def Chapter_def)
  note coins = claim_coins [OF st(2) r(5) this c(3)]
  have "state_ok (advance_chapter nc now s)"
  proof (cases nc)
    case None
    then show ?thesis using ok by (simp add: state_ok_def advance_chapter_def)
  next
    case (Some x)
    then have x: "Chapter cfg (ch_next_chapter_id chp) = Some x" using c(2) by (auto split: if_splits)
    have "\<forall>t \<in> set (ch_tasks x). task_ok t"
      using chapter_reward_items(6) [OF cfg(1) x] cfg(2) x by (auto simp: config_range_def Chapter_def task_ok_def)
    then show ?thesis
      using ok Some chapter_reward_items(2-4) [OF cfg(1) x] by (auto simp: state_ok_def advance_chapter_def)
  qed
  then show ?thesis
    using c(5) m' coins st(2) r(5) by (simp add: claim_finish_Done state_ok_def)
qed

text \<open>The upserts carry the final quantities, so the client's inventory ends up right.\<close>

lemma upserts_final:
  "fold (\<lambda>v m. m(isv_item_id v := isv_quantity v)) (map (\<lambda>v. ItemStackView (isv_item_id v) (f (isv_item_id v))) as) g =
   (\<lambda>i. if i \<in> isv_item_id ` set as then f i else g i)"
  by (induction as arbitrary: g) auto

lemma reward_loop_inventory:
  assumes "reward_loop rs m = (as, ps, m')"
  shows "map_get m' = (\<lambda>i. if i \<in> isv_item_id ` set as then map_get m' i else map_get m i)"
proof -
  have "map_get m' i = map_get m i" if "i \<notin> isv_item_id ` set as" for i
    using assms that
  proof (induction rs arbitrary: m as ps)
    case (Cons r rs)
    show ?case
      by (rule reward_loop_Cons [OF Cons.prems(1)])
        (use Cons.IH Cons.prems(2) in \<open>auto simp: map_simps split: if_splits\<close>)
  qed simp
  then show ?thesis by auto
qed

lemma claim_done_patch:
  assumes "claimRewardBody C cfg caller claimId now rid s = Done p obx s1 ch"
  shows "(\<exists>patch. payload_patch p = Some patch \<and> apply_patch patch (client_of s) = client_of s1) \<and> unchanged_outside ch s s1"
proof (rule claim_Done [OF assms])
  fix chp nc as ps m' rec
  assume c: "reward_loop (ch_reward_items chp) (st_inventory s) = (as, ps, m')"
    "claim_finish claimId chp nc as ps m' rec now s = Done p obx s1 ch"
  note d = c(2) [unfolded claim_finish_Done]
  have "apply_patch (PlayerStatePatch (Some (st_coins s1))
      (map (\<lambda>v. ItemStackView (isv_item_id v) (map_get m' (isv_item_id v))) as) [] [] (Some (chapterView s1)) None None)
      (client_of s) = client_of s1"
    by (rule patch_coins_items) (use d reward_loop_inventory [OF c(1)] in \<open>simp_all add: upserts_final\<close>)
  then show ?thesis using d by (auto simp: unchanged_outside_def)
qed

interpretation claim_reward: synced_command CLAIM_CHAPTER_REWARD
  "\<lambda>C caller req cfg now rid. claimRewardBody C cfg caller claimId now rid"
  "\<lambda>caller req. claimRewardFingerprint caller req claimId"
  "\<lambda>C caller req. claimChapterReward C caller req claimId" for claimId
proof (unfold_locales, goal_cases)
  case (1 C caller req cfg now s)
  then show ?case by (simp add: claimChapterReward_def storeClaimRewardFailure_def replayClaimReward_def)
next
  case (2 C caller req cfg now rid s e s1)
  then show ?case
    by (auto simp: claimRewardBody_def claim_finish_def Let_def split: if_splits option.splits prod.splits)
next
  case (3 C caller req cfg now rid s p obx s1 ch)
  then show ?case by (rule claim_Done) (auto simp: claim_finish_Done)
next
  case (4 C caller req cfg now rid s p obx s1 ch)
  then show ?case by (rule claim_Done) (auto simp: claim_finish_Done)
next
  case (5 s cfg now C caller req rid p obx s1 ch)
  then show ?case by (rule claim_done_ok)
next
  case (6 s C caller req cfg now rid p obx s1 ch)
  then show ?case using claim_done_patch by blast
next
  case (7 s C caller req cfg now rid p obx s1 ch)
  then show ?case using claim_done_patch by blast
qed

section \<open>Properties\<close>

lemma claim_effect:
  assumes ok: "state_ok s" and env: "env_ok cfg now s"
    and dn: "claimRewardBody C cfg caller claimId now rid s = Done p obx s1 ch"
  obtains chp as ps patch where "Chapter cfg claimId = Some chp"
    "p = ClaimChapterRewardResponse claimId (ch_reward_coins chp) as ps patch"
    "st_coins s1 = st_coins s + ch_reward_coins chp"
    "\<And>i. unat (map_get (st_inventory s1) i) = unat (map_get (st_inventory s) i) + stacks i as"
    "\<And>i. stacks i as + stacks i ps = promised i (ch_reward_items chp)"
    "\<And>i. stacks i ps > 0 \<Longrightarrow> no_room (st_inventory s1) i"
    "map po_payload (st_pending_outbox s1) = map po_payload (st_pending_outbox s) @
       (if ps = [] then [] else [marshal_reward_mail C (CreateRewardMailV1 caller ''mail.chapter_reward.subject''
          ''mail.chapter_reward.body'' (ch_id chp) (ch_config_version chp) rid ps)])"
proof (rule claim_Done [OF dn])
  fix chp nc as ps m' rec
  assume c: "Chapter cfg claimId = Some chp"
    "st_coins s \<le> to_i64 (max_i64 - ch_reward_coins chp)"
    "reward_loop (ch_reward_items chp) (st_inventory s) = (as, ps, m')"
    "if ps = [] then rec = None else rec = buildRewardMailOutbox C caller rid chp ps (st_owner_epoch s)
       (st_player_seq s + 1) now \<and> rec \<noteq> None"
    "claim_finish claimId chp nc as ps m' rec now s = Done p obx s1 ch"
  have cfg: "config_ok cfg" "config_range cfg" using env by (simp_all add: env_ok_def)
  note r = chapter_reward_items [OF cfg(1) c(1)]
  have st: "inventory_ok (st_inventory s)" "0 \<le> st_coins s" using ok by (simp_all add: state_ok_def)
  have "ch_reward_coins chp \<le> max_i64" using cfg(2) c(1) by (auto simp: config_range_def Chapter_def)
  note coins = claim_coins [OF st(2) r(5) this c(2)]
  note d = c(5) [unfolded claim_finish_Done]
  note l = reward_loop_spec [OF st(1) r(1) c(3)]
  have mail: "map po_payload (st_pending_outbox s1) = map po_payload (st_pending_outbox s) @
       (if ps = [] then [] else [marshal_reward_mail C (CreateRewardMailV1 caller ''mail.chapter_reward.subject''
          ''mail.chapter_reward.body'' (ch_id chp) (ch_config_version chp) rid ps)])"
    using c(4) d by (auto simp: buildRewardMailOutbox_def Let_def split: if_splits option.splits)
  show thesis by (rule that [OF c(1) _ _ _ _ _ mail]) (use d coins l in auto)
qed

text \<open>
  C23: a claim hands out exactly what the chapter promises. Coins are credited in full; of every item
  the part added to the inventory and the part attached to the reward mail make up the promised
  quantity, and something is mailed only when the stack is at 300 or the inventory has 100 types
  without it. The mail is one new outbox entry for exactly the pending items.
\<close>

theorem claimChapterReward_conserves:
  assumes "state_ok s" "env_ok cfg now s" "parseRequestID (req_request_id req) = Some rid"
    "find_stored caller rid (st_recent_results s) = None"
    "claimChapterReward C caller req claimId cfg now s = (resp, dirty, ch, s')" "resp_error resp = None"
  shows "\<exists>chp as ps patch. Chapter cfg claimId = Some chp \<and>
    resp_payload resp = Some (ClaimChapterRewardResponse claimId (ch_reward_coins chp) as ps patch) \<and>
    st_coins s' = st_coins s + ch_reward_coins chp \<and>
    (\<forall>i. unat (map_get (st_inventory s') i) = unat (map_get (st_inventory s) i) + stacks i as \<and>
         stacks i as + stacks i ps = promised i (ch_reward_items chp) \<and>
         (stacks i ps > 0 \<longrightarrow> no_room (st_inventory s') i)) \<and>
    map po_payload (st_pending_outbox s') = map po_payload (st_pending_outbox s) @
       (if ps = [] then [] else [marshal_reward_mail C (CreateRewardMailV1 caller ''mail.chapter_reward.subject''
          ''mail.chapter_reward.body'' (ch_id chp) (ch_config_version chp) rid ps)])"
proof -
  note f = claim_reward.fresh_handler [OF assms(3-5)]
  obtain p obx s1 c where d: "claimRewardBody C cfg caller claimId now rid s = Done p obx s1 c"
    using f(2) assms(6) by blast
  note s' = f(3) [OF d]
  show ?thesis
    by (rule claim_effect [OF assms(1,2) d]) (use s' in \<open>intro exI conjI allI impI, auto\<close>)
qed

definition graduate :: state where
  "graduate = (NewDevelopmentState 7 1000)\<lparr>st_chapter := CLAIMABLE, st_inventory := fmupd 1 299 (fmupd 1012 298 fmempty),
     st_tasks := map (\<lambda>t. t\<lparr>tk_current := tk_target t\<rparr>) initial_tasks\<rparr>"

lemma graduate_ok: "state_ok graduate" "env_ok dev_config 1000 graduate"
  using initial_state_ok [of 7 1000] dev_env
  by (auto simp: graduate_def state_ok_def inventory_ok_def env_ok_def clock_ok_def task_ok_def initial_tasks_def)

lemma graduate_claims:
  "\<exists>p obx s1 c. claimRewardBody ref_codec dev_config 7 1 1000 rid graduate = Done p obx s1 c"
proof -
  have g: "st_chapter_id graduate = 1" "st_chapter graduate = CLAIMABLE" "allTasksComplete (st_tasks graduate)"
    "st_chapter_config_version graduate = 2" "st_coins graduate = 10"
    by (simp_all add: graduate_def NewDevelopmentState_def allTasksComplete_def initial_tasks_def initial_consts)
  have ch: "ch_config_version (development_chapters ! 0) = 2" "ch_next_chapter_id (development_chapters ! 0) = 2"
    "ch_reward_coins (development_chapters ! 0) = 10"
    by (simp_all add: development_chapters_def initial_consts)
  show ?thesis
    by (auto simp: claimRewardBody_def g ch dev_chapters Let_def max_i64_def to_i64_def claim_finish_def
        buildRewardMailOutbox_def ref_codec_def split: prod.split)
qed

theorem claimChapterReward_conserves_witness:
  "st_coins (snd (snd (snd (claimChapterReward ref_codec 7 (sample_request CLAIM_CHAPTER_REWARD
     (ClaimChapterRewardRequest 1)) 1 dev_config 1000 graduate)))) = 20"
proof -
  let ?r = "claimChapterReward ref_codec 7 (sample_request CLAIM_CHAPTER_REWARD (ClaimChapterRewardRequest 1)) 1 dev_config 1000 graduate"
  obtain resp dirty ch s' where r: "?r = (resp, dirty, ch, s')" by (metis prod.exhaust)
  have fresh: "find_stored 7 (replicate 16 1) (st_recent_results graduate) = None"
    by (simp add: find_stored_def graduate_def NewDevelopmentState_def)
  have rid: "parseRequestID (req_request_id (sample_request CLAIM_CHAPTER_REWARD (ClaimChapterRewardRequest 1))) =
    Some (replicate 16 1)" by simp
  have "resp_error resp = None"
    using claim_reward.fresh_handler(2) [OF rid fresh r] graduate_claims by blast
  from claimChapterReward_conserves [OF graduate_ok rid fresh r this]
  have "st_coins s' = st_coins graduate + ch_reward_coins (development_chapters ! 0)"
    by (auto simp: dev_chapters)
  then show ?thesis unfolding r by (simp add: graduate_def NewDevelopmentState_def initial_consts development_chapters_def)
qed

text \<open>
  A reward is never handed out twice. Once a claim has succeeded, every further claim, for
  whatever chapter and under a new request identifier, fails and leaves coins, inventory, chapter and
  outbox as they are, until the tasks of the next chapter have made it claimable.
\<close>

theorem claimChapterReward_once:
  assumes "claimRewardBody C cfg caller claimId now rid s = Done p obx s1 ch"
  shows "st_chapter s1 \<noteq> CLAIMABLE \<and>
    (\<forall>C' cfg' caller' claimId' now' rid' s2. st_chapter s2 = st_chapter s1 \<longrightarrow>
      (\<exists>e. claimRewardBody C' cfg' caller' claimId' now' rid' s2 = Failed e s2))"
proof -
  have "st_chapter s1 \<noteq> CLAIMABLE"
    using assms by (rule claim_Done) (auto simp: claim_finish_Done advance_chapter_status)
  then show ?thesis by (auto simp: claimRewardBody_def)
qed

theorem claimChapterReward_once_witness:
  "\<exists>p obx s1 c. claimRewardBody ref_codec dev_config 7 1 1000 [] graduate = Done p obx s1 c \<and>
     (\<exists>e. claimRewardBody ref_codec dev_config 7 2 1001 [1] s1 = Failed e s1)"
proof -
  obtain p obx s1 c where d: "claimRewardBody ref_codec dev_config 7 1 1000 [] graduate = Done p obx s1 c"
    using graduate_claims by blast
  then show ?thesis using claimChapterReward_once [OF d] by blast
qed

end
