(* ===== verification/Pets.thy ===== *)
theory Pets
  imports Chapter
begin

text \<open>
  \<open>pet.go\<close>: the pet panel, buying and deploying pets, buying pet food and feeding. Iterating the shop
  entries for the primary pet food follows a Go map, so its order is a parameter; the panel and the
  feeding handler iterate separately.
\<close>

section \<open>Panel\<close>

definition ownsPet :: "pet_record option \<Rightarrow> u32 \<Rightarrow> bool" where
  "ownsPet pet petID = (case pet of None \<Rightarrow> False | Some p \<Rightarrow> petID \<noteq> 0 \<and> petID \<in> set (pet_owned_ids p))"

definition addOwnedPet :: "u32 \<Rightarrow> pet_record \<Rightarrow> pet_record" where
  "addOwnedPet petID pet = (if ownsPet (Some pet) petID then pet
     else pet\<lparr>pet_owned_ids := sort (pet_owned_ids pet @ [petID])\<rparr>)"

definition petFoodActive :: "pet_record option \<Rightarrow> int \<Rightarrow> bool" where
  "petFoodActive pet nowMS = (case pet of None \<Rightarrow> False | Some p \<Rightarrow> pet_food_active_until_ms p > nowMS)"

definition guardBuffActive :: "pet_record option \<Rightarrow> int \<Rightarrow> bool" where
  "guardBuffActive pet nowMS = (case pet of None \<Rightarrow> False | Some p \<Rightarrow> pet_active_id p \<noteq> 0 \<and> petFoodActive pet nowMS)"

definition buildPetPanel :: "u32 list \<Rightarrow> state \<Rightarrow> config_snapshot \<Rightarrow> int \<Rightarrow> pet_panel_view" where
  "buildPetPanel ord s cfg nowMS =
     (let pet = petOf s;
          views = map (\<lambda>c. PetShopEntryView (ptc_pet_id c) (ptc_name c) (ptc_price_coins c)
            (ptc_guard_probability_bps c) (ptc_guard_penalty_coins c) (ptc_config_version c) (ptc_enabled c)
            (ptc_pet_id c \<in> set (pet_owned_ids pet))) (ActivePets cfg);
          food = PrimaryPetFood ord cfg
      in PetPanelView views
           (map_option (\<lambda>(f, e). PetFoodShopView (se_id e) (pf_item_id f) (se_unit_price e) (se_price_version e)
              (pf_duration_seconds f) (se_enabled e \<and> pf_enabled f)) food)
           (pet_owned_ids pet) (pet_active_id pet)
           (case food of None \<Rightarrow> 0 | Some (f, e) \<Rightarrow> map_get (st_inventory s) (pf_item_id f))
           (pet_food_active_until_ms pet) (guardBuffActive (st_pet_state s) nowMS))"

definition getPetPanel :: "u32 list \<Rightarrow> ws_request \<Rightarrow> config_snapshot \<Rightarrow> int \<Rightarrow> state \<Rightarrow> ws_response" where
  "getPetPanel ord req cfg now s = successEnvelope req s now (GetPetPanelResponse (buildPetPanel ord s cfg now))"

section \<open>Fingerprints, failures and replays\<close>

definition pet_fingerprint_head :: "u64 \<Rightarrow> ws_request \<Rightarrow> bytes" where
  "pet_fingerprint_head caller req = be64 caller @ be32 (action_code (req_action req))"

definition buyPetFingerprint :: "u64 \<Rightarrow> ws_request \<Rightarrow> u32 \<Rightarrow> u64 \<Rightarrow> bytes" where
  "buyPetFingerprint caller req petId version = sha256 (pet_fingerprint_head caller req @ be32 petId @ be64 version)"

definition deployPetFingerprint :: "u64 \<Rightarrow> ws_request \<Rightarrow> u32 \<Rightarrow> bytes" where
  "deployPetFingerprint caller req petId = sha256 (pet_fingerprint_head caller req @ be32 petId)"

definition buyPetFoodFingerprint :: "u64 \<Rightarrow> ws_request \<Rightarrow> buy_request \<Rightarrow> bytes" where
  "buyPetFoodFingerprint caller req buy = sha256 (pet_fingerprint_head caller req @ be32 (br_shop_entry_id buy) @
     be32 (br_quantity buy) @ be64 (br_expected_price_version buy))"

definition feedPetFingerprint :: "u64 \<Rightarrow> ws_request \<Rightarrow> bytes" where
  "feedPetFingerprint caller req = sha256 (pet_fingerprint_head caller req)"

definition storePetCommandFailure ::
  "codec \<Rightarrow> ws_action \<Rightarrow> ws_request \<Rightarrow> bytes \<Rightarrow> bytes \<Rightarrow> u64 \<Rightarrow> int \<Rightarrow> ws_error \<Rightarrow> state \<Rightarrow> ws_response \<times> state" where
  "storePetCommandFailure C act = storeFailure C act"

definition baseReplayEnvelope :: "ws_request \<Rightarrow> idempotency_result \<Rightarrow> int \<Rightarrow> ws_response" where
  "baseReplayEnvelope req r now = \<lparr>resp_protocol_version = ProtocolVersion, resp_message_kind = RESPONSE,
     resp_action = req_action req, resp_request_id = req_request_id req,
     resp_target_player_id = req_target_player_id req,
     resp_state_version = Some (ir_result_owner_epoch r, ir_result_player_seq r),
     resp_server_time_ms = now, resp_replayed = True, resp_error = None, resp_payload = None\<rparr>"

definition unmarshalStoredError :: "codec \<Rightarrow> idempotency_result \<Rightarrow> ws_error option" where
  "unmarshalStoredError C r = unmarshal_error C (ir_error_payload r)"

text \<open>\<open>replayBuyPet\<close>, \<open>replayDeployPet\<close>, \<open>replayBuyPetFood\<close> and \<open>replayFeedPet\<close>, by the message they unmarshal.\<close>

definition replayPetCommand :: "codec \<Rightarrow> ws_action \<Rightarrow> ws_request \<Rightarrow> idempotency_result \<Rightarrow> int \<Rightarrow> ws_response" where
  "replayPetCommand C act req r now =
     (let response = baseReplayEnvelope req r now;
          unknown = response\<lparr>resp_error := Some (plain_error REQUEST_OUTCOME_UNKNOWN)\<rparr>
      in if ir_success r
         then (case unmarshal_payload C act (ir_response_payload r) of
                 Some p \<Rightarrow> response\<lparr>resp_payload := Some p\<rparr> | None \<Rightarrow> unknown)
         else (case unmarshalStoredError C r of
                 Some e \<Rightarrow> response\<lparr>resp_error := Some e\<rparr> | None \<Rightarrow> unknown))"

lemma replayPetCommand_eq: "replayPetCommand C act = replayStored C act"
  by (intro ext) (simp add: replayPetCommand_def replayStored_def baseReplayEnvelope_def unmarshalStoredError_def Let_def)

section \<open>Commands\<close>

definition buyPetBody :: "u32 list \<Rightarrow> config_snapshot \<Rightarrow> u32 \<Rightarrow> u64 \<Rightarrow> int \<Rightarrow> state \<Rightarrow> outcome" where
  "buyPetBody ord cfg petId version now s =
     (case Pet cfg petId of
        None \<Rightarrow> Failed (plain_error PET_NOT_FOUND) s
      | Some petCfg \<Rightarrow>
          if \<not> ptc_enabled petCfg then Failed (plain_error PET_DISABLED) s
          else if version \<noteq> ptc_config_version petCfg then Failed (plain_error PRICE_CHANGED) s
          else let s0 = ensurePetState s
          in if ownsPet (st_pet_state s0) petId then Failed (plain_error PET_ALREADY_OWNED) s0
          else if st_coins s0 < ptc_price_coins petCfg then Failed (plain_error INSUFFICIENT_COINS) s0
          else let s1 = s0\<lparr>st_coins := to_i64 (st_coins s0 - ptc_price_coins petCfg),
                 st_pet_state := Some (addOwnedPet petId (petOf s0))\<rparr>
          in Done (BuyPetResponse petId (ptc_price_coins petCfg)
                 (PlayerStatePatch (Some (st_coins s1)) [] [] [] (Some (chapterView s1)) None None)
                 (buildPetPanel ord s1 cfg now)) [] s1 {||})"

definition buyPet ::
  "codec \<Rightarrow> u32 list \<Rightarrow> u64 \<Rightarrow> ws_request \<Rightarrow> u32 \<Rightarrow> u64 \<Rightarrow> config_snapshot \<Rightarrow> int \<Rightarrow> state \<Rightarrow> handler_result" where
  "buyPet C ord caller req petId version cfg now s =
     run_command C BUY_PET (storePetCommandFailure C BUY_PET) (replayPetCommand C BUY_PET)
       (buyPetFingerprint caller req petId version) caller req (cfg_version cfg) now
       (\<lambda>rid. buyPetBody ord cfg petId version now) s"

definition deployPetBody :: "u32 list \<Rightarrow> config_snapshot \<Rightarrow> u32 \<Rightarrow> int \<Rightarrow> state \<Rightarrow> outcome" where
  "deployPetBody ord cfg petId now s =
     (if petId = 0 then Failed (plain_error INVALID_ARGUMENT) s
      else if Pet cfg petId = None then Failed (plain_error PET_NOT_FOUND) s
      else let s0 = ensurePetState s
      in if \<not> ownsPet (st_pet_state s0) petId then Failed (plain_error PET_NOT_OWNED) s0
      else let s1 = s0\<lparr>st_pet_state := Some ((petOf s0)\<lparr>pet_active_id := petId\<rparr>)\<rparr>
      in Done (DeployPetResponse petId
             (PlayerStatePatch None [] [] [] (Some (chapterView s1)) None None)
             (buildPetPanel ord s1 cfg now)) [] s1 {||})"

definition deployPet ::
  "codec \<Rightarrow> u32 list \<Rightarrow> u64 \<Rightarrow> ws_request \<Rightarrow> u32 \<Rightarrow> config_snapshot \<Rightarrow> int \<Rightarrow> state \<Rightarrow> handler_result" where
  "deployPet C ord caller req petId cfg now s =
     run_command C DEPLOY_PET (storePetCommandFailure C DEPLOY_PET) (replayPetCommand C DEPLOY_PET)
       (deployPetFingerprint caller req petId) caller req (cfg_version cfg) now
       (\<lambda>rid. deployPetBody ord cfg petId now) s"

definition buyPetFoodBody :: "u32 list \<Rightarrow> config_snapshot \<Rightarrow> buy_request \<Rightarrow> int \<Rightarrow> state \<Rightarrow> outcome" where
  "buyPetFoodBody ord cfg buy now s =
     (if br_quantity buy = 0 \<or> br_quantity buy > 50 then Failed (plain_error INVALID_ARGUMENT) s
      else case ShopEntry cfg (br_shop_entry_id buy) of
        None \<Rightarrow> Failed (plain_error SHOP_ENTRY_NOT_FOUND) s
      | Some entry \<Rightarrow>
          if (case PetFood cfg (se_item_id entry) of None \<Rightarrow> True | Some food \<Rightarrow> \<not> pf_enabled food)
          then Failed (plain_error SHOP_ENTRY_NOT_FOUND) s
          else if \<not> se_enabled entry then Failed (plain_error SHOP_ENTRY_DISABLED) s
          else if br_expected_price_version buy \<noteq> se_price_version entry
          then Failed (WsError PRICE_CHANGED False (Some (shopEntryView entry)) None) s
          else if int (unat (br_quantity buy)) > go_quo max_i64 (se_unit_price entry)
          then Failed (plain_error INVALID_ARGUMENT) s
          else let totalPrice = to_i64 (int (unat (br_quantity buy)) * se_unit_price entry)
          in if st_coins s < totalPrice then Failed (plain_error INSUFFICIENT_COINS) s
          else let currentQuantity = map_get (st_inventory s) (se_item_id entry)
          in if unat currentQuantity + unat (br_quantity buy) > 300
          then Failed (plain_error INVENTORY_STACK_LIMIT) s
          else let s1 = s\<lparr>st_coins := to_i64 (st_coins s - totalPrice),
                 st_inventory := fmupd (se_item_id entry) (currentQuantity + br_quantity buy) (st_inventory s)\<rparr>
          in Done (BuyPetFoodResponse (br_shop_entry_id buy) (se_item_id entry) (br_quantity buy)
                 (se_unit_price entry) totalPrice
                 (PlayerStatePatch (Some (st_coins s1))
                   [ItemStackView (se_item_id entry) (map_get (st_inventory s1) (se_item_id entry))] [] []
                   (Some (chapterView s1)) None None)
                 (buildPetPanel ord s1 cfg now))
               [] s1 {||})"

definition buyPetFood ::
  "codec \<Rightarrow> u32 list \<Rightarrow> u64 \<Rightarrow> ws_request \<Rightarrow> buy_request \<Rightarrow> config_snapshot \<Rightarrow> int \<Rightarrow> state \<Rightarrow> handler_result" where
  "buyPetFood C ord caller req buy cfg now s =
     run_command C BUY_PET_FOOD (storePetCommandFailure C BUY_PET_FOOD) (replayPetCommand C BUY_PET_FOOD)
       (buyPetFoodFingerprint caller req buy) caller req (cfg_version cfg) now
       (\<lambda>rid. buyPetFoodBody ord cfg buy now) s"

text \<open>\<open>int64(food.DurationSeconds) * 1000\<close>; both the conversion and the product may wrap.\<close>

definition food_duration_ms :: "pet_food_config \<Rightarrow> int" where
  "food_duration_ms food = to_i64 (to_i64 (int (unat (pf_duration_seconds food))) * 1000)"

definition fed_pet :: "pet_food_config \<Rightarrow> int \<Rightarrow> pet_record \<Rightarrow> pet_record" where
  "fed_pet food nowMS pet = pet\<lparr>pet_food_active_until_ms :=
     (if pet_food_active_until_ms pet > nowMS then to_i64 (pet_food_active_until_ms pet + food_duration_ms food)
      else to_i64 (nowMS + food_duration_ms food))\<rparr>"

definition feedPetBody :: "u32 list \<Rightarrow> u32 list \<Rightarrow> config_snapshot \<Rightarrow> int \<Rightarrow> state \<Rightarrow> outcome" where
  "feedPetBody ord panelOrd cfg now s =
     (case PrimaryPetFood ord cfg of
        None \<Rightarrow> Failed (retryable_error CONFIG_UNAVAILABLE) s
      | Some (food, _) \<Rightarrow>
          if \<not> pf_enabled food then Failed (retryable_error CONFIG_UNAVAILABLE) s
          else let quantity = map_get (st_inventory s) (pf_item_id food)
          in if quantity = 0 then Failed (plain_error ITEM_NOT_OWNED) s
          else let s0 = ensurePetState s;
                   s1 = s0\<lparr>st_pet_state := Some (fed_pet food now (petOf s0)),
                     st_inventory := take_items (pf_item_id food) (quantity - 1) (st_inventory s0)\<rparr>;
                   (upserts, removed) = take_patch (pf_item_id food) (quantity - 1)
          in Done (FeedPetResponse (pet_food_active_until_ms (petOf s1))
                 (PlayerStatePatch None upserts removed [] (Some (chapterView s1)) None None)
                 (buildPetPanel panelOrd s1 cfg now)) [] s1 {||})"

definition feedPet ::
  "codec \<Rightarrow> u32 list \<Rightarrow> u32 list \<Rightarrow> u64 \<Rightarrow> ws_request \<Rightarrow> config_snapshot \<Rightarrow> int \<Rightarrow> state \<Rightarrow> handler_result" where
  "feedPet C ord panelOrd caller req cfg now s =
     run_command C FEED_PET (storePetCommandFailure C FEED_PET) (replayPetCommand C FEED_PET)
       (feedPetFingerprint caller req) caller req (cfg_version cfg) now
       (\<lambda>rid. feedPetBody ord panelOrd cfg now) s"

section \<open>Commands keep the invariant\<close>

lemma pet_ok_add: "pet_ok p \<Longrightarrow> petId \<noteq> 0 \<Longrightarrow> pet_ok (addOwnedPet petId p)"
  using ids_ok_insert [of "pet_owned_ids p" petId] by (auto simp: pet_ok_def addOwnedPet_def ownsPet_def)

lemma config_pet: "config_ok cfg \<Longrightarrow> Pet cfg i = Some c \<Longrightarrow> i \<noteq> 0 \<and> 0 < ptc_price_coins c \<and> ptc_pet_id c = i"
  using config_lookup(5) by (fastforce simp: pet_valid_def not_le)

lemma state_ok_pet:
  "state_ok s \<Longrightarrow> pet_ok p \<Longrightarrow> state_ok (s\<lparr>st_pet_state := Some p\<rparr>)"
  by (simp add: state_ok_def petOf_def)

lemma petOf_pet_upd [simp]: "petOf (s\<lparr>st_pet_state := Some p\<rparr>) = p"
  by (simp add: petOf_def)

lemma state_okD_pet: "state_ok s \<Longrightarrow> pet_ok (petOf s)"
  by (simp add: state_ok_def)

lemma buyPet_Done:
  assumes "buyPetBody ord cfg petId version now s = Done p obx s1 ch"
  obtains c where "Pet cfg petId = Some c" "ptc_enabled c" "version = ptc_config_version c"
    "\<not> ownsPet (Some (petOf s)) petId" "ptc_price_coins c \<le> st_coins s"
    "s1 = (ensurePetState s)\<lparr>st_coins := to_i64 (st_coins s - ptc_price_coins c),
       st_pet_state := Some (addOwnedPet petId (petOf s))\<rparr>"
    "p = BuyPetResponse petId (ptc_price_coins c)
       (PlayerStatePatch (Some (st_coins s1)) [] [] [] (Some (chapterView s1)) None None) (buildPetPanel ord s1 cfg now)"
    "ch = {||}"
  using assms unfolding buyPetBody_def by (auto simp: Let_def split: if_splits option.splits)

lemma feedPet_Done:
  assumes "feedPetBody ord panelOrd cfg now s = Done p obx s1 ch"
  obtains food e where "PrimaryPetFood ord cfg = Some (food, e)" "pf_enabled food"
    "map_get (st_inventory s) (pf_item_id food) \<noteq> 0"
    "s1 = (ensurePetState s)\<lparr>st_pet_state := Some (fed_pet food now (petOf s)),
       st_inventory := take_items (pf_item_id food) (map_get (st_inventory s) (pf_item_id food) - 1) (st_inventory s)\<rparr>"
    "\<exists>ups rem. take_patch (pf_item_id food) (map_get (st_inventory s) (pf_item_id food) - 1) = (ups, rem) \<and>
       p = FeedPetResponse (pet_food_active_until_ms (fed_pet food now (petOf s)))
         (PlayerStatePatch None ups rem [] (Some (chapterView s1)) None None) (buildPetPanel panelOrd s1 cfg now)"
    "ch = {||}"
  using assms unfolding feedPetBody_def by (auto simp: Let_def petOf_def split: if_splits option.splits prod.splits)

lemma primary_food:
  assumes "config_ok cfg" "PrimaryPetFood ord cfg = Some (food, e)"
  shows "fmlookup (cfg_pet_food cfg) (pf_item_id food) = Some food" "pf_item_id food \<noteq> 0" "pf_enabled food"
proof -
  obtain i where i: "fmlookup (cfg_pet_food cfg) i = Some food" "pf_enabled food"
    using assms(2) unfolding PrimaryPetFood_def
    by (induction ord) (auto split: option.splits if_splits)
  have "pet_food_valid food \<and> pf_item_id food = i"
    using config_lookup(6) [OF assms(1), of i food] i(1) by (simp add: PetFood_def)
  then show "fmlookup (cfg_pet_food cfg) (pf_item_id food) = Some food" "pf_item_id food \<noteq> 0" "pf_enabled food"
    using i by (auto simp: pet_food_valid_def)
qed

text \<open>Within the horizon of the clock a meal lasts exactly its duration.\<close>

lemma fed_pet_exact:
  assumes "fmlookup (cfg_pet_food cfg) i = Some food" "food_ok cfg now pet" "0 \<le> now" "0 \<le> pet_food_active_until_ms pet"
  shows "pet_food_active_until_ms (fed_pet food now pet) =
    max now (pet_food_active_until_ms pet) + int (unat (pf_duration_seconds food)) * 1000"
proof -
  have h: "max now (pet_food_active_until_ms pet) + int (unat (pf_duration_seconds food)) * 1000 \<le> max_i64"
    using assms(1,2) by (simp add: food_ok_def)
  let ?d = "int (unat (pf_duration_seconds food))"
  have d: "?d \<le> max_i64" "?d * 1000 \<le> max_i64" using h assms(3) by linarith+
  then have "food_duration_ms food = ?d * 1000" by (simp add: food_duration_ms_def in_i64_nonneg)
  moreover have "to_i64 (max now (pet_food_active_until_ms pet) + ?d * 1000) = max now (pet_food_active_until_ms pet) + ?d * 1000"
    using h assms(3) by (intro to_i64_id in_i64_nonneg) simp_all
  ultimately show ?thesis by (auto simp: fed_pet_def max_def split: if_splits)
qed

lemma fed_pet_ok:
  assumes "fmlookup (cfg_pet_food cfg) i = Some food" "food_ok cfg now pet" "0 \<le> now" "pet_ok pet"
  shows "pet_ok (fed_pet food now pet)"
proof -
  have "0 \<le> pet_food_active_until_ms pet" using assms(4) by (simp add: pet_ok_def)
  note e = fed_pet_exact [OF assms(1-3) this]
  moreover have "max now (pet_food_active_until_ms pet) + int (unat (pf_duration_seconds food)) * 1000 \<le> max_i64"
    using assms(1,2) by (simp add: food_ok_def)
  moreover have "pet_owned_ids (fed_pet food now pet) = pet_owned_ids pet" "pet_active_id (fed_pet food now pet) = pet_active_id pet"
    by (simp_all add: fed_pet_def)
  ultimately show ?thesis using assms(3,4) by (auto simp: pet_ok_def)
qed

lemma food_taken_ok:
  assumes "inventory_ok m" "map_get m i \<noteq> 0"
  shows "inventory_ok (take_items i (map_get m i - 1) m)"
proof -
  have "map_get m i - 1 \<le> 300"
    using inventory_ok_get [OF assms(1), of i] unat_pred_u32 [OF assms(2)] by (simp add: word_le_nat_alt)
  then show ?thesis using take_items_ok [OF assms(1) inventory_ok_key [OF assms]] by simp
qed

lemma feedPet_ok:
  assumes "state_ok s" "env_ok cfg now s" "feedPetBody ord panelOrd cfg now s = Done p obx s1 ch"
  shows "state_ok s1"
proof (rule feedPet_Done [OF assms(3)])
  fix food e
  assume f: "PrimaryPetFood ord cfg = Some (food, e)" "map_get (st_inventory s) (pf_item_id food) \<noteq> 0"
    "s1 = (ensurePetState s)\<lparr>st_pet_state := Some (fed_pet food now (petOf s)),
       st_inventory := take_items (pf_item_id food) (map_get (st_inventory s) (pf_item_id food) - 1) (st_inventory s)\<rparr>"
  have env: "config_ok cfg" "food_ok cfg now (petOf s)" "0 \<le> now" using assms(2) by (simp_all add: env_ok_def)
  have "pet_ok (fed_pet food now (petOf s))"
    using fed_pet_ok [OF primary_food(1) [OF env(1) f(1)] env(2,3) state_okD_pet [OF assms(1)]] .
  moreover have "inventory_ok (st_inventory s)" using assms(1) by (simp add: state_ok_def)
  ultimately show ?thesis
    unfolding f(3) using assms(1) food_taken_ok [OF _ f(2)] by (intro state_ok_inventory state_ok_pet) simp_all
qed

lemma buyPet_ok:
  assumes "state_ok s" "env_ok cfg now s" "buyPetBody ord cfg petId version now s = Done p obx s1 ch"
  shows "state_ok s1"
proof (rule buyPet_Done [OF assms(3)])
  fix c
  assume c: "Pet cfg petId = Some c" "ptc_price_coins c \<le> st_coins s"
    "s1 = (ensurePetState s)\<lparr>st_coins := to_i64 (st_coins s - ptc_price_coins c),
       st_pet_state := Some (addOwnedPet petId (petOf s))\<rparr>"
  have k: "petId \<noteq> 0" "0 \<le> ptc_price_coins c"
    using config_pet [OF _ c(1)] assms(2) by (simp_all add: env_ok_def)
  have "state_ok ((ensurePetState s)\<lparr>st_coins := to_i64 (st_coins s - ptc_price_coins c)\<rparr>)"
    using state_ok_pay(1) [of "ensurePetState s"] assms(1) k(2) c(2) by simp
  then show ?thesis
    unfolding c(3) using pet_ok_add [OF state_okD_pet [OF assms(1)] k(1)] by (intro state_ok_pet) simp_all
qed

lemma deployPet_ok:
  assumes "state_ok s" "deployPetBody ord cfg petId now s = Done p obx s1 ch"
  shows "state_ok s1"
proof -
  have "s1 = (ensurePetState s)\<lparr>st_pet_state := Some ((petOf s)\<lparr>pet_active_id := petId\<rparr>)\<rparr>" "ownsPet (Some (petOf s)) petId"
    using assms(2) unfolding deployPetBody_def by (auto simp: Let_def split: if_splits)
  moreover have "pet_ok ((petOf s)\<lparr>pet_active_id := petId\<rparr>)"
    using state_okD_pet [OF assms(1)] calculation(2) by (simp add: pet_ok_def ownsPet_def)
  ultimately show ?thesis using assms(1) by (simp add: state_ok_pet)
qed

lemma buyPetFood_ok:
  assumes "state_ok s" "env_ok cfg now s" "buyPetFoodBody ord cfg buy now s = Done p obx s1 ch"
  shows "state_ok s1"
proof -
  have c: "config_ok cfg" using assms(2) by (simp add: env_ok_def)
  obtain e where e: "ShopEntry cfg (br_shop_entry_id buy) = Some e"
    using assms(3) by (auto simp: buyPetFoodBody_def split: if_splits option.splits)
  note k = config_ok_shop [OF c e]
  have g: "int (unat (br_quantity buy)) \<le> go_quo max_i64 (se_unit_price e)" "0 < br_quantity buy"
    using assms(3) e by (auto simp: buyPetFoodBody_def word_neq_0_conv split: if_splits)
  note exact = price_exact [OF _ g(1)]
  have "s1 = s\<lparr>st_coins := to_i64 (st_coins s - int (unat (br_quantity buy)) * se_unit_price e),
      st_inventory := fmupd (se_item_id e) (map_get (st_inventory s) (se_item_id e) + br_quantity buy) (st_inventory s)\<rparr>"
    "int (unat (br_quantity buy)) * se_unit_price e \<le> st_coins s"
    "unat (map_get (st_inventory s) (se_item_id e)) + unat (br_quantity buy) \<le> 300"
    using assms(3) e exact k by (auto simp: buyPetFoodBody_def Let_def not_less split: if_splits)
  then show ?thesis using purchase_ok [OF assms(1) _ g(2)] k exact by simp
qed

lemma patch_chapter:
  assumes "st_coins s1 = st_coins s" "st_plots s1 = st_plots s" "st_career s1 = st_career s"
    "st_crop_compendium s1 = st_crop_compendium s"
    "fold (\<lambda>i m. m(i := 0)) rem (fold (\<lambda>v m. m(isv_item_id v := isv_quantity v)) ups (map_get (st_inventory s))) =
     map_get (st_inventory s1)"
  shows "apply_patch (PlayerStatePatch None ups rem [] (Some (chapterView s1)) None None) (client_of s) = client_of s1"
  using assms by (auto simp: client_of_def apply_patch_def careerView_def compendiumView_def)

section \<open>Interpretations\<close>

interpretation buy_pet: synced_command BUY_PET
  "\<lambda>C caller req cfg now rid. buyPetBody ord cfg petId version now"
  "\<lambda>caller req. buyPetFingerprint caller req petId version"
  "\<lambda>C caller req. buyPet C ord caller req petId version" for ord petId version
proof (unfold_locales, goal_cases)
  case (1 C caller req cfg now s)
  then show ?case by (simp add: buyPet_def storePetCommandFailure_def replayPetCommand_eq)
next
  case (2 C caller req cfg now rid s e s1)
  then show ?case by (auto simp: buyPetBody_def Let_def split: if_splits option.splits)
next
  case (5 s cfg now C caller req rid p obx s1 ch)
  then show ?case by (rule buyPet_ok)
next
  case (6 s C caller req cfg now rid p obx s1 ch)
  from 6(2) show ?case by (rule buyPet_Done) (auto intro!: patch_coins_items)
qed (auto simp: buyPetBody_def Let_def unchanged_outside_def split: if_splits option.splits)

interpretation deploy_pet: synced_command DEPLOY_PET
  "\<lambda>C caller req cfg now rid. deployPetBody ord cfg petId now"
  "\<lambda>caller req. deployPetFingerprint caller req petId"
  "\<lambda>C caller req. deployPet C ord caller req petId" for ord petId
proof (unfold_locales, goal_cases)
  case (1 C caller req cfg now s)
  then show ?case by (simp add: deployPet_def storePetCommandFailure_def replayPetCommand_eq)
next
  case (2 C caller req cfg now rid s e s1)
  then show ?case by (auto simp: deployPetBody_def Let_def split: if_splits option.splits)
next
  case (5 s cfg now C caller req rid p obx s1 ch)
  then show ?case using deployPet_ok by blast
next
  case (6 s C caller req cfg now rid p obx s1 ch)
  then show ?case by (auto simp: deployPetBody_def Let_def split: if_splits intro!: patch_chapter)
qed (auto simp: deployPetBody_def Let_def unchanged_outside_def split: if_splits option.splits)

interpretation buy_pet_food: synced_command BUY_PET_FOOD
  "\<lambda>C caller req cfg now rid. buyPetFoodBody ord cfg buy now"
  "\<lambda>caller req. buyPetFoodFingerprint caller req buy"
  "\<lambda>C caller req. buyPetFood C ord caller req buy" for ord buy
proof (unfold_locales, goal_cases)
  case (1 C caller req cfg now s)
  then show ?case by (simp add: buyPetFood_def storePetCommandFailure_def replayPetCommand_eq)
next
  case (2 C caller req cfg now rid s e s1)
  then show ?case by (auto simp: buyPetFoodBody_def Let_def split: if_splits option.splits)
next
  case (5 s cfg now C caller req rid p obx s1 ch)
  then show ?case by (rule buyPetFood_ok)
next
  case (6 s C caller req cfg now rid p obx s1 ch)
  then show ?case
    by (auto simp: buyPetFoodBody_def Let_def map_get_fun_upd intro!: patch_coins_items split: if_splits option.splits)
qed (auto simp: buyPetFoodBody_def Let_def unchanged_outside_def split: if_splits option.splits)

interpretation feed_pet: synced_command FEED_PET
  "\<lambda>C caller req cfg now rid. feedPetBody ord panelOrd cfg now"
  "\<lambda>caller req. feedPetFingerprint caller req"
  "\<lambda>C caller req. feedPet C ord panelOrd caller req" for ord panelOrd
proof (unfold_locales, goal_cases)
  case (1 C caller req cfg now s)
  then show ?case by (simp add: feedPet_def storePetCommandFailure_def replayPetCommand_eq)
next
  case (2 C caller req cfg now rid s e s1)
  then show ?case by (auto simp: feedPetBody_def Let_def split: if_splits option.splits prod.splits)
next
  case (5 s cfg now C caller req rid p obx s1 ch)
  then show ?case by (rule feedPet_ok)
next
  case (6 s C caller req cfg now rid p obx s1 ch)
  from 6(2) show ?case
    by (rule feedPet_Done) (auto simp: take_patch_apply take_items_get intro!: patch_chapter)
qed (auto simp: feedPetBody_def Let_def unchanged_outside_def split: if_splits option.splits prod.splits)

section \<open>Properties\<close>

lemma feedPet_Done_iff:
  assumes "PrimaryPetFood ord cfg = Some (food, e)" "config_ok cfg"
  shows "(\<exists>p obx s1 ch. feedPetBody ord panelOrd cfg now s = Done p obx s1 ch) \<longleftrightarrow>
    0 < acc_item (account_of s) (pf_item_id food)"
  using assms(1) primary_food(3) [OF assms(2,1)]
  by (auto simp: feedPetBody_def Let_def account_of_def unat_gt_0 split: prod.splits)

text \<open>
  A fresh \<open>FEED_PET\<close> succeeds exactly when the primary pet food is owned; it takes one portion and
  keeps the guard fed for exactly the configured duration from now, or from the end of the running
  meal, and leaves the owned and deployed pets alone.
\<close>

theorem feedPet_exact:
  assumes "state_ok s" "env_ok cfg now s" "parseRequestID (req_request_id req) = Some rid"
    "find_stored caller rid (st_recent_results s) = None" "PrimaryPetFood ord cfg = Some (food, e)"
    "feedPet C ord panelOrd caller req cfg now s = (resp, dirty, ch, s')"
  shows "(resp_error resp = None \<longleftrightarrow> 0 < acc_item (account_of s) (pf_item_id food)) \<and>
    (resp_error resp = None \<longrightarrow>
      account_of s' = spend (pf_item_id food) 1 (account_of s) \<and>
      petOf s' = (petOf s)\<lparr>pet_food_active_until_ms :=
        max now (pet_food_active_until_ms (petOf s)) + int (unat (pf_duration_seconds food)) * 1000\<rparr> \<and>
      (pet_active_id (petOf s) \<noteq> 0 \<longrightarrow> guardBuffActive (st_pet_state s') now))"
proof -
  note f = feed_pet.fresh_handler [OF assms(3,4,6)]
  have env: "config_ok cfg" "food_ok cfg now (petOf s)" "0 \<le> now" using assms(2) by (simp_all add: env_ok_def)
  note food = primary_food [OF env(1) assms(5)]
  have "0 \<le> pet_food_active_until_ms (petOf s)" using state_okD_pet [OF assms(1)] by (simp add: pet_ok_def)
  note exact = fed_pet_exact [OF food(1) env(2,3) this]
  have dur: "0 < unat (pf_duration_seconds food)"
    using config_lookup(6) [OF env(1), of "pf_item_id food" food] food(1) by (auto simp: PetFood_def pet_food_valid_def unat_gt_0)
  have "account_of s' = spend (pf_item_id food) 1 (account_of s) \<and>
      petOf s' = (petOf s)\<lparr>pet_food_active_until_ms :=
        max now (pet_food_active_until_ms (petOf s)) + int (unat (pf_duration_seconds food)) * 1000\<rparr> \<and>
      (pet_active_id (petOf s) \<noteq> 0 \<longrightarrow> guardBuffActive (st_pet_state s') now)" if "resp_error resp = None"
  proof -
    obtain p obx s1 c where d: "feedPetBody ord panelOrd cfg now s = Done p obx s1 c" using f(2) \<open>resp_error resp = None\<close> by blast
    show ?thesis
    proof (rule feedPet_Done [OF d])
      fix food' e'
      assume "PrimaryPetFood ord cfg = Some (food', e')" "map_get (st_inventory s) (pf_item_id food') \<noteq> 0"
        "s1 = (ensurePetState s)\<lparr>st_pet_state := Some (fed_pet food' now (petOf s)), st_inventory :=
           take_items (pf_item_id food') (map_get (st_inventory s) (pf_item_id food') - 1) (st_inventory s)\<rparr>"
      then have s1: "s1 = (ensurePetState s)\<lparr>st_pet_state := Some (fed_pet food now (petOf s)), st_inventory :=
           take_items (pf_item_id food) (map_get (st_inventory s) (pf_item_id food) - 1) (st_inventory s)\<rparr>"
        and q: "map_get (st_inventory s) (pf_item_id food) \<noteq> 0" using assms(5) by simp_all
      have "fed_pet food now (petOf s) = (petOf s)\<lparr>pet_food_active_until_ms :=
          max now (pet_food_active_until_ms (petOf s)) + int (unat (pf_duration_seconds food)) * 1000\<rparr>"
        using exact by (simp add: fed_pet_def)
      moreover have "now < max now (pet_food_active_until_ms (petOf s)) + int (unat (pf_duration_seconds food)) * 1000"
        using dur by linarith
      ultimately show ?thesis
        using f(3) [OF d] q unat_pred_u32 [OF q]
        by (auto simp: s1 account_of_def take_items_get guardBuffActive_def petFoodActive_def)
    qed
  qed
  then show ?thesis using f(2) feedPet_Done_iff [OF assms(5) env(1)] by blast
qed

definition keeper :: state where
  "keeper = (NewDevelopmentState 7 1000)\<lparr>st_inventory := fmupd 1004 2 fmempty,
     st_pet_state := Some \<lparr>pet_owned_ids = [1], pet_active_id = 1, pet_food_active_until_ms = 0\<rparr>\<rparr>"

lemma keeper_ok: "state_ok keeper" "env_ok dev_config 1000 keeper"
proof -
  have "pet_ok (petOf keeper)" "inventory_ok (st_inventory keeper)"
    by (simp_all add: keeper_def petOf_def pet_ok_def ids_ok_def max_i64_def inventory_ok_def)
  then show "state_ok keeper"
    using initial_state_ok [of 7 1000] unfolding state_ok_def by (simp add: keeper_def)
  have "food_ok dev_config 1000 (petOf keeper)"
    using dev_food by (simp add: keeper_def petOf_def food_ok_def empty_pet_def)
  then show "env_ok dev_config 1000 keeper"
    using dev_env by (simp add: env_ok_def clock_ok_def keeper_def)
qed

lemma dev_primary_food: "PrimaryPetFood [5004] dev_config =
  Some (\<lparr>pf_item_id = 1004, pf_duration_seconds = 86400, pf_config_version = 2, pf_enabled = True\<rparr>,
        \<lparr>se_id = 5004, se_item_id = 1004, se_unit_price = 5, se_price_version = 11, se_enabled = True\<rparr>)"
proof -
  have "\<lparr>se_id = 5004, se_item_id = 1004, se_unit_price = 5, se_price_version = 11, se_enabled = True\<rparr> \<in>
      set development_shop_entries" by (simp add: development_shop_entries_def)
  from load_section_lookup [OF dev_parts(3) this] show ?thesis
    using dev_pet_food [of 1004] by (simp add: PrimaryPetFood_def PetFood_def)
qed

lemma fresh_keeper: "find_stored 7 rid (st_recent_results keeper) = None"
  by (simp add: find_stored_def keeper_def NewDevelopmentState_def)

theorem feedPet_exact_witness:
  "pet_food_active_until_ms (petOf (snd (snd (snd (feedPet ref_codec [5004] [5004] 7
     (sample_request FEED_PET FeedPetRequest) dev_config 1000 keeper))))) = 86401000"
proof -
  let ?r = "feedPet ref_codec [5004] [5004] 7 (sample_request FEED_PET FeedPetRequest) dev_config 1000 keeper"
  obtain resp dirty ch s' where r: "?r = (resp, dirty, ch, s')" by (metis prod.exhaust)
  have "acc_item (account_of keeper) 1004 = 2" "petOf keeper = \<lparr>pet_owned_ids = [1], pet_active_id = 1, pet_food_active_until_ms = 0\<rparr>"
    by (simp_all add: account_of_def keeper_def map_get_def petOf_def)
  then show ?thesis
    using feedPet_exact [OF keeper_ok _ fresh_keeper dev_primary_food r, of "replicate 16 1"] unfolding r by simp
qed

text \<open>
  A fresh \<open>BUY_PET\<close> succeeds exactly when the pet is configured and enabled at the version the
  client saw, not owned yet and affordable; it costs its price and adds exactly that pet, keeping the
  owned pets strictly ascending. A bought pet can be deployed at once.
\<close>

theorem buyPet_exact:
  assumes "state_ok s" "env_ok cfg now s" "parseRequestID (req_request_id req) = Some rid"
    "find_stored caller rid (st_recent_results s) = None"
    "buyPet C ord caller req petId version cfg now s = (resp, dirty, ch, s')"
  shows "(resp_error resp = None \<longleftrightarrow> (\<exists>c. Pet cfg petId = Some c \<and> ptc_enabled c \<and> version = ptc_config_version c \<and>
      petId \<notin> set (pet_owned_ids (petOf s)) \<and> ptc_price_coins c \<le> st_coins s)) \<and>
    (\<forall>c. resp_error resp = None \<and> Pet cfg petId = Some c \<longrightarrow>
      account_of s' = pay (ptc_price_coins c) (account_of s) \<and>
      set (pet_owned_ids (petOf s')) = insert petId (set (pet_owned_ids (petOf s))) \<and>
      ids_ok (pet_owned_ids (petOf s')) \<and> pet_active_id (petOf s') = pet_active_id (petOf s) \<and>
      (\<exists>p obx s2 ch2. deployPetBody ord cfg petId now s' = Done p obx s2 ch2 \<and> pet_active_id (petOf s2) = petId))"
proof -
  note f = buy_pet.fresh_handler [OF assms(3-5)]
  have cfg: "config_ok cfg" using assms(2) by (simp add: env_ok_def)
  have own: "ownsPet (Some p) petId \<longleftrightarrow> petId \<in> set (pet_owned_ids p)" if "Pet cfg petId \<noteq> None" for p
    using config_pet [OF cfg] that by (auto simp: ownsPet_def)
  have iff: "(\<exists>p obx s1 ch. buyPetBody ord cfg petId version now s = Done p obx s1 ch) \<longleftrightarrow>
      (\<exists>c. Pet cfg petId = Some c \<and> ptc_enabled c \<and> version = ptc_config_version c \<and>
      petId \<notin> set (pet_owned_ids (petOf s)) \<and> ptc_price_coins c \<le> st_coins s)"
    using own by (auto simp: buyPetBody_def Let_def split: option.splits)
  have "account_of s' = pay (ptc_price_coins c) (account_of s) \<and>
      set (pet_owned_ids (petOf s')) = insert petId (set (pet_owned_ids (petOf s))) \<and>
      ids_ok (pet_owned_ids (petOf s')) \<and> pet_active_id (petOf s') = pet_active_id (petOf s) \<and>
      (\<exists>p obx s2 ch2. deployPetBody ord cfg petId now s' = Done p obx s2 ch2 \<and> pet_active_id (petOf s2) = petId)"
    if ok: "resp_error resp = None" and c: "Pet cfg petId = Some c" for c
  proof -
    obtain p obx s1 ch1 where d: "buyPetBody ord cfg petId version now s = Done p obx s1 ch1" using f(2) ok by blast
    have s1: "s1 = (ensurePetState s)\<lparr>st_coins := to_i64 (st_coins s - ptc_price_coins c),
         st_pet_state := Some (addOwnedPet petId (petOf s))\<rparr>" "ptc_price_coins c \<le> st_coins s" "\<not> ownsPet (Some (petOf s)) petId"
      by (rule buyPet_Done [OF d]; use c in simp)+
    have k: "petId \<noteq> 0" "0 \<le> ptc_price_coins c" using config_pet [OF cfg c] by simp_all
    have pet: "petOf s' = addOwnedPet petId (petOf s)" using f(3) [OF d] s1(1) by simp
    have "pet_ok (petOf s')" using pet_ok_add [OF state_okD_pet [OF assms(1)] k(1)] pet by simp
    then show ?thesis
      using f(3) [OF d] s1 k c pet state_ok_pay(2) [OF assms(1) k(2) s1(2)]
      by (auto simp: account_of_def addOwnedPet_def pet_ok_def deployPetBody_def Let_def ownsPet_def)
  qed
  then show ?thesis using f(2) iff by blast
qed

theorem buyPet_exact_witness:
  "resp_error (fst (buyPet ref_codec [5004] 7 (sample_request BUY_PET (BuyPetRequest 2 2)) 2 2 dev_config 1000 keeper)) = None"
proof -
  let ?r = "buyPet ref_codec [5004] 7 (sample_request BUY_PET (BuyPetRequest 2 2)) 2 2 dev_config 1000 keeper"
  obtain resp dirty ch s' where r: "?r = (resp, dirty, ch, s')" by (metis prod.exhaust)
  have "\<exists>c. Pet dev_config 2 = Some c \<and> ptc_enabled c \<and> ptc_config_version c = 2 \<and> ptc_price_coins c = 10"
    using load_section_lookup [OF dev_parts(9), of "\<lparr>ptc_pet_id = 2, ptc_name = utf8 [231, 137, 167, 231, 190, 138, 231, 138, 172],
      ptc_price_coins = 10, ptc_guard_probability_bps = 1000, ptc_guard_penalty_coins = 4, ptc_config_version = 2, ptc_enabled = True\<rparr>"]
    by (simp add: Pet_def initial_consts)
  moreover have "st_coins keeper = 10" "petOf keeper = \<lparr>pet_owned_ids = [1], pet_active_id = 1, pet_food_active_until_ms = 0\<rparr>"
    by (simp_all add: keeper_def petOf_def NewDevelopmentState_def initial_consts)
  ultimately show ?thesis
    using buyPet_exact [OF keeper_ok _ fresh_keeper r, of "replicate 16 1"] unfolding r by auto
qed

end
