(* ===== verification/Gift.thy ===== *)
theory Gift
  imports Pets
begin

text \<open>
  \<open>gift.go\<close> and \<open>handleSendFriendGiftAwait\<close> of \<open>runtime.go\<close>: sending a crop to a friend. The handler
  takes two turns of the player's mailbox. The first (\<open>gift_begin\<close>) validates and drafts the gift and
  suspends while the mail service is called; other commands of the player run meanwhile. The second
  (\<open>commitSendFriendGift\<close>) writes the inventory from the quantity the draft remembers.

  \<open>TrimSpace\<close> and the cut at 32 runes only shape the display name inside the mail request, so the
  name arrives here already shaped, as a parameter.
\<close>

section \<open>Messages and drafts\<close>

datatype gift_mail_request = CreateGiftMailRequest
  (gm_source_event_id: bytes) (gm_sender_player_id: u64) (gm_sender_display_name: string)
  (gm_recipient_player_id: u64) (gm_crop_item_id: u32) (gm_quantity: u32) (gm_created_at_ms: int)

record prepared_gift =
  pg_request_id :: bytes
  pg_fingerprint :: bytes
  pg_request_source_id :: bytes
  pg_mail_request :: gift_mail_request
  pg_gift :: gift_request
  pg_current_quantity :: u32

definition minFriendGiftQuantity :: u32 where "minFriendGiftQuantity = 1"
definition maxFriendGiftQuantity :: u32 where "maxFriendGiftQuantity = 10"

definition giftMailEventID :: "u64 \<Rightarrow> bytes \<Rightarrow> bytes" where
  "giftMailEventID senderPlayerID requestID =
     uuid_of_digest (sha256 (str_bytes ''friend-gift-mail:'' @ be64 senderPlayerID @ requestID))"

definition sendFriendGiftFingerprint :: "u64 \<Rightarrow> ws_request \<Rightarrow> gift_request \<Rightarrow> bytes" where
  "sendFriendGiftFingerprint caller req gift = sha256 (fingerprint_head caller req @
     be64 (gr_recipient_player_id gift) @ be32 (gr_crop_item_id gift) @ be32 (gr_quantity gift))"

definition buildGiftMailRequest ::
  "u64 \<Rightarrow> string \<Rightarrow> u64 \<Rightarrow> u32 \<Rightarrow> u32 \<Rightarrow> bytes \<Rightarrow> int \<Rightarrow> bytes \<times> gift_mail_request" where
  "buildGiftMailRequest sender name recipient cropItemId quantity requestID now =
     (let sourceEventID = giftMailEventID sender requestID
      in (sourceEventID, CreateGiftMailRequest sourceEventID sender name recipient cropItemId quantity now))"

definition prepareSendFriendGift ::
  "u64 \<Rightarrow> int \<Rightarrow> string \<Rightarrow> gift_request \<Rightarrow> bytes \<Rightarrow> bytes \<Rightarrow> u32 \<Rightarrow> prepared_gift" where
  "prepareSendFriendGift caller now name gift requestID fingerprint currentQuantity =
     (let (source, mail) = buildGiftMailRequest caller name (gr_recipient_player_id gift)
            (gr_crop_item_id gift) (gr_quantity gift) requestID now
      in \<lparr>pg_request_id = requestID, pg_fingerprint = fingerprint, pg_request_source_id = source,
          pg_mail_request = mail, pg_gift = gift, pg_current_quantity = currentQuantity\<rparr>)"

section \<open>Failures and replays\<close>

text \<open>A stored gift failure keeps its error in \<open>ResponsePayload\<close>, unlike the other commands.\<close>

definition gift_failure_record ::
  "codec \<Rightarrow> ws_request \<Rightarrow> bytes \<Rightarrow> bytes \<Rightarrow> int \<Rightarrow> state \<Rightarrow> ws_error \<Rightarrow> idempotency_result" where
  "gift_failure_record C req rid fp now s e = (failure_record C SEND_FRIEND_GIFT req rid fp now s e)
     \<lparr>ir_response_payload := marshal_error C e, ir_error_payload := []\<rparr>"

definition storeSendFriendGiftFailure ::
  "codec \<Rightarrow> ws_request \<Rightarrow> bytes \<Rightarrow> bytes \<Rightarrow> u64 \<Rightarrow> int \<Rightarrow> ws_error \<Rightarrow> state \<Rightarrow> ws_response \<times> state" where
  "storeSendFriendGiftFailure C req rid fp cv now e s =
     (let s1 = s\<lparr>st_checkpoint_revision := st_checkpoint_revision s + 1, st_config_version := cv,
                 st_updated_at_ms := now\<rparr>;
          s2 = appendResult (gift_failure_record C req rid fp now s1 e) now s1
      in (errorEnvelope req s2 now e, s2))"

text \<open>The decoding errors are ignored; a message that does not decode is taken as empty.\<close>

definition empty_patch :: state_patch where
  "empty_patch = PlayerStatePatch None [] [] [] None None None"

definition replaySendFriendGift :: "codec \<Rightarrow> ws_request \<Rightarrow> idempotency_result \<Rightarrow> int \<Rightarrow> ws_response" where
  "replaySendFriendGift C req r now =
     (let response = baseReplayEnvelope req r now
      in if \<not> ir_success r
         then response\<lparr>resp_error := Some (case unmarshal_error C (ir_response_payload r) of
             Some e \<Rightarrow> e | None \<Rightarrow> plain_error ERROR_UNSPECIFIED)\<rparr>
         else response\<lparr>resp_payload := Some (case unmarshal_payload C SEND_FRIEND_GIFT (ir_response_payload r) of
             Some p \<Rightarrow> p | None \<Rightarrow> SendFriendGiftResponse [] 0 0 empty_patch)\<rparr>)"

section \<open>The two turns\<close>

datatype gift_turn = GiftAnswered ws_response "bool option" | GiftSuspended prepared_gift

text \<open>
  The first turn, after due plots have been materialized. \<open>mailer\<close> tells whether the process has a
  mail client at all. The flag of \<open>GiftAnswered\<close> is what the turn assigns to the handler's \<open>dirty\<close>, if anything.
\<close>

definition gift_begin ::
  "codec \<Rightarrow> bool \<Rightarrow> u64 \<Rightarrow> ws_request \<Rightarrow> gift_request \<Rightarrow> config_snapshot \<Rightarrow> string \<Rightarrow> int \<Rightarrow> state \<Rightarrow> gift_turn \<times> state" where
  "gift_begin C mailer caller req gift cfg name now s =
     (case parseRequestID (req_request_id req) of
        None \<Rightarrow> (GiftAnswered (errorEnvelope req s now (plain_error INVALID_ARGUMENT)) None, s)
      | Some rid \<Rightarrow>
          (let fp = sendFriendGiftFingerprint caller req gift;
               fail = (\<lambda>c. let (resp, s') = storeSendFriendGiftFailure C req rid fp (cfg_version cfg) now (plain_error c) s
                            in (GiftAnswered resp (Some True), s'))
           in case find_stored caller rid (st_recent_results s) of
                Some r \<Rightarrow>
                  if \<not> same_request req fp r
                  then (GiftAnswered (errorEnvelope req s now (plain_error REQUEST_ID_CONFLICT)) None, s)
                  else (GiftAnswered (replaySendFriendGift C req r now) None, s)
              | None \<Rightarrow>
                  if gr_recipient_player_id gift = 0 \<or> gr_crop_item_id gift = 0 \<or>
                     gr_quantity gift < minFriendGiftQuantity \<or> gr_quantity gift > maxFriendGiftQuantity
                  then fail INVALID_ARGUMENT
                  else if gr_recipient_player_id gift = caller then fail CANNOT_FRIEND_SELF
                  else if \<not> IsCropItem cfg (gr_crop_item_id gift) then fail ITEM_NOT_SELLABLE
                  else let currentQuantity = map_get (st_inventory s) (gr_crop_item_id gift)
                  in if gr_quantity gift > currentQuantity then fail INSUFFICIENT_ITEM_QUANTITY
                  else if \<not> mailer
                  then (GiftAnswered (errorEnvelope req s now (retryable_error CONFIG_UNAVAILABLE)) (Some False), s)
                  else (GiftSuspended (prepareSendFriendGift caller now name gift rid fp currentQuantity), s)))"

definition commitSendFriendGift ::
  "codec \<Rightarrow> u64 \<Rightarrow> ws_request \<Rightarrow> config_snapshot \<Rightarrow> int \<Rightarrow> prepared_gift \<Rightarrow> state \<Rightarrow> ws_response \<times> state" where
  "commitSendFriendGift C caller req cfg now draft s =
     (let item = gr_crop_item_id (pg_gift draft);
          remaining = pg_current_quantity draft - gr_quantity (pg_gift draft);
          s1 = bump (cfg_version cfg) now (s\<lparr>st_inventory := take_items item remaining (st_inventory s)\<rparr>);
          (upserts, removed) = take_patch item remaining;
          payload = SendFriendGiftResponse (pg_request_source_id draft) item (gr_quantity (pg_gift draft))
            (PlayerStatePatch None upserts removed [] None None None);
          s2 = appendResult (success_record C SEND_FRIEND_GIFT caller req (pg_request_id draft) (pg_fingerprint draft)
            now s1 payload []) now s1
      in (successEnvelope req s2 now payload, s2))"

text \<open>
  The answer when the mail service cannot be reached or refuses, and when the second turn cannot be
  scheduled: an error envelope over whatever the state is by then, nothing stored.
\<close>

definition gift_mail_failed :: "ws_request \<Rightarrow> int \<Rightarrow> state \<Rightarrow> ws_response" where
  "gift_mail_failed req now s = errorEnvelope req s now (retryable_error CONFIG_UNAVAILABLE)"

text \<open>
  \<open>sendFriendGift\<close>, the variant that stays on the mailbox while the mail service (a parameter: does it
  accept the request?) is called.
\<close>

definition sendFriendGift ::
  "codec \<Rightarrow> bool \<Rightarrow> (gift_mail_request \<Rightarrow> bool) \<Rightarrow> u64 \<Rightarrow> ws_request \<Rightarrow> gift_request \<Rightarrow> config_snapshot \<Rightarrow> string \<Rightarrow> int \<Rightarrow>
   state \<Rightarrow> ws_response \<times> bool \<times> state" where
  "sendFriendGift C mailer accepts caller req gift cfg name now s =
     (case gift_begin C True caller req gift cfg name now s of
        (GiftAnswered resp dirty, s1) \<Rightarrow> (resp, dirty = Some True, s1)
      | (GiftSuspended draft, s1) \<Rightarrow>
          if \<not> mailer \<or> \<not> accepts (pg_mail_request draft) then (gift_mail_failed req now s1, True, s1)
          else (let (resp, s2) = commitSendFriendGift C caller req cfg now draft s1 in (resp, True, s2)))"

section \<open>Lemmas\<close>

text \<open>When the first turn suspends, and with which draft; it never changes the state then.\<close>

lemma gift_begin_Suspended:
  assumes "gift_begin C mailer caller req gift cfg name now s = (GiftSuspended draft, s1)"
  obtains rid where "parseRequestID (req_request_id req) = Some rid"
    "find_stored caller rid (st_recent_results s) = None" "s1 = s"
    "gr_recipient_player_id gift \<noteq> 0" "gr_recipient_player_id gift \<noteq> caller" "gr_crop_item_id gift \<noteq> 0"
    "gr_quantity gift \<noteq> 0" "gr_quantity gift \<le> 10"
    "gr_quantity gift \<le> map_get (st_inventory s) (gr_crop_item_id gift)"
    "draft = prepareSendFriendGift caller now name gift rid (sendFriendGiftFingerprint caller req gift)
       (map_get (st_inventory s) (gr_crop_item_id gift))"
  using assms unfolding gift_begin_def
  by (auto simp: Let_def minFriendGiftQuantity_def maxFriendGiftQuantity_def not_less
      split: option.splits if_splits prod.splits)

lemma prepared_fields [simp]:
  "pg_request_id (prepareSendFriendGift caller now name gift rid fp q) = rid"
  "pg_fingerprint (prepareSendFriendGift caller now name gift rid fp q) = fp"
  "pg_gift (prepareSendFriendGift caller now name gift rid fp q) = gift"
  "pg_current_quantity (prepareSendFriendGift caller now name gift rid fp q) = q"
  "pg_mail_request (prepareSendFriendGift caller now name gift rid fp q) =
     CreateGiftMailRequest (giftMailEventID caller rid) caller name (gr_recipient_player_id gift)
       (gr_crop_item_id gift) (gr_quantity gift) now"
  by (simp_all add: prepareSendFriendGift_def buildGiftMailRequest_def Let_def)

lemma commit_state:
  "snd (commitSendFriendGift C caller req cfg now draft s) =
     appendResult (success_record C SEND_FRIEND_GIFT caller req (pg_request_id draft) (pg_fingerprint draft) now
       (bump (cfg_version cfg) now (s\<lparr>st_inventory := take_items (gr_crop_item_id (pg_gift draft))
         (pg_current_quantity draft - gr_quantity (pg_gift draft)) (st_inventory s)\<rparr>))
       (the (resp_payload (fst (commitSendFriendGift C caller req cfg now draft s)))) []) now
       (bump (cfg_version cfg) now (s\<lparr>st_inventory := take_items (gr_crop_item_id (pg_gift draft))
         (pg_current_quantity draft - gr_quantity (pg_gift draft)) (st_inventory s)\<rparr>))"
  by (simp add: commitSendFriendGift_def Let_def successEnvelope_def split: prod.split)

lemma commit_frame [simp]:
  "st_inventory (snd (commitSendFriendGift C caller req cfg now draft s)) = take_items (gr_crop_item_id (pg_gift draft))
     (pg_current_quantity draft - gr_quantity (pg_gift draft)) (st_inventory s)"
  "st_coins (snd (commitSendFriendGift C caller req cfg now draft s)) = st_coins s"
  "st_plots (snd (commitSendFriendGift C caller req cfg now draft s)) = st_plots s"
  by (simp_all add: commit_state)

section \<open>Properties\<close>

text \<open>
  A gift whose second turn finds the stack as the first turn left it is exact. The mail asks for
  precisely the requested quantity (one to ten, owned, a crop, for somebody else), the giver loses
  exactly that much, and repeating the request afterwards, at any time, is answered from the stored
  result and changes nothing.
\<close>

theorem gift_exact_when_undisturbed:
  assumes "codec_ok C" "req_target_player_id req = caller"
    "gift_begin C mailer caller req gift cfg name now s = (GiftSuspended draft, s1)"
    "map_get (st_inventory s2) (gr_crop_item_id gift) = map_get (st_inventory s) (gr_crop_item_id gift)"
    "find_stored caller (pg_request_id draft) (st_recent_results s2) = None"
    "commitSendFriendGift C caller req cfg now draft s2 = (resp, s3)"
  shows "s1 = s \<and> gm_quantity (pg_mail_request draft) = gr_quantity gift \<and> 0 < gr_quantity gift \<and>
    account_of s3 = spend (gr_crop_item_id gift) (unat (gr_quantity gift)) (account_of s2) \<and>
    unat (gr_quantity gift) \<le> acc_item (account_of s2) (gr_crop_item_id gift) \<and>
    gift_begin C mailer' caller req gift cfg' name' now' s3 =
      (GiftAnswered (resp\<lparr>resp_replayed := True, resp_server_time_ms := now'\<rparr>) None, s3)"
proof (rule gift_begin_Suspended [OF assms(3)])
  fix rid
  let ?fp = "sendFriendGiftFingerprint caller req gift" and ?i = "gr_crop_item_id gift"
  assume g: "parseRequestID (req_request_id req) = Some rid" "s1 = s" "gr_quantity gift \<noteq> 0"
    "gr_quantity gift \<le> map_get (st_inventory s) ?i"
    "draft = prepareSendFriendGift caller now name gift rid ?fp (map_get (st_inventory s) ?i)"
  define sb where "sb = bump (cfg_version cfg) now (s2\<lparr>st_inventory := take_items ?i
    (map_get (st_inventory s) ?i - gr_quantity gift) (st_inventory s2)\<rparr>)"
  obtain ups rem where tp: "take_patch ?i (map_get (st_inventory s) ?i - gr_quantity gift) = (ups, rem)" by fastforce
  define p where "p = SendFriendGiftResponse (pg_request_source_id draft) ?i (gr_quantity gift)
    (PlayerStatePatch None ups rem [] None None None)"
  define r where "r = success_record C SEND_FRIEND_GIFT caller req rid ?fp now sb p []"
  have s3: "s3 = appendResult r now sb" "resp = successEnvelope req (appendResult r now sb) now p"
    using assms(6) g(5) tp by (auto simp: commitSendFriendGift_def Let_def r_def sb_def p_def)
  have st: "find_stored caller rid (st_recent_results s3) = Some r"
    unfolding s3(1) by (rule find_stored_append) (use assms(5) g(5) in \<open>simp_all add: sb_def r_def success_record_def\<close>)
  moreover have "same_request req ?fp r" by (simp add: same_request_def r_def success_record_def)
  ultimately have "gift_begin C mailer' caller req gift cfg' name' now' s3 =
      (GiftAnswered (replaySendFriendGift C req r now') None, s3)"
    using g(1) by (simp add: gift_begin_def)
  moreover have "unmarshal_payload C SEND_FRIEND_GIFT (marshal_payload C p) = Some p"
    using codec_payload [OF assms(1), of p] by (simp add: p_def)
  then have "replaySendFriendGift C req r now' = resp\<lparr>resp_replayed := True, resp_server_time_ms := now'\<rparr>"
    by (simp add: s3(2) replaySendFriendGift_def r_def success_record_def successEnvelope_def baseReplayEnvelope_def)
  moreover have "account_of s3 = spend ?i (unat (gr_quantity gift)) (account_of s2)"
    using assms(4) g(4) by (auto simp: s3(1) sb_def account_of_def take_items_get unat_sub word_le_nat_alt)
  ultimately show ?thesis
    using g assms(4) by (auto simp: account_of_def word_le_nat_alt u32_pos_iff)
qed

definition gift_req :: ws_request where
  "gift_req = (sample_request SEND_FRIEND_GIFT (GiftRequest (SendFriendGiftRequest 8 1002 2)))
     \<lparr>req_request_id := formatUUIDBytes (replicate 16 2)\<rparr>"

abbreviation sample_gift :: gift_request where
  "sample_gift \<equiv> SendFriendGiftRequest 8 1002 2"

definition sample_draft :: prepared_gift where
  "sample_draft = prepareSendFriendGift 7 1000 ''friend'' sample_gift (replicate 16 2)
     (sendFriendGiftFingerprint 7 gift_req sample_gift) 3"

lemma seller_stock: "map_get (st_inventory seller) 1002 = 3" "st_coins seller = 10" "st_recent_results seller = []"
  by (simp_all add: seller_def map_get_def NewDevelopmentState_def initial_consts)

lemma seller_gift: "gift_begin ref_codec True 7 gift_req sample_gift dev_config ''friend'' 1000 seller =
  (GiftSuspended sample_draft, seller)"
proof -
  have "parseRequestID (req_request_id gift_req) = Some (replicate 16 2)"
    by (simp add: gift_req_def parse_format)
  then show ?thesis
    by (simp add: gift_begin_def find_stored_def seller_stock minFriendGiftQuantity_def maxFriendGiftQuantity_def
        IsCropItem_def dev_sell_rule sample_draft_def)
qed

theorem gift_exact_when_undisturbed_witness:
  "account_of (snd (commitSendFriendGift ref_codec 7 gift_req dev_config 1000 sample_draft seller)) =
   spend 1002 2 (account_of seller)"
proof -
  obtain resp s3 where c: "commitSendFriendGift ref_codec 7 gift_req dev_config 1000 sample_draft seller = (resp, s3)"
    by fastforce
  have "req_target_player_id gift_req = 7" by (simp add: gift_req_def sample_request_def)
  moreover have "find_stored 7 (pg_request_id sample_draft) (st_recent_results seller) = None"
    by (simp add: seller_stock find_stored_def)
  ultimately show ?thesis
    using gift_exact_when_undisturbed [OF ref_codec_ok _ seller_gift refl _ c] c by simp
qed

abbreviation sell_all_request :: sell_request where
  "sell_all_request \<equiv> SellCropRequest 1002 9 (AmountSellAll True)"

lemma seller_sells:
  "\<exists>resp ch s2. sellCrop ref_codec 7 (sample_request SELL_CROP (SellRequest sell_all_request)) sell_all_request
     dev_config 1000 seller = (resp, True, ch, s2) \<and> resp_error resp = None \<and>
     account_of s2 = spend 1002 3 (pay (- 15) (account_of seller))"
proof -
  let ?req = "sample_request SELL_CROP (SellRequest sell_all_request)"
  let ?rule = "\<lparr>sl_shop_entry_id = 5002, sl_item_id = 1002, sl_unit_price = 5, sl_price_version = 9, sl_enabled = True\<rparr>"
  obtain resp dirty ch s2 where r: "sellCrop ref_codec 7 ?req sell_all_request dev_config 1000 seller = (resp, dirty, ch, s2)"
    by (metis prod.exhaust)
  have q: "sold_quantity sell_all_request seller = 3"
    by (simp add: sold_quantity_def sell_all_def seller_stock)
  have "sellable dev_config sell_all_request seller ?rule"
    by (simp add: sellable_def dev_sell_rule q account_of_def seller_stock max_i64_def)
  then obtain p obx s1 c where d: "sellCropBody dev_config sell_all_request seller = Done p obx s1 c"
    using sellCrop_Done_iff [OF dev_config_ok seller_ok(1)] by blast
  have f: "parseRequestID (req_request_id ?req) = Some (replicate 16 1)"
    "find_stored 7 (replicate 16 1) (st_recent_results seller) = None"
    by (simp_all add: find_stored_def seller_stock)
  note h = sell_crop.fresh_handler [OF f r]
  have "account_of s2 = account_of s1" using h(3) [OF d] by simp
  then show ?thesis
    using h(1,2) d sellCrop_account(1) [OF dev_config_ok seller_ok(1) d, of ?rule] dev_sell_rule q r by auto
qed

text \<open>
  C24: the gap between the two turns duplicates items. A player with three crops starts a gift of two;
  while the mail is created a sale sells all three; the second turn then writes back the stack its
  draft remembers. Three crops have been paid for, two are in the friend's mail, and one is still in
  the inventory.
\<close>

theorem gift_await_duplicates_items:
  "\<exists>draft resp ch s2. gift_begin ref_codec True 7 gift_req sample_gift dev_config ''friend'' 1000 seller =
       (GiftSuspended draft, seller) \<and>
     sellCrop ref_codec 7 (sample_request SELL_CROP (SellRequest sell_all_request)) sell_all_request
       dev_config 1000 seller = (resp, True, ch, s2) \<and>
     acc_item (account_of seller) 1002 = 3 \<and> acc_coins (account_of s2) = acc_coins (account_of seller) + 3 * 5 \<and>
     acc_item (account_of s2) 1002 = 0 \<and> gm_quantity (pg_mail_request draft) = 2 \<and>
     acc_item (account_of (snd (commitSendFriendGift ref_codec 7 gift_req dev_config 1000 draft s2))) 1002 = 1"
proof -
  obtain resp ch s2 where s: "sellCrop ref_codec 7 (sample_request SELL_CROP (SellRequest sell_all_request)) sell_all_request
     dev_config 1000 seller = (resp, True, ch, s2)" "account_of s2 = spend 1002 3 (pay (- 15) (account_of seller))"
    using seller_sells by blast
  have "acc_item (account_of (snd (commitSendFriendGift ref_codec 7 gift_req dev_config 1000 sample_draft s2))) 1002 = 1"
    by (simp add: account_of_def take_items_get sample_draft_def)
  moreover have "acc_item (account_of s2) 1002 = 0" "acc_coins (account_of s2) = acc_coins (account_of seller) + 15"
    "acc_item (account_of seller) 1002 = 3"
    using s(2) by (simp_all add: account_of_def seller_stock)
  moreover have "gm_quantity (pg_mail_request sample_draft) = 2" by (simp add: sample_draft_def)
  ultimately show ?thesis using seller_gift s(1) by force
qed

end
