(* ===== verification/Lifecycle.thy ===== *)
theory Lifecycle
  imports Gift
begin

text \<open>
  The life of a crop as a state machine: an empty plot is planted, grows, matures, is harvested and
  cleaned. \<open>farm_command\<close> extends the contract of a command: it moves a plot by at most one step of
  this machine, adds and removes no plot, and writes no instant later than the clock.
\<close>

inductive lifecycle_step :: "plot_state \<Rightarrow> plot_state \<Rightarrow> bool" where
  planted: "lifecycle_step EMPTY GROWING"
| matured: "lifecycle_step GROWING MATURE"
| harvested: "lifecycle_step MATURE NEED_CLEANUP"
| cleaned: "lifecycle_step NEED_CLEANUP EMPTY"

code_pred lifecycle_step .

inductive_cases lifecycle_stepE: "lifecycle_step a b"

inductive_simps lifecycle_step_simps: "lifecycle_step EMPTY b" "lifecycle_step GROWING b"
  "lifecycle_step MATURE b" "lifecycle_step NEED_CLEANUP b"

definition plot_past :: "int \<Rightarrow> plot \<Rightarrow> bool" where
  "plot_past now p \<longleftrightarrow> pl_planted_at_ms p \<le> now \<and> pl_last_settled_at_ms p \<le> now"

definition plot_step :: "int \<Rightarrow> plot \<Rightarrow> plot \<Rightarrow> bool" where
  "plot_step now p p' \<longleftrightarrow> (pl_state p' = pl_state p \<or> lifecycle_step (pl_state p) (pl_state p')) \<and>
     (plot_past now p \<longrightarrow> plot_past now p')"

definition plots_step :: "int \<Rightarrow> state \<Rightarrow> state \<Rightarrow> bool" where
  "plots_step now s s' \<longleftrightarrow> (\<forall>i. rel_option (plot_step now) (fmlookup (st_plots s) i) (fmlookup (st_plots s') i))"

lemma plot_step_refl [simp]: "plot_step now p p"
  by (simp add: plot_step_def)

lemma plots_step_same: "st_plots s' = st_plots s \<Longrightarrow> plots_step now s s'"
  by (auto simp: plots_step_def intro: option.rel_refl)

lemma plots_step_upd:
  assumes "st_plots s' = fmupd i p' (st_plots s)" "fmlookup (st_plots s) i = Some p" "plot_step now p p'"
  shows "plots_step now s s'"
  using assms by (auto simp: plots_step_def intro: option.rel_refl)

lemma clock_ok_step:
  assumes "plots_step now s s'" "clock_ok s now"
  shows "clock_ok s' now"
  unfolding clock_ok_def
proof (intro allI impI)
  fix i p' assume p': "fmlookup (st_plots s') i = Some p'"
  then obtain p where "fmlookup (st_plots s) i = Some p" "plot_step now p p'"
    using assms(1) by (auto simp: plots_step_def option_rel_Some2 dest!: spec [of _ i])
  then show "pl_planted_at_ms p' \<le> now \<and> pl_last_settled_at_ms p' \<le> now"
    using assms(2) by (auto simp: clock_ok_def plot_step_def plot_past_def)
qed

locale farm_command = synced_command +
  assumes done_plots: "state_ok s \<Longrightarrow> env_ok cfg now s \<Longrightarrow>
    body C caller req cfg now rid s = Done p obx s1 ch \<Longrightarrow> plots_step now s s1"
begin

lemma handler_plots:
  assumes "state_ok s" "env_ok cfg now s" "handler C caller req cfg now s = (resp, dirty, ch, s')"
  shows "plots_step now s s'"
proof (rule handler_cases [of req C caller cfg now s])
  fix rid p obx s1 ch' s3
  assume d: "body C caller req cfg now rid s = Done p obx s1 ch'"
    "s3 = appendResult (success_record C act caller req rid (fingerprint caller req) now
       (bump (cfg_version cfg) now s1) p obx) now (bump (cfg_version cfg) now s1)"
    "handler C caller req cfg now s = (successEnvelope req s3 now p, True, ch', s3)"
  then show ?thesis
    using done_plots [OF assms(1,2) d(1)] assms(3) by (auto simp: plots_step_def)
qed (use assms(3) in \<open>auto simp: storeFailure_def Let_def intro!: plots_step_same\<close>)

end

text \<open>A command that reports no changed plot has changed none.\<close>

lemma farm_command_quiet:
  assumes "synced_command act body fp handler" "\<And>C caller req cfg now rid s p obx s1 ch.
    body C caller req cfg now rid s = Done p obx s1 ch \<Longrightarrow> ch = {||}"
  shows "farm_command act body fp handler"
proof (rule farm_command.intro [OF assms(1)], unfold_locales)
  fix s cfg now C caller req rid p obx s1 ch
  assume s: "state_ok s" "body C caller req cfg now rid s = Done p obx s1 ch"
  have "unchanged_outside ch s s1" using synced_command.done_changes [OF assms(1) s] .
  then show "plots_step now s s1"
    using assms(2) [OF s(2)] by (intro plots_step_same fmap_ext) (simp add: unchanged_outside_def)
qed

section \<open>The farming commands\<close>

lemma plant_plots:
  assumes "plantBody cfg plotId seed now s = Done p obx s1 ch"
  shows "plots_step now s s1"
proof (rule plant_Done [OF assms])
  fix plot crop m
  assume "fmlookup (st_plots s) plotId = Some plot" "pl_state plot = EMPTY"
    "s1 = s\<lparr>st_inventory := (if map_get (st_inventory s) seed = 1 then fmdrop seed (st_inventory s)
         else fmupd seed (map_get (st_inventory s) seed - 1) (st_inventory s)),
       st_plots := fmupd plotId (planted_plot (pl_id plot) crop now m) (st_plots s),
       st_tasks := count_task 2 (st_tasks s)\<rparr>"
  then show ?thesis
    by (intro plots_step_upd [of _ plotId "planted_plot (pl_id plot) crop now m" s plot])
      (simp_all add: plot_step_def plot_past_def planted_plot_def lifecycle_step_simps)
qed

lemma harvest_plots:
  assumes "0 < now" "harvestBody plotId s = Done p obx s1 ch"
  shows "plots_step now s s1"
proof (rule harvest_Done [OF assms(2)])
  fix plot s0
  assume h: "fmlookup (st_plots s) plotId = Some plot" "pl_state plot = MATURE"
    "credited plot (pl_base_yield plot - pl_stolen_quantity plot) s s0"
    "harvest_finish plotId plot (pl_base_yield plot - pl_stolen_quantity plot)
       (map_get (st_inventory s) (pl_crop_item_id plot)) s0 = Done p obx s1 ch"
  show ?thesis
    by (rule plots_step_upd [of _ plotId "harvested_plot plot" s plot])
      (use h assms(1) credited_frame(1) [OF h(3)] in \<open>simp_all add: harvest_finish_Done plot_step_def plot_past_def
        harvested_plot_def lifecycle_step_simps\<close>)
qed

lemma fertilizer_plots:
  assumes "state_ok s" "env_ok cfg now s" "fertilizerBody cfg caller plotId item now rid s = Done p obx s1 ch"
  shows "plots_step now s s1"
proof (rule fertilizer_Done [OF assms(3)])
  fix plot f settled m plot1
  assume d: "fmlookup (st_plots s) plotId = Some plot" "pl_state plot = GROWING"
    "settleGrowingPlot plot now = (Some False, settled)"
    "plot1 = settled\<lparr>pl_fertilizer_effect := Some (fertilizer_effect (fertilizerEffectID caller rid) item f now)\<rparr>"
    "s1 = s\<lparr>st_plots := fmupd plotId (plot1\<lparr>pl_estimated_mature_at_ms := Some m\<rparr>) (st_plots s),
       st_inventory := (if map_get (st_inventory s) item = 1 then fmdrop item (st_inventory s)
         else fmupd item (map_get (st_inventory s) item - 1) (st_inventory s)),
       st_tasks := count_task 3 (st_tasks s)\<rparr>"
  note st = settle_clock [OF assms(1,2) d(1,3)]
  show ?thesis
    by (rule plots_step_upd [OF _ d(1), of _ "plot1\<lparr>pl_estimated_mature_at_ms := Some m\<rparr>"])
      (use st d in \<open>simp_all add: plot_step_def plot_past_def\<close>)
qed

lemma catchPest_plots:
  assumes "state_ok s" "env_ok cfg now s" "catchPestBody plotId now s = Done p obx s1 ch"
  shows "plots_step now s s1"
proof (rule catchPest_Done [OF assms(3)])
  fix plot settled m
  assume d: "fmlookup (st_plots s) plotId = Some plot" "pl_state plot = GROWING"
    "settleGrowingPlot plot now = (Some False, settled)"
    "s1 = s\<lparr>st_plots := fmupd plotId (settled\<lparr>pl_pest_effect := None, pl_estimated_mature_at_ms := Some m\<rparr>) (st_plots s)\<rparr>"
  note st = settle_clock [OF assms(1,2) d(1,3)]
  show ?thesis
    by (rule plots_step_upd [OF _ d(1), of _ "settled\<lparr>pl_pest_effect := None, pl_estimated_mature_at_ms := Some m\<rparr>"])
      (use st d in \<open>simp_all add: plot_step_def plot_past_def\<close>)
qed

lemma cleanPlot_plots:
  assumes "0 < now" "cleanPlotBody plotId s = Done p obx s1 ch"
  shows "plots_step now s s1"
  by (rule cleanPlot_Done [OF assms(2)])
    (use assms(1) in \<open>auto simp: plot_step_def plot_past_def empty_plot_def lifecycle_step_simps intro!: plots_step_upd\<close>)

section \<open>Interpretations\<close>

interpretation farm_plant: farm_command PLANT
  "\<lambda>C caller req cfg now rid. plantBody cfg plotId seed now" "\<lambda>caller req. plantFingerprint caller req plotId seed"
  "\<lambda>C caller req. plant C caller req plotId seed" for plotId seed
  by (rule farm_command.intro [OF plant.synced_command_axioms], unfold_locales) (rule plant_plots)

interpretation farm_fertilizer: farm_command APPLY_FERTILIZER
  "\<lambda>C caller req cfg now rid. fertilizerBody cfg caller plotId item now rid"
  "\<lambda>caller req. fertilizerFingerprint caller req plotId item"
  "\<lambda>C caller req. applyFertilizer C caller req plotId item" for plotId item
  by (rule farm_command.intro [OF apply_fertilizer.synced_command_axioms], unfold_locales) (rule fertilizer_plots)

interpretation farm_catch_pest: farm_command CATCH_PEST
  "\<lambda>C caller req cfg now rid. catchPestBody plotId now" "\<lambda>caller req. catchPestFingerprint caller req plotId"
  "\<lambda>C caller req. catchPest C caller req plotId" for plotId
  by (rule farm_command.intro [OF catch_pest.synced_command_axioms], unfold_locales) (rule catchPest_plots)

interpretation farm_harvest: farm_command HARVEST
  "\<lambda>C caller req cfg now rid. harvestBody plotId" "\<lambda>caller req. harvestFingerprint caller req plotId"
  "\<lambda>C caller req. harvest C caller req plotId" for plotId
  by (rule farm_command.intro [OF harvest.synced_command_axioms], unfold_locales)
    (auto simp: env_ok_def intro: harvest_plots)

interpretation farm_clean: farm_command CLEAN_PLOT
  "\<lambda>C caller req cfg now rid. cleanPlotBody plotId" "\<lambda>caller req. cleanPlotFingerprint caller req plotId"
  "\<lambda>C caller req. cleanPlot C caller req plotId" for plotId
  by (rule farm_command.intro [OF clean_plot.synced_command_axioms], unfold_locales)
    (auto simp: env_ok_def intro: cleanPlot_plots)

interpretation farm_buy_seeds: farm_command BUY_SEEDS
  "\<lambda>C caller req cfg now rid. buySeedsBody cfg buy" "\<lambda>caller req. buySeedsFingerprint caller req buy"
  "\<lambda>C caller req. buySeeds C caller req buy" for buy
  by (rule farm_command_quiet [OF buy_seeds.synced_command_axioms])
    (auto simp: buySeedsBody_def Let_def split: if_splits option.splits)

interpretation farm_buy_fertilizer: farm_command BUY_FERTILIZER
  "\<lambda>C caller req cfg now rid. buyFertilizerBody cfg buy" "\<lambda>caller req. buyFertilizerFingerprint caller req buy"
  "\<lambda>C caller req. buyFertilizer C caller req buy" for buy
  by (rule farm_command_quiet [OF buy_fertilizer.synced_command_axioms])
    (auto simp: buyFertilizerBody_def Let_def split: if_splits option.splits)

interpretation farm_sell: farm_command SELL_CROP
  "\<lambda>C caller req cfg now rid. sellCropBody cfg sell" "\<lambda>caller req. sellCropFingerprint caller req sell"
  "\<lambda>C caller req. sellCrop C caller req sell" for sell
  by (rule farm_command_quiet [OF sell_crop.synced_command_axioms])
    (auto simp: sellCropBody_def Let_def split: if_splits option.splits prod.splits)

interpretation farm_claim: farm_command CLAIM_CHAPTER_REWARD
  "\<lambda>C caller req cfg now rid. claimRewardBody C cfg caller claimId now rid"
  "\<lambda>caller req. claimRewardFingerprint caller req claimId"
  "\<lambda>C caller req. claimChapterReward C caller req claimId" for claimId
  by (rule farm_command_quiet [OF claim_reward.synced_command_axioms], erule claim_Done) (simp add: claim_finish_Done)

interpretation farm_buy_pet: farm_command BUY_PET
  "\<lambda>C caller req cfg now rid. buyPetBody ord cfg petId version now"
  "\<lambda>caller req. buyPetFingerprint caller req petId version"
  "\<lambda>C caller req. buyPet C ord caller req petId version" for ord petId version
  by (rule farm_command_quiet [OF buy_pet.synced_command_axioms], erule buyPet_Done)

interpretation farm_deploy_pet: farm_command DEPLOY_PET
  "\<lambda>C caller req cfg now rid. deployPetBody ord cfg petId now"
  "\<lambda>caller req. deployPetFingerprint caller req petId"
  "\<lambda>C caller req. deployPet C ord caller req petId" for ord petId
  by (rule farm_command_quiet [OF deploy_pet.synced_command_axioms])
    (auto simp: deployPetBody_def Let_def split: if_splits)

interpretation farm_buy_pet_food: farm_command BUY_PET_FOOD
  "\<lambda>C caller req cfg now rid. buyPetFoodBody ord cfg buy now"
  "\<lambda>caller req. buyPetFoodFingerprint caller req buy"
  "\<lambda>C caller req. buyPetFood C ord caller req buy" for ord buy
  by (rule farm_command_quiet [OF buy_pet_food.synced_command_axioms])
    (auto simp: buyPetFoodBody_def Let_def split: if_splits option.splits)

interpretation farm_feed_pet: farm_command FEED_PET
  "\<lambda>C caller req cfg now rid. feedPetBody ord panelOrd cfg now"
  "\<lambda>caller req. feedPetFingerprint caller req"
  "\<lambda>C caller req. feedPet C ord panelOrd caller req" for ord panelOrd
  by (rule farm_command_quiet [OF feed_pet.synced_command_axioms], erule feedPet_Done)

end
