(* ===== verification/Runtime.thy ===== *)
theory Runtime
  imports Lifecycle
begin

text \<open>
  The command boundary of a Zone, \<open>Runtime.Handle\<close> of \<open>runtime.go\<close>: the checks on the envelope, one turn
  of the player's mailbox (materialize due plots, then the command), and what the turn reports: the
  answer, whether the state became dirty, which public plots changed and which maturities are pushed.
  Loading the actor (\<open>actorFor\<close>), the mailbox itself and the delivery of pushes are outside the model:
  \<open>Handle\<close> is given the state of the player's actor.

  The Go maps the handlers iterate in arbitrary order enter as \<open>map_orders\<close>.
\<close>

section \<open>Dispatch\<close>

record map_orders =
  mo_food :: "u32 list"
  mo_panel :: "u32 list"
  mo_catalog :: "u32 list"

type_synonym command_handler = "codec \<Rightarrow> u64 \<Rightarrow> ws_request \<Rightarrow> config_snapshot \<Rightarrow> int \<Rightarrow> state \<Rightarrow> handler_result"

text \<open>The \<open>is...\<close> flags: the action and the payload must agree. The gift command has its own path.\<close>

definition command_for :: "map_orders \<Rightarrow> ws_request \<Rightarrow> command_handler option" where
  "command_for ord req =
     (let on = (\<lambda>a h. if req_action req = a then Some h else None)
      in case req_payload req of
        BuySeedsRequest buy \<Rightarrow> on BUY_SEEDS (\<lambda>C caller req. buySeeds C caller req buy)
      | BuyFertilizerRequest buy \<Rightarrow> on BUY_FERTILIZER (\<lambda>C caller req. buyFertilizer C caller req buy)
      | PlantRequest plotId seed \<Rightarrow> on PLANT (\<lambda>C caller req. plant C caller req plotId seed)
      | ApplyFertilizerRequest plotId item \<Rightarrow> on APPLY_FERTILIZER (\<lambda>C caller req. applyFertilizer C caller req plotId item)
      | HarvestRequest plotId \<Rightarrow> on HARVEST (\<lambda>C caller req. harvest C caller req plotId)
      | CleanPlotRequest plotId \<Rightarrow> on CLEAN_PLOT (\<lambda>C caller req. cleanPlot C caller req plotId)
      | CatchPestRequest plotId \<Rightarrow> on CATCH_PEST (\<lambda>C caller req. catchPest C caller req plotId)
      | SellRequest sell \<Rightarrow> on SELL_CROP (\<lambda>C caller req. sellCrop C caller req sell)
      | ClaimChapterRewardRequest ch \<Rightarrow> on CLAIM_CHAPTER_REWARD (\<lambda>C caller req. claimChapterReward C caller req ch)
      | BuyPetRequest petId v \<Rightarrow> on BUY_PET (\<lambda>C caller req. buyPet C (mo_panel ord) caller req petId v)
      | DeployPetRequest petId \<Rightarrow> on DEPLOY_PET (\<lambda>C caller req. deployPet C (mo_panel ord) caller req petId)
      | BuyPetFoodRequest buy \<Rightarrow> on BUY_PET_FOOD (\<lambda>C caller req. buyPetFood C (mo_panel ord) caller req buy)
      | FeedPetRequest \<Rightarrow> on FEED_PET (\<lambda>C caller req. feedPet C (mo_food ord) (mo_panel ord) caller req)
      | _ \<Rightarrow> None)"

definition isSnapshot :: "ws_request \<Rightarrow> bool" where
  "isSnapshot req \<longleftrightarrow> req_action req = GET_PLAYER_SNAPSHOT \<and> req_payload req = GetPlayerSnapshotRequest"

definition isGetShop :: "ws_request \<Rightarrow> bool" where
  "isGetShop req \<longleftrightarrow> req_action req = GET_SHOP \<and> req_payload req = GetShopRequest"

definition isGetPetPanel :: "ws_request \<Rightarrow> bool" where
  "isGetPetPanel req \<longleftrightarrow> req_action req = GET_PET_PANEL \<and> req_payload req = GetPetPanelRequest"

definition gift_of :: "ws_request \<Rightarrow> gift_request option" where
  "gift_of req = (case req_payload req of
       GiftRequest g \<Rightarrow> if req_action req = SEND_FRIEND_GIFT then Some g else None | _ \<Rightarrow> None)"

definition shop_reply :: "map_orders \<Rightarrow> u64 \<Rightarrow> ws_request \<Rightarrow> config_snapshot \<Rightarrow> int \<Rightarrow> ws_response" where
  "shop_reply ord caller req cfg now = \<lparr>resp_protocol_version = ProtocolVersion, resp_message_kind = RESPONSE,
     resp_action = GET_SHOP, resp_request_id = req_request_id req, resp_target_player_id = caller,
     resp_state_version = None, resp_server_time_ms = now, resp_replayed = False, resp_error = None,
     resp_payload = Some (GetShopResponse (cfg_version cfg) (ActiveShopEntries cfg) (ActiveCropCatalog (mo_catalog ord) cfg))\<rparr>"

definition snapshot_reply :: "u64 \<Rightarrow> ws_request \<Rightarrow> config_snapshot \<Rightarrow> int \<Rightarrow> state \<Rightarrow> ws_response" where
  "snapshot_reply caller req cfg now s = \<lparr>resp_protocol_version = ProtocolVersion, resp_message_kind = RESPONSE,
     resp_action = GET_PLAYER_SNAPSHOT, resp_request_id = req_request_id req, resp_target_player_id = caller,
     resp_state_version = Some (st_owner_epoch s, st_player_seq s), resp_server_time_ms = now,
     resp_replayed = False, resp_error = None,
     resp_payload = Some (GetPlayerSnapshotResponse (Snapshot (s\<lparr>st_config_version := cfg_version cfg\<rparr>)))\<rparr>"

section \<open>One call\<close>

datatype zone_error = ErrNotOwner | ErrInvalidEnvelope | ErrForbiddenTarget | ErrConfigUnavailable
  | ErrUnsupportedAction | ErrMaturity

record turn_report =
  tn_dirty :: bool
  tn_changes :: domain_changes
  tn_events :: "maturity_event list"

datatype handled = Rejected zone_error | Replied ws_response turn_report | AwaitingMail prepared_gift turn_report

text \<open>What the maturities at the start of a turn contribute.\<close>

definition matured_changes :: "maturity_event list \<Rightarrow> domain_changes" where
  "matured_changes evs = mergeChanges {||} (DomainChangesFromPlotIDs (maturedPlotIDs evs))"

definition command_turn ::
  "codec \<Rightarrow> command_handler \<Rightarrow> u64 \<Rightarrow> ws_request \<Rightarrow> config_snapshot \<Rightarrow> int \<Rightarrow> maturity_event list \<Rightarrow> state \<Rightarrow> handled \<times> state" where
  "command_turn C h caller req cfg now evs s =
     (let (resp, commandDirty, changes, s1) = h C caller req cfg now s
      in (Replied resp \<lparr>tn_dirty = (evs \<noteq> [] \<or> commandDirty),
            tn_changes = mergeChanges (matured_changes evs) changes, tn_events = evs\<rparr>, s1))"

text \<open>
  The gift's first turn. The assignment \<open>draft, response, dirty = ...\<close> of the source overwrites the
  \<open>dirty\<close> a maturity has set, here \<open>Some False\<close> and the flag of \<open>AwaitingMail\<close>. Maturities are not pushed
  along with a replayed answer.
\<close>

definition gift_turn_of ::
  "codec \<Rightarrow> bool \<Rightarrow> u64 \<Rightarrow> ws_request \<Rightarrow> gift_request \<Rightarrow> config_snapshot \<Rightarrow> string \<Rightarrow> int \<Rightarrow> maturity_event list \<Rightarrow> state \<Rightarrow>
   handled \<times> state" where
  "gift_turn_of C mailer caller req gift cfg name now evs s =
     (case gift_begin C mailer caller req gift cfg name now s of
        (GiftAnswered resp d, s1) \<Rightarrow>
          (Replied resp \<lparr>tn_dirty = (case d of Some b \<Rightarrow> b | None \<Rightarrow> evs \<noteq> []), tn_changes = matured_changes evs,
             tn_events = (if resp_replayed resp then [] else evs)\<rparr>, s1)
      | (GiftSuspended draft, s1) \<Rightarrow>
          (AwaitingMail draft \<lparr>tn_dirty = False, tn_changes = matured_changes evs, tn_events = evs\<rparr>, s1))"

definition Handle ::
  "codec \<Rightarrow> map_orders \<Rightarrow> bool \<Rightarrow> string \<Rightarrow> config_snapshot option \<Rightarrow> u64 \<Rightarrow> u64 \<Rightarrow> ws_request \<Rightarrow> int \<Rightarrow> state \<Rightarrow>
   handled \<times> state" where
  "Handle C ord mailer name config caller ownerEpoch req now s =
     (if ownerEpoch = 0 then (Rejected ErrNotOwner, s)
      else if req_protocol_version req \<noteq> ProtocolVersion \<or> req_message_kind req \<noteq> REQUEST \<or> req_request_id req = []
      then (Rejected ErrInvalidEnvelope, s)
      else if req_target_player_id req = 0 \<or> req_target_player_id req \<noteq> caller then (Rejected ErrForbiddenTarget, s)
      else case config of None \<Rightarrow> (Rejected ErrConfigUnavailable, s)
      | Some cfg \<Rightarrow>
          if \<not> isSnapshot req \<and> \<not> isGetShop req \<and> \<not> isGetPetPanel req \<and> command_for ord req = None \<and> gift_of req = None
          then (Rejected ErrUnsupportedAction, s)
          else if isGetShop req
          then (Replied (shop_reply ord caller req cfg now) \<lparr>tn_dirty = False, tn_changes = {||}, tn_events = []\<rparr>, s)
          else case materializeDueMaturities s now of
            (False, _, s1) \<Rightarrow> (Rejected ErrMaturity, s1)
          | (True, evs, s1) \<Rightarrow>
              (case gift_of req of Some gift \<Rightarrow> gift_turn_of C mailer caller req gift cfg name now evs s1
               | None \<Rightarrow>
                 (case command_for ord req of Some h \<Rightarrow> command_turn C h caller req cfg now evs s1
                  | None \<Rightarrow>
                    (let resp = (if isGetPetPanel req then getPetPanel (mo_panel ord) req cfg now s1
                                 else snapshot_reply caller req cfg now s1)
                     in (Replied resp \<lparr>tn_dirty = (evs \<noteq> []), tn_changes = matured_changes evs,
                           tn_events = (if isSnapshot req then [] else evs)\<rparr>, s1)))))"

text \<open>The push of a maturity, \<open>MaturityEvent.Envelope\<close> of \<open>push.go\<close> (its reason is the constant \<open>MATURED\<close>).\<close>

definition Envelope :: "maturity_event \<Rightarrow> ws_response" where
  "Envelope e = \<lparr>resp_protocol_version = ProtocolVersion, resp_message_kind = PUSH,
     resp_action = PLAYER_STATE_CHANGED, resp_request_id = [], resp_target_player_id = me_player_id e,
     resp_state_version = Some (if me_owner_epoch e = 0 then LocalOwnerEpoch else me_owner_epoch e, me_player_seq e),
     resp_server_time_ms = me_server_time_ms e, resp_replayed = False, resp_error = None,
     resp_payload = Some (PlayerStateChangedPush (PlayerStatePatch None [] [] [me_plot e] None None None))\<rparr>"

section \<open>Every command keeps the contract\<close>

lemma command_for_farm_command:
  assumes "command_for ord req = Some h"
  shows "\<exists>act body fp. farm_command act body fp h"
proof -
  note i = farm_buy_seeds.farm_command_axioms farm_buy_fertilizer.farm_command_axioms farm_plant.farm_command_axioms
    farm_fertilizer.farm_command_axioms farm_harvest.farm_command_axioms farm_clean.farm_command_axioms
    farm_catch_pest.farm_command_axioms farm_sell.farm_command_axioms farm_claim.farm_command_axioms
    farm_buy_pet.farm_command_axioms farm_deploy_pet.farm_command_axioms farm_buy_pet_food.farm_command_axioms
    farm_feed_pet.farm_command_axioms
  show ?thesis
    using assms unfolding command_for_def Let_def
    by (auto split: ws_request_payload.splits if_splits intro: i)
qed

text \<open>The cases of a call that reaches a command.\<close>

lemma Handle_command:
  assumes "command_for ord req = Some h" "Handle C ord mailer name (Some cfg) caller epoch req now s = (Replied resp rep, s')"
  obtains evs s1 dirty ch where "materializeDueMaturities s now = (True, evs, s1)"
    "h C caller req cfg now s1 = (resp, dirty, ch, s')" "req_target_player_id req = caller"
    "rep = \<lparr>tn_dirty = (evs \<noteq> [] \<or> dirty), tn_changes = mergeChanges (matured_changes evs) ch, tn_events = evs\<rparr>"
proof -
  have g: "gift_of req = None" "\<not> isGetShop req"
    using assms(1) by (auto simp: command_for_def gift_of_def isGetShop_def Let_def split: ws_request_payload.splits if_splits)
  obtain ok evs s1 where m: "materializeDueMaturities s now = (ok, evs, s1)" by (metis prod.exhaust)
  have ok: ok and t: "req_target_player_id req = caller" and
    c: "command_turn C h caller req cfg now evs s1 = (Replied resp rep, s')"
    using assms g m by (auto simp: Handle_def split: if_splits bool.splits)
  obtain r d ch x where h: "h C caller req cfg now s1 = (r, d, ch, x)" by (metis prod.exhaust)
  show thesis
    by (rule that [of evs s1 d ch]) (use ok t m c h in \<open>auto simp: command_turn_def\<close>)
qed

lemma materialize_env:
  assumes "state_ok s" "env_ok cfg now s" "materializeDueMaturities s now = (True, evs, s1)"
  shows "state_ok s1" "env_ok cfg now s1" "st_recent_results s1 = st_recent_results s"
proof -
  have m: "materialize_loop now (map_keys (st_plots s)) [] s = (True, evs, s1)"
    using assms(3) by (simp add: materializeDueMaturities_def)
  have n: "now \<le> max_i64" "clock_ok s now" using assms(2) by (simp_all add: env_ok_def)
  show "state_ok s1" using materialize_loop_ok [OF assms(1) n(1) m] .
  show "env_ok cfg now s1" "st_recent_results s1 = st_recent_results s"
    using materialize_loop_env [OF assms(1) n(2,1) m] assms(2) by (simp_all add: env_ok_def)
qed

lemma materialize_results:
  assumes "materializeDueMaturities s now = (True, evs, s1)"
  shows "st_recent_results s1 = st_recent_results s"
proof -
  have "materialize_loop now (map_keys (st_plots s)) [] s = (True, evs, s1)"
    using assms by (simp add: materializeDueMaturities_def)
  then show ?thesis
    by (rule materialize_loop_keeps [where P = "\<lambda>x. st_recent_results x = st_recent_results s", rotated])
      (simp_all add: mature_bookkeeping_def)
qed

text \<open>A farm with nothing growing has nothing to materialize.\<close>

lemma materialize_idle:
  assumes "\<And>i p. fmlookup (st_plots s) i = Some p \<Longrightarrow> pl_state p \<noteq> GROWING"
  shows "materializeDueMaturities s now = (True, [], s)"
proof -
  have "materialize_loop now ids [] s = (True, [], s)" for ids
    using assms by (induction ids) (auto simp: not_yet_due_def split: option.splits)
  then show ?thesis by (simp add: materializeDueMaturities_def)
qed

section \<open>Clients follow\<close>

definition apply_push :: "maturity_event \<Rightarrow> client \<Rightarrow> client" where
  "apply_push e = apply_patch (the (payload_patch (the (resp_payload (Envelope e)))))"

lemma apply_push_plots: "apply_push e c = c\<lparr>cl_plots := (cl_plots c)(pv_plot_id (me_plot e) \<mapsto> me_plot e)\<rparr>"
  by (simp add: apply_push_def Envelope_def apply_patch_def)

lemma mature_run_client:
  assumes "distinct js" "\<forall>i \<in> set js. \<exists>p. fmlookup (st_plots s) i = Some p \<and> pl_id p = i"
    "fold apply_push evs c = client_of s"
  shows "fold apply_push (fst (mature_run now js evs s)) c = client_of (snd (mature_run now js evs s))"
  using assms
proof (induction js arbitrary: evs s)
  case (Cons i js)
  define p where "p = matured_at (the (fmlookup (st_plots s) i)) now"
  define s1 where "s1 = mature_bookkeeping now (s\<lparr>st_plots := fmupd i p (st_plots s)\<rparr>)"
  have id: "pl_id p = i" using Cons.prems(2) by (auto simp: p_def)
  have "client_of s1 = (client_of s)\<lparr>cl_plots := (cl_plots (client_of s))(i \<mapsto> plotView p)\<rparr>"
    by (simp add: s1_def client_of_def mature_bookkeeping_def chapterView_def careerView_def compendiumView_def)
      (rule ext, simp)
  then have "fold apply_push (evs @ [event_for now s1 p]) c = client_of s1"
    using id by (simp add: Cons.prems(3) apply_push_plots event_for_def)
  then show ?case
    using Cons.IH [of s1 "evs @ [event_for now s1 p]"] Cons.prems(1,2)
    by (simp add: Let_def flip: p_def s1_def) (auto simp: s1_def)
qed simp

lemma materialize_client:
  assumes "farm_growth_ok s" "now \<le> max_i64" "materializeDueMaturities s now = (True, evs, s1)"
  shows "fold apply_push evs (client_of s) = client_of s1"
proof -
  let ?is = "filter (due now (st_plots s)) (map_keys (st_plots s))"
  have r: "mature_run now ?is [] s = (evs, s1)" using assms(3) materialize_eq [OF assms(1,2)] by simp
  have "\<forall>i \<in> set ?is. \<exists>p. fmlookup (st_plots s) i = Some p \<and> pl_id p = i"
    using assms(1) by (auto simp: due_def farm_growth_ok_def split: option.splits)
  then show ?thesis using mature_run_client [of ?is s "[]" "client_of s" now] r by simp
qed

lemma fset_mergeChanges: "fset (mergeChanges a b) = fset a \<union> (fset b - {0})"
  by (simp add: mergeChanges_def fset_fold_PlotChanged)

lemma mergeChanges_empty [simp]: "mergeChanges c {||} = c"
  by (simp flip: fset_inject add: fset_mergeChanges)

lemma materialize_changes:
  assumes "farm_growth_ok s" "now \<le> max_i64" "materializeDueMaturities s now = (True, evs, s1)"
  shows "fset (matured_changes evs) = {i. due now (st_plots s) i}"
proof -
  let ?is = "filter (due now (st_plots s)) (map_keys (st_plots s))"
  have r: "mature_run now ?is [] s = (evs, s1)" using assms(3) materialize_eq [OF assms(1,2)] by simp
  have w: "\<forall>i \<in> set ?is. \<exists>p. fmlookup (st_plots s) i = Some p \<and> pl_id p = i" "0 \<notin> set ?is"
    using assms(1) by (auto simp: due_def farm_growth_ok_def split: option.splits)
  then have ids: "map (\<lambda>e. pv_plot_id (me_plot e)) evs = ?is"
    using mature_run_ids [of ?is s now "[]"] r by simp
  have "maturedPlotIDs evs = ?is"
    unfolding maturedPlotIDs_def ids by (rule filter_True) (use w(2) in auto)
  then have "fset (DomainChangesFromPlotIDs (maturedPlotIDs evs)) = set ?is"
    using w(2) by (simp add: DomainChangesFromPlotIDs_def fset_fold_PlotChanged)
  moreover have "fset (matured_changes evs) = fset (DomainChangesFromPlotIDs (maturedPlotIDs evs)) - {0}"
    by (simp add: matured_changes_def mergeChanges_def fset_fold_PlotChanged)
  ultimately show ?thesis using w(2) unfolding due_keys by simp
qed

section \<open>A sample call\<close>

definition seed_order :: buy_request where
  "seed_order = BuyRequest 5001 3 8"

definition sample_buy :: ws_request where
  "sample_buy = sample_request BUY_SEEDS (BuySeedsRequest seed_order)"

definition no_orders :: map_orders where
  "no_orders = \<lparr>mo_food = [], mo_panel = [], mo_catalog = []\<rparr>"

lemma sample_buy_command: "command_for no_orders sample_buy = Some (\<lambda>C caller req. buySeeds C caller req seed_order)"
  by (simp add: command_for_def sample_buy_def)

lemma sample_buy_id: "parseRequestID (req_request_id sample_buy) = Some (replicate 16 1)"
  by (simp add: sample_buy_def)

lemma formatUUIDBytes_nonempty: "length b = 16 \<Longrightarrow> formatUUIDBytes b \<noteq> []"
  by (simp add: formatUUIDBytes_def Let_def)

text \<open>A purchase leaves the plots alone.\<close>

lemma initial_plots_idle: "fmlookup (st_plots (NewDevelopmentState i t)) j = Some p \<Longrightarrow> pl_state p \<noteq> GROWING"
  by (auto simp: NewDevelopmentState_def newInitialPlots_lookup empty_plot_def split: if_splits)

lemma sample_buy_Handle:
  assumes "\<And>i p. fmlookup (st_plots s) i = Some p \<Longrightarrow> pl_state p \<noteq> GROWING"
  shows "Handle C no_orders m n (Some cfg) 7 1 sample_buy now s =
    command_turn C (\<lambda>C caller req. buySeeds C caller req seed_order) 7 sample_buy cfg now [] s"
  using sample_buy_command formatUUIDBytes_nonempty [of "replicate 16 1"]
  by (simp add: Handle_def materialize_idle [OF assms] isSnapshot_def isGetShop_def isGetPetPanel_def gift_of_def
      sample_buy_def sample_request_def ProtocolVersion_def)

lemma initial_fresh: "find_stored 7 (replicate 16 1) (st_recent_results (NewDevelopmentState 7 1000)) = None"
  by (simp add: find_stored_def NewDevelopmentState_def)

lemma sample_buy_Replied:
  obtains resp rep s' where
    "Handle C no_orders m n (Some dev_config) 7 1 sample_buy 1000 (NewDevelopmentState 7 1000) = (Replied resp rep, s')"
    "resp_error resp = None" "st_plots s' = st_plots (NewDevelopmentState 7 1000)"
    "map_len (st_inventory s') \<le> 100" "st_player_seq s' = 1" "st_checkpoint_revision s' = 2" "st_pending_outbox s' = []"
proof -
  let ?s = "NewDevelopmentState 7 1000"
  obtain resp dirty ch s' where b: "buySeeds C 7 sample_buy seed_order dev_config 1000 ?s = (resp, dirty, ch, s')"
    by (metis prod.exhaust)
  note f = buy_seeds.fresh_handler [OF sample_buy_id initial_fresh b]
  have "purchasable dev_config seed_order (account_of ?s)
      \<lparr>se_id = 5001, se_item_id = 1001, se_unit_price = 2, se_price_version = 8, se_enabled = True\<rparr>"
    by (simp add: purchasable_def dev_shop_entry initial_account seed_order_def)
  then have "\<exists>p obx s1 ch. buySeedsBody dev_config seed_order ?s = Done p obx s1 ch"
    unfolding buySeeds_Done_iff [OF dev_config_ok initial_state_ok] by (force simp: dev_pet_food initial_consts)
  then obtain p obx s1 ch1 where d: "buySeedsBody dev_config seed_order ?s = Done p obx s1 ch1" by blast
  have s1: "st_plots s1 = st_plots ?s \<and> st_inventory s1 = fmupd 1001 3 (fmupd 1 1 fmempty) \<and> st_player_seq s1 = 0 \<and>
      st_checkpoint_revision s1 = 1 \<and> st_pending_outbox s1 = []"
    by (rule buySeeds_Done [OF dev_config_ok d])
      (simp add: seed_order_def dev_shop_entry NewDevelopmentState_def map_simps initial_consts)
  then have "st_plots s' = st_plots ?s" "map_len (st_inventory s') \<le> 100" "st_player_seq s' = 1"
    "st_checkpoint_revision s' = 2" "st_pending_outbox s' = []"
    using f(3) [OF d] by (auto simp: map_simps bump_def appendResult_def Let_def)
  moreover have "resp_error resp = None" using f(2) d by blast
  moreover have "Handle C no_orders m n (Some dev_config) 7 1 sample_buy 1000 ?s =
      (Replied resp \<lparr>tn_dirty = dirty, tn_changes = mergeChanges (matured_changes []) ch, tn_events = []\<rparr>, s')"
    by (simp add: sample_buy_Handle [OF initial_plots_idle] b command_turn_def)
  ultimately show thesis using that by blast
qed

section \<open>States and reports of a command\<close>

lemma Handle_state_ok:
  assumes "state_ok s" "env_ok cfg now s" "command_for ord req = Some h"
    "Handle C ord mailer name (Some cfg) caller epoch req now s = (Replied resp rep, s')"
  shows "state_ok s' \<and> clock_ok s' now"
proof (rule Handle_command [OF assms(3,4)])
  fix evs s1 dirty ch
  assume m: "materializeDueMaturities s now = (True, evs, s1)" "h C caller req cfg now s1 = (resp, dirty, ch, s')"
  note e = materialize_env [OF assms(1,2) m(1)]
  obtain act body fp where f: "farm_command act body fp h" using command_for_farm_command [OF assms(3)] by blast
  have sc: "safe_command act body fp h"
    using f by (simp add: farm_command_def synced_command_def)
  have "state_ok s'" using safe_command.handler_ok [OF sc e(1,2) m(2)] .
  moreover have "plots_step now s1 s'" using farm_command.handler_plots [OF f e(1,2) m(2)] .
  ultimately show ?thesis using clock_ok_step e(2) by (auto simp: env_ok_def)
qed

lemma Handle_changes:
  assumes "state_ok s" "env_ok cfg now s" "farm_growth_ok s" "command_for ord req = Some h"
    "Handle C ord mailer name (Some cfg) caller epoch req now s = (Replied resp rep, s')"
    "i \<noteq> 0" "fmlookup (st_plots s') i \<noteq> fmlookup (st_plots s) i"
  shows "i |\<in>| tn_changes rep"
proof (rule Handle_command [OF assms(4,5)])
  fix evs s1 dirty ch
  assume m: "materializeDueMaturities s now = (True, evs, s1)" "h C caller req cfg now s1 = (resp, dirty, ch, s')"
    "rep = \<lparr>tn_dirty = (evs \<noteq> [] \<or> dirty), tn_changes = mergeChanges (matured_changes evs) ch, tn_events = evs\<rparr>"
  note e = materialize_env [OF assms(1,2) m(1)]
  have n: "now \<le> max_i64" using assms(2) by (simp add: env_ok_def)
  obtain act body fp where f: "farm_command act body fp h" using command_for_farm_command [OF assms(4)] by blast
  then have sc: "synced_command act body fp h" by (simp add: farm_command_def)
  have out: "unchanged_outside ch s1 s'" using synced_command.handler_changes [OF sc e(1) m(2)] .
  show ?thesis
  proof (cases "i |\<in>| ch")
    case True
    then show ?thesis using assms(6) m(3) fset_mergeChanges by auto
  next
    case False
    then have "fmlookup (st_plots s1) i \<noteq> fmlookup (st_plots s) i" using out assms(7) by (simp add: unchanged_outside_def)
    then have "due now (st_plots s) i"
      using materialize_lookup [OF assms(3) n m(1), of i] by (cases "fmlookup (st_plots s) i") (auto simp: due_def mature_if_due_def split: if_splits)
    then show ?thesis using materialize_changes [OF assms(3) n m(1)] m(3) fset_mergeChanges by auto
  qed
qed

text \<open>No command adds or removes a plot.\<close>

lemma Handle_same_plots:
  assumes "state_ok s" "env_ok cfg now s" "farm_growth_ok s" "command_for ord req = Some h"
    "Handle C ord mailer name (Some cfg) caller epoch req now s = (Replied resp rep, s')"
  shows "fmlookup (st_plots s') i = None \<longleftrightarrow> fmlookup (st_plots s) i = None"
proof (rule Handle_command [OF assms(4,5)])
  fix evs s1 dirty ch
  assume m: "materializeDueMaturities s now = (True, evs, s1)" "h C caller req cfg now s1 = (resp, dirty, ch, s')"
  note e = materialize_env [OF assms(1,2) m(1)]
  have n: "now \<le> max_i64" using assms(2) by (simp add: env_ok_def)
  obtain act body fp where f: "farm_command act body fp h" using command_for_farm_command [OF assms(4)] by blast
  have "rel_option (plot_step now) (fmlookup (st_plots s1) i) (fmlookup (st_plots s') i)"
    using farm_command.handler_plots [OF f e(1,2) m(2)] by (simp add: plots_step_def)
  then show ?thesis using materialize_lookup [OF assms(3) n m(1), of i] by (auto simp: option_rel_Some1 rel_option_None2)
qed

section \<open>Properties\<close>

text \<open>
  C3: every command keeps the player storable. Whatever the request, if the state satisfied the
  invariant the checkpoint validator demands and the clock did not run backwards, the state after an
  answered call satisfies it too, and no instant of the farm lies in the future.
\<close>

theorem Handle_keeps_invariant:
  assumes "state_ok s" "env_ok cfg now s" "command_for ord req = Some h"
    "Handle C ord mailer name (Some cfg) caller epoch req now s = (Replied resp rep, s')"
  shows "state_ok s' \<and> clock_ok s' now"
  by (rule Handle_state_ok [OF assms])

theorem Handle_keeps_invariant_witness:
  "state_ok (snd (Handle ref_codec no_orders False [] (Some dev_config) 7 1 sample_buy 1000 (NewDevelopmentState 7 1000)))"
proof -
  obtain resp rep s' where r: "Handle ref_codec no_orders False [] (Some dev_config) 7 1 sample_buy 1000
      (NewDevelopmentState 7 1000) = (Replied resp rep, s')" by (rule sample_buy_Replied)
  show ?thesis unfolding r
    using Handle_keeps_invariant [OF initial_state_ok dev_env sample_buy_command r] by simp
qed



text \<open>
  C4: clients stay in step. A client that knew the player's state, applies the maturity pushes of the
  turn in order and then the patch of the successful response, shows exactly the new state; and every
  plot that differs is reported as changed to the visitors of the farm.
\<close>

theorem Handle_client_sync:
  assumes "state_ok s" "env_ok cfg now s" "farm_growth_ok s" "command_for ord req = Some h"
    "parseRequestID (req_request_id req) = Some rid" "find_stored caller rid (st_recent_results s) = None"
    "Handle C ord mailer name (Some cfg) caller epoch req now s = (Replied resp rep, s')" "resp_error resp = None"
  shows "\<exists>p patch. resp_payload resp = Some p \<and> payload_patch p = Some patch \<and>
    apply_patch patch (fold apply_push (tn_events rep) (client_of s)) = client_of s' \<and>
    (\<forall>i. i \<noteq> 0 \<and> fmlookup (st_plots s') i \<noteq> fmlookup (st_plots s) i \<longrightarrow> i |\<in>| tn_changes rep)"
proof (rule Handle_command [OF assms(4,7)])
  fix evs s1 dirty ch
  assume m: "materializeDueMaturities s now = (True, evs, s1)" "h C caller req cfg now s1 = (resp, dirty, ch, s')"
    "rep = \<lparr>tn_dirty = (evs \<noteq> [] \<or> dirty), tn_changes = mergeChanges (matured_changes evs) ch, tn_events = evs\<rparr>"
  note e = materialize_env [OF assms(1,2) m(1)]
  have n: "now \<le> max_i64" using assms(2) by (simp add: env_ok_def)
  obtain act body fp where f: "farm_command act body fp h" using command_for_farm_command [OF assms(4)] by blast
  then have sc: "synced_command act body fp h" and c: "command act body fp h"
    by (simp_all add: farm_command_def synced_command_def safe_command_def)
  have fresh: "find_stored caller rid (st_recent_results s1) = None" using e(3) assms(6) by simp
  have d: dirty using command.fresh_handler(1) [OF c assms(5) fresh m(2)] .
  obtain p patch where p: "resp_payload resp = Some p" "payload_patch p = Some patch"
    "apply_patch patch (client_of s1) = client_of s'"
    using synced_command.handler_patch [OF sc e(1), of C caller req cfg now resp ch s'] assms(8) m(2) d by auto
  have "i |\<in>| tn_changes rep" if "i \<noteq> 0" "fmlookup (st_plots s') i \<noteq> fmlookup (st_plots s) i" for i
    using Handle_changes [OF assms(1-4,7) that] .
  then show ?thesis using p materialize_client [OF assms(3) n m(1)] m(3) by auto
qed

theorem Handle_client_sync_witness:
  "let (out, s') = Handle ref_codec no_orders False [] (Some dev_config) 7 1 sample_buy 1000 (NewDevelopmentState 7 1000)
   in \<exists>resp rep p patch. out = Replied resp rep \<and> resp_payload resp = Some p \<and> payload_patch p = Some patch \<and>
        apply_patch patch (fold apply_push (tn_events rep) (client_of (NewDevelopmentState 7 1000))) = client_of s'"
proof -
  obtain resp rep s' where r: "Handle ref_codec no_orders False [] (Some dev_config) 7 1 sample_buy 1000
      (NewDevelopmentState 7 1000) = (Replied resp rep, s')" and ok: "resp_error resp = None"
    by (rule sample_buy_Replied)
  have g: "farm_growth_ok (NewDevelopmentState 7 1000)"
    using initial_state_ok [of 7 1000] initial_plots_idle [of 7 1000]
    by (auto simp: farm_growth_ok_def NewDevelopmentState_def newInitialPlots_lookup initial_plot_ids_eq empty_plot_def split: if_splits)
  show ?thesis unfolding r
    using Handle_client_sync [OF initial_state_ok dev_env g sample_buy_command sample_buy_id initial_fresh r ok] by auto
qed

end
