(* ===== verification/Routing.thy ===== *)
theory Routing
  imports Farm_State "HOL-Library.List_Lexorder" "HOL-Library.Char_ord"
begin

text \<open>
  Package \<open>internal/routing\<close>: which Zone owns which logical shard. \<open>routing.go\<close> holds the committed
  shard map and its transitions (prepare, activate, restore, unassign, renew, apply a snapshot),
  \<open>authorization.go\<close> the view a Zone checks its commands against, \<open>runtime_lease.go\<close> the local
  extension of leases.

  An instant (\<open>time.Time\<close>) is an \<open>int\<close>, nanoseconds since Go's zero time, so that \<open>IsZero\<close> is \<open>= 0\<close>; a
  duration is an \<open>int\<close>. The arrays indexed by shard are total functions of which only the first 4096
  places are read and written. Zone identifiers and endpoints are ASCII strings. The random bytes
  of \<open>newUUID\<close> are arguments (\<open>None\<close> when the generator fails). Each method body runs under the map's
  lock, so a call is one step.
\<close>

section \<open>Data\<close>

definition ShardCount :: u32 where "ShardCount = 4096"
definition HashAlgorithmVersion :: u32 where "HashAlgorithmVersion = 1"
definition AssignmentAlgorithmVersion :: u32 where "AssignmentAlgorithmVersion = 1"

definition shard_ids :: "u32 list" where
  "shard_ids = map of_nat [0 ..< 4096]"

record zone_candidate =
  zc_zone_id :: string
  zc_endpoint :: string

datatype route_state = RouteStateUnassigned | RouteStatePreparing | RouteStateActive | OtherRouteState string

record route_entry =
  re_shard_id :: u32
  re_owner_zone_id :: string
  re_owner_endpoint :: string
  re_owner_epoch :: u64
  re_route_version :: u64
  re_state :: route_state
  re_lease_term :: u64
  re_lease_id :: string
  re_lease_expires_at :: int
  re_previous_owner_zone_id :: string
  re_transition_id :: string
  re_updated_at :: int

record map_snapshot =
  sn_shard_count :: u32
  sn_hash_algorithm_version :: u32
  sn_assignment_algorithm_version :: u32
  sn_map_version :: u64
  sn_committed_term :: u64
  sn_committed_index :: u64
  sn_entries :: "route_entry list"

record shard_map =
  mp_map_version :: u64
  mp_committed_term :: u64
  mp_committed_index :: u64
  mp_entries :: "u32 \<Rightarrow> route_entry"
  mp_epoch_high_water :: "u32 \<Rightarrow> u64"

text \<open>Errors: the texts of the source without their formatted arguments, and the ownership rejection.\<close>

datatype routing_error =
    RoutingError string
  | NotOwnerError (no_reason: string) (no_requested_zone: string) (no_requested_epoch: u64) (no_current: route_entry)

definition zero_entry :: route_entry where
  "zero_entry = \<lparr>re_shard_id = 0, re_owner_zone_id = [], re_owner_endpoint = [], re_owner_epoch = 0,
     re_route_version = 0, re_state = OtherRouteState [], re_lease_term = 0, re_lease_id = [],
     re_lease_expires_at = 0, re_previous_owner_zone_id = [], re_transition_id = [], re_updated_at = 0\<rparr>"

definition newUUID :: "bytes option \<Rightarrow> string option" where
  "newUUID random = map_option (\<lambda>v.
     let v1 = v[6 := (v ! 6 AND 0x0f) OR 0x40] in formatUUIDBytes (v1[8 := (v1 ! 8 AND 0x3f) OR 0x80])) random"

section \<open>Hashing and placement\<close>

text \<open>\<open>fnv.New64a\<close> of the standard library.\<close>

definition fnv1a :: "bytes \<Rightarrow> u64" where
  "fnv1a bs = fold (\<lambda>b h. (h XOR ucast b) * 1099511628211) bs 14695981039346656037"

definition StableHash64 :: "u64 \<Rightarrow> u64" where
  "StableHash64 playerID = fnv1a (be64 playerID)"

definition ShardForPlayer :: "u64 \<Rightarrow> u32" where
  "ShardForPlayer playerID = ucast (StableHash64 playerID mod ucast ShardCount)"

text \<open>\<open>binary.BigEndian.Uint64\<close> of the first eight bytes of the digest.\<close>

definition be_uint64 :: "bytes \<Rightarrow> u64" where
  "be_uint64 bs = fold (\<lambda>b acc. push_bit 8 acc OR ucast b) (take 8 bs) 0"

definition rendezvousScore :: "u32 \<Rightarrow> string \<Rightarrow> u64" where
  "rendezvousScore shardID zoneID =
     be_uint64 (sha256 (str_bytes ''farm-shard-assignment-v1'' @ [0] @ be32 shardID @ [0] @ str_bytes zoneID))"

fun rendezvous_loop :: "u32 \<Rightarrow> zone_candidate \<Rightarrow> u64 \<Rightarrow> zone_candidate list \<Rightarrow> zone_candidate" where
  "rendezvous_loop shardID winner winnerScore [] = winner"
| "rendezvous_loop shardID winner winnerScore (z # zs) =
     (let score = rendezvousScore shardID (zc_zone_id z)
      in if winnerScore < score \<or> (score = winnerScore \<and> zc_zone_id z < zc_zone_id winner)
         then rendezvous_loop shardID z score zs
         else rendezvous_loop shardID winner winnerScore zs)"

text \<open>Without candidates the winner stays the zero value.\<close>

definition RendezvousOwner :: "u32 \<Rightarrow> zone_candidate list \<Rightarrow> zone_candidate" where
  "RendezvousOwner shardID zones = (case zones of
       [] \<Rightarrow> \<lparr>zc_zone_id = [], zc_endpoint = []\<rparr>
     | z # zs \<Rightarrow> rendezvous_loop shardID z (rendezvousScore shardID (zc_zone_id z)) zs)"

text \<open>\<open>strings.TrimSpace\<close> on ASCII text.\<close>

definition ascii_space :: "char \<Rightarrow> bool" where
  "ascii_space c \<longleftrightarrow> c \<in> {CHR 0x09, CHR 0x0A, CHR 0x0B, CHR 0x0C, CHR 0x0D, CHR '' ''}"

definition TrimSpace :: "string \<Rightarrow> string" where
  "TrimSpace s = rev (dropWhile ascii_space (rev (dropWhile ascii_space s)))"

fun validate_candidates :: "string list \<Rightarrow> zone_candidate list \<Rightarrow> routing_error + zone_candidate list" where
  "validate_candidates seen [] = Inr []"
| "validate_candidates seen (z # zs) =
     (let z' = \<lparr>zc_zone_id = TrimSpace (zc_zone_id z), zc_endpoint = TrimSpace (zc_endpoint z)\<rparr>
      in if zc_zone_id z' = [] \<or> zc_endpoint z' = []
         then Inl (RoutingError ''Zone candidate ID and endpoint are required'')
         else if zc_zone_id z' \<in> set seen then Inl (RoutingError ''duplicate Zone candidate'')
         else case validate_candidates (zc_zone_id z' # seen) zs of
                Inl e \<Rightarrow> Inl e | Inr rest \<Rightarrow> Inr (z' # rest))"

definition validateZoneCandidates :: "zone_candidate list \<Rightarrow> routing_error + zone_candidate list" where
  "validateZoneCandidates zones =
     (if zones = [] then Inl (RoutingError ''at least one Zone candidate is required'')
      else case validate_candidates [] zones of
             Inl e \<Rightarrow> Inl e | Inr vs \<Rightarrow> Inr (sort_key zc_zone_id vs))"

section \<open>The committed map\<close>

definition NewStaticMap ::
  "int \<Rightarrow> int \<Rightarrow> zone_candidate list \<Rightarrow> (u32 \<Rightarrow> bytes option) \<Rightarrow> routing_error + shard_map" where
  "NewStaticMap now leaseDuration zones random =
     (if leaseDuration \<le> 0 then Inl (RoutingError ''lease duration must be positive'')
      else case validateZoneCandidates zones of
        Inl e \<Rightarrow> Inl e
      | Inr vs \<Rightarrow>
          if \<not> list_all (\<lambda>i. random i \<noteq> None) shard_ids then Inl (RoutingError ''create lease ID for shard'')
          else Inr \<lparr>mp_map_version = 1, mp_committed_term = 1, mp_committed_index = 1,
            mp_entries = (\<lambda>i. if i < ShardCount then
               \<lparr>re_shard_id = i, re_owner_zone_id = zc_zone_id (RendezvousOwner i vs),
                re_owner_endpoint = zc_endpoint (RendezvousOwner i vs), re_owner_epoch = 1,
                re_route_version = 1, re_state = RouteStateActive, re_lease_term = 1,
                re_lease_id = the (newUUID (random i)), re_lease_expires_at = now + leaseDuration,
                re_previous_owner_zone_id = [], re_transition_id = [], re_updated_at = now\<rparr> else zero_entry),
            mp_epoch_high_water = (\<lambda>i. if i < ShardCount then 1 else 0)\<rparr>)"

definition NewLocalMap :: "int \<Rightarrow> int \<Rightarrow> (u32 \<Rightarrow> bytes option) \<Rightarrow> routing_error + shard_map" where
  "NewLocalMap now leaseDuration random =
     NewStaticMap now leaseDuration [\<lparr>zc_zone_id = ''zone-local'', zc_endpoint = ''http://127.0.0.1:8082''\<rparr>] random"

definition entry_error :: "nat \<Rightarrow> route_entry \<Rightarrow> routing_error option" where
  "entry_error index e =
     (if unat (re_shard_id e) \<noteq> index \<or> re_owner_epoch e = 0 \<or> re_route_version e = 0 \<or> re_updated_at e = 0
      then Some (RoutingError ''invalid route entry'')
      else case re_state e of
        RouteStateActive \<Rightarrow>
          if re_owner_zone_id e = [] \<or> re_owner_endpoint e = [] \<or> re_lease_id e = []
          then Some (RoutingError ''invalid ACTIVE route entry'') else None
      | RouteStatePreparing \<Rightarrow>
          if re_owner_zone_id e = [] \<or> re_owner_endpoint e = [] \<or> re_lease_id e = [] \<or>
             re_previous_owner_zone_id e = [] \<or> re_transition_id e = []
          then Some (RoutingError ''invalid PREPARING route entry'') else None
      | RouteStateUnassigned \<Rightarrow> None
      | OtherRouteState _ \<Rightarrow> Some (RoutingError ''invalid route state''))"

fun first_entry_error :: "nat \<Rightarrow> route_entry list \<Rightarrow> routing_error option" where
  "first_entry_error index [] = None"
| "first_entry_error index (e # es) =
     (case entry_error index e of Some err \<Rightarrow> Some err | None \<Rightarrow> first_entry_error (Suc index) es)"

definition NewMapFromSnapshot :: "map_snapshot \<Rightarrow> routing_error + shard_map" where
  "NewMapFromSnapshot sn =
     (if sn_shard_count sn \<noteq> ShardCount \<or> sn_hash_algorithm_version sn \<noteq> HashAlgorithmVersion \<or>
         sn_assignment_algorithm_version sn \<noteq> AssignmentAlgorithmVersion \<or> sn_map_version sn = 0 \<or>
         sn_committed_term sn = 0 \<or> sn_committed_index sn = 0 \<or> length (sn_entries sn) \<noteq> unat ShardCount
      then Inl (RoutingError ''invalid ShardMap snapshot metadata'')
      else case first_entry_error 0 (sn_entries sn) of
        Some e \<Rightarrow> Inl e
      | None \<Rightarrow> Inr \<lparr>mp_map_version = sn_map_version sn, mp_committed_term = sn_committed_term sn,
          mp_committed_index = sn_committed_index sn,
          mp_entries = (\<lambda>i. if i < ShardCount then sn_entries sn ! unat i else zero_entry),
          mp_epoch_high_water = (\<lambda>i. if i < ShardCount then re_owner_epoch (sn_entries sn ! unat i) else 0)\<rparr>)"

definition Snapshot_of :: "shard_map \<Rightarrow> map_snapshot" where
  "Snapshot_of m = \<lparr>sn_shard_count = ShardCount, sn_hash_algorithm_version = HashAlgorithmVersion,
     sn_assignment_algorithm_version = AssignmentAlgorithmVersion, sn_map_version = mp_map_version m,
     sn_committed_term = mp_committed_term m, sn_committed_index = mp_committed_index m,
     sn_entries = map (mp_entries m) shard_ids\<rparr>"

definition validShardID :: "u32 \<Rightarrow> routing_error option" where
  "validShardID i = (if ShardCount \<le> i then Some (RoutingError ''shard ID is outside the map'') else None)"

definition Entry_at :: "u32 \<Rightarrow> shard_map \<Rightarrow> routing_error + route_entry" where
  "Entry_at i m = (case validShardID i of Some e \<Rightarrow> Inl e | None \<Rightarrow> Inr (mp_entries m i))"

text \<open>The error carries the observed map version next to it, as the source returns both.\<close>

definition RouteWithMapVersion :: "u32 \<Rightarrow> int \<Rightarrow> shard_map \<Rightarrow> (routing_error + route_entry) \<times> u64" where
  "RouteWithMapVersion i now m =
     (case validShardID i of
        Some e \<Rightarrow> (Inl e, 0)
      | None \<Rightarrow>
          let entry = mp_entries m i
          in if re_state entry \<noteq> RouteStateActive
             then (Inl (NotOwnerError ''route is not ACTIVE'' [] 0 entry), mp_map_version m)
             else if \<not> now < re_lease_expires_at entry
             then (Inl (NotOwnerError ''route lease has expired'' [] 0 entry), mp_map_version m)
             else (Inr entry, mp_map_version m))"

definition Route :: "u32 \<Rightarrow> int \<Rightarrow> shard_map \<Rightarrow> routing_error + route_entry" where
  "Route i now m = fst (RouteWithMapVersion i now m)"

definition ValidateOwner :: "u32 \<Rightarrow> string \<Rightarrow> u64 \<Rightarrow> int \<Rightarrow> shard_map \<Rightarrow> routing_error option" where
  "ValidateOwner i zone epoch now m =
     (case Entry_at i m of
        Inl e \<Rightarrow> Some e
      | Inr entry \<Rightarrow>
          if re_state entry \<noteq> RouteStateActive then Some (NotOwnerError ''route is not ACTIVE'' zone epoch entry)
          else if \<not> now < re_lease_expires_at entry
          then Some (NotOwnerError ''route lease has expired'' zone epoch entry)
          else if zone \<noteq> re_owner_zone_id entry
          then Some (NotOwnerError ''owner Zone does not match'' zone epoch entry)
          else if epoch \<noteq> re_owner_epoch entry
          then Some (NotOwnerError ''owner epoch does not match'' zone epoch entry)
          else None)"

definition commitEntry :: "route_entry \<Rightarrow> shard_map \<Rightarrow> shard_map" where
  "commitEntry e m = m\<lparr>mp_entries := (mp_entries m)(re_shard_id e := e),
     mp_map_version := mp_map_version m + 1, mp_committed_index := mp_committed_index m + 1\<rparr>"

definition raise_high_water :: "u32 \<Rightarrow> u64 \<Rightarrow> shard_map \<Rightarrow> shard_map" where
  "raise_high_water i epoch m =
     (if mp_epoch_high_water m i < epoch
      then m\<lparr>mp_epoch_high_water := (mp_epoch_high_water m)(i := epoch)\<rparr> else m)"

section \<open>Transitions\<close>

text \<open>The arguments \<open>leaseRandom\<close> and \<open>transitionRandom\<close> are what the two calls of \<open>newUUID\<close> draw.\<close>

definition Prepare ::
  "u32 \<Rightarrow> string \<Rightarrow> string \<Rightarrow> int \<Rightarrow> int \<Rightarrow> bytes option \<Rightarrow> bytes option \<Rightarrow> shard_map \<Rightarrow>
   (routing_error + route_entry) \<times> shard_map" where
  "Prepare i zone endpoint now leaseDuration leaseRandom transitionRandom m =
     (case validShardID i of Some e \<Rightarrow> (Inl e, m)
      | None \<Rightarrow>
        if zone = [] \<or> endpoint = [] then (Inl (RoutingError ''owner Zone ID and endpoint are required''), m)
        else if leaseDuration \<le> 0 then (Inl (RoutingError ''lease duration must be positive''), m)
        else case newUUID leaseRandom of None \<Rightarrow> (Inl (RoutingError ''create lease ID''), m)
        | Some leaseID \<Rightarrow> (case newUUID transitionRandom of None \<Rightarrow> (Inl (RoutingError ''create transition ID''), m)
        | Some transitionID \<Rightarrow>
          (let current = mp_entries m i;
               baseEpoch = (if re_owner_epoch current < mp_epoch_high_water m i then mp_epoch_high_water m i
                            else re_owner_epoch current)
           in if baseEpoch = max_u64 then (Inl (RoutingError ''owner epoch exhausted''), m)
              else if re_route_version current = max_u64 then (Inl (RoutingError ''route version exhausted''), m)
              else let next_entry = \<lparr>re_shard_id = i, re_owner_zone_id = zone, re_owner_endpoint = endpoint,
                     re_owner_epoch = baseEpoch + 1, re_route_version = re_route_version current + 1,
                     re_state = RouteStatePreparing, re_lease_term = mp_committed_term m, re_lease_id = leaseID,
                     re_lease_expires_at = now + leaseDuration,
                     re_previous_owner_zone_id = re_owner_zone_id current, re_transition_id = transitionID,
                     re_updated_at = now\<rparr>;
                     m1 = commitEntry next_entry m
              in (Inr next_entry, m1\<lparr>mp_epoch_high_water := (mp_epoch_high_water m1)(i := baseEpoch + 1)\<rparr>))))"

definition ProposePrepare ::
  "u32 \<Rightarrow> string \<Rightarrow> string \<Rightarrow> int \<Rightarrow> int \<Rightarrow> bytes option \<Rightarrow> bytes option \<Rightarrow> shard_map \<Rightarrow> routing_error + route_entry" where
  "ProposePrepare i zone endpoint now leaseDuration leaseRandom transitionRandom m =
     (case validShardID i of Some e \<Rightarrow> Inl e
      | None \<Rightarrow>
        if zone = [] \<or> endpoint = [] \<or> leaseDuration \<le> 0
        then Inl (RoutingError ''owner identity and positive lease duration are required'')
        else case newUUID leaseRandom of None \<Rightarrow> Inl (RoutingError ''random'')
        | Some leaseID \<Rightarrow> (case newUUID transitionRandom of None \<Rightarrow> Inl (RoutingError ''random'')
        | Some transitionID \<Rightarrow>
          (let current = mp_entries m i; baseEpoch = max (re_owner_epoch current) (mp_epoch_high_water m i)
           in if re_state current \<noteq> RouteStateActive \<or> baseEpoch = max_u64 \<or> re_route_version current = max_u64
              then Inl (RoutingError ''ACTIVE route cannot advance'')
              else Inr \<lparr>re_shard_id = i, re_owner_zone_id = zone, re_owner_endpoint = endpoint,
                     re_owner_epoch = baseEpoch + 1, re_route_version = re_route_version current + 1,
                     re_state = RouteStatePreparing, re_lease_term = mp_committed_term m, re_lease_id = leaseID,
                     re_lease_expires_at = now + leaseDuration,
                     re_previous_owner_zone_id = re_owner_zone_id current, re_transition_id = transitionID,
                     re_updated_at = now\<rparr>)))"

definition ApplyCommittedSnapshot :: "map_snapshot \<Rightarrow> shard_map \<Rightarrow> routing_error option \<times> shard_map" where
  "ApplyCommittedSnapshot sn m =
     (case NewMapFromSnapshot sn of
        Inl e \<Rightarrow> (Some e, m)
      | Inr restored \<Rightarrow>
          if sn_map_version sn \<le> mp_map_version m
          then (Some (RoutingError ''committed snapshot does not advance map_version''), m)
          else (None, \<lparr>mp_map_version = mp_map_version restored, mp_committed_term = mp_committed_term restored,
            mp_committed_index = mp_committed_index restored, mp_entries = mp_entries restored,
            mp_epoch_high_water = (\<lambda>i. if mp_epoch_high_water m i < mp_epoch_high_water restored i
              then mp_epoch_high_water restored i else mp_epoch_high_water m i)\<rparr>))"

definition Activate ::
  "u32 \<Rightarrow> string \<Rightarrow> int \<Rightarrow> int \<Rightarrow> shard_map \<Rightarrow> (routing_error + route_entry) \<times> shard_map" where
  "Activate i transitionID now leaseDuration m =
     (case validShardID i of Some e \<Rightarrow> (Inl e, m)
      | None \<Rightarrow>
        if transitionID = [] then (Inl (RoutingError ''transition ID is required''), m)
        else if leaseDuration \<le> 0 then (Inl (RoutingError ''lease duration must be positive''), m)
        else let current = mp_entries m i
        in if re_state current \<noteq> RouteStatePreparing \<or> re_transition_id current \<noteq> transitionID
           then (Inl (RoutingError ''prepared transition does not match''), m)
           else if re_route_version current = max_u64 then (Inl (RoutingError ''route version exhausted''), m)
           else let next_entry = current\<lparr>re_state := RouteStateActive, re_route_version := re_route_version current + 1,
                  re_lease_expires_at := now + leaseDuration, re_updated_at := now\<rparr>
           in (Inr next_entry, commitEntry next_entry m))"

definition RestorePreparing :: "route_entry \<Rightarrow> shard_map \<Rightarrow> routing_error option \<times> shard_map" where
  "RestorePreparing e m =
     (case validShardID (re_shard_id e) of Some err \<Rightarrow> (Some err, m)
      | None \<Rightarrow>
        if re_state e \<noteq> RouteStatePreparing \<or> re_owner_zone_id e = [] \<or> re_owner_endpoint e = [] \<or>
           re_previous_owner_zone_id e = [] \<or> re_transition_id e = [] \<or> re_owner_epoch e = 0 \<or> re_route_version e = 0
        then (Some (RoutingError ''valid PREPARING route is required''), m)
        else (None, raise_high_water (re_shard_id e) (re_owner_epoch e) (commitEntry e m)))"

definition RestoreActive :: "route_entry \<Rightarrow> shard_map \<Rightarrow> routing_error option \<times> shard_map" where
  "RestoreActive e m =
     (case validShardID (re_shard_id e) of Some err \<Rightarrow> (Some err, m)
      | None \<Rightarrow>
        if re_state e \<noteq> RouteStateActive \<or> re_owner_zone_id e = [] \<or> re_owner_endpoint e = [] \<or>
           re_owner_epoch e = 0 \<or> re_route_version e = 0 \<or> re_lease_id e = []
        then (Some (RoutingError ''valid ACTIVE route is required''), m)
        else (None, raise_high_water (re_shard_id e) (re_owner_epoch e) (commitEntry e m)))"

definition NoteConsumedEpoch :: "u32 \<Rightarrow> u64 \<Rightarrow> shard_map \<Rightarrow> shard_map" where
  "NoteConsumedEpoch i epoch m =
     (if validShardID i \<noteq> None \<or> epoch = 0 then m else raise_high_water i epoch m)"

definition Unassign :: "u32 \<Rightarrow> int \<Rightarrow> shard_map \<Rightarrow> (routing_error + route_entry) \<times> shard_map" where
  "Unassign i now m =
     (case validShardID i of Some e \<Rightarrow> (Inl e, m)
      | None \<Rightarrow>
        let current = mp_entries m i
        in if re_route_version current = max_u64 then (Inl (RoutingError ''route version exhausted''), m)
           else let next_entry = zero_entry\<lparr>re_shard_id := i, re_owner_epoch := re_owner_epoch current,
                  re_route_version := re_route_version current + 1, re_state := RouteStateUnassigned,
                  re_previous_owner_zone_id := re_owner_zone_id current, re_updated_at := now\<rparr>
           in (Inr next_entry, commitEntry next_entry m))"

definition renewable :: "string \<Rightarrow> route_entry \<Rightarrow> bool" where
  "renewable zone e \<longleftrightarrow> re_owner_zone_id e = zone \<and> re_state e = RouteStateActive"

definition renewed_entry :: "shard_map \<Rightarrow> int \<Rightarrow> int \<Rightarrow> route_entry \<Rightarrow> route_entry" where
  "renewed_entry m now leaseDuration e = e\<lparr>re_route_version := re_route_version e + 1,
     re_lease_term := mp_committed_term m, re_lease_expires_at := now + leaseDuration, re_updated_at := now\<rparr>"

definition RenewOwnedLeases :: "string \<Rightarrow> int \<Rightarrow> int \<Rightarrow> shard_map \<Rightarrow> (routing_error + nat) \<times> shard_map" where
  "RenewOwnedLeases zone now leaseDuration m =
     (if zone = [] then (Inl (RoutingError ''owner Zone ID is required''), m)
      else if leaseDuration \<le> 0 then (Inl (RoutingError ''lease duration must be positive''), m)
      else if list_ex (\<lambda>i. re_owner_zone_id (mp_entries m i) = zone \<and> re_route_version (mp_entries m i) = max_u64) shard_ids
      then (Inl (RoutingError ''route version exhausted''), m)
      else let renewed = length (filter (\<lambda>i. renewable zone (mp_entries m i)) shard_ids);
               m1 = m\<lparr>mp_entries := (\<lambda>i. if i < ShardCount \<and> renewable zone (mp_entries m i)
                       then renewed_entry m now leaseDuration (mp_entries m i) else mp_entries m i)\<rparr>
      in (Inr renewed, if renewed > 0 then m1\<lparr>mp_map_version := mp_map_version m1 + 1,
             mp_committed_index := mp_committed_index m1 + 1\<rparr> else m1))"

section \<open>Histories of ownership\<close>

text \<open>
  A history collects the grants \<open>(shard, epoch, zone)\<close> a map has made. What a coordinator restores or
  applies from its durable store was granted before, or carries an epoch beyond every one consumed so
  far: what \<open>ProposePrepare\<close> proposes (lemma \<open>ProposePrepare_fresh\<close>).
\<close>

type_synonym grants = "(u32 \<times> u64 \<times> string) set"

definition grant_of :: "route_entry \<Rightarrow> u32 \<times> u64 \<times> string" where
  "grant_of e = (re_shard_id e, re_owner_epoch e, re_owner_zone_id e)"

definition snapshot_admissible :: "map_snapshot \<Rightarrow> shard_map \<Rightarrow> grants \<Rightarrow> bool" where
  "snapshot_admissible sn m G \<longleftrightarrow> (\<forall>e \<in> set (sn_entries sn). re_owner_zone_id e \<noteq> [] \<longrightarrow>
     grant_of e \<in> G \<or> mp_epoch_high_water m (re_shard_id e) < re_owner_epoch e)"

inductive routing_step :: "shard_map \<Rightarrow> grants \<Rightarrow> shard_map \<Rightarrow> grants \<Rightarrow> bool" where
  prepare: "Prepare i zone endpoint now d lr tr m = (Inr e, m') \<Longrightarrow> routing_step m G m' (insert (grant_of e) G)"
| activate: "Activate i t now d m = (Inr e, m') \<Longrightarrow> routing_step m G m' G"
| restore_preparing: "RestorePreparing e m = (None, m') \<Longrightarrow> grant_of e \<in> G \<Longrightarrow> routing_step m G m' G"
| restore_active: "RestoreActive e m = (None, m') \<Longrightarrow> grant_of e \<in> G \<Longrightarrow> routing_step m G m' G"
| note_epoch: "routing_step m G (NoteConsumedEpoch i epoch m) G"
| unassign: "Unassign i now m = (Inr e, m') \<Longrightarrow> routing_step m G m' G"
| renew: "RenewOwnedLeases zone now d m = (Inr n, m') \<Longrightarrow> routing_step m G m' G"
| apply_snapshot: "ApplyCommittedSnapshot sn m = (None, m') \<Longrightarrow> snapshot_admissible sn m G \<Longrightarrow>
    routing_step m G m' (G \<union> grant_of ` {e \<in> set (sn_entries sn). re_owner_zone_id e \<noteq> []})"

inductive_cases routing_stepE: "routing_step m G m' G'"

inductive routing_run :: "shard_map \<Rightarrow> grants \<Rightarrow> shard_map \<Rightarrow> grants \<Rightarrow> bool" for m G where
  run_refl: "routing_run m G m G"
| run_step: "routing_run m G m1 G1 \<Longrightarrow> routing_step m1 G1 m2 G2 \<Longrightarrow> routing_run m G m2 G2"

definition initial_grants :: "shard_map \<Rightarrow> grants" where
  "initial_grants m = (\<lambda>i. grant_of (mp_entries m i)) ` {i. i < ShardCount}"

section \<open>The invariant of a map and its history\<close>

definition entry_ok :: "shard_map \<Rightarrow> grants \<Rightarrow> u32 \<Rightarrow> bool" where
  "entry_ok m G i \<longleftrightarrow> (let e = mp_entries m i in
     re_shard_id e = i \<and> re_owner_epoch e \<le> mp_epoch_high_water m i \<and>
     (re_state e \<noteq> RouteStateUnassigned \<longrightarrow> re_owner_zone_id e \<noteq> []) \<and>
     (re_owner_zone_id e \<noteq> [] \<longrightarrow> grant_of e \<in> G))"

definition single_owner :: "grants \<Rightarrow> bool" where
  "single_owner G \<longleftrightarrow> (\<forall>i e z z'. (i, e, z) \<in> G \<longrightarrow> (i, e, z') \<in> G \<longrightarrow> z = z')"

definition routing_ok :: "shard_map \<Rightarrow> grants \<Rightarrow> bool" where
  "routing_ok m G \<longleftrightarrow> (\<forall>i < ShardCount. entry_ok m G i) \<and>
     (\<forall>i e z. (i, e, z) \<in> G \<longrightarrow> i < ShardCount \<and> e \<le> mp_epoch_high_water m i) \<and> single_owner G"

lemma routing_okD:
  assumes "routing_ok m G"
  shows "i < ShardCount \<Longrightarrow> entry_ok m G i" "(i, e, z) \<in> G \<Longrightarrow> i < ShardCount \<and> e \<le> mp_epoch_high_water m i"
    "(i, e, z) \<in> G \<Longrightarrow> (i, e, z') \<in> G \<Longrightarrow> z = z'"
  using assms by (auto simp: routing_ok_def single_owner_def)

lemma commit_simps [simp]:
  "mp_entries (commitEntry e m) = (mp_entries m)(re_shard_id e := e)"
  "mp_epoch_high_water (commitEntry e m) = mp_epoch_high_water m"
  "mp_committed_term (commitEntry e m) = mp_committed_term m"
  by (simp_all add: commitEntry_def)

lemma raise_simps [simp]:
  "mp_entries (raise_high_water i epoch m) = mp_entries m"
  "mp_epoch_high_water (raise_high_water i epoch m) = (mp_epoch_high_water m)(i := max (mp_epoch_high_water m i) epoch)"
  by (auto simp: raise_high_water_def max_def fun_eq_iff)

lemma validShardID_None [simp]: "validShardID i = None \<longleftrightarrow> i < ShardCount"
  by (auto simp: validShardID_def)

text \<open>Raising the high water mark of one shard and writing one entry of it keeps everything else.\<close>

lemma routing_ok_write:
  assumes ok: "routing_ok m G" and w: "re_shard_id e < ShardCount" "mp_entries m' = (mp_entries m)(re_shard_id e := e)"
    "\<And>i. mp_epoch_high_water m i \<le> mp_epoch_high_water m' i" "re_owner_epoch e \<le> mp_epoch_high_water m' (re_shard_id e)"
    "re_state e \<noteq> RouteStateUnassigned \<Longrightarrow> re_owner_zone_id e \<noteq> []" "re_owner_zone_id e \<noteq> [] \<Longrightarrow> grant_of e \<in> G"
  shows "routing_ok m' G"
proof -
  have "entry_ok m' G i" if "i < ShardCount" for i
  proof (cases "i = re_shard_id e")
    case False
    then show ?thesis
      using routing_okD(1) [OF ok that] w(2) order.trans [OF _ w(3) [of i]] by (auto simp: entry_ok_def Let_def)
  qed (use w in \<open>simp add: entry_ok_def Let_def\<close>)
  moreover have "x \<le> mp_epoch_high_water m' i \<and> i < ShardCount" if "(i, x, z) \<in> G" for i x z
    using routing_okD(2) [OF ok that] w(3) [of i] by (auto intro: order.trans)
  ultimately show ?thesis using ok by (auto simp: routing_ok_def)
qed

lemma routing_ok_grant:
  assumes "routing_ok m G" "i < ShardCount" "mp_epoch_high_water m i < x" "x \<le> mp_epoch_high_water m' i"
    "mp_entries m' = mp_entries m" "\<And>i. mp_epoch_high_water m i \<le> mp_epoch_high_water m' i"
  shows "routing_ok m' (insert (i, x, z) G)"
proof -
  have "entry_ok m' (insert (i, x, z) G) j" if "j < ShardCount" for j
    using routing_okD(1) [OF assms(1) that] assms(5) order.trans [OF _ assms(6) [of j]]
    by (auto simp: entry_ok_def Let_def)
  moreover have "y \<le> mp_epoch_high_water m' j \<and> j < ShardCount" if "(j, y, w) \<in> G" for j y w
    using routing_okD(2) [OF assms(1) that] assms(6) [of j] by (auto intro: order.trans)
  moreover have "single_owner (insert (i, x, z) G)"
    using routing_okD(2,3) [OF assms(1)] assms(3) unfolding single_owner_def by (auto dest: leD)
  ultimately show ?thesis using assms(2,4) by (auto simp: routing_ok_def)
qed

lemma u64_less_Suc:
  assumes "x \<noteq> max_u64" "a \<le> x"
  shows "a < x + 1"
proof -
  have "unat x < 18446744073709551616" using unsigned_less [of x] by simp
  moreover have "unat x \<noteq> 18446744073709551615" using assms(1) by (auto simp: max_u64_def word_unat_eq_iff)
  ultimately show ?thesis using assms(2) by (simp add: word_less_nat_alt word_le_nat_alt unat_word_ariths)
qed

text \<open>The epochs handed out lie beyond every epoch consumed so far.\<close>

lemma Prepare_cases:
  assumes "Prepare i zone endpoint now d lr tr m = (Inr e, m')"
  shows "i < ShardCount" "re_shard_id e = i" "re_owner_zone_id e = zone" "zone \<noteq> []" "re_state e = RouteStatePreparing"
    "mp_entries m' = (mp_entries m)(i := e)" "mp_epoch_high_water m' = (mp_epoch_high_water m)(i := re_owner_epoch e)"
    "mp_epoch_high_water m i < re_owner_epoch e" "re_owner_epoch (mp_entries m i) < re_owner_epoch e"
  using assms
  by (auto simp: Prepare_def Let_def not_less split: option.splits if_splits intro: u64_less_Suc)
    (rule u64_less_Suc, auto)

lemma ProposePrepare_fresh:
  assumes "ProposePrepare i zone endpoint now d lr tr m = Inr e"
  shows "mp_epoch_high_water m i < re_owner_epoch e"
  using assms u64_less_Suc [OF _ max.cobounded2, of "re_owner_epoch (mp_entries m i)" "mp_epoch_high_water m i"]
  by (auto simp: ProposePrepare_def Let_def split: option.splits if_splits)

lemma first_entry_error_None:
  "first_entry_error k es = None \<longleftrightarrow> (\<forall>j < length es. entry_error (k + j) (es ! j) = None)"
proof (induction es arbitrary: k)
  case (Cons e es)
  then show ?case by (auto simp: nth_Cons less_Suc_eq_0_disj split: option.splits nat.splits)
qed simp

lemma NewMapFromSnapshot_entries:
  assumes "NewMapFromSnapshot sn = Inr m" "i < ShardCount"
  shows "mp_entries m i = sn_entries sn ! unat i" "re_shard_id (mp_entries m i) = i"
    "mp_entries m i \<in> set (sn_entries sn)" "mp_epoch_high_water m i = re_owner_epoch (mp_entries m i)"
    "re_state (mp_entries m i) \<noteq> RouteStateUnassigned \<Longrightarrow> re_owner_zone_id (mp_entries m i) \<noteq> []"
proof -
  have l: "unat i < length (sn_entries sn)" and f: "first_entry_error 0 (sn_entries sn) = None" and
    e: "mp_entries m i = sn_entries sn ! unat i"
    using assms by (auto simp: NewMapFromSnapshot_def word_less_nat_alt split: if_splits option.splits)
  show "mp_entries m i = sn_entries sn ! unat i" by (rule e)
  show "mp_entries m i \<in> set (sn_entries sn)" using l e by simp
  have "entry_error (unat i) (mp_entries m i) = None" using f l e by (simp add: first_entry_error_None)
  then show "re_shard_id (mp_entries m i) = i"
    "re_state (mp_entries m i) \<noteq> RouteStateUnassigned \<Longrightarrow> re_owner_zone_id (mp_entries m i) \<noteq> []"
    by (auto simp: entry_error_def split: if_splits route_state.splits intro: unsigned_word_eqI)
  show "mp_epoch_high_water m i = re_owner_epoch (mp_entries m i)"
    using assms by (auto simp: NewMapFromSnapshot_def split: if_splits option.splits)
qed

text \<open>Every entry of a snapshot that was accepted is the entry of its shard.\<close>

lemma NewMapFromSnapshot_in:
  assumes "NewMapFromSnapshot sn = Inr m" "e \<in> set (sn_entries sn)"
  shows "re_shard_id e < ShardCount" "mp_entries m (re_shard_id e) = e"
proof -
  have f: "first_entry_error 0 (sn_entries sn) = None" and n: "length (sn_entries sn) = 4096"
    using assms(1) by (auto simp: NewMapFromSnapshot_def ShardCount_def split: if_splits option.splits)
  obtain j where j: "j < 4096" "e = sn_entries sn ! j" using assms(2) n by (auto simp: in_set_conv_nth)
  then have id: "unat (re_shard_id e) = j"
    using f n by (auto simp: first_entry_error_None entry_error_def split: if_splits)
  then show "re_shard_id e < ShardCount" using j(1) by (simp add: word_less_nat_alt ShardCount_def)
  from NewMapFromSnapshot_entries(1) [OF assms(1) this] show "mp_entries m (re_shard_id e) = e"
    using id j(2) by simp
qed

lemma ApplyCommittedSnapshot_cases:
  assumes "ApplyCommittedSnapshot sn m = (None, m')"
  obtains r where "NewMapFromSnapshot sn = Inr r" "mp_entries m' = mp_entries r"
    "\<And>i. mp_epoch_high_water m' i = max (mp_epoch_high_water m i) (mp_epoch_high_water r i)"
    "mp_map_version m < mp_map_version m'"
proof -
  obtain r where r: "NewMapFromSnapshot sn = Inr r"
    using assms by (auto simp: ApplyCommittedSnapshot_def split: sum.splits)
  then have v: "mp_map_version r = sn_map_version sn"
    by (auto simp: NewMapFromSnapshot_def split: if_splits option.splits)
  show thesis
    by (rule that [OF r]) (use assms r v in \<open>auto simp: ApplyCommittedSnapshot_def max_def split: if_splits\<close>)
qed

lemma apply_snapshot_ok:
  assumes ok: "routing_ok m G" and a: "ApplyCommittedSnapshot sn m = (None, m')" "snapshot_admissible sn m G"
  shows "routing_ok m' (G \<union> grant_of ` {e \<in> set (sn_entries sn). re_owner_zone_id e \<noteq> []})" (is "routing_ok m' (G \<union> ?N)")
proof (rule ApplyCommittedSnapshot_cases [OF a(1)])
  fix r
  assume r: "NewMapFromSnapshot sn = Inr r" "mp_entries m' = mp_entries r"
    "\<And>i. mp_epoch_high_water m' i = max (mp_epoch_high_water m i) (mp_epoch_high_water r i)"
  have new: "i < ShardCount \<and> x \<le> mp_epoch_high_water m' i \<and> ((i, x, z) \<in> G \<or> mp_epoch_high_water m i < x) \<and>
      (i, x, z) = grant_of (mp_entries r i)" if "(i, x, z) \<in> ?N" for i x z
  proof -
    obtain e where e: "e \<in> set (sn_entries sn)" "re_owner_zone_id e \<noteq> []" "grant_of e = (i, x, z)" using \<open>(i, x, z) \<in> ?N\<close> by auto
    note n = NewMapFromSnapshot_in [OF r(1) e(1)]
    have "i = re_shard_id e" "x = re_owner_epoch e" using e(3) by (simp_all add: grant_of_def)
    then show ?thesis
      using n e a(2) r(3) NewMapFromSnapshot_entries(4) [OF r(1), of i] by (auto simp: snapshot_admissible_def)
  qed
  have "entry_ok m' (G \<union> ?N) i" if "i < ShardCount" for i
    using NewMapFromSnapshot_entries [OF r(1) that] r(2,3) by (auto simp: entry_ok_def Let_def)
  moreover have "single_owner (G \<union> ?N)"
    unfolding single_owner_def
  proof (intro allI impI)
    fix i x z z'
    assume g: "(i, x, z) \<in> G \<union> ?N" "(i, x, z') \<in> G \<union> ?N"
    show "z = z'"
    proof (cases "(i, x, z) \<in> G \<or> (i, x, z') \<in> G")
      case True
      then have "\<not> mp_epoch_high_water m i < x" using routing_okD(2) [OF ok] by (auto simp: not_less)
      then have "(i, x, z) \<in> G" "(i, x, z') \<in> G" using g new by blast+
      then show ?thesis using routing_okD(3) [OF ok] by blast
    next
      case False
      then show ?thesis using g new [of i x z] new [of i x z'] by (auto simp: grant_of_def)
    qed
  qed
  moreover have "i < ShardCount \<and> x \<le> mp_epoch_high_water m' i" if "(i, x, z) \<in> G \<union> ?N" for i x z
    using that new routing_okD(2) [OF ok, of i x z] r(3) by (auto simp: le_max_iff_disj)
  ultimately show ?thesis unfolding routing_ok_def by blast
qed

lemma routing_step_ok:
  assumes "routing_step m G m' G'" "routing_ok m G"
  shows "routing_ok m' G'"
  using assms(1)
proof cases
  case (prepare i zone endpoint now d lr tr e)
  note p = Prepare_cases [OF prepare(2)]
  define m1 where "m1 = m\<lparr>mp_epoch_high_water := (mp_epoch_high_water m)(i := re_owner_epoch e)\<rparr>"
  have "routing_ok m1 (insert (i, re_owner_epoch e, zone) G)"
    by (rule routing_ok_grant [OF assms(2) p(1,8)]) (use p(8) in \<open>auto simp: m1_def less_imp_le\<close>)
  then have "routing_ok m' (insert (i, re_owner_epoch e, zone) G)"
    by (rule routing_ok_write [where e = e]) (use p in \<open>auto simp: m1_def grant_of_def\<close>)
  then show ?thesis using prepare(1) p(2,3) by (simp add: grant_of_def)
next
  case (activate i t now d e)
  have i: "i < ShardCount" and e: "e = (mp_entries m i)\<lparr>re_state := RouteStateActive,
      re_route_version := re_route_version (mp_entries m i) + 1, re_lease_expires_at := now + d, re_updated_at := now\<rparr>"
    and p: "re_state (mp_entries m i) = RouteStatePreparing" and m': "m' = commitEntry e m"
    using activate(2) by (auto simp: Activate_def Let_def split: option.splits if_splits)
  have "entry_ok m G i" using routing_okD(1) [OF assms(2) i] .
  then show ?thesis
    unfolding activate(1) m'
    by (intro routing_ok_write [OF assms(2), of e]) (use i p in \<open>auto simp: e entry_ok_def Let_def grant_of_def\<close>)
next
  case (restore_preparing e)
  then show ?thesis
    unfolding restore_preparing(1) by (intro routing_ok_write [OF assms(2), of e]) (auto simp: RestorePreparing_def split: option.splits if_splits)
next
  case (restore_active e)
  then show ?thesis
    unfolding restore_active(1) by (intro routing_ok_write [OF assms(2), of e]) (auto simp: RestoreActive_def split: option.splits if_splits)
next
  case (note_epoch i epoch)
  have "routing_ok (raise_high_water i epoch m) G"
    using assms(2) by (auto simp: routing_ok_def entry_ok_def Let_def le_max_iff_disj)
  then show ?thesis using note_epoch assms(2) by (simp add: NoteConsumedEpoch_def)
next
  case (unassign i now e)
  then have i: "i < ShardCount" and e: "re_shard_id e = i" "re_owner_epoch e = re_owner_epoch (mp_entries m i)"
    "re_state e = RouteStateUnassigned" "re_owner_zone_id e = []" and m': "m' = commitEntry e m"
    by (auto simp: Unassign_def Let_def zero_entry_def split: option.splits if_splits)
  have "entry_ok m G i" using routing_okD(1) [OF assms(2) i] .
  then show ?thesis
    unfolding unassign(1) m' by (intro routing_ok_write [OF assms(2), of e]) (use i e in \<open>auto simp: entry_ok_def Let_def\<close>)
next
  case (renew zone now d n)
  have *: "mp_epoch_high_water m' = mp_epoch_high_water m" "\<And>i. mp_entries m' i = (if i < ShardCount \<and> renewable zone (mp_entries m i)
      then renewed_entry m now d (mp_entries m i) else mp_entries m i)"
    using renew(2) by (auto simp: RenewOwnedLeases_def Let_def split: if_splits)
  have "entry_ok m' G i" if "i < ShardCount" for i
    using routing_okD(1) [OF assms(2) that] * by (auto simp: entry_ok_def Let_def renewed_entry_def grant_of_def)
  then show ?thesis using assms(2) *(1) renew(1) by (simp add: routing_ok_def)
next
  case (apply_snapshot sn)
  then show ?thesis using apply_snapshot_ok [OF assms(2)] by simp
qed

lemma routing_run_ok:
  assumes "routing_run m G m' G'" "routing_ok m G"
  shows "routing_ok m' G' \<and> G \<subseteq> G'"
  using assms
proof (induction rule: routing_run.induct)
  case (run_step m1 G1 m2 G2)
  have "G1 \<subseteq> G2" using run_step.hyps(2) by (rule routing_stepE) auto
  then show ?case using run_step routing_step_ok by blast
qed simp

section \<open>Rendezvous placement\<close>

definition outscores :: "u32 \<Rightarrow> zone_candidate \<Rightarrow> zone_candidate \<Rightarrow> bool" where
  "outscores i a b \<longleftrightarrow>
     rendezvousScore i (zc_zone_id b) < rendezvousScore i (zc_zone_id a) \<or>
     (rendezvousScore i (zc_zone_id a) = rendezvousScore i (zc_zone_id b) \<and> zc_zone_id a < zc_zone_id b)"

lemma outscores_trans: "outscores i a b \<Longrightarrow> outscores i b c \<Longrightarrow> outscores i a c"
  by (auto simp: outscores_def)

lemma outscores_irrefl [simp]: "\<not> outscores i a a"
  by (simp add: outscores_def)

lemma outscores_total: "outscores i a b \<or> outscores i b a \<or> zc_zone_id a = zc_zone_id b"
  by (auto simp: outscores_def)

lemma rendezvous_loop_best:
  "rendezvous_loop i w (rendezvousScore i (zc_zone_id w)) zs \<in> set (w # zs) \<and>
   (\<forall>z \<in> set (w # zs). \<not> outscores i z (rendezvous_loop i w (rendezvousScore i (zc_zone_id w)) zs))"
proof (induction zs arbitrary: w)
  case (Cons z zs)
  show ?case
  proof (cases "outscores i z w")
    case True
    then have "rendezvous_loop i w (rendezvousScore i (zc_zone_id w)) (z # zs) =
        rendezvous_loop i z (rendezvousScore i (zc_zone_id z)) zs" by (auto simp: outscores_def Let_def)
    then show ?thesis using Cons [of z] True outscores_trans by auto
  next
    case False
    then have "rendezvous_loop i w (rendezvousScore i (zc_zone_id w)) (z # zs) =
        rendezvous_loop i w (rendezvousScore i (zc_zone_id w)) zs" by (auto simp: outscores_def Let_def)
    moreover have "\<not> outscores i z r" if "\<not> outscores i w r" for r
      using that False outscores_total [of i z w] outscores_trans [of i w z r]
      by (auto simp: outscores_def)
    ultimately show ?thesis using Cons [of w] by auto
  qed
qed simp

lemma RendezvousOwner_best:
  assumes "zones \<noteq> []"
  shows "RendezvousOwner i zones \<in> set zones" "z \<in> set zones \<Longrightarrow> \<not> outscores i z (RendezvousOwner i zones)"
  using assms rendezvous_loop_best [of i "hd zones" "tl zones"]
  by (cases zones; auto simp: RendezvousOwner_def)+

text \<open>
  The owner depends only on the set of candidates, and a smaller set that still has the owner gives
  the same one: a Zone that leaves moves only its own shards, a Zone that joins only attracts.
\<close>

lemma RendezvousOwner_subset:
  assumes "distinct (map zc_zone_id zones)" "set zones' \<subseteq> set zones" "RendezvousOwner i zones \<in> set zones'"
  shows "RendezvousOwner i zones' = RendezvousOwner i zones"
proof -
  have n: "zones' \<noteq> []" "zones \<noteq> []" using assms(2,3) by auto
  let ?a = "RendezvousOwner i zones" and ?b = "RendezvousOwner i zones'"
  have "?b \<in> set zones" using RendezvousOwner_best(1) [OF n(1), of i] assms(2) by auto
  then have "zc_zone_id ?b = zc_zone_id ?a"
    using outscores_total [of i ?a ?b] RendezvousOwner_best(2) [OF n(1) assms(3), of i]
      RendezvousOwner_best(2) [OF n(2), of ?b i] by auto
  then show ?thesis
    using assms(1) \<open>?b \<in> set zones\<close> RendezvousOwner_best(1) [OF n(2), of i] by (auto simp: distinct_map dest: inj_onD)
qed

lemma validate_candidates_ok:
  "validate_candidates seen zs = Inr vs \<Longrightarrow>
     (\<forall>z \<in> set vs. zc_zone_id z \<noteq> [] \<and> zc_endpoint z \<noteq> [] \<and> zc_zone_id z \<notin> set seen) \<and> distinct (map zc_zone_id vs) \<and>
     length vs = length zs"
proof (induction zs arbitrary: seen vs)
  case (Cons z zs)
  then show ?case by (fastforce simp: Let_def split: if_splits sum.splits)
qed simp

lemma validateZoneCandidates_ok:
  assumes "validateZoneCandidates zones = Inr vs"
  shows "vs \<noteq> []" "z \<in> set vs \<Longrightarrow> zc_zone_id z \<noteq> [] \<and> zc_endpoint z \<noteq> []" "distinct (map zc_zone_id vs)"
proof -
  obtain us where u: "validate_candidates [] zones = Inr us" "vs = sort_key zc_zone_id us" "zones \<noteq> []"
    using assms by (auto simp: validateZoneCandidates_def split: if_splits sum.splits)
  note o = validate_candidates_ok [OF u(1)]
  show "vs \<noteq> []" using o u(2,3) by (metis length_0_conv length_sort)
  show "z \<in> set vs \<Longrightarrow> zc_zone_id z \<noteq> [] \<and> zc_endpoint z \<noteq> []" using o u(2) by simp
  show "distinct (map zc_zone_id vs)" using o u(2) by (simp add: distinct_map)
qed

lemma NewStaticMap_entry:
  assumes "NewStaticMap now d zones random = Inr m" "i < ShardCount"
  shows "re_shard_id (mp_entries m i) = i" "re_owner_epoch (mp_entries m i) = 1" "mp_epoch_high_water m i = 1"
    "re_owner_zone_id (mp_entries m i) \<noteq> []" "re_route_version (mp_entries m i) = 1" "mp_map_version m = 1"
proof -
  obtain vs where v: "validateZoneCandidates zones = Inr vs"
    using assms(1) by (auto simp: NewStaticMap_def split: if_splits sum.splits)
  note b = RendezvousOwner_best(1) [OF validateZoneCandidates_ok(1) [OF v], of i]
  show "re_shard_id (mp_entries m i) = i" "re_owner_epoch (mp_entries m i) = 1" "mp_epoch_high_water m i = 1"
    "re_owner_zone_id (mp_entries m i) \<noteq> []" "re_route_version (mp_entries m i) = 1" "mp_map_version m = 1"
    using assms v validateZoneCandidates_ok(2) [OF v b] by (auto simp: NewStaticMap_def split: if_splits)
qed

lemma NewStaticMap_ok:
  assumes "NewStaticMap now d zones random = Inr m"
  shows "routing_ok m (initial_grants m)"
proof -
  note n = NewStaticMap_entry [OF assms]
  have "entry_ok m (initial_grants m) i" if "i < ShardCount" for i
    using n [OF that] that by (auto simp: entry_ok_def Let_def initial_grants_def)
  then show ?thesis
    using n by (auto simp: routing_ok_def initial_grants_def grant_of_def single_owner_def)
qed

section \<open>Properties\<close>

lemma ValidateOwner_grant:
  assumes "routing_ok m G" "ValidateOwner i z epoch t m = None"
  shows "(i, epoch, z) \<in> G"
proof -
  have v: "i < ShardCount" "re_state (mp_entries m i) = RouteStateActive" "re_owner_zone_id (mp_entries m i) = z"
    "re_owner_epoch (mp_entries m i) = epoch"
    using assms(2) by (auto simp: ValidateOwner_def Entry_at_def split: option.splits if_splits)
  then show ?thesis
    using routing_okD(1) [OF assms(1) v(1)] by (auto simp: entry_ok_def Let_def grant_of_def)
qed

text \<open>
  C5: an owner epoch belongs to one Zone for ever. Whatever preparations, activations, abandoned and
  restored transitions, lease renewals and applied snapshots happen between two instants, if the map
  accepts Zone \<open>z\<close> as owner of a shard under an epoch at the first and Zone \<open>z'\<close> under the same epoch at the
  second, then \<open>z\<close> and \<open>z'\<close> are the same Zone: a fenced checkpoint write of an old owner can never pass for
  a write of the new one.
\<close>

theorem epoch_has_one_owner:
  assumes "NewStaticMap now d zones random = Inr m0" "routing_run m0 (initial_grants m0) m G" "routing_run m G m' G'"
    "ValidateOwner i z epoch t m = None" "ValidateOwner i z' epoch t' m' = None"
  shows "z = z'"
proof -
  have ok: "routing_ok m G" using routing_run_ok [OF assms(2) NewStaticMap_ok [OF assms(1)]] by blast
  then have ok': "routing_ok m' G'" "G \<subseteq> G'" using routing_run_ok [OF assms(3)] by blast+
  have "(i, epoch, z) \<in> G'" using ValidateOwner_grant [OF ok assms(4)] ok'(2) by blast
  then show ?thesis using ValidateOwner_grant [OF ok'(1) assms(5)] routing_okD(3) [OF ok'(1)] by blast
qed

definition local_zone :: zone_candidate where
  "local_zone = \<lparr>zc_zone_id = ''a'', zc_endpoint = ''ep''\<rparr>"

definition sample_random :: "bytes option" where
  "sample_random = Some (replicate 16 0)"

definition sample_map :: shard_map where
  "sample_map = projr (NewStaticMap 1 10 [local_zone] (\<lambda>i. sample_random))"

lemma sample_map_eq: "NewStaticMap 1 10 [local_zone] (\<lambda>i. sample_random) = Inr sample_map"
proof -
  have "validateZoneCandidates [local_zone] = Inr [local_zone]"
    by (simp add: validateZoneCandidates_def local_zone_def TrimSpace_def ascii_space_def)
  then have "\<exists>m. NewStaticMap 1 10 [local_zone] (\<lambda>i. sample_random) = Inr m"
    by (simp add: NewStaticMap_def sample_random_def list_all_iff)
  then show ?thesis by (auto simp: sample_map_def)
qed

lemma sample_entry: "re_owner_epoch (mp_entries sample_map 7) = 1" "mp_epoch_high_water sample_map 7 = 1"
  "re_route_version (mp_entries sample_map 7) = 1"
  using NewStaticMap_entry [OF sample_map_eq, of 7] by (simp_all add: ShardCount_def)

lemma sample_Prepare:
  obtains e m' where "Prepare 7 ''b'' ''ep2'' 2 10 sample_random sample_random sample_map = (Inr e, m')"
    "re_owner_epoch e = 2" "re_transition_id e = the (newUUID sample_random)" "re_route_version e = 2"
proof -
  obtain u where u: "newUUID sample_random = Some u" by (simp add: newUUID_def sample_random_def)
  obtain r m' where p: "Prepare 7 ''b'' ''ep2'' 2 10 sample_random sample_random sample_map = (r, m')" by fastforce
  then obtain e where "r = Inr e" "re_owner_epoch e = 2" "re_transition_id e = u" "re_route_version e = 2"
    by (auto simp: Prepare_def validShardID_def ShardCount_def u sample_entry max_u64_def Let_def)
  then show thesis using that p u by simp
qed

lemma sample_uuid: "the (newUUID sample_random) \<noteq> []"
  by (simp add: newUUID_def sample_random_def formatUUIDBytes_def Let_def)

lemma sample_activated:
  obtains m G where "routing_run sample_map (initial_grants sample_map) m G" "ValidateOwner 7 ''b'' 2 5 m = None"
proof -
  obtain e m1 where p: "Prepare 7 ''b'' ''ep2'' 2 10 sample_random sample_random sample_map = (Inr e, m1)"
    "re_owner_epoch e = 2" "re_transition_id e = the (newUUID sample_random)" "re_route_version e = 2"
    by (rule sample_Prepare)
  note c = Prepare_cases [OF p(1)]
  define a where "a = e\<lparr>re_state := RouteStateActive, re_route_version := 3, re_lease_expires_at := 13, re_updated_at := 3\<rparr>"
  have e1: "mp_entries m1 7 = e" using c(6) by simp
  have "Activate 7 (re_transition_id e) 3 10 m1 = (Inr a, commitEntry a m1)"
    using p(3,4) sample_uuid c(1,5)
    by (simp add: Activate_def e1 validShardID_def Let_def a_def max_u64_def ShardCount_def)
  then have "routing_run sample_map (initial_grants sample_map) (commitEntry a m1) (insert (grant_of e) (initial_grants sample_map))"
    by (meson run_refl run_step prepare [OF p(1)] activate)
  moreover have "ValidateOwner 7 ''b'' 2 5 (commitEntry a m1) = None"
    using c(1,2,3) p(2) by (simp add: ValidateOwner_def Entry_at_def validShardID_def a_def ShardCount_def)
  ultimately show thesis by (rule that)
qed

theorem epoch_has_one_owner_witness:
  "\<exists>m G. routing_run sample_map (initial_grants sample_map) m G \<and> ValidateOwner 7 ''b'' 2 5 m = None \<and>
     ValidateOwner 7 ''c'' 2 5 m \<noteq> None"
proof -
  obtain m G where r: "routing_run sample_map (initial_grants sample_map) m G" "ValidateOwner 7 ''b'' 2 5 m = None"
    by (rule sample_activated)
  then show ?thesis using epoch_has_one_owner [OF sample_map_eq r(1) run_refl r(2), of "''c''" 5] by auto
qed

text \<open>
  Preparing a transfer fences the old owner at once. After \<open>Prepare\<close> the map accepts nobody for the
  shard, under any Zone and epoch, until the transition is activated; the new epoch is larger than
  every epoch the shard was ever granted under; and the other shards are accepted as before.
\<close>

theorem Prepare_fences:
  assumes "NewStaticMap now d zones random = Inr m0" "routing_run m0 (initial_grants m0) m G"
    "Prepare i zone endpoint now' d' lr tr m = (Inr e, m')"
  shows "(\<forall>z epoch t. ValidateOwner i z epoch t m' \<noteq> None) \<and>
    (\<forall>x z. (i, x, z) \<in> G \<longrightarrow> x < re_owner_epoch e) \<and>
    (\<forall>j z epoch t. j \<noteq> i \<longrightarrow> ValidateOwner j z epoch t m' = ValidateOwner j z epoch t m) \<and>
    (\<forall>t. Activate i (re_transition_id e) t d' m' = (Inr a, m'') \<longrightarrow> ValidateOwner i zone (re_owner_epoch e) t m'' = None)"
proof -
  note p = Prepare_cases [OF assms(3)]
  have ok: "routing_ok m G" using routing_run_ok [OF assms(2) NewStaticMap_ok [OF assms(1)]] by blast
  have d: "0 < d'" using assms(3) by (auto simp: Prepare_def split: option.splits if_splits)
  have "ValidateOwner i zone (re_owner_epoch e) t m'' = None" if a: "Activate i (re_transition_id e) t d' m' = (Inr a, m'')" for t
  proof -
    have "mp_entries m' i = e" using p(6) by simp
    then have "m'' = commitEntry a m'" "a = e\<lparr>re_state := RouteStateActive, re_route_version := re_route_version e + 1,
        re_lease_expires_at := t + d', re_updated_at := t\<rparr>"
      using a by (auto simp: Activate_def Let_def split: option.splits if_splits)
    then have "mp_entries m'' i = e\<lparr>re_state := RouteStateActive, re_route_version := re_route_version e + 1,
        re_lease_expires_at := t + d', re_updated_at := t\<rparr>" using p(2) by simp
    then show ?thesis using p(1,3) d by (simp add: ValidateOwner_def Entry_at_def validShardID_def)
  qed
  moreover have "x < re_owner_epoch e" if "(i, x, z) \<in> G" for x z
    using routing_okD(2) [OF ok that] p(8) by (auto intro: order.strict_trans1)
  ultimately show ?thesis
    using p(1,5,6) by (auto simp: ValidateOwner_def Entry_at_def validShardID_def)
qed

theorem Prepare_fences_witness:
  "\<exists>e m'. Prepare 7 ''b'' ''ep2'' 2 10 sample_random sample_random sample_map = (Inr e, m') \<and>
     ValidateOwner 7 ''a'' 1 3 m' \<noteq> None \<and> 1 < re_owner_epoch e"
proof -
  obtain e m' where p: "Prepare 7 ''b'' ''ep2'' 2 10 sample_random sample_random sample_map = (Inr e, m')"
    "re_owner_epoch e = 2" by (rule sample_Prepare)
  then show ?thesis using Prepare_fences [OF sample_map_eq run_refl p(1)] by simp
qed

end
