(* ===== verification/Checkpoint.thy ===== *)
theory Checkpoint
  imports Runtime Routing
begin

text \<open>
  \<open>checkpoint.go\<close>: the durable form of a player. \<open>StateFromCheckpoint\<close> and \<open>Checkpoint\<close> translate between
  \<open>PlayerCheckpointV1\<close> and the state of the actor, \<open>ValidateCheckpoint\<close> guards both directions,
  \<open>MarshalCheckpoint\<close> and \<open>UnmarshalCheckpoint\<close> add the digest.

  Elements of repeated fields are never \<open>nil\<close> here, as in every decoded message. \<open>sort.Slice\<close> is
  \<open>sort_key\<close>; the two agree whenever the keys are distinct. Protobuf itself is a parameter
  (\<open>store_codec\<close>). An unspecified enumeration constructor stands for every value without a name.
\<close>

section \<open>Records\<close>

datatype plot_record_state =
  PLOT_RECORD_STATE_UNSPECIFIED | REC_EMPTY | REC_GROWING | REC_MATURE | REC_NEED_CLEANUP

datatype chapter_record_status =
  CHAPTER_RECORD_STATUS_UNSPECIFIED | REC_IN_PROGRESS | REC_CLAIMABLE | REC_CLAIMED

datatype task_metric = TASK_METRIC_UNSPECIFIED | TASK_BUY_SEEDS | TASK_PLANT | TASK_APPLY_FERTILIZER
  | TASK_HARVEST | TASK_SELL_CROP | TASK_ADD_FRIEND | TASK_STEAL_CROP | TASK_APPLY_PEST_TO_FRIEND

record plot_record =
  pr_plot_id :: u32
  pr_state :: plot_record_state
  pr_crop_id :: u32
  pr_crop_item_id :: u32
  pr_crop_config_version :: u64
  pr_planted_at_ms :: int
  pr_maturity_value :: "int option"
  pr_base_growth_rate :: "int option"
  pr_base_yield :: u32
  pr_stolen_quantity :: u32
  pr_settled_growth_value :: "int option"
  pr_last_settled_at_ms :: int
  pr_estimated_mature_at_ms :: "int option"
  pr_fertilizer_effect :: "timed_effect option"
  pr_pest_effect :: "timed_effect option"
  pr_steal_count :: u32
  pr_steal_quantity :: u32
  pr_max_steal_times :: u32
  pr_protected_owner_yield :: u32
  pr_steal_visitor_ids :: "u64 list"

record task_record =
  ta_task_id :: u32
  ta_task_config_version :: u64
  ta_metric :: task_metric
  ta_current_value :: u32
  ta_target_value :: u32
  ta_completed :: bool

record chapter_record =
  cr_chapter_id :: u32
  cr_chapter_config_version :: u64
  cr_status :: chapter_record_status
  cr_activated_at_ms :: int
  cr_claimed_at_ms :: "int option"
  cr_tasks :: "task_record list"
  cr_next_chapter_id :: "u32 option"

record checkpoint =
  ck_schema_version :: u32
  ck_player_id :: u64
  ck_logical_shard_id :: u32
  ck_owner_epoch :: u64
  ck_player_seq :: u64
  ck_checkpoint_revision :: u64
  ck_coin_balance :: int
  ck_inventory :: "(u32 \<times> u32) list"
  ck_plots :: "plot_record list"
  ck_current_chapter :: "chapter_record option"
  ck_recent_results :: "idempotency_result list"
  ck_pending_outbox :: "pending_outbox list"
  ck_last_applied_config_version :: u64
  ck_created_at_ms :: int
  ck_updated_at_ms :: int
  ck_friend_actions :: "friend_actions option"
  ck_friend_reservations :: "friend_reservation list"
  ck_friend_receipts :: "friend_receipt list"
  ck_friend_task_credits :: "(bytes \<times> int) list"
  ck_pet_state :: "pet_record option"
  ck_career :: "career_record option"
  ck_crop_compendium :: "u32 list option"
  ck_mail_claim_receipts :: "mail_claim_receipt list"

datatype gift_mail_event = CreateGiftMailV1
  (ge_sender_player_id: u64) (ge_sender_display_name: string) (ge_recipient_player_id: u64)
  (ge_crop_item_id: u32) (ge_quantity: u32) (ge_created_at_ms: int)

record store_codec =
  unmarshal_reward_mail :: "bytes \<Rightarrow> reward_mail option"
  unmarshal_gift_mail :: "bytes \<Rightarrow> gift_mail_event option"
  marshal_checkpoint :: "checkpoint \<Rightarrow> bytes"
  unmarshal_checkpoint :: "bytes \<Rightarrow> checkpoint option"

datatype checkpoint_error = CheckpointError string

definition CheckpointSchemaVersionV1 :: u32 where "CheckpointSchemaVersionV1 = 1"
definition CheckpointSchemaVersion :: u32 where "CheckpointSchemaVersion = 2"

section \<open>Validation\<close>

text \<open>Checks in sequence: the first that fails gives the error.\<close>

fun first_failure :: "(bool \<times> string) list \<Rightarrow> checkpoint_error option" where
  "first_failure [] = None"
| "first_failure ((bad, msg) # rest) = (if bad then Some (CheckpointError msg) else first_failure rest)"

lemma first_failure_None [simp]: "first_failure cs = None \<longleftrightarrow> (\<forall>(bad, msg) \<in> set cs. \<not> bad)"
  by (induction cs rule: first_failure.induct) auto

fun first_error :: "('a \<Rightarrow> checkpoint_error option) \<Rightarrow> 'a list \<Rightarrow> checkpoint_error option" where
  "first_error f [] = None"
| "first_error f (x # xs) = (case f x of Some e \<Rightarrow> Some e | None \<Rightarrow> first_error f xs)"

lemma first_error_None: "first_error f xs = None \<longleftrightarrow> (\<forall>x \<in> set xs. f x = None)"
  by (induction xs) (auto split: option.splits)

definition validCropIdentity :: "plot_record \<Rightarrow> bool" where
  "validCropIdentity p \<longleftrightarrow> pr_crop_id p \<noteq> 0 \<and> pr_crop_item_id p \<noteq> 0 \<and> pr_crop_config_version p \<noteq> 0 \<and>
     0 < pr_planted_at_ms p \<and> 0 < pr_base_yield p \<and> pr_stolen_quantity p \<le> pr_base_yield p"

definition validateTimedEffect :: "timed_effect option \<Rightarrow> effect_kind \<Rightarrow> int \<Rightarrow> checkpoint_error option" where
  "validateTimedEffect eff kind plantedAtMS = (case eff of None \<Rightarrow> None
     | Some e \<Rightarrow> first_failure
       [(length (eff_instance_id e) \<noteq> 16 \<or> eff_kind e \<noteq> kind \<or> eff_item_or_pest_id e = 0 \<or> eff_config_version e = 0 \<or>
           eff_modifier e = None \<or> eff_modifier e = Some 0 \<or> eff_start_at_ms e < plantedAtMS \<or>
           eff_end_at_ms e \<le> eff_start_at_ms e, ''plot timed effect is invalid''),
        (kind = FERTILIZER \<and> eff_source_player_id e \<noteq> None, ''fertilizer effect has source player''),
        (kind = FERTILIZER \<and> the (eff_modifier e) \<le> 0, ''fertilizer effect modifier is not positive'')])"

text \<open>A present scaled value that fails a test; an absent one counts as failing.\<close>

definition scaled_bad :: "int option \<Rightarrow> (int \<Rightarrow> bool) \<Rightarrow> bool" where
  "scaled_bad v bad = (case v of None \<Rightarrow> True | Some x \<Rightarrow> bad x)"

definition validatePlotRecord :: "plot_record \<Rightarrow> checkpoint_error option" where
  "validatePlotRecord p =
     (if pr_plot_id p = 0 then Some (CheckpointError ''checkpoint contains invalid plot'')
      else case pr_state p of
        REC_EMPTY \<Rightarrow> first_failure
          [(pr_crop_id p \<noteq> 0 \<or> pr_crop_item_id p \<noteq> 0 \<or> pr_crop_config_version p \<noteq> 0 \<or> pr_planted_at_ms p \<noteq> 0 \<or>
            pr_maturity_value p \<noteq> None \<or> pr_base_growth_rate p \<noteq> None \<or> pr_base_yield p \<noteq> 0 \<or>
            pr_stolen_quantity p \<noteq> 0 \<or> pr_settled_growth_value p \<noteq> None \<or> pr_last_settled_at_ms p \<noteq> 0 \<or>
            pr_estimated_mature_at_ms p \<noteq> None \<or> pr_fertilizer_effect p \<noteq> None \<or> pr_pest_effect p \<noteq> None \<or>
            pr_steal_count p \<noteq> 0 \<or> pr_steal_quantity p \<noteq> 0 \<or> pr_max_steal_times p \<noteq> 0 \<or>
            pr_protected_owner_yield p \<noteq> 0, ''EMPTY plot contains crop fields'')]
      | REC_GROWING \<Rightarrow>
          if \<not> validCropIdentity p \<or> scaled_bad (pr_maturity_value p) (\<lambda>v. v \<le> 0) \<or>
             scaled_bad (pr_base_growth_rate p) (\<lambda>v. v \<le> 0) \<or>
             scaled_bad (pr_settled_growth_value p) (\<lambda>v. v < 0 \<or> the (pr_maturity_value p) \<le> v) \<or>
             pr_last_settled_at_ms p < pr_planted_at_ms p \<or>
             scaled_bad (pr_estimated_mature_at_ms p) (\<lambda>v. v \<le> pr_last_settled_at_ms p)
          then Some (CheckpointError ''GROWING plot fields are invalid'')
          else (case validateTimedEffect (pr_fertilizer_effect p) FERTILIZER (pr_planted_at_ms p) of
              Some e \<Rightarrow> Some e
            | None \<Rightarrow> (case validateTimedEffect (pr_pest_effect p) PEST (pr_planted_at_ms p) of
                Some e \<Rightarrow> Some e
              | None \<Rightarrow> first_failure [(pr_max_steal_times p < pr_steal_count p,
                  ''GROWING plot steal_count exceeds max_steal_times'')]))
      | REC_MATURE \<Rightarrow> first_failure
          [(\<not> validCropIdentity p \<or> scaled_bad (pr_maturity_value p) (\<lambda>v. v \<le> 0) \<or>
            scaled_bad (pr_base_growth_rate p) (\<lambda>v. v \<le> 0) \<or>
            scaled_bad (pr_settled_growth_value p) (\<lambda>v. v \<noteq> the (pr_maturity_value p)) \<or>
            pr_last_settled_at_ms p < pr_planted_at_ms p \<or> pr_estimated_mature_at_ms p \<noteq> None \<or>
            pr_fertilizer_effect p \<noteq> None \<or> pr_pest_effect p \<noteq> None, ''MATURE plot fields are invalid''),
           (pr_max_steal_times p < pr_steal_count p, ''MATURE plot steal_count exceeds max_steal_times'')]
      | REC_NEED_CLEANUP \<Rightarrow> first_failure
          [(\<not> validCropIdentity p \<or> pr_maturity_value p \<noteq> None \<or> pr_base_growth_rate p \<noteq> None \<or>
            pr_settled_growth_value p \<noteq> None \<or> pr_last_settled_at_ms p \<noteq> 0 \<or> pr_estimated_mature_at_ms p \<noteq> None \<or>
            pr_fertilizer_effect p \<noteq> None \<or> pr_pest_effect p \<noteq> None, ''NEED_CLEANUP plot fields are invalid''),
           (pr_max_steal_times p < pr_steal_count p, ''NEED_CLEANUP plot steal_count exceeds max_steal_times'')]
      | PLOT_RECORD_STATE_UNSPECIFIED \<Rightarrow> Some (CheckpointError ''checkpoint plot state is invalid''))"

text \<open>The loop over owned pets and unlocked crops: not zero, not repeated, ascending.\<close>

fun ascending_ids :: "string \<Rightarrow> bool \<Rightarrow> u32 \<Rightarrow> u32 list \<Rightarrow> u32 list \<Rightarrow> checkpoint_error option" where
  "ascending_ids what first previous seen [] = None"
| "ascending_ids what first previous seen (x # xs) =
     (if x = 0 then Some (CheckpointError (what @ '' contains zero''))
      else if x \<in> set seen then Some (CheckpointError (what @ '' contains duplicate''))
      else if \<not> first \<and> x \<le> previous then Some (CheckpointError (what @ '' is not ascending''))
      else ascending_ids what False x (x # seen) xs)"

definition validateCompendium :: "u32 list option \<Rightarrow> checkpoint_error option" where
  "validateCompendium c = (case c of None \<Rightarrow> None
     | Some ids \<Rightarrow> ascending_ids ''checkpoint unlocked_crop_ids'' True 0 [] ids)"

definition validatePetState :: "pet_record option \<Rightarrow> checkpoint_error option" where
  "validatePetState pet = (case pet of None \<Rightarrow> None
     | Some p \<Rightarrow>
         if pet_food_active_until_ms p < 0 then Some (CheckpointError ''checkpoint pet food_active_until_ms is negative'')
         else case ascending_ids ''checkpoint owned_pet_ids'' True 0 [] (pet_owned_ids p) of
           Some e \<Rightarrow> Some e
         | None \<Rightarrow> first_failure [(pet_active_id p \<noteq> 0 \<and> pet_active_id p \<notin> set (pet_owned_ids p),
             ''checkpoint active_pet_id is not owned'')])"

text \<open>Nothing can be wrong with two unsigned counters.\<close>

definition validateCareer :: "career_record option \<Rightarrow> checkpoint_error option" where
  "validateCareer career = None"

definition allZero :: "bytes \<Rightarrow> bool" where
  "allZero bs \<longleftrightarrow> list_all (\<lambda>b. b = 0) bs"

fun attachments_ascending :: "u32 \<Rightarrow> item_stack_view list \<Rightarrow> bool" where
  "attachments_ascending previous [] = True"
| "attachments_ascending previous (a # as) \<longleftrightarrow>
     isv_item_id a \<noteq> 0 \<and> isv_quantity a \<noteq> 0 \<and> previous < isv_item_id a \<and> attachments_ascending (isv_item_id a) as"

definition validateRewardMailOutbox :: "store_codec \<Rightarrow> checkpoint \<Rightarrow> pending_outbox \<Rightarrow> checkpoint_error option" where
  "validateRewardMailOutbox D c p = (case unmarshal_reward_mail D (po_payload p) of
       None \<Rightarrow> Some (CheckpointError ''pending reward-mail payload is invalid'')
     | Some m \<Rightarrow> first_failure
         [(rm_recipient_player_id m \<noteq> ck_player_id c \<or> rm_subject_text_key m \<noteq> ''mail.chapter_reward.subject'' \<or>
           rm_body_text_key m \<noteq> ''mail.chapter_reward.body'' \<or> rm_chapter_id m = 0 \<or> rm_chapter_config_version m = 0 \<or>
           rm_request_id m \<noteq> po_caused_by_request_id p \<or> rm_attachments m = [] \<or> length (rm_attachments m) > 100,
           ''pending reward-mail payload is invalid''),
          (\<not> attachments_ascending 0 (rm_attachments m), ''pending reward-mail attachments are invalid'')])"

definition validateGiftMailOutbox :: "store_codec \<Rightarrow> checkpoint \<Rightarrow> pending_outbox \<Rightarrow> checkpoint_error option" where
  "validateGiftMailOutbox D c p = (case unmarshal_gift_mail D (po_payload p) of
       None \<Rightarrow> Some (CheckpointError ''pending gift-mail payload is invalid'')
     | Some m \<Rightarrow> first_failure
         [(ge_sender_player_id m \<noteq> ck_player_id c \<or> ge_recipient_player_id m = 0 \<or>
           ge_recipient_player_id m = ge_sender_player_id m \<or> ge_crop_item_id m = 0 \<or>
           ge_quantity m < minFriendGiftQuantity \<or> maxFriendGiftQuantity < ge_quantity m \<or>
           ge_created_at_ms m \<le> 0 \<or> TrimSpace (ge_sender_display_name m) = [],
           ''pending gift-mail payload is invalid'')])"

definition validatePendingOutbox :: "store_codec \<Rightarrow> checkpoint \<Rightarrow> pending_outbox \<Rightarrow> checkpoint_error option" where
  "validatePendingOutbox D c p =
     (if length (po_event_id p) \<noteq> 16 \<or> allZero (po_event_id p) \<or> po_event_contract_version p \<noteq> 1 \<or>
         po_aggregate_player_id p \<noteq> ck_player_id c \<or> length (po_caused_by_request_id p) \<noteq> 16 \<or>
         allZero (po_caused_by_request_id p) \<or> po_created_owner_epoch p = 0 \<or> po_created_player_seq p = 0 \<or>
         ck_player_seq c < po_created_player_seq p \<or> po_created_at_ms p \<le> 0 \<or> po_payload p = [] \<or>
         length (po_payload p) > 49152 \<or> length (po_payload_sha256 p) \<noteq> 32
      then Some (CheckpointError ''checkpoint contains invalid pending Outbox'')
      else if sha256 (po_payload p) \<noteq> po_payload_sha256 p
      then Some (CheckpointError ''pending Outbox payload digest mismatch'')
      else case po_event_type p of
        CREATE_REWARD_MAIL \<Rightarrow> validateRewardMailOutbox D c p
      | CREATE_GIFT_MAIL \<Rightarrow> validateGiftMailOutbox D c p
      | OUTBOX_UNSPECIFIED \<Rightarrow> Some (CheckpointError ''checkpoint contains unsupported pending Outbox type''))"

fun check_inventory :: "u32 list \<Rightarrow> (u32 \<times> u32) list \<Rightarrow> checkpoint_error option" where
  "check_inventory seen [] = None"
| "check_inventory seen ((itemID, quantity) # items) =
     (if itemID = 0 \<or> quantity = 0 \<or> quantity > 300 then Some (CheckpointError ''checkpoint contains invalid inventory'')
      else if itemID \<in> set seen then Some (CheckpointError ''checkpoint contains duplicate inventory item'')
      else check_inventory (itemID # seen) items)"

fun check_plots :: "u32 list \<Rightarrow> plot_record list \<Rightarrow> checkpoint_error option" where
  "check_plots seen [] = None"
| "check_plots seen (p # ps) = (case validatePlotRecord p of Some e \<Rightarrow> Some e
     | None \<Rightarrow> if pr_plot_id p \<in> set seen then Some (CheckpointError ''checkpoint contains duplicate plot'')
               else check_plots (pr_plot_id p # seen) ps)"

definition outbox_before :: "pending_outbox \<Rightarrow> pending_outbox \<Rightarrow> bool" where
  "outbox_before p q \<longleftrightarrow> po_created_at_ms p < po_created_at_ms q \<or>
     (po_created_at_ms p = po_created_at_ms q \<and> po_event_id p < po_event_id q)"

fun check_outbox ::
  "store_codec \<Rightarrow> checkpoint \<Rightarrow> bytes list \<Rightarrow> pending_outbox option \<Rightarrow> pending_outbox list \<Rightarrow> checkpoint_error option" where
  "check_outbox D c seen previous [] = None"
| "check_outbox D c seen previous (p # ps) = (case validatePendingOutbox D c p of Some e \<Rightarrow> Some e
     | None \<Rightarrow> if po_event_id p \<in> set seen then Some (CheckpointError ''checkpoint contains duplicate Outbox event'')
               else if (case previous of None \<Rightarrow> False | Some q \<Rightarrow> \<not> outbox_before q p)
               then Some (CheckpointError ''checkpoint pending Outbox is not sorted'')
               else check_outbox D c (po_event_id p # seen) (Some p) ps)"

definition check_header :: "checkpoint \<Rightarrow> checkpoint_error option" where
  "check_header c = first_failure
     [(ck_schema_version c \<noteq> CheckpointSchemaVersionV1 \<and> ck_schema_version c \<noteq> CheckpointSchemaVersion,
         ''unsupported checkpoint schema''),
      (ck_player_id c = 0, ''checkpoint player_id is required''),
      (ck_logical_shard_id c \<noteq> ShardForPlayer (ck_player_id c), ''checkpoint logical_shard_id does not match player_id''),
      (ck_owner_epoch c = 0, ''checkpoint owner_epoch is required''),
      (ck_checkpoint_revision c = 0, ''checkpoint_revision is required''),
      (ck_coin_balance c < 0, ''checkpoint coin balance is negative''),
      (ck_current_chapter c = None, ''checkpoint current chapter is required''),
      (let ch = the (ck_current_chapter c) in cr_chapter_id ch = 0 \<or> cr_chapter_config_version ch = 0 \<or>
         cr_activated_at_ms ch \<le> 0, ''checkpoint current chapter fields are invalid''),
      (cr_status (the (ck_current_chapter c)) \<notin> {REC_IN_PROGRESS, REC_CLAIMABLE, REC_CLAIMED},
         ''checkpoint chapter status is invalid''),
      (ck_last_applied_config_version c = 0, ''checkpoint config version is required''),
      (ck_created_at_ms c \<le> 0 \<or> ck_updated_at_ms c < ck_created_at_ms c, ''checkpoint timestamps are invalid''),
      (length (ck_inventory c) > 100, ''checkpoint inventory type limit exceeded'')]"

definition ValidateCheckpoint :: "store_codec \<Rightarrow> checkpoint \<Rightarrow> checkpoint_error option" where
  "ValidateCheckpoint D c = first_error (\<lambda>check. check c)
     [check_header, \<lambda>c. check_inventory [] (ck_inventory c), \<lambda>c. check_plots [] (ck_plots c),
      \<lambda>c. check_outbox D c [] None (ck_pending_outbox c), \<lambda>c. validatePetState (ck_pet_state c),
      \<lambda>c. validateCareer (ck_career c), \<lambda>c. validateCompendium (ck_crop_compendium c)]"

section \<open>Between checkpoint and state\<close>

definition plotStateFromRecord :: "plot_record_state \<Rightarrow> plot_state" where
  "plotStateFromRecord x = (case x of REC_EMPTY \<Rightarrow> EMPTY | REC_GROWING \<Rightarrow> GROWING | REC_MATURE \<Rightarrow> MATURE
     | REC_NEED_CLEANUP \<Rightarrow> NEED_CLEANUP | PLOT_RECORD_STATE_UNSPECIFIED \<Rightarrow> PLOT_UNSPECIFIED)"

definition plotStateToRecord :: "plot_state \<Rightarrow> plot_record_state" where
  "plotStateToRecord x = (case x of EMPTY \<Rightarrow> REC_EMPTY | GROWING \<Rightarrow> REC_GROWING | MATURE \<Rightarrow> REC_MATURE
     | NEED_CLEANUP \<Rightarrow> REC_NEED_CLEANUP | PLOT_UNSPECIFIED \<Rightarrow> PLOT_RECORD_STATE_UNSPECIFIED)"

definition chapterStatusFromRecord :: "chapter_record_status \<Rightarrow> chapter_status" where
  "chapterStatusFromRecord x = (case x of REC_IN_PROGRESS \<Rightarrow> IN_PROGRESS | REC_CLAIMABLE \<Rightarrow> CLAIMABLE
     | REC_CLAIMED \<Rightarrow> CLAIMED | CHAPTER_RECORD_STATUS_UNSPECIFIED \<Rightarrow> CHAPTER_UNSPECIFIED)"

definition chapterStatusToRecord :: "chapter_status \<Rightarrow> chapter_record_status" where
  "chapterStatusToRecord x = (case x of IN_PROGRESS \<Rightarrow> REC_IN_PROGRESS | CLAIMABLE \<Rightarrow> REC_CLAIMABLE
     | CLAIMED \<Rightarrow> REC_CLAIMED | CHAPTER_UNSPECIFIED \<Rightarrow> CHAPTER_RECORD_STATUS_UNSPECIFIED)"

definition taskMetric :: "u32 \<Rightarrow> task_metric" where
  "taskMetric i = (if i = 1 then TASK_BUY_SEEDS else if i = 2 then TASK_PLANT else if i = 3 then TASK_APPLY_FERTILIZER
     else if i = 4 then TASK_HARVEST else if i = 5 then TASK_SELL_CROP else if i = 6 then TASK_ADD_FRIEND
     else if i = 7 then TASK_STEAL_CROP else if i = 8 then TASK_APPLY_PEST_TO_FRIEND else TASK_METRIC_UNSPECIFIED)"

definition scaled_value :: "int option \<Rightarrow> int" where
  "scaled_value v = (case v of None \<Rightarrow> 0 | Some x \<Rightarrow> x)"

definition plotFromRecord :: "plot_record \<Rightarrow> plot" where
  "plotFromRecord r = \<lparr>pl_id = pr_plot_id r, pl_state = plotStateFromRecord (pr_state r), pl_crop_id = pr_crop_id r,
     pl_crop_item_id = pr_crop_item_id r, pl_crop_config_version = pr_crop_config_version r,
     pl_planted_at_ms = pr_planted_at_ms r, pl_maturity_scaled9 = scaled_value (pr_maturity_value r),
     pl_base_rate_scaled6 = scaled_value (pr_base_growth_rate r), pl_base_yield = pr_base_yield r,
     pl_stolen_quantity = pr_stolen_quantity r, pl_settled_scaled9 = scaled_value (pr_settled_growth_value r),
     pl_last_settled_at_ms = pr_last_settled_at_ms r, pl_estimated_mature_at_ms = pr_estimated_mature_at_ms r,
     pl_fertilizer_effect = pr_fertilizer_effect r, pl_pest_effect = pr_pest_effect r,
     pl_steal_count = pr_steal_count r, pl_steal_quantity = pr_steal_quantity r,
     pl_max_steal_times = pr_max_steal_times r, pl_protected_owner_yield = pr_protected_owner_yield r,
     pl_steal_visitor_ids = pr_steal_visitor_ids r\<rparr>"

definition plotRecord :: "plot \<Rightarrow> checkpoint_error + plot_record" where
  "plotRecord p =
     (if pl_id p = 0 then Inl (CheckpointError ''state contains invalid plot'')
      else let scaled = (\<lambda>v. if pl_state p = GROWING \<or> pl_state p = MATURE then Some v else None)
      in Inr \<lparr>pr_plot_id = pl_id p, pr_state = plotStateToRecord (pl_state p), pr_crop_id = pl_crop_id p,
        pr_crop_item_id = pl_crop_item_id p, pr_crop_config_version = pl_crop_config_version p,
        pr_planted_at_ms = pl_planted_at_ms p, pr_maturity_value = scaled (pl_maturity_scaled9 p),
        pr_base_growth_rate = scaled (pl_base_rate_scaled6 p), pr_base_yield = pl_base_yield p,
        pr_stolen_quantity = pl_stolen_quantity p, pr_settled_growth_value = scaled (pl_settled_scaled9 p),
        pr_last_settled_at_ms = pl_last_settled_at_ms p, pr_estimated_mature_at_ms = pl_estimated_mature_at_ms p,
        pr_fertilizer_effect = pl_fertilizer_effect p, pr_pest_effect = pl_pest_effect p,
        pr_steal_count = pl_steal_count p, pr_steal_quantity = pl_steal_quantity p,
        pr_max_steal_times = pl_max_steal_times p, pr_protected_owner_yield = pl_protected_owner_yield p,
        pr_steal_visitor_ids = pl_steal_visitor_ids p\<rparr>)"

text \<open>
  The loops over inventory, plots and tasks after validation repeat some of its checks and fill the
  maps and the list of the state.
\<close>

fun load_inventory :: "(u32 \<times> u32) list \<Rightarrow> (u32, u32) fmap \<Rightarrow> checkpoint_error + (u32, u32) fmap" where
  "load_inventory [] m = Inr m"
| "load_inventory ((itemID, quantity) # items) m =
     (if itemID = 0 \<or> quantity = 0 then Inl (CheckpointError ''checkpoint contains invalid inventory'')
      else if fmlookup m itemID \<noteq> None then Inl (CheckpointError ''checkpoint contains duplicate inventory item'')
      else load_inventory items (fmupd itemID quantity m))"

fun load_plots :: "plot_record list \<Rightarrow> (u32, plot) fmap \<Rightarrow> checkpoint_error + (u32, plot) fmap" where
  "load_plots [] m = Inr m"
| "load_plots (r # rs) m =
     (if pr_plot_id r = 0 then Inl (CheckpointError ''checkpoint contains invalid plot'')
      else if fmlookup m (pr_plot_id r) \<noteq> None then Inl (CheckpointError ''checkpoint contains duplicate plot'')
      else load_plots rs (fmupd (pr_plot_id r) (plotFromRecord r) m))"

definition load_tasks :: "task_record list \<Rightarrow> checkpoint_error + task list" where
  "load_tasks ts = (if \<not> list_all (\<lambda>t. ta_task_id t \<noteq> 0 \<and> ta_target_value t \<noteq> 0) ts
     then Inl (CheckpointError ''checkpoint contains invalid task'')
     else Inr (map (\<lambda>t. \<lparr>tk_id = ta_task_id t, tk_current = ta_current_value t, tk_target = ta_target_value t\<rparr>) ts))"

definition StateFromCheckpoint :: "store_codec \<Rightarrow> checkpoint \<Rightarrow> checkpoint_error + state" where
  "StateFromCheckpoint D c =
     (case ValidateCheckpoint D c of Some e \<Rightarrow> Inl e
      | None \<Rightarrow>
        let ch = the (ck_current_chapter c)
        in case load_inventory (ck_inventory c) fmempty of Inl e \<Rightarrow> Inl e
        | Inr inventory \<Rightarrow> (case load_plots (ck_plots c) fmempty of Inl e \<Rightarrow> Inl e
        | Inr plots \<Rightarrow> (case load_tasks (cr_tasks ch) of Inl e \<Rightarrow> Inl e
        | Inr tasks \<Rightarrow> Inr
          \<lparr>st_player_id = ck_player_id c, st_owner_epoch = ck_owner_epoch c, st_player_seq = ck_player_seq c,
           st_checkpoint_revision = ck_checkpoint_revision c, st_coins = ck_coin_balance c,
           st_inventory = inventory, st_plots = plots, st_chapter_id = cr_chapter_id ch,
           st_chapter_config_version = cr_chapter_config_version ch,
           st_chapter = chapterStatusFromRecord (cr_status ch), st_chapter_activated_at_ms = cr_activated_at_ms ch,
           st_tasks = tasks, st_config_version = ck_last_applied_config_version c,
           st_created_at_ms = ck_created_at_ms c, st_updated_at_ms = ck_updated_at_ms c,
           st_recent_results = ck_recent_results c, st_pending_outbox = ck_pending_outbox c,
           st_friend_actions = ck_friend_actions c, st_friend_reservations = ck_friend_reservations c,
           st_friend_receipts = ck_friend_receipts c, st_friend_task_credits = ck_friend_task_credits c,
           st_mail_claim_receipts = ck_mail_claim_receipts c, st_pet_state = ck_pet_state c,
           st_career = ck_career c, st_crop_compendium = map_option normalizeCompendium (ck_crop_compendium c)\<rparr>)))"

text \<open>\<open>normalizePetState\<close>: sort the owned pets and drop repetitions.\<close>

fun drop_repeats :: "bool \<Rightarrow> u32 \<Rightarrow> u32 list \<Rightarrow> u32 list" where
  "drop_repeats first prev [] = []"
| "drop_repeats first prev (x # xs) =
     (if \<not> first \<and> x = prev then drop_repeats False prev xs else x # drop_repeats False x xs)"

definition normalizePetState :: "pet_record \<Rightarrow> pet_record" where
  "normalizePetState p = p\<lparr>pet_owned_ids := drop_repeats True 0 (sort (pet_owned_ids p))\<rparr>"

definition role_code :: "receipt_role \<Rightarrow> nat" where
  "role_code r = (case r of RECEIPT_ROLE_UNSPECIFIED \<Rightarrow> 0 | RECEIPT_VISITOR \<Rightarrow> 1 | RECEIPT_OWNER \<Rightarrow> 2)"

definition task_record_of :: "u64 \<Rightarrow> task \<Rightarrow> task_record" where
  "task_record_of cv t = \<lparr>ta_task_id = tk_id t, ta_task_config_version = cv, ta_metric = taskMetric (tk_id t),
     ta_current_value = tk_current t, ta_target_value = tk_target t, ta_completed = (tk_current t \<ge> tk_target t)\<rparr>"

text \<open>\<open>Record\<close> of every plot in ascending order; it fails for a plot without identifier.\<close>

fun plot_records :: "plot list \<Rightarrow> checkpoint_error + plot_record list" where
  "plot_records [] = Inr []"
| "plot_records (p # ps) = (case plotRecord p of Inl e \<Rightarrow> Inl e
     | Inr r \<Rightarrow> (case plot_records ps of Inl e \<Rightarrow> Inl e | Inr rs \<Rightarrow> Inr (r # rs)))"

definition checkpoint_of :: "state \<Rightarrow> plot_record list \<Rightarrow> checkpoint" where
  "checkpoint_of s plots =
     \<lparr>ck_schema_version = (if st_friend_actions s \<noteq> None then CheckpointSchemaVersion else CheckpointSchemaVersionV1),
      ck_player_id = st_player_id s, ck_logical_shard_id = ShardForPlayer (st_player_id s),
      ck_owner_epoch = st_owner_epoch s, ck_player_seq = st_player_seq s,
      ck_checkpoint_revision = st_checkpoint_revision s, ck_coin_balance = st_coins s,
      ck_inventory = map (\<lambda>i. (i, map_get (st_inventory s) i)) (map_keys (st_inventory s)), ck_plots = plots,
      ck_current_chapter = Some \<lparr>cr_chapter_id = st_chapter_id s,
        cr_chapter_config_version = st_chapter_config_version s, cr_status = chapterStatusToRecord (st_chapter s),
        cr_activated_at_ms = st_chapter_activated_at_ms s, cr_claimed_at_ms = None,
        cr_tasks = map (task_record_of (st_config_version s)) (sort_key tk_id (st_tasks s)), cr_next_chapter_id = None\<rparr>,
      ck_recent_results = st_recent_results s,
      ck_pending_outbox = sort_key po_created_at_ms (sort_key po_event_id (st_pending_outbox s)),
      ck_last_applied_config_version = st_config_version s, ck_created_at_ms = st_created_at_ms s,
      ck_updated_at_ms = st_updated_at_ms s, ck_friend_actions = st_friend_actions s,
      ck_friend_reservations = sort_key fr_interaction_id (st_friend_reservations s),
      ck_friend_receipts = sort_key rc_interaction_id (sort_key (\<lambda>r. role_code (rc_role r)) (st_friend_receipts s)),
      ck_friend_task_credits = sort_key fst (st_friend_task_credits s),
      ck_pet_state = map_option normalizePetState (st_pet_state s), ck_career = st_career s,
      ck_crop_compendium = map_option normalizeCompendium (st_crop_compendium s),
      ck_mail_claim_receipts = sort_key mcr_mail_id (sort_key mcr_claim_id (st_mail_claim_receipts s))\<rparr>"

definition Checkpoint_of :: "store_codec \<Rightarrow> state \<Rightarrow> checkpoint_error + checkpoint" where
  "Checkpoint_of D s =
     (if list_ex (\<lambda>i. i = 0 \<or> map_get (st_inventory s) i = 0) (map_keys (st_inventory s))
      then Inl (CheckpointError ''state contains invalid inventory'')
      else case plot_records (map (\<lambda>i. the (fmlookup (st_plots s) i)) (map_keys (st_plots s))) of
        Inl e \<Rightarrow> Inl e
      | Inr plots \<Rightarrow>
          let c = checkpoint_of s plots
          in case ValidateCheckpoint D c of Some e \<Rightarrow> Inl e | None \<Rightarrow> Inr c)"

section \<open>Blobs and the initial checkpoint\<close>

definition equalBytes :: "bytes \<Rightarrow> bytes \<Rightarrow> bool" where
  "equalBytes l r \<longleftrightarrow> (if length l \<noteq> length r then False else foldr (\<lambda>(x, y) d. d OR (x XOR y)) (zip l r) 0 = 0)"

definition MarshalCheckpoint :: "store_codec \<Rightarrow> checkpoint \<Rightarrow> checkpoint_error + bytes \<times> bytes" where
  "MarshalCheckpoint D c = (case ValidateCheckpoint D c of Some e \<Rightarrow> Inl e
     | None \<Rightarrow> let body = marshal_checkpoint D c
        in if length body > 4194304 then Inl (CheckpointError ''checkpoint exceeds 4 MiB'') else Inr (body, sha256 body))"

definition UnmarshalCheckpoint :: "store_codec \<Rightarrow> bytes \<Rightarrow> bytes \<Rightarrow> checkpoint_error + checkpoint" where
  "UnmarshalCheckpoint D body digest =
     (if body = [] \<or> length body > 4194304 then Inl (CheckpointError ''checkpoint blob size is invalid'')
      else if length digest \<noteq> 32 \<or> \<not> equalBytes (sha256 body) digest
      then Inl (CheckpointError ''checkpoint SHA-256 mismatch'')
      else case unmarshal_checkpoint D body of None \<Rightarrow> Inl (CheckpointError ''unmarshal checkpoint'')
      | Some c \<Rightarrow> (case ValidateCheckpoint D c of Some e \<Rightarrow> Inl e | None \<Rightarrow> Inr c))"

definition empty_plot_record :: "u32 \<Rightarrow> plot_record" where
  "empty_plot_record i = \<lparr>pr_plot_id = i, pr_state = REC_EMPTY, pr_crop_id = 0, pr_crop_item_id = 0,
     pr_crop_config_version = 0, pr_planted_at_ms = 0, pr_maturity_value = None, pr_base_growth_rate = None,
     pr_base_yield = 0, pr_stolen_quantity = 0, pr_settled_growth_value = None, pr_last_settled_at_ms = 0,
     pr_estimated_mature_at_ms = None, pr_fertilizer_effect = None, pr_pest_effect = None, pr_steal_count = 0,
     pr_steal_quantity = 0, pr_max_steal_times = 0, pr_protected_owner_yield = 0, pr_steal_visitor_ids = []\<rparr>"

definition initialPlotRecords :: "plot_record list" where
  "initialPlotRecords = map empty_plot_record initial_plot_ids"

definition initialChapter :: "int \<Rightarrow> chapter_record" where
  "initialChapter nowMS = \<lparr>cr_chapter_id = InitialChapterID, cr_chapter_config_version = ServerConfigVersion,
     cr_status = REC_IN_PROGRESS, cr_activated_at_ms = nowMS, cr_claimed_at_ms = None,
     cr_tasks = map (\<lambda>(i, m, t). \<lparr>ta_task_id = i, ta_task_config_version = ServerConfigVersion, ta_metric = m,
         ta_current_value = 0, ta_target_value = t, ta_completed = False\<rparr>)
       [(1, TASK_BUY_SEEDS, 3), (2, TASK_PLANT, 1), (3, TASK_APPLY_FERTILIZER, 1), (4, TASK_HARVEST, 1),
        (5, TASK_SELL_CROP, 1)],
     cr_next_chapter_id = None\<rparr>"

definition NewInitialCheckpoint :: "u64 \<Rightarrow> int \<Rightarrow> checkpoint" where
  "NewInitialCheckpoint playerID nowMS =
     \<lparr>ck_schema_version = CheckpointSchemaVersionV1, ck_player_id = playerID,
      ck_logical_shard_id = ShardForPlayer playerID, ck_owner_epoch = LocalOwnerEpoch, ck_player_seq = 0,
      ck_checkpoint_revision = 1, ck_coin_balance = InitialCoinBalance, ck_inventory = [(BasicFertilizerID, 1)],
      ck_plots = initialPlotRecords, ck_current_chapter = Some (initialChapter nowMS), ck_recent_results = [],
      ck_pending_outbox = [], ck_last_applied_config_version = ServerConfigVersion, ck_created_at_ms = nowMS,
      ck_updated_at_ms = nowMS, ck_friend_actions = None, ck_friend_reservations = [], ck_friend_receipts = [],
      ck_friend_task_credits = [], ck_pet_state = None, ck_career = None, ck_crop_compendium = None,
      ck_mail_claim_receipts = []\<rparr>"

section \<open>What the checks accept\<close>

lemma ascending_ids_False:
  assumes "\<forall>x \<in> set seen. x \<le> previous"
  shows "ascending_ids what False previous seen xs = None \<longleftrightarrow> sorted_wrt (<) (previous # xs) \<and> 0 \<notin> set xs"
  using assms
proof (induction xs arbitrary: previous seen)
  case (Cons x xs)
  show ?case
  proof (cases "x \<noteq> 0 \<and> previous < x")
    case True
    then have "x \<notin> set seen" using Cons.prems by auto
    moreover have "\<forall>y \<in> set (x # seen). y \<le> x" using Cons.prems True by auto
    ultimately show ?thesis using Cons.IH [of "x # seen" x] True by (auto dest: order.strict_trans)
  qed (auto simp: not_less)
qed simp

lemma ascending_ids_iff: "ascending_ids what True 0 [] xs = None \<longleftrightarrow> ids_ok xs"
proof (cases xs)
  case (Cons x ys)
  have "ascending_ids what False x [x] ys = None \<longleftrightarrow> sorted_wrt (<) (x # ys) \<and> 0 \<notin> set ys"
    by (rule ascending_ids_False) simp
  then show ?thesis by (auto simp: Cons ids_ok_def)
qed (simp add: ids_ok_def)

lemma validateCompendium_None: "validateCompendium c = None \<longleftrightarrow> (case c of None \<Rightarrow> True | Some ids \<Rightarrow> ids_ok ids)"
  by (simp add: validateCompendium_def ascending_ids_iff split: option.splits)

definition pet_storable :: "pet_record option \<Rightarrow> bool" where
  "pet_storable pet = (case pet of None \<Rightarrow> True | Some p \<Rightarrow> 0 \<le> pet_food_active_until_ms p \<and> ids_ok (pet_owned_ids p) \<and>
     (pet_active_id p = 0 \<or> pet_active_id p \<in> set (pet_owned_ids p)))"

lemma validatePetState_None: "validatePetState pet = None \<longleftrightarrow> pet_storable pet"
proof (cases pet)
  case (Some p)
  then show ?thesis
    using ascending_ids_iff [of "''checkpoint owned_pet_ids''" "pet_owned_ids p"]
    by (auto simp: validatePetState_def pet_storable_def not_less split: option.splits)
qed (simp add: validatePetState_def pet_storable_def)

lemma check_inventory_None:
  "check_inventory seen items = None \<longleftrightarrow> (\<forall>(i, q) \<in> set items. i \<noteq> 0 \<and> q \<noteq> 0 \<and> q \<le> 300 \<and> i \<notin> set seen) \<and>
     distinct (map fst items)"
proof (induction items arbitrary: seen)
  case (Cons a items)
  then show ?case by (cases a) (auto simp: not_less rev_image_eqI)
qed simp

lemma check_plots_None:
  "check_plots seen rs = None \<longleftrightarrow> (\<forall>r \<in> set rs. validatePlotRecord r = None \<and> pr_plot_id r \<notin> set seen) \<and>
     distinct (map pr_plot_id rs)"
proof (induction rs arbitrary: seen)
  case (Cons r rs)
  then show ?case by (cases "validatePlotRecord r") (auto simp: rev_image_eqI)
qed simp

lemma outbox_before_trans: "outbox_before p q \<Longrightarrow> outbox_before q r \<Longrightarrow> outbox_before p r"
  by (auto simp: outbox_before_def)

lemma check_outbox_None:
  "check_outbox D c seen previous ps = None \<longleftrightarrow>
     (\<forall>p \<in> set ps. validatePendingOutbox D c p = None \<and> po_event_id p \<notin> set seen) \<and> distinct (map po_event_id ps) \<and>
     sorted_wrt outbox_before (case previous of None \<Rightarrow> ps | Some q \<Rightarrow> q # ps)"
proof (induction ps arbitrary: seen previous)
  case (Cons p ps)
  show ?case
  proof (cases previous)
    case None
    then show ?thesis using Cons [of "po_event_id p # seen" "Some p"] by (auto simp: rev_image_eqI split: option.splits)
  next
    case (Some q)
    have "outbox_before q p \<Longrightarrow> sorted_wrt outbox_before (p # ps) \<longleftrightarrow> sorted_wrt outbox_before (q # p # ps)"
      using outbox_before_trans by auto
    then show ?thesis using Some Cons [of "po_event_id p # seen" "Some p"] by (auto simp: rev_image_eqI split: option.splits)
  qed
qed (auto split: option.splits)

lemma load_inventory_eq:
  assumes "\<forall>(i, q) \<in> set items. i \<noteq> 0 \<and> q \<noteq> 0 \<and> fmlookup m i = None" "distinct (map fst items)"
  shows "\<exists>m'. load_inventory items m = Inr m' \<and> (\<forall>i. fmlookup m' i = (case map_of items i of None \<Rightarrow> fmlookup m i | Some q \<Rightarrow> Some q))"
  using assms
proof (induction items arbitrary: m)
  case (Cons a items)
  obtain i q where a: "a = (i, q)" by fastforce
  have "map_of items i = None" using Cons.prems(2) a by (auto simp: map_of_eq_None_iff)
  moreover obtain m' where "load_inventory items (fmupd i q m) = Inr m'"
    "\<forall>j. fmlookup m' j = (case map_of items j of None \<Rightarrow> fmlookup (fmupd i q m) j | Some q \<Rightarrow> Some q)"
    using Cons.IH [of "fmupd i q m"] Cons.prems a by force
  ultimately show ?case using Cons.prems a by (auto split: option.splits)
qed simp

lemma load_plots_eq:
  assumes "\<forall>r \<in> set rs. pr_plot_id r \<noteq> 0 \<and> fmlookup m (pr_plot_id r) = None" "distinct (map pr_plot_id rs)"
  shows "\<exists>m'. load_plots rs m = Inr m' \<and> (\<forall>i. fmlookup m' i =
    (case map_of (map (\<lambda>r. (pr_plot_id r, plotFromRecord r)) rs) i of None \<Rightarrow> fmlookup m i | Some p \<Rightarrow> Some p))"
  using assms
proof (induction rs arbitrary: m)
  case (Cons r rs)
  let ?m = "fmupd (pr_plot_id r) (plotFromRecord r) m"
  have "map_of (map (\<lambda>r. (pr_plot_id r, plotFromRecord r)) rs) (pr_plot_id r) = None"
    using Cons.prems(2) by (auto simp: map_of_eq_None_iff)
  moreover obtain m' where "load_plots rs ?m = Inr m'" "\<forall>i. fmlookup m' i =
      (case map_of (map (\<lambda>r. (pr_plot_id r, plotFromRecord r)) rs) i of None \<Rightarrow> fmlookup ?m i | Some p \<Rightarrow> Some p)"
    using Cons.IH [of ?m] Cons.prems by force
  ultimately show ?case using Cons.prems by (auto split: option.splits)
qed simp

section \<open>Plots\<close>

definition plot_storable :: "plot \<Rightarrow> bool" where
  "plot_storable p = (case plotRecord p of Inl _ \<Rightarrow> False | Inr r \<Rightarrow> validatePlotRecord r = None \<and> plotFromRecord r = p)"

lemma plot_states [simp]:
  "plotStateFromRecord (plotStateToRecord x) = x" "plotStateToRecord (plotStateFromRecord y) = y"
  by (cases x; simp add: plotStateFromRecord_def plotStateToRecord_def)
    (cases y; simp add: plotStateFromRecord_def plotStateToRecord_def)

lemma chapter_statuses [simp]:
  "chapterStatusFromRecord (chapterStatusToRecord x) = x" "chapterStatusToRecord (chapterStatusFromRecord y) = y"
  by (cases x; simp add: chapterStatusFromRecord_def chapterStatusToRecord_def)
    (cases y; simp add: chapterStatusFromRecord_def chapterStatusToRecord_def)

text \<open>A record that passes validation survives being loaded and stored.\<close>

lemma plotRecord_fromRecord:
  assumes "validatePlotRecord r = None"
  shows "plotRecord (plotFromRecord r) = Inr r"
proof -
  have "pr_plot_id r \<noteq> 0" using assms by (auto simp: validatePlotRecord_def)
  moreover have "(if pr_state r = REC_GROWING \<or> pr_state r = REC_MATURE then Some (scaled_value v) else None) = v"
    if "v \<in> {pr_maturity_value r, pr_base_growth_rate r, pr_settled_growth_value r}" for v
    using assms that
    by (cases "pr_state r") (auto simp: validatePlotRecord_def scaled_bad_def scaled_value_def split: if_splits option.splits)
  ultimately show ?thesis
    by (cases "pr_state r") (auto simp: plotRecord_def plotFromRecord_def plotStateFromRecord_def plotStateToRecord_def Let_def
        intro!: plot_record.equality)
qed

lemma loaded_plot_storable:
  assumes "validatePlotRecord r = None"
  shows "plot_storable (plotFromRecord r)"
  using plotRecord_fromRecord [OF assms] assms by (simp add: plot_storable_def)

lemma effect_ok_validates: "effect_ok kind planted e \<Longrightarrow> validateTimedEffect e kind planted = None"
  by (auto simp: effect_ok_def validateTimedEffect_def split: option.splits)

lemma plot_ok_storable:
  assumes "plot_ok p"
  shows "plot_storable p"
proof (cases "pl_state p")
  case PLOT_UNSPECIFIED
  then show ?thesis using assms by (simp add: plot_ok_def)
next
  case EMPTY
  then have "p = empty_plot (pl_id p)" "pl_id p \<noteq> 0" using assms by (simp_all add: plot_ok_def)
  then obtain i where "p = empty_plot i" "i \<noteq> 0" by blast
  then show ?thesis
    by (simp add: plot_storable_def plotRecord_def plotFromRecord_def empty_plot_def plotStateToRecord_def
        plotStateFromRecord_def scaled_value_def validatePlotRecord_def Let_def)
next
  case GROWING
  then have "growing_ok p" "pl_id p \<noteq> 0" using assms by (simp_all add: plot_ok_def)
  then show ?thesis
    using GROWING effect_ok_validates
    by (auto simp: plot_storable_def plotRecord_def plotFromRecord_def plotStateToRecord_def growing_ok_def
        plotStateFromRecord_def scaled_value_def validatePlotRecord_def Let_def scaled_bad_def validCropIdentity_def
        crop_identity_def growing_fields_ok_def)
next
  case MATURE
  then have "mature_ok p" "pl_id p \<noteq> 0" using assms by (simp_all add: plot_ok_def)
  then show ?thesis
    using MATURE
    by (auto simp: plot_storable_def plotRecord_def plotFromRecord_def plotStateToRecord_def mature_ok_def
        plotStateFromRecord_def scaled_value_def validatePlotRecord_def Let_def scaled_bad_def validCropIdentity_def
        crop_identity_def)
next
  case NEED_CLEANUP
  then have "cleanup_ok p" "pl_id p \<noteq> 0" using assms by (simp_all add: plot_ok_def)
  then show ?thesis
    using NEED_CLEANUP
    by (auto simp: plot_storable_def plotRecord_def plotFromRecord_def plotStateToRecord_def cleanup_ok_def
        plotStateFromRecord_def scaled_value_def validatePlotRecord_def Let_def scaled_bad_def validCropIdentity_def
        crop_identity_def)
qed

section \<open>Storable states\<close>

definition outbox_storable :: "store_codec \<Rightarrow> state \<Rightarrow> bool" where
  "outbox_storable D s \<longleftrightarrow> (\<forall>p \<in> set (st_pending_outbox s). validatePendingOutbox D (checkpoint_of s []) p = None) \<and>
     distinct (map po_event_id (st_pending_outbox s))"

definition storable :: "store_codec \<Rightarrow> state \<Rightarrow> bool" where
  "storable D s \<longleftrightarrow> st_player_id s \<noteq> 0 \<and> st_owner_epoch s \<noteq> 0 \<and> st_checkpoint_revision s \<noteq> 0 \<and> 0 \<le> st_coins s \<and>
     st_chapter_id s \<noteq> 0 \<and> st_chapter_config_version s \<noteq> 0 \<and> 0 < st_chapter_activated_at_ms s \<and>
     st_chapter s \<noteq> CHAPTER_UNSPECIFIED \<and> st_config_version s \<noteq> 0 \<and> 0 < st_created_at_ms s \<and>
     st_created_at_ms s \<le> st_updated_at_ms s \<and> map_len (st_inventory s) \<le> 100 \<and> inventory_ok (st_inventory s) \<and>
     (\<forall>i p. fmlookup (st_plots s) i = Some p \<longrightarrow> pl_id p = i \<and> plot_storable p) \<and>
     (\<forall>t \<in> set (st_tasks s). tk_id t \<noteq> 0 \<and> tk_target t \<noteq> 0) \<and> outbox_storable D s \<and> pet_storable (st_pet_state s) \<and>
     (case st_crop_compendium s of None \<Rightarrow> True | Some ids \<Rightarrow> ids_ok ids)"

text \<open>What a round trip through the store may change: the order of the lists the checkpoint sorts.\<close>

definition canonical :: "state \<Rightarrow> state" where
  "canonical s = s\<lparr>st_tasks := sort_key tk_id (st_tasks s),
     st_pending_outbox := sort_key po_created_at_ms (sort_key po_event_id (st_pending_outbox s)),
     st_friend_reservations := sort_key fr_interaction_id (st_friend_reservations s),
     st_friend_receipts := sort_key rc_interaction_id (sort_key (\<lambda>r. role_code (rc_role r)) (st_friend_receipts s)),
     st_friend_task_credits := sort_key fst (st_friend_task_credits s),
     st_mail_claim_receipts := sort_key mcr_mail_id (sort_key mcr_claim_id (st_mail_claim_receipts s))\<rparr>"

lemma insort_key_lex:
  assumes "sorted_wrt (\<lambda>p q. f p < f q \<or> f p = f q \<and> g p < g q) ys" "\<forall>y \<in> set ys. g x < g y"
  shows "sorted_wrt (\<lambda>p q. f p < f q \<or> f p = f q \<and> g p < g q) (insort_key f x ys)"
  using assms
proof (induction ys)
  case (Cons y ys)
  then show ?case by (auto simp: set_insort_key not_le dest: order.strict_trans1 order.strict_trans)
qed simp

lemma sort_key_lex:
  assumes "distinct (map g xs)"
  shows "sorted_wrt (\<lambda>p q. f p < f q \<or> f p = f q \<and> g p < g q) (sort_key f (sort_key g xs))"
proof -
  have "sorted_wrt (\<lambda>p q. f p < f q \<or> f p = f q \<and> g p < g q) (sort_key f ys)" if "sorted_wrt (\<lambda>p q. g p < g q) ys" for ys
    using that
  proof (induction ys)
    case (Cons y ys)
    then show ?case using insort_key_lex [of f g "sort_key f ys" y] by simp
  qed simp
  moreover have "distinct (map g (sort_key g xs))" using assms by (simp add: distinct_map)
  then have "sorted_wrt (<) (map g (sort_key g xs))" by (simp add: strict_sorted_iff)
  ultimately show ?thesis by (simp add: sorted_wrt_map)
qed

lemma validate_mail_cong:
  assumes "ck_player_id c = ck_player_id c'"
  shows "validateRewardMailOutbox D c p = validateRewardMailOutbox D c' p" "validateGiftMailOutbox D c p = validateGiftMailOutbox D c' p"
  using assms by (simp_all add: validateRewardMailOutbox_def validateGiftMailOutbox_def cong: option.case_cong)

lemma validatePendingOutbox_cong:
  assumes "ck_player_id c = ck_player_id c'" "ck_player_seq c = ck_player_seq c'"
  shows "validatePendingOutbox D c p = validatePendingOutbox D c' p"
  unfolding validatePendingOutbox_def validate_mail_cong [OF assms(1)] assms ..

lemma drop_repeats_sorted:
  "sorted_wrt (<) xs \<Longrightarrow> (\<not> first \<Longrightarrow> prev \<notin> set xs) \<Longrightarrow> drop_repeats first prev xs = xs"
proof (induction xs arbitrary: first prev)
  case (Cons x xs)
  have "drop_repeats False x xs = xs" using Cons.IH [of False x] Cons.prems(1) by auto
  then show ?case using Cons.prems(2) by auto
qed simp

lemma normalizePetState_id:
  assumes "ids_ok (pet_owned_ids p)"
  shows "normalizePetState p = p"
proof -
  have "sorted_wrt (<) (pet_owned_ids p)" using assms by (simp add: ids_ok_def)
  then have "drop_repeats True 0 (pet_owned_ids p) = pet_owned_ids p" "sort (pet_owned_ids p) = pet_owned_ids p"
    using drop_repeats_sorted [of "pet_owned_ids p" True 0] by (simp_all add: strict_sorted_iff sorted_sort_id)
  then show ?thesis by (simp add: normalizePetState_def)
qed

lemma plot_records_eq:
  "\<forall>p \<in> set ps. plot_storable p \<Longrightarrow> plot_records ps = Inr (map (\<lambda>p. projr (plotRecord p)) ps)"
  by (induction ps) (auto simp: plot_storable_def split: sum.splits)

lemma plot_storable_record:
  assumes "plot_storable p"
  shows "validatePlotRecord (projr (plotRecord p)) = None" "plotFromRecord (projr (plotRecord p)) = p"
    "pr_plot_id (projr (plotRecord p)) = pl_id p" "pl_id p \<noteq> 0"
  using assms by (auto simp: plot_storable_def plotRecord_def Let_def split: sum.splits if_splits)

abbreviation records_of :: "state \<Rightarrow> plot_record list" where
  "records_of s \<equiv> map (\<lambda>i. projr (plotRecord (the (fmlookup (st_plots s) i)))) (map_keys (st_plots s))"

lemma storable_plots:
  assumes "storable D s" "i \<in> set (map_keys (st_plots s))"
  shows "plot_storable (the (fmlookup (st_plots s) i))" "pl_id (the (fmlookup (st_plots s) i)) = i"
proof -
  obtain p where "fmlookup (st_plots s) i = Some p" using assms(2) by (auto simp: fmlookup_dom_iff)
  then show "plot_storable (the (fmlookup (st_plots s) i))" "pl_id (the (fmlookup (st_plots s) i)) = i"
    using assms(1) by (auto simp: storable_def)
qed

lemma storable_records:
  assumes "storable D s"
  shows "plot_records (map (\<lambda>i. the (fmlookup (st_plots s) i)) (map_keys (st_plots s))) = Inr (records_of s)"
    "r \<in> set (records_of s) \<Longrightarrow> validatePlotRecord r = None \<and> pr_plot_id r \<noteq> 0"
    "map pr_plot_id (records_of s) = map_keys (st_plots s)" "map plotFromRecord (records_of s) =
       map (\<lambda>i. the (fmlookup (st_plots s) i)) (map_keys (st_plots s))"
proof -
  note p = storable_plots [OF assms]
  show "plot_records (map (\<lambda>i. the (fmlookup (st_plots s) i)) (map_keys (st_plots s))) = Inr (records_of s)"
    using plot_records_eq [of "map (\<lambda>i. the (fmlookup (st_plots s) i)) (map_keys (st_plots s))"] p(1) by (auto simp: comp_def)
  show "r \<in> set (records_of s) \<Longrightarrow> validatePlotRecord r = None \<and> pr_plot_id r \<noteq> 0"
    using plot_storable_record(1,3,4) [OF p(1)] by auto
  show "map pr_plot_id (records_of s) = map_keys (st_plots s)"
    unfolding map_map comp_def by (rule map_idI) (use plot_storable_record(3) [OF p(1)] p(2) in simp)
  show "map plotFromRecord (records_of s) = map (\<lambda>i. the (fmlookup (st_plots s) i)) (map_keys (st_plots s))"
    using p plot_storable_record(2) by (simp add: comp_def)
qed

lemma storable_items:
  assumes "storable D s" "i |\<in>| fmdom (st_inventory s)"
  shows "i \<noteq> 0" "map_get (st_inventory s) i \<noteq> 0" "map_get (st_inventory s) i \<le> 300"
    "fmlookup (st_inventory s) i = Some (map_get (st_inventory s) i)"
proof -
  obtain q where q: "fmlookup (st_inventory s) i = Some q" using assms(2) by (auto simp: fmlookup_dom_iff)
  then have "i \<noteq> 0 \<and> 0 < q \<and> q \<le> 300" using assms(1) by (auto simp: storable_def inventory_ok_def)
  then show "i \<noteq> 0" "map_get (st_inventory s) i \<noteq> 0" "map_get (st_inventory s) i \<le> 300"
    "fmlookup (st_inventory s) i = Some (map_get (st_inventory s) i)" using q by (auto simp: map_get_def)
qed

lemma storable_validates:
  assumes st: "storable D s"
  shows "ValidateCheckpoint D (checkpoint_of s (records_of s)) = None"
proof -
  let ?c = "checkpoint_of s (records_of s)"
  have h: "check_header ?c = None"
    using st by (cases "st_chapter s") (auto simp: storable_def check_header_def checkpoint_of_def Let_def map_len_def
        map_keys_def chapterStatusToRecord_def CheckpointSchemaVersion_def CheckpointSchemaVersionV1_def
        sorted_list_of_fset.rep_eq fcard.rep_eq)
  have i: "check_inventory [] (ck_inventory ?c) = None"
    using storable_items [OF st] by (auto simp: check_inventory_None checkpoint_of_def comp_def)
  have p: "check_plots [] (ck_plots ?c) = None"
    unfolding check_plots_None using storable_records(2,3) [OF st] by (auto simp: checkpoint_of_def)
  have o: "check_outbox D ?c [] None (ck_pending_outbox ?c) = None"
  proof -
    have "validatePendingOutbox D ?c p = validatePendingOutbox D (checkpoint_of s []) p" for p
      by (rule validatePendingOutbox_cong) (simp_all add: checkpoint_of_def)
    moreover have "distinct (map po_event_id (st_pending_outbox s))" using st by (simp add: storable_def outbox_storable_def)
    note sort_key_lex [OF this, of po_created_at_ms] this
    moreover have "distinct (map po_event_id (sort_key po_created_at_ms (sort_key po_event_id (st_pending_outbox s))))"
      using \<open>distinct (map po_event_id (st_pending_outbox s))\<close> by (simp add: distinct_map)
    ultimately show ?thesis
      using st unfolding check_outbox_None
      by (auto simp: checkpoint_of_def storable_def outbox_storable_def outbox_before_def [abs_def])
  qed
  have t: "validatePetState (ck_pet_state ?c) = None"
    using st normalizePetState_id by (auto simp: validatePetState_None pet_storable_def storable_def checkpoint_of_def split: option.splits)
  have k: "validateCompendium (ck_crop_compendium ?c) = None"
    using st normalizeCompendium_id by (auto simp: validateCompendium_None storable_def checkpoint_of_def split: option.splits)
  show ?thesis by (simp add: ValidateCheckpoint_def first_error_None h i p o t k validateCareer_def)
qed

lemma storable_loads:
  assumes st: "storable D s"
  shows "load_inventory (ck_inventory (checkpoint_of s (records_of s))) fmempty = Inr (st_inventory s)"
    "load_plots (records_of s) fmempty = Inr (st_plots s)"
    "load_tasks (map (task_record_of v) (sort_key tk_id (st_tasks s))) = Inr (sort_key tk_id (st_tasks s))"
proof -
  let ?items = "map (\<lambda>i. (i, map_get (st_inventory s) i)) (map_keys (st_inventory s))"
  have "\<forall>(i, q) \<in> set ?items. i \<noteq> 0 \<and> q \<noteq> 0 \<and> fmlookup fmempty i = None"
    using storable_items [OF st] by auto
  from load_inventory_eq [OF this] obtain m where m: "load_inventory ?items fmempty = Inr m" and
    "\<forall>i. fmlookup m i = (case map_of ?items i of None \<Rightarrow> fmlookup fmempty i | Some q \<Rightarrow> Some q)" by (auto simp: comp_def)
  then have l: "fmlookup m i = map_of ?items i" for i by (cases "map_of ?items i") auto
  have "m = st_inventory s"
    by (rule fmap_ext) (use storable_items(4) [OF st] fmdom_notD in
        \<open>auto simp: l map_of_map_restrict restrict_map_def\<close>)
  then show "load_inventory (ck_inventory (checkpoint_of s (records_of s))) fmempty = Inr (st_inventory s)"
    using m by (simp add: checkpoint_of_def)
  note r = storable_records [OF st]
  obtain m' where m': "load_plots (records_of s) fmempty = Inr m'" and
    "\<forall>i. fmlookup m' i = (case map_of (map (\<lambda>r. (pr_plot_id r, plotFromRecord r)) (records_of s)) i of
       None \<Rightarrow> fmlookup fmempty i | Some p \<Rightarrow> Some p)"
    using load_plots_eq [of "records_of s" fmempty] r(2,3) by auto
  then have l: "fmlookup m' i = map_of (map (\<lambda>r. (pr_plot_id r, plotFromRecord r)) (records_of s)) i" for i
    by (cases "map_of (map (\<lambda>r. (pr_plot_id r, plotFromRecord r)) (records_of s)) i") auto
  have z: "map (\<lambda>r. (pr_plot_id r, plotFromRecord r)) (records_of s) =
      map (\<lambda>i. (i, the (fmlookup (st_plots s) i))) (map_keys (st_plots s))"
    using r(3,4) by (auto simp: list_eq_iff_nth_eq)
  have "m' = st_plots s"
    by (rule fmap_ext, unfold l z) (auto simp: map_of_map_restrict restrict_map_def fmlookup_dom_iff)
  then show "load_plots (records_of s) fmempty = Inr (st_plots s)" using m' by simp
  have "map (\<lambda>t. \<lparr>tk_id = ta_task_id t, tk_current = ta_current_value t, tk_target = ta_target_value t\<rparr>)
      (map (task_record_of v) ts) = ts" for ts
    by (simp add: comp_def task_record_of_def) (rule map_idI, simp)
  then show "load_tasks (map (task_record_of v) (sort_key tk_id (st_tasks s))) = Inr (sort_key tk_id (st_tasks s))"
    using st by (auto simp: load_tasks_def list_all_iff storable_def task_record_of_def)
qed

lemma storable_round_trip:
  assumes st: "storable D s"
  shows "Checkpoint_of D s = Inr (checkpoint_of s (records_of s))"
    "StateFromCheckpoint D (checkpoint_of s (records_of s)) = Inr (canonical s)"
proof -
  have "\<not> list_ex (\<lambda>i. i = 0 \<or> map_get (st_inventory s) i = 0) (map_keys (st_inventory s))"
    using storable_items [OF st] by (auto simp: list_ex_iff)
  then show "Checkpoint_of D s = Inr (checkpoint_of s (records_of s))"
    using storable_records(1) [OF st] storable_validates [OF st] by (simp add: Checkpoint_of_def)
  have pet: "map_option normalizePetState (st_pet_state s) = st_pet_state s"
    using st normalizePetState_id by (auto simp: storable_def pet_storable_def split: option.splits)
  have comp: "map_option normalizeCompendium (st_crop_compendium s) = st_crop_compendium s"
    using st normalizeCompendium_id by (auto simp: storable_def split: option.splits)
  show "StateFromCheckpoint D (checkpoint_of s (records_of s)) = Inr (canonical s)"
    using storable_validates [OF st] storable_loads(1,2) [OF st] storable_loads(3) [OF st, of "st_config_version s"] pet comp
    by (simp add: StateFromCheckpoint_def checkpoint_of_def canonical_def Let_def)
qed

section \<open>Loaded states\<close>

lemma validates_parts:
  assumes "ValidateCheckpoint D c = None"
  shows "check_header c = None" "check_inventory [] (ck_inventory c) = None" "check_plots [] (ck_plots c) = None"
    "check_outbox D c [] None (ck_pending_outbox c) = None" "pet_storable (ck_pet_state c)"
    "case ck_crop_compendium c of None \<Rightarrow> True | Some ids \<Rightarrow> ids_ok ids"
  using assms unfolding ValidateCheckpoint_def first_error_None
  by (simp_all add: validatePetState_None validateCompendium_None)

lemma header_parts:
  assumes "check_header c = None"
  shows "ck_player_id c \<noteq> 0 \<and> ck_owner_epoch c \<noteq> 0 \<and> ck_checkpoint_revision c \<noteq> 0 \<and> 0 \<le> ck_coin_balance c \<and>
    cr_chapter_id (the (ck_current_chapter c)) \<noteq> 0 \<and> cr_chapter_config_version (the (ck_current_chapter c)) \<noteq> 0 \<and>
    0 < cr_activated_at_ms (the (ck_current_chapter c)) \<and>
    cr_status (the (ck_current_chapter c)) \<noteq> CHAPTER_RECORD_STATUS_UNSPECIFIED \<and>
    ck_last_applied_config_version c \<noteq> 0 \<and> 0 < ck_created_at_ms c \<and> ck_created_at_ms c \<le> ck_updated_at_ms c \<and>
    length (ck_inventory c) \<le> 100"
  using assms unfolding check_header_def first_failure_None by (auto simp: not_le not_less Let_def)

lemma loaded_inventory:
  assumes "check_inventory [] items = None" "length items \<le> 100" "load_inventory items fmempty = Inr m"
  shows "inventory_ok m" "map_len m \<le> 100"
proof -
  have c: "\<forall>(i, q) \<in> set items. i \<noteq> 0 \<and> q \<noteq> 0 \<and> q \<le> 300" "distinct (map fst items)"
    using assms(1) by (auto simp: check_inventory_None)
  then have "\<forall>i. fmlookup m i = (case map_of items i of None \<Rightarrow> fmlookup fmempty i | Some q \<Rightarrow> Some q)"
    using load_inventory_eq [of items fmempty] assms(3) by force
  then have l: "fmlookup m i = map_of items i" for i by (cases "map_of items i") auto
  then show "inventory_ok m" using c(1) by (auto simp: inventory_ok_def word_neq_0_conv [symmetric] dest!: map_of_SomeD)
  have "fset (fmdom m) = fst ` set items"
    using l by (auto simp: fmlookup_dom_iff dom_map_of_conv_image_fst [symmetric])
  then have "map_len m = card (fst ` set items)" by (simp add: map_len_def fcard.rep_eq)
  also have "\<dots> \<le> length items" using card_image_le [of "set items" fst] card_length [of items] by simp
  finally show "map_len m \<le> 100" using assms(2) by simp
qed

lemma loaded_plots:
  assumes "check_plots [] rs = None" "load_plots rs fmempty = Inr m" "fmlookup m i = Some p"
  shows "pl_id p = i \<and> plot_storable p"
proof -
  have c: "\<forall>r \<in> set rs. validatePlotRecord r = None" "distinct (map pr_plot_id rs)"
    using assms(1) by (auto simp: check_plots_None)
  then have "\<forall>r \<in> set rs. pr_plot_id r \<noteq> 0 \<and> fmlookup fmempty (pr_plot_id r) = None"
    by (auto simp: validatePlotRecord_def)
  from load_plots_eq [OF this c(2)] have "fmlookup m i =
      (case map_of (map (\<lambda>r. (pr_plot_id r, plotFromRecord r)) rs) i of None \<Rightarrow> fmlookup fmempty i | Some p \<Rightarrow> Some p)"
    using assms(2) by simp
  then have "map_of (map (\<lambda>r. (pr_plot_id r, plotFromRecord r)) rs) i = Some p"
    using assms(3) by (auto split: option.splits)
  then obtain r where "r \<in> set rs" "i = pr_plot_id r" "p = plotFromRecord r" by (auto dest!: map_of_SomeD)
  then show ?thesis using c(1) loaded_plot_storable by (simp add: plotFromRecord_def)
qed

lemma loaded_storable:
  assumes "StateFromCheckpoint D c = Inr s"
  shows "storable D s"
proof -
  have v: "ValidateCheckpoint D c = None" using assms by (auto simp: StateFromCheckpoint_def split: option.splits)
  note p = validates_parts [OF v]
  let ?ch = "the (ck_current_chapter c)"
  obtain inventory plots tasks where l: "load_inventory (ck_inventory c) fmempty = Inr inventory"
    "load_plots (ck_plots c) fmempty = Inr plots" "load_tasks (cr_tasks ?ch) = Inr tasks"
    using assms v by (auto simp: StateFromCheckpoint_def Let_def split: sum.splits)
  have s: "st_inventory s = inventory" "st_plots s = plots" "st_tasks s = tasks"
    "st_pending_outbox s = ck_pending_outbox c" "st_player_id s = ck_player_id c" "st_player_seq s = ck_player_seq c"
    "st_pet_state s = ck_pet_state c" "st_crop_compendium s = map_option normalizeCompendium (ck_crop_compendium c)"
    "st_owner_epoch s = ck_owner_epoch c" "st_checkpoint_revision s = ck_checkpoint_revision c" "st_coins s = ck_coin_balance c"
    "st_chapter_id s = cr_chapter_id ?ch" "st_chapter_config_version s = cr_chapter_config_version ?ch"
    "st_chapter_activated_at_ms s = cr_activated_at_ms ?ch" "st_chapter s = chapterStatusFromRecord (cr_status ?ch)"
    "st_config_version s = ck_last_applied_config_version c" "st_created_at_ms s = ck_created_at_ms c"
    "st_updated_at_ms s = ck_updated_at_ms c"
    using assms v l by (auto simp: StateFromCheckpoint_def Let_def)
  note h = header_parts [OF p(1)]
  have "validatePendingOutbox D (checkpoint_of s []) q = validatePendingOutbox D c q" for q
    by (rule validatePendingOutbox_cong) (simp_all add: checkpoint_of_def s)
  then have o: "outbox_storable D s" using p(4) by (simp add: outbox_storable_def check_outbox_None s)
  have t: "\<forall>t \<in> set tasks. tk_id t \<noteq> 0 \<and> tk_target t \<noteq> 0"
    using l(3) by (auto simp: load_tasks_def list_all_iff split: if_splits)
  have k: "case st_crop_compendium s of None \<Rightarrow> True | Some ids \<Rightarrow> ids_ok ids"
    using p(6) normalizeCompendium_id by (auto simp: s split: option.splits)
  have "chapterStatusFromRecord (cr_status ?ch) \<noteq> CHAPTER_UNSPECIFIED"
    using h by (auto simp: chapterStatusFromRecord_def split: chapter_record_status.splits)
  then show ?thesis
    using p(5) o t k loaded_inventory [OF p(2) _ l(1)] loaded_plots [OF p(3) l(2)] h
    unfolding storable_def by (simp add: s)
qed

section \<open>Properties\<close>

lemma equalBytes_refl: "equalBytes b b"
  by (induction b) (auto simp: equalBytes_def)


lemma initial_storable:
  assumes "p \<noteq> 0" "0 < now"
  shows "storable D (NewDevelopmentState p now)"
proof -
  have ok: "state_ok (NewDevelopmentState p now)" by (rule initial_state_ok)
  then have "\<forall>i q. fmlookup (st_plots (NewDevelopmentState p now)) i = Some q \<longrightarrow> pl_id q = i \<and> plot_storable q"
    using plot_ok_storable by (auto simp: state_ok_def plots_ok_def)
  moreover have "\<forall>t \<in> set (st_tasks (NewDevelopmentState p now)). tk_id t \<noteq> 0 \<and> tk_target t \<noteq> 0"
    using ok by (auto simp: state_ok_def task_ok_def)
  ultimately show ?thesis
    using assms ok unfolding storable_def
    by (simp add: state_ok_def outbox_storable_def pet_storable_def NewDevelopmentState_def initial_consts map_simps
        ServerConfigVersion_def)
qed

definition first_checkpoint :: checkpoint where
  "first_checkpoint = checkpoint_of (NewDevelopmentState 7 1000) (records_of (NewDevelopmentState 7 1000))"

definition sample_store :: store_codec where
  "sample_store = \<lparr>unmarshal_reward_mail = (\<lambda>b. None), unmarshal_gift_mail = (\<lambda>b. None),
     marshal_checkpoint = (\<lambda>c. [1]), unmarshal_checkpoint = (\<lambda>b. Some first_checkpoint)\<rparr>"


lemma initial_plot_keys: "map_keys newInitialPlots = initial_plot_ids"
proof (rule sorted_distinct_set_unique)
  show "set (map_keys newInitialPlots) = set initial_plot_ids"
    by (auto simp: fmlookup_dom_iff newInitialPlots_lookup split: if_splits)
qed (simp_all add: initial_plot_ids_eq)

lemma initial_records: "records_of (NewDevelopmentState p now) = initialPlotRecords"
proof -
  have "projr (plotRecord (the (fmlookup newInitialPlots i))) = empty_plot_record i" if "i \<in> set initial_plot_ids" for i
  proof -
    have "i \<noteq> 0" using that by (auto simp: initial_plot_ids_eq)
    then show ?thesis
      using that by (simp add: newInitialPlots_lookup plotRecord_def empty_plot_def empty_plot_record_def plotStateToRecord_def)
  qed
  then show ?thesis by (simp add: NewDevelopmentState_def initial_plot_keys initialPlotRecords_def)
qed

lemma initial_checkpoint: "checkpoint_of (NewDevelopmentState p now) initialPlotRecords = NewInitialCheckpoint p now"
proof -
  have "map_keys (fmupd BasicFertilizerID (1 :: u32) fmempty) = [BasicFertilizerID]"
    by (simp add: map_keys_def sorted_list_of_fset.rep_eq)
  then show ?thesis
    by (simp add: checkpoint_of_def NewInitialCheckpoint_def NewDevelopmentState_def initialChapter_def initial_tasks_def
        task_record_of_def taskMetric_def chapterStatusToRecord_def map_simps)
qed

text \<open>
  The two definitions of a new player agree: the checkpoint a Zone writes on first activation loads
  as the initial development state.
\<close>

theorem initial_checkpoint_agrees:
  assumes "playerID \<noteq> 0" "0 < nowMS"
  shows "StateFromCheckpoint D (NewInitialCheckpoint playerID nowMS) = Inr (NewDevelopmentState playerID nowMS)"
proof -
  have "canonical (NewDevelopmentState playerID nowMS) = NewDevelopmentState playerID nowMS"
    by (simp add: canonical_def NewDevelopmentState_def initial_tasks_def)
  then show ?thesis
    using storable_round_trip(2) [OF initial_storable [OF assms], of D] by (simp add: initial_records initial_checkpoint)
qed

theorem initial_checkpoint_agrees_witness:
  "StateFromCheckpoint sample_store (NewInitialCheckpoint 7 1000) = Inr (NewDevelopmentState 7 1000)"
  by (rule initial_checkpoint_agrees) simp_all

text \<open>
  What was loaded can be stored. Whatever checkpoint the server accepts at activation, the state it
  builds passes the checks of the next flush, and a second load gives the same state in canonical order.
\<close>

theorem loaded_state_storable:
  assumes "StateFromCheckpoint D c = Inr s"
  shows "\<exists>c'. Checkpoint_of D s = Inr c' \<and> StateFromCheckpoint D c' = Inr (canonical s)"
  using storable_round_trip [OF loaded_storable [OF assms]] by blast

theorem loaded_state_storable_witness:
  "\<exists>c'. Checkpoint_of sample_store (NewDevelopmentState 7 1000) = Inr c' \<and>
     StateFromCheckpoint sample_store c' = Inr (canonical (NewDevelopmentState 7 1000))"
proof -
  have "StateFromCheckpoint sample_store (checkpoint_of (NewDevelopmentState 7 1000) (records_of (NewDevelopmentState 7 1000))) =
      Inr (canonical (NewDevelopmentState 7 1000))"
    by (rule storable_round_trip(2) [OF initial_storable]) simp_all
  moreover have "canonical (NewDevelopmentState 7 1000) = NewDevelopmentState 7 1000"
    by (simp add: canonical_def NewDevelopmentState_def initial_tasks_def)
  ultimately show ?thesis using loaded_state_storable by (metis (no_types, lifting))
qed

end
