(* ===== verification/Durability.thy ===== *)
theory Durability
  imports Checkpoint
begin

text \<open>
  The command boundary and the store together: a player whose state can be checkpointed can be
  checkpointed after every command, with the exceptions the code leaves open.
\<close>

section \<open>The header fields a command touches\<close>

definition header_kept :: "int \<Rightarrow> state \<Rightarrow> state \<Rightarrow> bool" where
  "header_kept now s s' \<longleftrightarrow> st_created_at_ms s' = st_created_at_ms s \<and>
     (st_chapter_activated_at_ms s' = st_chapter_activated_at_ms s \<or> st_chapter_activated_at_ms s' = now)"

lemma header_frame [simp]:
  "st_created_at_ms (bump v t s) = st_created_at_ms s" "st_created_at_ms (appendResult r t s) = st_created_at_ms s"
  "st_created_at_ms (ensurePetState s) = st_created_at_ms s" "st_created_at_ms (ensureCareer s) = st_created_at_ms s"
  "st_created_at_ms (unlockCrop s i) = st_created_at_ms s"
  "st_chapter_activated_at_ms (bump v t s) = st_chapter_activated_at_ms s"
  "st_chapter_activated_at_ms (appendResult r t s) = st_chapter_activated_at_ms s"
  "st_chapter_activated_at_ms (ensurePetState s) = st_chapter_activated_at_ms s"
  "st_chapter_activated_at_ms (ensureCareer s) = st_chapter_activated_at_ms s"
  "st_chapter_activated_at_ms (unlockCrop s i) = st_chapter_activated_at_ms s"
  "st_config_version (bump v t s) = v" "st_updated_at_ms (bump v t s) = t"
  "st_config_version (appendResult r t s) = st_config_version s" "st_updated_at_ms (appendResult r t s) = st_updated_at_ms s"
  by (simp_all add: bump_def appendResult_def ensurePetState_def ensureCareer_def unlockCrop_def Let_def split: option.splits)

locale durable_command = farm_command +
  assumes done_header: "body C caller req cfg now rid s = Done p obx s1 ch \<Longrightarrow> header_kept now s s1"
begin

lemma handler_header:
  assumes "handler C caller req cfg now s = (resp, dirty, ch, s')"
  shows "header_kept now s s' \<and> st_player_id s' = st_player_id s \<and> st_owner_epoch s' = st_owner_epoch s \<and>
    (s' = s \<or> st_config_version s' = cfg_version cfg \<and> st_updated_at_ms s' = now)"
proof (rule handler_cases [of req C caller cfg now s])
  fix rid e s0 s2
  assume f: "s0 = s \<or> s0 = ensurePetState s"
    "s2 = snd (storeFailure C act req rid (fingerprint caller req) (cfg_version cfg) now e s0)"
    "handler C caller req cfg now s = (errorEnvelope req s2 now e, True, {||}, s2)"
  then show ?thesis using assms by (auto simp: storeFailure_def Let_def header_kept_def)
next
  fix rid p obx s1 ch' s3
  assume d: "body C caller req cfg now rid s = Done p obx s1 ch'"
    "s3 = appendResult (success_record C act caller req rid (fingerprint caller req) now
       (bump (cfg_version cfg) now s1) p obx) now (bump (cfg_version cfg) now s1)"
    "handler C caller req cfg now s = (successEnvelope req s3 now p, True, ch', s3)"
  then show ?thesis using assms done_header [OF d(1)] done_frame [OF d(1)] by (auto simp: header_kept_def)
qed (use assms in \<open>auto simp: header_kept_def\<close>)

end

lemma harvest_header:
  assumes "harvestBody plotId s = Done p obx s1 ch"
  shows "header_kept now s s1"
proof (rule harvest_Done [OF assms])
  fix plot s0
  assume h: "credited plot (pl_base_yield plot - pl_stolen_quantity plot) s s0"
    "harvest_finish plotId plot (pl_base_yield plot - pl_stolen_quantity plot)
       (map_get (st_inventory s) (pl_crop_item_id plot)) s0 = Done p obx s1 ch"
  have "header_kept now s s0" using h(1) by (auto simp: credited_def header_kept_def split: if_splits)
  then show ?thesis using h(2) by (auto simp: harvest_finish_Done header_kept_def)
qed

lemma claim_header:
  assumes "claimRewardBody C cfg caller claimId now rid s = Done p obx s1 ch"
  shows "header_kept now s s1"
  by (rule claim_Done [OF assms]) (auto simp: claim_finish_Done advance_chapter_def header_kept_def split: option.splits)

interpretation durable_plant: durable_command PLANT
  "\<lambda>C caller req cfg now rid. plantBody cfg plotId seed now" "\<lambda>caller req. plantFingerprint caller req plotId seed"
  "\<lambda>C caller req. plant C caller req plotId seed" for plotId seed
  by (rule durable_command.intro [OF farm_plant.farm_command_axioms], unfold_locales) (erule plant_Done, simp add: header_kept_def)

interpretation durable_fertilizer: durable_command APPLY_FERTILIZER
  "\<lambda>C caller req cfg now rid. fertilizerBody cfg caller plotId item now rid"
  "\<lambda>caller req. fertilizerFingerprint caller req plotId item"
  "\<lambda>C caller req. applyFertilizer C caller req plotId item" for plotId item
  by (rule durable_command.intro [OF farm_fertilizer.farm_command_axioms], unfold_locales) (erule fertilizer_Done, simp add: header_kept_def)

interpretation durable_catch_pest: durable_command CATCH_PEST
  "\<lambda>C caller req cfg now rid. catchPestBody plotId now" "\<lambda>caller req. catchPestFingerprint caller req plotId"
  "\<lambda>C caller req. catchPest C caller req plotId" for plotId
  by (rule durable_command.intro [OF farm_catch_pest.farm_command_axioms], unfold_locales) (erule catchPest_Done, simp add: header_kept_def)

interpretation durable_harvest: durable_command HARVEST
  "\<lambda>C caller req cfg now rid. harvestBody plotId" "\<lambda>caller req. harvestFingerprint caller req plotId"
  "\<lambda>C caller req. harvest C caller req plotId" for plotId
  by (rule durable_command.intro [OF farm_harvest.farm_command_axioms], unfold_locales) (rule harvest_header)

interpretation durable_clean: durable_command CLEAN_PLOT
  "\<lambda>C caller req cfg now rid. cleanPlotBody plotId" "\<lambda>caller req. cleanPlotFingerprint caller req plotId"
  "\<lambda>C caller req. cleanPlot C caller req plotId" for plotId
  by (rule durable_command.intro [OF farm_clean.farm_command_axioms], unfold_locales) (erule cleanPlot_Done, simp add: header_kept_def)

interpretation durable_buy_seeds: durable_command BUY_SEEDS
  "\<lambda>C caller req cfg now rid. buySeedsBody cfg buy" "\<lambda>caller req. buySeedsFingerprint caller req buy"
  "\<lambda>C caller req. buySeeds C caller req buy" for buy
  by (rule durable_command.intro [OF farm_buy_seeds.farm_command_axioms], unfold_locales) (auto simp: buySeedsBody_def Let_def header_kept_def split: if_splits option.splits)

interpretation durable_buy_fertilizer: durable_command BUY_FERTILIZER
  "\<lambda>C caller req cfg now rid. buyFertilizerBody cfg buy" "\<lambda>caller req. buyFertilizerFingerprint caller req buy"
  "\<lambda>C caller req. buyFertilizer C caller req buy" for buy
  by (rule durable_command.intro [OF farm_buy_fertilizer.farm_command_axioms], unfold_locales) (auto simp: buyFertilizerBody_def Let_def header_kept_def split: if_splits option.splits)

interpretation durable_sell: durable_command SELL_CROP
  "\<lambda>C caller req cfg now rid. sellCropBody cfg sell" "\<lambda>caller req. sellCropFingerprint caller req sell"
  "\<lambda>C caller req. sellCrop C caller req sell" for sell
  by (rule durable_command.intro [OF farm_sell.farm_command_axioms], unfold_locales) (auto simp: sellCropBody_def Let_def header_kept_def split: if_splits option.splits prod.splits)

interpretation durable_claim: durable_command CLAIM_CHAPTER_REWARD
  "\<lambda>C caller req cfg now rid. claimRewardBody C cfg caller claimId now rid"
  "\<lambda>caller req. claimRewardFingerprint caller req claimId"
  "\<lambda>C caller req. claimChapterReward C caller req claimId" for claimId
  by (rule durable_command.intro [OF farm_claim.farm_command_axioms], unfold_locales) (rule claim_header)

interpretation durable_buy_pet: durable_command BUY_PET
  "\<lambda>C caller req cfg now rid. buyPetBody ord cfg petId version now"
  "\<lambda>caller req. buyPetFingerprint caller req petId version"
  "\<lambda>C caller req. buyPet C ord caller req petId version" for ord petId version
  by (rule durable_command.intro [OF farm_buy_pet.farm_command_axioms], unfold_locales) (erule buyPet_Done, simp add: header_kept_def)

interpretation durable_deploy_pet: durable_command DEPLOY_PET
  "\<lambda>C caller req cfg now rid. deployPetBody ord cfg petId now"
  "\<lambda>caller req. deployPetFingerprint caller req petId"
  "\<lambda>C caller req. deployPet C ord caller req petId" for ord petId
  by (rule durable_command.intro [OF farm_deploy_pet.farm_command_axioms], unfold_locales) (auto simp: deployPetBody_def Let_def header_kept_def split: if_splits)

interpretation durable_buy_pet_food: durable_command BUY_PET_FOOD
  "\<lambda>C caller req cfg now rid. buyPetFoodBody ord cfg buy now"
  "\<lambda>caller req. buyPetFoodFingerprint caller req buy"
  "\<lambda>C caller req. buyPetFood C ord caller req buy" for ord buy
  by (rule durable_command.intro [OF farm_buy_pet_food.farm_command_axioms], unfold_locales) (auto simp: buyPetFoodBody_def Let_def header_kept_def split: if_splits option.splits)

interpretation durable_feed_pet: durable_command FEED_PET
  "\<lambda>C caller req cfg now rid. feedPetBody ord panelOrd cfg now"
  "\<lambda>caller req. feedPetFingerprint caller req"
  "\<lambda>C caller req. feedPet C ord panelOrd caller req" for ord panelOrd
  by (rule durable_command.intro [OF farm_feed_pet.farm_command_axioms], unfold_locales) (erule feedPet_Done, simp add: header_kept_def)

lemma command_for_durable:
  assumes "command_for ord req = Some h"
  shows "\<exists>act body fp. durable_command act body fp h"
proof -
  note i = durable_plant.durable_command_axioms durable_fertilizer.durable_command_axioms
    durable_catch_pest.durable_command_axioms durable_harvest.durable_command_axioms
    durable_clean.durable_command_axioms durable_buy_seeds.durable_command_axioms
    durable_buy_fertilizer.durable_command_axioms durable_sell.durable_command_axioms
    durable_claim.durable_command_axioms durable_buy_pet.durable_command_axioms
    durable_deploy_pet.durable_command_axioms durable_buy_pet_food.durable_command_axioms
    durable_feed_pet.durable_command_axioms
  show ?thesis
    using assms unfolding command_for_def Let_def
    by (auto split: ws_request_payload.splits if_splits intro: i)
qed

section \<open>From the invariant to the store\<close>

lemma state_ok_storable:
  assumes "state_ok s" "st_player_id s \<noteq> 0" "st_owner_epoch s \<noteq> 0" "st_checkpoint_revision s \<noteq> 0"
    "0 < st_chapter_activated_at_ms s" "st_config_version s \<noteq> 0" "0 < st_created_at_ms s"
    "st_created_at_ms s \<le> st_updated_at_ms s" "map_len (st_inventory s) \<le> 100" "outbox_storable D s"
  shows "storable D s"
proof -
  have "pl_id p = i \<and> plot_storable p" if "fmlookup (st_plots s) i = Some p" for i p
    using assms(1) that plot_ok_storable by (auto simp: state_ok_def plots_ok_def)
  moreover have "pet_storable (st_pet_state s)"
    using assms(1) by (cases "st_pet_state s") (auto simp: state_ok_def pet_storable_def pet_ok_def petOf_def)
  moreover have "\<forall>t \<in> set (st_tasks s). tk_id t \<noteq> 0 \<and> tk_target t \<noteq> 0" using assms(1) by (auto simp: state_ok_def task_ok_def)
  ultimately show ?thesis using assms unfolding storable_def state_ok_def by blast
qed

lemma outbox_storable_mono:
  assumes "outbox_storable D s" "st_pending_outbox s' = st_pending_outbox s" "st_player_id s' = st_player_id s"
    "st_player_seq s \<le> st_player_seq s'"
  shows "outbox_storable D s'"
proof -
  have "validatePendingOutbox D (checkpoint_of s' []) p = None" if "p \<in> set (st_pending_outbox s)" for p
  proof -
    have v: "validatePendingOutbox D (checkpoint_of s []) p = None" using assms(1) that by (simp add: outbox_storable_def)
    then have "\<not> st_player_seq s < po_created_player_seq p"
      by (auto simp: validatePendingOutbox_def checkpoint_of_def split: if_splits)
    then have "\<not> st_player_seq s' < po_created_player_seq p" using assms(4) by (simp add: not_less)
    moreover have id: "ck_player_id (checkpoint_of s' []) = ck_player_id (checkpoint_of s [])"
      using assms(3) by (simp add: checkpoint_of_def)
    ultimately show ?thesis
      using v unfolding validatePendingOutbox_def validate_mail_cong [OF id] by (simp add: id split: if_splits) (simp add: checkpoint_of_def)
  qed
  then show ?thesis using assms(1,2) by (simp add: outbox_storable_def)
qed

lemma materialize_header:
  assumes "materializeDueMaturities s now = (True, evs, s1)"
  shows "st_created_at_ms s1 = st_created_at_ms s" "st_chapter_activated_at_ms s1 = st_chapter_activated_at_ms s"
    "st_player_id s1 = st_player_id s" "st_owner_epoch s1 = st_owner_epoch s" "st_config_version s1 = st_config_version s"
    "st_pending_outbox s1 = st_pending_outbox s" "st_updated_at_ms s \<le> st_updated_at_ms s1"
proof -
  have "materialize_loop now (map_keys (st_plots s)) [] s = (True, evs, s1)"
    using assms by (simp add: materializeDueMaturities_def)
  then have "st_created_at_ms s1 = st_created_at_ms s \<and> st_chapter_activated_at_ms s1 = st_chapter_activated_at_ms s \<and>
    st_player_id s1 = st_player_id s \<and> st_owner_epoch s1 = st_owner_epoch s \<and> st_config_version s1 = st_config_version s \<and>
    st_pending_outbox s1 = st_pending_outbox s \<and> st_updated_at_ms s \<le> st_updated_at_ms s1"
    by (rule materialize_loop_keeps [where P = "\<lambda>x. st_created_at_ms x = st_created_at_ms s \<and>
      st_chapter_activated_at_ms x = st_chapter_activated_at_ms s \<and> st_player_id x = st_player_id s \<and>
      st_owner_epoch x = st_owner_epoch s \<and> st_config_version x = st_config_version s \<and>
      st_pending_outbox x = st_pending_outbox s \<and> st_updated_at_ms s \<le> st_updated_at_ms x", rotated])
      (auto simp: mature_bookkeeping_def)
  then show "st_created_at_ms s1 = st_created_at_ms s" "st_chapter_activated_at_ms s1 = st_chapter_activated_at_ms s"
    "st_player_id s1 = st_player_id s" "st_owner_epoch s1 = st_owner_epoch s" "st_config_version s1 = st_config_version s"
    "st_pending_outbox s1 = st_pending_outbox s" "st_updated_at_ms s \<le> st_updated_at_ms s1" by blast+
qed

section \<open>Properties\<close>

text \<open>
  C26: every command leaves a storable player. If the state could be checkpointed and the clock has not
  fallen behind the creation of the player, then after an answered command the state can be
  checkpointed again and restores itself, unless the inventory has grown beyond one hundred item types,
  a sequence counter wrapped around, or a reward mail was queued by this command.
\<close>

theorem Handle_storable:
  assumes "state_ok s" "env_ok cfg now s" "storable D s" "st_created_at_ms s \<le> now" "command_for ord req = Some h"
    "Handle C ord mailer name (Some cfg) caller epoch req now s = (Replied resp rep, s')"
    "map_len (st_inventory s') \<le> 100" "st_player_seq s \<le> st_player_seq s'" "st_checkpoint_revision s' \<noteq> 0"
    "st_pending_outbox s' = st_pending_outbox s"
  shows "\<exists>c. Checkpoint_of D s' = Inr c \<and> StateFromCheckpoint D c = Inr (canonical s')"
proof (rule Handle_command [OF assms(5,6)])
  fix evs s1 dirty ch
  assume m: "materializeDueMaturities s now = (True, evs, s1)" "h C caller req cfg now s1 = (resp, dirty, ch, s')"
  note e = materialize_env [OF assms(1,2) m(1)] and h = materialize_header [OF m(1)]
  obtain act body fp where f: "durable_command act body fp h" using command_for_durable [OF assms(5)] by blast
  then have sc: "safe_command act body fp h" by (simp add: durable_command_def farm_command_def synced_command_def)
  have ok: "state_ok s'" using safe_command.handler_ok [OF sc e(1,2) m(2)] .
  have k: "header_kept now s1 s'" "st_player_id s' = st_player_id s1" "st_owner_epoch s' = st_owner_epoch s1"
    "s' = s1 \<or> st_config_version s' = cfg_version cfg \<and> st_updated_at_ms s' = now"
    using durable_command.handler_header [OF f m(2)] by blast+
  have st: "st_player_id s \<noteq> 0" "st_owner_epoch s \<noteq> 0" "0 < st_chapter_activated_at_ms s" "st_config_version s \<noteq> 0"
    "0 < st_created_at_ms s" "st_created_at_ms s \<le> st_updated_at_ms s" "outbox_storable D s"
    using assms(3) by (simp_all add: storable_def)
  have env: "0 < now" "cfg_version cfg \<noteq> 0" using assms(2) by (simp_all add: env_ok_def config_ok_def)
  have "outbox_storable D s'"
    by (rule outbox_storable_mono [OF st(7) assms(10) _ assms(8)]) (simp add: k h)
  then have "storable D s'"
    using k st env h assms(4,7,9) by (intro state_ok_storable [OF ok]) (auto simp: header_kept_def)
  from storable_round_trip [OF this] show ?thesis by blast
qed

theorem Handle_storable_witness:
  "\<exists>c. Checkpoint_of sample_store (snd (Handle ref_codec no_orders False [] (Some dev_config) 7 1 sample_buy 1000
     (NewDevelopmentState 7 1000))) = Inr c"
proof -
  obtain resp rep s' where r: "Handle ref_codec no_orders False [] (Some dev_config) 7 1 sample_buy 1000
      (NewDevelopmentState 7 1000) = (Replied resp rep, s')" and
    b: "map_len (st_inventory s') \<le> 100" "st_player_seq s' = 1" "st_checkpoint_revision s' = 2" "st_pending_outbox s' = []"
    by (rule sample_buy_Replied)
  have st: "storable sample_store (NewDevelopmentState 7 1000)" by (rule initial_storable) simp_all
  show ?thesis
    unfolding r using Handle_storable [OF initial_state_ok dev_env st _ sample_buy_command r b(1)] b
    by (auto simp: NewDevelopmentState_def)
qed

end
