(* ===== verification/Placement.thy ===== *)
theory Placement
  imports Routing
begin

text \<open>
  \<open>placement.go\<close> of package \<open>internal/coordinator/placement\<close>: the desired owner of every logical shard,
  computed from the healthy Zones by rendezvous hashing.
\<close>

record candidate =
  cd_logical_zone_id :: string
  cd_endpoint :: string

record desired_entry =
  de_shard_id :: u32
  de_owner_zone_id :: string
  de_owner_endpoint :: string

text \<open>The loop that fills the Go map \<open>byID\<close>; a repeated Zone must come with the same endpoint.\<close>

fun collect_candidates :: "candidate list \<Rightarrow> (string, string) fmap \<Rightarrow> routing_error + (string, string) fmap" where
  "collect_candidates [] byID = Inr byID"
| "collect_candidates (c # cs) byID =
     (let zoneID = TrimSpace (cd_logical_zone_id c); endpoint = TrimSpace (cd_endpoint c)
      in if zoneID = [] \<or> endpoint = [] then Inl (RoutingError ''Zone candidate ID and endpoint are required'')
         else case fmlookup byID zoneID of
                Some previous \<Rightarrow>
                  if previous \<noteq> endpoint then Inl (RoutingError ''Zone candidate has conflicting endpoints'')
                  else collect_candidates cs (fmupd zoneID endpoint byID)
              | None \<Rightarrow> collect_candidates cs (fmupd zoneID endpoint byID))"

definition normalizeCandidates :: "candidate list \<Rightarrow> routing_error + zone_candidate list" where
  "normalizeCandidates cs =
     (if cs = [] then Inl (RoutingError ''at least one Zone candidate is required'')
      else case collect_candidates cs fmempty of
        Inl e \<Rightarrow> Inl e
      | Inr byID \<Rightarrow> Inr (map (\<lambda>z. \<lparr>zc_zone_id = z, zc_endpoint = the (fmlookup byID z)\<rparr>) (map_keys byID)))"

definition Compute :: "u32 \<Rightarrow> u32 \<Rightarrow> candidate list \<Rightarrow> routing_error + desired_entry list" where
  "Compute shardCount assignmentVersion cs =
     (if shardCount \<noteq> ShardCount then Inl (RoutingError ''unsupported shard count'')
      else if assignmentVersion \<noteq> AssignmentAlgorithmVersion
      then Inl (RoutingError ''unsupported assignment algorithm version'')
      else case normalizeCandidates cs of
        Inl e \<Rightarrow> Inl e
      | Inr zones \<Rightarrow> Inr (map (\<lambda>i. let owner = RendezvousOwner i zones in \<lparr>de_shard_id = i,
          de_owner_zone_id = zc_zone_id owner, de_owner_endpoint = zc_endpoint owner\<rparr>) shard_ids))"

section \<open>Lemmas\<close>

definition trimmed :: "candidate \<Rightarrow> zone_candidate" where
  "trimmed c = \<lparr>zc_zone_id = TrimSpace (cd_logical_zone_id c), zc_endpoint = TrimSpace (cd_endpoint c)\<rparr>"

lemma collect_candidates_lookup:
  assumes "collect_candidates cs byID = Inr m"
  shows "fmlookup m z = Some ep \<longleftrightarrow> fmlookup byID z = Some ep \<or> \<lparr>zc_zone_id = z, zc_endpoint = ep\<rparr> \<in> trimmed ` set cs"
  using assms
proof (induction cs arbitrary: byID ep)
  case (Cons c cs)
  let ?z = "TrimSpace (cd_logical_zone_id c)" and ?e = "TrimSpace (cd_endpoint c)"
  have s: "collect_candidates cs (fmupd ?z ?e byID) = Inr m" and p: "fmlookup byID ?z = None \<or> fmlookup byID ?z = Some ?e"
    using Cons.prems by (auto simp: Let_def split: if_splits option.splits)
  have t: "\<lparr>zc_zone_id = z, zc_endpoint = ep\<rparr> = trimmed c \<longleftrightarrow> z = ?z \<and> ep = ?e" by (auto simp: trimmed_def)
  note ih = Cons.IH [OF s]
  show ?case
  proof (cases "z = ?z")
    case False
    then show ?thesis using ih [of ep] t by auto
  next
    case True
    then have "fmlookup m z = Some ?e" using ih [of ?e] by simp
    then have "fmlookup m z = Some ep \<longleftrightarrow> ep = ?e" by auto
    then show ?thesis using ih [of ep] p t True by auto
  qed
qed simp

lemma collect_candidates_nonempty:
  "collect_candidates cs byID = Inr m \<Longrightarrow> c \<in> set cs \<Longrightarrow> zc_zone_id (trimmed c) \<noteq> []"
  by (induction cs arbitrary: byID) (auto simp: Let_def trimmed_def split: if_splits option.splits)

text \<open>Normalizing keeps exactly the trimmed candidates, once per Zone, ordered by Zone.\<close>

lemma normalizeCandidates_ok:
  assumes "normalizeCandidates cs = Inr zones"
  shows "set zones = trimmed ` set cs" "distinct (map zc_zone_id zones)" "zones \<noteq> []"
proof -
  obtain m where m: "cs \<noteq> []" "collect_candidates cs fmempty = Inr m" and
    z: "zones = map (\<lambda>z. \<lparr>zc_zone_id = z, zc_endpoint = the (fmlookup m z)\<rparr>) (map_keys m)"
    using assms by (auto simp: normalizeCandidates_def split: if_splits sum.splits)
  note l = collect_candidates_lookup [OF m(2), simplified]
  show "set zones = trimmed ` set cs"
  proof (intro set_eqI iffI)
    fix x assume "x \<in> set zones"
    then obtain z ep where "x = \<lparr>zc_zone_id = z, zc_endpoint = ep\<rparr>" "fmlookup m z = Some ep"
      unfolding z by (auto simp: fmlookup_dom_iff)
    then show "x \<in> trimmed ` set cs" using l by simp
  next
    fix x assume x: "x \<in> trimmed ` set cs"
    have "x = \<lparr>zc_zone_id = zc_zone_id x, zc_endpoint = zc_endpoint x\<rparr>" by simp
    then have "fmlookup m (zc_zone_id x) = Some (zc_endpoint x)" using x l by metis
    then show "x \<in> set zones" unfolding z by (auto simp: image_iff intro!: bexI [of _ "zc_zone_id x"] fmdomI)
  qed
  then show "zones \<noteq> []" using m(1) by auto
  show "distinct (map zc_zone_id zones)" unfolding z by (simp add: comp_def)
qed

lemma Compute_owner:
  assumes "Compute n v cs = Inr ds"
  obtains zones where "normalizeCandidates cs = Inr zones" "length ds = 4096"
    "\<And>i. i < 4096 \<Longrightarrow> de_shard_id (ds ! i) = of_nat i \<and>
       de_owner_zone_id (ds ! i) = zc_zone_id (RendezvousOwner (of_nat i) zones) \<and>
       de_owner_endpoint (ds ! i) = zc_endpoint (RendezvousOwner (of_nat i) zones)"
proof -
  obtain zones where "normalizeCandidates cs = Inr zones" and
    "ds = map (\<lambda>i. let owner = RendezvousOwner i zones in \<lparr>de_shard_id = i,
          de_owner_zone_id = zc_zone_id owner, de_owner_endpoint = zc_endpoint owner\<rparr>) shard_ids"
    using assms by (auto simp: Compute_def split: if_splits sum.splits)
  then show thesis using that by (simp add: Let_def shard_ids_def)
qed

text \<open>
  C25: placement is balanced by agreement alone. The computed placement names every shard once and
  only candidate Zones; it does not depend on the order, repetition or padding of the candidates; and
  when the candidates change, a shard whose owner stays a candidate moves only to a Zone that joined:
  removing Zones moves nothing but the shards of the removed Zones.
\<close>

theorem Compute_minimal_movement:
  assumes "Compute n v cs = Inr ds" "Compute n' v' cs' = Inr ds'" "i < 4096"
  shows "length ds = 4096 \<and> de_shard_id (ds ! i) = of_nat i \<and>
    (\<exists>c \<in> set cs. TrimSpace (cd_logical_zone_id c) = de_owner_zone_id (ds ! i) \<and>
       TrimSpace (cd_endpoint c) = de_owner_endpoint (ds ! i)) \<and>
    (trimmed ` set cs' = trimmed ` set cs \<longrightarrow> ds' = ds) \<and>
    (trimmed ` set cs' \<subseteq> trimmed ` set cs \<and> de_owner_zone_id (ds ! i) \<in> (\<lambda>c. zc_zone_id (trimmed c)) ` set cs' \<longrightarrow>
       ds' ! i = ds ! i)"
proof (rule Compute_owner [OF assms(1)], rule Compute_owner [OF assms(2)])
  fix zones zones'
  assume z: "normalizeCandidates cs = Inr zones" "length ds = 4096" and
    d: "\<And>i. i < 4096 \<Longrightarrow> de_shard_id (ds ! i) = of_nat i \<and>
       de_owner_zone_id (ds ! i) = zc_zone_id (RendezvousOwner (of_nat i) zones) \<and>
       de_owner_endpoint (ds ! i) = zc_endpoint (RendezvousOwner (of_nat i) zones)" and
    z': "normalizeCandidates cs' = Inr zones'" "length ds' = 4096" and
    d': "\<And>i. i < 4096 \<Longrightarrow> de_shard_id (ds' ! i) = of_nat i \<and>
       de_owner_zone_id (ds' ! i) = zc_zone_id (RendezvousOwner (of_nat i) zones') \<and>
       de_owner_endpoint (ds' ! i) = zc_endpoint (RendezvousOwner (of_nat i) zones')"
  note n = normalizeCandidates_ok [OF z(1)] and n' = normalizeCandidates_ok [OF z'(1)]
  have same: "ds' ! j = ds ! j" if "j < 4096" "RendezvousOwner (of_nat j) zones' = RendezvousOwner (of_nat j) zones" for j
    using d [OF that(1)] d' [OF that(1)] that(2) by (auto intro: desired_entry.equality)
  have own: "RendezvousOwner (of_nat j) zones \<in> trimmed ` set cs" for j
    using RendezvousOwner_best(1) [OF n(3)] n(1) by blast
  have "ds' ! i = ds ! i" if s: "trimmed ` set cs' \<subseteq> trimmed ` set cs"
    "de_owner_zone_id (ds ! i) \<in> (\<lambda>c. zc_zone_id (trimmed c)) ` set cs'"
  proof -
    let ?o = "RendezvousOwner (of_nat i) zones"
    obtain c where c: "c \<in> set cs'" "zc_zone_id (trimmed c) = zc_zone_id ?o"
      using s(2) d [OF assms(3)] by auto
    have "trimmed c \<in> set zones" using c(1) s(1) n(1) by auto
    then have "trimmed c = ?o" using c(2) n(2) RendezvousOwner_best(1) [OF n(3), of "of_nat i"]
      by (auto simp: distinct_map dest: inj_onD)
    then have "?o \<in> set zones'" using c(1) n'(1) by (metis imageI)
    then show ?thesis using same [OF assms(3) RendezvousOwner_subset [OF n(2)]] s(1) n(1) n'(1) by simp
  qed
  moreover have "ds' = ds" if "trimmed ` set cs' = trimmed ` set cs"
  proof (rule nth_equalityI)
    fix j assume "j < length ds'"
    then show "ds' ! j = ds ! j"
      using same RendezvousOwner_subset [OF n(2), of zones' "of_nat j"] own that n(1) n'(1) z'(2) by simp
  qed (simp add: z z')
  moreover have "\<exists>c \<in> set cs. TrimSpace (cd_logical_zone_id c) = de_owner_zone_id (ds ! i) \<and>
       TrimSpace (cd_endpoint c) = de_owner_endpoint (ds ! i)"
    using own [of i] d [OF assms(3)] by (auto simp: trimmed_def)
  ultimately show ?thesis using z(2) d [OF assms(3)] by blast
qed

definition sample_candidates :: "candidate list" where
  "sample_candidates = map (\<lambda>z. \<lparr>cd_logical_zone_id = z, cd_endpoint = ''ep''\<rparr>) [''a'', ''b'', '' a'']"

lemma sample_Compute:
  obtains ds where "Compute 4096 1 sample_candidates = Inr ds"
proof -
  have "\<exists>zones. normalizeCandidates sample_candidates = Inr zones"
    by (simp add: normalizeCandidates_def sample_candidates_def TrimSpace_def ascii_space_def Let_def)
  then have "\<exists>ds. Compute 4096 1 sample_candidates = Inr ds"
    by (auto simp: Compute_def ShardCount_def AssignmentAlgorithmVersion_def)
  then show thesis using that by blast
qed

theorem Compute_minimal_movement_witness:
  "\<exists>ds. Compute 4096 1 sample_candidates = Inr ds \<and> Compute 4096 1 (rev sample_candidates) = Inr ds \<and> length ds = 4096"
proof -
  obtain ds where d: "Compute 4096 1 sample_candidates = Inr ds" by (rule sample_Compute)
  have "\<exists>zones. normalizeCandidates (rev sample_candidates) = Inr zones"
    by (simp add: normalizeCandidates_def sample_candidates_def TrimSpace_def ascii_space_def Let_def)
  then obtain ds' where d': "Compute 4096 1 (rev sample_candidates) = Inr ds'"
    by (auto simp: Compute_def ShardCount_def AssignmentAlgorithmVersion_def)
  show ?thesis using Compute_minimal_movement [OF d d', of 0] d d' by simp
qed

end
