(* ===== verification/Farm_View.thy ===== *)
theory Farm_View
  imports Runtime
begin

text \<open>
  What visitors of a farm see: \<open>farm_visit_snapshot.go\<close>, \<open>farm_view_events.go\<close> and \<open>quick_info.go\<close> of
  package \<open>player\<close>, and the projection \<open>farmview/view.go\<close>.

  An actor carries a random view epoch and a counter. A turn that changes plots is followed by a second
  mailbox job, \<open>publishFarmViewChanges\<close>, which advances the counter and projects the changed plots as they
  are then. Other turns may run between the two jobs. \<open>farm_step\<close> is this interleaving, with a visitor that
  applies the patches in order; the visitor's view then differs from the farm at most in the plots whose
  changes are still to be published.
\<close>

section \<open>Views\<close>

datatype public_plot_view = PublicPlotView
  (pub_plot_id: u32) (pub_plot_state: plot_state) (pub_crop_id: u32) (pub_estimated_mature_at_ms: int)
  (pub_harvestable_quantity: u32) (pub_pest_active: bool) (pub_can_steal: bool) (pub_crop_item_id: u32)
  (pub_steal_count: u32)

datatype public_pet_view = PublicPetView (pub_active_pet_id: u32) (pub_pet_name: string) (pub_food_active_until_ms: int)

datatype farm_view_version = FarmViewVersion (fv_epoch: bytes) (fv_seq: u64)

datatype farm_visit_snapshot = FarmVisitSnapshot
  (fvs_owner_player_id: u64) (fvs_version: farm_view_version) (fvs_plots: "public_plot_view list")
  (fvs_career: career_view) (fvs_pet: public_pet_view) (fvs_crop_compendium: compendium_view)

datatype farm_view_patch = FarmViewPatch
  (fvp_owner_player_id: u64) (fvp_version: farm_view_version) (fvp_plot_upserts: "public_plot_view list")

text \<open>The part of \<open>runtimeActor\<close> the public view depends on.\<close>

record farm_actor =
  ac_state :: state
  ac_farm_view_epoch :: bytes
  ac_farm_view_seq :: u64

definition publicPlotView :: "plot \<Rightarrow> public_plot_view" where
  "publicPlotView p = PublicPlotView (pl_id p) (pl_state p) (pl_crop_id p)
     (case pl_estimated_mature_at_ms p of None \<Rightarrow> 0 | Some e \<Rightarrow> e)
     (if pl_state p = MATURE \<and> pl_stolen_quantity p \<le> pl_base_yield p
      then pl_base_yield p - pl_stolen_quantity p else 0)
     (pl_pest_effect p \<noteq> None) (CanSteal p) (pl_crop_item_id p) (pl_steal_count p)"

text \<open>\<open>farmview.PublicPlotView\<close>, the projection this one is said to mirror: two fields are not filled in.\<close>

definition farmview_PublicPlotView :: "plot \<Rightarrow> public_plot_view" where
  "farmview_PublicPlotView p = PublicPlotView (pl_id p) (pl_state p) (pl_crop_id p)
     (case pl_estimated_mature_at_ms p of None \<Rightarrow> 0 | Some e \<Rightarrow> e)
     (if pl_state p = MATURE \<and> pl_stolen_quantity p \<le> pl_base_yield p
      then pl_base_yield p - pl_stolen_quantity p else 0)
     (pl_pest_effect p \<noteq> None) (CanSteal p) 0 0"

fun decimal :: "nat \<Rightarrow> string" where
  "decimal n = (if n < 10 then [char_of (48 + n)] else decimal (n div 10) @ [char_of (48 + n mod 10)])"

text \<open>The UTF-8 bytes of the two characters for \<open>pet\<close>, and the number sign.\<close>

definition pet_label :: string where
  "pet_label = map char_of [229 :: nat, 174, 160, 231, 137, 169, 35]"

definition publicPetView :: "pet_record option \<Rightarrow> config_snapshot option \<Rightarrow> public_pet_view" where
  "publicPetView pet config = (case pet of
       None \<Rightarrow> PublicPetView 0 [] 0
     | Some p \<Rightarrow>
         if pet_active_id p = 0 then PublicPetView 0 [] 0
         else let name = (case config of None \<Rightarrow> [] | Some cfg \<Rightarrow>
                    (case Pet cfg (pet_active_id p) of None \<Rightarrow> [] | Some c \<Rightarrow> ptc_name c))
              in PublicPetView (pet_active_id p)
                   (if name = [] then pet_label @ decimal (unat (pet_active_id p)) else name)
                   (pet_food_active_until_ms p))"

definition publicFarmSnapshot ::
  "u64 \<Rightarrow> bytes \<Rightarrow> u64 \<Rightarrow> (u32, plot) fmap \<Rightarrow> career_view \<Rightarrow> compendium_view \<Rightarrow> pet_record option \<Rightarrow>
   config_snapshot option \<Rightarrow> farm_visit_snapshot" where
  "publicFarmSnapshot owner epoch seq plots career compendium pet config =
     FarmVisitSnapshot owner (FarmViewVersion epoch seq)
       (map (\<lambda>i. publicPlotView (the (fmlookup plots i))) (map_keys plots)) career
       (publicPetView pet config) compendium"

definition buildFarmViewPatch :: "u64 \<Rightarrow> bytes \<Rightarrow> u64 \<Rightarrow> u32 list \<Rightarrow> (u32, plot) fmap \<Rightarrow> farm_view_patch" where
  "buildFarmViewPatch owner epoch seq plotIDs plots =
     FarmViewPatch owner (FarmViewVersion epoch seq)
       (map (\<lambda>i. publicPlotView (the (fmlookup plots i)))
          (filter (\<lambda>i. fmlookup plots i \<noteq> None) (sort (remdups plotIDs))))"

text \<open>The mailbox job that publishes a change set; nothing happens for an empty one.\<close>

definition publishFarmViewChanges :: "u64 \<Rightarrow> domain_changes \<Rightarrow> farm_actor \<Rightarrow> farm_view_patch option \<times> farm_actor" where
  "publishFarmViewChanges owner changes a =
     (let plotIDs = PlotIDs changes
      in if plotIDs = [] then (None, a)
         else let seq = ac_farm_view_seq a + 1
              in (Some (buildFarmViewPatch owner (ac_farm_view_epoch a) seq plotIDs (st_plots (ac_state a))),
                  a\<lparr>ac_farm_view_seq := seq\<rparr>))"

text \<open>
  The snapshot a visitor gets on entering. It settles due crops first, like every command, and pushes
  them to the owner, but the counter stays and no change set is published.
\<close>

definition BuildPublicFarmSnapshot ::
  "u64 \<Rightarrow> config_snapshot option \<Rightarrow> int \<Rightarrow> farm_actor \<Rightarrow>
   (zone_error + farm_visit_snapshot \<times> maturity_event list) \<times> farm_actor" where
  "BuildPublicFarmSnapshot owner config now a =
     (case materializeDueMaturities (ac_state a) now of
        (False, _, s) \<Rightarrow> (Inl ErrMaturity, a\<lparr>ac_state := s\<rparr>)
      | (True, evs, s) \<Rightarrow>
          (Inr (publicFarmSnapshot owner (ac_farm_view_epoch a) (ac_farm_view_seq a) (st_plots s) (careerView s)
             (compendiumView s) (st_pet_state s) config, evs), a\<lparr>ac_state := s\<rparr>))"

section \<open>Quick summary\<close>

record farm_quick_summary =
  fq_player_id :: u64
  fq_owner_epoch :: u64
  fq_checkpoint_revision :: u64
  fq_has_growing_crop :: bool
  fq_earliest_mature_at_ms :: int
  fq_has_mature_crop_candidate :: bool
  fq_updated_at_ms :: int

definition quick_plot :: "plot \<Rightarrow> farm_quick_summary \<Rightarrow> farm_quick_summary" where
  "quick_plot p q =
     (let q1 = (if pl_state p = GROWING then
            (let g = q\<lparr>fq_has_growing_crop := True\<rparr>
             in case pl_estimated_mature_at_ms p of None \<Rightarrow> g
                | Some e \<Rightarrow> if fq_earliest_mature_at_ms g = 0 \<or> e < fq_earliest_mature_at_ms g
                             then g\<lparr>fq_earliest_mature_at_ms := e\<rparr> else g)
          else q)
      in if pl_state p = MATURE \<and> CanSteal p then q1\<lparr>fq_has_mature_crop_candidate := True\<rparr> else q1)"

text \<open>\<open>ord\<close> is the order in which Go iterates over the plots.\<close>

definition computeFarmQuickSummary :: "u32 list \<Rightarrow> state \<Rightarrow> farm_quick_summary" where
  "computeFarmQuickSummary ord s =
     fold (\<lambda>i. case fmlookup (st_plots s) i of None \<Rightarrow> id | Some p \<Rightarrow> quick_plot p) ord
       \<lparr>fq_player_id = st_player_id s, fq_owner_epoch = st_owner_epoch s,
        fq_checkpoint_revision = st_checkpoint_revision s, fq_has_growing_crop = False,
        fq_earliest_mature_at_ms = 0, fq_has_mature_crop_candidate = False, fq_updated_at_ms = st_updated_at_ms s\<rparr>"

section \<open>Visitors\<close>

definition visitor_plots :: "state \<Rightarrow> u32 \<Rightarrow> public_plot_view option" where
  "visitor_plots s i = map_option publicPlotView (fmlookup (st_plots s) i)"

record visitor =
  vis_plots :: "u32 \<Rightarrow> public_plot_view option"
  vis_version :: farm_view_version

definition enter_view :: "farm_visit_snapshot \<Rightarrow> visitor" where
  "enter_view f = \<lparr>vis_plots = map_of (map (\<lambda>v. (pub_plot_id v, v)) (fvs_plots f)), vis_version = fvs_version f\<rparr>"

definition apply_farm_patch :: "farm_view_patch \<Rightarrow> visitor \<Rightarrow> visitor" where
  "apply_farm_patch p v = \<lparr>vis_plots = fold (\<lambda>w m. m(pub_plot_id w \<mapsto> w)) (fvp_plot_upserts p) (vis_plots v),
     vis_version = fvp_version p\<rparr>"

text \<open>
  One mailbox job: a command, a tick of the maturity timer, or the publication of a change set that an
  earlier job has left.
\<close>

inductive farm_step :: "u64 \<Rightarrow> farm_actor \<times> domain_changes list \<times> visitor \<Rightarrow>
    farm_actor \<times> domain_changes list \<times> visitor \<Rightarrow> bool" for owner where
  command: "command_for ord req = Some h \<Longrightarrow> env_ok cfg now (ac_state a) \<Longrightarrow> farm_growth_ok (ac_state a) \<Longrightarrow>
    Handle C ord mailer name (Some cfg) caller epoch req now (ac_state a) = (Replied resp rep, s') \<Longrightarrow>
    farm_step owner (a, P, v) (a\<lparr>ac_state := s'\<rparr>, P @ [tn_changes rep], v)"
| tick: "env_ok cfg now (ac_state a) \<Longrightarrow> farm_growth_ok (ac_state a) \<Longrightarrow>
    materializeDueMaturities (ac_state a) now = (True, evs, s') \<Longrightarrow>
    farm_step owner (a, P, v) (a\<lparr>ac_state := s'\<rparr>, P @ [DomainChangesFromPlotIDs (maturedPlotIDs evs)], v)"
| publish: "publishFarmViewChanges owner ch a = (patch, a') \<Longrightarrow>
    farm_step owner (a, P1 @ ch # P2, v)
      (a', P1 @ P2, case patch of None \<Rightarrow> v | Some p \<Rightarrow> apply_farm_patch p v)"

inductive_cases farm_stepE: "farm_step owner x y"

inductive farm_run :: "u64 \<Rightarrow> farm_actor \<times> domain_changes list \<times> visitor \<Rightarrow>
    farm_actor \<times> domain_changes list \<times> visitor \<Rightarrow> bool" for owner where
  refl: "farm_run owner x x"
| step: "farm_run owner x y \<Longrightarrow> farm_step owner y z \<Longrightarrow> farm_run owner x z"

section \<open>Lemmas\<close>

lemma pub_plot_id_view [simp]: "pub_plot_id (publicPlotView p) = pl_id p"
  by (simp add: publicPlotView_def)

lemma fold_views:
  assumes "\<And>i. i \<in> set ids \<Longrightarrow> \<exists>p. fmlookup ps i = Some p \<and> pl_id p = i"
  shows "fold (\<lambda>w m. m(pub_plot_id w \<mapsto> w)) (map (\<lambda>i. publicPlotView (the (fmlookup ps i))) ids) m =
    (\<lambda>i. if i \<in> set ids then map_option publicPlotView (fmlookup ps i) else m i)"
  using assms
proof (induction ids arbitrary: m)
  case (Cons j ids)
  then obtain p where "fmlookup ps j = Some p" "pl_id p = j" by auto
  then show ?case using Cons by (auto simp: fun_eq_iff)
qed simp

lemma snapshot_view:
  assumes "plots_ok (st_plots s)"
  shows "vis_plots (enter_view (publicFarmSnapshot owner e q (st_plots s) c m p cfg)) = visitor_plots s"
proof
  fix i
  have "map_of (map (\<lambda>i. (pub_plot_id (publicPlotView (the (fmlookup (st_plots s) i))),
      publicPlotView (the (fmlookup (st_plots s) i)))) ids) i =
      (if i \<in> set ids then map_option publicPlotView (fmlookup (st_plots s) i) else None)"
    if "set ids \<subseteq> fset (fmdom (st_plots s))" for ids
    using that
  proof (induction ids)
    case (Cons j ids)
    then obtain p where "fmlookup (st_plots s) j = Some p" by (auto simp: fmlookup_dom_iff)
    then show ?case using Cons plots_okD [OF assms] by auto
  qed simp
  from this [of "map_keys (st_plots s)"]
  show "vis_plots (enter_view (publicFarmSnapshot owner e q (st_plots s) c m p cfg)) i = visitor_plots s i"
    by (auto simp: enter_view_def publicFarmSnapshot_def visitor_plots_def comp_def fmdom_notD)
qed

lemma set_PlotIDs [simp]: "set (PlotIDs c) = fset c"
  by (simp add: PlotIDs_def)

lemma patch_view:
  assumes "plots_ok (st_plots s)" "\<And>i. i |\<notin>| fmdom (st_plots s) \<Longrightarrow> vis_plots v i = None"
  shows "vis_plots (apply_farm_patch (buildFarmViewPatch owner e q (PlotIDs ch) (st_plots s)) v) =
    (\<lambda>i. if i |\<in>| ch then visitor_plots s i else vis_plots v i)"
proof -
  let ?ids = "filter (\<lambda>i. fmlookup (st_plots s) i \<noteq> None) (sort (remdups (PlotIDs ch)))"
  have k: "\<exists>p. fmlookup (st_plots s) i = Some p \<and> pl_id p = i" if "i \<in> set ?ids" for i
    using that plots_okD [OF assms(1)] by auto
  have f: "fold (\<lambda>w m. m(pub_plot_id w \<mapsto> w)) (map (\<lambda>i. publicPlotView (the (fmlookup (st_plots s) i))) ?ids) (vis_plots v) =
      (\<lambda>i. if i \<in> set ?ids then map_option publicPlotView (fmlookup (st_plots s) i) else vis_plots v i)"
    by (rule fold_views [OF k])
  show ?thesis
    unfolding apply_farm_patch_def buildFarmViewPatch_def visitor.simps farm_view_patch.sel f
    using assms(2) by (auto simp: fun_eq_iff visitor_plots_def fmdom_notI)
qed

text \<open>The invariant of the interleaving: the visitor is behind only where something is still to be published.\<close>

definition visitor_behind :: "farm_actor \<times> domain_changes list \<times> visitor \<Rightarrow> bool" where
  "visitor_behind = (\<lambda>(a, P, v). state_ok (ac_state a) \<and>
     (\<forall>i. (\<forall>ch \<in> set P. i |\<notin>| ch) \<or> fmlookup (st_plots (ac_state a)) i = None \<longrightarrow>
        vis_plots v i = visitor_plots (ac_state a) i) \<and>
     vis_version v = FarmViewVersion (ac_farm_view_epoch a) (ac_farm_view_seq a))"

text \<open>A turn that reports what it changed and keeps the set of plots leaves the visitor behind in no other plot.\<close>

lemma behind_turn:
  assumes "visitor_behind (a, P, v)" "state_ok s'"
    "\<And>i. i \<noteq> 0 \<Longrightarrow> fmlookup (st_plots s') i \<noteq> fmlookup (st_plots (ac_state a)) i \<Longrightarrow> i |\<in>| ch"
    "\<And>i. fmlookup (st_plots s') i = None \<longleftrightarrow> fmlookup (st_plots (ac_state a)) i = None"
  shows "visitor_behind (a\<lparr>ac_state := s'\<rparr>, P @ [ch], v)"
proof -
  have z: "fmlookup (st_plots (ac_state a)) 0 = None"
    using assms(1) plots_okD [OF state_ok_plotsD, of "ac_state a" 0]
    by (cases "fmlookup (st_plots (ac_state a)) 0") (auto simp: visitor_behind_def plot_ok_def)
  have "vis_plots v i = visitor_plots s' i"
    if i: "(\<forall>c \<in> set (P @ [ch]). i |\<notin>| c) \<or> fmlookup (st_plots s') i = None" for i
  proof (cases "fmlookup (st_plots s') i = None")
    case True
    then show ?thesis using assms(1) assms(4) [of i] by (simp add: visitor_behind_def visitor_plots_def)
  next
    case False
    then have "i \<noteq> 0" using assms(4) [of i] z by auto
    then have "fmlookup (st_plots s') i = fmlookup (st_plots (ac_state a)) i"
      using i False assms(3) [of i] by auto
    then show ?thesis using i False assms(1) by (auto simp: visitor_behind_def visitor_plots_def)
  qed
  then show ?thesis using assms(1,2) by (simp add: visitor_behind_def)
qed

lemma tick_changes:
  assumes "farm_growth_ok s" "now \<le> max_i64" "materializeDueMaturities s now = (True, evs, s')" "i \<noteq> 0"
    "fmlookup (st_plots s') i \<noteq> fmlookup (st_plots s) i"
  shows "i |\<in>| DomainChangesFromPlotIDs (maturedPlotIDs evs)"
proof -
  have "due now (st_plots s) i"
    using materialize_lookup [OF assms(1-3), of i] assms(5)
    by (cases "fmlookup (st_plots s) i") (auto simp: due_def mature_if_due_def split: if_splits)
  then have "i |\<in>| matured_changes evs" using materialize_changes [OF assms(1-3)] by auto
  then show ?thesis using fset_mergeChanges [of "{||}"] by (auto simp: matured_changes_def)
qed

lemma behind_publish:
  assumes "visitor_behind (a, P1 @ ch # P2, v)" "publishFarmViewChanges owner ch a = (patch, a')"
  shows "visitor_behind (a', P1 @ P2, case patch of None \<Rightarrow> v | Some p \<Rightarrow> apply_farm_patch p v)"
proof (cases "PlotIDs ch = []")
  case True
  then have "fset ch = {}" by (metis set_PlotIDs set_empty)
  then have "i |\<notin>| ch" for i by auto
  then show ?thesis using assms True by (auto simp: publishFarmViewChanges_def visitor_behind_def)
next
  case False
  have b: "plots_ok (st_plots (ac_state a))" "\<And>i. i |\<notin>| fmdom (st_plots (ac_state a)) \<Longrightarrow> vis_plots v i = None"
    using assms(1) by (auto simp: visitor_behind_def state_ok_plotsD visitor_plots_def fmdom_notD)
  show ?thesis
    using assms False patch_view [where v = v, OF b]
    by (auto simp: publishFarmViewChanges_def visitor_behind_def Let_def visitor_plots_def)
      (simp_all add: apply_farm_patch_def buildFarmViewPatch_def)
qed

lemma behind_step:
  assumes "farm_step owner x y" "visitor_behind x"
  shows "visitor_behind y"
  using assms
proof (cases rule: farm_step.cases)
  case (command ord req h cfg now a C mailer name caller epoch resp rep s' P v)
  then have ok: "state_ok (ac_state a)" using assms(2) by (simp add: visitor_behind_def)
  have b: "visitor_behind (a, P, v)" using command(1) assms(2) by simp
  show ?thesis unfolding command(2)
    by (rule behind_turn [OF b]) (use Handle_state_ok [OF ok command(4,3,6)] Handle_changes [OF ok command(4,5,3,6)]
      Handle_same_plots [OF ok command(4,5,3,6)] in auto)
next
  case (tick cfg now a evs s' P v)
  then have ok: "state_ok (ac_state a)" and b: "visitor_behind (a, P, v)" using assms(2) by (simp_all add: visitor_behind_def)
  have n: "now \<le> max_i64" using tick(3) by (simp add: env_ok_def)
  show ?thesis unfolding tick(2)
    by (rule behind_turn [OF b]) (use materialize_env [OF ok tick(3,5)] tick_changes [OF tick(4) n tick(5)]
      materialize_lookup [OF tick(4) n tick(5)] in auto)
next
  case (publish ch a patch a' P1 P2 v)
  then show ?thesis using behind_publish [of a P1 ch P2 v owner patch a'] assms(2) by simp
qed

lemma behind_run: "farm_run owner x y \<Longrightarrow> visitor_behind x \<Longrightarrow> visitor_behind y"
  by (induction rule: farm_run.induct) (auto intro: behind_step)

section \<open>A sample farm\<close>

definition garden_plot :: plot where
  "garden_plot = (empty_plot 1)\<lparr>pl_state := GROWING, pl_crop_id := 1, pl_crop_item_id := 2001, pl_crop_config_version := 2,
     pl_planted_at_ms := 1000, pl_maturity_scaled9 := 10000000000, pl_base_rate_scaled6 := 1000000,
     pl_last_settled_at_ms := 1000, pl_estimated_mature_at_ms := Some 11000, pl_base_yield := 4,
     pl_steal_quantity := 1, pl_max_steal_times := 2, pl_protected_owner_yield := 2\<rparr>"

definition garden :: state where
  "garden = (NewDevelopmentState 7 1000)\<lparr>st_plots := fmupd 1 garden_plot fmempty\<rparr>"

definition garden_actor :: farm_actor where
  "garden_actor = \<lparr>ac_state = garden, ac_farm_view_epoch = replicate 16 5, ac_farm_view_seq = 3\<rparr>"

lemma garden_fields [simp]:
  "pl_id garden_plot = 1" "pl_state garden_plot = GROWING" "pl_settled_scaled9 garden_plot = 0"
  "pl_maturity_scaled9 garden_plot = 10000000000" "pl_base_rate_scaled6 garden_plot = 1000000"
  "pl_last_settled_at_ms garden_plot = 1000" "pl_planted_at_ms garden_plot = 1000"
  "pl_estimated_mature_at_ms garden_plot = Some 11000" "pl_fertilizer_effect garden_plot = None" "pl_pest_effect garden_plot = None"
  "pl_crop_id garden_plot = 1" "pl_crop_item_id garden_plot = 2001" "pl_crop_config_version garden_plot = 2"
  "pl_base_yield garden_plot = 4" "pl_stolen_quantity garden_plot = 0" "pl_steal_count garden_plot = 0"
  "pl_steal_quantity garden_plot = 1" "pl_max_steal_times garden_plot = 2" "pl_protected_owner_yield garden_plot = 2"
  "pl_steal_visitor_ids garden_plot = []"
  by (simp_all add: garden_plot_def empty_plot_def)

lemma garden_plots [simp]: "st_plots garden = fmupd 1 garden_plot fmempty"
  by (simp add: garden_def)

lemma garden_growth: "farm_growth_ok garden"
proof -
  have "estimatePlotMatureAtMS garden_plot 1000 = Some 11000" by code_simp
  moreover have "growing_plot_ok garden_plot"
    by (simp add: growing_plot_ok_def growing_fields_ok_def max_i64_def span_ok_def breakpoints_def effects_of_def)
  ultimately have "estimate_ok garden_plot" by (simp add: estimate_ok_def)
  moreover have "rates_ok garden_plot"
    by (auto simp: rates_ok_def rate_valid_def effectiveRateScaled6_def effects_of_def in_i64_def max_i64_def)
  ultimately show ?thesis by (simp add: farm_growth_ok_def)
qed

lemma garden_ok: "state_ok garden"
proof -
  have "growing_ok garden_plot"
    by (simp add: growing_ok_def growing_fields_ok_def crop_identity_def max_i64_def in_i64_def effect_ok_def)
  then have "plot_ok garden_plot" by (simp add: plot_ok_def)
  then show ?thesis
    using state_ok_plots [OF initial_state_ok, of "fmupd 1 garden_plot fmempty" 7 1000] by (simp add: garden_def plots_ok_def)
qed

lemma garden_env:
  assumes "1000 \<le> now" "now \<le> 100000"
  shows "env_ok dev_config now garden"
proof -
  have "food_ok dev_config now empty_pet"
    unfolding food_ok_def
  proof (intro allI impI)
    fix i f assume "fmlookup (cfg_pet_food dev_config) i = Some f"
    then have "unat (pf_duration_seconds f) = 86400" using dev_pet_food [of i] by (auto simp: PetFood_def split: if_splits)
    then show "max now (pet_food_active_until_ms empty_pet) + int (unat (pf_duration_seconds f)) * 1000 \<le> max_i64"
      using assms by (simp add: empty_pet_def max_i64_def)
  qed
  moreover have "petOf garden = empty_pet" by (simp add: garden_def)
  ultimately show ?thesis using assms by (simp add: env_ok_def dev_config_ok dev_range clock_ok_def max_i64_def)
qed

definition ripe_garden :: state where
  "ripe_garden = snd (snd (materializeDueMaturities garden 11000))"

lemma garden_tick:
  "materializeDueMaturities garden 11000 = (True, [event_for 11000 ripe_garden (matured_at garden_plot 11000)], ripe_garden)"
  "st_plots ripe_garden = fmupd 1 (matured_at garden_plot 11000) fmempty"
proof -
  have k: "filter (due 11000 (st_plots garden)) (map_keys (st_plots garden)) = [1]" by code_simp
  have m: "materializeDueMaturities garden 11000 = (True, [event_for 11000
      (mature_bookkeeping 11000 (garden\<lparr>st_plots := fmupd 1 (matured_at garden_plot 11000) (st_plots garden)\<rparr>)) (matured_at garden_plot 11000)],
      mature_bookkeeping 11000 (garden\<lparr>st_plots := fmupd 1 (matured_at garden_plot 11000) (st_plots garden)\<rparr>))"
    using materialize_eq [OF garden_growth, of 11000] unfolding k by (simp add: max_i64_def Let_def)
  show "materializeDueMaturities garden 11000 = (True, [event_for 11000 ripe_garden (matured_at garden_plot 11000)], ripe_garden)"
    unfolding ripe_garden_def m by simp
  show "st_plots ripe_garden = fmupd 1 (matured_at garden_plot 11000) fmempty"
    unfolding ripe_garden_def m by (simp add: mature_bookkeeping_def)
qed

section \<open>Properties\<close>

text \<open>
  C11: a visitor who applies the published patches shows the farm. From the snapshot on entering, through
  any interleaving of commands, maturity ticks and publications, whenever nothing is left to publish the
  visitor's plots are the public projection of the farm as it is, and the visitor holds the current version.
\<close>

theorem visitor_follows:
  assumes "state_ok (ac_state a)" "now \<le> max_i64"
    "BuildPublicFarmSnapshot owner config now a = (Inr (f, evs), a0)"
    "farm_run owner (a0, [], enter_view f) (a', [], v')"
  shows "vis_plots v' = visitor_plots (ac_state a') \<and>
    vis_version v' = FarmViewVersion (ac_farm_view_epoch a') (ac_farm_view_seq a')"
proof -
  obtain s where m: "materializeDueMaturities (ac_state a) now = (True, evs, s)" and a0: "a0 = a\<lparr>ac_state := s\<rparr>"
    and f: "f = publicFarmSnapshot owner (ac_farm_view_epoch a) (ac_farm_view_seq a) (st_plots s) (careerView s)
             (compendiumView s) (st_pet_state s) config"
    using assms(3) by (auto simp: BuildPublicFarmSnapshot_def split: prod.splits bool.splits)
  have ok: "state_ok s"
    using materialize_loop_ok [OF assms(1,2)] m by (simp add: materializeDueMaturities_def)
  have "visitor_behind (a0, [], enter_view f)"
    using ok snapshot_view [OF state_ok_plotsD [OF ok]]
    by (simp add: visitor_behind_def a0 f) (simp add: enter_view_def publicFarmSnapshot_def)
  then have "visitor_behind (a', [], v')" by (rule behind_run [OF assms(4)])
  then show ?thesis by (simp add: visitor_behind_def fun_eq_iff)
qed

theorem visitor_follows_witness:
  "\<exists>f evs a0 a' v'. BuildPublicFarmSnapshot 7 None 1000 garden_actor = (Inr (f, evs), a0) \<and>
     farm_run 7 (a0, [], enter_view f) (a', [], v') \<and> map_option pub_can_steal (vis_plots v' 1) = Some True \<and>
     vis_version v' = FarmViewVersion (replicate 16 5) 4"
proof -
  have "filter (due 1000 (st_plots garden)) (map_keys (st_plots garden)) = []" by code_simp
  then have m: "materializeDueMaturities garden 1000 = (True, [], garden)"
    using materialize_eq [OF garden_growth, of 1000] by (simp add: max_i64_def)
  define f where "f = publicFarmSnapshot 7 (replicate 16 5) 3 (st_plots garden) (careerView garden)
      (compendiumView garden) (st_pet_state garden) None"
  have b: "BuildPublicFarmSnapshot 7 None 1000 garden_actor = (Inr (f, []), garden_actor)"
    by (simp add: BuildPublicFarmSnapshot_def garden_actor_def m f_def)
  define ch where "ch = DomainChangesFromPlotIDs (maturedPlotIDs [event_for 11000 ripe_garden (matured_at garden_plot 11000)])"
  define a1 where "a1 = garden_actor\<lparr>ac_state := ripe_garden\<rparr>"
  obtain patch a2 where p: "publishFarmViewChanges 7 ch a1 = (patch, a2)" by (metis prod.exhaust)
  have c: "PlotIDs ch = [1]"
    by (simp add: ch_def maturedPlotIDs_def event_for_def DomainChangesFromPlotIDs_def PlotChanged_def PlotIDs_def matured_at_def
        sorted_list_of_fset.rep_eq)
  have a2: "a2 = a1\<lparr>ac_farm_view_seq := 4\<rparr>" using p c by (auto simp: publishFarmViewChanges_def a1_def garden_actor_def)
  have s1: "farm_step 7 (garden_actor, [], enter_view f) (a1, [] @ [ch], enter_view f)"
    unfolding a1_def ch_def
    by (rule farm_step.tick [of dev_config 11000]) (use garden_env [of 11000] garden_growth garden_tick(1) in \<open>simp_all add: garden_actor_def\<close>)
  have s2: "farm_step 7 (a1, [] @ ch # [], enter_view f)
      (a2, [] @ [], case patch of None \<Rightarrow> enter_view f | Some p \<Rightarrow> apply_farm_patch p (enter_view f))"
    by (rule farm_step.publish [OF p])
  have r: "farm_run 7 (garden_actor, [], enter_view f)
      (a2, [], case patch of None \<Rightarrow> enter_view f | Some p \<Rightarrow> apply_farm_patch p (enter_view f))"
    using farm_run.step [OF farm_run.step [OF farm_run.refl s1] s2] by simp
  have "CanSteal (matured_at garden_plot 11000)" by (simp add: CanSteal_def matured_at_def)
  then have "map_option pub_can_steal (visitor_plots (ac_state a2) 1) = Some True"
    by (simp add: a2 a1_def visitor_plots_def garden_tick(2) publicPlotView_def)
  moreover have "state_ok (ac_state garden_actor)" "(1000 :: int) \<le> max_i64"
    "ac_farm_view_epoch a2 = replicate 16 5" "ac_farm_view_seq a2 = 4"
    using garden_ok by (simp_all add: garden_actor_def max_i64_def a2 a1_def)
  ultimately show ?thesis using visitor_follows [OF _ _ b r] b r by metis
qed

text \<open>
  C27: the snapshot a newcomer gets can leave earlier visitors behind for good. Entering settles due crops
  without publishing them or advancing the counter: afterwards the newcomer and an earlier visitor hold
  the same version of the same view, nothing is left to publish, and they show different plots.
\<close>

theorem entering_desynchronises_visitors:
  "\<exists>a a1 a2 f1 f2 evs1 evs2. state_ok (ac_state a) \<and> farm_growth_ok (ac_state a) \<and>
     BuildPublicFarmSnapshot 7 None 1000 a = (Inr (f1, evs1), a1) \<and>
     BuildPublicFarmSnapshot 7 None 11000 a1 = (Inr (f2, evs2), a2) \<and>
     vis_version (enter_view f1) = vis_version (enter_view f2) \<and>
     ac_farm_view_seq a2 = fv_seq (vis_version (enter_view f1)) \<and>
     vis_plots (enter_view f1) 1 \<noteq> vis_plots (enter_view f2) 1"
proof -
  have "filter (due 1000 (st_plots garden)) (map_keys (st_plots garden)) = []" by code_simp
  then have m: "materializeDueMaturities garden 1000 = (True, [], garden)"
    using materialize_eq [OF garden_growth, of 1000] by (simp add: max_i64_def)
  define view where "view s = publicFarmSnapshot 7 (replicate 16 5) 3 (st_plots s) (careerView s)
      (compendiumView s) (st_pet_state s) None" for s
  have b1: "BuildPublicFarmSnapshot 7 None 1000 garden_actor = (Inr (view garden, []), garden_actor)"
    by (simp add: BuildPublicFarmSnapshot_def garden_actor_def m view_def)
  have b2: "BuildPublicFarmSnapshot 7 None 11000 garden_actor =
      (Inr (view ripe_garden, [event_for 11000 ripe_garden (matured_at garden_plot 11000)]), garden_actor\<lparr>ac_state := ripe_garden\<rparr>)"
    by (simp add: BuildPublicFarmSnapshot_def garden_actor_def garden_tick view_def)
  have ok2: "plots_ok (st_plots ripe_garden)"
    using materialize_env(1) [OF garden_ok garden_env [of 11000] garden_tick(1)] by (simp add: state_ok_plotsD)
  have "vis_plots (enter_view (view garden)) 1 \<noteq> vis_plots (enter_view (view ripe_garden)) 1"
    unfolding view_def snapshot_view [OF state_ok_plotsD [OF garden_ok]] snapshot_view [OF ok2]
    by (simp add: visitor_plots_def garden_tick(2) publicPlotView_def matured_at_def)
  moreover have "vis_version (enter_view (view s)) = FarmViewVersion (replicate 16 5) 3" for s
    by (simp add: enter_view_def view_def publicFarmSnapshot_def)
  moreover have "state_ok (ac_state garden_actor)" "farm_growth_ok (ac_state garden_actor)"
    "ac_farm_view_seq (garden_actor\<lparr>ac_state := ripe_garden\<rparr>) = 3"
    using garden_ok garden_growth by (simp_all add: garden_actor_def)
  ultimately show ?thesis using b1 b2 by (metis farm_view_version.sel(2))
qed

end
