(* ===== verification/Friend_Steps.thy ===== *)
theory Friend_Steps
  imports Farm_View
begin

text \<open>
  The steps of friend interactions on the two players' actors: \<open>social_task_credit.go\<close>, \<open>steal_crop.go\<close>,
  \<open>friend_action_chance.go\<close>, \<open>apply_pest.go\<close>, \<open>catch_pest.go\<close>, \<open>help_clean_plot.go\<close>,
  \<open>friend_action_side_effect.go\<close> and the guard of \<open>pet.go\<close>.

  Each definition is one mailbox job of the Go method of the same name with the checks before it: the
  owner epoch must be the one the actor is loaded under. A job returns its error or result and the state it
  leaves, also where it fails after a change. Random draws (\<open>rollIntn\<close>) are arguments. Protobuf encoding of
  \<open>FriendActionResponse\<close> is the parameter \<open>friend_codec\<close>; it does not fail, so the branches for a marshalling
  error are left out. Writing the result to the store afterwards is not part of these definitions.
\<close>

section \<open>Messages and errors\<close>

datatype steal_guard = StealGuardOutcome
  (sg_pet_id: u32) (sg_pet_config_version: u64) (sg_food_active: bool) (sg_guard_probability_bps: u32)
  (sg_guard_triggered: bool) (sg_guard_penalty_configured: int) (sg_guard_penalty_applied: int)

datatype friend_response = FriendActionResponse
  (fa_interaction_id: bytes) (fa_visitor_patch: "state_patch option") (fa_farm_patch: "farm_view_patch option")
  (fa_steal_guard: "steal_guard option")

record friend_codec =
  marshal_friend :: "friend_response \<Rightarrow> bytes"
  unmarshal_friend :: "bytes \<Rightarrow> friend_response option"

definition friend_codec_ok :: "friend_codec \<Rightarrow> bool" where
  "friend_codec_ok FC \<longleftrightarrow> (\<forall>r. unmarshal_friend FC (marshal_friend FC r) = Some r)"

datatype friend_error =
    FriendNotOwner | FriendError string
  | ErrStealReservationConflict | ErrStealInventoryCapacity | ErrStealNotAvailable | ErrStealReservationMissing
  | ErrInsufficientActionChance | ErrActionReservationConflict | ErrActionReservationMissing
  | ErrPlotNotEligible | ErrPestAlreadyPresent | ErrPestSourceForbidden

text \<open>\<open>actorFor\<close> on a loaded actor, after the check for epoch zero.\<close>

definition epoch_error :: "u64 \<Rightarrow> state \<Rightarrow> friend_error option" where
  "epoch_error ownerEpoch s = (if ownerEpoch = 0 \<or> st_owner_epoch s \<noteq> ownerEpoch then Some FriendNotOwner else None)"

section \<open>Task credit\<close>

definition friendActionInitialChances :: u32 where "friendActionInitialChances = 100"
definition addFriendTaskID :: u32 where "addFriendTaskID = 6"
definition stealTaskID :: u32 where "stealTaskID = 7"
definition applyPestTaskID :: u32 where "applyPestTaskID = 8"

definition migrateFriendSchema :: "int \<Rightarrow> state \<Rightarrow> bool \<times> state" where
  "migrateFriendSchema now s = (case st_friend_actions s of
       Some _ \<Rightarrow> (False, s)
     | None \<Rightarrow> (True, s\<lparr>st_friend_actions := Some \<lparr>fa_apply_pest_chances = friendActionInitialChances,
           fa_catch_pest_chances = friendActionInitialChances, fa_help_clean_chances = friendActionInitialChances\<rparr>,
         st_checkpoint_revision := st_checkpoint_revision s + 1, st_updated_at_ms := now\<rparr>))"

text \<open>The loop over the tasks up to the first one with the identifier.\<close>

fun increment_first :: "u32 \<Rightarrow> task list \<Rightarrow> task list option" where
  "increment_first i [] = None"
| "increment_first i (t # ts) =
     (if tk_id t = i then Some ((if tk_current t < tk_target t then t\<lparr>tk_current := tk_current t + 1\<rparr> else t) # ts)
      else map_option ((#) t) (increment_first i ts))"

definition increment_task :: "u32 \<Rightarrow> state \<Rightarrow> state" where
  "increment_task i s =
     (if st_chapter s \<noteq> IN_PROGRESS then s
      else case increment_first i (st_tasks s) of None \<Rightarrow> s
      | Some ts \<Rightarrow> s\<lparr>st_tasks := ts, st_chapter := (if allTasksComplete ts then CLAIMABLE else IN_PROGRESS)\<rparr>)"

definition incrementAddFriendTask :: "state \<Rightarrow> state" where
  "incrementAddFriendTask = increment_task addFriendTaskID"

definition incrementStealTask :: "state \<Rightarrow> state" where
  "incrementStealTask = increment_task stealTaskID"

definition incrementApplyPestTask :: "state \<Rightarrow> state" where
  "incrementApplyPestTask = increment_task applyPestTaskID"

text \<open>\<open>PlayerSeq++; CheckpointRevision++; UpdatedAtMS = now\<close>.\<close>

definition advance_state :: "int \<Rightarrow> state \<Rightarrow> state" where
  "advance_state now s = s\<lparr>st_player_seq := st_player_seq s + 1,
     st_checkpoint_revision := st_checkpoint_revision s + 1, st_updated_at_ms := now\<rparr>"

definition applyFriendTaskCredit :: "bytes \<Rightarrow> int \<Rightarrow> state \<Rightarrow> bool \<times> state" where
  "applyFriendTaskCredit relationID now s =
     (let (_, s1) = migrateFriendSchema now s
      in if list_ex (\<lambda>(r, _). r = relationID) (st_friend_task_credits s1) then (False, s1)
         else let s2 = incrementAddFriendTask s1
              in (True, advance_state now (s2\<lparr>st_friend_task_credits := st_friend_task_credits s2 @ [(relationID, now)]\<rparr>)))"

definition ApplyFriendTaskCredit :: "u64 \<Rightarrow> bytes \<Rightarrow> int \<Rightarrow> state \<Rightarrow> (friend_error + bool \<times> u64) \<times> state" where
  "ApplyFriendTaskCredit ownerEpoch relationID now s =
     (if ownerEpoch = 0 then (Inl FriendNotOwner, s)
      else if length relationID \<noteq> 16 then (Inl (FriendError ''friend relation ID must be 16 bytes''), s)
      else case epoch_error ownerEpoch s of Some e \<Rightarrow> (Inl e, s)
      | None \<Rightarrow> let (newlyApplied, s1) = applyFriendTaskCredit relationID now s
                in (Inr (newlyApplied, st_player_seq s1), s1))"

section \<open>Receipts and reservations\<close>

definition findFriendReceipt :: "friend_receipt list \<Rightarrow> bytes \<Rightarrow> receipt_role \<Rightarrow> friend_receipt option" where
  "findFriendReceipt receipts interactionID role =
     find (\<lambda>r. rc_role r = role \<and> rc_interaction_id r = interactionID) receipts"

definition get_item :: "friend_reservation \<Rightarrow> u32" where
  "get_item r = (case fr_reserved_item_id r of None \<Rightarrow> 0 | Some i \<Rightarrow> i)"

definition get_quantity :: "friend_reservation \<Rightarrow> u32" where
  "get_quantity r = (case fr_reserved_quantity r of None \<Rightarrow> 0 | Some q \<Rightarrow> q)"

definition reservedQuantityForItem :: "state \<Rightarrow> u32 \<Rightarrow> u64" where
  "reservedQuantityForItem s itemID = sum_list (map (\<lambda>r. ucast (get_quantity r))
     (filter (\<lambda>r. fr_status r = RESERVATION_RESERVED \<and> fr_reserved_item_id r = Some itemID) (st_friend_reservations s)))"

definition projectedInventoryTypeCount :: "state \<Rightarrow> nat" where
  "projectedInventoryTypeCount s = fcard (fmdom (st_inventory s) |\<union>|
     fset_of_list (map get_item (filter (\<lambda>r. fr_status r = RESERVATION_RESERVED \<and> fr_reserved_item_id r \<noteq> None)
       (st_friend_reservations s))))"

text \<open>Go changes the first matching record through its pointer.\<close>

fun update_first :: "('a \<Rightarrow> bool) \<Rightarrow> ('a \<Rightarrow> 'a) \<Rightarrow> 'a list \<Rightarrow> 'a list" where
  "update_first P f [] = []"
| "update_first P f (x # xs) = (if P x then f x # xs else x # update_first P f xs)"

definition set_status :: "(friend_reservation \<Rightarrow> bool) \<Rightarrow> reservation_status \<Rightarrow> int \<Rightarrow> state \<Rightarrow> state" where
  "set_status P st now s = s\<lparr>st_friend_reservations :=
     update_first P (\<lambda>r. r\<lparr>fr_status := st, fr_updated_at_ms := now\<rparr>) (st_friend_reservations s)\<rparr>"

definition bump_revision :: "int \<Rightarrow> state \<Rightarrow> state" where
  "bump_revision now s = s\<lparr>st_checkpoint_revision := st_checkpoint_revision s + 1, st_updated_at_ms := now\<rparr>"

definition add_receipt :: "bytes \<Rightarrow> receipt_role \<Rightarrow> friend_action \<Rightarrow> receipt_status \<Rightarrow> bytes \<Rightarrow> int \<Rightarrow> state \<Rightarrow> state" where
  "add_receipt interactionID role action status body now s = s\<lparr>st_friend_receipts := st_friend_receipts s @
     [\<lparr>rc_interaction_id = interactionID, rc_role = role, rc_action = action, rc_status = status,
       rc_result_digest = sha256 body, rc_result_payload = body, rc_committed_at_ms = now\<rparr>]\<rparr>"

section \<open>Stealing: the visitor\<close>

text \<open>The result is \<open>alreadyReserved\<close> or the error, then \<open>mutated\<close> and the state.\<close>

definition reserveSteal :: "bytes \<Rightarrow> u32 \<Rightarrow> u32 \<Rightarrow> int \<Rightarrow> state \<Rightarrow> (friend_error + bool) \<times> bool \<times> state" where
  "reserveSteal interactionID cropItemID quantity now s =
     (if length interactionID \<noteq> 16 \<or> cropItemID = 0 \<or> quantity = 0
      then (Inl (FriendError ''invalid steal reservation request''), False, s)
      else let (mutated, s1) = migrateFriendSchema now s
      in case find (\<lambda>r. fr_interaction_id r = interactionID) (st_friend_reservations s1) of
        Some r \<Rightarrow>
          if fr_action r \<noteq> STEAL_FRIEND_CROP \<or> get_item r \<noteq> cropItemID \<or> get_quantity r \<noteq> quantity
          then (Inl ErrStealReservationConflict, mutated, s1)
          else (Inr True, mutated, s1)
      | None \<Rightarrow>
          let current = map_get (st_inventory s1) cropItemID; live = reservedQuantityForItem s1 cropItemID
          in if (ucast current :: u64) + live + ucast quantity > 300
             then (Inl ErrStealInventoryCapacity, mutated, s1)
             else if current = 0 \<and> live = 0 \<and> inventoryTypeLimit \<le> projectedInventoryTypeCount s1
             then (Inl ErrStealInventoryCapacity, mutated, s1)
             else (Inr False, True, bump_revision now (s1\<lparr>st_friend_reservations := st_friend_reservations s1 @
               [\<lparr>fr_interaction_id = interactionID, fr_action = STEAL_FRIEND_CROP, fr_status = RESERVATION_RESERVED,
                 fr_reserved_action_chances = 0, fr_reserved_item_id = Some cropItemID,
                 fr_reserved_quantity = Some quantity, fr_created_at_ms = now, fr_updated_at_ms = now\<rparr>]\<rparr>)))"

definition ReserveSteal :: "u64 \<Rightarrow> bytes \<Rightarrow> u32 \<Rightarrow> u32 \<Rightarrow> int \<Rightarrow> state \<Rightarrow> (friend_error + bool) \<times> bool \<times> state" where
  "ReserveSteal ownerEpoch interactionID cropItemID quantity now s =
     (case epoch_error ownerEpoch s of Some e \<Rightarrow> (Inl e, False, s)
      | None \<Rightarrow> reserveSteal interactionID cropItemID quantity now s)"

text \<open>
  The bite of the owner's dog: the penalty is capped by the visitor's coins, and the outcome that is
  stored records what was taken.
\<close>

definition steal_penalty :: "steal_guard option \<Rightarrow> state \<Rightarrow> int option \<times> steal_guard option \<times> state" where
  "steal_penalty guard s = (case guard of
       Some g \<Rightarrow>
         if sg_guard_triggered g \<and> 0 < sg_guard_penalty_configured g
         then let p = (if st_coins s < sg_guard_penalty_configured g then st_coins s else sg_guard_penalty_configured g);
                  s1 = s\<lparr>st_coins := st_coins s - p\<rparr>
              in (Some (st_coins s1), Some (case g of StealGuardOutcome a b c d e f _ \<Rightarrow> StealGuardOutcome a b c d e f p), s1)
         else (None, guard, s)
     | None \<Rightarrow> (None, None, s))"

definition commit_steal_turn ::
  "friend_codec \<Rightarrow> bytes \<Rightarrow> u32 \<Rightarrow> u32 \<Rightarrow> bytes \<Rightarrow> int \<Rightarrow> state \<Rightarrow> (friend_error + friend_response \<times> bool) \<times> state" where
  "commit_steal_turn FC interactionID cropItemID quantity ownerResultPayload now s =
     (case findFriendReceipt (st_friend_receipts s) interactionID RECEIPT_VISITOR of
        Some existing \<Rightarrow>
          (case unmarshal_friend FC (rc_result_payload existing) of
             None \<Rightarrow> (Inl (FriendError ''stored steal commit receipt is corrupt''), s)
           | Some stored \<Rightarrow> (Inr (stored, True), s))
      | None \<Rightarrow>
          let (_, s1) = migrateFriendSchema now s
          in case find (\<lambda>r. fr_interaction_id r = interactionID) (st_friend_reservations s1) of
            None \<Rightarrow> (Inl ErrStealReservationMissing, s1)
          | Some r \<Rightarrow>
              if fr_status r \<noteq> RESERVATION_RESERVED \<or> fr_action r \<noteq> STEAL_FRIEND_CROP \<or>
                 get_item r \<noteq> cropItemID \<or> get_quantity r \<noteq> quantity
              then (Inl ErrStealReservationMissing, s1)
              else let s2 = set_status (\<lambda>r. fr_interaction_id r = interactionID) RESERVATION_CONSUMED now s1;
                       newQuantity = map_get (st_inventory s2) cropItemID + quantity;
                       s3 = s2\<lparr>st_inventory := fmupd cropItemID newQuantity (st_inventory s2)\<rparr>
              in case addStolenCareer s3 quantity of
                   None \<Rightarrow> (Inl (FriendError ''career counter overflow''), s3)
                 | Some s4 \<Rightarrow>
                     let s5 = incrementStealTask s4;
                         owner = (if ownerResultPayload = [] then None else unmarshal_friend FC ownerResultPayload);
                         (coinBalance, guard, s6) = steal_penalty (Option.bind owner fa_steal_guard) s5;
                         response = FriendActionResponse interactionID
                           (Some (PlayerStatePatch coinBalance [ItemStackView cropItemID newQuantity] [] []
                              (Some (chapterView s6)) (Some (careerView s6)) None))
                           (Option.bind owner fa_farm_patch) guard
                     in (Inr (response, False), advance_state now (add_receipt interactionID RECEIPT_VISITOR
                           STEAL_FRIEND_CROP RECEIPT_COMMITTED (marshal_friend FC response) now s6)))"

definition CommitSteal ::
  "friend_codec \<Rightarrow> u64 \<Rightarrow> bytes \<Rightarrow> u32 \<Rightarrow> u32 \<Rightarrow> bytes \<Rightarrow> int \<Rightarrow> state \<Rightarrow> (friend_error + friend_response \<times> bool) \<times> state" where
  "CommitSteal FC ownerEpoch interactionID cropItemID quantity ownerResultPayload now s =
     (if ownerEpoch = 0 then (Inl FriendNotOwner, s)
      else if length interactionID \<noteq> 16 \<or> cropItemID = 0 \<or> quantity = 0
      then (Inl (FriendError ''invalid steal commit request''), s)
      else case epoch_error ownerEpoch s of Some e \<Rightarrow> (Inl e, s)
      | None \<Rightarrow> commit_steal_turn FC interactionID cropItemID quantity ownerResultPayload now s)"

definition ReleaseSteal :: "u64 \<Rightarrow> bytes \<Rightarrow> int \<Rightarrow> state \<Rightarrow> (friend_error + bool) \<times> state" where
  "ReleaseSteal ownerEpoch interactionID now s =
     (if ownerEpoch = 0 then (Inl FriendNotOwner, s)
      else if length interactionID \<noteq> 16 then (Inl (FriendError ''invalid steal release request''), s)
      else case epoch_error ownerEpoch s of Some e \<Rightarrow> (Inl e, s)
      | None \<Rightarrow>
          (case find (\<lambda>r. fr_interaction_id r = interactionID) (st_friend_reservations s) of
             None \<Rightarrow> (Inr False, s)
           | Some r \<Rightarrow>
               if fr_status r \<noteq> RESERVATION_RESERVED then (Inr False, s)
               else (Inr True, bump_revision now
                      (set_status (\<lambda>r. fr_interaction_id r = interactionID) RESERVATION_RELEASED now s))))"

section \<open>Stealing: the owner\<close>

text \<open>\<open>roll\<close> is what \<open>rollIntn(10)\<close> draws.\<close>

definition evaluateStealGuard :: "nat \<Rightarrow> state \<Rightarrow> config_snapshot \<Rightarrow> int \<Rightarrow> steal_guard" where
  "evaluateStealGuard roll s config nowMS =
     (let none = StealGuardOutcome 0 0 False 0 False 0 0
      in case st_pet_state s of None \<Rightarrow> none
      | Some pet \<Rightarrow>
          if pet_active_id pet = 0 then none
          else case Pet config (pet_active_id pet) of None \<Rightarrow> none
          | Some petCfg \<Rightarrow>
              if \<not> ptc_enabled petCfg then none
              else StealGuardOutcome (pet_active_id pet) (ptc_config_version petCfg) (petFoodActive (Some pet) nowMS)
                     10000 True (int roll + 1) 0)"

text \<open>
  An owner job answers with the payload, its digest and whether it was applied before; \<open>None\<close> as change
  set stands for a state that needs no publication.
\<close>

type_synonym owner_result = "(friend_error + bytes \<times> bytes \<times> bool) \<times> state"

definition replay_owner :: "bytes \<Rightarrow> state \<Rightarrow> (bytes \<times> bytes \<times> bool) option" where
  "replay_owner interactionID s =
     map_option (\<lambda>r. (rc_result_payload r, rc_result_digest r, True))
       (findFriendReceipt (st_friend_receipts s) interactionID RECEIPT_OWNER)"

definition stolen_plot :: "u64 \<Rightarrow> plot \<Rightarrow> plot" where
  "stolen_plot visitorID p = p\<lparr>pl_steal_count := pl_steal_count p + 1,
     pl_stolen_quantity := pl_stolen_quantity p + pl_steal_quantity p,
     pl_steal_visitor_ids := pl_steal_visitor_ids p @ [visitorID]\<rparr>"

definition apply_steal_turn ::
  "friend_codec \<Rightarrow> config_snapshot \<Rightarrow> nat \<Rightarrow> u64 \<Rightarrow> bytes \<Rightarrow> u32 \<Rightarrow> u32 \<Rightarrow> bytes \<Rightarrow> bytes \<Rightarrow> int \<Rightarrow> state \<Rightarrow> owner_result" where
  "apply_steal_turn FC config roll visitorID interactionID plotID expectedCropItemID actorEpoch farmViewEpoch now s =
     (case replay_owner interactionID s of
        Some r \<Rightarrow> (Inr r, s)
      | None \<Rightarrow>
          let (_, s1) = migrateFriendSchema now s
          in if actorEpoch \<noteq> farmViewEpoch then (Inl ErrStealNotAvailable, s1)
             else case fmlookup (st_plots s1) plotID of
               None \<Rightarrow> (Inl ErrStealNotAvailable, s1)
             | Some plot \<Rightarrow>
                 if \<not> CanSteal plot \<or> pl_crop_item_id plot \<noteq> expectedCropItemID \<or> visitorAlreadyStole plot visitorID
                 then (Inl ErrStealNotAvailable, s1)
                 else let s2 = s1\<lparr>st_plots := fmupd plotID (stolen_plot visitorID plot) (st_plots s1)\<rparr>;
                          body = marshal_friend FC (FriendActionResponse interactionID None None
                                   (Some (evaluateStealGuard roll s2 config now)))
                      in (Inr (body, sha256 body, False),
                          advance_state now (add_receipt interactionID RECEIPT_OWNER STEAL_FRIEND_CROP RECEIPT_APPLIED
                            body now s2)))"

text \<open>
  After a successful job that changed the owner, the plot is published; \<open>publish_result\<close> is that second
  mailbox job, run right after the first one.
\<close>

definition publish_result ::
  "u64 \<Rightarrow> u32 \<Rightarrow> owner_result \<Rightarrow> farm_actor \<Rightarrow>
   (friend_error + bytes \<times> bytes \<times> farm_view_patch option \<times> bool) \<times> farm_actor" where
  "publish_result ownerID plotID r a = (case r of
       (Inl e, s) \<Rightarrow> (Inl e, a\<lparr>ac_state := s\<rparr>)
     | (Inr (payload, digest, alreadyApplied), s) \<Rightarrow>
         if alreadyApplied then (Inr (payload, digest, None, True), a\<lparr>ac_state := s\<rparr>)
         else let (patch, a') = publishFarmViewChanges ownerID (PlotChanged {||} plotID) (a\<lparr>ac_state := s\<rparr>)
              in (Inr (payload, digest, patch, False), a'))"

definition ApplyStealOnOwner ::
  "friend_codec \<Rightarrow> config_snapshot \<Rightarrow> nat \<Rightarrow> u64 \<Rightarrow> u64 \<Rightarrow> u64 \<Rightarrow> bytes \<Rightarrow> u32 \<Rightarrow> u32 \<Rightarrow> bytes \<Rightarrow> int \<Rightarrow> farm_actor \<Rightarrow>
   (friend_error + bytes \<times> bytes \<times> farm_view_patch option \<times> bool) \<times> farm_actor" where
  "ApplyStealOnOwner FC config roll ownerID ownerEpoch visitorID interactionID plotID expectedCropItemID farmViewEpoch now a =
     (if ownerEpoch = 0 then (Inl FriendNotOwner, a)
      else if length interactionID \<noteq> 16 \<or> plotID = 0 \<or> expectedCropItemID = 0 \<or> length farmViewEpoch \<noteq> 16 \<or> visitorID = 0
      then (Inl (FriendError ''invalid steal apply request''), a)
      else case epoch_error ownerEpoch (ac_state a) of Some e \<Rightarrow> (Inl e, a)
      | None \<Rightarrow> publish_result ownerID plotID
          (apply_steal_turn FC config roll visitorID interactionID plotID expectedCropItemID (ac_farm_view_epoch a)
             farmViewEpoch now (ac_state a)) a)"

section \<open>The other owner actions\<close>

definition appendOwnerActionReceipt ::
  "friend_codec \<Rightarrow> bytes \<Rightarrow> friend_action \<Rightarrow> int \<Rightarrow> state \<Rightarrow> (bytes \<times> bytes) \<times> state" where
  "appendOwnerActionReceipt FC interactionID action nowMS s =
     (let body = marshal_friend FC (FriendActionResponse interactionID None None None)
      in ((body, sha256 body), add_receipt interactionID RECEIPT_OWNER action RECEIPT_APPLIED body nowMS s))"

text \<open>What the three jobs do once the plot is changed: migrate, add the receipt, advance.\<close>

definition finish_owner_action :: "friend_codec \<Rightarrow> bytes \<Rightarrow> friend_action \<Rightarrow> int \<Rightarrow> u32 \<Rightarrow> plot \<Rightarrow> state \<Rightarrow> owner_result" where
  "finish_owner_action FC interactionID action now plotID plot s =
     (let (_, s1) = migrateFriendSchema now (s\<lparr>st_plots := fmupd plotID plot (st_plots s)\<rparr>);
          ((payload, digest), s2) = appendOwnerActionReceipt FC interactionID action now s1
      in (Inr (payload, digest, False), advance_state now s2))"

definition pestEffectID :: "u64 \<Rightarrow> bytes \<Rightarrow> bytes" where
  "pestEffectID playerID interactionID =
     uuid_of_digest (sha256 (str_bytes ''pest-effect:'' @ be64 playerID @ interactionID))"

definition pest_effect :: "pest_config \<Rightarrow> u64 \<Rightarrow> bytes \<Rightarrow> u32 \<Rightarrow> int \<Rightarrow> timed_effect" where
  "pest_effect pest visitorID interactionID pestID now = \<lparr>eff_instance_id = pestEffectID visitorID interactionID,
     eff_kind = PEST, eff_item_or_pest_id = pestID, eff_source_player_id = Some visitorID,
     eff_config_version = pc_config_version pest, eff_modifier = Some (pc_modifier_scaled6 pest),
     eff_start_at_ms = now, eff_end_at_ms = to_i64 (now + pc_duration_ms pest)\<rparr>"

definition apply_pest_turn ::
  "friend_codec \<Rightarrow> pest_config \<Rightarrow> u64 \<Rightarrow> bytes \<Rightarrow> u32 \<Rightarrow> u32 \<Rightarrow> int \<Rightarrow> state \<Rightarrow> owner_result" where
  "apply_pest_turn FC pest visitorID interactionID plotID pestID now s =
     (case replay_owner interactionID s of
        Some r \<Rightarrow> (Inr r, s)
      | None \<Rightarrow>
        (case fmlookup (st_plots s) plotID of
           None \<Rightarrow> (Inl ErrPlotNotEligible, s)
         | Some plot \<Rightarrow>
             if pl_state plot \<noteq> GROWING then (Inl ErrPlotNotEligible, s)
             else if pl_pest_effect plot \<noteq> None then (Inl ErrPestAlreadyPresent, s)
             else if now > to_i64 (max_i64 - pc_duration_ms pest) then (Inl (FriendError ''pest duration overflows''), s)
             else case settleGrowingPlot plot now of
               (Some False, settled) \<Rightarrow>
                 let plot1 = settled\<lparr>pl_pest_effect := Some (pest_effect pest visitorID interactionID pestID now)\<rparr>
                 in (case estimatePlotMatureAtMS plot1 now of
                       None \<Rightarrow> (Inl (FriendError ''estimate''), s)
                     | Some estimate \<Rightarrow> finish_owner_action FC interactionID APPLY_PEST_TO_FRIEND now plotID
                         (plot1\<lparr>pl_estimated_mature_at_ms := Some estimate\<rparr>) s)
             | _ \<Rightarrow> (Inl ErrPlotNotEligible, s)))"

definition ApplyApplyPestOnOwner ::
  "friend_codec \<Rightarrow> config_snapshot \<Rightarrow> u64 \<Rightarrow> u64 \<Rightarrow> u64 \<Rightarrow> bytes \<Rightarrow> u32 \<Rightarrow> u32 \<Rightarrow> int \<Rightarrow> farm_actor \<Rightarrow>
   (friend_error + bytes \<times> bytes \<times> farm_view_patch option \<times> bool) \<times> farm_actor" where
  "ApplyApplyPestOnOwner FC config ownerID ownerEpoch visitorID interactionID plotID pestID now a =
     (if ownerEpoch = 0 then (Inl FriendNotOwner, a)
      else if length interactionID \<noteq> 16 \<or> plotID = 0 \<or> pestID = 0
      then (Inl (FriendError ''invalid apply pest request''), a)
      else case Pest config pestID of
        None \<Rightarrow> (Inl (FriendError ''pest config is unavailable''), a)
      | Some pest \<Rightarrow>
          if \<not> pc_enabled pest \<or> pc_duration_ms pest \<le> 0 \<or> pc_modifier_scaled6 pest \<ge> 0
          then (Inl (FriendError ''pest config is unavailable''), a)
          else case epoch_error ownerEpoch (ac_state a) of Some e \<Rightarrow> (Inl e, a)
          | None \<Rightarrow> publish_result ownerID plotID
              (apply_pest_turn FC pest visitorID interactionID plotID pestID now (ac_state a)) a)"

definition catch_pest_turn :: "friend_codec \<Rightarrow> u64 \<Rightarrow> bytes \<Rightarrow> u32 \<Rightarrow> int \<Rightarrow> state \<Rightarrow> owner_result" where
  "catch_pest_turn FC visitorID interactionID plotID now s =
     (case replay_owner interactionID s of
        Some r \<Rightarrow> (Inr r, s)
      | None \<Rightarrow>
        (case fmlookup (st_plots s) plotID of
           None \<Rightarrow> (Inl ErrPlotNotEligible, s)
         | Some plot \<Rightarrow>
             (case pl_pest_effect plot of
                None \<Rightarrow> (Inl ErrPlotNotEligible, s)
              | Some effect \<Rightarrow>
                if pl_state plot \<noteq> GROWING then (Inl ErrPlotNotEligible, s)
                else if eff_source_player_id effect = Some visitorID then (Inl ErrPestSourceForbidden, s)
                else case settleGrowingPlot plot now of
                  (Some False, settled) \<Rightarrow>
                    if pl_pest_effect settled = None then (Inl ErrPlotNotEligible, s)
                    else let plot1 = settled\<lparr>pl_pest_effect := None\<rparr>
                    in (case estimatePlotMatureAtMS plot1 now of
                          None \<Rightarrow> (Inl (FriendError ''estimate''), s)
                        | Some estimate \<Rightarrow> finish_owner_action FC interactionID CATCH_PEST_FOR_FRIEND now plotID
                            (plot1\<lparr>pl_estimated_mature_at_ms := Some estimate\<rparr>) s)
                | _ \<Rightarrow> (Inl ErrPlotNotEligible, s))))"

definition help_clean_turn :: "friend_codec \<Rightarrow> bytes \<Rightarrow> u32 \<Rightarrow> int \<Rightarrow> state \<Rightarrow> owner_result" where
  "help_clean_turn FC interactionID plotID now s =
     (case replay_owner interactionID s of
        Some r \<Rightarrow> (Inr r, s)
      | None \<Rightarrow>
        (case fmlookup (st_plots s) plotID of
           None \<Rightarrow> (Inl ErrPlotNotEligible, s)
         | Some plot \<Rightarrow>
             if \<not> CanHelpClean plot then (Inl ErrPlotNotEligible, s)
             else finish_owner_action FC interactionID HELP_CLEAN_FRIEND_PLOT now plotID (empty_plot plotID) s))"

text \<open>\<open>ApplyCatchPestOnOwner\<close> and \<open>ApplyHelpCleanOnOwner\<close> have the same frame.\<close>

definition owner_frame ::
  "string \<Rightarrow> (state \<Rightarrow> owner_result) \<Rightarrow> u64 \<Rightarrow> u64 \<Rightarrow> bytes \<Rightarrow> u32 \<Rightarrow> farm_actor \<Rightarrow>
   (friend_error + bytes \<times> bytes \<times> farm_view_patch option \<times> bool) \<times> farm_actor" where
  "owner_frame message turn ownerID ownerEpoch interactionID plotID a =
     (if ownerEpoch = 0 then (Inl FriendNotOwner, a)
      else if length interactionID \<noteq> 16 \<or> plotID = 0 then (Inl (FriendError message), a)
      else case epoch_error ownerEpoch (ac_state a) of Some e \<Rightarrow> (Inl e, a)
      | None \<Rightarrow> publish_result ownerID plotID (turn (ac_state a)) a)"

definition ApplyCatchPestOnOwner where
  "ApplyCatchPestOnOwner FC ownerID ownerEpoch visitorID interactionID plotID now =
     owner_frame ''invalid catch pest request'' (catch_pest_turn FC visitorID interactionID plotID now)
       ownerID ownerEpoch interactionID plotID"

definition ApplyHelpCleanOnOwner where
  "ApplyHelpCleanOnOwner FC ownerID ownerEpoch interactionID plotID now =
     owner_frame ''invalid help clean request'' (help_clean_turn FC interactionID plotID now)
       ownerID ownerEpoch interactionID plotID"

section \<open>Action chances\<close>

definition validChanceAction :: "friend_action \<Rightarrow> bool" where
  "validChanceAction action \<longleftrightarrow>
     action \<in> {APPLY_PEST_TO_FRIEND, CATCH_PEST_FOR_FRIEND, HELP_CLEAN_FRIEND_PLOT}"

fun chance_of :: "friend_action \<Rightarrow> friend_actions \<Rightarrow> u32 option" where
  "chance_of APPLY_PEST_TO_FRIEND c = Some (fa_apply_pest_chances c)"
| "chance_of CATCH_PEST_FOR_FRIEND c = Some (fa_catch_pest_chances c)"
| "chance_of HELP_CLEAN_FRIEND_PLOT c = Some (fa_help_clean_chances c)"
| "chance_of _ c = None"

definition actionChance :: "friend_actions option \<Rightarrow> friend_action \<Rightarrow> u32 option" where
  "actionChance fa action = Option.bind fa (chance_of action)"

text \<open>\<open>*chance--\<close>.\<close>

fun spend_chance :: "friend_action \<Rightarrow> friend_actions \<Rightarrow> friend_actions" where
  "spend_chance APPLY_PEST_TO_FRIEND c = c\<lparr>fa_apply_pest_chances := fa_apply_pest_chances c - 1\<rparr>"
| "spend_chance CATCH_PEST_FOR_FRIEND c = c\<lparr>fa_catch_pest_chances := fa_catch_pest_chances c - 1\<rparr>"
| "spend_chance HELP_CLEAN_FRIEND_PLOT c = c\<lparr>fa_help_clean_chances := fa_help_clean_chances c - 1\<rparr>"
| "spend_chance _ c = c"

definition reserved_chances :: "friend_action \<Rightarrow> state \<Rightarrow> u64" where
  "reserved_chances action s = sum_list (map (\<lambda>r. ucast (fr_reserved_action_chances r))
     (filter (\<lambda>r. fr_action r = action \<and> fr_status r = RESERVATION_RESERVED) (st_friend_reservations s)))"

definition reserveActionChance :: "bytes \<Rightarrow> friend_action \<Rightarrow> int \<Rightarrow> state \<Rightarrow> (friend_error + bool) \<times> bool \<times> state" where
  "reserveActionChance interactionID action now s =
     (if length interactionID \<noteq> 16 \<or> \<not> validChanceAction action
      then (Inl (FriendError ''invalid friend action reservation request''), False, s)
      else let (mutated, s1) = migrateFriendSchema now s
      in case find (\<lambda>r. fr_interaction_id r = interactionID) (st_friend_reservations s1) of
        Some r \<Rightarrow>
          if fr_action r \<noteq> action \<or> fr_reserved_action_chances r \<noteq> 1
          then (Inl ErrActionReservationConflict, mutated, s1) else (Inr True, mutated, s1)
      | None \<Rightarrow>
          (case actionChance (st_friend_actions s1) action of
             None \<Rightarrow> (Inl ErrInsufficientActionChance, mutated, s1)
           | Some chance \<Rightarrow>
               if (ucast chance :: u64) < reserved_chances action s1 + 1
               then (Inl ErrInsufficientActionChance, mutated, s1)
               else (Inr False, True, bump_revision now (s1\<lparr>st_friend_reservations := st_friend_reservations s1 @
                 [\<lparr>fr_interaction_id = interactionID, fr_action = action, fr_status = RESERVATION_RESERVED,
                   fr_reserved_action_chances = 1, fr_reserved_item_id = None, fr_reserved_quantity = None,
                   fr_created_at_ms = now, fr_updated_at_ms = now\<rparr>]\<rparr>))))"

definition ReserveActionChance :: "u64 \<Rightarrow> bytes \<Rightarrow> friend_action \<Rightarrow> int \<Rightarrow> state \<Rightarrow> (friend_error + bool) \<times> bool \<times> state" where
  "ReserveActionChance ownerEpoch interactionID action now s =
     (if ownerEpoch = 0 then (Inl FriendNotOwner, False, s)
      else if length interactionID \<noteq> 16 \<or> \<not> validChanceAction action
      then (Inl (FriendError ''invalid friend action reservation request''), False, s)
      else case epoch_error ownerEpoch s of Some e \<Rightarrow> (Inl e, False, s)
      | None \<Rightarrow> reserveActionChance interactionID action now s)"

definition commit_chance_turn ::
  "friend_codec \<Rightarrow> bytes \<Rightarrow> friend_action \<Rightarrow> bytes \<Rightarrow> int \<Rightarrow> state \<Rightarrow> (friend_error + friend_response \<times> bool) \<times> state" where
  "commit_chance_turn FC interactionID action ownerResultPayload now s =
     (case findFriendReceipt (st_friend_receipts s) interactionID RECEIPT_VISITOR of
        Some existing \<Rightarrow>
          (case unmarshal_friend FC (rc_result_payload existing) of
             None \<Rightarrow> (Inl (FriendError ''stored friend action commit receipt is corrupt''), s)
           | Some stored \<Rightarrow> (Inr (stored, True), s))
      | None \<Rightarrow>
          let (_, s1) = migrateFriendSchema now s
          in case find (\<lambda>r. fr_interaction_id r = interactionID) (st_friend_reservations s1) of
            None \<Rightarrow> (Inl ErrActionReservationMissing, s1)
          | Some r \<Rightarrow>
              if fr_action r \<noteq> action \<or> fr_status r \<noteq> RESERVATION_RESERVED \<or> fr_reserved_action_chances r \<noteq> 1
              then (Inl ErrActionReservationMissing, s1)
              else (case actionChance (st_friend_actions s1) action of
                      None \<Rightarrow> (Inl ErrInsufficientActionChance, s1)
                    | Some chance \<Rightarrow>
                        if chance = 0 then (Inl ErrInsufficientActionChance, s1)
                        else let s2 = s1\<lparr>st_friend_actions := map_option (spend_chance action) (st_friend_actions s1)\<rparr>;
                                 s3 = set_status (\<lambda>r. fr_interaction_id r = interactionID) RESERVATION_CONSUMED now s2;
                                 s4 = (if action = APPLY_PEST_TO_FRIEND then incrementApplyPestTask s3 else s3);
                                 owner = (if ownerResultPayload = [] then None else unmarshal_friend FC ownerResultPayload);
                                 response = FriendActionResponse interactionID
                                   (if action = APPLY_PEST_TO_FRIEND
                                    then Some (PlayerStatePatch None [] [] [] (Some (chapterView s4)) None None) else None)
                                   (Option.bind owner fa_farm_patch) None
                             in (Inr (response, False), advance_state now (add_receipt interactionID RECEIPT_VISITOR
                                   action RECEIPT_COMMITTED (marshal_friend FC response) now s4))))"

definition CommitActionChance ::
  "friend_codec \<Rightarrow> u64 \<Rightarrow> bytes \<Rightarrow> friend_action \<Rightarrow> bytes \<Rightarrow> int \<Rightarrow> state \<Rightarrow> (friend_error + friend_response \<times> bool) \<times> state" where
  "CommitActionChance FC ownerEpoch interactionID action ownerResultPayload now s =
     (if ownerEpoch = 0 then (Inl FriendNotOwner, s)
      else if length interactionID \<noteq> 16 \<or> \<not> validChanceAction action
      then (Inl (FriendError ''invalid friend action commit request''), s)
      else case epoch_error ownerEpoch s of Some e \<Rightarrow> (Inl e, s)
      | None \<Rightarrow> commit_chance_turn FC interactionID action ownerResultPayload now s)"

definition ReleaseActionChance :: "u64 \<Rightarrow> bytes \<Rightarrow> friend_action \<Rightarrow> int \<Rightarrow> state \<Rightarrow> (friend_error + bool) \<times> state" where
  "ReleaseActionChance ownerEpoch interactionID action now s =
     (if ownerEpoch = 0 then (Inl FriendNotOwner, s)
      else if length interactionID \<noteq> 16 \<or> \<not> validChanceAction action
      then (Inl (FriendError ''invalid friend action release request''), s)
      else case epoch_error ownerEpoch s of Some e \<Rightarrow> (Inl e, s)
      | None \<Rightarrow>
          let live = (\<lambda>r. fr_interaction_id r = interactionID \<and> fr_action r = action \<and> fr_status r = RESERVATION_RESERVED)
          in if list_ex live (st_friend_reservations s)
             then (Inr True, bump_revision now (set_status live RESERVATION_RELEASED now s))
             else (Inr False, s))"

section \<open>The direct path\<close>

text \<open>\<open>roll\<close> is what \<open>rollIntn(21)\<close> draws.\<close>

definition side_coin_delta :: "nat \<Rightarrow> friend_action \<Rightarrow> steal_guard option \<Rightarrow> int" where
  "side_coin_delta roll action guard = (case action of
       STEAL_FRIEND_CROP \<Rightarrow>
         (case guard of Some g \<Rightarrow> if sg_guard_triggered g \<and> sg_guard_penalty_configured g > 0
                                   then to_i64 (- sg_guard_penalty_configured g) else 0 | None \<Rightarrow> 0)
     | APPLY_PEST_TO_FRIEND \<Rightarrow> int roll - 10
     | _ \<Rightarrow> 1)"

definition side_effect_turn ::
  "friend_codec \<Rightarrow> nat \<Rightarrow> bytes \<Rightarrow> friend_action \<Rightarrow> bytes \<Rightarrow> int \<Rightarrow> state \<Rightarrow> (friend_error + friend_response \<times> bool) \<times> state" where
  "side_effect_turn FC roll interactionID action ownerResultPayload now s =
     (case findFriendReceipt (st_friend_receipts s) interactionID RECEIPT_VISITOR of
        Some existing \<Rightarrow>
          (case unmarshal_friend FC (rc_result_payload existing) of
             None \<Rightarrow> (Inl (FriendError ''stored visitor friend side-effect receipt is corrupt''), s)
           | Some stored \<Rightarrow> (Inr (stored, True), s))
      | None \<Rightarrow>
          let (_, s1) = migrateFriendSchema now s;
              owner = (if ownerResultPayload = [] then None else unmarshal_friend FC ownerResultPayload);
              guard = Option.bind owner fa_steal_guard;
              delta = side_coin_delta roll action guard;
              s2 = (if action = APPLY_PEST_TO_FRIEND then incrementApplyPestTask s1 else s1);
              applied = (if delta < 0 then - (if st_coins s2 < - delta then st_coins s2 else - delta) else delta);
              s3 = s2\<lparr>st_coins := to_i64 (st_coins s2 + applied)\<rparr>;
              guard' = map_option (\<lambda>g. if sg_guard_triggered g
                 then (case g of StealGuardOutcome a b c d e f _ \<Rightarrow> StealGuardOutcome a b c d e f (if applied < 0 then - applied else 0))
                 else g) guard;
              response = FriendActionResponse interactionID
                (Some (PlayerStatePatch (Some (st_coins s3)) [] [] [] (Some (chapterView s3)) None None)) None guard'
          in (Inr (response, False), advance_state now (add_receipt interactionID RECEIPT_VISITOR action
                RECEIPT_COMMITTED (marshal_friend FC response) now s3)))"

definition ApplyVisitorFriendSideEffect ::
  "friend_codec \<Rightarrow> nat \<Rightarrow> u64 \<Rightarrow> u64 \<Rightarrow> bytes \<Rightarrow> friend_action \<Rightarrow> bytes \<Rightarrow> int \<Rightarrow> state \<Rightarrow>
   (friend_error + friend_response \<times> bool) \<times> state" where
  "ApplyVisitorFriendSideEffect FC roll visitorID ownerEpoch interactionID action ownerResultPayload now s =
     (if ownerEpoch = 0 then (Inl FriendNotOwner, s)
      else if length interactionID \<noteq> 16 \<or> visitorID = 0
      then (Inl (FriendError ''invalid visitor friend side-effect request''), s)
      else if action = FRIEND_ACTION_UNSPECIFIED then (Inl (FriendError ''unsupported friend side-effect action''), s)
      else case epoch_error ownerEpoch s of Some e \<Rightarrow> (Inl e, s)
      | None \<Rightarrow> side_effect_turn FC roll interactionID action ownerResultPayload now s)"

section \<open>Frames\<close>

lemma migrate_frame [simp]:
  "st_plots (snd (migrateFriendSchema now s)) = st_plots s" "st_friend_receipts (snd (migrateFriendSchema now s)) = st_friend_receipts s"
  "st_friend_reservations (snd (migrateFriendSchema now s)) = st_friend_reservations s"
  "st_inventory (snd (migrateFriendSchema now s)) = st_inventory s" "st_coins (snd (migrateFriendSchema now s)) = st_coins s"
  "st_owner_epoch (snd (migrateFriendSchema now s)) = st_owner_epoch s" "state_ok (snd (migrateFriendSchema now s)) = state_ok s"
  "petOf (snd (migrateFriendSchema now s)) = petOf s" "st_pet_state (snd (migrateFriendSchema now s)) = st_pet_state s"
  "st_tasks (snd (migrateFriendSchema now s)) = st_tasks s" "st_chapter (snd (migrateFriendSchema now s)) = st_chapter s"
  "st_career (snd (migrateFriendSchema now s)) = st_career s"
  by (simp_all add: migrateFriendSchema_def state_ok_def petOf_def split: option.splits)

lemma advance_frame [simp]:
  "st_plots (advance_state now s) = st_plots s" "st_friend_receipts (advance_state now s) = st_friend_receipts s"
  "st_friend_reservations (advance_state now s) = st_friend_reservations s" "st_inventory (advance_state now s) = st_inventory s"
  "st_coins (advance_state now s) = st_coins s" "st_owner_epoch (advance_state now s) = st_owner_epoch s"
  "state_ok (advance_state now s) = state_ok s" "st_career (advance_state now s) = st_career s"
  by (simp_all add: advance_state_def state_ok_def petOf_def)

lemma bump_revision_frame [simp]:
  "st_plots (bump_revision now s) = st_plots s" "st_friend_receipts (bump_revision now s) = st_friend_receipts s"
  "st_friend_reservations (bump_revision now s) = st_friend_reservations s" "st_inventory (bump_revision now s) = st_inventory s"
  "st_coins (bump_revision now s) = st_coins s" "st_owner_epoch (bump_revision now s) = st_owner_epoch s"
  "state_ok (bump_revision now s) = state_ok s" "st_career (bump_revision now s) = st_career s"
  by (simp_all add: bump_revision_def state_ok_def petOf_def)

lemma add_receipt_frame [simp]:
  "st_plots (add_receipt i r a st b now s) = st_plots s" "st_inventory (add_receipt i r a st b now s) = st_inventory s"
  "st_friend_reservations (add_receipt i r a st b now s) = st_friend_reservations s" "st_coins (add_receipt i r a st b now s) = st_coins s"
  "st_owner_epoch (add_receipt i r a st b now s) = st_owner_epoch s" "state_ok (add_receipt i r a st b now s) = state_ok s"
  "st_career (add_receipt i r a st b now s) = st_career s"
  by (simp_all add: add_receipt_def state_ok_def petOf_def)

lemma set_status_frame [simp]:
  "st_plots (set_status P st now s) = st_plots s" "st_inventory (set_status P st now s) = st_inventory s"
  "st_coins (set_status P st now s) = st_coins s" "st_owner_epoch (set_status P st now s) = st_owner_epoch s"
  "st_friend_receipts (set_status P st now s) = st_friend_receipts s" "state_ok (set_status P st now s) = state_ok s"
  "st_career (set_status P st now s) = st_career s"
  by (simp_all add: set_status_def state_ok_def petOf_def)

lemma increment_task_frame [simp]:
  "st_plots (increment_task i s) = st_plots s" "st_inventory (increment_task i s) = st_inventory s"
  "st_coins (increment_task i s) = st_coins s" "st_owner_epoch (increment_task i s) = st_owner_epoch s"
  "st_friend_receipts (increment_task i s) = st_friend_receipts s" "st_career (increment_task i s) = st_career s"
  "st_friend_reservations (increment_task i s) = st_friend_reservations s"
  by (simp_all add: increment_task_def split: option.splits)

lemma increment_first_ok:
  "increment_first i ts = Some ts' \<Longrightarrow> \<forall>t \<in> set ts. task_ok t \<Longrightarrow> \<forall>t \<in> set ts'. task_ok t"
proof (induction ts arbitrary: ts')
  case (Cons t ts)
  have "task_ok (t\<lparr>tk_current := tk_current t + 1\<rparr>)" if "tk_current t < tk_target t" "task_ok t"
    using that by (simp add: task_ok_def inc_le)
  then show ?case using Cons by (auto split: if_splits)
qed simp

lemma increment_task_ok [simp]: "state_ok s \<Longrightarrow> state_ok (increment_task i s)"
  by (auto simp: increment_task_def state_ok_def petOf_def split: option.splits dest: increment_first_ok)

lemma replay_owner_receipts:
  "st_friend_receipts s' = st_friend_receipts s \<Longrightarrow> replay_owner i s' = replay_owner i s"
  by (simp add: replay_owner_def)

lemma replay_owner_added:
  assumes "replay_owner i s = None" "st_friend_receipts s' = st_friend_receipts s @ [r]" "rc_role r = RECEIPT_OWNER"
  shows "replay_owner j s' = (if rc_interaction_id r = j \<and> replay_owner j s = None
    then Some (rc_result_payload r, rc_result_digest r, True) else replay_owner j s)"
  using assms by (auto simp: replay_owner_def findFriendReceipt_def find_append split: option.splits)

section \<open>The contract of an owner action\<close>

text \<open>
  \<open>turn\<close> is the mailbox job of an action on plot \<open>plotID\<close>, as a function of the interaction identifier,
  the time and the owner's state.
\<close>

locale owner_action =
  fixes turn :: "bytes \<Rightarrow> int \<Rightarrow> state \<Rightarrow> owner_result" and plotID :: u32
  assumes replays: "replay_owner i s = Some r \<Longrightarrow> turn i now s = (Inr r, s)"
    and applies: "replay_owner i s = None \<Longrightarrow> turn i now s = (Inr (p, d, b), s') \<Longrightarrow>
      \<not> b \<and> d = sha256 p \<and> (\<exists>r. st_friend_receipts s' = st_friend_receipts s @ [r] \<and> rc_role r = RECEIPT_OWNER \<and>
        rc_interaction_id r = i \<and> rc_result_payload r = p \<and> rc_result_digest r = d)"
    and rejects: "replay_owner i s = None \<Longrightarrow> turn i now s = (Inl e, s') \<Longrightarrow>
      st_plots s' = st_plots s \<and> st_friend_receipts s' = st_friend_receipts s"
    and only_plot: "turn i now s = (Inr x, s') \<Longrightarrow> j \<noteq> plotID \<Longrightarrow> fmlookup (st_plots s') j = fmlookup (st_plots s) j"
begin

lemma once:
  assumes "turn i now s = (Inr (p, d, b), s')"
  shows "turn i now' s' = (Inr (p, d, True), s')"
proof (cases "replay_owner i s")
  case None
  obtain r where r: "st_friend_receipts s' = st_friend_receipts s @ [r]" "rc_role r = RECEIPT_OWNER"
    "rc_interaction_id r = i" "rc_result_payload r = p" "rc_result_digest r = d"
    using applies [OF None assms] by blast
  show ?thesis using replays [of i s' "(p, d, True)"] replay_owner_added [OF None r(1,2), of i] r None by simp
next
  case (Some r)
  then have "s' = s" "r = (p, d, b)" using replays [OF Some, of now] assms by auto
  moreover have b using Some \<open>r = (p, d, b)\<close> by (auto simp: replay_owner_def)
  ultimately show ?thesis using replays [OF Some] by simp
qed

lemma keeps_receipts:
  assumes "turn i now s = (res, s')" "replay_owner j s = Some r"
  shows "replay_owner j s' = Some r"
proof (cases "replay_owner i s")
  case None
  show ?thesis
  proof (cases res)
    case (Inl e)
    then show ?thesis using rejects [OF None] assms replay_owner_receipts by metis
  next
    case (Inr x)
    obtain p d b where x: "x = (p, d, b)" by (metis prod.exhaust)
    obtain q where "st_friend_receipts s' = st_friend_receipts s @ [q]" "rc_role q = RECEIPT_OWNER"
      using applies [OF None, of now p d b s'] assms(1) Inr x by auto
    then show ?thesis using replay_owner_added [OF None] assms(2) by simp
  qed
next
  case (Some q)
  then show ?thesis using replays [OF Some, of now] assms by simp
qed

lemma unchanged:
  assumes "turn i now s = (res, s')"
  shows "unchanged_outside {|plotID|} s s'"
proof (cases res)
  case (Inl e)
  then have n: "replay_owner i s = None" using assms replays [of i s] by (cases "replay_owner i s") auto
  then have "st_plots s' = st_plots s" using rejects [OF n, of now e s'] assms Inl by simp
  then show ?thesis by (simp add: unchanged_outside_def)
next
  case (Inr x)
  then show ?thesis using only_plot [of i now s x s'] assms by (simp add: unchanged_outside_def)
qed

end

lemma finish_owner_action_simps:
  assumes "finish_owner_action FC i act now plotID p s = (Inr (pl, d, b), s')"
  shows "\<not> b" "d = sha256 pl" "pl = marshal_friend FC (FriendActionResponse i None None None)"
    "st_plots s' = fmupd plotID p (st_plots s)"
    "\<exists>r. st_friend_receipts s' = st_friend_receipts s @ [r] \<and> rc_role r = RECEIPT_OWNER \<and> rc_interaction_id r = i \<and>
      rc_result_payload r = pl \<and> rc_result_digest r = d"
  using assms by (auto simp: finish_owner_action_def appendOwnerActionReceipt_def Let_def split: prod.splits)
    (auto simp: add_receipt_def migrateFriendSchema_def split: option.splits)

lemma finish_not_Inl [simp]: "finish_owner_action FC i act now plotID p s \<noteq> (Inl e, s')"
  by (simp add: finish_owner_action_def appendOwnerActionReceipt_def Let_def split: prod.splits)

text \<open>The shape of a successful job of each action.\<close>

lemma steal_applied:
  assumes "apply_steal_turn FC config roll visitorID i plotID item aepoch fepoch now s = (Inr (pl, d, b), s')"
    "replay_owner i s = None"
  obtains plot where "aepoch = fepoch" "fmlookup (st_plots s) plotID = Some plot" "CanSteal plot" "pl_crop_item_id plot = item"
    "\<not> visitorAlreadyStole plot visitorID" "\<not> b" "d = sha256 pl" "st_plots s' = fmupd plotID (stolen_plot visitorID plot) (st_plots s)"
    "pl = marshal_friend FC (FriendActionResponse i None None (Some (evaluateStealGuard roll s config now)))"
    "s' = advance_state now (add_receipt i RECEIPT_OWNER STEAL_FRIEND_CROP RECEIPT_APPLIED pl now
       ((snd (migrateFriendSchema now s))\<lparr>st_plots := fmupd plotID (stolen_plot visitorID plot) (st_plots s)\<rparr>))"
proof -
  let ?m = "snd (migrateFriendSchema now s)"
  obtain plot where p: "aepoch = fepoch" "fmlookup (st_plots s) plotID = Some plot" "CanSteal plot"
    "pl_crop_item_id plot = item" "\<not> visitorAlreadyStole plot visitorID"
    using assms by (auto simp: apply_steal_turn_def Let_def case_prod_beta split: if_splits option.splits)
  have g: "evaluateStealGuard roll (?m\<lparr>st_plots := x\<rparr>) config now = evaluateStealGuard roll s config now" for x
    by (simp add: evaluateStealGuard_def)
  show thesis
    by (rule that [OF p]) (use assms p in \<open>auto simp: apply_steal_turn_def Let_def case_prod_beta g\<close>)
qed

lemma pest_applied:
  assumes "apply_pest_turn FC pest visitorID i plotID pestID now s = (Inr x, s')" "replay_owner i s = None"
  obtains plot settled m where "fmlookup (st_plots s) plotID = Some plot" "pl_state plot = GROWING" "pl_pest_effect plot = None"
    "now \<le> to_i64 (max_i64 - pc_duration_ms pest)" "settleGrowingPlot plot now = (Some False, settled)"
    "estimatePlotMatureAtMS (settled\<lparr>pl_pest_effect := Some (pest_effect pest visitorID i pestID now)\<rparr>) now = Some m"
    "finish_owner_action FC i APPLY_PEST_TO_FRIEND now plotID
       (settled\<lparr>pl_pest_effect := Some (pest_effect pest visitorID i pestID now), pl_estimated_mature_at_ms := Some m\<rparr>) s = (Inr x, s')"
  using assms by (auto simp: apply_pest_turn_def Let_def split: if_splits option.splits prod.splits bool.splits)

lemma catch_applied:
  assumes "catch_pest_turn FC visitorID i plotID now s = (Inr x, s')" "replay_owner i s = None"
  obtains plot effect settled m where "fmlookup (st_plots s) plotID = Some plot" "pl_state plot = GROWING" "pl_pest_effect plot = Some effect"
    "eff_source_player_id effect \<noteq> Some visitorID" "settleGrowingPlot plot now = (Some False, settled)" "pl_pest_effect settled \<noteq> None"
    "estimatePlotMatureAtMS (settled\<lparr>pl_pest_effect := None\<rparr>) now = Some m"
    "finish_owner_action FC i CATCH_PEST_FOR_FRIEND now plotID
       (settled\<lparr>pl_pest_effect := None, pl_estimated_mature_at_ms := Some m\<rparr>) s = (Inr x, s')"
  using assms by (auto simp: catch_pest_turn_def Let_def split: if_splits option.splits prod.splits bool.splits)

lemma clean_applied:
  assumes "help_clean_turn FC i plotID now s = (Inr x, s')" "replay_owner i s = None"
  obtains plot where "fmlookup (st_plots s) plotID = Some plot" "pl_state plot = NEED_CLEANUP"
    "finish_owner_action FC i HELP_CLEAN_FRIEND_PLOT now plotID (empty_plot plotID) s = (Inr x, s')"
  using assms by (auto simp: help_clean_turn_def CanHelpClean_def split: if_splits option.splits)

interpretation steal_action: owner_action
  "\<lambda>i now. apply_steal_turn FC config roll visitorID i plotID item aepoch fepoch now" plotID
  for FC config roll visitorID plotID item aepoch fepoch
proof
  fix i s now p d b s' e j and x :: "bytes \<times> bytes \<times> bool" and r
  show "replay_owner i s = Some r \<Longrightarrow> apply_steal_turn FC config roll visitorID i plotID item aepoch fepoch now s = (Inr r, s)"
    by (simp add: apply_steal_turn_def)
  show "\<not> b \<and> d = sha256 p \<and> (\<exists>r. st_friend_receipts s' = st_friend_receipts s @ [r] \<and> rc_role r = RECEIPT_OWNER \<and>
      rc_interaction_id r = i \<and> rc_result_payload r = p \<and> rc_result_digest r = d)"
    if "replay_owner i s = None" "apply_steal_turn FC config roll visitorID i plotID item aepoch fepoch now s = (Inr (p, d, b), s')"
    by (rule steal_applied [OF that(2,1)]) (simp add: add_receipt_def)
  show "st_plots s' = st_plots s \<and> st_friend_receipts s' = st_friend_receipts s"
    if "replay_owner i s = None" "apply_steal_turn FC config roll visitorID i plotID item aepoch fepoch now s = (Inl e, s')"
    using that by (auto simp: apply_steal_turn_def Let_def case_prod_beta split: if_splits option.splits)
  show "fmlookup (st_plots s') j = fmlookup (st_plots s) j"
    if t: "apply_steal_turn FC config roll visitorID i plotID item aepoch fepoch now s = (Inr x, s')" "j \<noteq> plotID"
  proof (cases "replay_owner i s")
    case None
    obtain p d b where "x = (p, d, b)" by (metis prod.exhaust)
    with t(1) have "apply_steal_turn FC config roll visitorID i plotID item aepoch fepoch now s = (Inr (p, d, b), s')" by simp
    then show ?thesis by (rule steal_applied [OF _ None]) (use t(2) in auto)
  qed (use t in \<open>simp add: apply_steal_turn_def\<close>)
qed

text \<open>The other three share the ending \<open>finish_owner_action\<close>.\<close>

lemma owner_action_finish:
  assumes "\<And>i s r now. replay_owner i s = Some r \<Longrightarrow> turn i now s = (Inr r, s)"
    "\<And>i s now x s'. replay_owner i s = None \<Longrightarrow> turn i now s = (Inr x, s') \<Longrightarrow>
       \<exists>FC act p. finish_owner_action FC i act now plotID p s = (Inr x, s')"
    "\<And>i s now e s'. replay_owner i s = None \<Longrightarrow> turn i now s = (Inl e, s') \<Longrightarrow> s' = s"
  shows "owner_action turn plotID"
proof
  fix i s now p d b s' e j and x :: "bytes \<times> bytes \<times> bool" and r
  show "replay_owner i s = Some r \<Longrightarrow> turn i now s = (Inr r, s)" by (rule assms(1))
  show "\<not> b \<and> d = sha256 p \<and> (\<exists>r. st_friend_receipts s' = st_friend_receipts s @ [r] \<and> rc_role r = RECEIPT_OWNER \<and>
      rc_interaction_id r = i \<and> rc_result_payload r = p \<and> rc_result_digest r = d)"
    if t: "replay_owner i s = None" "turn i now s = (Inr (p, d, b), s')"
  proof -
    obtain FC act q where "finish_owner_action FC i act now plotID q s = (Inr (p, d, b), s')" using assms(2) [OF t] by blast
    then show ?thesis using finish_owner_action_simps [of FC i act now plotID q s p d b s'] by simp
  qed
  show "st_plots s' = st_plots s \<and> st_friend_receipts s' = st_friend_receipts s"
    if "replay_owner i s = None" "turn i now s = (Inl e, s')" using assms(3) [OF that] by simp
  show "fmlookup (st_plots s') j = fmlookup (st_plots s) j" if t: "turn i now s = (Inr x, s')" "j \<noteq> plotID"
  proof (cases "replay_owner i s")
    case None
    obtain p d b where "x = (p, d, b)" by (metis prod.exhaust)
    moreover obtain FC act q where "finish_owner_action FC i act now plotID q s = (Inr x, s')" using assms(2) [OF None t(1)] by blast
    ultimately show ?thesis using finish_owner_action_simps(4) t(2) by auto
  qed (use t assms(1) in auto)
qed

interpretation pest_action: owner_action "\<lambda>i now. apply_pest_turn FC pest visitorID i plotID pestID now" plotID
  for FC pest visitorID plotID pestID
proof (rule owner_action_finish)
  fix i s now x s'
  assume "replay_owner i s = None" "apply_pest_turn FC pest visitorID i plotID pestID now s = (Inr x, s')"
  then show "\<exists>FC act p. finish_owner_action FC i act now plotID p s = (Inr x, s')" by (metis pest_applied)
qed (auto simp: apply_pest_turn_def Let_def split: if_splits option.splits prod.splits bool.splits)

interpretation catch_action: owner_action "\<lambda>i now. catch_pest_turn FC visitorID i plotID now" plotID for FC visitorID plotID
proof (rule owner_action_finish)
  fix i s now x s'
  assume "replay_owner i s = None" "catch_pest_turn FC visitorID i plotID now s = (Inr x, s')"
  then show "\<exists>FC act p. finish_owner_action FC i act now plotID p s = (Inr x, s')" by (metis catch_applied)
qed (auto simp: catch_pest_turn_def Let_def split: if_splits option.splits prod.splits bool.splits)

interpretation clean_action: owner_action "\<lambda>i now. help_clean_turn FC i plotID now" plotID for FC plotID
proof (rule owner_action_finish)
  fix i s now x s'
  assume "replay_owner i s = None" "help_clean_turn FC i plotID now s = (Inr x, s')"
  then show "\<exists>FC act p. finish_owner_action FC i act now plotID p s = (Inr x, s')" by (metis clean_applied)
qed (auto simp: help_clean_turn_def split: if_splits option.splits)

section \<open>Owner actions keep the invariant\<close>

lemma stolen_plot_ok:
  assumes "plot_ok p" "CanSteal p"
  shows "plot_ok (stolen_plot v p)" "pl_id (stolen_plot v p) = pl_id p"
    "unat (harvestable (stolen_plot v p)) + unat (pl_steal_quantity p) = unat (harvestable p)"
    "unat (pl_protected_owner_yield p) \<le> unat (harvestable (stolen_plot v p))"
proof -
  have m: "pl_state p = MATURE" "mature_ok p" using assms plot_okD(2) by (auto simp: CanSteal_def)
  have c: "unat (pl_stolen_quantity p) + unat (pl_steal_quantity p) + unat (pl_protected_owner_yield p) \<le> unat (pl_base_yield p)"
    "pl_steal_count p < pl_max_steal_times p" using assms(2) by (auto simp: CanSteal_def)
  have b: "unat (pl_base_yield p) < 4294967296" using unsigned_less [of "pl_base_yield p"] by simp
  then have u: "unat (pl_stolen_quantity p + pl_steal_quantity p) = unat (pl_stolen_quantity p) + unat (pl_steal_quantity p)"
    using c(1) by (intro unat_add_bounded [of _ _ "unat (pl_base_yield p)"]) auto
  have le: "pl_stolen_quantity p + pl_steal_quantity p \<le> pl_base_yield p" "pl_stolen_quantity p \<le> pl_base_yield p"
    using u c(1) by (simp_all add: word_le_nat_alt)
  show "plot_ok (stolen_plot v p)"
    using m le c(2) assms(1) by (simp add: plot_ok_def stolen_plot_def mature_ok_def crop_identity_def inc_le)
  show "pl_id (stolen_plot v p) = pl_id p" by (simp add: stolen_plot_def)
  show "unat (harvestable (stolen_plot v p)) + unat (pl_steal_quantity p) = unat (harvestable p)"
    "unat (pl_protected_owner_yield p) \<le> unat (harvestable (stolen_plot v p))"
    using m(1) le u c(1) by (simp_all add: harvestable_def stolen_plot_def unat_sub_le)
qed

lemma finish_state_ok:
  assumes "finish_owner_action FC i act now plotID p s = (Inr x, s')" "state_ok s" "plot_ok p" "pl_id p = plotID"
  shows "state_ok s'"
proof -
  have "state_ok (s\<lparr>st_plots := fmupd plotID p (st_plots s)\<rparr>)"
    using assms plots_ok_upd [OF state_ok_plotsD [OF assms(2)], of p plotID] by (intro state_ok_plots) simp_all
  then show ?thesis
    using assms(1) by (auto simp: finish_owner_action_def appendOwnerActionReceipt_def Let_def case_prod_beta)
qed

lemma steal_turn_ok:
  assumes "state_ok s" "apply_steal_turn FC config roll visitorID i plotID item aepoch fepoch now s = (res, s')"
  shows "state_ok s'"
proof (cases "\<exists>x. res = Inr x \<and> replay_owner i s = None")
  case True
  then obtain p d b where n: "replay_owner i s = None" and
    t: "apply_steal_turn FC config roll visitorID i plotID item aepoch fepoch now s = (Inr (p, d, b), s')"
    using assms(2) by (metis prod.exhaust)
  show ?thesis
  proof (rule steal_applied [OF t n])
    fix plot
    assume p: "fmlookup (st_plots s) plotID = Some plot" "CanSteal plot"
      "s' = advance_state now (add_receipt i RECEIPT_OWNER STEAL_FRIEND_CROP RECEIPT_APPLIED p now
         ((snd (migrateFriendSchema now s))\<lparr>st_plots := fmupd plotID (stolen_plot visitorID plot) (st_plots s)\<rparr>))"
    have "plot_ok plot" "pl_id plot = plotID" using plots_okD [OF state_ok_plotsD [OF assms(1)] p(1)] by simp_all
    then have "plots_ok (fmupd plotID (stolen_plot visitorID plot) (st_plots s))"
      using stolen_plot_ok(1,2) [OF _ p(2)] by (intro plots_ok_upd state_ok_plotsD [OF assms(1)]) auto
    then show "state_ok s'"
      unfolding p(3) using state_ok_plots [of "snd (migrateFriendSchema now s)"] assms(1) by simp
  qed
next
  case False
  then show ?thesis
    using assms by (cases "replay_owner i s")
      (auto simp: apply_steal_turn_def Let_def case_prod_beta split: if_splits option.splits)
qed

lemma catch_turn_ok:
  assumes "state_ok s" "env_ok cfg now s" "catch_pest_turn FC visitorID i plotID now s = (Inr x, s')" "replay_owner i s = None"
  shows "state_ok s'"
proof (rule catch_applied [OF assms(3,4)])
  fix plot effect settled m
  assume d: "fmlookup (st_plots s) plotID = Some plot" "settleGrowingPlot plot now = (Some False, settled)"
    "estimatePlotMatureAtMS (settled\<lparr>pl_pest_effect := None\<rparr>) now = Some m"
    "finish_owner_action FC i CATCH_PEST_FOR_FRIEND now plotID
       (settled\<lparr>pl_pest_effect := None, pl_estimated_mature_at_ms := Some m\<rparr>) s = (Inr x, s')"
  note st = settle_clock [OF assms(1,2) d(1,2)]
  have "plot_ok (settled\<lparr>pl_pest_effect := None\<rparr>)" by (rule plot_ok_set_pest) (use st in simp_all)
  then show ?thesis
    using renew_estimate(1) [of "settled\<lparr>pl_pest_effect := None\<rparr>" m] st d(3)
    by (intro finish_state_ok [OF d(4) assms(1)]) simp_all
qed

lemma pest_effect_ok:
  assumes "0 < now" "planted \<le> now" "now \<le> to_i64 (max_i64 - pc_duration_ms pest)" "pest_valid pest"
    "pc_duration_ms pest \<le> max_i64" "pestID \<noteq> 0"
  shows "effect_ok PEST planted (Some (pest_effect pest visitorID i pestID now))"
proof -
  have d: "0 < pc_duration_ms pest" "pc_modifier_scaled6 pest \<noteq> 0" "pc_config_version pest \<noteq> 0"
    using assms(4) by (auto simp: pest_valid_def)
  have "in_i64 (max_i64 - pc_duration_ms pest)" using d(1) assms(5) by (simp add: in_i64_def max_i64_def)
  then have "now + pc_duration_ms pest \<le> max_i64" using assms(3) by simp
  then have "to_i64 (now + pc_duration_ms pest) = now + pc_duration_ms pest"
    using d(1) assms(1) by (intro to_i64_id in_i64_nonneg) auto
  then show ?thesis
    using assms d \<open>now + pc_duration_ms pest \<le> max_i64\<close> by (simp add: effect_ok_def pest_effect_def pestEffectID_def)
qed

lemma pest_turn_ok:
  assumes "state_ok s" "env_ok cfg now s" "pest_valid pest" "pc_duration_ms pest \<le> max_i64" "pestID \<noteq> 0"
    "apply_pest_turn FC pest visitorID i plotID pestID now s = (Inr x, s')" "replay_owner i s = None"
  shows "state_ok s'"
proof (rule pest_applied [OF assms(6,7)])
  fix plot settled m
  let ?e = "Some (pest_effect pest visitorID i pestID now)"
  assume d: "fmlookup (st_plots s) plotID = Some plot" "now \<le> to_i64 (max_i64 - pc_duration_ms pest)"
    "settleGrowingPlot plot now = (Some False, settled)"
    "estimatePlotMatureAtMS (settled\<lparr>pl_pest_effect := ?e\<rparr>) now = Some m"
    "finish_owner_action FC i APPLY_PEST_TO_FRIEND now plotID
       (settled\<lparr>pl_pest_effect := ?e, pl_estimated_mature_at_ms := Some m\<rparr>) s = (Inr x, s')"
  note st = settle_clock [OF assms(1,2) d(1,3)]
  have "pl_planted_at_ms settled \<le> now"
    using st assms(2) d(1) by (auto simp: env_ok_def clock_ok_def)
  then have "effect_ok PEST (pl_planted_at_ms settled) ?e"
    using assms(2) by (intro pest_effect_ok [OF _ _ d(2) assms(3-5)]) (simp_all add: env_ok_def)
  then have "plot_ok (settled\<lparr>pl_pest_effect := ?e\<rparr>)" by (intro plot_ok_set_pest) (use st in simp_all)
  then show ?thesis
    using renew_estimate(1) [of "settled\<lparr>pl_pest_effect := ?e\<rparr>" m] st d(4)
    by (intro finish_state_ok [OF d(5) assms(1)]) simp_all
qed

lemma clean_turn_ok:
  assumes "state_ok s" "help_clean_turn FC i plotID now s = (Inr x, s')" "replay_owner i s = None"
  shows "state_ok s'"
proof (rule clean_applied [OF assms(2,3)])
  fix plot
  assume d: "fmlookup (st_plots s) plotID = Some plot"
    "finish_owner_action FC i HELP_CLEAN_FRIEND_PLOT now plotID (empty_plot plotID) s = (Inr x, s')"
  have "plotID \<noteq> 0" using plots_okD [OF state_ok_plotsD [OF assms(1)] d(1)] by (auto simp: plot_ok_def)
  then show ?thesis by (intro finish_state_ok [OF d(2) assms(1)]) simp_all
qed

section \<open>Reserved capacity\<close>

definition live_for :: "u32 \<Rightarrow> friend_reservation \<Rightarrow> bool" where
  "live_for i r \<longleftrightarrow> fr_status r = RESERVATION_RESERVED \<and> fr_reserved_item_id r = Some i"

definition reserved_nat :: "friend_reservation list \<Rightarrow> u32 \<Rightarrow> nat" where
  "reserved_nat rs i = sum_list (map (\<lambda>r. unat (get_quantity r)) (filter (live_for i) rs))"

definition live_items :: "friend_reservation list \<Rightarrow> u32 set" where
  "live_items rs = {i. \<exists>r \<in> set rs. live_for i r}"

text \<open>
  Stock and live reservations of an item fit its stack, stock and reserved items fit the number of
  types, and no live reservation is for nothing.
\<close>

definition capacity_ok :: "state \<Rightarrow> bool" where
  "capacity_ok s \<longleftrightarrow> inventory_ok (st_inventory s) \<and>
     (\<forall>i. unat (map_get (st_inventory s) i) + reserved_nat (st_friend_reservations s) i \<le> inventoryStackLimit) \<and>
     card (fset (fmdom (st_inventory s)) \<union> live_items (st_friend_reservations s)) \<le> inventoryTypeLimit \<and>
     (\<forall>r \<in> set (st_friend_reservations s). \<forall>i. live_for i r \<longrightarrow> i \<noteq> 0 \<and> get_quantity r \<noteq> 0)"

inductive visitor_step :: "friend_codec \<Rightarrow> state \<Rightarrow> state \<Rightarrow> bool" for FC where
  reserve: "ReserveSteal epoch i item q now s = (res, mutated, s') \<Longrightarrow> visitor_step FC s s'"
| commit: "CommitSteal FC epoch i item q payload now s = (res2, s') \<Longrightarrow> visitor_step FC s s'"
| release: "ReleaseSteal epoch i now s = (res3, s') \<Longrightarrow> visitor_step FC s s'"

inductive visitor_run :: "friend_codec \<Rightarrow> state \<Rightarrow> state \<Rightarrow> bool" for FC where
  start: "visitor_run FC s s"
| more: "visitor_run FC s s' \<Longrightarrow> visitor_step FC s' s'' \<Longrightarrow> visitor_run FC s s''"

lemma reserved_nat_append: "reserved_nat (rs @ [r]) i = reserved_nat rs i + (if live_for i r then unat (get_quantity r) else 0)"
  by (simp add: reserved_nat_def)

lemma live_items_append: "live_items (rs @ [r]) = live_items rs \<union> {i. live_for i r}"
  by (auto simp: live_items_def)

lemma finite_live_items [simp]: "finite (live_items rs)"
proof -
  have "live_items rs \<subseteq> set (map get_item rs)" by (auto simp: live_items_def live_for_def get_item_def intro: rev_image_eqI)
  then show ?thesis by (rule finite_subset) simp
qed

lemma reserved_nat_zero:
  assumes "\<forall>r \<in> set rs. \<forall>i. live_for i r \<longrightarrow> get_quantity r \<noteq> 0" "i \<in> live_items rs"
  shows "reserved_nat rs i \<noteq> 0"
proof -
  obtain r where "r \<in> set rs" "live_for i r" using assms(2) by (auto simp: live_items_def)
  then have "unat (get_quantity r) \<le> reserved_nat rs i" "0 < unat (get_quantity r)"
    using assms(1) by (auto simp: reserved_nat_def unat_gt_0 intro!: member_le_sum_list)
  then show ?thesis by simp
qed

lemma reservedQuantity_nat:
  assumes "reserved_nat (st_friend_reservations s) i \<le> 300"
  shows "unat (reservedQuantityForItem s i) = reserved_nat (st_friend_reservations s) i"
proof -
  have "sum_list (map (\<lambda>r. ucast (get_quantity r) :: u64) rs) = of_nat (sum_list (map (\<lambda>r. unat (get_quantity r)) rs))" for rs
    by (induction rs) simp_all
  then have "reservedQuantityForItem s i = of_nat (reserved_nat (st_friend_reservations s) i)"
    by (simp add: reservedQuantityForItem_def reserved_nat_def live_for_def [abs_def])
  then show ?thesis using assms by (simp add: unat_of_nat)
qed

lemma projected_card:
  "projectedInventoryTypeCount s = card (fset (fmdom (st_inventory s)) \<union> live_items (st_friend_reservations s))"
proof -
  have i: "set (map get_item (filter (\<lambda>r. fr_status r = RESERVATION_RESERVED \<and> fr_reserved_item_id r \<noteq> None) rs)) = live_items rs" for rs
    by (force simp: live_items_def live_for_def get_item_def image_iff)
  show ?thesis
    unfolding projectedInventoryTypeCount_def fcard.rep_eq sup_fset.rep_eq fset_of_list.rep_eq i ..
qed

lemma capacity_migrate [simp]: "capacity_ok (snd (migrateFriendSchema now s)) = capacity_ok s"
  by (simp add: capacity_ok_def)

lemma capacity_frame:
  "st_inventory s' = st_inventory s \<Longrightarrow> st_friend_reservations s' = st_friend_reservations s \<Longrightarrow> capacity_ok s' = capacity_ok s"
  by (simp add: capacity_ok_def)

text \<open>A new reservation.\<close>

lemma capacity_reserve:
  assumes "capacity_ok s" "item \<noteq> 0" "q \<noteq> 0"
    "\<not> (ucast (map_get (st_inventory s) item) :: u64) + reservedQuantityForItem s item + ucast q > 300"
    "\<not> (map_get (st_inventory s) item = 0 \<and> reservedQuantityForItem s item = 0 \<and>
        inventoryTypeLimit \<le> projectedInventoryTypeCount s)"
    "fr_status r = RESERVATION_RESERVED" "fr_reserved_item_id r = Some item" "fr_reserved_quantity r = Some q"
    "st_inventory s' = st_inventory s" "st_friend_reservations s' = st_friend_reservations s @ [r]"
  shows "capacity_ok s'"
proof -
  let ?rs = "st_friend_reservations s"
  have r: "live_for i r \<longleftrightarrow> i = item" "get_quantity r = q" for i
    using assms(6-8) by (auto simp: live_for_def get_quantity_def)
  have c: "unat (map_get (st_inventory s) i) + reserved_nat ?rs i \<le> 300" for i
    using assms(1) by (simp add: capacity_ok_def inventoryStackLimit_def)
  have n: "unat (reservedQuantityForItem s item) = reserved_nat ?rs item" using c [of item] by (intro reservedQuantity_nat) simp
  have q: "unat q < 4294967296" using unsigned_less [of q] by simp
  have "unat ((ucast (map_get (st_inventory s) item) :: u64) + reservedQuantityForItem s item + ucast q) =
      unat (map_get (st_inventory s) item) + reserved_nat ?rs item + unat q"
    using c [of item] n q by (simp add: unat_word_ariths unsigned_ucast_eq take_bit_nat_eq_self)
  then have fit: "unat (map_get (st_inventory s) item) + reserved_nat ?rs item + unat q \<le> 300"
    using assms(4) by (simp add: word_less_nat_alt not_less)
  have types: "card (fset (fmdom (st_inventory s)) \<union> (live_items ?rs \<union> {item})) \<le> inventoryTypeLimit"
  proof (cases "item \<in> fset (fmdom (st_inventory s)) \<union> live_items ?rs")
    case True
    then have "fset (fmdom (st_inventory s)) \<union> (live_items ?rs \<union> {item}) = fset (fmdom (st_inventory s)) \<union> live_items ?rs" by auto
    then show ?thesis using assms(1) by (simp add: capacity_ok_def)
  next
    case False
    then have "fmlookup (st_inventory s) item = None" "reserved_nat ?rs item = 0"
      by (auto simp: fmdom_notD reserved_nat_def live_items_def filter_empty_conv intro!: sum_list_nonneg_eq_0_iff [THEN iffD2])
    then have "map_get (st_inventory s) item = 0" "reservedQuantityForItem s item = 0"
      using n by (simp_all add: map_get_def unat_eq_0)
    then have "projectedInventoryTypeCount s < inventoryTypeLimit" using assms(5) by simp
    then show ?thesis unfolding projected_card by (simp add: card_insert_if)
  qed
  show ?thesis
    using assms(1-3) c fit types r
    by (auto simp: capacity_ok_def assms(9,10) reserved_nat_append live_items_append inventoryStackLimit_def)
qed

lemma update_first_split:
  "find P xs = Some x \<Longrightarrow> \<exists>us vs. xs = us @ x # vs \<and> (\<forall>u \<in> set us. \<not> P u) \<and> update_first P f xs = us @ f x # vs"
proof (induction xs)
  case (Cons y ys)
  show ?case
  proof (cases "P y")
    case True
    then show ?thesis using Cons.prems by (intro exI [of _ "[]"] exI [of _ ys]) simp
  next
    case False
    then obtain us vs where "ys = us @ x # vs" "\<forall>u \<in> set us. \<not> P u" "update_first P f ys = us @ f x # vs" using Cons by auto
    then show ?thesis using False by (intro exI [of _ "y # us"] exI [of _ vs]) simp
  qed
qed simp

text \<open>Closing the first matching reservation, after moving what it held into the stock or not.\<close>

lemma capacity_close:
  assumes "capacity_ok s" "find P (st_friend_reservations s) = Some r" "st \<noteq> RESERVATION_RESERVED"
    "st_friend_reservations s' = st_friend_reservations (set_status P st now s)"
    "st_inventory s' = st_inventory s \<or>
     live_for item r \<and> get_quantity r = q \<and> st_inventory s' = fmupd item (map_get (st_inventory s) item + q) (st_inventory s)"
  shows "capacity_ok s'"
proof -
  let ?c = "r\<lparr>fr_status := st, fr_updated_at_ms := now\<rparr>"
  obtain us vs where rs: "st_friend_reservations s = us @ r # vs" "st_friend_reservations s' = us @ ?c # vs"
    using update_first_split [OF assms(2), of "\<lambda>r. r\<lparr>fr_status := st, fr_updated_at_ms := now\<rparr>"] assms(4)
    by (auto simp: set_status_def)
  have d: "\<not> live_for i ?c" for i using assms(3) by (simp add: live_for_def)
  have n: "reserved_nat (st_friend_reservations s) i =
      reserved_nat (st_friend_reservations s') i + (if live_for i r then unat (get_quantity r) else 0)" for i
    using d [of i] unfolding rs by (simp add: reserved_nat_def)
  have l: "live_items (st_friend_reservations s) = live_items (st_friend_reservations s') \<union> {i. live_for i r}"
    using d unfolding rs by (auto simp: live_items_def)
  have fin: "finite (fset (fmdom (st_inventory s)) \<union> live_items (st_friend_reservations s))" by simp
  have c: "unat (map_get (st_inventory s) i) + reserved_nat (st_friend_reservations s) i \<le> 300" for i
    using assms(1) by (simp add: capacity_ok_def inventoryStackLimit_def)
  have "\<forall>r \<in> set (us @ r # vs). \<forall>i. live_for i r \<longrightarrow> i \<noteq> 0 \<and> get_quantity r \<noteq> 0"
    using assms(1) unfolding capacity_ok_def rs(1) by blast
  then have cl: "card (fset (fmdom (st_inventory s)) \<union> live_items (st_friend_reservations s)) \<le> inventoryTypeLimit"
    "\<forall>r \<in> set (us @ ?c # vs). \<forall>i. live_for i r \<longrightarrow> i \<noteq> 0 \<and> get_quantity r \<noteq> 0" "inventory_ok (st_inventory s)"
    using assms(1) d by (auto simp: capacity_ok_def)
  from assms(5) show ?thesis
  proof
    assume i: "st_inventory s' = st_inventory s"
    have "fset (fmdom (st_inventory s)) \<union> live_items (st_friend_reservations s') \<subseteq>
        fset (fmdom (st_inventory s)) \<union> live_items (st_friend_reservations s)" using l by auto
    then have "card (fset (fmdom (st_inventory s)) \<union> live_items (st_friend_reservations s')) \<le> inventoryTypeLimit"
      using card_mono [OF fin] cl(1) by (meson le_trans)
    moreover have "unat (map_get (st_inventory s) j) + reserved_nat (st_friend_reservations s') j \<le> 300" for j
      using c [of j] n [of j] by simp
    ultimately show ?thesis using cl(2,3) by (simp add: capacity_ok_def i inventoryStackLimit_def rs(2))
  next
    assume i: "live_for item r \<and> get_quantity r = q \<and> st_inventory s' = fmupd item (map_get (st_inventory s) item + q) (st_inventory s)"
    have r: "live_for j r \<longleftrightarrow> j = item" for j using i by (auto simp: live_for_def)
    have nz: "item \<noteq> 0" "q \<noteq> 0" using assms(1) i unfolding capacity_ok_def rs(1) by auto
    have "unat (map_get (st_inventory s) item) + unat q \<le> 300" using c [of item] n [of item] i by simp
    then have a: "unat (map_get (st_inventory s) item + q) = unat (map_get (st_inventory s) item) + unat q"
      by (rule unat_add_bounded) simp
    then have "0 < map_get (st_inventory s) item + q" "map_get (st_inventory s) item + q \<le> 300"
      using nz(2) \<open>unat (map_get (st_inventory s) item) + unat q \<le> 300\<close>
      by (simp_all add: word_less_nat_alt word_le_nat_alt unat_gt_0)
    then have ok: "inventory_ok (st_inventory s')" using cl(3) nz(1) i inventory_ok_upd by simp
    have "unat (map_get (st_inventory s') j) + reserved_nat (st_friend_reservations s') j \<le> 300" for j
      using c [of j] n [of j] i a r by (auto simp: map_simps split: if_splits)
    moreover have "card (fset (fmdom (st_inventory s')) \<union> live_items (st_friend_reservations s')) \<le> inventoryTypeLimit"
    proof -
      have "fset (fmdom (st_inventory s')) \<union> live_items (st_friend_reservations s') \<subseteq>
          fset (fmdom (st_inventory s)) \<union> live_items (st_friend_reservations s)" using i l r by auto
      then show ?thesis using card_mono [OF fin] cl(1) by (meson le_trans)
    qed
    ultimately show ?thesis using cl(2) ok by (simp add: capacity_ok_def inventoryStackLimit_def rs(2))
  qed
qed

lemma addStolenCareer_frame:
  assumes "addStolenCareer s q = Some s'"
  shows "st_inventory s' = st_inventory s" "st_friend_reservations s' = st_friend_reservations s" "st_plots s' = st_plots s"
    "st_friend_receipts s' = st_friend_receipts s" "st_owner_epoch s' = st_owner_epoch s" "state_ok s' = state_ok s"
    "st_coins s' = st_coins s"
  using assms by (auto simp: addStolenCareer_def state_ok_def petOf_def split: if_splits option.splits)

lemma steal_penalty_frame [simp]:
  "st_inventory (snd (snd (steal_penalty g s))) = st_inventory s"
  "st_friend_reservations (snd (snd (steal_penalty g s))) = st_friend_reservations s"
  "st_friend_receipts (snd (snd (steal_penalty g s))) = st_friend_receipts s"
  "st_owner_epoch (snd (snd (steal_penalty g s))) = st_owner_epoch s"
  "st_career (snd (snd (steal_penalty g s))) = st_career s"
  by (simp_all add: steal_penalty_def Let_def split: option.splits)

text \<open>The state after the reservation is consumed and the crop is in the stock.\<close>

definition credited_state :: "bytes \<Rightarrow> u32 \<Rightarrow> u32 \<Rightarrow> int \<Rightarrow> state \<Rightarrow> state" where
  "credited_state i item q now s = (set_status (\<lambda>r. fr_interaction_id r = i) RESERVATION_CONSUMED now
     (snd (migrateFriendSchema now s)))\<lparr>st_inventory := fmupd item (map_get (st_inventory s) item + q) (st_inventory s)\<rparr>"

lemma commit_cases:
  assumes "commit_steal_turn FC i item q payload now s = (res, s')"
  obtains (replayed) e where "findFriendReceipt (st_friend_receipts s) i RECEIPT_VISITOR = Some e" "s' = s"
      "res = (case unmarshal_friend FC (rc_result_payload e) of
         None \<Rightarrow> Inl (FriendError ''stored steal commit receipt is corrupt'') | Some r \<Rightarrow> Inr (r, True))"
  | (missing) "findFriendReceipt (st_friend_receipts s) i RECEIPT_VISITOR = None" "res = Inl ErrStealReservationMissing"
      "s' = snd (migrateFriendSchema now s)"
      "\<not> (\<exists>r. find (\<lambda>r. fr_interaction_id r = i) (st_friend_reservations s) = Some r \<and> fr_status r = RESERVATION_RESERVED \<and>
        fr_action r = STEAL_FRIEND_CROP \<and> get_item r = item \<and> get_quantity r = q)"
  | (overflow) r where "findFriendReceipt (st_friend_receipts s) i RECEIPT_VISITOR = None"
      "find (\<lambda>r. fr_interaction_id r = i) (st_friend_reservations s) = Some r"
      "fr_status r = RESERVATION_RESERVED" "get_item r = item" "get_quantity r = q"
      "addStolenCareer (credited_state i item q now s) q = None" "s' = credited_state i item q now s"
      "res = Inl (FriendError ''career counter overflow'')"
  | (committed) r s4 guard response where "findFriendReceipt (st_friend_receipts s) i RECEIPT_VISITOR = None"
      "find (\<lambda>r. fr_interaction_id r = i) (st_friend_reservations s) = Some r"
      "fr_status r = RESERVATION_RESERVED" "get_item r = item" "get_quantity r = q"
      "addStolenCareer (credited_state i item q now s) q = Some s4" "res = Inr (response, False)"
      "s' = advance_state now (add_receipt i RECEIPT_VISITOR STEAL_FRIEND_CROP RECEIPT_COMMITTED
         (marshal_friend FC response) now (snd (snd (steal_penalty guard (incrementStealTask s4)))))"
proof (cases "findFriendReceipt (st_friend_receipts s) i RECEIPT_VISITOR")
  case (Some e)
  then show thesis using assms replayed [of e] by (auto simp: commit_steal_turn_def split: option.splits)
next
  case n: None
  show thesis
  proof (cases "\<exists>r. find (\<lambda>r. fr_interaction_id r = i) (st_friend_reservations s) = Some r \<and>
      fr_status r = RESERVATION_RESERVED \<and> fr_action r = STEAL_FRIEND_CROP \<and> get_item r = item \<and> get_quantity r = q")
    case False
    then show thesis
      using assms n by (intro missing [OF _ _ _ False]) (auto simp: commit_steal_turn_def Let_def case_prod_beta split: option.splits if_splits)
  next
    case True
    then obtain r where r: "find (\<lambda>r. fr_interaction_id r = i) (st_friend_reservations s) = Some r"
      "fr_status r = RESERVATION_RESERVED" "fr_action r = STEAL_FRIEND_CROP" "get_item r = item" "get_quantity r = q" by blast
    show thesis
    proof (cases "addStolenCareer (credited_state i item q now s) q")
      case None
      then have "commit_steal_turn FC i item q payload now s =
          (Inl (FriendError ''career counter overflow''), credited_state i item q now s)"
        using n r by (simp add: commit_steal_turn_def Let_def case_prod_beta credited_state_def)
      then show thesis using assms n r None overflow by simp
    next
      case (Some s4)
      define owner where "owner = (if payload = [] then None else unmarshal_friend FC payload)"
      define sp where "sp = steal_penalty (Option.bind owner fa_steal_guard) (incrementStealTask s4)"
      obtain response where "commit_steal_turn FC i item q payload now s = (Inr (response, False),
          advance_state now (add_receipt i RECEIPT_VISITOR STEAL_FRIEND_CROP RECEIPT_COMMITTED
            (marshal_friend FC response) now (snd (snd sp))))"
        using n r Some by (simp add: commit_steal_turn_def Let_def case_prod_beta credited_state_def
            flip: owner_def) (simp add: sp_def)
      then show thesis using assms n r Some committed [of r s4 response] by (simp add: sp_def)
    qed
  qed
qed

text \<open>A commit with a matching live reservation and no receipt yet moves the crop into the stock.\<close>

lemma commit_moves:
  assumes "findFriendReceipt (st_friend_receipts s) i RECEIPT_VISITOR = None"
    "find (\<lambda>r. fr_interaction_id r = i) (st_friend_reservations s) = Some r" "fr_status r = RESERVATION_RESERVED"
    "fr_action r = STEAL_FRIEND_CROP" "get_item r = item" "get_quantity r = q"
    "addStolenCareer (credited_state i item q now s) q \<noteq> None"
  obtains response s' where "commit_steal_turn FC i item q payload now s = (Inr (response, False), s')"
    "st_inventory s' = fmupd item (map_get (st_inventory s) item + q) (st_inventory s)"
proof -
  obtain res s' where t: "commit_steal_turn FC i item q payload now s = (res, s')" by (metis prod.exhaust)
  then show thesis
  proof (cases rule: commit_cases)
    case (committed r s4 guard response)
    then show thesis using t that addStolenCareer_frame(1) [OF committed(6)]
      by (auto simp: incrementStealTask_def credited_state_def)
  qed (use assms in auto)
qed

lemma credited_state_frame [simp]:
  "st_inventory (credited_state i item q now s) = fmupd item (map_get (st_inventory s) item + q) (st_inventory s)"
  "st_friend_receipts (credited_state i item q now s) = st_friend_receipts s"
  "st_owner_epoch (credited_state i item q now s) = st_owner_epoch s" "st_coins (credited_state i item q now s) = st_coins s"
  by (simp_all add: credited_state_def)

lemma credited_capacity:
  assumes "capacity_ok s" "item \<noteq> 0" "find (\<lambda>r. fr_interaction_id r = i) (st_friend_reservations s) = Some r"
    "fr_status r = RESERVATION_RESERVED" "get_item r = item" "get_quantity r = q"
  shows "capacity_ok (credited_state i item q now s)"
proof -
  have "live_for item r" using assms(2,4,5) by (auto simp: live_for_def get_item_def split: option.splits)
  then have r: "live_for item r \<and> get_quantity r = q" using assms(6) by simp
  show ?thesis
  proof (rule capacity_close [of "snd (migrateFriendSchema now s)" "\<lambda>r. fr_interaction_id r = i" r
        RESERVATION_CONSUMED _ now item q])
    show "capacity_ok (snd (migrateFriendSchema now s))" using assms(1) by simp
    show "find (\<lambda>r. fr_interaction_id r = i) (st_friend_reservations (snd (migrateFriendSchema now s))) = Some r"
      using assms(3) by simp
  qed (use r in \<open>simp_all add: credited_state_def set_status_def\<close>)
qed

lemma commit_capacity:
  assumes "capacity_ok s" "item \<noteq> 0" "commit_steal_turn FC i item q payload now s = (res, s')"
  shows "capacity_ok s'"
  using assms(3)
proof (cases rule: commit_cases)
  case (committed r s4 guard response)
  then have "st_inventory s' = st_inventory (credited_state i item q now s)"
    "st_friend_reservations s' = st_friend_reservations (credited_state i item q now s)"
    using addStolenCareer_frame(1,2) [OF committed(6)] by (simp_all add: incrementStealTask_def)
  then show ?thesis using credited_capacity [OF assms(1,2) committed(2-5)] capacity_frame by metis
qed (use assms credited_capacity in auto)

lemma reserveSteal_inventory: "reserveSteal i item q now s = (res, mutated, s') \<Longrightarrow> st_inventory s' = st_inventory s"
  using migrate_frame(4) [of now s]
  by (cases "migrateFriendSchema now s")
    (auto simp: reserveSteal_def Let_def split: option.splits if_splits)

lemma step_capacity:
  assumes "visitor_step FC s s'" "capacity_ok s"
  shows "capacity_ok s'"
  using assms(1)
proof cases
  case (reserve epoch i item q now res mutated)
  show ?thesis
  proof (cases "st_friend_reservations s' = st_friend_reservations s")
    case True
    moreover have "st_inventory s' = st_inventory s"
      using reserve reserveSteal_inventory by (auto simp: ReserveSteal_def split: option.splits)
    ultimately show ?thesis using assms(2) capacity_frame by metis
  next
    case False
    obtain mu m where mg: "migrateFriendSchema now s = (mu, m)" by (metis prod.exhaust)
    have fm: "st_friend_reservations m = st_friend_reservations s" "st_inventory m = st_inventory s" "capacity_ok m"
      using migrate_frame(3,4) [of now s] capacity_migrate [of now s] assms(2) mg by simp_all
    let ?r = "\<lparr>fr_interaction_id = i, fr_action = STEAL_FRIEND_CROP, fr_status = RESERVATION_RESERVED,
      fr_reserved_action_chances = 0, fr_reserved_item_id = Some item, fr_reserved_quantity = Some q,
      fr_created_at_ms = now, fr_updated_at_ms = now\<rparr>"
    have f: "item \<noteq> 0" "q \<noteq> 0"
      "\<not> (ucast (map_get (st_inventory m) item) :: u64) + reservedQuantityForItem m item + ucast q > 300"
      "\<not> (map_get (st_inventory m) item = 0 \<and> reservedQuantityForItem m item = 0 \<and>
          inventoryTypeLimit \<le> projectedInventoryTypeCount m)"
      "st_inventory s' = st_inventory m" "st_friend_reservations s' = st_friend_reservations m @ [?r]"
      using False reserve fm by (auto simp: ReserveSteal_def reserveSteal_def Let_def mg split: option.splits if_splits)
    show ?thesis
      by (rule capacity_reserve [OF _ f(1-4) _ _ _ f(5,6)]) (simp_all add: fm)
  qed
next
  case (commit epoch i item q payload now res2)
  show ?thesis
  proof (cases "s' = s")
    case False
    then show ?thesis using commit commit_capacity [of s item FC i q payload now res2 s'] assms(2)
      by (auto simp: CommitSteal_def split: option.splits if_splits)
  qed (simp add: assms(2))
next
  case (release epoch i now res3)
  show ?thesis
  proof (cases "s' = s")
    case False
    let ?P = "\<lambda>r. fr_interaction_id r = i"
    obtain r where "find ?P (st_friend_reservations s) = Some r"
      "s' = bump_revision now (set_status ?P RESERVATION_RELEASED now s)"
      using release False by (auto simp: ReleaseSteal_def split: option.splits if_splits)
    then show ?thesis using assms(2) by (intro capacity_close [of s ?P r RESERVATION_RELEASED s' now]) simp_all
  qed (simp add: assms(2))
qed

section \<open>A sample thief\<close>

definition hoarder :: state where
  "hoarder = garden\<lparr>st_plots := fmupd 1 (matured_at garden_plot 11000) fmempty, st_inventory := fmupd 2001 296 fmempty\<rparr>"

lemma hoarder_fields [simp]:
  "st_friend_actions hoarder = None" "st_owner_epoch hoarder = 1" "st_inventory hoarder = fmupd 2001 296 fmempty"
  "st_plots hoarder = fmupd 1 (matured_at garden_plot 11000) fmempty" "st_friend_reservations hoarder = []"
  "st_friend_receipts hoarder = []" "st_career hoarder = None"
  by (simp_all add: hoarder_def garden_def NewDevelopmentState_def LocalOwnerEpoch_def)

definition hoarder_hold :: friend_reservation where
  "hoarder_hold = \<lparr>fr_interaction_id = replicate 16 9, fr_action = STEAL_FRIEND_CROP, fr_status = RESERVATION_RESERVED,
     fr_reserved_action_chances = 0, fr_reserved_item_id = Some 2001, fr_reserved_quantity = Some 1,
     fr_created_at_ms = 12000, fr_updated_at_ms = 12000\<rparr>"

lemma hold_fields [simp]:
  "get_item hoarder_hold = 2001" "get_quantity hoarder_hold = 1" "fr_interaction_id hoarder_hold = replicate 16 9"
  "fr_status hoarder_hold = RESERVATION_RESERVED" "fr_action hoarder_hold = STEAL_FRIEND_CROP"
  by (simp_all add: hoarder_hold_def get_item_def get_quantity_def)

definition hoarder_reserved :: state where
  "hoarder_reserved = bump_revision 12000 ((snd (migrateFriendSchema 12000 hoarder))\<lparr>st_friend_reservations := [hoarder_hold]\<rparr>)"

lemma reserved_fields [simp]:
  "st_inventory hoarder_reserved = fmupd 2001 296 fmempty" "st_friend_reservations hoarder_reserved = [hoarder_hold]"
  "st_friend_receipts hoarder_reserved = []" "st_career hoarder_reserved = None" "st_owner_epoch hoarder_reserved = 1"
  "st_plots hoarder_reserved = fmupd 1 (matured_at garden_plot 11000) fmempty"
  by (simp_all add: hoarder_reserved_def bump_revision_def migrateFriendSchema_def)

lemma hoarder_capacity: "capacity_ok hoarder"
  by (auto simp: capacity_ok_def inventory_ok_def inventoryTypeLimit_def inventoryStackLimit_def reserved_nat_def live_items_def map_simps)

lemma hoarder_ok: "state_ok hoarder"
proof -
  have "plot_ok (matured_at garden_plot 11000)"
    using materialize_env(1) [OF garden_ok garden_env [of 11000] garden_tick(1)] plots_okD [OF state_ok_plotsD, of ripe_garden 1]
    by (simp add: garden_tick(2))
  then have "state_ok (garden\<lparr>st_plots := fmupd 1 (matured_at garden_plot 11000) fmempty\<rparr>)"
    by (intro state_ok_plots [OF garden_ok]) (simp add: plots_ok_def matured_at_def)
  then show ?thesis
    by (simp add: hoarder_def state_ok_def inventory_ok_def inventoryTypeLimit_def)
qed

lemma hoarder_reserves: "ReserveSteal 1 (replicate 16 9) 2001 1 12000 hoarder = (Inr False, True, hoarder_reserved)"
  by (simp add: ReserveSteal_def epoch_error_def reserveSteal_def Let_def case_prod_beta reservedQuantityForItem_def map_simps
     hoarder_reserved_def hoarder_hold_def)

text \<open>Committing the hold on a state whose stock of the crop is \<open>n\<close>.\<close>

lemma hold_commits:
  assumes "st_friend_receipts s = []" "st_friend_reservations s = [hoarder_hold]" "st_owner_epoch s = 1"
    "car_total_stolen (careerOf s) = 0"
  obtains res s' where "CommitSteal FC 1 (replicate 16 9) 2001 1 [] now s = (Inr res, s')"
    "st_inventory s' = fmupd 2001 (map_get (st_inventory s) 2001 + 1) (st_inventory s)"
proof -
  have c: "careerOf (credited_state (replicate 16 9) 2001 1 now s) = careerOf s"
    by (simp add: credited_state_def careerOf_def set_status_def migrateFriendSchema_def split: option.splits)
  have "addStolenCareer (credited_state (replicate 16 9) 2001 1 now s) 1 \<noteq> None"
    using assms(4) by (simp add: addStolenCareer_def c checkedAddUint64_def max_u64_def)
  then obtain response s' where "commit_steal_turn FC (replicate 16 9) 2001 1 [] now s = (Inr (response, False), s')"
    "st_inventory s' = fmupd 2001 (map_get (st_inventory s) 2001 + 1) (st_inventory s)"
    using commit_moves [of s "replicate 16 9" hoarder_hold 2001 1 now FC "[]"] assms(1,2) by (auto simp: findFriendReceipt_def)
  then show thesis using that assms(3) by (simp add: CommitSteal_def epoch_error_def)
qed

section \<open>Properties\<close>

text \<open>
  A thief never holds more than the stock can take. Reserving, committing and releasing in any order
  and number, with any arguments, keeps the sum of stock and live reservations of every item within its
  stack limit and the items in stock or reserved within the limit of types.
\<close>

theorem steal_capacity_kept:
  assumes "visitor_run FC s s'" "capacity_ok s"
  shows "capacity_ok s'"
  using assms by (induction rule: visitor_run.induct) (auto intro: step_capacity)

theorem steal_capacity_kept_witness:
  "\<forall>FC. \<exists>res s'. CommitSteal FC 1 (replicate 16 9) 2001 1 [] 13000
       (snd (snd (ReserveSteal 1 (replicate 16 9) 2001 1 12000 hoarder))) = (Inr res, s') \<and>
     capacity_ok s' \<and> map_get (st_inventory s') 2001 = 297"
proof
  fix FC
  obtain res s' where c: "CommitSteal FC 1 (replicate 16 9) 2001 1 [] 13000 hoarder_reserved = (Inr res, s')"
    "st_inventory s' = fmupd 2001 (map_get (st_inventory hoarder_reserved) 2001 + 1) (st_inventory hoarder_reserved)"
    by (rule hold_commits [of hoarder_reserved]) (simp_all add: careerOf_def)
  have "visitor_run FC hoarder s'"
    by (rule visitor_run.more [OF visitor_run.more [OF visitor_run.start visitor_step.reserve [OF hoarder_reserves]] visitor_step.commit [OF c(1)]])
  then have "capacity_ok s'" using steal_capacity_kept hoarder_capacity by blast
  then show "\<exists>res s'. CommitSteal FC 1 (replicate 16 9) 2001 1 [] 13000
       (snd (snd (ReserveSteal 1 (replicate 16 9) 2001 1 12000 hoarder))) = (Inr res, s') \<and>
     capacity_ok s' \<and> map_get (st_inventory s') 2001 = 297"
    using c by (auto simp: hoarder_reserves map_simps)
qed

text \<open>
  The reservation does not bind the thief's other commands. A state within its limits reserves room
  for one stolen crop, harvests a plot of the same crop up to the stack limit, and commits the theft: the
  stack holds 301, and the state is no longer well-formed.
\<close>

theorem steal_overfills_after_harvest:
  "\<forall>FC. \<exists>s s1 s2 s3 p obx ch res. state_ok s \<and> capacity_ok s \<and>
     ReserveSteal 1 (replicate 16 9) 2001 1 12000 s = (Inr False, True, s1) \<and>
     harvestBody 1 s1 = Done p obx s2 ch \<and>
     CommitSteal FC 1 (replicate 16 9) 2001 1 [] 13000 s2 = (Inr res, s3) \<and>
     map_get (st_inventory s3) 2001 = 301 \<and> \<not> state_ok s3"
proof
  fix FC
  define s0 where "s0 = unlockCrop (hoarder_reserved\<lparr>st_inventory := fmupd 2001 300 fmempty,
      st_career := Some \<lparr>car_total_harvested = 4, car_total_stolen = 0\<rparr>\<rparr>) 1"
  have "harvestBody 1 hoarder_reserved = harvest_finish 1 (matured_at garden_plot 11000) 4 296 s0"
    by (simp add: harvestBody_def matured_at_def map_simps Let_def inventoryStackLimit_def ensureCareer_def careerOf_def
        checkedAddUint64_def max_u64_def inventoryTypeLimit_def s0_def)
  moreover define s2 where "s2 = s0\<lparr>st_plots := fmupd 1 (harvested_plot (matured_at garden_plot 11000)) (st_plots s0),
      st_tasks := count_task 4 (st_tasks s0)\<rparr>"
  ultimately obtain p where h: "harvestBody 1 hoarder_reserved = Done p [] s2 (PlotChanged {||} 1)"
    by (simp add: harvest_finish_def Let_def)
  have s2: "st_inventory s2 = fmupd 2001 300 fmempty" "st_friend_receipts s2 = []" "st_friend_reservations s2 = [hoarder_hold]"
      "st_owner_epoch s2 = 1" "car_total_stolen (careerOf s2) = 0"
    by (simp_all add: s2_def s0_def careerOf_def unlockCrop_def Let_def)
  obtain res s3 where c: "CommitSteal FC 1 (replicate 16 9) 2001 1 [] 13000 s2 = (Inr res, s3)"
    "st_inventory s3 = fmupd 2001 (map_get (st_inventory s2) 2001 + 1) (st_inventory s2)"
    by (rule hold_commits [OF s2(2-5)]) 
  have i: "map_get (st_inventory s3) 2001 = 301" using c(2) s2(1) by (simp add: map_simps)
  then have "\<not> inventory_ok (st_inventory s3)" using inventory_ok_get [of "st_inventory s3" 2001] by auto
  then have "\<not> state_ok s3" by (simp add: state_ok_def)
  then show "\<exists>s s1 s2 s3 p obx ch res. state_ok s \<and> capacity_ok s \<and>
     ReserveSteal 1 (replicate 16 9) 2001 1 12000 s = (Inr False, True, s1) \<and>
     harvestBody 1 s1 = Done p obx s2 ch \<and>
     CommitSteal FC 1 (replicate 16 9) 2001 1 [] 13000 s2 = (Inr res, s3) \<and>
     map_get (st_inventory s3) 2001 = 301 \<and> \<not> state_ok s3"
    using hoarder_ok hoarder_capacity hoarder_reserves h c(1) i by blast
qed

text \<open>
  C12: a theft happens once and leaves the owner the protected yield. A successful theft on a well-formed
  farm keeps it well-formed and lowers what the owner can harvest by exactly the frozen quantity, not below
  the protected yield; the same interaction repeated at any later time returns the same payload and changes
  nothing; and any other interaction of the same visitor on that crop is refused.
\<close>

theorem steal_once:
  assumes "state_ok (ac_state a)"
    "ApplyStealOnOwner FC config roll owner epoch visitor i plotID item fv now a = (Inr (p, d, patch, False), a')"
  shows "state_ok (ac_state a') \<and>
     (\<exists>plot plot'. fmlookup (st_plots (ac_state a)) plotID = Some plot \<and> fmlookup (st_plots (ac_state a')) plotID = Some plot' \<and>
       unat (harvestable plot') + unat (pl_steal_quantity plot) = unat (harvestable plot) \<and>
       unat (pl_protected_owner_yield plot) \<le> unat (harvestable plot')) \<and>
     ApplyStealOnOwner FC config roll' owner epoch visitor i plotID item fv later a' = (Inr (p, d, None, True), a') \<and>
     (length j = 16 \<and> replay_owner j (ac_state a') = None \<longrightarrow>
       fst (ApplyStealOnOwner FC config roll' owner epoch visitor j plotID item fv later a') = Inl ErrStealNotAvailable)"
proof -
  let ?s = "ac_state a" and ?s' = "ac_state a'"
  have v: "epoch \<noteq> 0" "length i = 16" "plotID \<noteq> 0" "item \<noteq> 0" "length fv = 16" "visitor \<noteq> 0" "st_owner_epoch ?s = epoch"
    and t: "apply_steal_turn FC config roll visitor i plotID item (ac_farm_view_epoch a) fv now ?s = (Inr (p, d, False), ?s')"
    and fe: "ac_farm_view_epoch a' = ac_farm_view_epoch a"
    using assms(2) by (auto simp: ApplyStealOnOwner_def publish_result_def epoch_error_def publishFarmViewChanges_def Let_def
        split: if_splits option.splits sum.splits prod.splits)
  have n: "replay_owner i ?s = None"
    using t by (cases "replay_owner i ?s") (auto simp: apply_steal_turn_def replay_owner_def)
  obtain plot where plot: "fmlookup (st_plots ?s) plotID = Some plot" "CanSteal plot"
    "st_plots ?s' = fmupd plotID (stolen_plot visitor plot) (st_plots ?s)" "st_owner_epoch ?s' = st_owner_epoch ?s"
    by (rule steal_applied [OF t n]) auto
  have ok: "plot_ok plot" using plots_okD [OF state_ok_plotsD [OF assms(1)] plot(1)] by simp
  have "apply_steal_turn FC config roll' visitor i plotID item (ac_farm_view_epoch a) fv later ?s' = (Inr (p, d, True), ?s')"
  proof -
    have "replay_owner i ?s' = Some (p, d, True)"
      using steal_action.once [OF t, of now] by (cases "replay_owner i ?s'") (auto simp: apply_steal_turn_def Let_def case_prod_beta split: option.splits if_splits)
    then show ?thesis by (simp add: apply_steal_turn_def)
  qed
  then have again: "ApplyStealOnOwner FC config roll' owner epoch visitor i plotID item fv later a' = (Inr (p, d, None, True), a')"
    using v plot(4) fe by (simp add: ApplyStealOnOwner_def epoch_error_def publish_result_def)
  have "visitorAlreadyStole (stolen_plot visitor plot) visitor" using v(6) by (simp add: visitorAlreadyStole_def stolen_plot_def)
  then have "length j = 16 \<and> replay_owner j ?s' = None \<longrightarrow>
      fst (ApplyStealOnOwner FC config roll' owner epoch visitor j plotID item fv later a') = Inl ErrStealNotAvailable"
    using v plot(3,4) by (auto simp: ApplyStealOnOwner_def epoch_error_def publish_result_def apply_steal_turn_def Let_def case_prod_beta)
  then show ?thesis
    using steal_turn_ok [OF assms(1) t] plot(1,3) stolen_plot_ok [OF ok plot(2)] again by auto
qed

theorem steal_once_witness:
  "\<forall>FC. \<exists>p d patch a'. ApplyStealOnOwner FC dev_config 0 7 1 8 (replicate 16 9) 1 2001 (replicate 16 5) 12000
       (garden_actor\<lparr>ac_state := hoarder\<rparr>) = (Inr (p, d, patch, False), a') \<and>
     ApplyStealOnOwner FC dev_config 0 7 1 8 (replicate 16 9) 1 2001 (replicate 16 5) 12500 a' = (Inr (p, d, None, True), a') \<and>
     fst (ApplyStealOnOwner FC dev_config 0 7 1 8 (replicate 16 4) 1 2001 (replicate 16 5) 12500 a') = Inl ErrStealNotAvailable"
proof
  fix FC
  let ?a = "garden_actor\<lparr>ac_state := hoarder\<rparr>"
  let ?f = "\<lambda>i now a. ApplyStealOnOwner FC dev_config 0 7 1 8 i 1 2001 (replicate 16 5) now a"
  have ok: "state_ok (ac_state ?a)" using hoarder_ok by simp
  have "CanSteal (matured_at garden_plot 11000)" by (simp add: CanSteal_def matured_at_def)
  moreover have "pl_crop_item_id (matured_at garden_plot 11000) = 2001" "pl_steal_visitor_ids (matured_at garden_plot 11000) = []"
    by (simp_all add: matured_at_def)
  ultimately obtain p d s' where t: "apply_steal_turn FC dev_config 0 8 (replicate 16 9) 1 2001 (replicate 16 5) (replicate 16 5) 12000 hoarder
      = (Inr (p, d, False), s')"
    by (simp add: apply_steal_turn_def replay_owner_def findFriendReceipt_def Let_def case_prod_beta visitorAlreadyStole_def)
  obtain patch a' where f: "?f (replicate 16 9) 12000 ?a = (Inr (p, d, patch, False), a')"
    using t by (simp add: ApplyStealOnOwner_def epoch_error_def publish_result_def garden_actor_def case_prod_beta)
  have "replay_owner (replicate 16 9) hoarder = None" by (simp add: replay_owner_def findFriendReceipt_def)
  then have "st_friend_receipts s' = [\<lparr>rc_interaction_id = replicate 16 9, rc_role = RECEIPT_OWNER, rc_action = STEAL_FRIEND_CROP,
      rc_status = RECEIPT_APPLIED, rc_result_digest = sha256 p, rc_result_payload = p, rc_committed_at_ms = 12000\<rparr>]"
    by (rule steal_applied [OF t]) (simp add: add_receipt_def)
  moreover have "ac_state a' = s'"
    using f t by (auto simp: ApplyStealOnOwner_def epoch_error_def publish_result_def garden_actor_def publishFarmViewChanges_def
        Let_def split: prod.splits if_splits)
  ultimately have "replay_owner (replicate 16 4) (ac_state a') = None"
    by (simp add: replay_owner_def findFriendReceipt_def)
  then show "\<exists>p d patch a'. ?f (replicate 16 9) 12000 ?a = (Inr (p, d, patch, False), a') \<and>
     ?f (replicate 16 9) 12500 a' = (Inr (p, d, None, True), a') \<and> fst (?f (replicate 16 4) 12500 a') = Inl ErrStealNotAvailable"
    using steal_once [OF ok f, of 0 12500 "replicate 16 4"] f by auto
qed

end
