(* ===== verification/Authorization.thy ===== *)
theory Authorization
  imports Routing
begin

text \<open>
  \<open>authorization.go\<close> and \<open>runtime_lease.go\<close> of package \<open>internal/routing\<close>: the view of committed
  ownership a Zone checks every command against, with the drain marks of a migration, and the overlay
  that extends leases inside the process. Replacing the table is one atomic step.
\<close>

section \<open>The table\<close>

record auth_table =
  at_zone_id :: string
  at_table :: "(u64 \<times> (u32 \<Rightarrow> route_entry)) option"
  at_draining :: "u32 \<Rightarrow> bool"
  at_draining_epoch :: "u32 \<Rightarrow> u64"

definition NewAuthorizationTable :: "string \<Rightarrow> routing_error + auth_table" where
  "NewAuthorizationTable zone =
     (if zone = [] then Inl (RoutingError ''Zone ID is required'')
      else Inr \<lparr>at_zone_id = zone, at_table = None, at_draining = (\<lambda>i. False), at_draining_epoch = (\<lambda>i. 0)\<rparr>)"

text \<open>A refresh at the same map version may only extend leases.\<close>

definition same_route :: "route_entry \<Rightarrow> route_entry \<Rightarrow> bool" where
  "same_route before after \<longleftrightarrow>
     before\<lparr>re_lease_expires_at := 0\<rparr> = after\<lparr>re_lease_expires_at := 0\<rparr> \<and>
     \<not> re_lease_expires_at after < re_lease_expires_at before"

definition regained :: "string \<Rightarrow> (u32 \<Rightarrow> bool) \<Rightarrow> (u32 \<Rightarrow> u64) \<Rightarrow> (u32 \<Rightarrow> route_entry) \<Rightarrow> u32 \<Rightarrow> bool" where
  "regained zone draining drainingEpoch es i \<longleftrightarrow> i < ShardCount \<and> draining i \<and> re_owner_zone_id (es i) = zone \<and>
     drainingEpoch i < re_owner_epoch (es i) \<and> re_state (es i) = RouteStateActive"

definition Replace :: "map_snapshot \<Rightarrow> auth_table \<Rightarrow> routing_error option \<times> auth_table" where
  "Replace sn T =
     (if sn_shard_count sn \<noteq> ShardCount \<or> sn_hash_algorithm_version sn \<noteq> HashAlgorithmVersion \<or>
         sn_assignment_algorithm_version sn \<noteq> AssignmentAlgorithmVersion \<or> sn_map_version sn = 0 \<or>
         length (sn_entries sn) \<noteq> unat ShardCount
      then (Some (RoutingError ''authorization snapshot metadata is incompatible''), T)
      else if \<not> list_all (\<lambda>i. re_shard_id (sn_entries sn ! unat i) = i) shard_ids
      then (Some (RoutingError ''authorization snapshot is not ordered by shard''), T)
      else let es = (\<lambda>i. if i < ShardCount then sn_entries sn ! unat i else zero_entry);
               cleared = regained (at_zone_id T) (at_draining T) (at_draining_epoch T) es;
               advanced = T\<lparr>at_table := Some (sn_map_version sn, es), at_draining := (\<lambda>i. at_draining T i \<and> \<not> cleared i),
                 at_draining_epoch := (\<lambda>i. if cleared i then 0 else at_draining_epoch T i)\<rparr>
      in case at_table T of
           None \<Rightarrow> (None, advanced)
         | Some (v, old) \<Rightarrow>
             if sn_map_version sn < v
             then (Some (RoutingError ''authorization snapshot would move map_version backwards''), T)
             else if v = sn_map_version sn then
               (if \<not> list_all (\<lambda>i. same_route (old i) (es i)) shard_ids
                then (Some (RoutingError ''same-version authorization refresh changed durable route identity''), T)
                else (None, T\<lparr>at_table := Some (sn_map_version sn, es)\<rparr>))
             else (None, advanced))"

definition Validate :: "u64 \<Rightarrow> u32 \<Rightarrow> string \<Rightarrow> u64 \<Rightarrow> int \<Rightarrow> auth_table \<Rightarrow> routing_error option" where
  "Validate player i zone epoch now T =
     (if ShardCount \<le> i \<or> ShardForPlayer player \<noteq> i
      then Some (RoutingError ''request shard does not match target player'')
      else case at_table T of
        None \<Rightarrow> Some (RoutingError ''authorization snapshot is not loaded'')
      | Some (v, es) \<Rightarrow>
          let entry = es i
          in if at_draining T i then Some (NotOwnerError ''shard is draining'' zone epoch entry)
             else if re_state entry \<noteq> RouteStateActive then Some (NotOwnerError ''route is not ACTIVE'' zone epoch entry)
             else if \<not> now < re_lease_expires_at entry
             then Some (NotOwnerError ''route lease has expired'' zone epoch entry)
             else if re_owner_zone_id entry \<noteq> at_zone_id T
             then Some (NotOwnerError ''shard belongs to another Zone'' zone epoch entry)
             else if zone \<noteq> at_zone_id T
             then Some (NotOwnerError ''requested Zone does not match'' zone epoch entry)
             else if epoch \<noteq> re_owner_epoch entry
             then Some (NotOwnerError ''owner epoch does not match'' zone epoch entry)
             else None)"

definition BeginDrain :: "u32 \<Rightarrow> u64 \<Rightarrow> int \<Rightarrow> auth_table \<Rightarrow> (routing_error + route_entry) \<times> auth_table" where
  "BeginDrain i epoch now T =
     (if ShardCount \<le> i then (Inl (RoutingError ''shard ID is outside the routing table''), T)
      else case at_table T of
        None \<Rightarrow> (Inl (RoutingError ''authorization snapshot is not loaded''), T)
      | Some (v, es) \<Rightarrow>
          let entry = es i
          in if re_state entry \<noteq> RouteStateActive \<or> re_owner_zone_id entry \<noteq> at_zone_id T \<or>
                re_owner_epoch entry \<noteq> epoch \<or> \<not> now < re_lease_expires_at entry
             then (Inl (NotOwnerError ''cannot drain unowned or stale shard'' (at_zone_id T) epoch entry), T)
             else (Inr entry, T\<lparr>at_draining := (at_draining T)(i := True),
                    at_draining_epoch := (at_draining_epoch T)(i := epoch)\<rparr>))"

definition ResumeShard :: "u32 \<Rightarrow> auth_table \<Rightarrow> auth_table" where
  "ResumeShard i T = (if ShardCount \<le> i then T
     else T\<lparr>at_draining := (at_draining T)(i := False), at_draining_epoch := (at_draining_epoch T)(i := 0)\<rparr>)"

definition IsDraining :: "u32 \<Rightarrow> u64 \<Rightarrow> auth_table \<Rightarrow> bool" where
  "IsDraining i epoch T \<longleftrightarrow>
     (if ShardCount \<le> i \<or> epoch = 0 then False else at_draining T i \<and> at_draining_epoch T i = epoch)"

definition auth_Entry :: "u32 \<Rightarrow> auth_table \<Rightarrow> route_entry option" where
  "auth_Entry i T = (if ShardCount \<le> i then None else map_option (\<lambda>(v, es). es i) (at_table T))"

section \<open>The runtime lease overlay\<close>

record lease_binding =
  lb_owner_zone_id :: string
  lb_owner_epoch :: u64
  lb_route_version :: u64
  lb_lease_id :: string
  lb_lease_term :: u64
  lb_expires_at :: int

type_synonym lease_overlay = "(u32 \<Rightarrow> lease_binding) option"

definition zero_binding :: lease_binding where
  "zero_binding = \<lparr>lb_owner_zone_id = [], lb_owner_epoch = 0, lb_route_version = 0, lb_lease_id = [],
     lb_lease_term = 0, lb_expires_at = 0\<rparr>"

definition binding_of :: "int \<Rightarrow> route_entry \<Rightarrow> lease_binding" where
  "binding_of expiresAt e = (if re_state e \<noteq> RouteStateActive then zero_binding
     else \<lparr>lb_owner_zone_id = re_owner_zone_id e, lb_owner_epoch = re_owner_epoch e,
       lb_route_version = re_route_version e, lb_lease_id = re_lease_id e, lb_lease_term = re_lease_term e,
       lb_expires_at = expiresAt\<rparr>)"

definition RenewOverlay :: "map_snapshot \<Rightarrow> int \<Rightarrow> int \<Rightarrow> lease_overlay \<Rightarrow> routing_error option \<times> lease_overlay" where
  "RenewOverlay sn now duration ov =
     (if duration \<le> 0 \<or> sn_shard_count sn \<noteq> ShardCount \<or> length (sn_entries sn) \<noteq> unat ShardCount
      then (Some (RoutingError ''valid route snapshot and lease duration are required''), ov)
      else if \<not> list_all (\<lambda>i. re_shard_id (sn_entries sn ! unat i) = i) shard_ids
      then (Some (RoutingError ''runtime lease snapshot is not ordered''), ov)
      else (None, Some (\<lambda>i. if i < ShardCount then binding_of (now + duration) (sn_entries sn ! unat i) else zero_binding)))"

definition NewRuntimeLeaseOverlay :: "map_snapshot \<Rightarrow> int \<Rightarrow> int \<Rightarrow> routing_error + lease_overlay" where
  "NewRuntimeLeaseOverlay sn now duration =
     (case RenewOverlay sn now duration None of (Some e, _) \<Rightarrow> Inl e | (None, ov) \<Rightarrow> Inr ov)"

text \<open>\<open>None\<close> is \<open>ErrRuntimeLeaseUnavailable\<close>.\<close>

definition Effective :: "route_entry \<Rightarrow> int \<Rightarrow> lease_overlay \<Rightarrow> route_entry option" where
  "Effective e now ov =
     (if ShardCount \<le> re_shard_id e \<or> re_state e \<noteq> RouteStateActive then None
      else case ov of None \<Rightarrow> None
      | Some table \<Rightarrow>
          let b = table (re_shard_id e)
          in if lb_owner_zone_id b \<noteq> re_owner_zone_id e \<or> lb_owner_epoch b \<noteq> re_owner_epoch e \<or>
                lb_route_version b \<noteq> re_route_version e \<or> lb_lease_id b \<noteq> re_lease_id e \<or>
                lb_lease_term b \<noteq> re_lease_term e \<or> \<not> now < lb_expires_at b
             then None else Some (e\<lparr>re_lease_expires_at := lb_expires_at b\<rparr>))"

section \<open>Tables are views of a history\<close>

definition view_of :: "auth_table \<Rightarrow> grants \<Rightarrow> bool" where
  "view_of T G \<longleftrightarrow> (\<forall>v es i. at_table T = Some (v, es) \<longrightarrow> i < ShardCount \<longrightarrow> re_state (es i) = RouteStateActive \<longrightarrow>
     grant_of (es i) \<in> G \<and> re_shard_id (es i) = i)"

lemma nth_shard_ids: "i < ShardCount \<Longrightarrow> shard_ids ! unat i = i"
  by (simp add: shard_ids_def ShardCount_def word_less_nat_alt)

lemma length_shard_ids [simp]: "length shard_ids = 4096"
  by (simp add: shard_ids_def)

lemma Snapshot_of_entry: "i < ShardCount \<Longrightarrow> sn_entries (Snapshot_of m) ! unat i = mp_entries m i"
  using nth_shard_ids [of i] by (simp add: Snapshot_of_def word_less_nat_alt ShardCount_def)

lemma Replace_cases:
  assumes "Replace sn T = (None, T')"
  shows "at_zone_id T' = at_zone_id T"
    "at_table T' = Some (sn_map_version sn, \<lambda>i. if i < ShardCount then sn_entries sn ! unat i else zero_entry)"
  using assms by (auto simp: Replace_def Let_def split: if_splits option.splits prod.splits)

lemma Replace_view:
  assumes "routing_ok m G" "Replace (Snapshot_of m) T = (None, T')"
  shows "view_of T' G"
  using routing_okD(1) [OF assms(1)] Replace_cases(2) [OF assms(2)]
  by (auto simp: view_of_def Snapshot_of_entry entry_ok_def Let_def)

lemma Validate_grant:
  assumes "view_of T G" "Validate player i zone epoch now T = None"
  shows "(i, epoch, at_zone_id T) \<in> G"
proof -
  obtain v es where t: "i < ShardCount" "at_table T = Some (v, es)" "re_state (es i) = RouteStateActive"
    "re_owner_zone_id (es i) = at_zone_id T" "re_owner_epoch (es i) = epoch"
    using assms(2) by (auto simp: Validate_def Let_def not_le split: if_splits option.splits)
  then show ?thesis using assms(1) unfolding view_of_def grant_of_def by metis
qed

text \<open>A drained shard stays drained until the same Zone regains it under a later epoch.\<close>

lemma Replace_keeps_drain:
  assumes "at_draining T i" "\<not> (i < ShardCount \<and> re_owner_zone_id (sn_entries sn ! unat i) = at_zone_id T \<and>
    at_draining_epoch T i < re_owner_epoch (sn_entries sn ! unat i) \<and> re_state (sn_entries sn ! unat i) = RouteStateActive)"
  shows "at_draining (snd (Replace sn T)) i" "at_draining_epoch (snd (Replace sn T)) i = at_draining_epoch T i"
    "at_zone_id (snd (Replace sn T)) = at_zone_id T"
  using assms by (auto simp: Replace_def Let_def regained_def split: if_splits option.splits prod.splits)

text \<open>
  C6: two Zones never act under the same epoch. Two Zones whose tables were loaded from the shard map
  at any two moments of its history, however stale, that both accept a command for a player's shard
  under one epoch are the same Zone.
\<close>

theorem Validate_exclusive:
  assumes "NewStaticMap now d zones random = Inr m0" "routing_run m0 (initial_grants m0) m1 G1" "routing_run m1 G1 m2 G2"
    "Replace (Snapshot_of m1) A = (None, A')" "Replace (Snapshot_of m2) B = (None, B')"
    "Validate p i z epoch t A' = None" "Validate p i z' epoch t' B' = None"
  shows "at_zone_id A = at_zone_id B"
proof -
  have ok: "routing_ok m1 G1" using routing_run_ok [OF assms(2) NewStaticMap_ok [OF assms(1)]] by blast
  then have ok': "routing_ok m2 G2" "G1 \<subseteq> G2" using routing_run_ok [OF assms(3)] by blast+
  have "(i, epoch, at_zone_id A') \<in> G2" using Validate_grant [OF Replace_view [OF ok assms(4)] assms(6)] ok'(2) by blast
  moreover have "(i, epoch, at_zone_id B') \<in> G2" using Validate_grant [OF Replace_view [OF ok'(1) assms(5)] assms(7)] .
  ultimately show ?thesis
    using routing_okD(3) [OF ok'(1)] Replace_cases(1) [OF assms(4)] Replace_cases(1) [OF assms(5)] by metis
qed

definition sample_table :: "string \<Rightarrow> auth_table" where
  "sample_table zone = \<lparr>at_zone_id = zone, at_table = None, at_draining = (\<lambda>i. False), at_draining_epoch = (\<lambda>i. 0)\<rparr>"

lemma sample_active:
  assumes "i < ShardCount"
  shows "re_state (mp_entries sample_map i) = RouteStateActive" "re_owner_zone_id (mp_entries sample_map i) = ''a''"
    "re_lease_expires_at (mp_entries sample_map i) = 11"
proof -
  have v: "validateZoneCandidates [local_zone] = Inr [local_zone]"
    by (simp add: validateZoneCandidates_def local_zone_def TrimSpace_def ascii_space_def)
  have "re_state (mp_entries m i) = RouteStateActive \<and> re_owner_zone_id (mp_entries m i) = ''a'' \<and>
      re_lease_expires_at (mp_entries m i) = 11"
    if "NewStaticMap 1 10 [local_zone] (\<lambda>i. sample_random) = Inr m" for m
    using that assms v by (auto simp: NewStaticMap_def RendezvousOwner_def local_zone_def split: if_splits)
  then show "re_state (mp_entries sample_map i) = RouteStateActive" "re_owner_zone_id (mp_entries sample_map i) = ''a''"
    "re_lease_expires_at (mp_entries sample_map i) = 11"
    using sample_map_eq by blast+
qed

lemma sample_Replace:
  obtains T where "Replace (Snapshot_of sample_map) (sample_table zone) = (None, T)"
    "at_table T = Some (1, \<lambda>i. if i < ShardCount then mp_entries sample_map i else zero_entry)"
    "at_zone_id T = zone" "\<not> at_draining T i"
proof -
  have v: "mp_map_version sample_map = 1" using NewStaticMap_entry(6) [OF sample_map_eq, of 7] by (simp add: ShardCount_def)
  have o: "list_all (\<lambda>i. re_shard_id (sn_entries (Snapshot_of sample_map) ! unat i) = i) shard_ids"
  proof -
    have "i < ShardCount" if "i \<in> set shard_ids" for i
      using that by (auto simp: shard_ids_def ShardCount_def word_less_nat_alt unat_of_nat)
    then show ?thesis using NewStaticMap_entry(1) [OF sample_map_eq] by (simp add: list_all_iff Snapshot_of_entry)
  qed
  have f: "(\<lambda>i. if i < ShardCount then sn_entries (Snapshot_of sample_map) ! unat i else zero_entry) =
      (\<lambda>i. if i < ShardCount then mp_entries sample_map i else zero_entry)"
    by (simp add: fun_eq_iff Snapshot_of_entry)
  have meta: "sn_shard_count (Snapshot_of sample_map) = ShardCount" "sn_map_version (Snapshot_of sample_map) = 1"
    "sn_hash_algorithm_version (Snapshot_of sample_map) = HashAlgorithmVersion"
    "sn_assignment_algorithm_version (Snapshot_of sample_map) = AssignmentAlgorithmVersion"
    "length (sn_entries (Snapshot_of sample_map)) = unat ShardCount"
    using v by (simp_all add: Snapshot_of_def ShardCount_def)
  obtain r T where R: "Replace (Snapshot_of sample_map) (sample_table zone) = (r, T)" by fastforce
  have r: "r = None" "at_zone_id T = zone" "\<not> at_draining T i"
    using R unfolding Replace_def by (auto simp: meta o sample_table_def Let_def)
  show thesis using that [of T] R r Replace_cases(2) [of "Snapshot_of sample_map" "sample_table zone" T] meta(2) f by simp
qed

lemma sample_Validate:
  assumes "at_table T = Some (1, \<lambda>i. if i < ShardCount then mp_entries sample_map i else zero_entry)"
    "at_zone_id T = ''a''" "\<not> at_draining T (ShardForPlayer 7)"
  shows "Validate 7 (ShardForPlayer 7) ''a'' 1 5 T = None"
proof -
  have "ShardForPlayer 7 < ShardCount" by code_simp
  then show ?thesis
    using assms sample_active NewStaticMap_entry(2) [OF sample_map_eq] by (simp add: Validate_def not_le)
qed

theorem Validate_exclusive_witness:
  "\<exists>A B. Replace (Snapshot_of sample_map) (sample_table ''a'') = (None, A) \<and>
     Replace (Snapshot_of sample_map) (sample_table ''c'') = (None, B) \<and>
     Validate 7 (ShardForPlayer 7) ''a'' 1 5 A = None \<and> Validate 7 (ShardForPlayer 7) ''c'' 1 5 B \<noteq> None"
proof -
  obtain A where A: "Replace (Snapshot_of sample_map) (sample_table ''a'') = (None, A)"
    "at_table A = Some (1, \<lambda>i. if i < ShardCount then mp_entries sample_map i else zero_entry)"
    "at_zone_id A = ''a''" "\<not> at_draining A (ShardForPlayer 7)" by (rule sample_Replace)
  obtain B where B: "Replace (Snapshot_of sample_map) (sample_table ''c'') = (None, B)" by (rule sample_Replace)
  note v = sample_Validate [OF A(2-4)]
  show ?thesis
    using A(1) B v Validate_exclusive [OF sample_map_eq run_refl run_refl A(1) B v, of "''c''" 5]
    by (auto simp: sample_table_def)
qed

text \<open>
  Draining holds. Once a Zone has begun to drain a shard it refuses every command for it, whatever
  snapshots arrive, as long as none of them makes this very Zone the active owner again under an epoch
  later than the drained one.
\<close>

theorem drain_refuses:
  assumes "BeginDrain i epoch now T = (Inr e, T0)"
    "\<forall>sn \<in> set sns. \<not> (re_owner_zone_id (sn_entries sn ! unat i) = at_zone_id T \<and>
       epoch < re_owner_epoch (sn_entries sn ! unat i) \<and> re_state (sn_entries sn ! unat i) = RouteStateActive)"
  shows "Validate p i z x t (fold (\<lambda>sn T. snd (Replace sn T)) sns T0) \<noteq> None"
proof -
  let ?inv = "\<lambda>U. at_draining U i \<and> at_draining_epoch U i = epoch \<and> at_zone_id U = at_zone_id T"
  have "?inv T0" using assms(1) by (auto simp: BeginDrain_def Let_def split: if_splits option.splits)
  then have "?inv (fold (\<lambda>sn T. snd (Replace sn T)) sns T0)"
    using assms(2)
  proof (induction sns arbitrary: T0)
    case (Cons sn sns)
    have "?inv (snd (Replace sn T0))" using Replace_keeps_drain [of T0 i sn] Cons.prems by simp
    then show ?case using Cons by simp
  qed simp
  then show ?thesis by (auto simp: Validate_def Let_def split: option.splits)
qed

theorem drain_refuses_witness:
  "\<exists>T e T0. Replace (Snapshot_of sample_map) (sample_table ''a'') = (None, T) \<and> BeginDrain 7 1 5 T = (Inr e, T0) \<and>
     Validate 7 7 ''a'' 1 6 (snd (Replace (Snapshot_of sample_map) T0)) \<noteq> None"
proof -
  obtain T where T: "Replace (Snapshot_of sample_map) (sample_table ''a'') = (None, T)"
    "at_table T = Some (1, \<lambda>i. if i < ShardCount then mp_entries sample_map i else zero_entry)"
    "at_zone_id T = ''a''" "\<not> at_draining T 7" by (rule sample_Replace)
  have i: "(7 :: u32) < ShardCount" by (simp add: ShardCount_def)
  obtain r T0 where b: "BeginDrain 7 1 5 T = (r, T0)" by fastforce
  then obtain e where "r = Inr e"
    using T(2,3) i less_le_not_le [THEN iffD1, OF i] sample_active [OF i] sample_entry(1) by (auto simp: BeginDrain_def)
  then show ?thesis
    using T(1) b drain_refuses [of 7 1 5 T e T0 "[Snapshot_of sample_map]"] sample_entry(1) Snapshot_of_entry [OF i] by auto
qed

end
