(* ===== verification/Visits.thy ===== *)
theory Visits
  imports Friend_Steps Authorization
begin

text \<open>
  Visits to a friend's farm: the registry of visit leases (\<open>visit/registry.go\<close>), the owner's side
  (\<open>visit/owner_service.go\<close>) and the RPC through which a visitor's Zone acts on the owner's farm
  (\<open>ownerFarmRPCServer\<close> of \<open>cmd/zone/friend_rpc.go\<close>).

  Instants are milliseconds. \<open>newRandomID\<close> is an argument, \<open>None\<close> where the random source fails.
  \<open>connection.ValidGateEndpoint\<close> is the argument \<open>VG\<close>. An empty endpoint stands for a missing one.
  Pushing presence tips is best effort in the code: the definitions return the tips. The dependencies of
  the RPC server are wired, so its branches for missing ones are left out.
\<close>

section \<open>Leases\<close>

definition VisitTTL :: int where "VisitTTL = 90000"

datatype visit_error = ErrVisitNotFound | ErrVisitExpired | ErrInvalidGateTarget | ErrRandom

record visit_record =
  vr_owner_id :: u64
  vr_visitor_id :: u64
  vr_visit_id :: bytes
  vr_gate_id :: string
  vr_gate_endpoint :: string
  vr_last_heartbeat :: int
  vr_expires :: int
  vr_request_id :: string

text \<open>The second index holds, for a visit identifier, the visitor whose record it points to.\<close>

record owner_visits =
  ov_by_visitor :: "(u64, visit_record) fmap"
  ov_by_visit_id :: "(bytes, u64) fmap"

type_synonym registry = "(u64, owner_visits) fmap"

definition legacy_gate :: string where "legacy_gate = ''http://legacy-gate:8081''"

definition gate_or_legacy :: "string \<Rightarrow> string" where
  "gate_or_legacy endpoint = (if endpoint = [] then legacy_gate else endpoint)"

definition no_visits :: owner_visits where
  "no_visits = \<lparr>ov_by_visitor = fmempty, ov_by_visit_id = fmempty\<rparr>"

definition visits_of :: "u64 \<Rightarrow> registry \<Rightarrow> owner_visits" where
  "visits_of owner r = (case fmlookup r owner of None \<Rightarrow> no_visits | Some ow \<Rightarrow> ow)"

definition drop_visit :: "u64 \<Rightarrow> visit_record \<Rightarrow> owner_visits \<Rightarrow> owner_visits" where
  "drop_visit visitor record ow = ow\<lparr>ov_by_visitor := fmdrop visitor (ov_by_visitor ow),
     ov_by_visit_id := fmdrop (vr_visit_id record) (ov_by_visit_id ow)\<rparr>"

definition Enter ::
  "(string \<Rightarrow> bool) \<Rightarrow> bytes option \<Rightarrow> u64 \<Rightarrow> u64 \<Rightarrow> string \<Rightarrow> string \<Rightarrow> int \<Rightarrow> string \<Rightarrow> registry \<Rightarrow>
   (visit_error + bytes \<times> int \<times> bool) \<times> registry" where
  "Enter VG newID owner visitor gateID requestID now endpoint r =
     (let gateEndpoint = gate_or_legacy endpoint
      in if gateID = [] \<or> \<not> VG gateEndpoint then (Inl ErrInvalidGateTarget, r)
      else let ow = visits_of owner r;
               fresh = (\<lambda>ow. case newID of
                   None \<Rightarrow> (Inl ErrRandom, fmupd owner ow r)
                 | Some i \<Rightarrow>
                     let record = \<lparr>vr_owner_id = owner, vr_visitor_id = visitor, vr_visit_id = i, vr_gate_id = gateID,
                           vr_gate_endpoint = gateEndpoint, vr_last_heartbeat = now, vr_expires = now + VisitTTL,
                           vr_request_id = requestID\<rparr>
                     in (Inr (i, now + VisitTTL, True),
                         fmupd owner (ow\<lparr>ov_by_visitor := fmupd visitor record (ov_by_visitor ow),
                           ov_by_visit_id := fmupd i visitor (ov_by_visit_id ow)\<rparr>) r))
      in case fmlookup (ov_by_visitor ow) visitor of
        Some existing \<Rightarrow>
          if requestID \<noteq> [] \<and> vr_request_id existing = requestID then
            if vr_gate_id existing \<noteq> gateID \<or> vr_gate_endpoint existing \<noteq> gateEndpoint
            then (Inl ErrVisitNotFound, fmupd owner ow r)
            else (Inr (vr_visit_id existing, now + VisitTTL, False),
                  fmupd owner (ow\<lparr>ov_by_visitor := fmupd visitor
                    (existing\<lparr>vr_last_heartbeat := now, vr_expires := now + VisitTTL\<rparr>) (ov_by_visitor ow)\<rparr>) r)
          else fresh (drop_visit visitor existing ow)
      | None \<Rightarrow> fresh ow)"

text \<open>\<open>lookupLocked\<close> and \<open>removeLocked\<close>.\<close>

definition lookupLocked :: "u64 \<Rightarrow> u64 \<Rightarrow> bytes \<Rightarrow> registry \<Rightarrow> visit_record option" where
  "lookupLocked owner visitor visitID r = (case fmlookup r owner of
       None \<Rightarrow> None
     | Some ow \<Rightarrow>
         (case fmlookup (ov_by_visitor ow) visitor of
            None \<Rightarrow> None
          | Some record \<Rightarrow> if vr_visit_id record = visitID then Some record else None))"

definition put_visits :: "u64 \<Rightarrow> owner_visits \<Rightarrow> registry \<Rightarrow> registry" where
  "put_visits owner ow r = (if fmdom (ov_by_visitor ow) = {||} then fmdrop owner r else fmupd owner ow r)"

definition removeLocked :: "u64 \<Rightarrow> u64 \<Rightarrow> visit_record \<Rightarrow> registry \<Rightarrow> registry" where
  "removeLocked owner visitor record r = put_visits owner (drop_visit visitor record (visits_of owner r)) r"

definition RefreshVisit ::
  "(string \<Rightarrow> bool) \<Rightarrow> u64 \<Rightarrow> u64 \<Rightarrow> bytes \<Rightarrow> string \<Rightarrow> int \<Rightarrow> string \<Rightarrow> registry \<Rightarrow> (visit_error + int) \<times> registry" where
  "RefreshVisit VG owner visitor visitID gateID now endpoint r =
     (let gateEndpoint = gate_or_legacy endpoint
      in if gateID = [] \<or> \<not> VG gateEndpoint then (Inl ErrInvalidGateTarget, r)
      else case lookupLocked owner visitor visitID r of
        None \<Rightarrow> (Inl ErrVisitNotFound, r)
      | Some record \<Rightarrow>
          if vr_expires record \<le> now then (Inl ErrVisitExpired, removeLocked owner visitor record r)
          else if vr_gate_id record \<noteq> gateID \<or> vr_gate_endpoint record \<noteq> gateEndpoint then (Inl ErrVisitNotFound, r)
          else let ow = visits_of owner r
               in (Inr (now + VisitTTL), fmupd owner (ow\<lparr>ov_by_visitor := fmupd visitor
                    (record\<lparr>vr_last_heartbeat := now, vr_expires := now + VisitTTL\<rparr>) (ov_by_visitor ow)\<rparr>) r))"

definition ValidateVisit :: "u64 \<Rightarrow> u64 \<Rightarrow> bytes \<Rightarrow> int \<Rightarrow> registry \<Rightarrow> visit_error option" where
  "ValidateVisit owner visitor visitID now r = (case lookupLocked owner visitor visitID r of
       None \<Rightarrow> Some ErrVisitNotFound
     | Some record \<Rightarrow> if vr_expires record \<le> now then Some ErrVisitExpired else None)"

definition ExitVisit :: "u64 \<Rightarrow> u64 \<Rightarrow> bytes \<Rightarrow> registry \<Rightarrow> (visit_error + visit_record) \<times> registry" where
  "ExitVisit owner visitor visitID r = (case lookupLocked owner visitor visitID r of
       None \<Rightarrow> (Inl ErrVisitNotFound, r)
     | Some record \<Rightarrow> (Inr record, removeLocked owner visitor record r))"

text \<open>The two nested loops over Go maps; the removed leases come in the order of their keys here.\<close>

definition expired_visitors :: "int \<Rightarrow> owner_visits \<Rightarrow> u64 list" where
  "expired_visitors now ow = filter (\<lambda>v. case fmlookup (ov_by_visitor ow) v of
       None \<Rightarrow> False | Some record \<Rightarrow> vr_expires record \<le> now) (map_keys (ov_by_visitor ow))"

definition evict_visitor :: "u64 \<Rightarrow> visit_record list \<times> owner_visits \<Rightarrow> visit_record list \<times> owner_visits" where
  "evict_visitor v = (\<lambda>(removed, ow). case fmlookup (ov_by_visitor ow) v of
       None \<Rightarrow> (removed, ow) | Some record \<Rightarrow> (removed @ [record], drop_visit v record ow))"

definition evict_owner :: "int \<Rightarrow> u64 \<Rightarrow> visit_record list \<times> registry \<Rightarrow> visit_record list \<times> registry" where
  "evict_owner now owner = (\<lambda>(removed, r).
     let ow = visits_of owner r;
         (removed', ow') = fold evict_visitor (expired_visitors now ow) (removed, ow)
     in (removed', put_visits owner ow' r))"

definition EvictExpired :: "int \<Rightarrow> registry \<Rightarrow> visit_record list \<times> registry" where
  "EvictExpired now r = fold (evict_owner now) (map_keys r) ([], r)"

definition ListVisitors :: "u64 \<Rightarrow> registry \<Rightarrow> visit_record list" where
  "ListVisitors owner r = (let m = ov_by_visitor (visits_of owner r)
     in List.map_filter (fmlookup m) (map_keys m))"

definition HasVisitors :: "u64 \<Rightarrow> int \<Rightarrow> registry \<Rightarrow> bool" where
  "HasVisitors owner now r = list_ex (\<lambda>record. now < vr_expires record) (ListVisitors owner r)"

section \<open>The owner's service\<close>

datatype presence_tip =
    VisitorEntered u64 | VisitorLeft u64
  | CropStolen (tip_visitor: u64) (tip_plot: u32) (tip_item: u32) (tip_quantity: u32) (tip_guard: bool) (tip_penalty: int)

definition trimmed_or_legacy :: "string \<Rightarrow> string" where
  "trimmed_or_legacy endpoint = (if TrimSpace endpoint = [] then legacy_gate else endpoint)"

record owner_farm =
  of_actor :: farm_actor
  of_visits :: registry
  of_auth :: auth_table

text \<open>A domain error belongs into the answer, \<open>Inl\<close> is a failed call.\<close>

definition visit_ws_error :: "visit_error \<Rightarrow> error_code option" where
  "visit_ws_error e = (case e of ErrVisitNotFound \<Rightarrow> Some VISIT_NOT_FOUND | ErrVisitExpired \<Rightarrow> Some VISIT_EXPIRED | _ \<Rightarrow> None)"

datatype owner_failure = SnapshotFailed zone_error | VisitFailed visit_error

definition EnterVisitor ::
  "(string \<Rightarrow> bool) \<Rightarrow> bytes option \<Rightarrow> config_snapshot option \<Rightarrow> u64 \<Rightarrow> u64 \<Rightarrow> string \<Rightarrow> string \<Rightarrow> string \<Rightarrow> int \<Rightarrow> owner_farm \<Rightarrow>
   (owner_failure + bytes \<times> int \<times> farm_visit_snapshot) \<times> presence_tip list \<times> owner_farm" where
  "EnterVisitor VG newID config owner visitor gateID requestID endpoint now f =
     (case BuildPublicFarmSnapshot owner config now (of_actor f) of
        (Inl e, a) \<Rightarrow> (Inl (SnapshotFailed e), [], f\<lparr>of_actor := a\<rparr>)
      | (Inr (snapshot, _), a) \<Rightarrow>
          (case Enter VG newID owner visitor gateID requestID now (trimmed_or_legacy endpoint) (of_visits f) of
             (Inl e, r) \<Rightarrow> (Inl (VisitFailed e), [], f\<lparr>of_actor := a, of_visits := r\<rparr>)
           | (Inr (i, expires, newlyCreated), r) \<Rightarrow>
               (Inr (i, expires, snapshot), if newlyCreated then [VisitorEntered visitor] else [],
                f\<lparr>of_actor := a, of_visits := r\<rparr>)))"

definition RefreshVisitorHeartbeat ::
  "(string \<Rightarrow> bool) \<Rightarrow> u64 \<Rightarrow> u64 \<Rightarrow> bytes \<Rightarrow> string \<Rightarrow> string \<Rightarrow> int \<Rightarrow> owner_farm \<Rightarrow>
   (owner_failure + error_code + int) \<times> owner_farm" where
  "RefreshVisitorHeartbeat VG owner visitor visitID gateID endpoint now f =
     (case RefreshVisit VG owner visitor visitID gateID now (trimmed_or_legacy endpoint) (of_visits f) of
        (Inr expires, r) \<Rightarrow> (Inr (Inr expires), f\<lparr>of_visits := r\<rparr>)
      | (Inl e, r) \<Rightarrow>
          (case visit_ws_error e of Some c \<Rightarrow> Inr (Inl c) | None \<Rightarrow> Inl (VisitFailed e), f\<lparr>of_visits := r\<rparr>))"

definition ExitVisitor :: "u64 \<Rightarrow> u64 \<Rightarrow> bytes \<Rightarrow> owner_farm \<Rightarrow> error_code option \<times> presence_tip list \<times> owner_farm" where
  "ExitVisitor owner visitor visitID f = (case ExitVisit owner visitor visitID (of_visits f) of
       (Inl e, r) \<Rightarrow> (Some VISIT_NOT_FOUND, [], f\<lparr>of_visits := r\<rparr>)
     | (Inr _, r) \<Rightarrow> (None, [VisitorLeft visitor], f\<lparr>of_visits := r\<rparr>))"

definition ValidateVisitorAction :: "u64 \<Rightarrow> u64 \<Rightarrow> bytes \<Rightarrow> int \<Rightarrow> registry \<Rightarrow> error_code option" where
  "ValidateVisitorAction owner visitor visitID now r =
     Option.bind (ValidateVisit owner visitor visitID now r) visit_ws_error"

definition GetPublicFarmSnapshot ::
  "config_snapshot option \<Rightarrow> u64 \<Rightarrow> u64 \<Rightarrow> bytes \<Rightarrow> int \<Rightarrow> owner_farm \<Rightarrow>
   (zone_error + error_code + farm_visit_snapshot) \<times> owner_farm" where
  "GetPublicFarmSnapshot config owner visitor visitID now f =
     (case ValidateVisitorAction owner visitor visitID now (of_visits f) of
        Some c \<Rightarrow> (Inr (Inl c), f)
      | None \<Rightarrow>
          (case BuildPublicFarmSnapshot owner config now (of_actor f) of
             (Inl e, a) \<Rightarrow> (Inl e, f\<lparr>of_actor := a\<rparr>)
           | (Inr (snapshot, _), a) \<Rightarrow> (Inr (Inr snapshot), f\<lparr>of_actor := a\<rparr>)))"

text \<open>One sweep of the eviction loop.\<close>

definition evictExpired :: "int \<Rightarrow> owner_farm \<Rightarrow> (u64 \<times> presence_tip) list \<times> owner_farm" where
  "evictExpired now f = (let (removed, r) = EvictExpired now (of_visits f)
     in (map (\<lambda>record. (vr_owner_id record, VisitorLeft (vr_visitor_id record))) removed, f\<lparr>of_visits := r\<rparr>))"

section \<open>Acting on the owner's farm\<close>

record committed_route =
  cr_shard_id :: u32
  cr_owner_zone_id :: string
  cr_owner_epoch :: u64
  cr_route_version :: u64

datatype rpc_code = RpcInvalidArgument | RpcFailedPrecondition | RpcInternal | RpcUnavailable

record visitor_action =
  va_route :: "committed_route option"
  va_owner :: u64
  va_visitor :: u64
  va_visit_id :: bytes
  va_interaction_id :: bytes
  va_action :: friend_action
  va_plot :: u32
  va_pest :: "u32 option"
  va_crop :: u32
  va_view_epoch :: bytes

record visitor_action_response =
  vx_error :: "error_code option"
  vx_digest :: bytes
  vx_payload :: bytes
  vx_patch :: "farm_view_patch option"

definition va_pest_id :: "visitor_action \<Rightarrow> u32" where
  "va_pest_id q = (case va_pest q of None \<Rightarrow> 0 | Some p \<Rightarrow> p)"

definition refused :: "error_code \<Rightarrow> visitor_action_response" where
  "refused c = \<lparr>vx_error = Some c, vx_digest = [], vx_payload = [], vx_patch = None\<rparr>"

definition validateRoute :: "committed_route option \<Rightarrow> u64 \<Rightarrow> int \<Rightarrow> auth_table \<Rightarrow> rpc_code option" where
  "validateRoute route owner now T = (case route of None \<Rightarrow> Some RpcInvalidArgument
     | Some c \<Rightarrow>
         if ShardCount \<le> cr_shard_id c \<or> cr_owner_zone_id c = [] \<or> cr_owner_epoch c = 0 \<or> cr_route_version c = 0
         then Some RpcInvalidArgument
         else if Validate owner (cr_shard_id c) (cr_owner_zone_id c) (cr_owner_epoch c) now T \<noteq> None
         then Some RpcFailedPrecondition else None)"

definition domain_refusal :: "friend_error \<Rightarrow> error_code option" where
  "domain_refusal e = (case e of
       ErrStealNotAvailable \<Rightarrow> Some STEAL_NOT_AVAILABLE | ErrPlotNotEligible \<Rightarrow> Some PLOT_NOT_ELIGIBLE
     | ErrPestAlreadyPresent \<Rightarrow> Some PEST_ALREADY_PRESENT | ErrPestSourceForbidden \<Rightarrow> Some PEST_SOURCE_FORBIDDEN
     | _ \<Rightarrow> None)"

text \<open>The switch over the four actions.\<close>

definition owner_switch ::
  "friend_codec \<Rightarrow> config_snapshot \<Rightarrow> nat \<Rightarrow> u64 \<Rightarrow> visitor_action \<Rightarrow> int \<Rightarrow> farm_actor \<Rightarrow>
   (friend_error + bytes \<times> bytes \<times> farm_view_patch option \<times> bool) \<times> farm_actor" where
  "owner_switch FC config roll epoch q now = (case va_action q of
       STEAL_FRIEND_CROP \<Rightarrow> ApplyStealOnOwner FC config roll (va_owner q) epoch (va_visitor q) (va_interaction_id q)
         (va_plot q) (va_crop q) (va_view_epoch q) now
     | APPLY_PEST_TO_FRIEND \<Rightarrow> ApplyApplyPestOnOwner FC config (va_owner q) epoch (va_visitor q) (va_interaction_id q)
         (va_plot q) (va_pest_id q) now
     | CATCH_PEST_FOR_FRIEND \<Rightarrow> ApplyCatchPestOnOwner FC (va_owner q) epoch (va_visitor q) (va_interaction_id q) (va_plot q) now
     | _ \<Rightarrow> ApplyHelpCleanOnOwner FC (va_owner q) epoch (va_interaction_id q) (va_plot q) now)"

definition stolen_tip :: "friend_codec \<Rightarrow> visitor_action \<Rightarrow> bytes \<Rightarrow> presence_tip list" where
  "stolen_tip FC q payload = (case unmarshal_friend FC payload of
       None \<Rightarrow> []
     | Some r \<Rightarrow>
         let (guard, penalty) = (case fa_steal_guard r of None \<Rightarrow> (False, 0)
               | Some g \<Rightarrow> (sg_guard_triggered g, sg_guard_penalty_configured g))
         in [CropStolen (va_visitor q) (va_plot q) (va_crop q) 1 guard penalty])"

definition ApplyVisitorAction ::
  "friend_codec \<Rightarrow> config_snapshot \<Rightarrow> bool \<Rightarrow> nat \<Rightarrow> visitor_action \<Rightarrow> int \<Rightarrow> owner_farm \<Rightarrow>
   (rpc_code + visitor_action_response) \<times> presence_tip list \<times> owner_farm" where
  "ApplyVisitorAction FC config friendActionsEnabled roll q now f =
     (if va_owner q = 0 \<or> va_visitor q = 0 \<or> length (va_visit_id q) \<noteq> 16 \<or> length (va_interaction_id q) \<noteq> 16
      then (Inl RpcInvalidArgument, [], f)
      else if va_action q = FRIEND_ACTION_UNSPECIFIED then (Inr (refused UNKNOWN_ACTION), [], f)
      else if va_action q \<noteq> STEAL_FRIEND_CROP \<and> \<not> friendActionsEnabled then (Inr (refused UNKNOWN_ACTION), [], f)
      else if va_action q = APPLY_PEST_TO_FRIEND \<and> va_pest_id q = 0 then (Inl RpcInvalidArgument, [], f)
      else if va_plot q = 0 then (Inl RpcInvalidArgument, [], f)
      else case va_route q of None \<Rightarrow> (Inl RpcInvalidArgument, [], f)
      | Some c \<Rightarrow>
      (case validateRoute (va_route q) (va_owner q) now (of_auth f) of Some e \<Rightarrow> (Inl e, [], f)
      | None \<Rightarrow>
      (case ValidateVisitorAction (va_owner q) (va_visitor q) (va_visit_id q) now (of_visits f) of
         Some e \<Rightarrow> (Inr (refused e), [], f)
       | None \<Rightarrow>
           (case owner_switch FC config roll (cr_owner_epoch c) q now (of_actor f) of
              (Inr (payload, digest, patch, alreadyApplied), a) \<Rightarrow>
                (Inr \<lparr>vx_error = None, vx_digest = digest, vx_payload = payload, vx_patch = patch\<rparr>,
                 if va_action q = STEAL_FRIEND_CROP \<and> \<not> alreadyApplied then stolen_tip FC q payload else [],
                 f\<lparr>of_actor := a\<rparr>)
            | (Inl e, a) \<Rightarrow>
                (case domain_refusal e of
                   Some code \<Rightarrow> (Inr (refused code), [], f\<lparr>of_actor := a\<rparr>)
                 | None \<Rightarrow> (Inl (if e = FriendNotOwner then RpcFailedPrecondition else RpcInternal), [], f\<lparr>of_actor := a\<rparr>))))))"

section \<open>Specification of the registry\<close>

text \<open>
  What the registry promises: at most one lease per owner and visitor, alive for \<open>VisitTTL\<close> after its last
  accepted heartbeat. The two-level maps and the index by visit identifier do not appear.
\<close>

datatype lease = Lease (ls_id: bytes) (ls_gate: string) (ls_endpoint: string) (ls_heartbeat: int) (ls_request: string)

type_synonym leases = "u64 \<Rightarrow> u64 \<Rightarrow> lease option"

datatype registry_op =
    EnterOp "bytes option" u64 u64 string string int string
  | RefreshOp u64 u64 bytes string int string
  | ValidateOp u64 u64 bytes int
  | ExitOp u64 u64 bytes
  | EvictOp int

datatype registry_result =
    Refused visit_error | Granted bytes int bool | Extended int | Valid | Left bytes | Evicted "(u64 \<times> u64 \<times> bytes) set"

definition alive :: "int \<Rightarrow> lease \<Rightarrow> bool" where
  "alive now l \<longleftrightarrow> now < ls_heartbeat l + VisitTTL"

definition held :: "bytes \<Rightarrow> lease option \<Rightarrow> lease option" where
  "held visitID l = (case l of None \<Rightarrow> None | Some x \<Rightarrow> if ls_id x = visitID then Some x else None)"

definition set_lease :: "u64 \<Rightarrow> u64 \<Rightarrow> lease option \<Rightarrow> leases \<Rightarrow> leases" where
  "set_lease owner visitor l L = L(owner := (L owner)(visitor := l))"

fun spec_op :: "(string \<Rightarrow> bool) \<Rightarrow> registry_op \<Rightarrow> leases \<Rightarrow> registry_result \<times> leases" where
  "spec_op VG (EnterOp newID owner visitor gate request now endpoint) L =
     (let target = gate_or_legacy endpoint;
          fresh = (case newID of None \<Rightarrow> (Refused ErrRandom, set_lease owner visitor None L)
            | Some i \<Rightarrow> (Granted i (now + VisitTTL) True, set_lease owner visitor (Some (Lease i gate target now request)) L))
      in if gate = [] \<or> \<not> VG target then (Refused ErrInvalidGateTarget, L)
         else case L owner visitor of
           None \<Rightarrow> fresh
         | Some l \<Rightarrow>
             if request = [] \<or> ls_request l \<noteq> request then fresh
             else if ls_gate l = gate \<and> ls_endpoint l = target
             then (Granted (ls_id l) (now + VisitTTL) False, set_lease owner visitor (Some (Lease (ls_id l) gate target now request)) L)
             else (Refused ErrVisitNotFound, L))"
| "spec_op VG (RefreshOp owner visitor visitID gate now endpoint) L =
     (let target = gate_or_legacy endpoint
      in if gate = [] \<or> \<not> VG target then (Refused ErrInvalidGateTarget, L)
         else case held visitID (L owner visitor) of
           None \<Rightarrow> (Refused ErrVisitNotFound, L)
         | Some l \<Rightarrow>
             if \<not> alive now l then (Refused ErrVisitExpired, set_lease owner visitor None L)
             else if ls_gate l = gate \<and> ls_endpoint l = target
             then (Extended (now + VisitTTL), set_lease owner visitor (Some (Lease visitID gate target now (ls_request l))) L)
             else (Refused ErrVisitNotFound, L))"
| "spec_op VG (ValidateOp owner visitor visitID now) L =
     (case held visitID (L owner visitor) of None \<Rightarrow> Refused ErrVisitNotFound
      | Some l \<Rightarrow> if alive now l then Valid else Refused ErrVisitExpired, L)"
| "spec_op VG (ExitOp owner visitor visitID) L =
     (case held visitID (L owner visitor) of None \<Rightarrow> (Refused ErrVisitNotFound, L)
      | Some l \<Rightarrow> (Left visitID, set_lease owner visitor None L))"
| "spec_op VG (EvictOp now) L =
     (Evicted {(owner, visitor, i). \<exists>l. L owner visitor = Some l \<and> \<not> alive now l \<and> ls_id l = i},
      \<lambda>owner visitor. case L owner visitor of None \<Rightarrow> None | Some l \<Rightarrow> if alive now l then Some l else None)"

fun exec_op :: "(string \<Rightarrow> bool) \<Rightarrow> registry_op \<Rightarrow> registry \<Rightarrow> registry_result \<times> registry" where
  "exec_op VG (EnterOp newID owner visitor gate request now endpoint) r =
     (case Enter VG newID owner visitor gate request now endpoint r of
        (Inl e, r') \<Rightarrow> (Refused e, r') | (Inr (i, t, new), r') \<Rightarrow> (Granted i t new, r'))"
| "exec_op VG (RefreshOp owner visitor visitID gate now endpoint) r =
     (case RefreshVisit VG owner visitor visitID gate now endpoint r of
        (Inl e, r') \<Rightarrow> (Refused e, r') | (Inr t, r') \<Rightarrow> (Extended t, r'))"
| "exec_op VG (ValidateOp owner visitor visitID now) r =
     (case ValidateVisit owner visitor visitID now r of None \<Rightarrow> Valid | Some e \<Rightarrow> Refused e, r)"
| "exec_op VG (ExitOp owner visitor visitID) r =
     (case ExitVisit owner visitor visitID r of (Inl e, r') \<Rightarrow> (Refused e, r') | (Inr record, r') \<Rightarrow> (Left (vr_visit_id record), r'))"
| "exec_op VG (EvictOp now) r =
     (let (removed, r') = EvictExpired now r
      in (Evicted (set (map (\<lambda>x. (vr_owner_id x, vr_visitor_id x, vr_visit_id x)) removed)), r'))"

definition find_visit :: "registry \<Rightarrow> u64 \<Rightarrow> u64 \<Rightarrow> visit_record option" where
  "find_visit r owner visitor = fmlookup (ov_by_visitor (visits_of owner r)) visitor"

definition lease_of :: "visit_record \<Rightarrow> lease" where
  "lease_of x = Lease (vr_visit_id x) (vr_gate_id x) (vr_gate_endpoint x) (vr_last_heartbeat x) (vr_request_id x)"

definition leases :: "registry \<Rightarrow> leases" where
  "leases r owner visitor = map_option lease_of (find_visit r owner visitor)"

definition registry_ok :: "registry \<Rightarrow> bool" where
  "registry_ok r \<longleftrightarrow> (\<forall>owner visitor x. find_visit r owner visitor = Some x \<longrightarrow>
     vr_owner_id x = owner \<and> vr_visitor_id x = visitor \<and> vr_expires x = vr_last_heartbeat x + VisitTTL)"

section \<open>The registry meets its specification\<close>

lemma find_visit_empty [simp]: "find_visit fmempty owner visitor = None"
  by (simp add: find_visit_def visits_of_def no_visits_def)

lemma find_visit_upd:
  "find_visit (fmupd owner ow r) o' v = (if o' = owner then fmlookup (ov_by_visitor ow) v else find_visit r o' v)"
  by (simp add: find_visit_def visits_of_def)

lemma find_visit_put:
  "find_visit (put_visits owner ow r) o' v = (if o' = owner then fmlookup (ov_by_visitor ow) v else find_visit r o' v)"
proof (cases "fmdom (ov_by_visitor ow) = {||}")
  case True
  then have "fmlookup (ov_by_visitor ow) v = None" by (simp add: fmdom_notD)
  then show ?thesis using True by (simp add: put_visits_def find_visit_def visits_of_def no_visits_def)
qed (simp add: put_visits_def find_visit_upd)

lemma lookupLocked_find:
  "lookupLocked owner visitor visitID r =
     (case find_visit r owner visitor of None \<Rightarrow> None | Some x \<Rightarrow> if vr_visit_id x = visitID then Some x else None)"
  by (simp add: lookupLocked_def find_visit_def visits_of_def no_visits_def split: option.splits)

lemma drop_visit_lookup [simp]:
  "fmlookup (ov_by_visitor (drop_visit v x ow)) v' = (if v' = v then None else fmlookup (ov_by_visitor ow) v')"
  by (simp add: drop_visit_def)

lemma find_visit_remove:
  "find_visit (removeLocked owner visitor x r) o' v = (if o' = owner \<and> v = visitor then None else find_visit r o' v)"
  by (simp add: removeLocked_def find_visit_put) (simp add: find_visit_def)

lemma map_filter_agree: "(\<And>x. x \<in> set xs \<Longrightarrow> f x = g x) \<Longrightarrow> List.map_filter f xs = List.map_filter g xs"
  by (induction xs) (simp_all add: map_filter_simps split: option.splits)

lemma map_filter_mem: "y \<in> set (List.map_filter f xs) \<longleftrightarrow> (\<exists>x. x \<in> set xs \<and> f x = Some y)"
  by (induction xs) (auto simp: map_filter_simps split: option.splits)

lemma evict_visitors:
  "fst (fold evict_visitor vs (removed, ow)) = removed @ List.map_filter (fmlookup (ov_by_visitor ow)) vs \<and>
   fmlookup (ov_by_visitor (snd (fold evict_visitor vs (removed, ow)))) v =
     (if v \<in> set vs then None else fmlookup (ov_by_visitor ow) v)" if "distinct vs"
  using that
proof (induction vs arbitrary: removed ow)
  case (Cons u us)
  show ?case
  proof (cases "fmlookup (ov_by_visitor ow) u")
    case None
    then show ?thesis using Cons by (simp add: evict_visitor_def map_filter_simps)
  next
    case (Some x)
    have "List.map_filter (fmlookup (ov_by_visitor (drop_visit u x ow))) us = List.map_filter (fmlookup (ov_by_visitor ow)) us"
      using Cons.prems by (intro map_filter_agree) auto
    then show ?thesis using Cons Some by (simp add: evict_visitor_def map_filter_simps)
  qed
qed (simp add: map_filter_simps)

lemma evict_owner_spec:
  assumes "registry_ok r" "evict_owner now owner (removed, r) = (removed', r')"
  shows "set removed' = set removed \<union> {x. vr_owner_id x = owner \<and> vr_expires x \<le> now \<and> find_visit r owner (vr_visitor_id x) = Some x}"
    and "find_visit r' o' v = (case find_visit r o' v of None \<Rightarrow> None
      | Some x \<Rightarrow> if o' = owner \<and> vr_expires x \<le> now then None else Some x)"
proof -
  let ?ow = "visits_of owner r"
  let ?vs = "expired_visitors now ?ow"
  have d: "distinct ?vs" by (simp add: expired_visitors_def)
  have m: "v \<in> set ?vs \<longleftrightarrow> (\<exists>x. find_visit r owner v = Some x \<and> vr_expires x \<le> now)" for v
    by (auto simp: expired_visitors_def find_visit_def split: option.splits intro: fmdomI)
  obtain ow' where f: "fold evict_visitor ?vs (removed, ?ow) = (removed', ow')" and r': "r' = put_visits owner ow' r"
    using assms(2) by (auto simp: evict_owner_def Let_def split: prod.splits)
  have k: "find_visit r owner v = Some x \<Longrightarrow> vr_owner_id x = owner \<and> vr_visitor_id x = v" for v x
    using assms(1) by (simp add: registry_ok_def)
  have "set (List.map_filter (fmlookup (ov_by_visitor ?ow)) ?vs) =
      {x. vr_owner_id x = owner \<and> vr_expires x \<le> now \<and> find_visit r owner (vr_visitor_id x) = Some x}"
  proof (intro set_eqI)
    fix x
    have "x \<in> set (List.map_filter (fmlookup (ov_by_visitor ?ow)) ?vs) \<longleftrightarrow> (\<exists>v. v \<in> set ?vs \<and> find_visit r owner v = Some x)"
      by (simp add: map_filter_mem find_visit_def)
    also have "\<dots> \<longleftrightarrow> x \<in> {x. vr_owner_id x = owner \<and> vr_expires x \<le> now \<and> find_visit r owner (vr_visitor_id x) = Some x}"
      using m k by (metis (mono_tags, lifting) mem_Collect_eq option.inject)
    finally show "x \<in> set (List.map_filter (fmlookup (ov_by_visitor ?ow)) ?vs) \<longleftrightarrow>
      x \<in> {x. vr_owner_id x = owner \<and> vr_expires x \<le> now \<and> find_visit r owner (vr_visitor_id x) = Some x}" .
  qed
  then show "set removed' = set removed \<union> {x. vr_owner_id x = owner \<and> vr_expires x \<le> now \<and> find_visit r owner (vr_visitor_id x) = Some x}"
    using evict_visitors [OF d, of removed ?ow] f by simp
  show "find_visit r' o' v = (case find_visit r o' v of None \<Rightarrow> None
      | Some x \<Rightarrow> if o' = owner \<and> vr_expires x \<le> now then None else Some x)"
    using evict_visitors [OF d, of removed ?ow v] f m [of v]
    by (auto simp: r' find_visit_put split: option.splits) (auto simp: find_visit_def)
qed

lemma evict_owners:
  assumes "registry_ok r" "distinct os" "fold (evict_owner now) os (removed, r) = (removed', r')"
  shows "set removed' = set removed \<union> {x. vr_owner_id x \<in> set os \<and> vr_expires x \<le> now \<and>
      find_visit r (vr_owner_id x) (vr_visitor_id x) = Some x} \<and>
    (\<forall>o' v. find_visit r' o' v = (case find_visit r o' v of None \<Rightarrow> None
      | Some x \<Rightarrow> if o' \<in> set os \<and> vr_expires x \<le> now then None else Some x))"
  using assms
proof (induction os arbitrary: removed r)
  case (Cons owner os)
  obtain removed1 r1 where e: "evict_owner now owner (removed, r) = (removed1, r1)" by fastforce
  note spec = evict_owner_spec [OF Cons.prems(1) e]
  have "registry_ok r1" using Cons.prems(1) spec(2) by (auto simp: registry_ok_def split: option.splits if_splits)
  then have ih: "set removed' = set removed1 \<union> {x. vr_owner_id x \<in> set os \<and> vr_expires x \<le> now \<and>
      find_visit r1 (vr_owner_id x) (vr_visitor_id x) = Some x} \<and>
    (\<forall>o' v. find_visit r' o' v = (case find_visit r1 o' v of None \<Rightarrow> None
      | Some x \<Rightarrow> if o' \<in> set os \<and> vr_expires x \<le> now then None else Some x))"
    using Cons e by (intro Cons.IH) auto
  have same: "find_visit r1 o' v = find_visit r o' v" if "o' \<in> set os" for o' v
    using spec(2) [of o' v] Cons.prems(2) that by (auto split: option.splits)
  have "{x. vr_owner_id x \<in> set os \<and> vr_expires x \<le> now \<and> find_visit r1 (vr_owner_id x) (vr_visitor_id x) = Some x} =
      {x. vr_owner_id x \<in> set os \<and> vr_expires x \<le> now \<and> find_visit r (vr_owner_id x) (vr_visitor_id x) = Some x}"
    using same by (intro Collect_cong) (simp cong: conj_cong)
  then show ?case using ih spec by (auto split: option.splits)
qed (auto split: option.splits)

lemma find_visit_owner: "find_visit r owner v = Some x \<Longrightarrow> owner \<in> set (map_keys r)"
  by (auto simp: find_visit_def visits_of_def no_visits_def split: option.splits intro: fmdomI)

lemma EvictExpired_spec:
  assumes "registry_ok r" "EvictExpired now r = (removed, r')"
  shows "set removed = {x. vr_expires x \<le> now \<and> find_visit r (vr_owner_id x) (vr_visitor_id x) = Some x}"
    and "find_visit r' o' v = (case find_visit r o' v of None \<Rightarrow> None | Some x \<Rightarrow> if vr_expires x \<le> now then None else Some x)"
  using evict_owners [OF assms(1), of "map_keys r" now "[]" removed r'] assms(2) find_visit_owner
  by (auto simp: EvictExpired_def split: option.splits)

text \<open>One operation.\<close>

lemma leases_put:
  "(\<And>v. fmlookup (ov_by_visitor ow) v = (if v = visitor then l else find_visit r owner v)) \<Longrightarrow>
   leases (fmupd owner ow r) = set_lease owner visitor (map_option lease_of l) (leases r)"
  by (auto simp: leases_def set_lease_def find_visit_upd fun_eq_iff)

lemma leases_remove: "leases (removeLocked owner visitor x r) = set_lease owner visitor None (leases r)"
  by (auto simp: leases_def set_lease_def find_visit_remove fun_eq_iff)

lemma held_lookup: "held i (leases r owner visitor) = map_option lease_of (lookupLocked owner visitor i r)"
  by (auto simp: held_def leases_def lookupLocked_find lease_of_def split: option.splits)

lemma alive_expires:
  "registry_ok r \<Longrightarrow> find_visit r owner visitor = Some x \<Longrightarrow> alive now (lease_of x) \<longleftrightarrow> \<not> vr_expires x \<le> now"
  by (auto simp: registry_ok_def alive_def lease_of_def)

lemma registry_ok_upd:
  assumes "registry_ok r" "\<And>v x. fmlookup (ov_by_visitor ow) v = Some x \<Longrightarrow> v \<noteq> visitor \<Longrightarrow> find_visit r owner v = Some x"
    "\<And>x. fmlookup (ov_by_visitor ow) visitor = Some x \<Longrightarrow>
      vr_owner_id x = owner \<and> vr_visitor_id x = visitor \<and> vr_expires x = vr_last_heartbeat x + VisitTTL"
  shows "registry_ok (fmupd owner ow r)"
  unfolding registry_ok_def
proof (intro allI impI)
  fix o' v x assume f: "find_visit (fmupd owner ow r) o' v = Some x"
  show "vr_owner_id x = o' \<and> vr_visitor_id x = v \<and> vr_expires x = vr_last_heartbeat x + VisitTTL"
  proof (cases "o' = owner")
    case True
    then have l: "fmlookup (ov_by_visitor ow) v = Some x" using f by (simp add: find_visit_upd)
    show ?thesis
    proof (cases "v = visitor")
      case False
      then show ?thesis using assms(1) assms(2) [OF l False] True by (simp add: registry_ok_def)
    qed (use l assms(3) True in simp)
  qed (use f assms(1) in \<open>simp add: find_visit_upd registry_ok_def\<close>)
qed

lemma registry_ok_remove: "registry_ok r \<Longrightarrow> registry_ok (removeLocked owner visitor x r)"
  by (simp add: registry_ok_def find_visit_remove)

lemma Enter_refines:
  assumes "registry_ok r" "exec_op VG (EnterOp newID owner visitor gate request now endpoint) r = (res, r')"
  shows "registry_ok r' \<and> spec_op VG (EnterOp newID owner visitor gate request now endpoint) (leases r) = (res, leases r')"
proof (cases "gate = [] \<or> \<not> VG (gate_or_legacy endpoint)")
  case True
  then show ?thesis using assms by (auto simp: Enter_def Let_def)
next
  case False
  let ?ow = "visits_of owner r"
  have fv: "fmlookup (ov_by_visitor ?ow) v = find_visit r owner v" for v by (simp add: find_visit_def)
  let ?new = "\<lambda>i. \<lparr>vr_owner_id = owner, vr_visitor_id = visitor, vr_visit_id = i, vr_gate_id = gate,
    vr_gate_endpoint = gate_or_legacy endpoint, vr_last_heartbeat = now, vr_expires = now + VisitTTL, vr_request_id = request\<rparr>"
  have fresh: "registry_ok (fmupd owner (ow\<lparr>ov_by_visitor := fmupd visitor (?new i) (ov_by_visitor ow), ov_by_visit_id := n\<rparr>) r) \<and>
      leases (fmupd owner (ow\<lparr>ov_by_visitor := fmupd visitor (?new i) (ov_by_visitor ow), ov_by_visit_id := n\<rparr>) r) =
        set_lease owner visitor (Some (Lease i gate (gate_or_legacy endpoint) now request)) (leases r)"
    if "\<And>v. v \<noteq> visitor \<Longrightarrow> fmlookup (ov_by_visitor ow) v = find_visit r owner v" for i ow n
    using leases_put [of "ow\<lparr>ov_by_visitor := fmupd visitor (?new i) (ov_by_visitor ow), ov_by_visit_id := n\<rparr>" visitor "Some (?new i)" r owner]
    by (intro conjI registry_ok_upd [OF assms(1), of _ visitor]) (auto simp: lease_of_def that split: if_splits)
  show ?thesis
  proof (cases "find_visit r owner visitor")
    case None
    then have L: "leases r owner visitor = None" by (simp add: leases_def)
    show ?thesis
    proof (cases newID)
      case n: None
      have "registry_ok (fmupd owner ?ow r)"
        using assms(1) by (intro registry_ok_upd [of r _ visitor]) (auto simp: fv None)
      moreover have "leases (fmupd owner ?ow r) = set_lease owner visitor None (leases r)"
        using leases_put [of ?ow visitor None r owner] by (simp add: fv None)
      ultimately show ?thesis using assms(2) False n L by (auto simp: Enter_def Let_def fv None)
    next
      case (Some i)
      then show ?thesis using assms(2) False L fresh [where ow = ?ow and i = i] by (auto simp: Enter_def Let_def fv None)
    qed
  next
    case (Some x)
    then have L: "leases r owner visitor = Some (lease_of x)" by (simp add: leases_def)
    have x: "vr_owner_id x = owner" "vr_visitor_id x = visitor" using assms(1) Some by (simp_all add: registry_ok_def)
    show ?thesis
    proof (cases "request \<noteq> [] \<and> vr_request_id x = request")
      case True
      let ?x' = "x\<lparr>vr_last_heartbeat := now, vr_expires := now + VisitTTL\<rparr>"
      let ?r' = "fmupd owner (?ow\<lparr>ov_by_visitor := fmupd visitor ?x' (ov_by_visitor ?ow)\<rparr>) r"
      have up: "registry_ok ?r'" using x by (intro registry_ok_upd [OF assms(1), of _ visitor]) (auto simp: fv)
      have le: "leases ?r' = set_lease owner visitor (Some (lease_of ?x')) (leases r)"
        using leases_put [of "?ow\<lparr>ov_by_visitor := fmupd visitor ?x' (ov_by_visitor ?ow)\<rparr>" visitor "Some ?x'" r owner] by (simp add: fv)
      have same: "registry_ok (fmupd owner ?ow r)" "leases (fmupd owner ?ow r) = leases r"
        using assms(1) by (simp_all add: registry_ok_def leases_def fun_eq_iff find_visit_upd fv)
      show ?thesis using assms(2) False True L up le same
        by (auto simp: Enter_def Let_def fv Some lease_of_def)
    next
      case no: False
      show ?thesis
      proof (cases newID)
        case n: None
        have "registry_ok (fmupd owner (drop_visit visitor x ?ow) r)"
          using assms(1) by (intro registry_ok_upd [of r _ visitor]) (auto simp: fv split: if_splits)
        moreover have "leases (fmupd owner (drop_visit visitor x ?ow) r) = set_lease owner visitor None (leases r)"
          using leases_put [of "drop_visit visitor x ?ow" visitor None r owner] by (simp add: fv)
        ultimately show ?thesis using assms(2) False no n L by (auto simp: Enter_def Let_def fv Some lease_of_def)
      next
        case i: (Some i)
        show ?thesis using assms(2) False no i L fresh [where ow = "drop_visit visitor x ?ow" and i = i]
          by (auto simp: Enter_def Let_def fv Some lease_of_def)
      qed
    qed
  qed
qed

lemma Refresh_refines:
  assumes "registry_ok r" "exec_op VG (RefreshOp owner visitor i gate now endpoint) r = (res, r')"
  shows "registry_ok r' \<and> spec_op VG (RefreshOp owner visitor i gate now endpoint) (leases r) = (res, leases r')"
proof (cases "gate = [] \<or> \<not> VG (gate_or_legacy endpoint) \<or> lookupLocked owner visitor i r = None")
  case True
  then show ?thesis using assms by (auto simp: RefreshVisit_def Let_def held_lookup)
next
  case False
  then obtain x where l: "lookupLocked owner visitor i r = Some x" by auto
  then have x: "find_visit r owner visitor = Some x" "vr_visit_id x = i"
    by (auto simp: lookupLocked_find split: option.splits if_splits)
  have ids: "vr_owner_id x = owner" "vr_visitor_id x = visitor" using assms(1) x(1) by (simp_all add: registry_ok_def)
  let ?ow = "visits_of owner r" and ?x' = "x\<lparr>vr_last_heartbeat := now, vr_expires := now + VisitTTL\<rparr>"
  let ?r' = "fmupd owner (?ow\<lparr>ov_by_visitor := fmupd visitor ?x' (ov_by_visitor ?ow)\<rparr>) r"
  have fv: "fmlookup (ov_by_visitor ?ow) v = find_visit r owner v" for v by (simp add: find_visit_def)
  have "registry_ok ?r'" using ids by (intro registry_ok_upd [OF assms(1), of _ visitor]) (auto simp: fv)
  moreover have "leases ?r' = set_lease owner visitor (Some (lease_of ?x')) (leases r)"
    using leases_put [of "?ow\<lparr>ov_by_visitor := fmupd visitor ?x' (ov_by_visitor ?ow)\<rparr>" visitor "Some ?x'" r owner] by (simp add: fv)
  ultimately show ?thesis
    using assms False l x(2) alive_expires [OF assms(1) x(1), of now] leases_remove [of owner visitor x r]
      registry_ok_remove [OF assms(1), of owner visitor x]
    by (auto simp: RefreshVisit_def Let_def held_lookup lease_of_def)
qed

lemma Evict_refines:
  assumes "registry_ok r" "exec_op VG (EvictOp now) r = (res, r')"
  shows "registry_ok r' \<and> spec_op VG (EvictOp now) (leases r) = (res, leases r')"
proof -
  obtain removed where e: "EvictExpired now r = (removed, r')"
    and res: "res = Evicted (set (map (\<lambda>x. (vr_owner_id x, vr_visitor_id x, vr_visit_id x)) removed))"
    using assms(2) by (auto split: prod.splits)
  note s = EvictExpired_spec [OF assms(1) e]
  have a: "find_visit r owner v = Some x \<Longrightarrow> (\<not> alive now (lease_of x)) = (vr_expires x \<le> now) \<and> vr_owner_id x = owner \<and> vr_visitor_id x = v"
    for owner v x using alive_expires [OF assms(1)] assms(1) by (auto simp: registry_ok_def)
  have "(owner, v, i) \<in> set (map (\<lambda>x. (vr_owner_id x, vr_visitor_id x, vr_visit_id x)) removed) \<longleftrightarrow>
      (\<exists>x. find_visit r owner v = Some x \<and> vr_expires x \<le> now \<and> vr_visit_id x = i)" for owner v i
    using a s(1) by auto
  moreover have "(\<exists>x. find_visit r owner v = Some x \<and> vr_expires x \<le> now \<and> vr_visit_id x = i) \<longleftrightarrow>
      (\<exists>l. leases r owner v = Some l \<and> \<not> alive now l \<and> ls_id l = i)" for owner v i
    using a [of owner v] by (auto simp: leases_def lease_of_def)
  ultimately have "set (map (\<lambda>x. (vr_owner_id x, vr_visitor_id x, vr_visit_id x)) removed) =
      {(owner, v, i). \<exists>l. leases r owner v = Some l \<and> \<not> alive now l \<and> ls_id l = i}"
    by (intro set_eqI) (simp only: split_paired_all mem_Collect_eq case_prod_conv)
  moreover have "leases r' owner v = (case leases r owner v of None \<Rightarrow> None | Some l \<Rightarrow> if alive now l then Some l else None)" for owner v
    using s(2) [of owner v] a [of owner v] by (auto simp: leases_def split: option.splits)
  moreover have "registry_ok r'" using assms(1) s(2) by (auto simp: registry_ok_def split: option.splits if_splits)
  ultimately show ?thesis by (simp add: res fun_eq_iff)
qed

lemma op_refines:
  assumes "registry_ok r" "exec_op VG p r = (res, r')"
  shows "registry_ok r' \<and> spec_op VG p (leases r) = (res, leases r')"
proof (cases p)
  case (ValidateOp owner visitor i now)
  have "alive now (lease_of x) \<longleftrightarrow> \<not> vr_expires x \<le> now" if "lookupLocked owner visitor i r = Some x" for x
    using that alive_expires [OF assms(1), of owner visitor x] by (auto simp: lookupLocked_find split: option.splits if_splits)
  then show ?thesis using assms ValidateOp by (auto simp: ValidateVisit_def held_lookup split: option.splits)
next
  case (ExitOp owner visitor i)
  have "vr_visit_id x = i" if "lookupLocked owner visitor i r = Some x" for x
    using that by (auto simp: lookupLocked_find split: option.splits if_splits)
  then show ?thesis
    using assms ExitOp leases_remove registry_ok_remove [OF assms(1)]
    by (cases "lookupLocked owner visitor i r") (auto simp: ExitVisit_def held_lookup)
next
  case (EnterOp newID owner visitor gate request now endpoint)
  then show ?thesis using Enter_refines [OF assms(1)] assms(2) by simp
next
  case (RefreshOp owner visitor i gate now endpoint)
  then show ?thesis using Refresh_refines [OF assms(1)] assms(2) by simp
next
  case (EvictOp now)
  then show ?thesis using Evict_refines [OF assms(1)] assms(2) by simp
qed

fun run_ops :: "('o \<Rightarrow> 's \<Rightarrow> 'x \<times> 's) \<Rightarrow> 'o list \<Rightarrow> 's \<Rightarrow> 'x list \<times> 's" where
  "run_ops f [] s = ([], s)"
| "run_ops f (p # ps) s = (let (x, s1) = f p s; (xs, s2) = run_ops f ps s1 in (x # xs, s2))"

lemma ops_refine:
  "registry_ok r \<Longrightarrow> run_ops (exec_op VG) ps r = (xs, r') \<Longrightarrow>
   registry_ok r' \<and> run_ops (spec_op VG) ps (leases r) = (xs, leases r')"
proof (induction ps arbitrary: r xs)
  case (Cons p ps)
  obtain x r1 ys where e: "exec_op VG p r = (x, r1)" "run_ops (exec_op VG) ps r1 = (ys, r')" "xs = x # ys"
    using Cons.prems(2) by (auto simp: Let_def split: prod.splits)
  have "registry_ok r1 \<and> spec_op VG p (leases r) = (x, leases r1)" by (rule op_refines [OF Cons.prems(1) e(1)])
  then show ?case using Cons.IH [OF _ e(2)] e(3) by simp
qed simp

section \<open>Properties\<close>

text \<open>
  C10: the registry of visits implements leases. For every sequence of entering, heartbeats, checks,
  leaving and eviction sweeps, started on an empty registry, with any clock readings, the answers and the
  resulting leases are those of the specification: one lease per owner and visitor, valid until ninety
  seconds after its last accepted heartbeat, ended early only by its holder's exit or a new entry.
\<close>

theorem registry_implements_leases:
  "let (results, r) = run_ops (exec_op VG) ps fmempty
   in run_ops (spec_op VG) ps (\<lambda>owner visitor. None) = (results, leases r)"
proof -
  have "registry_ok fmempty" "leases fmempty = (\<lambda>owner visitor. None)"
    by (simp_all add: registry_ok_def leases_def fun_eq_iff)
  then show ?thesis using ops_refine [of fmempty VG ps] by (auto split: prod.splits)
qed

end
