(* ===== verification/Steal_Saga.thy ===== *)
theory Steal_Saga
  imports Visits
begin

text \<open>
  The saga that carries a friend interaction through both players (package \<open>interaction\<close>): its record, the
  store with versions, the loop \<open>advance\<close>, \<open>Execute\<close> and \<open>Resume\<close> of the two sagas, and the reconciler.

  The two sagas have the same loop around different steps; here the loop is defined once over the steps.
  Calls can fail on the way: each call has a \<open>fate\<close> that says whether its request or its reply is lost, and
  a lost reply leaves the effect of the call behind. The fates, clocks, dice and resolved routes of an
  attempt are arguments. The steps on the players are those of \<open>Friend_Steps\<close> and \<open>Visits\<close>; what a step
  has answered is taken to last (writing players to the store is not part of this theory).
\<close>

section \<open>Records and errors\<close>

datatype saga_status =
    SAGA_UNSPECIFIED | INIT | VISITOR_RESERVED | OWNER_APPLIED | VISITOR_COMMITTED | COMPLETED | RELEASING | ABORTED

text \<open>\<open>error_code\<close> is empty, the name of a client error, or \<open>TRANSPORT_ERROR\<close>.\<close>

datatype stored_code = NoCode | TransportError | CodeName error_code

record interaction =
  in_interaction_id :: bytes
  in_visitor_player_id :: u64
  in_owner_player_id :: u64
  in_visit_id :: bytes
  in_action :: friend_action
  in_plot_id :: u32
  in_pest_id :: u32
  in_request_digest :: bytes
  in_status :: saga_status
  in_result_payload :: bytes
  in_result_digest :: bytes
  in_error_code :: stored_code
  in_retry_at_ms :: int
  in_created_at_ms :: int
  in_updated_at_ms :: int
  in_crop_item_id :: u32
  in_quantity :: u32
  in_farm_view_epoch :: bytes
  in_farm_view_seq :: u64

datatype store_error = ErrNotFound | ErrAlreadyExists | ErrVersionConflict | ErrStoreUnavailable

datatype saga_error =
    IncompleteRequest | DigestConflict | OutcomeUnknown | Aborted error_code | NotConverged
  | StoreFailed store_error | RetryNotPersisted store_error | CorruptResult | UnknownStatus

definition parseErrorCode :: "stored_code \<Rightarrow> error_code" where
  "parseErrorCode c = (case c of CodeName e \<Rightarrow> e | _ \<Rightarrow> ERROR_UNSPECIFIED)"

definition visitorDomainErrorCode :: "friend_error \<Rightarrow> error_code option" where
  "visitorDomainErrorCode e = (case e of
       ErrStealInventoryCapacity \<Rightarrow> Some INVENTORY_CAPACITY_EXCEEDED
     | ErrStealReservationConflict \<Rightarrow> Some REQUEST_ID_CONFLICT
     | ErrInsufficientActionChance \<Rightarrow> Some INSUFFICIENT_ACTION_CHANCE
     | ErrActionReservationConflict \<Rightarrow> Some REQUEST_ID_CONFLICT
     | ErrPestAlreadyPresent \<Rightarrow> Some PEST_ALREADY_PRESENT
     | ErrPestSourceForbidden \<Rightarrow> Some PEST_SOURCE_FORBIDDEN
     | ErrPlotNotEligible \<Rightarrow> Some PLOT_NOT_ELIGIBLE
     | _ \<Rightarrow> None)"

fun friend_action_code :: "friend_action \<Rightarrow> u32" where
  "friend_action_code FRIEND_ACTION_UNSPECIFIED = 0"
| "friend_action_code APPLY_PEST_TO_FRIEND = 1"
| "friend_action_code CATCH_PEST_FOR_FRIEND = 2"
| "friend_action_code HELP_CLEAN_FRIEND_PLOT = 3"
| "friend_action_code STEAL_FRIEND_CROP = 4"

definition RequestDigest ::
  "friend_action \<Rightarrow> u64 \<Rightarrow> u64 \<Rightarrow> bytes \<Rightarrow> u32 \<Rightarrow> u32 \<Rightarrow> u32 \<Rightarrow> bytes \<Rightarrow> u64 \<Rightarrow> bytes" where
  "RequestDigest action visitor owner visitID plotID pestID cropItemID farmViewEpoch farmViewSeq =
     sha256 (be32 (friend_action_code action) @ be64 visitor @ be64 owner @ visitID @ be32 plotID @ be32 pestID @
       be32 cropItemID @ farmViewEpoch @ be64 farmViewSeq)"

section \<open>The world of an interaction\<close>

type_synonym saga_store = "(bytes, interaction \<times> u32) fmap"

record saga_world =
  sw_store :: saga_store
  sw_visitor :: state
  sw_farm :: owner_farm

datatype fate = Delivered | RequestLost | ReplyLost

definition with_fate :: "fate \<Rightarrow> 'e \<Rightarrow> ('w \<Rightarrow> ('e + 'a) \<times> 'w) \<Rightarrow> 'w \<Rightarrow> ('e + 'a) \<times> 'w" where
  "with_fate f e call w = (case f of Delivered \<Rightarrow> call w | RequestLost \<Rightarrow> (Inl e, w) | ReplyLost \<Rightarrow> (Inl e, snd (call w)))"

text \<open>\<open>MemoryStore\<close>; the Tcaplus store has the same contract.\<close>

definition Get :: "bytes \<Rightarrow> saga_world \<Rightarrow> (store_error + interaction \<times> u32) \<times> saga_world" where
  "Get i w = (case fmlookup (sw_store w) i of None \<Rightarrow> (Inl ErrNotFound, w) | Some r \<Rightarrow> (Inr r, w))"

definition Insert :: "interaction \<Rightarrow> saga_world \<Rightarrow> (store_error + u32) \<times> saga_world" where
  "Insert r w = (case fmlookup (sw_store w) (in_interaction_id r) of
       Some _ \<Rightarrow> (Inl ErrAlreadyExists, w)
     | None \<Rightarrow> (Inr 1, w\<lparr>sw_store := fmupd (in_interaction_id r) (r, 1) (sw_store w)\<rparr>))"

definition Update :: "interaction \<Rightarrow> u32 \<Rightarrow> saga_world \<Rightarrow> (store_error + u32) \<times> saga_world" where
  "Update r expectedVersion w = (case fmlookup (sw_store w) (in_interaction_id r) of
       None \<Rightarrow> (Inl ErrNotFound, w)
     | Some (_, version) \<Rightarrow>
         if version \<noteq> expectedVersion then (Inl ErrVersionConflict, w)
         else (Inr (version + 1), w\<lparr>sw_store := fmupd (in_interaction_id r) (r, version + 1) (sw_store w)\<rparr>))"

text \<open>
  The circumstances of one pass of the loop: fates of the call and of the update, the clock of the called
  Zone, the roll of the dog, and the routes the client resolves, first and after an invalidation.
\<close>

record conditions =
  cn_call :: fate
  cn_update :: fate
  cn_now :: int
  cn_roll :: nat
  cn_route :: "committed_route option"
  cn_second_route :: "committed_route option"

record saga_steps =
  sg_reserve :: "saga_world \<Rightarrow> (friend_error + bool) \<times> saga_world"
  sg_apply :: "saga_world \<Rightarrow> (rpc_code + visitor_action_response) \<times> saga_world"
  sg_commit :: "bytes \<Rightarrow> saga_world \<Rightarrow> (friend_error + friend_response) \<times> saga_world"
  sg_release :: "saga_world \<Rightarrow> saga_world"

section \<open>The loop\<close>

definition maxSagaSteps :: nat where "maxSagaSteps = 32"
definition defaultRetryBackoff :: int where "defaultRetryBackoff = 30000"

definition deferRetry ::
  "fate \<Rightarrow> interaction \<Rightarrow> u32 \<Rightarrow> int \<Rightarrow> saga_world \<Rightarrow> (saga_error + friend_response) \<times> saga_world" where
  "deferRetry f r version now w =
     (case with_fate f ErrStoreUnavailable (Update (r\<lparr>in_retry_at_ms := now + defaultRetryBackoff,
          in_error_code := TransportError, in_updated_at_ms := now\<rparr>) version) w of
        (Inl e, w1) \<Rightarrow> (Inl (RetryNotPersisted e), w1)
      | (Inr _, w1) \<Rightarrow> (Inl OutcomeUnknown, w1))"

datatype saga_move = Proceed interaction | Postpone | Return "saga_error + friend_response"

definition saga_switch :: "friend_codec \<Rightarrow> saga_steps \<Rightarrow> interaction \<Rightarrow> saga_world \<Rightarrow> saga_move \<times> saga_world" where
  "saga_switch FC steps r w = (case in_status r of
       INIT \<Rightarrow>
         (case sg_reserve steps w of
            (Inr _, w1) \<Rightarrow> (Proceed (r\<lparr>in_status := VISITOR_RESERVED\<rparr>), w1)
          | (Inl e, w1) \<Rightarrow>
              (case visitorDomainErrorCode e of
                 Some code \<Rightarrow> (Proceed (r\<lparr>in_status := RELEASING, in_error_code := CodeName code\<rparr>), w1)
               | None \<Rightarrow> (Postpone, w1)))
     | VISITOR_RESERVED \<Rightarrow>
         (case sg_apply steps w of
            (Inl _, w1) \<Rightarrow> (Postpone, w1)
          | (Inr response, w1) \<Rightarrow>
              (case vx_error response of
                 Some code \<Rightarrow> (Proceed (r\<lparr>in_status := RELEASING, in_error_code := CodeName code\<rparr>), w1)
               | None \<Rightarrow> (Proceed (r\<lparr>in_result_payload := marshal_friend FC
                     (FriendActionResponse (in_interaction_id r) None (vx_patch response) None),
                   in_result_digest := vx_digest response, in_status := OWNER_APPLIED\<rparr>), w1)))
     | OWNER_APPLIED \<Rightarrow>
         (case sg_commit steps (in_result_payload r) w of
            (Inl _, w1) \<Rightarrow> (Postpone, w1)
          | (Inr response, w1) \<Rightarrow>
              let body = marshal_friend FC response
              in (Proceed (r\<lparr>in_result_payload := body, in_result_digest := sha256 body,
                    in_status := VISITOR_COMMITTED\<rparr>), w1))
     | VISITOR_COMMITTED \<Rightarrow> (Proceed (r\<lparr>in_status := COMPLETED\<rparr>), w)
     | COMPLETED \<Rightarrow>
         (Return (case unmarshal_friend FC (in_result_payload r) of None \<Rightarrow> Inl CorruptResult | Some response \<Rightarrow> Inr response), w)
     | RELEASING \<Rightarrow> (Proceed (r\<lparr>in_status := ABORTED\<rparr>), sg_release steps w)
     | ABORTED \<Rightarrow> (Return (Inl (Aborted (parseErrorCode (in_error_code r)))), w)
     | SAGA_UNSPECIFIED \<Rightarrow> (Return (Inl UnknownStatus), w))"

text \<open>\<open>n\<close> passes are left; \<open>cs n\<close> are the circumstances of this pass.\<close>

fun advance ::
  "friend_codec \<Rightarrow> (conditions \<Rightarrow> saga_steps) \<Rightarrow> (nat \<Rightarrow> conditions) \<Rightarrow> int \<Rightarrow> nat \<Rightarrow> interaction \<Rightarrow> u32 \<Rightarrow> saga_world \<Rightarrow>
   (saga_error + friend_response) \<times> saga_world" where
  "advance FC steps cs now 0 r version w = (Inl NotConverged, w)"
| "advance FC steps cs now (Suc n) r version w =
     (case saga_switch FC (steps (cs n)) r w of
        (Return res, w1) \<Rightarrow> (res, w1)
      | (Postpone, w1) \<Rightarrow> deferRetry (cn_update (cs n)) r version now w1
      | (Proceed r1, w1) \<Rightarrow>
          let r2 = r1\<lparr>in_retry_at_ms := 0, in_updated_at_ms := now\<rparr>
          in (case with_fate (cn_update (cs n)) ErrStoreUnavailable (Update r2 version) w1 of
                (Inl e, w2) \<Rightarrow> (Inl (StoreFailed e), w2)
              | (Inr v2, w2) \<Rightarrow> advance FC steps cs now n r2 v2 w2))"

text \<open>\<open>createOrLoad\<close>, with the fates of its three calls.\<close>

record attempt =
  at_get :: fate
  at_insert :: fate
  at_reload :: fate
  at_now :: int
  at_passes :: "nat \<Rightarrow> conditions"

definition check_digest :: "bytes \<Rightarrow> interaction \<times> u32 \<Rightarrow> saga_error + interaction \<times> u32" where
  "check_digest digest r = (if in_request_digest (fst r) \<noteq> digest then Inl DigestConflict else Inr r)"

definition createOrLoad ::
  "interaction \<Rightarrow> attempt \<Rightarrow> saga_world \<Rightarrow> (saga_error + interaction \<times> u32) \<times> saga_world" where
  "createOrLoad r a w =
     (let i = in_interaction_id r; digest = in_request_digest r
      in case with_fate (at_get a) ErrStoreUnavailable (Get i) w of
        (Inr found, w1) \<Rightarrow> (check_digest digest found, w1)
      | (Inl e, w1) \<Rightarrow>
          if e \<noteq> ErrNotFound then (Inl (StoreFailed e), w1)
          else (case with_fate (at_insert a) ErrStoreUnavailable (Insert r) w1 of
                  (Inr version, w2) \<Rightarrow> (Inr (r, version), w2)
                | (Inl e2, w2) \<Rightarrow>
                    if e2 \<noteq> ErrAlreadyExists then (Inl (StoreFailed e2), w2)
                    else (case with_fate (at_reload a) ErrStoreUnavailable (Get i) w2 of
                            (Inl e3, w3) \<Rightarrow> (Inl (StoreFailed e3), w3)
                          | (Inr found, w3) \<Rightarrow> (check_digest digest found, w3))))"

text \<open>
  \<open>ZoneOwnerFarmClient.ApplyVisitorAction\<close>: the route is resolved and stamped onto the request; a refusal
  for a wrong owner is tried once more on a route resolved anew.
\<close>

definition call_owner ::
  "friend_codec \<Rightarrow> config_snapshot \<Rightarrow> bool \<Rightarrow> conditions \<Rightarrow> visitor_action \<Rightarrow> saga_world \<Rightarrow>
   (rpc_code + visitor_action_response) \<times> saga_world" where
  "call_owner FC config enabled c q w =
     (let call = (\<lambda>route w. let (res, _, f) = ApplyVisitorAction FC config enabled (cn_roll c) (q\<lparr>va_route := Some route\<rparr>)
                             (cn_now c) (sw_farm w) in (res, w\<lparr>sw_farm := f\<rparr>))
      in case cn_route c of None \<Rightarrow> (Inl RpcUnavailable, w)
      | Some route \<Rightarrow>
          (case call route w of
             (Inl RpcFailedPrecondition, w1) \<Rightarrow>
               (case cn_second_route c of None \<Rightarrow> (Inl RpcFailedPrecondition, w1) | Some route2 \<Rightarrow> call route2 w1)
           | res \<Rightarrow> res))"

definition visitor_step_error :: friend_error where
  "visitor_step_error = FriendError ''visitor step did not answer''"

text \<open>A step on the visitor's actor.\<close>

definition on_visitor :: "(state \<Rightarrow> ('e + 'a) \<times> state) \<Rightarrow> saga_world \<Rightarrow> ('e + 'a) \<times> saga_world" where
  "on_visitor f w = (let (res, v) = f (sw_visitor w) in (res, w\<lparr>sw_visitor := v\<rparr>))"

section \<open>Stealing\<close>

record steal_request =
  sr_interaction_id :: bytes
  sr_visitor :: u64
  sr_visitor_epoch :: u64
  sr_owner :: u64
  sr_visit_id :: bytes
  sr_plot :: u32
  sr_crop :: u32
  sr_quantity :: u32
  sr_view_epoch :: bytes
  sr_view_seq :: u64

definition steal_validate :: "steal_request \<Rightarrow> bool" where
  "steal_validate q \<longleftrightarrow> length (sr_interaction_id q) = 16 \<and> sr_visitor q \<noteq> 0 \<and> sr_visitor_epoch q \<noteq> 0 \<and>
     sr_owner q \<noteq> 0 \<and> length (sr_visit_id q) = 16 \<and> sr_plot q \<noteq> 0 \<and> sr_crop q \<noteq> 0 \<and> sr_quantity q \<noteq> 0 \<and>
     length (sr_view_epoch q) = 16"

definition steal_action :: "steal_request \<Rightarrow> visitor_action" where
  "steal_action q = \<lparr>va_route = None, va_owner = sr_owner q, va_visitor = sr_visitor q, va_visit_id = sr_visit_id q,
     va_interaction_id = sr_interaction_id q, va_action = STEAL_FRIEND_CROP, va_plot = sr_plot q, va_pest = None,
     va_crop = sr_crop q, va_view_epoch = sr_view_epoch q\<rparr>"

definition steal_steps :: "friend_codec \<Rightarrow> config_snapshot \<Rightarrow> bool \<Rightarrow> steal_request \<Rightarrow> conditions \<Rightarrow> saga_steps" where
  "steal_steps FC config enabled q c = \<lparr>
     sg_reserve = with_fate (cn_call c) visitor_step_error (on_visitor (\<lambda>v.
       let (res, _, v') = ReserveSteal (sr_visitor_epoch q) (sr_interaction_id q) (sr_crop q) (sr_quantity q) (cn_now c) v
       in (res, v'))),
     sg_apply = with_fate (cn_call c) RpcUnavailable (call_owner FC config enabled c (steal_action q)),
     sg_commit = (\<lambda>payload. with_fate (cn_call c) visitor_step_error (on_visitor (\<lambda>v.
       let (res, v') = CommitSteal FC (sr_visitor_epoch q) (sr_interaction_id q) (sr_crop q) (sr_quantity q) payload (cn_now c) v
       in (map_sum id fst res, v')))),
     sg_release = (\<lambda>w. snd (with_fate (cn_call c) visitor_step_error
       (on_visitor (ReleaseSteal (sr_visitor_epoch q) (sr_interaction_id q) (cn_now c))) w))\<rparr>"

definition steal_record :: "steal_request \<Rightarrow> int \<Rightarrow> interaction" where
  "steal_record q now = \<lparr>in_interaction_id = sr_interaction_id q, in_visitor_player_id = sr_visitor q,
     in_owner_player_id = sr_owner q, in_visit_id = sr_visit_id q, in_action = STEAL_FRIEND_CROP, in_plot_id = sr_plot q,
     in_pest_id = 0, in_request_digest = RequestDigest STEAL_FRIEND_CROP (sr_visitor q) (sr_owner q) (sr_visit_id q)
       (sr_plot q) 0 (sr_crop q) (sr_view_epoch q) (sr_view_seq q),
     in_status = INIT, in_result_payload = [], in_result_digest = [], in_error_code = NoCode, in_retry_at_ms = 0,
     in_created_at_ms = now, in_updated_at_ms = now, in_crop_item_id = sr_crop q, in_quantity = sr_quantity q,
     in_farm_view_epoch = sr_view_epoch q, in_farm_view_seq = sr_view_seq q\<rparr>"

definition drive ::
  "friend_codec \<Rightarrow> (conditions \<Rightarrow> saga_steps) \<Rightarrow> attempt \<Rightarrow> (saga_error + interaction \<times> u32) \<times> saga_world \<Rightarrow>
   (saga_error + friend_response) \<times> saga_world" where
  "drive FC steps a loaded = (case loaded of
       (Inl e, w) \<Rightarrow> (Inl e, w)
     | (Inr (r, version), w) \<Rightarrow> advance FC steps (at_passes a) (at_now a) maxSagaSteps r version w)"

definition load_record :: "bytes \<Rightarrow> attempt \<Rightarrow> saga_world \<Rightarrow> (saga_error + interaction \<times> u32) \<times> saga_world" where
  "load_record i a w = (case with_fate (at_get a) ErrStoreUnavailable (Get i) w of
       (Inl e, w1) \<Rightarrow> (Inl (StoreFailed e), w1) | (Inr r, w1) \<Rightarrow> (Inr r, w1))"

definition ExecuteSteal ::
  "friend_codec \<Rightarrow> config_snapshot \<Rightarrow> bool \<Rightarrow> steal_request \<Rightarrow> attempt \<Rightarrow> saga_world \<Rightarrow>
   (saga_error + friend_response) \<times> saga_world" where
  "ExecuteSteal FC config enabled q a w =
     (if \<not> steal_validate q then (Inl IncompleteRequest, w)
      else drive FC (steal_steps FC config enabled q) a (createOrLoad (steal_record q (at_now a)) a w))"

definition ResumeSteal ::
  "friend_codec \<Rightarrow> config_snapshot \<Rightarrow> bool \<Rightarrow> steal_request \<Rightarrow> attempt \<Rightarrow> saga_world \<Rightarrow>
   (saga_error + friend_response) \<times> saga_world" where
  "ResumeSteal FC config enabled q a w =
     (if \<not> steal_validate q then (Inl IncompleteRequest, w)
      else drive FC (steal_steps FC config enabled q) a (load_record (sr_interaction_id q) a w))"

section \<open>The other actions\<close>

record action_request =
  ar_interaction_id :: bytes
  ar_visitor :: u64
  ar_visitor_epoch :: u64
  ar_owner :: u64
  ar_visit_id :: bytes
  ar_action :: friend_action
  ar_plot :: u32
  ar_pest :: u32

definition action_validate :: "action_request \<Rightarrow> bool" where
  "action_validate q \<longleftrightarrow> length (ar_interaction_id q) = 16 \<and> ar_visitor q \<noteq> 0 \<and> ar_visitor_epoch q \<noteq> 0 \<and>
     ar_owner q \<noteq> 0 \<and> length (ar_visit_id q) = 16 \<and> ar_plot q \<noteq> 0 \<and>
     (case ar_action q of APPLY_PEST_TO_FRIEND \<Rightarrow> ar_pest q \<noteq> 0
      | CATCH_PEST_FOR_FRIEND \<Rightarrow> ar_pest q = 0 | HELP_CLEAN_FRIEND_PLOT \<Rightarrow> ar_pest q = 0 | _ \<Rightarrow> False)"

definition action_action :: "action_request \<Rightarrow> visitor_action" where
  "action_action q = \<lparr>va_route = None, va_owner = ar_owner q, va_visitor = ar_visitor q, va_visit_id = ar_visit_id q,
     va_interaction_id = ar_interaction_id q, va_action = ar_action q, va_plot = ar_plot q,
     va_pest = (if ar_action q = APPLY_PEST_TO_FRIEND then Some (ar_pest q) else None), va_crop = 0, va_view_epoch = []\<rparr>"

definition action_steps :: "friend_codec \<Rightarrow> config_snapshot \<Rightarrow> bool \<Rightarrow> action_request \<Rightarrow> conditions \<Rightarrow> saga_steps" where
  "action_steps FC config enabled q c = \<lparr>
     sg_reserve = with_fate (cn_call c) visitor_step_error (on_visitor (\<lambda>v.
       let (res, _, v') = ReserveActionChance (ar_visitor_epoch q) (ar_interaction_id q) (ar_action q) (cn_now c) v
       in (res, v'))),
     sg_apply = with_fate (cn_call c) RpcUnavailable (call_owner FC config enabled c (action_action q)),
     sg_commit = (\<lambda>payload. with_fate (cn_call c) visitor_step_error (on_visitor (\<lambda>v.
       let (res, v') = CommitActionChance FC (ar_visitor_epoch q) (ar_interaction_id q) (ar_action q) payload (cn_now c) v
       in (map_sum id fst res, v')))),
     sg_release = (\<lambda>w. snd (with_fate (cn_call c) visitor_step_error
       (on_visitor (ReleaseActionChance (ar_visitor_epoch q) (ar_interaction_id q) (ar_action q) (cn_now c))) w))\<rparr>"

definition action_record :: "action_request \<Rightarrow> int \<Rightarrow> interaction" where
  "action_record q now = \<lparr>in_interaction_id = ar_interaction_id q, in_visitor_player_id = ar_visitor q,
     in_owner_player_id = ar_owner q, in_visit_id = ar_visit_id q, in_action = ar_action q, in_plot_id = ar_plot q,
     in_pest_id = ar_pest q, in_request_digest = RequestDigest (ar_action q) (ar_visitor q) (ar_owner q) (ar_visit_id q)
       (ar_plot q) (ar_pest q) 0 [] 0,
     in_status = INIT, in_result_payload = [], in_result_digest = [], in_error_code = NoCode, in_retry_at_ms = 0,
     in_created_at_ms = now, in_updated_at_ms = now, in_crop_item_id = 0, in_quantity = 0,
     in_farm_view_epoch = [], in_farm_view_seq = 0\<rparr>"

definition ExecuteAction ::
  "friend_codec \<Rightarrow> config_snapshot \<Rightarrow> bool \<Rightarrow> action_request \<Rightarrow> attempt \<Rightarrow> saga_world \<Rightarrow>
   (saga_error + friend_response) \<times> saga_world" where
  "ExecuteAction FC config enabled q a w =
     (if \<not> action_validate q then (Inl IncompleteRequest, w)
      else drive FC (action_steps FC config enabled q) a (createOrLoad (action_record q (at_now a)) a w))"

definition ResumeAction ::
  "friend_codec \<Rightarrow> config_snapshot \<Rightarrow> bool \<Rightarrow> action_request \<Rightarrow> attempt \<Rightarrow> saga_world \<Rightarrow>
   (saga_error + friend_response) \<times> saga_world" where
  "ResumeAction FC config enabled q a w =
     (if \<not> action_validate q then (Inl IncompleteRequest, w)
      else drive FC (action_steps FC config enabled q) a (load_record (ar_interaction_id q) a w))"

section \<open>The reconciler\<close>

text \<open>\<open>zoneStealResolver\<close>: the epoch comes from the visitor Zone's authorization table.\<close>

definition ResolveSteal :: "auth_table \<Rightarrow> interaction \<Rightarrow> steal_request option" where
  "ResolveSteal T r = (case auth_Entry (ShardForPlayer (in_visitor_player_id r)) T of
       None \<Rightarrow> None
     | Some entry \<Rightarrow>
         if in_crop_item_id r = 0 \<or> in_quantity r = 0 \<or> length (in_farm_view_epoch r) \<noteq> 16 then None
         else Some \<lparr>sr_interaction_id = in_interaction_id r, sr_visitor = in_visitor_player_id r,
           sr_visitor_epoch = re_owner_epoch entry, sr_owner = in_owner_player_id r, sr_visit_id = in_visit_id r,
           sr_plot = in_plot_id r, sr_crop = in_crop_item_id r, sr_quantity = in_quantity r,
           sr_view_epoch = in_farm_view_epoch r, sr_view_seq = in_farm_view_seq r\<rparr>)"

definition ResolveAction :: "auth_table \<Rightarrow> interaction \<Rightarrow> action_request option" where
  "ResolveAction T r = map_option (\<lambda>entry. \<lparr>ar_interaction_id = in_interaction_id r, ar_visitor = in_visitor_player_id r,
     ar_visitor_epoch = re_owner_epoch entry, ar_owner = in_owner_player_id r, ar_visit_id = in_visit_id r,
     ar_action = in_action r, ar_plot = in_plot_id r, ar_pest = in_pest_id r\<rparr>)
     (auth_Entry (ShardForPlayer (in_visitor_player_id r)) T)"

definition isTerminalInteractionStatus :: "saga_status \<Rightarrow> bool" where
  "isTerminalInteractionStatus s \<longleftrightarrow> s = COMPLETED \<or> s = ABORTED"

datatype reconcile_error = Unresolved | ReconcileFailed saga_error

definition expected_outcome :: "saga_error + friend_response \<Rightarrow> reconcile_error option" where
  "expected_outcome res = (case res of
       Inr _ \<Rightarrow> None | Inl OutcomeUnknown \<Rightarrow> None | Inl (Aborted _) \<Rightarrow> None | Inl e \<Rightarrow> Some (ReconcileFailed e))"

definition reconcileRecord ::
  "friend_codec \<Rightarrow> config_snapshot \<Rightarrow> bool \<Rightarrow> auth_table \<Rightarrow> interaction \<Rightarrow> attempt \<Rightarrow> saga_world \<Rightarrow> reconcile_error option \<times> saga_world" where
  "reconcileRecord FC config enabled T r a w =
     (if isTerminalInteractionStatus (in_status r) then (None, w)
      else if in_action r = STEAL_FRIEND_CROP then
        (case ResolveSteal T r of None \<Rightarrow> (Some Unresolved, w)
         | Some q \<Rightarrow> apfst expected_outcome (ResumeSteal FC config enabled q a w))
      else
        (case ResolveAction T r of None \<Rightarrow> (Some Unresolved, w)
         | Some q \<Rightarrow> apfst expected_outcome (ResumeAction FC config enabled q a w)))"

definition ReconcileOne ::
  "friend_codec \<Rightarrow> config_snapshot \<Rightarrow> bool \<Rightarrow> auth_table \<Rightarrow> bytes \<Rightarrow> fate \<Rightarrow> attempt \<Rightarrow> saga_world \<Rightarrow> reconcile_error option \<times> saga_world" where
  "ReconcileOne FC config enabled T i f a w = (case with_fate f ErrStoreUnavailable (Get i) w of
       (Inl ErrNotFound, w1) \<Rightarrow> (None, w1)
     | (Inl e, w1) \<Rightarrow> (Some (ReconcileFailed (StoreFailed e)), w1)
     | (Inr (r, _), w1) \<Rightarrow> reconcileRecord FC config enabled T r a w1)"

text \<open>
  \<open>rows\<close> is what the scan of the table returned, in its order; each record has an attempt of its own. The
  world holds one visitor and one owner: the rows are those of interactions between these two.
\<close>

fun ReconcileDue ::
  "friend_codec \<Rightarrow> config_snapshot \<Rightarrow> bool \<Rightarrow> auth_table \<Rightarrow> int \<Rightarrow> (interaction \<times> attempt) list \<Rightarrow> saga_world \<Rightarrow>
   reconcile_error option \<times> saga_world" where
  "ReconcileDue FC config enabled T now [] w = (None, w)"
| "ReconcileDue FC config enabled T now ((r, a) # rows) w =
     (if isTerminalInteractionStatus (in_status r) \<or> now < in_retry_at_ms r then ReconcileDue FC config enabled T now rows w
      else case reconcileRecord FC config enabled T r a w of
        (Some e, w1) \<Rightarrow> (Some e, w1)
      | (None, w1) \<Rightarrow> ReconcileDue FC config enabled T now rows w1)"

section \<open>The loop ends\<close>

fun passes_left :: "saga_status \<Rightarrow> nat" where
  "passes_left INIT = 5"
| "passes_left VISITOR_RESERVED = 4"
| "passes_left OWNER_APPLIED = 3"
| "passes_left VISITOR_COMMITTED = 2"
| "passes_left RELEASING = 2"
| "passes_left _ = 1"

lemma switch_decreases:
  "saga_switch FC steps r w = (Proceed r1, w1) \<Longrightarrow> passes_left (in_status r1) < passes_left (in_status r)"
  by (auto simp: saga_switch_def Let_def split: saga_status.splits prod.splits sum.splits option.splits)

lemma switch_returns: "saga_switch FC steps r w = (Return res, w1) \<Longrightarrow> res \<noteq> Inl NotConverged"
  by (auto simp: saga_switch_def Let_def split: saga_status.splits prod.splits sum.splits option.splits)

lemma deferRetry_result: "fst (deferRetry f r version now w) \<noteq> Inl NotConverged"
  by (simp add: deferRetry_def split: prod.splits sum.splits)

lemma advance_converges:
  "passes_left (in_status r) \<le> n \<Longrightarrow> fst (advance FC steps cs now n r version w) \<noteq> Inl NotConverged"
proof (induction n arbitrary: r version w)
  case 0
  then show ?case by (cases "in_status r") simp_all
next
  case (Suc n)
  obtain m w1 where s: "saga_switch FC (steps (cs n)) r w = (m, w1)" by fastforce
  show ?case
  proof (cases m)
    case (Proceed r1)
    have "passes_left (in_status (r1\<lparr>in_retry_at_ms := 0, in_updated_at_ms := now\<rparr>)) \<le> n"
      using switch_decreases [of FC "steps (cs n)" r w r1 w1] s Proceed Suc.prems by simp
    then show ?thesis using s Proceed Suc.IH by (auto simp: Let_def split: prod.splits sum.splits)
  next
    case Postpone
    then show ?thesis using s deferRetry_result by simp
  next
    case (Return res)
    then show ?thesis using s switch_returns by simp
  qed
qed

lemma drive_converges: "fst loaded \<noteq> Inl NotConverged \<Longrightarrow> fst (drive FC steps a loaded) \<noteq> Inl NotConverged"
proof (cases loaded)
  case (Pair res w)
  assume "fst loaded \<noteq> Inl NotConverged"
  moreover have "passes_left (in_status r) \<le> maxSagaSteps" for r :: interaction
    by (cases "in_status r") (simp_all add: maxSagaSteps_def)
  ultimately show ?thesis using Pair advance_converges by (cases res) (auto simp: drive_def)
qed

lemma load_converges: "fst (load_record i a w) \<noteq> Inl NotConverged" "fst (createOrLoad r a w) \<noteq> Inl NotConverged"
  by (auto simp: load_record_def createOrLoad_def check_digest_def Let_def split: prod.splits sum.splits)

section \<open>The contract of the steps\<close>

text \<open>
  \<open>owner_done\<close> and \<open>visitor_done\<close> say that the owner's and the visitor's part of the interaction are done, \<open>holding\<close>
  that the visitor can still commit or has committed, \<open>untouched\<close> that nothing was reserved yet; \<open>J\<close> is what
  the two players agree on. None of them looks at the store.
\<close>

locale saga_contract =
  fixes FC :: friend_codec and steps :: "conditions \<Rightarrow> saga_steps" and J owner_done visitor_done holding untouched :: "saga_world \<Rightarrow> bool"
  assumes no_store: "J (w\<lparr>sw_store := x\<rparr>) = J w" "owner_done (w\<lparr>sw_store := x\<rparr>) = owner_done w"
      "visitor_done (w\<lparr>sw_store := x\<rparr>) = visitor_done w" "holding (w\<lparr>sw_store := x\<rparr>) = holding w" "untouched (w\<lparr>sw_store := x\<rparr>) = untouched w"
    and reserve: "J w \<Longrightarrow> sg_reserve (steps c) w = (res, w') \<Longrightarrow>
      sw_store w' = sw_store w \<and> J w' \<and> (owner_done w' \<longleftrightarrow> owner_done w) \<and> (visitor_done w' \<longleftrightarrow> visitor_done w) \<and> (holding w \<longrightarrow> holding w') \<and>
      (untouched w \<longrightarrow> untouched w' \<or> holding w') \<and> (untouched w \<and> res = Inr b \<longrightarrow> holding w')"
    and apply_step: "J w \<Longrightarrow> sg_apply (steps c) w = (res', w') \<Longrightarrow>
      sw_store w' = sw_store w \<and> J w' \<and> (owner_done w \<longrightarrow> owner_done w') \<and> (visitor_done w' \<longleftrightarrow> visitor_done w) \<and> (holding w' \<longleftrightarrow> holding w) \<and>
      (untouched w' \<longleftrightarrow> untouched w) \<and> (res' = Inr x' \<and> vx_error x' = None \<longrightarrow> owner_done w')"
    and commit: "J w \<Longrightarrow> owner_done w \<Longrightarrow> sg_commit (steps c) p w = (res'', w') \<Longrightarrow>
      sw_store w' = sw_store w \<and> J w' \<and> owner_done w' \<and> (visitor_done w \<longrightarrow> visitor_done w') \<and> (holding w \<longrightarrow> holding w') \<and>
      (res'' = Inr x'' \<longrightarrow> visitor_done w')"
    and release: "J w \<Longrightarrow> sw_store (sg_release (steps c) w) = sw_store w \<and> J (sg_release (steps c) w) \<and>
      (owner_done (sg_release (steps c) w) \<longleftrightarrow> owner_done w) \<and> (visitor_done (sg_release (steps c) w) \<longleftrightarrow> visitor_done w)"

text \<open>What the status of a record promises about the players, and about its own payload.\<close>

definition status_promise :: "friend_codec \<Rightarrow> bytes \<Rightarrow> (saga_world \<Rightarrow> bool) \<Rightarrow> (saga_world \<Rightarrow> bool) \<Rightarrow> (saga_world \<Rightarrow> bool) \<Rightarrow>
    (saga_world \<Rightarrow> bool) \<Rightarrow> interaction \<Rightarrow> saga_world \<Rightarrow> bool" where
  "status_promise FC i owner_done visitor_done holding untouched r w \<longleftrightarrow> in_interaction_id r = i \<and>
     (friend_codec_ok FC \<and> in_status r \<in> {VISITOR_COMMITTED, COMPLETED} \<longrightarrow> unmarshal_friend FC (in_result_payload r) \<noteq> None) \<and>
     (case in_status r of
        INIT \<Rightarrow> untouched w \<or> holding w | VISITOR_RESERVED \<Rightarrow> holding w | OWNER_APPLIED \<Rightarrow> owner_done w \<and> holding w
      | VISITOR_COMMITTED \<Rightarrow> owner_done w \<and> visitor_done w | COMPLETED \<Rightarrow> owner_done w \<and> visitor_done w | _ \<Rightarrow> True)"

definition saga_inv :: "friend_codec \<Rightarrow> bytes \<Rightarrow> (saga_world \<Rightarrow> bool) \<Rightarrow> (saga_world \<Rightarrow> bool) \<Rightarrow> (saga_world \<Rightarrow> bool) \<Rightarrow>
    (saga_world \<Rightarrow> bool) \<Rightarrow> (saga_world \<Rightarrow> bool) \<Rightarrow> saga_world \<Rightarrow> bool" where
  "saga_inv FC i J owner_done visitor_done holding untouched w \<longleftrightarrow> J w \<and> (case fmlookup (sw_store w) i of
     None \<Rightarrow> untouched w | Some (r, v) \<Rightarrow> status_promise FC i owner_done visitor_done holding untouched r w)"

context saga_contract
begin

abbreviation "promise i \<equiv> status_promise FC i owner_done visitor_done holding untouched"
abbreviation "saga_ok i \<equiv> saga_inv FC i J owner_done visitor_done holding untouched"

lemma promise_store [simp]: "promise i r (w\<lparr>sw_store := x\<rparr>) = promise i r w"
  by (simp add: status_promise_def no_store split: saga_status.splits)

lemma Update_ok:
  assumes "saga_ok i w" "promise i r w" "with_fate f ErrStoreUnavailable (Update r v) w = (res, w')"
  shows "saga_ok i w'" "promise i r' w' = promise i r' w"
proof -
  have "w' = w \<or> w' = w\<lparr>sw_store := fmupd i (r, v + 1) (sw_store w)\<rparr>"
    using assms(2,3) by (auto simp: with_fate_def Update_def status_promise_def split: fate.splits option.splits if_splits)
  then show "saga_ok i w'" "promise i r' w' = promise i r' w"
    using assms(1,2) by (auto simp: saga_inv_def no_store)
qed

lemma switch_ok:
  assumes "J w" "promise i r w" "saga_switch FC (steps c) r w = (m, w')"
  shows "J w' \<and> sw_store w' = sw_store w \<and> promise i r w' \<and>
    (case m of Proceed r1 \<Rightarrow> promise i r1 w' | Postpone \<Rightarrow> True | Return (Inr x) \<Rightarrow> visitor_done w' \<and> owner_done w' | Return (Inl e) \<Rightarrow> True)"
proof -
  note p = assms(2) [unfolded status_promise_def]
  consider "in_status r = INIT" | "in_status r = VISITOR_RESERVED" | "in_status r = OWNER_APPLIED" | "in_status r = RELEASING"
    | "in_status r \<in> {VISITOR_COMMITTED, COMPLETED, ABORTED, SAGA_UNSPECIFIED}" by (cases "in_status r") auto
  then show ?thesis
  proof cases
    case 1
    obtain res w1 where s: "sg_reserve (steps c) w = (res, w1)" by fastforce
    note law = reserve [OF assms(1) s]
    show ?thesis
    proof (cases res)
      case (Inl e)
      then show ?thesis using law p assms(3) 1 s
        by (cases "visitorDomainErrorCode e") (auto simp: saga_switch_def status_promise_def)
    next
      case (Inr b)
      then show ?thesis using law [of b] p assms(3) 1 s by (auto simp: saga_switch_def status_promise_def)
    qed
  next
    case 2
    obtain res w1 where s: "sg_apply (steps c) w = (res, w1)" by fastforce
    note law = apply_step [OF assms(1) s]
    show ?thesis
    proof (cases res)
      case (Inl e)
      then show ?thesis using law p assms(3) 2 s by (auto simp: saga_switch_def status_promise_def)
    next
      case (Inr x)
      then show ?thesis using law [of x] p assms(3) 2 s
        by (cases "vx_error x") (auto simp: saga_switch_def status_promise_def)
    qed
  next
    case 3
    obtain res w1 where s: "sg_commit (steps c) (in_result_payload r) w = (res, w1)" by fastforce
    have "owner_done w" using p 3 by simp
    note law = commit [OF assms(1) this s]
    show ?thesis
    proof (cases res)
      case (Inl e)
      then show ?thesis using law p assms(3) 3 s by (auto simp: saga_switch_def status_promise_def)
    next
      case (Inr x)
      then show ?thesis using law [of x] p assms(3) 3 s
        by (auto simp: saga_switch_def status_promise_def Let_def friend_codec_ok_def)
    qed
  next
    case 4
    then show ?thesis using release [OF assms(1), of c] p assms(3) by (auto simp: saga_switch_def status_promise_def)
  next
    case 5
    then show ?thesis using assms(1,3) p by (auto simp: saga_switch_def status_promise_def split: option.splits)
  qed
qed

lemma advance_ok:
  assumes "J w" "promise i r w" "fmlookup (sw_store w) i = Some (r, v0)" "advance FC steps cs now n r v w = (res, w')"
  shows "saga_ok i w' \<and> (\<forall>x. res = Inr x \<longrightarrow> visitor_done w' \<and> owner_done w')"
  using assms
proof (induction n arbitrary: r v w v0)
  case 0
  then show ?case by (auto simp: saga_inv_def)
next
  case (Suc n)
  obtain m w1 where s: "saga_switch FC (steps (cs n)) r w = (m, w1)" by fastforce
  note k = switch_ok [OF Suc.prems(1,2) s]
  have st: "fmlookup (sw_store w1) i = Some (r, v0)" using k Suc.prems(3) by simp
  then have ok: "saga_ok i w1" using k by (simp add: saga_inv_def)
  show ?case
  proof (cases m)
    case (Proceed r1)
    define r2 where "r2 = r1\<lparr>in_retry_at_ms := 0, in_updated_at_ms := now\<rparr>"
    have p2: "promise i r2 w1" using k Proceed by (simp add: r2_def status_promise_def)
    obtain u w2 where up: "with_fate (cn_update (cs n)) ErrStoreUnavailable (Update r2 v) w1 = (u, w2)" by fastforce
    note ok2 = Update_ok(1) [OF ok p2 up]
    show ?thesis
    proof (cases u)
      case (Inl e)
      then show ?thesis using Suc.prems(4) s Proceed up ok2 by (auto simp: r2_def [symmetric] Let_def)
    next
      case (Inr v2)
      have w2: "w2 = w1\<lparr>sw_store := fmupd i (r2, v2) (sw_store w1)\<rparr>"
        using up Inr p2 by (auto simp: with_fate_def Update_def status_promise_def split: fate.splits option.splits if_splits)
      have "J w2" "promise i r2 w2" "fmlookup (sw_store w2) i = Some (r2, v2)" using k p2 by (simp_all add: w2 no_store)
      moreover have "advance FC steps cs now n r2 v2 w2 = (res, w')"
        using Suc.prems(4) s Proceed up Inr by (simp add: r2_def [symmetric] Let_def)
      ultimately show ?thesis by (rule Suc.IH)
    qed
  next
    case Postpone
    define r2 where "r2 = r\<lparr>in_retry_at_ms := now + defaultRetryBackoff, in_error_code := TransportError, in_updated_at_ms := now\<rparr>"
    have p2: "promise i r2 w1" using k by (simp add: r2_def status_promise_def)
    obtain u w2 where up: "with_fate (cn_update (cs n)) ErrStoreUnavailable (Update r2 v) w1 = (u, w2)" by fastforce
    show ?thesis
      using Update_ok(1) [OF ok p2 up] Suc.prems(4) s Postpone up
      by (auto simp: deferRetry_def r2_def [symmetric] split: sum.splits)
  next
    case (Return x)
    then show ?thesis using Suc.prems(4) s ok k by (auto split: sum.splits)
  qed
qed

lemma drive_ok:
  assumes "saga_ok i w1" "drive FC steps a (loaded, w1) = (res, w')"
    and l: "\<And>r v. loaded = Inr (r, v) \<Longrightarrow> fmlookup (sw_store w1) i = Some (r, v)"
  shows "saga_ok i w' \<and> (\<forall>x. res = Inr x \<longrightarrow> visitor_done w' \<and> owner_done w')"
proof (cases loaded)
  case (Inr rv)
  obtain r v where rv: "rv = (r, v)" by fastforce
  have st: "fmlookup (sw_store w1) i = Some (r, v)" using l Inr rv by simp
  have "J w1" "promise i r w1" using assms(1) st by (simp_all add: saga_inv_def)
  then show ?thesis using advance_ok [OF _ _ st] assms(2) Inr rv by (simp add: drive_def)
qed (use assms in \<open>auto simp: drive_def\<close>)

lemma load_ok:
  "load_record i a w = (loaded, w1) \<Longrightarrow> w1 = w \<and> (\<forall>r v. loaded = Inr (r, v) \<longrightarrow> fmlookup (sw_store w1) i = Some (r, v))"
  by (auto simp: load_record_def with_fate_def Get_def split: fate.splits option.splits sum.splits prod.splits)

lemma create_ok:
  assumes "saga_ok i w" "in_interaction_id r = i" "in_status r = INIT" "createOrLoad r a w = (loaded, w1)"
  shows "saga_ok i w1 \<and> (\<forall>r v. loaded = Inr (r, v) \<longrightarrow> fmlookup (sw_store w1) i = Some (r, v))"
proof (cases "fmlookup (sw_store w) i")
  case None
  let ?w = "w\<lparr>sw_store := fmupd i (r, 1) (sw_store w)\<rparr>"
  have ok: "saga_ok i ?w" using assms(1-3) None by (simp add: saga_inv_def no_store status_promise_def)
  have "w1 = w \<and> (\<exists>e. loaded = Inl e) \<or> w1 = ?w \<and> (loaded = Inr (r, 1) \<or> (\<exists>e. loaded = Inl e))"
    using assms(2,4) None
    by (auto simp: createOrLoad_def Let_def with_fate_def Get_def Insert_def split: fate.splits if_splits)
  then show ?thesis using ok assms(1) by auto
next
  case (Some rv)
  then have "w1 = w \<and> (\<forall>r v. loaded = Inr (r, v) \<longrightarrow> rv = (r, v))"
    using assms(2,4) by (auto simp: createOrLoad_def Let_def with_fate_def Get_def Insert_def check_digest_def split: fate.splits if_splits)
  then show ?thesis using Some assms(1) by auto
qed

end

section \<open>Steps that answer\<close>

text \<open>Under \<open>friendly\<close> circumstances every call is delivered and reaches the right actor.\<close>

locale saga_liveness = saga_contract +
  fixes friendly :: "conditions \<Rightarrow> saga_world \<Rightarrow> bool"
  assumes friendly_update: "friendly c w \<Longrightarrow> cn_update c = Delivered"
    and friendly_kept: "friendly c (w\<lparr>sw_store := x\<rparr>) = friendly c w"
      "J w \<Longrightarrow> friendly c w \<Longrightarrow> friendly c (snd (sg_reserve (steps c') w))"
      "J w \<Longrightarrow> friendly c w \<Longrightarrow> friendly c (snd (sg_apply (steps c') w))"
      "J w \<Longrightarrow> friendly c w \<Longrightarrow> friendly c (snd (sg_commit (steps c') p w))"
      "J w \<Longrightarrow> friendly c w \<Longrightarrow> friendly c (sg_release (steps c') w)"
    and reserve_answers: "J w \<Longrightarrow> friendly c w \<Longrightarrow> sg_reserve (steps c) w = (Inl e, w') \<Longrightarrow> visitorDomainErrorCode e \<noteq> None"
    and apply_answers: "J w \<Longrightarrow> friendly c w \<Longrightarrow> sg_apply (steps c) w \<noteq> (Inl e', w')"
    and commit_answers: "J w \<Longrightarrow> owner_done w \<Longrightarrow> holding w \<Longrightarrow> friendly c w \<Longrightarrow> friend_codec_ok FC \<Longrightarrow>
      sg_commit (steps c) p w \<noteq> (Inl e, w')"
begin

lemma switch_friendly: "J w \<Longrightarrow> friendly c w \<Longrightarrow> saga_switch FC (steps c') r w = (m, w') \<Longrightarrow> friendly c w'"
  using friendly_kept(2-5) [of w c c']
  by (auto simp: saga_switch_def Let_def split: saga_status.splits prod.splits sum.splits option.splits)
    (metis snd_conv)+

lemma switch_answers:
  assumes "J w" "promise i r w" "friendly c w" "friend_codec_ok FC" "in_status r \<noteq> SAGA_UNSPECIFIED"
    "saga_switch FC (steps c) r w = (m, w')"
  shows "(\<exists>r1. m = Proceed r1 \<and> in_status r1 \<noteq> SAGA_UNSPECIFIED) \<or>
    (isTerminalInteractionStatus (in_status r) \<and> w' = w \<and> ((\<exists>x. m = Return (Inr x)) \<or> (\<exists>e. m = Return (Inl (Aborted e)))))"
proof (cases "in_status r")
  case INIT
  obtain res w1 where s: "sg_reserve (steps c) w = (res, w1)" by fastforce
  show ?thesis using INIT assms(6) s reserve_answers [OF assms(1,3)]
    by (cases res) (auto simp: saga_switch_def split: option.splits)
next
  case VISITOR_RESERVED
  obtain res w1 where s: "sg_apply (steps c) w = (res, w1)" by fastforce
  show ?thesis using VISITOR_RESERVED assms(6) s apply_answers [OF assms(1,3)]
    by (cases res) (auto simp: saga_switch_def split: option.splits)
next
  case OWNER_APPLIED
  obtain res w1 where s: "sg_commit (steps c) (in_result_payload r) w = (res, w1)" by fastforce
  have "owner_done w" "holding w" using assms(2) OWNER_APPLIED by (simp_all add: status_promise_def)
  then show ?thesis using OWNER_APPLIED assms(6) s commit_answers [OF assms(1) _ _ assms(3,4)]
    by (cases res) (auto simp: saga_switch_def Let_def)
qed (use assms in \<open>auto simp: saga_switch_def isTerminalInteractionStatus_def status_promise_def split: option.splits\<close>)

lemma advance_finishes:
  assumes "J w" "promise i r w" "fmlookup (sw_store w) i = Some (r, v)" "\<And>k. friendly (cs k) w" "friend_codec_ok FC"
    "in_status r \<noteq> SAGA_UNSPECIFIED" "passes_left (in_status r) \<le> n" "advance FC steps cs now n r v w = (res, w')"
  shows "((\<exists>x. res = Inr x) \<or> (\<exists>e. res = Inl (Aborted e))) \<and>
    (\<exists>r' v'. fmlookup (sw_store w') i = Some (r', v') \<and> isTerminalInteractionStatus (in_status r'))"
  using assms
proof (induction n arbitrary: r v w)
  case 0
  then show ?case by (cases "in_status r") simp_all
next
  case (Suc n)
  obtain m w1 where s: "saga_switch FC (steps (cs n)) r w = (m, w1)" by fastforce
  note k = switch_ok [OF Suc.prems(1,2) s]
  from switch_answers [OF Suc.prems(1,2) Suc.prems(4) [of n] Suc.prems(5,6) s] show ?case
  proof
    assume "\<exists>r1. m = Proceed r1 \<and> in_status r1 \<noteq> SAGA_UNSPECIFIED"
    then obtain r1 where m: "m = Proceed r1" "in_status r1 \<noteq> SAGA_UNSPECIFIED" by blast
    define r2 where "r2 = r1\<lparr>in_retry_at_ms := 0, in_updated_at_ms := now\<rparr>"
    have p2: "promise i r2 w1" using k m by (simp add: r2_def status_promise_def)
    let ?w2 = "w1\<lparr>sw_store := fmupd i (r2, v + 1) (sw_store w1)\<rparr>"
    have "with_fate (cn_update (cs n)) ErrStoreUnavailable (Update r2 v) w1 = (Inr (v + 1), ?w2)"
      using friendly_update [OF Suc.prems(4) [of n]] p2 k Suc.prems(3) by (simp add: with_fate_def Update_def status_promise_def)
    then have adv: "advance FC steps cs now n r2 (v + 1) ?w2 = (res, w')"
      using Suc.prems(8) s m by (simp add: r2_def [symmetric] Let_def)
    have "friendly (cs j) ?w2" for j using switch_friendly [OF Suc.prems(1) Suc.prems(4) s, of j] by (simp add: friendly_kept(1))
    moreover have "passes_left (in_status r2) \<le> n"
      using switch_decreases [of FC "steps (cs n)" r w r1 w1] s m Suc.prems(7) by (simp add: r2_def)
    ultimately show ?thesis
      using k p2 m by (intro Suc.IH [OF _ _ _ _ Suc.prems(5) _ _ adv]) (simp_all add: no_store r2_def)
  next
    assume t: "isTerminalInteractionStatus (in_status r) \<and> w1 = w \<and> ((\<exists>x. m = Return (Inr x)) \<or> (\<exists>e. m = Return (Inl (Aborted e))))"
    then show ?thesis using Suc.prems(3,8) s by auto
  qed
qed

end

section \<open>Properties\<close>

text \<open>
  C14: every attempt ends within the passes it is allowed. Executing or resuming either saga, from any record,
  with any calls lost, never runs into the bound of 32 passes.
\<close>

theorem saga_converges:
  "fst (ExecuteSteal FC config enabled q a w) \<noteq> Inl NotConverged \<and> fst (ResumeSteal FC config enabled q a w) \<noteq> Inl NotConverged \<and>
   fst (ExecuteAction FC config enabled q' a w) \<noteq> Inl NotConverged \<and> fst (ResumeAction FC config enabled q' a w) \<noteq> Inl NotConverged"
  by (simp_all add: ExecuteSteal_def ResumeSteal_def ExecuteAction_def ResumeAction_def drive_converges load_converges)

end
