(* ===== verification/Saga_Agreement.thy ===== *)
theory Saga_Agreement
  imports Steal_Saga
begin

text \<open>
  The saga of a theft: its steps keep the contract of theory \<open>Steal_Saga\<close>, whatever calls are lost, so visitor
  and owner agree at every moment; with calls that get through it ends; and the traces on which a crop is lost.
\<close>

section \<open>The steps of a theft keep the contract\<close>

definition owner_state :: "saga_world \<Rightarrow> state" where
  "owner_state w = ac_state (of_actor (sw_farm w))"

definition owner_receipt :: "bytes \<Rightarrow> saga_world \<Rightarrow> bool" where
  "owner_receipt i w \<longleftrightarrow> replay_owner i (owner_state w) \<noteq> None"

definition visitor_receipt :: "bytes \<Rightarrow> saga_world \<Rightarrow> bool" where
  "visitor_receipt i w \<longleftrightarrow> findFriendReceipt (st_friend_receipts (sw_visitor w)) i RECEIPT_VISITOR \<noteq> None"

definition reservation :: "bytes \<Rightarrow> saga_world \<Rightarrow> friend_reservation option" where
  "reservation i w = find (\<lambda>r. fr_interaction_id r = i) (st_friend_reservations (sw_visitor w))"

definition unreserved :: "bytes \<Rightarrow> saga_world \<Rightarrow> bool" where
  "unreserved i w \<longleftrightarrow> reservation i w = None"

definition steal_hold :: "steal_request \<Rightarrow> saga_world \<Rightarrow> bool" where
  "steal_hold q w \<longleftrightarrow> visitor_receipt (sr_interaction_id q) w \<or>
     (\<exists>r. reservation (sr_interaction_id q) w = Some r \<and> fr_status r = RESERVATION_RESERVED \<and> fr_action r = STEAL_FRIEND_CROP \<and>
        get_item r = sr_crop q \<and> get_quantity r = sr_quantity q)"

definition stock :: "steal_request \<Rightarrow> saga_world \<Rightarrow> u32" where
  "stock q w = map_get (st_inventory (sw_visitor w)) (sr_crop q)"

definition career_room :: "steal_request \<Rightarrow> saga_world \<Rightarrow> bool" where
  "career_room q w \<longleftrightarrow> unat (car_total_stolen (careerOf (sw_visitor w))) + unat (sr_quantity q) < 2 ^ 64"

definition receipt_decodes :: "friend_codec \<Rightarrow> bytes \<Rightarrow> saga_world \<Rightarrow> bool" where
  "receipt_decodes FC i w \<longleftrightarrow> (\<forall>e. findFriendReceipt (st_friend_receipts (sw_visitor w)) i RECEIPT_VISITOR = Some e \<longrightarrow>
     friend_codec_ok FC \<longrightarrow> unmarshal_friend FC (rc_result_payload e) \<noteq> None)"

text \<open>
  What visitor and owner agree on, given the plot \<open>p0\<close> and the visitor's stock \<open>n0\<close> before the interaction.
\<close>

definition steal_ledger :: "friend_codec \<Rightarrow> steal_request \<Rightarrow> plot \<Rightarrow> u32 \<Rightarrow> saga_world \<Rightarrow> bool" where
  "steal_ledger FC q p0 n0 w \<longleftrightarrow>
     (visitor_receipt (sr_interaction_id q) w \<longrightarrow> owner_receipt (sr_interaction_id q) w) \<and>
     stock q w = (if visitor_receipt (sr_interaction_id q) w then n0 + sr_quantity q else n0) \<and>
     fmlookup (st_plots (owner_state w)) (sr_plot q) =
       Some (if owner_receipt (sr_interaction_id q) w then stolen_plot (sr_visitor q) p0 else p0) \<and>
     (\<not> visitor_receipt (sr_interaction_id q) w \<longrightarrow> career_room q w) \<and> receipt_decodes FC (sr_interaction_id q) w"

lemmas world_defs = owner_receipt_def visitor_receipt_def reservation_def unreserved_def steal_hold_def stock_def
  career_room_def receipt_decodes_def owner_state_def

lemma apply_steal_cases:
  assumes "ApplyStealOnOwner FC config roll owner epoch visitor i plotID item fv now a = (res, a')"
  obtains (same) "replay_owner i (ac_state a') = replay_owner i (ac_state a)" "st_plots (ac_state a') = st_plots (ac_state a)"
      "\<And>x. res = Inr x \<Longrightarrow> replay_owner i (ac_state a) \<noteq> None" "st_owner_epoch (ac_state a') = st_owner_epoch (ac_state a)"
  | (stolen) p where "replay_owner i (ac_state a) = None" "replay_owner i (ac_state a') \<noteq> None"
      "fmlookup (st_plots (ac_state a)) plotID = Some p" "st_plots (ac_state a') = fmupd plotID (stolen_plot visitor p) (st_plots (ac_state a))"
      "st_owner_epoch (ac_state a') = st_owner_epoch (ac_state a)"
proof -
  obtain r s' where t: "apply_steal_turn FC config roll visitor i plotID item (ac_farm_view_epoch a) fv now (ac_state a) = (r, s')"
    by fastforce
  consider (early) "a' = a" "isl res" | (turn) "ac_state a' = s'" "isl res = isl r"
    using assms t by (auto simp: ApplyStealOnOwner_def publish_result_def publishFarmViewChanges_def Let_def
        split: if_splits option.splits sum.splits prod.splits)
  then show thesis
  proof cases
    case early
    then show thesis by (intro same) auto
  next
    case turn
    show thesis
    proof (cases "replay_owner i (ac_state a)")
      case (Some x)
      then have "s' = ac_state a" using t by (simp add: apply_steal_turn_def)
      then show thesis using Some turn by (intro same) auto
    next
      case n: None
      show thesis
      proof (cases r)
        case (Inl e)
        then have "st_plots s' = st_plots (ac_state a) \<and> st_friend_receipts s' = st_friend_receipts (ac_state a) \<and>
            st_owner_epoch s' = st_owner_epoch (ac_state a)"
          using t n by (auto simp: apply_steal_turn_def Let_def case_prod_beta split: if_splits option.splits)
        then show thesis using turn Inl replay_owner_receipts [of s' "ac_state a" i] by (intro same) auto
      next
        case (Inr x)
        obtain pl d b where x: "x = (pl, d, b)" by (metis prod.exhaust)
        have "replay_owner i s' \<noteq> None" using steal_action.once [OF t [unfolded Inr x], of now]
          by (cases "replay_owner i s'") (auto simp: apply_steal_turn_def Let_def case_prod_beta split: option.splits if_splits)
        moreover obtain p where "fmlookup (st_plots (ac_state a)) plotID = Some p"
          "st_plots s' = fmupd plotID (stolen_plot visitor p) (st_plots (ac_state a))" "st_owner_epoch s' = st_owner_epoch (ac_state a)"
          by (rule steal_applied [OF t [unfolded Inr x] n]) simp
        ultimately show thesis using n turn by (intro stolen) auto
      qed
    qed
  qed
qed

lemma ApplyVisitorAction_steal:
  assumes "ApplyVisitorAction FC config enabled roll (q\<lparr>va_route := route\<rparr>) now f = (res, tips, f')" "va_action q = STEAL_FRIEND_CROP"
  obtains (early) "f' = f" "\<And>x. res = Inr x \<Longrightarrow> vx_error x \<noteq> None"
  | (call) epoch r a' where "ApplyStealOnOwner FC config roll (va_owner q) epoch (va_visitor q) (va_interaction_id q) (va_plot q)
        (va_crop q) (va_view_epoch q) now (of_actor f) = (r, a')" "f' = f\<lparr>of_actor := a'\<rparr>"
      "\<And>x. res = Inr x \<Longrightarrow> vx_error x = None \<Longrightarrow> \<not> isl r"
proof (cases "f' = f \<and> (\<forall>x. res = Inr x \<longrightarrow> vx_error x \<noteq> None)")
  case False
  obtain c where "route = Some c" using assms False
    by (auto simp: ApplyVisitorAction_def refused_def split: if_splits option.splits)
  moreover obtain r a' where r: "ApplyStealOnOwner FC config roll (va_owner q) (cr_owner_epoch c) (va_visitor q) (va_interaction_id q)
      (va_plot q) (va_crop q) (va_view_epoch q) now (of_actor f) = (r, a')" by fastforce
  moreover have "va_action (q\<lparr>va_route := route\<rparr>) = STEAL_FRIEND_CROP" using assms(2) by simp
  ultimately have "f' = f\<lparr>of_actor := a'\<rparr> \<and> (\<forall>x. res = Inr x \<and> vx_error x = None \<longrightarrow> \<not> isl r)"
    using assms False by (cases r)
      (auto simp: ApplyVisitorAction_def owner_switch_def refused_def split: if_splits option.splits prod.splits)
  then show thesis using r call by blast
qed (use early in blast)

lemma steal_action_fields [simp]:
  "va_action (steal_action q) = STEAL_FRIEND_CROP" "va_owner (steal_action q) = sr_owner q" "va_visitor (steal_action q) = sr_visitor q"
  "va_visit_id (steal_action q) = sr_visit_id q" "va_interaction_id (steal_action q) = sr_interaction_id q"
  "va_plot (steal_action q) = sr_plot q" "va_crop (steal_action q) = sr_crop q" "va_view_epoch (steal_action q) = sr_view_epoch q"
  by (simp_all add: steal_action_def)

text \<open>What a call on the owner leaves alone, whatever its answer.\<close>

definition owner_side :: "saga_world \<Rightarrow> saga_world \<Rightarrow> bool" where
  "owner_side w w' \<longleftrightarrow> sw_store w' = sw_store w \<and> sw_visitor w' = sw_visitor w \<and> of_auth (sw_farm w') = of_auth (sw_farm w) \<and>
     of_visits (sw_farm w') = of_visits (sw_farm w) \<and> st_owner_epoch (owner_state w') = st_owner_epoch (owner_state w)"

definition owner_progress :: "friend_codec \<Rightarrow> steal_request \<Rightarrow> plot \<Rightarrow> u32 \<Rightarrow> saga_world \<Rightarrow> saga_world \<Rightarrow> bool" where
  "owner_progress FC q p0 n0 w w' \<longleftrightarrow> steal_ledger FC q p0 n0 w' \<and> owner_side w w' \<and>
     (owner_receipt (sr_interaction_id q) w \<longrightarrow> owner_receipt (sr_interaction_id q) w')"

lemma owner_side_visitor:
  assumes "owner_side w w'"
  shows "visitor_receipt i w' = visitor_receipt i w" "steal_hold q w' = steal_hold q w" "unreserved i w' = unreserved i w"
    "stock q w' = stock q w" "career_room q w' = career_room q w" "receipt_decodes FC i w' = receipt_decodes FC i w"
  using assms by (simp_all add: owner_side_def world_defs)

lemma owner_progress_trans: "owner_progress FC q p0 n0 w w1 \<Longrightarrow> owner_progress FC q p0 n0 w1 w2 \<Longrightarrow> owner_progress FC q p0 n0 w w2"
  by (simp add: owner_progress_def owner_side_def)

lemma steal_call_effect:
  assumes "steal_ledger FC q p0 n0 w"
    "ApplyVisitorAction FC config enabled roll ((steal_action q)\<lparr>va_route := route\<rparr>) now (sw_farm w) = (res, tips, f')"
  shows "owner_progress FC q p0 n0 w (w\<lparr>sw_farm := f'\<rparr>)"
    "res = Inr x \<Longrightarrow> vx_error x = None \<Longrightarrow> owner_receipt (sr_interaction_id q) (w\<lparr>sw_farm := f'\<rparr>)"
proof -
  let ?i = "sr_interaction_id q" and ?w = "w\<lparr>sw_farm := f'\<rparr>"
  have va: "va_action (steal_action q) = STEAL_FRIEND_CROP" by simp
  have "owner_progress FC q p0 n0 w ?w \<and> (res = Inr x \<and> vx_error x = None \<longrightarrow> owner_receipt ?i ?w)"
    using assms(2) va
  proof (cases rule: ApplyVisitorAction_steal)
    case early
    then show ?thesis using assms(1) by (auto simp: owner_progress_def owner_side_def)
  next
    case (call epoch r a')
    let ?s = "owner_state w" and ?s' = "ac_state a'"
    have s': "owner_state ?w = ?s'" using call(2) by (simp add: owner_state_def)
    show ?thesis using call(1)
    proof (cases rule: apply_steal_cases)
      case same
      have side: "owner_side w ?w" using same(4) call(2) by (simp add: owner_side_def s') (simp add: owner_state_def)
      have "owner_receipt ?i ?w = owner_receipt ?i w" "st_plots (owner_state ?w) = st_plots (owner_state w)"
        using same(1,2) s' by (simp_all add: owner_receipt_def) (simp_all add: owner_state_def)
      moreover have "res = Inr x \<and> vx_error x = None \<longrightarrow> owner_receipt ?i w"
        using call(3) same(3) by (cases r) (auto simp: owner_receipt_def owner_state_def)
      ultimately show ?thesis using assms(1) side
        by (simp add: owner_progress_def steal_ledger_def owner_side_visitor)
    next
      case (stolen p)
      have side: "owner_side w ?w" using stolen(5) call(2) by (simp add: owner_side_def s') (simp add: owner_state_def)
      have o: "\<not> owner_receipt ?i w" "owner_receipt ?i ?w" using stolen(1,2) s' by (simp_all add: owner_receipt_def) (simp add: owner_state_def)
      then have "p = p0" using assms(1) stolen(3) by (simp add: steal_ledger_def) (simp add: owner_state_def)
      then have "fmlookup (st_plots (owner_state ?w)) (sr_plot q) = Some (stolen_plot (sr_visitor q) p0)"
        using stolen(4) s' by simp
      then show ?thesis using assms(1) side o
        by (simp add: owner_progress_def steal_ledger_def owner_side_visitor)
    qed
  qed
  then show "owner_progress FC q p0 n0 w ?w" "res = Inr x \<Longrightarrow> vx_error x = None \<Longrightarrow> owner_receipt ?i ?w" by auto
qed

lemma call_owner_effect:
  assumes "steal_ledger FC q p0 n0 w" "call_owner FC config enabled c (steal_action q) w = (res, w')"
  shows "owner_progress FC q p0 n0 w w'" "res = Inr x \<Longrightarrow> vx_error x = None \<Longrightarrow> owner_receipt (sr_interaction_id q) w'"
proof -
  have refl: "owner_progress FC q p0 n0 w w" using assms(1) by (simp add: owner_progress_def owner_side_def)
  have "owner_progress FC q p0 n0 w w' \<and> (res = Inr x \<and> vx_error x = None \<longrightarrow> owner_receipt (sr_interaction_id q) w')"
  proof (cases "cn_route c")
    case None
    then show ?thesis using assms refl by (auto simp: call_owner_def)
  next
    case (Some route)
    obtain res1 tips1 f1 where one: "ApplyVisitorAction FC config enabled (cn_roll c) ((steal_action q)\<lparr>va_route := Some route\<rparr>)
        (cn_now c) (sw_farm w) = (res1, tips1, f1)" by (metis prod.exhaust)
    note e1 = steal_call_effect [OF assms(1) one]
    let ?w1 = "w\<lparr>sw_farm := f1\<rparr>"
    show ?thesis
    proof (cases "res1 = Inl RpcFailedPrecondition \<and> cn_second_route c \<noteq> None")
      case True
      then obtain route2 where r2: "cn_second_route c = Some route2" by blast
      obtain res2 tips2 f2 where two: "ApplyVisitorAction FC config enabled (cn_roll c) ((steal_action q)\<lparr>va_route := Some route2\<rparr>)
          (cn_now c) (sw_farm ?w1) = (res2, tips2, f2)" by (metis prod.exhaust)
      have "steal_ledger FC q p0 n0 ?w1" using e1(1) by (simp add: owner_progress_def)
      note e2 = steal_call_effect [OF this two]
      have "res = res2 \<and> w' = ?w1\<lparr>sw_farm := f2\<rparr>" using assms(2) Some one True r2 two by (auto simp: call_owner_def Let_def)
      then show ?thesis using owner_progress_trans [OF e1(1) e2(1)] e2(2) by auto
    next
      case False
      then have "res = res1 \<and> w' = ?w1" using assms(2) Some one
        by (auto simp: call_owner_def Let_def split: sum.splits rpc_code.splits option.splits)
      then show ?thesis using e1 by auto
    qed
  qed
  then show "owner_progress FC q p0 n0 w w'" "res = Inr x \<Longrightarrow> vx_error x = None \<Longrightarrow> owner_receipt (sr_interaction_id q) w'" by auto
qed


text \<open>Reserving changes nothing but the reservation, and only when there was none.\<close>

lemma reserve_effect:
  assumes "ReserveSteal e i item q now v = (res, mutated, v')"
  shows "st_friend_receipts v' = st_friend_receipts v" "st_inventory v' = st_inventory v" "st_career v' = st_career v"
    "st_owner_epoch v' = st_owner_epoch v"
    "find (\<lambda>r. fr_interaction_id r = i) (st_friend_reservations v) \<noteq> None \<Longrightarrow>
       find (\<lambda>r. fr_interaction_id r = i) (st_friend_reservations v') = find (\<lambda>r. fr_interaction_id r = i) (st_friend_reservations v)"
    "find (\<lambda>r. fr_interaction_id r = i) (st_friend_reservations v) = None \<Longrightarrow>
       find (\<lambda>r. fr_interaction_id r = i) (st_friend_reservations v') = None \<and> isl res \<or>
       (\<exists>r. find (\<lambda>r. fr_interaction_id r = i) (st_friend_reservations v') = Some r \<and> fr_status r = RESERVATION_RESERVED \<and>
         fr_action r = STEAL_FRIEND_CROP \<and> get_item r = item \<and> get_quantity r = q)"
proof -
  let ?m = "snd (migrateFriendSchema now v)"
  let ?r = "\<lparr>fr_interaction_id = i, fr_action = STEAL_FRIEND_CROP, fr_status = RESERVATION_RESERVED,
    fr_reserved_action_chances = 0, fr_reserved_item_id = Some item, fr_reserved_quantity = Some q,
    fr_created_at_ms = now, fr_updated_at_ms = now\<rparr>"
  have c: "v' = v \<and> isl res \<or> v' = ?m \<and> (find (\<lambda>r. fr_interaction_id r = i) (st_friend_reservations v) \<noteq> None \<or> isl res) \<or>
      find (\<lambda>r. fr_interaction_id r = i) (st_friend_reservations v) = None \<and>
      v' = bump_revision now (?m\<lparr>st_friend_reservations := st_friend_reservations v @ [?r]\<rparr>)"
    using assms by (auto simp: ReserveSteal_def reserveSteal_def Let_def case_prod_beta split: option.splits if_splits)
  show "st_friend_receipts v' = st_friend_receipts v" "st_inventory v' = st_inventory v" "st_career v' = st_career v"
    "st_owner_epoch v' = st_owner_epoch v"
    using c by (auto simp: bump_revision_def)
  show "find (\<lambda>r. fr_interaction_id r = i) (st_friend_reservations v') = find (\<lambda>r. fr_interaction_id r = i) (st_friend_reservations v)"
    if "find (\<lambda>r. fr_interaction_id r = i) (st_friend_reservations v) \<noteq> None"
    using c that by auto
  show "find (\<lambda>r. fr_interaction_id r = i) (st_friend_reservations v') = None \<and> isl res \<or>
       (\<exists>r. find (\<lambda>r. fr_interaction_id r = i) (st_friend_reservations v') = Some r \<and> fr_status r = RESERVATION_RESERVED \<and>
         fr_action r = STEAL_FRIEND_CROP \<and> get_item r = item \<and> get_quantity r = q)"
    if "find (\<lambda>r. fr_interaction_id r = i) (st_friend_reservations v) = None"
    using c that by (auto simp: bump_revision_def find_append get_item_def get_quantity_def)
qed

lemma reserve_step:
  assumes "steal_ledger FC q p0 n0 w" "sg_reserve (steal_steps FC config enabled q c) w = (res, w')"
  shows "sw_store w' = sw_store w \<and> steal_ledger FC q p0 n0 w' \<and>
    (owner_receipt (sr_interaction_id q) w' \<longleftrightarrow> owner_receipt (sr_interaction_id q) w) \<and>
    (visitor_receipt (sr_interaction_id q) w' \<longleftrightarrow> visitor_receipt (sr_interaction_id q) w) \<and> (steal_hold q w \<longrightarrow> steal_hold q w') \<and>
    (unreserved (sr_interaction_id q) w \<longrightarrow> unreserved (sr_interaction_id q) w' \<or> steal_hold q w') \<and>
    (unreserved (sr_interaction_id q) w \<and> res = Inr b \<longrightarrow> steal_hold q w')"
proof -
  let ?i = "sr_interaction_id q"
  obtain r m v' where r: "ReserveSteal (sr_visitor_epoch q) ?i (sr_crop q) (sr_quantity q) (cn_now c) (sw_visitor w) = (r, m, v')"
    by (metis prod.exhaust)
  note e = reserve_effect [OF r]
  have "w' = w \<and> isl res \<or> w' = w\<lparr>sw_visitor := v'\<rparr> \<and> (isl r \<longrightarrow> isl res)"
    using assms(2) r by (auto simp: steal_steps_def with_fate_def on_visitor_def Let_def split: fate.splits)
  then show ?thesis
  proof
    assume "w' = w \<and> isl res"
    then show ?thesis using assms(1) by auto
  next
    assume w: "w' = w\<lparr>sw_visitor := v'\<rparr> \<and> (isl r \<longrightarrow> isl res)"
    have f: "owner_state w' = owner_state w" "visitor_receipt ?i w' = visitor_receipt ?i w" "stock q w' = stock q w"
      "career_room q w' = career_room q w" "receipt_decodes FC ?i w' = receipt_decodes FC ?i w"
      using w e(1-3) by (simp_all add: world_defs careerOf_def)
    have o: "owner_receipt ?i w' = owner_receipt ?i w" using f(1) by (simp add: owner_receipt_def)
    have "steal_hold q w \<longrightarrow> steal_hold q w'"
      using f(2) e(5) w by (auto simp: steal_hold_def reservation_def)
    moreover have "unreserved ?i w \<longrightarrow> unreserved ?i w' \<and> isl res \<or> steal_hold q w'"
      using e(6) w by (auto simp: steal_hold_def reservation_def unreserved_def)
    ultimately show ?thesis using assms(1) f o w by (auto simp: steal_ledger_def)
  qed
qed

lemma commit_effect:
  assumes "CommitSteal FC e i item q payload now v = (res, v')"
    "unat (car_total_stolen (careerOf v)) + unat q < 2 ^ 64 \<or> findFriendReceipt (st_friend_receipts v) i RECEIPT_VISITOR \<noteq> None"
  obtains (same) "st_friend_receipts v' = st_friend_receipts v" "st_friend_reservations v' = st_friend_reservations v"
      "st_inventory v' = st_inventory v" "st_career v' = st_career v" "st_owner_epoch v' = st_owner_epoch v"
      "\<And>x. res = Inr x \<Longrightarrow> findFriendReceipt (st_friend_receipts v) i RECEIPT_VISITOR \<noteq> None"
  | (moved) response where "findFriendReceipt (st_friend_receipts v) i RECEIPT_VISITOR = None" "res = Inr (response, False)"
      "st_inventory v' = fmupd item (map_get (st_inventory v) item + q) (st_inventory v)" "st_owner_epoch v' = st_owner_epoch v"
      "\<exists>b. findFriendReceipt (st_friend_receipts v') i RECEIPT_VISITOR = Some b \<and> rc_result_payload b = marshal_friend FC response"
proof (cases "v' = v \<and> isl res")
  case True
  then show thesis by (intro same) auto
next
  case False
  then have t: "commit_steal_turn FC i item q payload now v = (res, v')"
    using assms(1) by (auto simp: CommitSteal_def split: if_splits option.splits)
  then show thesis
  proof (cases rule: commit_cases)
    case (overflow r)
    have "careerOf (credited_state i item q now v) = careerOf v" by (simp add: credited_state_def careerOf_def)
    then have "addStolenCareer (credited_state i item q now v) q \<noteq> None"
      using assms(2) overflow(1) checkedAddUint64_None [of "car_total_stolen (careerOf v)" "ucast q"]
      by (auto simp: addStolenCareer_def unat_ucast_u64 split: option.splits)
    then show thesis using overflow(6) by simp
  next
    case (committed r s4 guard response)
    have "findFriendReceipt (st_friend_receipts s4) i RECEIPT_VISITOR = None"
      using committed(1) addStolenCareer_frame(4) [OF committed(6)] by simp
    then show thesis
      using committed addStolenCareer_frame(1,5) [OF committed(6)]
      by (intro moved [of response]) (auto simp: incrementStealTask_def add_receipt_def findFriendReceipt_def find_append)
  qed (use same in auto)
qed

lemma commit_step:
  assumes "steal_ledger FC q p0 n0 w" "owner_receipt (sr_interaction_id q) w"
    "sg_commit (steal_steps FC config enabled q c) p w = (res, w')"
  shows "sw_store w' = sw_store w \<and> steal_ledger FC q p0 n0 w' \<and> owner_receipt (sr_interaction_id q) w' \<and>
    (visitor_receipt (sr_interaction_id q) w \<longrightarrow> visitor_receipt (sr_interaction_id q) w') \<and> (steal_hold q w \<longrightarrow> steal_hold q w') \<and>
    (res = Inr x \<longrightarrow> visitor_receipt (sr_interaction_id q) w')"
proof -
  let ?i = "sr_interaction_id q"
  obtain r v' where r: "CommitSteal FC (sr_visitor_epoch q) ?i (sr_crop q) (sr_quantity q) p (cn_now c) (sw_visitor w) = (r, v')"
    by fastforce
  have "w' = w \<and> isl res \<or> w' = w\<lparr>sw_visitor := v'\<rparr> \<and> (isl r \<longrightarrow> isl res)"
    using assms(3) r by (cases r) (auto simp: steal_steps_def with_fate_def on_visitor_def Let_def split: fate.splits)
  then show ?thesis
  proof
    assume "w' = w \<and> isl res"
    then show ?thesis using assms(1,2) by auto
  next
    assume w: "w' = w\<lparr>sw_visitor := v'\<rparr> \<and> (isl r \<longrightarrow> isl res)"
    have o: "owner_state w' = owner_state w" "owner_receipt ?i w'" using w assms(2) by (simp_all add: owner_receipt_def owner_state_def)
    have room: "unat (car_total_stolen (careerOf (sw_visitor w))) + unat (sr_quantity q) < 2 ^ 64 \<or>
        findFriendReceipt (st_friend_receipts (sw_visitor w)) ?i RECEIPT_VISITOR \<noteq> None"
      using assms(1) by (auto simp: steal_ledger_def career_room_def visitor_receipt_def)
    from r room show ?thesis
    proof (cases rule: commit_effect)
      case same
      have f: "visitor_receipt ?i w' = visitor_receipt ?i w" "stock q w' = stock q w" "steal_hold q w' = steal_hold q w"
        "career_room q w' = career_room q w" "receipt_decodes FC ?i w' = receipt_decodes FC ?i w"
        using w same(1-4) by (simp_all add: world_defs careerOf_def)
      have "res = Inr x \<longrightarrow> visitor_receipt ?i w" using w same(6) by (cases r) (auto simp: visitor_receipt_def)
      then show ?thesis using assms(1,2) f o w by (simp add: steal_ledger_def)
    next
      case (moved response)
      have v: "\<not> visitor_receipt ?i w" "visitor_receipt ?i w'" "steal_hold q w'" using moved(1,5) w by (auto simp: visitor_receipt_def steal_hold_def)
      have "stock q w' = stock q w + sr_quantity q" using moved(3) w by (simp add: stock_def map_simps)
      moreover have "receipt_decodes FC ?i w'" using moved(5) w by (auto simp: receipt_decodes_def friend_codec_ok_def)
      ultimately show ?thesis using assms(1,2) o v w by (simp add: steal_ledger_def)
    qed
  qed
qed

lemma release_step:
  assumes "steal_ledger FC q p0 n0 w"
  shows "sw_store (sg_release (steal_steps FC config enabled q c) w) = sw_store w \<and>
    steal_ledger FC q p0 n0 (sg_release (steal_steps FC config enabled q c) w) \<and>
    (owner_receipt (sr_interaction_id q) (sg_release (steal_steps FC config enabled q c) w) \<longleftrightarrow> owner_receipt (sr_interaction_id q) w) \<and>
    (visitor_receipt (sr_interaction_id q) (sg_release (steal_steps FC config enabled q c) w) \<longleftrightarrow> visitor_receipt (sr_interaction_id q) w)"
proof -
  let ?w' = "sg_release (steal_steps FC config enabled q c) w"
  obtain r v' where r: "ReleaseSteal (sr_visitor_epoch q) (sr_interaction_id q) (cn_now c) (sw_visitor w) = (r, v')" by fastforce
  have e: "st_friend_receipts v' = st_friend_receipts (sw_visitor w)" "st_inventory v' = st_inventory (sw_visitor w)"
    "st_career v' = st_career (sw_visitor w)" using r by (auto simp: ReleaseSteal_def split: if_splits option.splits)
  have "?w' = w \<or> ?w' = w\<lparr>sw_visitor := v'\<rparr>"
    using r by (auto simp: steal_steps_def with_fate_def on_visitor_def Let_def split: fate.splits)
  then show ?thesis using assms e by (auto simp: steal_ledger_def world_defs careerOf_def)
qed

lemma apply_owner_step:
  assumes "steal_ledger FC q p0 n0 w" "sg_apply (steal_steps FC config enabled q c) w = (res, w')"
  shows "sw_store w' = sw_store w \<and> steal_ledger FC q p0 n0 w' \<and>
    (owner_receipt (sr_interaction_id q) w \<longrightarrow> owner_receipt (sr_interaction_id q) w') \<and>
    (visitor_receipt (sr_interaction_id q) w' \<longleftrightarrow> visitor_receipt (sr_interaction_id q) w) \<and> (steal_hold q w' \<longleftrightarrow> steal_hold q w) \<and>
    (unreserved (sr_interaction_id q) w' \<longleftrightarrow> unreserved (sr_interaction_id q) w) \<and>
    (res = Inr x \<and> vx_error x = None \<longrightarrow> owner_receipt (sr_interaction_id q) w')"
proof -
  obtain r w1 where r: "call_owner FC config enabled c (steal_action q) w = (r, w1)" by fastforce
  note e = call_owner_effect [OF assms(1) r]
  have "w' = w \<and> isl res \<or> w' = w1 \<and> (res = Inr x \<longrightarrow> r = Inr x)"
    using assms(2) r by (auto simp: steal_steps_def with_fate_def split: fate.splits)
  then show ?thesis
  proof
    assume "w' = w1 \<and> (res = Inr x \<longrightarrow> r = Inr x)"
    then show ?thesis using e by (auto simp: owner_progress_def owner_side_visitor) (auto simp: owner_side_def)
  qed (use assms(1) in auto)
qed

interpretation steal_saga: saga_contract FC "steal_steps FC config enabled q" "steal_ledger FC q p0 n0"
  "owner_receipt (sr_interaction_id q)" "visitor_receipt (sr_interaction_id q)" "steal_hold q" "unreserved (sr_interaction_id q)"
  for FC config enabled q p0 n0
proof
  fix w x
  show "steal_ledger FC q p0 n0 (w\<lparr>sw_store := x\<rparr>) = steal_ledger FC q p0 n0 w" by (simp add: steal_ledger_def world_defs)
  show "owner_receipt (sr_interaction_id q) (w\<lparr>sw_store := x\<rparr>) = owner_receipt (sr_interaction_id q) w"
    "visitor_receipt (sr_interaction_id q) (w\<lparr>sw_store := x\<rparr>) = visitor_receipt (sr_interaction_id q) w"
    "steal_hold q (w\<lparr>sw_store := x\<rparr>) = steal_hold q w"
    "unreserved (sr_interaction_id q) (w\<lparr>sw_store := x\<rparr>) = unreserved (sr_interaction_id q) w" by (simp_all add: world_defs)
qed (fact reserve_step apply_owner_step commit_step release_step)+

section \<open>When the calls get through\<close>

definition steal_friendly :: "steal_request \<Rightarrow> conditions \<Rightarrow> saga_world \<Rightarrow> bool" where
  "steal_friendly q c w \<longleftrightarrow> steal_validate q \<and> cn_call c = Delivered \<and> cn_update c = Delivered \<and>
     sr_visitor_epoch q = st_owner_epoch (sw_visitor w) \<and>
     (\<exists>route. cn_route c = Some route \<and> cr_owner_epoch route = st_owner_epoch (owner_state w) \<and>
        validateRoute (Some route) (sr_owner q) (cn_now c) (of_auth (sw_farm w)) = None)"

lemma friendly_frame:
  assumes "st_owner_epoch (sw_visitor w') = st_owner_epoch (sw_visitor w)" "st_owner_epoch (owner_state w') = st_owner_epoch (owner_state w)"
    "of_auth (sw_farm w') = of_auth (sw_farm w)" "steal_friendly q c w"
  shows "steal_friendly q c w'"
  using assms by (simp add: steal_friendly_def)

lemma steal_answers:
  assumes "steal_friendly q c w" "ApplyVisitorAction FC config enabled roll ((steal_action q)\<lparr>va_route := cn_route c\<rparr>) (cn_now c) (sw_farm w) = (res, tips, f')"
  shows "\<not> isl res"
proof -
  obtain route where r: "cn_route c = Some route" "cr_owner_epoch route = st_owner_epoch (owner_state w)"
    "validateRoute (Some route) (sr_owner q) (cn_now c) (of_auth (sw_farm w)) = None"
    and v: "steal_validate q" using assms(1) by (auto simp: steal_friendly_def)
  have e: "cr_owner_epoch route \<noteq> 0" using r(3) by (auto simp: validateRoute_def split: if_splits)
  let ?o = "ApplyStealOnOwner FC config roll (sr_owner q) (cr_owner_epoch route) (sr_visitor q) (sr_interaction_id q) (sr_plot q)
      (sr_crop q) (sr_view_epoch q) (cn_now c) (of_actor (sw_farm w))"
  have "x = ErrStealNotAvailable" if "?o = (Inl x, a)" for x a
    using that v r(2) e by (auto simp: ApplyStealOnOwner_def steal_validate_def epoch_error_def owner_state_def publish_result_def
        apply_steal_turn_def Let_def case_prod_beta publishFarmViewChanges_def split: option.splits if_splits)
  then show ?thesis
    using assms(2) r v by (cases ?o) (auto simp: ApplyVisitorAction_def steal_validate_def owner_switch_def domain_refusal_def
        split: option.splits sum.splits)
qed

interpretation live_steal: saga_liveness FC "steal_steps FC config enabled q" "steal_ledger FC q p0 n0"
  "owner_receipt (sr_interaction_id q)" "visitor_receipt (sr_interaction_id q)" "steal_hold q" "unreserved (sr_interaction_id q)"
  "steal_friendly q"
  for FC config enabled q p0 n0
proof
  fix w c c' x p and e :: friend_error and e' :: rpc_code and w'
  let ?s = "steal_steps FC config enabled q" and ?i = "sr_interaction_id q"
  show "cn_update c = Delivered" if "steal_friendly q c w" using that by (simp add: steal_friendly_def)
  show "steal_friendly q c (w\<lparr>sw_store := x\<rparr>) = steal_friendly q c w" by (simp add: steal_friendly_def owner_state_def)
  assume J: "steal_ledger FC q p0 n0 w" and f: "steal_friendly q c w"
  have room: "unat (car_total_stolen (careerOf (sw_visitor w))) + unat (sr_quantity q) < 2 ^ 64 \<or>
      findFriendReceipt (st_friend_receipts (sw_visitor w)) ?i RECEIPT_VISITOR \<noteq> None"
    using J by (auto simp: steal_ledger_def career_room_def visitor_receipt_def)
  show "steal_friendly q c (snd (sg_reserve (?s c') w))"
  proof -
    obtain r m v' where r: "ReserveSteal (sr_visitor_epoch q) ?i (sr_crop q) (sr_quantity q) (cn_now c') (sw_visitor w) = (r, m, v')"
      by (metis prod.exhaust)
    have "snd (sg_reserve (?s c') w) = w \<or> snd (sg_reserve (?s c') w) = w\<lparr>sw_visitor := v'\<rparr>"
      using r by (auto simp: steal_steps_def with_fate_def on_visitor_def Let_def split: fate.splits)
    then show ?thesis using f reserve_effect(4) [OF r] by (auto simp: steal_friendly_def owner_state_def)
  qed
  show "steal_friendly q c (snd (sg_apply (?s c') w))"
  proof -
    obtain r w1 where r: "call_owner FC config enabled c' (steal_action q) w = (r, w1)" by fastforce
    have "snd (sg_apply (?s c') w) = w \<or> snd (sg_apply (?s c') w) = w1"
      using r by (auto simp: steal_steps_def with_fate_def split: fate.splits)
    moreover have "steal_friendly q c w1"
      using call_owner_effect(1) [OF J r] f by (intro friendly_frame [of w1 w]) (auto simp: owner_progress_def owner_side_def)
    ultimately show ?thesis using f by auto
  qed
  show "steal_friendly q c (snd (sg_commit (?s c') p w))"
  proof -
    obtain r v' where r: "CommitSteal FC (sr_visitor_epoch q) ?i (sr_crop q) (sr_quantity q) p (cn_now c') (sw_visitor w) = (r, v')"
      by fastforce
    have "st_owner_epoch v' = st_owner_epoch (sw_visitor w)" by (rule commit_effect [OF r room]) auto
    moreover have "snd (sg_commit (?s c') p w) = w \<or> snd (sg_commit (?s c') p w) = w\<lparr>sw_visitor := v'\<rparr>"
      using r by (auto simp: steal_steps_def with_fate_def on_visitor_def Let_def split: fate.splits)
    ultimately show ?thesis using f by (auto simp: steal_friendly_def owner_state_def)
  qed
  show "steal_friendly q c (sg_release (?s c') w)"
  proof -
    obtain r v' where r: "ReleaseSteal (sr_visitor_epoch q) ?i (cn_now c') (sw_visitor w) = (r, v')" by fastforce
    have "st_owner_epoch v' = st_owner_epoch (sw_visitor w)" using r by (auto simp: ReleaseSteal_def split: if_splits option.splits)
    moreover have "sg_release (?s c') w = w \<or> sg_release (?s c') w = w\<lparr>sw_visitor := v'\<rparr>"
      using r by (auto simp: steal_steps_def with_fate_def on_visitor_def Let_def split: fate.splits)
    ultimately show ?thesis using f by (auto simp: steal_friendly_def owner_state_def)
  qed
  have v: "steal_validate q" "cn_call c = Delivered" "sr_visitor_epoch q = st_owner_epoch (sw_visitor w)"
    using f by (simp_all add: steal_friendly_def)
  show "visitorDomainErrorCode e \<noteq> None" if "sg_reserve (?s c) w = (Inl e, w')"
    using that v by (auto simp: steal_steps_def with_fate_def on_visitor_def Let_def case_prod_beta ReserveSteal_def reserveSteal_def
        epoch_error_def steal_validate_def visitorDomainErrorCode_def split: if_splits option.splits)
  show "sg_apply (?s c) w \<noteq> (Inl e', w')"
  proof -
    obtain route where r: "cn_route c = Some route" using f by (auto simp: steal_friendly_def)
    obtain res tips f' where a: "ApplyVisitorAction FC config enabled (cn_roll c) ((steal_action q)\<lparr>va_route := Some route\<rparr>)
        (cn_now c) (sw_farm w) = (res, tips, f')" by (metis prod.exhaust)
    have "\<not> isl res" using steal_answers [OF f, of FC config enabled "cn_roll c" res tips f'] a r by simp
    then show ?thesis using a r v(2) by (cases res) (auto simp: steal_steps_def with_fate_def call_owner_def Let_def)
  qed
  show "sg_commit (?s c) p w \<noteq> (Inl e, w')" if o: "owner_receipt ?i w" "steal_hold q w" and fc: "friend_codec_ok FC"
  proof -
    have "\<not> isl (fst (commit_steal_turn FC ?i (sr_crop q) (sr_quantity q) p (cn_now c) (sw_visitor w)))"
    proof (cases "visitor_receipt ?i w")
      case True
      then obtain b where "findFriendReceipt (st_friend_receipts (sw_visitor w)) ?i RECEIPT_VISITOR = Some b"
        "unmarshal_friend FC (rc_result_payload b) \<noteq> None" using J fc by (auto simp: visitor_receipt_def steal_ledger_def receipt_decodes_def)
      then show ?thesis by (auto simp: commit_steal_turn_def)
    next
      case False
      then obtain r where r: "reservation ?i w = Some r" "fr_status r = RESERVATION_RESERVED" "fr_action r = STEAL_FRIEND_CROP"
        "get_item r = sr_crop q" "get_quantity r = sr_quantity q" using o(2) by (auto simp: steal_hold_def)
      have "careerOf (credited_state ?i (sr_crop q) (sr_quantity q) (cn_now c) (sw_visitor w)) = careerOf (sw_visitor w)"
        by (simp add: credited_state_def careerOf_def)
      then have "addStolenCareer (credited_state ?i (sr_crop q) (sr_quantity q) (cn_now c) (sw_visitor w)) (sr_quantity q) \<noteq> None"
        using room False checkedAddUint64_None [of "car_total_stolen (careerOf (sw_visitor w))" "sr_quantity q"]
        by (auto simp: addStolenCareer_def visitor_receipt_def split: option.splits)
      then show ?thesis
        using r False by (auto simp: visitor_receipt_def reservation_def elim: commit_moves [of "sw_visitor w" ?i r "sr_crop q" "sr_quantity q" "cn_now c" FC p])
    qed
    then obtain y v' where "commit_steal_turn FC ?i (sr_crop q) (sr_quantity q) p (cn_now c) (sw_visitor w) = (Inr y, v')"
      by (metis isl_def prod.collapse sum.collapse(2) sum.disc(1) sum.exhaust)
    then show ?thesis
      using v by (simp add: steal_steps_def with_fate_def on_visitor_def CommitSteal_def epoch_error_def steal_validate_def)
  qed
qed

section \<open>Histories of a theft\<close>

text \<open>
  Attempts to drive the interaction \<open>q\<close> forward, by the visitor's client or by the reconciler, under any
  epoch, with any calls lost, and between them anything that does not touch this interaction, the stock of
  this crop or this plot.
\<close>

definition unrelated :: "steal_request \<Rightarrow> saga_world \<Rightarrow> saga_world \<Rightarrow> bool" where
  "unrelated q w w' \<longleftrightarrow> (let i = sr_interaction_id q in
     fmlookup (sw_store w') i = fmlookup (sw_store w) i \<and> replay_owner i (owner_state w') = replay_owner i (owner_state w) \<and>
     findFriendReceipt (st_friend_receipts (sw_visitor w')) i RECEIPT_VISITOR =
       findFriendReceipt (st_friend_receipts (sw_visitor w)) i RECEIPT_VISITOR \<and>
     reservation i w' = reservation i w \<and> stock q w' = stock q w \<and>
     fmlookup (st_plots (owner_state w')) (sr_plot q) = fmlookup (st_plots (owner_state w)) (sr_plot q) \<and> career_room q w')"

inductive steal_history :: "friend_codec \<Rightarrow> steal_request \<Rightarrow> saga_world \<Rightarrow> saga_world \<Rightarrow> bool" for FC q where
  outset: "steal_history FC q w w"
| execute: "steal_history FC q w0 w \<Longrightarrow> ExecuteSteal FC config enabled (q\<lparr>sr_visitor_epoch := e\<rparr>) a w = (res, w') \<Longrightarrow>
    steal_history FC q w0 w'"
| resume: "steal_history FC q w0 w \<Longrightarrow> ResumeSteal FC config enabled (q\<lparr>sr_visitor_epoch := e\<rparr>) a w = (res, w') \<Longrightarrow>
    steal_history FC q w0 w'"
| elsewhere: "steal_history FC q w0 w \<Longrightarrow> unrelated q w w' \<Longrightarrow> steal_history FC q w0 w'"

definition theft_ok :: "friend_codec \<Rightarrow> steal_request \<Rightarrow> plot \<Rightarrow> u32 \<Rightarrow> saga_world \<Rightarrow> bool" where
  "theft_ok FC q p0 n0 = saga_inv FC (sr_interaction_id q) (steal_ledger FC q p0 n0) (owner_receipt (sr_interaction_id q))
     (visitor_receipt (sr_interaction_id q)) (steal_hold q) (unreserved (sr_interaction_id q))"

definition untouched_by :: "steal_request \<Rightarrow> plot \<Rightarrow> u32 \<Rightarrow> saga_world \<Rightarrow> bool" where
  "untouched_by q p0 n0 w \<longleftrightarrow> fmlookup (sw_store w) (sr_interaction_id q) = None \<and> \<not> owner_receipt (sr_interaction_id q) w \<and>
     \<not> visitor_receipt (sr_interaction_id q) w \<and> unreserved (sr_interaction_id q) w \<and> stock q w = n0 \<and>
     fmlookup (st_plots (owner_state w)) (sr_plot q) = Some p0 \<and> career_room q w"

lemma theft_start: "untouched_by q p0 n0 w \<Longrightarrow> theft_ok FC q p0 n0 w"
  by (simp add: untouched_by_def theft_ok_def saga_inv_def steal_ledger_def receipt_decodes_def visitor_receipt_def)

lemma theft_epoch [simp]: "theft_ok FC (q\<lparr>sr_visitor_epoch := e\<rparr>) p0 n0 w = theft_ok FC q p0 n0 w"
proof -
  have "steal_ledger FC (q\<lparr>sr_visitor_epoch := e\<rparr>) p0 n0 = steal_ledger FC q p0 n0" "steal_hold (q\<lparr>sr_visitor_epoch := e\<rparr>) = steal_hold q"
    by (simp_all add: fun_eq_iff steal_ledger_def steal_hold_def stock_def career_room_def)
  then show ?thesis by (simp add: theft_ok_def)
qed

lemma theft_unrelated:
  assumes "unrelated q w w'" "theft_ok FC q p0 n0 w"
  shows "theft_ok FC q p0 n0 w'"
proof -
  note u = assms(1) [unfolded unrelated_def Let_def]
  have f: "owner_receipt (sr_interaction_id q) w' = owner_receipt (sr_interaction_id q) w"
    "visitor_receipt (sr_interaction_id q) w' = visitor_receipt (sr_interaction_id q) w" "steal_hold q w' = steal_hold q w"
    "unreserved (sr_interaction_id q) w' = unreserved (sr_interaction_id q) w"
    using u by (simp_all add: owner_receipt_def visitor_receipt_def steal_hold_def unreserved_def)
  have "steal_ledger FC q p0 n0 w'"
    using assms(2) u f by (simp add: theft_ok_def saga_inv_def steal_ledger_def receipt_decodes_def)
  moreover have "status_promise FC (sr_interaction_id q) (owner_receipt (sr_interaction_id q)) (visitor_receipt (sr_interaction_id q))
      (steal_hold q) (unreserved (sr_interaction_id q)) r w' =
    status_promise FC (sr_interaction_id q) (owner_receipt (sr_interaction_id q)) (visitor_receipt (sr_interaction_id q))
      (steal_hold q) (unreserved (sr_interaction_id q)) r w" for r
    using f by (simp add: status_promise_def split: saga_status.splits)
  ultimately show ?thesis using assms(2) u f by (auto simp: theft_ok_def saga_inv_def split: option.splits)
qed

lemma attempt_ok:
  assumes "theft_ok FC q p0 n0 w"
    "ExecuteSteal FC config enabled q a w = (res, w') \<or> ResumeSteal FC config enabled q a w = (res, w')"
  shows "theft_ok FC q p0 n0 w'" "res = Inr x \<Longrightarrow> visitor_receipt (sr_interaction_id q) w' \<and> owner_receipt (sr_interaction_id q) w'"
proof -
  let ?i = "sr_interaction_id q"
  have "theft_ok FC q p0 n0 w' \<and> (\<forall>x. res = Inr x \<longrightarrow> visitor_receipt ?i w' \<and> owner_receipt ?i w')"
  proof (cases "steal_validate q")
    case True
    obtain loaded w1 where l: "theft_ok FC q p0 n0 w1" "\<And>r v. loaded = Inr (r, v) \<Longrightarrow> fmlookup (sw_store w1) ?i = Some (r, v)"
      "drive FC (steal_steps FC config enabled q) a (loaded, w1) = (res, w')"
    proof (cases "ExecuteSteal FC config enabled q a w = (res, w')")
      case e: True
      obtain loaded w1 where c: "createOrLoad (steal_record q (at_now a)) a w = (loaded, w1)" by fastforce
      have r: "in_interaction_id (steal_record q (at_now a)) = ?i" "in_status (steal_record q (at_now a)) = INIT" by (simp_all add: steal_record_def)
      note k = steal_saga.create_ok [OF assms(1) [unfolded theft_ok_def] r c]
      show thesis using that [of w1 loaded] k e True c by (simp add: ExecuteSteal_def theft_ok_def)
    next
      case False
      obtain loaded w1 where c: "load_record ?i a w = (loaded, w1)" by fastforce
      note k = steal_saga.load_ok [OF c]
      show thesis using that [of w1 loaded] k False True c assms by (auto simp: ResumeSteal_def)
    qed
    show ?thesis using steal_saga.drive_ok [OF l(1) [unfolded theft_ok_def] l(3) l(2)] by (simp add: theft_ok_def)
  qed (use assms in \<open>auto simp: ExecuteSteal_def ResumeSteal_def\<close>)
  then show "theft_ok FC q p0 n0 w'" "res = Inr x \<Longrightarrow> visitor_receipt ?i w' \<and> owner_receipt ?i w'" by blast+
qed

lemma history_ok: "steal_history FC q w0 w \<Longrightarrow> theft_ok FC q p0 n0 w0 \<Longrightarrow> theft_ok FC q p0 n0 w"
proof (induction rule: steal_history.induct)
  case (execute w0 w config enabled e a res w')
  then show ?case using attempt_ok(1) [of FC "q\<lparr>sr_visitor_epoch := e\<rparr>" p0 n0 w config enabled a res w'] by simp
next
  case (resume w0 w config enabled e a res w')
  then show ?case using attempt_ok(1) [of FC "q\<lparr>sr_visitor_epoch := e\<rparr>" p0 n0 w config enabled a res w'] by simp
qed (auto intro: theft_unrelated)

section \<open>A sample theft\<close>

text \<open>A codec for the answers, as \<open>ref_codec\<close> of theory \<open>Farm_Types\<close>.\<close>

instance public_plot_view :: countable by countable_datatype
instance farm_view_version :: countable by countable_datatype
instance farm_view_patch :: countable by countable_datatype
instance steal_guard :: countable by countable_datatype
instance friend_response :: countable by countable_datatype

definition ref_friend_codec :: friend_codec where
  "ref_friend_codec = \<lparr>marshal_friend = (\<lambda>r. replicate (to_nat r) 0), unmarshal_friend = (\<lambda>b. Some (from_nat (length b)))\<rparr>"

lemma ref_friend_codec_ok: "friend_codec_ok ref_friend_codec"
  by (simp add: friend_codec_ok_def ref_friend_codec_def)

definition theft_request :: steal_request where
  "theft_request = \<lparr>sr_interaction_id = replicate 16 9, sr_visitor = 8, sr_visitor_epoch = 1, sr_owner = 7, sr_visit_id = replicate 16 3,
     sr_plot = 1, sr_crop = 2001, sr_quantity = 1, sr_view_epoch = replicate 16 5, sr_view_seq = 3\<rparr>"

definition theft_entry :: route_entry where
  "theft_entry = zero_entry\<lparr>re_owner_zone_id := ''a'', re_owner_epoch := 1, re_route_version := 1, re_state := RouteStateActive,
     re_lease_expires_at := 100000\<rparr>"

definition theft_auth :: auth_table where
  "theft_auth = \<lparr>at_zone_id = ''a'', at_table = Some (1, \<lambda>i. theft_entry), at_draining = (\<lambda>i. False), at_draining_epoch = (\<lambda>i. 0)\<rparr>"

text \<open>The visitor entered at 0 and sent no heartbeat since.\<close>

definition theft_farm :: owner_farm where
  "theft_farm = \<lparr>of_actor = garden_actor\<lparr>ac_state := hoarder\<rparr>,
     of_visits = snd (Enter (\<lambda>e. True) (Some (replicate 16 3)) 7 8 ''g'' ''r'' 0 '''' fmempty), of_auth = theft_auth\<rparr>"

definition theft_world :: saga_world where
  "theft_world = \<lparr>sw_store = fmempty, sw_visitor = hoarder\<lparr>st_player_id := 8\<rparr>, sw_farm = theft_farm\<rparr>"

definition theft_route :: committed_route where
  "theft_route = \<lparr>cr_shard_id = ShardForPlayer 7, cr_owner_zone_id = ''a'', cr_owner_epoch = 1, cr_route_version = 1\<rparr>"

definition calls_at :: "int \<Rightarrow> fate \<Rightarrow> conditions" where
  "calls_at now f = \<lparr>cn_call = f, cn_update = Delivered, cn_now = now, cn_roll = 0, cn_route = Some theft_route, cn_second_route = None\<rparr>"

text \<open>An attempt in which call number \<open>lost\<close>, counted down from 31, loses its reply.\<close>

definition attempt_at :: "int \<Rightarrow> nat option \<Rightarrow> attempt" where
  "attempt_at now lost = \<lparr>at_get = Delivered, at_insert = Delivered, at_reload = Delivered, at_now = now,
     at_passes = (\<lambda>n. calls_at now (if lost = Some n then ReplyLost else Delivered))\<rparr>"

lemmas theft_defs = theft_request_def theft_farm_def theft_world_def calls_at_def attempt_at_def

lemma theft_untouched: "untouched_by theft_request (matured_at garden_plot 11000) 296 theft_world"
  by (simp add: untouched_by_def theft_defs owner_receipt_def visitor_receipt_def unreserved_def reservation_def stock_def career_room_def
      owner_state_def replay_owner_def findFriendReceipt_def map_simps careerOf_def)

lemma theft_valid: "steal_validate theft_request"
  by (simp add: steal_validate_def theft_request_def)

lemma theft_route_valid:
  assumes "now < 100000" shows "validateRoute (Some theft_route) 7 now theft_auth = None"
proof -
  have "ShardForPlayer 7 < ShardCount" by code_simp
  then show ?thesis using assms
    by (simp add: validateRoute_def Validate_def theft_route_def theft_auth_def theft_entry_def not_le [symmetric])
qed

lemma theft_lease: "ValidateVisitorAction 7 8 (replicate 16 3) now (of_visits theft_farm) = (if now < 90000 then None else Some VISIT_EXPIRED)"
  by (simp add: theft_farm_def ValidateVisitorAction_def ValidateVisit_def lookupLocked_def Enter_def Let_def visits_of_def no_visits_def
      VisitTTL_def gate_or_legacy_def visit_ws_error_def)

lemma theft_applies:
  obtains p d patch a where "ApplyStealOnOwner FC dev_config 0 7 1 8 (replicate 16 9) 1 2001 (replicate 16 5) 12000
    (garden_actor\<lparr>ac_state := hoarder\<rparr>) = (Inr (p, d, patch, False), a)"
proof -
  have "CanSteal (matured_at garden_plot 11000)" by (simp add: CanSteal_def matured_at_def)
  moreover have "pl_crop_item_id (matured_at garden_plot 11000) = 2001" "pl_steal_visitor_ids (matured_at garden_plot 11000) = []"
    by (simp_all add: matured_at_def)
  ultimately obtain p d s' where "apply_steal_turn FC dev_config 0 8 (replicate 16 9) 1 2001 (replicate 16 5) (replicate 16 5) 12000 hoarder
      = (Inr (p, d, False), s')"
    by (simp add: apply_steal_turn_def replay_owner_def findFriendReceipt_def Let_def case_prod_beta visitorAlreadyStole_def)
  then show thesis using that
    by (simp add: ApplyStealOnOwner_def epoch_error_def publish_result_def garden_actor_def case_prod_beta)
qed

lemma theft_owner_call:
  obtains x tips a where "ApplyVisitorAction FC dev_config True 0 ((steal_action theft_request)\<lparr>va_route := Some theft_route\<rparr>) 12000 theft_farm
    = (Inr x, tips, theft_farm\<lparr>of_actor := a\<rparr>)" "vx_error x = None" "st_owner_epoch (ac_state a) = 1"
proof -
  obtain p d patch a where a: "ApplyStealOnOwner FC dev_config 0 7 1 8 (replicate 16 9) 1 2001 (replicate 16 5) 12000
    (garden_actor\<lparr>ac_state := hoarder\<rparr>) = (Inr (p, d, patch, False), a)" by (rule theft_applies)
  have "st_owner_epoch (ac_state a) = 1" by (rule apply_steal_cases [OF a]) simp_all
  moreover have "of_auth theft_farm = theft_auth" "of_actor theft_farm = garden_actor\<lparr>ac_state := hoarder\<rparr>" "cr_owner_epoch theft_route = 1"
    by (simp_all add: theft_farm_def theft_route_def)
  ultimately show thesis using that a theft_route_valid [of 12000] theft_lease [of 12000]
    by (simp add: ApplyVisitorAction_def owner_switch_def steal_action_def theft_request_def)
qed

lemma theft_expired:
  assumes "90000 \<le> now" "now < 100000"
  shows "ApplyVisitorAction FC dev_config True 0 ((steal_action theft_request)\<lparr>va_route := Some theft_route\<rparr>) now (theft_farm\<lparr>of_actor := a\<rparr>)
    = (Inr (refused VISIT_EXPIRED), [], theft_farm\<lparr>of_actor := a\<rparr>)"
proof -
  have "of_auth theft_farm = theft_auth" by (simp add: theft_farm_def)
  then show ?thesis using theft_route_valid [of now] theft_lease [of now] assms
    by (simp add: ApplyVisitorAction_def steal_action_def theft_request_def)
qed


lemma advance_unfold: "0 < n \<Longrightarrow> advance FC steps cs now n r version w =
     (case saga_switch FC (steps (cs (n - 1))) r w of
        (Return res, w1) \<Rightarrow> (res, w1)
      | (Postpone, w1) \<Rightarrow> deferRetry (cn_update (cs (n - 1))) r version now w1
      | (Proceed r1, w1) \<Rightarrow>
          let r2 = r1\<lparr>in_retry_at_ms := 0, in_updated_at_ms := now\<rparr>
          in (case with_fate (cn_update (cs (n - 1))) ErrStoreUnavailable (Update r2 version) w1 of
                (Inl e, w2) \<Rightarrow> (Inl (StoreFailed e), w2)
              | (Inr v2, w2) \<Rightarrow> advance FC steps cs now (n - 1) r2 v2 w2))"
  by (induction n) (simp_all only: advance.simps diff_Suc_1 less_irrefl)

lemma theft_steps [simp]:
  "sg_reserve (steal_steps FC config enabled q (calls_at now Delivered)) w =
     (let (res, _, v) = ReserveSteal (sr_visitor_epoch q) (sr_interaction_id q) (sr_crop q) (sr_quantity q) now (sw_visitor w)
      in (res, w\<lparr>sw_visitor := v\<rparr>))"
  "sg_release (steal_steps FC config enabled q (calls_at now Delivered)) w =
     w\<lparr>sw_visitor := snd (ReleaseSteal (sr_visitor_epoch q) (sr_interaction_id q) now (sw_visitor w))\<rparr>"
  "cn_update (calls_at now f) = Delivered" "at_passes (attempt_at now lost) n = calls_at now (if lost = Some n then ReplyLost else Delivered)"
  "at_now (attempt_at now lost) = now" "at_get (attempt_at now lost) = Delivered" "at_insert (attempt_at now lost) = Delivered"
  by (simp_all add: steal_steps_def calls_at_def attempt_at_def with_fate_def on_visitor_def case_prod_beta)

lemma theft_first:
  obtains w r v where "ExecuteSteal FC dev_config True theft_request (attempt_at 12000 (Some 30)) theft_world = (Inl OutcomeUnknown, w)"
    "fmlookup (sw_store w) (replicate 16 9) = Some (r, v)" "in_status r = VISITOR_RESERVED" "in_interaction_id r = replicate 16 9"
    "\<exists>a. sw_farm w = theft_farm\<lparr>of_actor := a\<rparr> \<and> st_owner_epoch (ac_state a) = 1" "owner_receipt (replicate 16 9) w" "\<not> visitor_receipt (replicate 16 9) w"
    "st_owner_epoch (sw_visitor w) = 1"
proof -
  let ?q = theft_request and ?i = "replicate 16 9 :: bytes"
  obtain x tips a where a: "ApplyVisitorAction FC dev_config True 0 ((steal_action ?q)\<lparr>va_route := Some theft_route\<rparr>) 12000 theft_farm
    = (Inr x, tips, theft_farm\<lparr>of_actor := a\<rparr>)" "vx_error x = None" and epoch: "st_owner_epoch (ac_state a) = 1" by (rule theft_owner_call)
  obtain v where v: "ReserveSteal 1 ?i 2001 1 12000 (hoarder\<lparr>st_player_id := 8\<rparr>) = (Inr False, True, v)"
    "st_friend_receipts v = []" "st_owner_epoch v = 1"
    by (simp add: ReserveSteal_def epoch_error_def reserveSteal_def Let_def case_prod_beta reservedQuantityForItem_def map_simps
        bump_revision_def migrateFriendSchema_def)
  define r0 where "r0 = steal_record ?q 12000"
  have r0: "in_status r0 = INIT" "in_interaction_id r0 = ?i" by (simp_all add: r0_def steal_record_def theft_request_def)
  have q: "sr_visitor_epoch ?q = 1" "sr_interaction_id ?q = ?i" "sr_crop ?q = 2001" "sr_quantity ?q = 1" by (simp_all add: theft_request_def)
  define w1 where "w1 = \<lparr>sw_store = fmupd ?i (r0\<lparr>in_status := VISITOR_RESERVED, in_retry_at_ms := 0, in_updated_at_ms := 12000\<rparr>, 2) (fmupd ?i (r0, 1) fmempty),
      sw_visitor = v, sw_farm = theft_farm\<rparr>"
  have call: "sg_apply (steal_steps FC dev_config True ?q (calls_at 12000 ReplyLost)) w1 = (Inl RpcUnavailable, w1\<lparr>sw_farm := theft_farm\<lparr>of_actor := a\<rparr>\<rparr>)"
    using a by (simp add: steal_steps_def with_fate_def call_owner_def calls_at_def w1_def)
  have "steal_ledger FC ?q (matured_at garden_plot 11000) 296 theft_world"
    using theft_start [OF theft_untouched, of FC] by (simp add: theft_ok_def saga_inv_def)
  note effect = steal_call_effect [OF this, of dev_config True 0 "Some theft_route" 12000 "Inr x" tips "theft_farm\<lparr>of_actor := a\<rparr>"]
  have "sw_farm theft_world = theft_farm" by (simp add: theft_world_def)
  then have "owner_receipt ?i (theft_world\<lparr>sw_farm := theft_farm\<lparr>of_actor := a\<rparr>\<rparr>)"
    using effect a q by simp
  then have o: "owner_receipt ?i (w\<lparr>sw_farm := theft_farm\<lparr>of_actor := a\<rparr>\<rparr>)" for w by (simp add: owner_receipt_def owner_state_def)
  define r1 where "r1 = r0\<lparr>in_status := VISITOR_RESERVED, in_retry_at_ms := 0, in_updated_at_ms := 12000\<rparr>"
  define w2 where "w2 = w1\<lparr>sw_farm := theft_farm\<lparr>of_actor := a\<rparr>,
      sw_store := fmupd ?i (r1\<lparr>in_retry_at_ms := 42000, in_error_code := TransportError, in_updated_at_ms := 12000\<rparr>, 3) (sw_store w1)\<rparr>"
  let ?adv = "advance FC (steal_steps FC dev_config True ?q) (at_passes (attempt_at 12000 (Some 30))) 12000"
  have "createOrLoad r0 (attempt_at 12000 (Some 30)) theft_world = (Inr (r0, 1), theft_world\<lparr>sw_store := fmupd ?i (r0, 1) fmempty\<rparr>)"
    by (simp add: createOrLoad_def with_fate_def Get_def Insert_def r0 theft_world_def)
  then have "ExecuteSteal FC dev_config True ?q (attempt_at 12000 (Some 30)) theft_world =
      ?adv 32 r0 1 (theft_world\<lparr>sw_store := fmupd ?i (r0, 1) fmempty\<rparr>)"
    using theft_valid by (simp add: ExecuteSteal_def r0_def [symmetric] drive_def maxSagaSteps_def)
  also have "\<dots> = ?adv 31 r1 2 w1"
    using v(1) r0 q by (simp add: advance_unfold [of 32] saga_switch_def with_fate_def Update_def w1_def r1_def theft_world_def Let_def)
  also have "\<dots> = (Inl OutcomeUnknown, w2)"
    using call [unfolded w1_def] r0 by (simp add: advance_unfold [of 31] saga_switch_def r1_def deferRetry_def with_fate_def Update_def w1_def w2_def
        defaultRetryBackoff_def)
  finally have run: "ExecuteSteal FC dev_config True ?q (attempt_at 12000 (Some 30)) theft_world = (Inl OutcomeUnknown, w2)" .
  have "owner_receipt ?i w2" using o [of w2] by (simp add: w2_def owner_receipt_def owner_state_def)
  then show thesis
    by (intro that [OF run, of "r1\<lparr>in_retry_at_ms := 42000, in_error_code := TransportError, in_updated_at_ms := 12000\<rparr>" 3])
      (use v r0 epoch in \<open>auto simp: w2_def w1_def r1_def visitor_receipt_def findFriendReceipt_def\<close>)
qed

lemma theft_second:
  assumes "fmlookup (sw_store w) (replicate 16 9) = Some (r, v)" "in_status r = VISITOR_RESERVED" "in_interaction_id r = replicate 16 9"
    "sw_farm w = theft_farm\<lparr>of_actor := a\<rparr>" "st_owner_epoch (sw_visitor w) = 1"
  obtains w' r' v' where "ResumeSteal FC dev_config True theft_request (attempt_at 95000 None) w = (Inl (Aborted VISIT_EXPIRED), w')"
    "fmlookup (sw_store w') (replicate 16 9) = Some (r', v')" "in_status r' = ABORTED" "sw_farm w' = sw_farm w"
    "sw_visitor w' = snd (ReleaseSteal 1 (replicate 16 9) 95000 (sw_visitor w))"
proof -
  let ?q = theft_request and ?i = "replicate 16 9 :: bytes"
  let ?adv = "advance FC (steal_steps FC dev_config True ?q) (at_passes (attempt_at 95000 None)) 95000"
  have q: "sr_visitor_epoch ?q = 1" "sr_interaction_id ?q = ?i" by (simp_all add: theft_request_def)
  have call: "sg_apply (steal_steps FC dev_config True ?q (calls_at 95000 Delivered)) w = (Inr (refused VISIT_EXPIRED), w)"
    using theft_expired [of 95000] assms(4) by (simp add: steal_steps_def with_fate_def call_owner_def calls_at_def Let_def)
  define r1 where "r1 = r\<lparr>in_status := RELEASING, in_error_code := CodeName VISIT_EXPIRED, in_retry_at_ms := 0, in_updated_at_ms := 95000\<rparr>"
  define r2 where "r2 = r1\<lparr>in_status := ABORTED, in_retry_at_ms := 0, in_updated_at_ms := 95000\<rparr>"
  define w1 where "w1 = w\<lparr>sw_store := fmupd ?i (r1, v + 1) (sw_store w)\<rparr>"
  define w2 where "w2 = w1\<lparr>sw_visitor := snd (ReleaseSteal 1 ?i 95000 (sw_visitor w)), sw_store := fmupd ?i (r2, v + 1 + 1) (sw_store w1)\<rparr>"
  have "ResumeSteal FC dev_config True ?q (attempt_at 95000 None) w = ?adv 32 r v w"
    using theft_valid assms(1) q by (simp add: ResumeSteal_def load_record_def with_fate_def Get_def drive_def maxSagaSteps_def)
  also have "\<dots> = ?adv 31 r1 (v + 1) w1"
    using call assms(1-3) by (simp add: advance_unfold [of 32] saga_switch_def refused_def with_fate_def Update_def w1_def r1_def Let_def)
  also have "\<dots> = ?adv 30 r2 (v + 1 + 1) w2"
    using assms(3) q by (simp add: advance_unfold [of 31] saga_switch_def with_fate_def Update_def w1_def w2_def r1_def r2_def Let_def)
  also have "\<dots> = (Inl (Aborted VISIT_EXPIRED), w2)"
    by (simp add: advance_unfold [of 30] saga_switch_def r2_def r1_def parseErrorCode_def)
  finally show thesis by (rule that [of w2 r2 "v + 1 + 1"]) (simp_all add: w2_def w1_def r2_def)
qed

section \<open>Properties\<close>

text \<open>
  C2: visitor and owner agree about a theft. In every history of attempts, started, resumed and cut short
  anywhere, with any requests or replies lost, the visitor is never credited without the owner's plot having
  been debited, the visitor is credited at most once, the owner debited at most once, and a record that says
  COMPLETED has credited the visitor.
\<close>

theorem theft_agreement:
  assumes "untouched_by q p0 n0 w0" "steal_history FC q w0 w"
  shows "(visitor_receipt (sr_interaction_id q) w \<longrightarrow> owner_receipt (sr_interaction_id q) w) \<and>
    stock q w = (if visitor_receipt (sr_interaction_id q) w then n0 + sr_quantity q else n0) \<and>
    fmlookup (st_plots (owner_state w)) (sr_plot q) =
      Some (if owner_receipt (sr_interaction_id q) w then stolen_plot (sr_visitor q) p0 else p0) \<and>
    (\<forall>r v. fmlookup (sw_store w) (sr_interaction_id q) = Some (r, v) \<and> in_status r = COMPLETED \<longrightarrow>
      visitor_receipt (sr_interaction_id q) w)"
proof -
  have ok: "theft_ok FC q p0 n0 w" by (rule history_ok [OF assms(2) theft_start [OF assms(1)]])
  have "visitor_receipt (sr_interaction_id q) w" if "fmlookup (sw_store w) (sr_interaction_id q) = Some (r, v)" "in_status r = COMPLETED" for r v
    using ok that by (simp add: theft_ok_def saga_inv_def status_promise_def)
  then show ?thesis using ok by (auto simp: theft_ok_def saga_inv_def steal_ledger_def)
qed

theorem theft_agreement_witness:
  "\<forall>FC. \<exists>w. ExecuteSteal FC dev_config True theft_request (attempt_at 12000 (Some 30)) theft_world = (Inl OutcomeUnknown, w) \<and>
     owner_receipt (replicate 16 9) w \<and> \<not> visitor_receipt (replicate 16 9) w \<and> stock theft_request w = 296 \<and>
     fmlookup (st_plots (owner_state w)) 1 = Some (stolen_plot 8 (matured_at garden_plot 11000))"
proof
  fix FC
  obtain w r v where w: "ExecuteSteal FC dev_config True theft_request (attempt_at 12000 (Some 30)) theft_world = (Inl OutcomeUnknown, w)"
    "owner_receipt (replicate 16 9) w" "\<not> visitor_receipt (replicate 16 9) w" by (rule theft_first)
  have "ExecuteSteal FC dev_config True (theft_request\<lparr>sr_visitor_epoch := 1\<rparr>) (attempt_at 12000 (Some 30)) theft_world = (Inl OutcomeUnknown, w)"
    using w(1) by (simp add: theft_request_def)
  note h = steal_history.execute [OF steal_history.outset this]
  have "sr_interaction_id theft_request = replicate 16 9" "sr_plot theft_request = 1" "sr_visitor theft_request = 8"
    by (simp_all add: theft_request_def)
  then show "\<exists>w. ExecuteSteal FC dev_config True theft_request (attempt_at 12000 (Some 30)) theft_world = (Inl OutcomeUnknown, w) \<and>
     owner_receipt (replicate 16 9) w \<and> \<not> visitor_receipt (replicate 16 9) w \<and> stock theft_request w = 296 \<and>
     fmlookup (st_plots (owner_state w)) 1 = Some (stolen_plot 8 (matured_at garden_plot 11000))"
    using theft_agreement [OF theft_untouched h] w by auto
qed


text \<open>
  C13: a theft that gets through ends. From any moment of such a history, resuming with calls that are delivered,
  to the actor that owns the farm, under the epochs both players are at, finishes the record: it answers with
  the result or with the refusal, and the stored status is COMPLETED or ABORTED.
\<close>

theorem theft_finishes:
  assumes "untouched_by q p0 n0 w0" "steal_history FC q w0 w" "friend_codec_ok FC"
    "fmlookup (sw_store w) (sr_interaction_id q) = Some (r, v)" "in_status r \<noteq> SAGA_UNSPECIFIED"
    "at_get a = Delivered" "\<And>k. steal_friendly q (at_passes a k) w" "ResumeSteal FC config enabled q a w = (res, w')"
  shows "((\<exists>x. res = Inr x) \<or> (\<exists>e. res = Inl (Aborted e))) \<and>
    (\<exists>r' v'. fmlookup (sw_store w') (sr_interaction_id q) = Some (r', v') \<and> isTerminalInteractionStatus (in_status r'))"
proof -
  have ok: "theft_ok FC q p0 n0 w" by (rule history_ok [OF assms(2) theft_start [OF assms(1)]])
  have val: "steal_validate q" using assms(7) [of 0] by (simp add: steal_friendly_def)
  have "passes_left (in_status r) \<le> maxSagaSteps" by (cases "in_status r") (simp_all add: maxSagaSteps_def)
  moreover have "advance FC (steal_steps FC config enabled q) (at_passes a) (at_now a) maxSagaSteps r v w = (res, w')"
    using assms(4,6,8) val by (simp add: ResumeSteal_def load_record_def with_fate_def Get_def drive_def)
  ultimately show ?thesis
    using ok assms(3-5,7) by (intro live_steal.advance_finishes [where ?p0.0 = p0 and ?n0.0 = n0]) (simp_all add: theft_ok_def saga_inv_def)
qed

theorem theft_finishes_witness:
  "\<exists>w res w' r v. ExecuteSteal ref_friend_codec dev_config True theft_request (attempt_at 12000 (Some 30)) theft_world = (Inl OutcomeUnknown, w) \<and>
     ResumeSteal ref_friend_codec dev_config True theft_request (attempt_at 13000 None) w = (res, w') \<and>
     ((\<exists>x. res = Inr x) \<or> (\<exists>e. res = Inl (Aborted e))) \<and>
     fmlookup (sw_store w') (replicate 16 9) = Some (r, v) \<and> isTerminalInteractionStatus (in_status r)"
proof -
  let ?q = theft_request and ?i = "replicate 16 9 :: bytes" and ?FC = ref_friend_codec
  have q: "sr_interaction_id ?q = ?i" "sr_owner ?q = 7" "sr_visitor_epoch ?q = 1" by (simp_all add: theft_request_def)
  obtain w r v where w: "ExecuteSteal ?FC dev_config True ?q (attempt_at 12000 (Some 30)) theft_world = (Inl OutcomeUnknown, w)"
    "fmlookup (sw_store w) ?i = Some (r, v)" "in_status r = VISITOR_RESERVED" "in_interaction_id r = ?i"
    "\<exists>a. sw_farm w = theft_farm\<lparr>of_actor := a\<rparr> \<and> st_owner_epoch (ac_state a) = 1" "owner_receipt ?i w" "\<not> visitor_receipt ?i w"
    "st_owner_epoch (sw_visitor w) = 1"
    by (rule theft_first)
  have "ExecuteSteal ?FC dev_config True (?q\<lparr>sr_visitor_epoch := 1\<rparr>) (attempt_at 12000 (Some 30)) theft_world = (Inl OutcomeUnknown, w)"
    using w(1) by (simp add: theft_request_def)
  note h = steal_history.execute [OF steal_history.outset this]
  have "of_auth (sw_farm w) = theft_auth" "st_owner_epoch (owner_state w) = 1" using w(5) by (auto simp: theft_farm_def owner_state_def)
  then have f: "steal_friendly ?q (at_passes (attempt_at 13000 None) k) w" for k
    using q w(8) theft_valid theft_route_valid [of 13000] by (simp add: steal_friendly_def calls_at_def) (simp add: theft_route_def)
  obtain res w' where w': "ResumeSteal ?FC dev_config True ?q (attempt_at 13000 None) w = (res, w')" by fastforce
  show ?thesis
    using theft_finishes [OF theft_untouched h ref_friend_codec_ok _ _ _ f w', of r v] w(1-3) w' q(1) by auto
qed

text \<open>
  C28: a crop can be lost. The owner's farm is debited, its answer is lost, and by the time of the retry the visit
  has expired: the retry is refused before the owner's receipt is consulted, the record is ABORTED, the owner's
  plot stays debited, and the visitor has no crop and no receipt.
\<close>

theorem theft_loses_crop:
  "\<forall>FC. \<exists>w w' r v. ExecuteSteal FC dev_config True theft_request (attempt_at 12000 (Some 30)) theft_world = (Inl OutcomeUnknown, w) \<and>
     ResumeSteal FC dev_config True theft_request (attempt_at 95000 None) w = (Inl (Aborted VISIT_EXPIRED), w') \<and>
     fmlookup (sw_store w') (sr_interaction_id theft_request) = Some (r, v) \<and> in_status r = ABORTED \<and>
     fmlookup (st_plots (owner_state w')) 1 = Some (stolen_plot 8 (matured_at garden_plot 11000)) \<and>
     stock theft_request w' = stock theft_request theft_world \<and> \<not> visitor_receipt (sr_interaction_id theft_request) w'"
proof
  fix FC
  let ?q = theft_request and ?i = "replicate 16 9 :: bytes"
  have q: "sr_interaction_id ?q = ?i" "sr_plot ?q = 1" "sr_visitor ?q = 8" by (simp_all add: theft_request_def)
  obtain w r v where w: "ExecuteSteal FC dev_config True ?q (attempt_at 12000 (Some 30)) theft_world = (Inl OutcomeUnknown, w)"
    "fmlookup (sw_store w) ?i = Some (r, v)" "in_status r = VISITOR_RESERVED" "in_interaction_id r = ?i"
    "\<exists>a. sw_farm w = theft_farm\<lparr>of_actor := a\<rparr> \<and> st_owner_epoch (ac_state a) = 1" "owner_receipt ?i w" "\<not> visitor_receipt ?i w" "st_owner_epoch (sw_visitor w) = 1"
    by (rule theft_first)
  then obtain a where a: "sw_farm w = theft_farm\<lparr>of_actor := a\<rparr>" by blast
  obtain w' r' v' where w': "ResumeSteal FC dev_config True ?q (attempt_at 95000 None) w = (Inl (Aborted VISIT_EXPIRED), w')"
    "fmlookup (sw_store w') ?i = Some (r', v')" "in_status r' = ABORTED" "sw_farm w' = sw_farm w"
    "sw_visitor w' = snd (ReleaseSteal 1 ?i 95000 (sw_visitor w))"
    by (rule theft_second [OF w(2-4) a w(8)])
  have "theft_ok FC ?q (matured_at garden_plot 11000) 296 w"
    by (rule attempt_ok(1) [OF theft_start [OF theft_untouched]]) (use w(1) in blast)
  then have "theft_ok FC ?q (matured_at garden_plot 11000) 296 w'"
    by (rule attempt_ok(1)) (use w'(1) in blast)
  moreover have "owner_receipt ?i w'" using w(6) w'(4) by (simp add: owner_receipt_def owner_state_def)
  moreover have "\<not> visitor_receipt ?i w'"
    using w(7) w'(5) by (auto simp: visitor_receipt_def ReleaseSteal_def split: option.splits if_splits)
  ultimately have "fmlookup (st_plots (owner_state w')) 1 = Some (stolen_plot 8 (matured_at garden_plot 11000))" "stock ?q w' = 296"
    "\<not> visitor_receipt ?i w'" using q by (simp_all add: theft_ok_def saga_inv_def steal_ledger_def)
  moreover have "stock ?q theft_world = 296" using theft_untouched by (simp add: untouched_by_def)
  ultimately show "\<exists>w w' r v. ExecuteSteal FC dev_config True ?q (attempt_at 12000 (Some 30)) theft_world = (Inl OutcomeUnknown, w) \<and>
     ResumeSteal FC dev_config True ?q (attempt_at 95000 None) w = (Inl (Aborted VISIT_EXPIRED), w') \<and>
     fmlookup (sw_store w') (sr_interaction_id ?q) = Some (r, v) \<and> in_status r = ABORTED \<and>
     fmlookup (st_plots (owner_state w')) 1 = Some (stolen_plot 8 (matured_at garden_plot 11000)) \<and>
     stock ?q w' = stock ?q theft_world \<and> \<not> visitor_receipt (sr_interaction_id ?q) w'"
    using w(1) w'(1-3) q(1) by (intro exI [of _ w] exI [of _ w'] exI [of _ r'] exI [of _ v']) simp
qed

end
