(* ===== verification/Friend_Direct.thy ===== *)
theory Friend_Direct
  imports Saga_Agreement
begin

text \<open>
  Friend actions as the Zone runs them (\<open>ExecuteFriendAction\<close> and \<open>executeFriendActionDirect\<close> of
  \<open>cmd/zone/friend_rpc.go\<close>): one call on the owner's farm, then the side effect on the visitor, without a
  stored record. The visitor's mailbox is free while the owner is called (\<open>AwaitFriendOwnerCall\<close>): what the
  visitor does meanwhile is the argument \<open>meanwhile\<close>. Dependencies of the server are wired.
\<close>

section \<open>Requests\<close>

record friend_request =
  fx_caller :: u64
  fx_owner :: u64
  fx_visit_id :: bytes
  fx_gate_id :: string
  fx_request_id :: string
  fx_action :: friend_action
  fx_plot :: u32
  fx_pest :: "u32 option"
  fx_crop :: u32
  fx_view_epoch :: bytes

definition ParseInteractionID :: "string \<Rightarrow> bytes option" where
  "ParseInteractionID requestID =
     (let compact = filter (\<lambda>c. c \<noteq> CHR ''-'') requestID
      in if length compact \<noteq> 32 then None else hex_decode compact)"

definition authorizeCaller :: "string \<Rightarrow> auth_table \<Rightarrow> u64 \<Rightarrow> rpc_code option" where
  "authorizeCaller ownZoneID T caller = (case auth_Entry (ShardForPlayer caller) T of
       None \<Rightarrow> Some RpcFailedPrecondition
     | Some entry \<Rightarrow> if re_owner_zone_id entry \<noteq> ownZoneID \<or> re_state entry \<noteq> RouteStateActive
                      then Some RpcFailedPrecondition else None)"

definition direct_action :: "friend_request \<Rightarrow> bytes \<Rightarrow> visitor_action" where
  "direct_action q interactionID = \<lparr>va_route = None, va_owner = fx_owner q, va_visitor = fx_caller q, va_visit_id = fx_visit_id q,
     va_interaction_id = interactionID, va_action = fx_action q, va_plot = fx_plot q, va_pest = fx_pest q, va_crop = fx_crop q,
     va_view_epoch = fx_view_epoch q\<rparr>"

text \<open>The answer: the visitor's own result, completed by the guard and the patch of the owner's answer.\<close>

fun direct_answer :: "friend_codec \<Rightarrow> bytes \<Rightarrow> bytes \<Rightarrow> farm_view_patch option \<Rightarrow> friend_response \<Rightarrow> friend_response" where
  "direct_answer FC interactionID ownerPayload patch (FriendActionResponse i visitorPatch _ guard) =
     FriendActionResponse (if i = [] then interactionID else i) visitorPatch patch
       (if ownerPayload \<noteq> [] \<and> guard = None
        then Option.bind (unmarshal_friend FC ownerPayload) fa_steal_guard else guard)"

definition not_owner_code :: "friend_error \<Rightarrow> rpc_code" where
  "not_owner_code e = (if e = FriendNotOwner then RpcFailedPrecondition else RpcInternal)"

definition AwaitFriendOwnerCall ::
  "u64 \<Rightarrow> u64 \<Rightarrow> (saga_world \<Rightarrow> (rpc_code + 'a) \<times> saga_world) \<Rightarrow> (state \<Rightarrow> state) \<Rightarrow> saga_world \<Rightarrow> (rpc_code + 'a) \<times> saga_world" where
  "AwaitFriendOwnerCall visitorID ownerEpoch call meanwhile w =
     (if visitorID = 0 \<or> ownerEpoch = 0 then (Inl RpcInternal, w)
      else case epoch_error ownerEpoch (sw_visitor w) of
        Some e \<Rightarrow> (Inl (not_owner_code e), w)
      | None \<Rightarrow>
          (case call w of
             (Inl _, w1) \<Rightarrow> (Inl RpcInternal, w1\<lparr>sw_visitor := meanwhile (sw_visitor w1)\<rparr>)
           | (Inr x, w1) \<Rightarrow> (Inr x, w1\<lparr>sw_visitor := meanwhile (sw_visitor w1)\<rparr>)))"

text \<open>\<open>Inr (Inl code)\<close> is a refusal inside an answer; \<open>c\<close> and \<open>roll\<close> are the circumstances and the dice of this attempt.\<close>

definition executeFriendActionDirect ::
  "friend_codec \<Rightarrow> config_snapshot \<Rightarrow> bool \<Rightarrow> auth_table \<Rightarrow> conditions \<Rightarrow> nat \<Rightarrow> int \<Rightarrow> (state \<Rightarrow> state) \<Rightarrow> friend_request \<Rightarrow> bytes \<Rightarrow>
   saga_world \<Rightarrow> (rpc_code + error_code + friend_response) \<times> saga_world" where
  "executeFriendActionDirect FC config enabled T c roll now meanwhile q interactionID w =
     (case auth_Entry (ShardForPlayer (fx_caller q)) T of
        None \<Rightarrow> (Inl RpcUnavailable, w)
      | Some entry \<Rightarrow>
          (case AwaitFriendOwnerCall (fx_caller q) (re_owner_epoch entry)
                  (with_fate (cn_call c) RpcUnavailable (call_owner FC config enabled c (direct_action q interactionID))) meanwhile w of
             (Inl e, w1) \<Rightarrow> (Inl e, w1)
           | (Inr response, w1) \<Rightarrow>
               (case vx_error response of
                  Some code \<Rightarrow> (Inr (Inl code), w1)
                | None \<Rightarrow>
                    (case ApplyVisitorFriendSideEffect FC roll (fx_caller q) (re_owner_epoch entry) interactionID (fx_action q)
                            (vx_payload response) now (sw_visitor w1) of
                       (Inl e, v) \<Rightarrow> (Inl (not_owner_code e), w1\<lparr>sw_visitor := v\<rparr>)
                     | (Inr (result, _), v) \<Rightarrow>
                         (Inr (Inr (direct_answer FC interactionID (vx_payload response) (vx_patch response) result)),
                          w1\<lparr>sw_visitor := v\<rparr>)))))"

definition ExecuteFriendAction ::
  "friend_codec \<Rightarrow> config_snapshot \<Rightarrow> bool \<Rightarrow> string \<Rightarrow> auth_table \<Rightarrow> conditions \<Rightarrow> nat \<Rightarrow> int \<Rightarrow> (state \<Rightarrow> state) \<Rightarrow> friend_request \<Rightarrow>
   saga_world \<Rightarrow> (rpc_code + error_code + friend_response) \<times> saga_world" where
  "ExecuteFriendAction FC config enabled ownZoneID T c roll now meanwhile q w =
     (if fx_caller q = 0 \<or> fx_owner q = 0 \<or> length (fx_visit_id q) \<noteq> 16 \<or> fx_gate_id q = [] \<or> fx_request_id q = [] \<or> fx_plot q = 0
      then (Inl RpcInvalidArgument, w)
      else if fx_action q = FRIEND_ACTION_UNSPECIFIED then (Inr (Inl UNKNOWN_ACTION), w)
      else if fx_action q = APPLY_PEST_TO_FRIEND \<and> (fx_pest q = None \<or> fx_pest q = Some 0) then (Inl RpcInvalidArgument, w)
      else if fx_action q = STEAL_FRIEND_CROP \<and> (fx_crop q = 0 \<or> length (fx_view_epoch q) \<noteq> 16) then (Inl RpcInvalidArgument, w)
      else case authorizeCaller ownZoneID T (fx_caller q) of
        Some e \<Rightarrow> (Inl e, w)
      | None \<Rightarrow>
          (case ParseInteractionID (fx_request_id q) of
             None \<Rightarrow> (Inl RpcInvalidArgument, w)
           | Some interactionID \<Rightarrow> executeFriendActionDirect FC config enabled T c roll now meanwhile q interactionID w))"

section \<open>Repeating an owner action\<close>

lemma publish_applied:
  assumes "publish_result owner plot (turn i now (ac_state a)) a = (Inr (p, d, patch, b), a')"
    "owner_action (turn :: bytes \<Rightarrow> int \<Rightarrow> state \<Rightarrow> owner_result) plot'"
  shows "replay_owner i (ac_state a') = Some (p, d, True)"
proof -
  obtain s' where t: "turn i now (ac_state a) = (Inr (p, d, b), s')" and s: "ac_state a' = s'"
    using assms(1) by (auto simp: publish_result_def publishFarmViewChanges_def Let_def split: sum.splits prod.splits if_splits)
  show ?thesis
  proof (cases "replay_owner i (ac_state a)")
    case (Some r)
    then show ?thesis using t s owner_action.replays [OF assms(2), of i "ac_state a" r now] by (auto simp: replay_owner_def)
  next
    case None
    obtain r where "st_friend_receipts s' = st_friend_receipts (ac_state a) @ [r]" "rc_role r = RECEIPT_OWNER"
      "rc_interaction_id r = i" "rc_result_payload r = p" "rc_result_digest r = d"
      using owner_action.applies [OF assms(2) None t] by blast
    then show ?thesis using None s by (simp add: replay_owner_def findFriendReceipt_def find_append)
  qed
qed

lemma owner_switch_applied:
  assumes "owner_switch FC config roll epoch q now a = (Inr (p, d, patch, b), a')"
  shows "replay_owner (va_interaction_id q) (ac_state a') = Some (p, d, True)"
proof (cases "va_action q")
  case STEAL_FRIEND_CROP
  then show ?thesis
    using assms publish_applied [OF _ steal_action.owner_action_axioms]
    by (auto simp: owner_switch_def ApplyStealOnOwner_def split: if_splits option.splits)
next
  case APPLY_PEST_TO_FRIEND
  then show ?thesis
    using assms publish_applied [OF _ pest_action.owner_action_axioms]
    by (auto simp: owner_switch_def ApplyApplyPestOnOwner_def split: if_splits option.splits)
next
  case CATCH_PEST_FOR_FRIEND
  then show ?thesis
    using assms publish_applied [OF _ catch_action.owner_action_axioms]
    by (auto simp: owner_switch_def ApplyCatchPestOnOwner_def owner_frame_def split: if_splits option.splits)
qed (use assms publish_applied [OF _ clean_action.owner_action_axioms] in
  \<open>auto simp: owner_switch_def ApplyHelpCleanOnOwner_def owner_frame_def split: if_splits option.splits\<close>)

lemma owner_switch_replays:
  assumes "owner_switch FC config roll epoch q now a = (Inr x, a')" "replay_owner (va_interaction_id q) (ac_state a2) = Some (p, d, True)"
    "st_owner_epoch (ac_state a2) = epoch2" "epoch2 \<noteq> 0"
  shows "owner_switch FC config roll2 epoch2 q now2 a2 = (Inr (p, d, None, True), a2)"
proof (cases "va_action q")
  case STEAL_FRIEND_CROP
  then show ?thesis using assms
    by (auto simp: owner_switch_def ApplyStealOnOwner_def epoch_error_def publish_result_def steal_action.replays split: if_splits)
next
  case APPLY_PEST_TO_FRIEND
  then show ?thesis using assms
    by (auto simp: owner_switch_def ApplyApplyPestOnOwner_def epoch_error_def publish_result_def pest_action.replays split: if_splits option.splits)
next
  case CATCH_PEST_FOR_FRIEND
  then show ?thesis using assms
    by (auto simp: owner_switch_def ApplyCatchPestOnOwner_def owner_frame_def epoch_error_def publish_result_def catch_action.replays split: if_splits)
qed (use assms in \<open>auto simp: owner_switch_def ApplyHelpCleanOnOwner_def owner_frame_def epoch_error_def publish_result_def
  clean_action.replays split: if_splits\<close>)

section \<open>Repeating the call on the owner\<close>

lemma owner_switch_route [simp]: "owner_switch FC config roll epoch (q\<lparr>va_route := r\<rparr>) now a = owner_switch FC config roll epoch q now a"
  by (simp add: owner_switch_def va_pest_id_def split: friend_action.splits)

definition action_checked :: "bool \<Rightarrow> visitor_action \<Rightarrow> bool" where
  "action_checked enabled q \<longleftrightarrow> va_owner q \<noteq> 0 \<and> va_visitor q \<noteq> 0 \<and> length (va_visit_id q) = 16 \<and> length (va_interaction_id q) = 16 \<and>
     va_action q \<noteq> FRIEND_ACTION_UNSPECIFIED \<and> (va_action q = STEAL_FRIEND_CROP \<or> enabled) \<and>
     (va_action q = APPLY_PEST_TO_FRIEND \<longrightarrow> va_pest_id q \<noteq> 0) \<and> va_plot q \<noteq> 0"

lemma va_pest_route [simp]: "va_pest_id (q\<lparr>va_route := r\<rparr>) = va_pest_id q"
  by (simp add: va_pest_id_def)

lemma ApplyVisitorAction_applied:
  assumes "ApplyVisitorAction FC config enabled roll (q\<lparr>va_route := Some route\<rparr>) now f = (Inr x, tips, f')" "vx_error x = None"
  obtains b a' where "owner_switch FC config roll (cr_owner_epoch route) q now (of_actor f) = (Inr (vx_payload x, vx_digest x, vx_patch x, b), a')"
    "f' = f\<lparr>of_actor := a'\<rparr>" "action_checked enabled q"
proof -
  obtain r a' where r: "owner_switch FC config roll (cr_owner_epoch route) q now (of_actor f) = (r, a')" by fastforce
  show thesis using assms r that
    by (cases r) (auto simp: ApplyVisitorAction_def refused_def action_checked_def split: if_splits option.splits)
qed

definition reaches :: "visitor_action \<Rightarrow> conditions \<Rightarrow> saga_world \<Rightarrow> bool" where
  "reaches q c w \<longleftrightarrow> cn_call c = Delivered \<and> ValidateVisitorAction (va_owner q) (va_visitor q) (va_visit_id q) (cn_now c) (of_visits (sw_farm w)) = None \<and>
     (\<exists>route. cn_route c = Some route \<and> cr_owner_epoch route = st_owner_epoch (owner_state w) \<and>
        validateRoute (Some route) (va_owner q) (cn_now c) (of_auth (sw_farm w)) = None)"

lemma call_owner_applied:
  assumes "call_owner FC config enabled c q w = (Inr x, w')" "vx_error x = None"
  obtains roll epoch now a b a' where "owner_switch FC config roll epoch q now a = (Inr (vx_payload x, vx_digest x, vx_patch x, b), a')"
    "of_actor (sw_farm w') = a'" "action_checked enabled q"
proof -
  obtain route f tips f' where "ApplyVisitorAction FC config enabled (cn_roll c) (q\<lparr>va_route := Some route\<rparr>) (cn_now c) f = (Inr x, tips, f')"
    "sw_farm w' = f'"
    using assms(1) by (fastforce simp: call_owner_def Let_def split: option.splits prod.splits sum.splits rpc_code.splits)
  then show thesis using that by (auto elim: ApplyVisitorAction_applied [OF _ assms(2)])
qed

lemma call_owner_replays:
  assumes "owner_switch FC config roll epoch q now a = (Inr y, a')" "action_checked enabled q" "reaches q c w"
    "replay_owner (va_interaction_id q) (owner_state w) = Some (p, d, True)"
  shows "call_owner FC config enabled c q w = (Inr \<lparr>vx_error = None, vx_digest = d, vx_payload = p, vx_patch = None\<rparr>, w)"
proof -
  obtain route where r: "cn_route c = Some route" "cr_owner_epoch route = st_owner_epoch (owner_state w)"
    "validateRoute (Some route) (va_owner q) (cn_now c) (of_auth (sw_farm w)) = None"
    and v: "ValidateVisitorAction (va_owner q) (va_visitor q) (va_visit_id q) (cn_now c) (of_visits (sw_farm w)) = None"
    using assms(3) by (auto simp: reaches_def)
  have "cr_owner_epoch route \<noteq> 0" using r(3) by (auto simp: validateRoute_def split: if_splits)
  then have "owner_switch FC config (cn_roll c) (cr_owner_epoch route) q (cn_now c) (of_actor (sw_farm w)) =
      (Inr (p, d, None, True), of_actor (sw_farm w))"
    using assms(4) r(2) by (intro owner_switch_replays [OF assms(1)]) (simp_all add: owner_state_def)
  then show ?thesis using r v assms(2) by (auto simp: call_owner_def Let_def ApplyVisitorAction_def action_checked_def)
qed

section \<open>Repeating the side effect\<close>

lemma side_effect_receipt:
  assumes "friend_codec_ok FC" "ApplyVisitorFriendSideEffect FC roll visitor epoch i action payload now v = (Inr (result, b), v')"
  obtains e where "findFriendReceipt (st_friend_receipts v') i RECEIPT_VISITOR = Some e" "unmarshal_friend FC (rc_result_payload e) = Some result"
proof -
  have t: "side_effect_turn FC roll i action payload now v = (Inr (result, b), v')"
    using assms(2) by (auto simp: ApplyVisitorFriendSideEffect_def split: if_splits option.splits)
  show thesis
  proof (cases "findFriendReceipt (st_friend_receipts v) i RECEIPT_VISITOR")
    case (Some e)
    then show thesis using t that by (auto simp: side_effect_turn_def split: option.splits)
  next
    case None
    define r where "r = \<lparr>rc_interaction_id = i, rc_role = RECEIPT_VISITOR, rc_action = action, rc_status = RECEIPT_COMMITTED,
      rc_result_digest = sha256 (marshal_friend FC result), rc_result_payload = marshal_friend FC result, rc_committed_at_ms = now\<rparr>"
    have "st_friend_receipts v' = st_friend_receipts v @ [r]"
      using t None by (auto simp: side_effect_turn_def Let_def case_prod_beta add_receipt_def advance_state_def r_def incrementApplyPestTask_def
          split: if_splits option.splits)
    then have "findFriendReceipt (st_friend_receipts v') i RECEIPT_VISITOR = Some r"
      using None by (simp add: findFriendReceipt_def find_append r_def)
    then show thesis using that assms(1) by (simp add: r_def friend_codec_ok_def)
  qed
qed

lemma side_effect_replays:
  assumes "findFriendReceipt (st_friend_receipts v) i RECEIPT_VISITOR = Some e" "unmarshal_friend FC (rc_result_payload e) = Some result"
    "st_owner_epoch v = epoch" "epoch \<noteq> 0" "length i = 16" "visitor \<noteq> 0" "action \<noteq> FRIEND_ACTION_UNSPECIFIED"
  shows "ApplyVisitorFriendSideEffect FC roll visitor epoch i action payload now v = (Inr (result, True), v)"
  using assms by (simp add: ApplyVisitorFriendSideEffect_def side_effect_turn_def epoch_error_def)

lemma direct_action_fields [simp]:
  "va_owner (direct_action q i) = fx_owner q" "va_visitor (direct_action q i) = fx_caller q" "va_visit_id (direct_action q i) = fx_visit_id q"
  "va_interaction_id (direct_action q i) = i" "va_action (direct_action q i) = fx_action q"
  by (simp_all add: direct_action_def)

lemma direct_answered:
  assumes "friend_codec_ok FC" "executeFriendActionDirect FC config enabled T c roll now meanwhile q i w = (Inr (Inr x), w1)"
  obtains r :: visitor_action_response and result e roll' epoch now' a b a' where
    "owner_switch FC config roll' epoch (direct_action q i) now' a = (Inr (vx_payload r, vx_digest r, vx_patch r, b), a')"
    "action_checked enabled (direct_action q i)" "replay_owner i (owner_state w1) = Some (vx_payload r, vx_digest r, True)"
    "findFriendReceipt (st_friend_receipts (sw_visitor w1)) i RECEIPT_VISITOR = Some e" "unmarshal_friend FC (rc_result_payload e) = Some result"
    "x = direct_answer FC i (vx_payload r) (vx_patch r) result"
proof -
  note D = assms(2) [unfolded executeFriendActionDirect_def AwaitFriendOwnerCall_def]
  obtain entry where t: "auth_Entry (ShardForPlayer (fx_caller q)) T = Some entry" using D by (auto split: option.splits)
  obtain y w' where y: "with_fate (cn_call c) RpcUnavailable (call_owner FC config enabled c (direct_action q i)) w = (y, w')" by fastforce
  obtain r where r: "y = Inr r" "vx_error r = None" using D t y by (cases y) (auto split: option.splits if_splits)
  obtain z v where z: "ApplyVisitorFriendSideEffect FC roll (fx_caller q) (re_owner_epoch entry) i (fx_action q) (vx_payload r) now
      (meanwhile (sw_visitor w')) = (z, v)" by fastforce
  obtain result b0 where "z = Inr (result, b0)" "x = direct_answer FC i (vx_payload r) (vx_patch r) result" "w1 = w'\<lparr>sw_visitor := v\<rparr>"
    using D t y r z by (cases z) (auto split: option.splits if_splits)
  then have s: "with_fate (cn_call c) RpcUnavailable (call_owner FC config enabled c (direct_action q i)) w = (Inr r, w')" "vx_error r = None"
    "ApplyVisitorFriendSideEffect FC roll (fx_caller q) (re_owner_epoch entry) i (fx_action q) (vx_payload r) now (meanwhile (sw_visitor w')) =
       (Inr (result, b0), v)"
    "x = direct_answer FC i (vx_payload r) (vx_patch r) result" "sw_farm w1 = sw_farm w'" "sw_visitor w1 = v"
    using y r z by simp_all
  have "call_owner FC config enabled c (direct_action q i) w = (Inr r, w')" using s(1) by (simp add: with_fate_def split: fate.splits)
  then obtain roll' epoch now' a b a' where o:
    "owner_switch FC config roll' epoch (direct_action q i) now' a = (Inr (vx_payload r, vx_digest r, vx_patch r, b), a')"
    "of_actor (sw_farm w') = a'" "action_checked enabled (direct_action q i)" by (rule call_owner_applied [OF _ s(2)])
  obtain e where "findFriendReceipt (st_friend_receipts v) i RECEIPT_VISITOR = Some e" "unmarshal_friend FC (rc_result_payload e) = Some result"
    by (rule side_effect_receipt [OF assms(1) s(3)])
  then show thesis using that [OF o(1,3)] owner_switch_applied [OF o(1)] o(2) s by (simp add: owner_state_def)
qed

definition without_patch :: "friend_response \<Rightarrow> friend_response" where
  "without_patch x = FriendActionResponse (fa_interaction_id x) (fa_visitor_patch x) None (fa_steal_guard x)"

lemma answer_without_patch: "direct_answer FC i p None result = without_patch (direct_answer FC i p patch result)"
  by (cases result) (simp add: without_patch_def)

section \<open>A sample action\<close>

definition direct_request :: friend_request where
  "direct_request = \<lparr>fx_caller = 8, fx_owner = 7, fx_visit_id = replicate 16 3, fx_gate_id = ''g'',
     fx_request_id = ''09090909-0909-0909-0909-090909090909'', fx_action = STEAL_FRIEND_CROP, fx_plot = 1, fx_pest = None, fx_crop = 2001,
     fx_view_epoch = replicate 16 5\<rparr>"

lemma direct_id: "ParseInteractionID (fx_request_id direct_request) = Some (replicate 16 9)"
  by code_simp

lemma thief_entry: "auth_Entry (ShardForPlayer 8) theft_auth = Some theft_entry" "authorizeCaller ''a'' theft_auth 8 = None"
proof -
  have "ShardForPlayer 8 < ShardCount" by code_simp
  then show "auth_Entry (ShardForPlayer 8) theft_auth = Some theft_entry" by (simp add: auth_Entry_def theft_auth_def)
  then show "authorizeCaller ''a'' theft_auth 8 = None" by (simp add: authorizeCaller_def theft_entry_def)
qed

lemma direct_first:
  obtains x w where "ExecuteFriendAction FC dev_config True ''a'' theft_auth (calls_at 12000 Delivered) 0 12000 id direct_request theft_world
      = (Inr (Inr x), w)" "\<exists>a. sw_farm w = theft_farm\<lparr>of_actor := a\<rparr> \<and> st_owner_epoch (ac_state a) = 1" "st_owner_epoch (sw_visitor w) = 1"
proof -
  let ?i = "replicate 16 9 :: bytes" and ?c = "calls_at 12000 Delivered"
  obtain x tips a where a: "ApplyVisitorAction FC dev_config True 0 ((steal_action theft_request)\<lparr>va_route := Some theft_route\<rparr>) 12000 theft_farm
    = (Inr x, tips, theft_farm\<lparr>of_actor := a\<rparr>)" "vx_error x = None" "st_owner_epoch (ac_state a) = 1" by (rule theft_owner_call)
  let ?w = "theft_world\<lparr>sw_farm := theft_farm\<lparr>of_actor := a\<rparr>\<rparr>"
  have act: "direct_action direct_request ?i = steal_action theft_request" by (simp add: direct_request_def direct_action_def steal_action_def theft_request_def)
  have call: "with_fate (cn_call ?c) RpcUnavailable (call_owner FC dev_config True ?c (direct_action direct_request ?i)) theft_world = (Inr x, ?w)"
    using a by (simp add: act with_fate_def call_owner_def calls_at_def theft_world_def)
  have v: "sw_visitor theft_world = hoarder\<lparr>st_player_id := 8\<rparr>" by (simp add: theft_world_def)
  obtain result v' where side: "ApplyVisitorFriendSideEffect FC 0 8 1 ?i STEAL_FRIEND_CROP (vx_payload x) 12000 (hoarder\<lparr>st_player_id := 8\<rparr>)
      = (Inr (result, False), v')" "st_owner_epoch v' = 1"
    by (simp add: ApplyVisitorFriendSideEffect_def side_effect_turn_def epoch_error_def findFriendReceipt_def Let_def case_prod_beta)
  have q: "fx_caller direct_request = 8" "fx_action direct_request = STEAL_FRIEND_CROP" "fx_request_id direct_request \<noteq> []"
    by (simp_all add: direct_request_def)
  have g: "ExecuteFriendAction FC dev_config True ''a'' theft_auth ?c 0 12000 id direct_request theft_world =
      executeFriendActionDirect FC dev_config True theft_auth ?c 0 12000 id direct_request ?i theft_world"
    using thief_entry(2) direct_id q(1,2,3) by (simp add: ExecuteFriendAction_def) (simp add: direct_request_def)
  have "executeFriendActionDirect FC dev_config True theft_auth ?c 0 12000 id direct_request ?i theft_world =
      (Inr (Inr (direct_answer FC ?i (vx_payload x) (vx_patch x) result)), ?w\<lparr>sw_visitor := v'\<rparr>)"
    using call thief_entry(1) side a(2) v q by (simp add: executeFriendActionDirect_def AwaitFriendOwnerCall_def epoch_error_def theft_entry_def)
  then show thesis using that [of "direct_answer FC ?i (vx_payload x) (vx_patch x) result"] g side(2) a(3) by auto
qed

section \<open>Properties\<close>

text \<open>
  C29: a friend action takes effect once, on both players. Once an action was answered with a result, the same
  request sent again reaches the same answer, less the patch of the farm, and changes neither player: whatever
  happened to them in between, as long as their receipts of this interaction are still there, the visit is
  still alive and the call gets through. The dice, clocks and epochs of the second attempt do not matter.
\<close>

theorem direct_exactly_once:
  assumes "friend_codec_ok FC" "ParseInteractionID (fx_request_id q) = Some i"
    "ExecuteFriendAction FC config enabled zone T c roll now meanwhile q w = (Inr (Inr x), w1)"
    "replay_owner i (owner_state w2) = replay_owner i (owner_state w1)"
    "findFriendReceipt (st_friend_receipts (meanwhile2 (sw_visitor w2))) i RECEIPT_VISITOR =
       findFriendReceipt (st_friend_receipts (sw_visitor w1)) i RECEIPT_VISITOR"
    "reaches (direct_action q i) c2 w2" "authorizeCaller zone T2 (fx_caller q) = None"
    "auth_Entry (ShardForPlayer (fx_caller q)) T2 = Some entry" "re_owner_epoch entry = st_owner_epoch (sw_visitor w2)"
    "re_owner_epoch entry \<noteq> 0" "st_owner_epoch (meanwhile2 (sw_visitor w2)) = st_owner_epoch (sw_visitor w2)"
  shows "ExecuteFriendAction FC config enabled zone T2 c2 roll2 now2 meanwhile2 q w2 =
     (Inr (Inr (without_patch x)), w2\<lparr>sw_visitor := meanwhile2 (sw_visitor w2)\<rparr>)"
proof -
  have d: "executeFriendActionDirect FC config enabled T c roll now meanwhile q i w = (Inr (Inr x), w1)"
    and guards: "ExecuteFriendAction FC config enabled zone T2 c2 roll2 now2 meanwhile2 q w2 =
      executeFriendActionDirect FC config enabled T2 c2 roll2 now2 meanwhile2 q i w2"
    using assms(2,3,7) by (auto simp: ExecuteFriendAction_def split: if_splits option.splits)
  obtain r :: visitor_action_response and result e roll' epoch now' a b a' where k:
    "owner_switch FC config roll' epoch (direct_action q i) now' a = (Inr (vx_payload r, vx_digest r, vx_patch r, b), a')"
    "action_checked enabled (direct_action q i)" "replay_owner i (owner_state w1) = Some (vx_payload r, vx_digest r, True)"
    "findFriendReceipt (st_friend_receipts (sw_visitor w1)) i RECEIPT_VISITOR = Some e" "unmarshal_friend FC (rc_result_payload e) = Some result"
    "x = direct_answer FC i (vx_payload r) (vx_patch r) result"
    by (rule direct_answered [OF assms(1) d])
  have call: "with_fate (cn_call c2) RpcUnavailable (call_owner FC config enabled c2 (direct_action q i)) w2 =
      (Inr \<lparr>vx_error = None, vx_digest = vx_digest r, vx_payload = vx_payload r, vx_patch = None\<rparr>, w2)"
    using assms(6) call_owner_replays [OF k(1,2) assms(6)] k(3) assms(4) by (simp add: with_fate_def reaches_def)
  have "ApplyVisitorFriendSideEffect FC roll2 (fx_caller q) (re_owner_epoch entry) i (fx_action q) (vx_payload r) now2 (meanwhile2 (sw_visitor w2)) =
      (Inr (result, True), meanwhile2 (sw_visitor w2))"
    using k(2,4,5) assms(5,9-11) by (intro side_effect_replays) (auto simp: action_checked_def)
  then show ?thesis
    using guards assms(8-10) call k(2) answer_without_patch [of FC i "vx_payload r" result "vx_patch r"]
    by (simp add: executeFriendActionDirect_def AwaitFriendOwnerCall_def epoch_error_def k(6) action_checked_def)
qed

theorem direct_exactly_once_witness:
  "\<exists>x w. ExecuteFriendAction ref_friend_codec dev_config True ''a'' theft_auth (calls_at 12000 Delivered) 0 12000 id direct_request theft_world
       = (Inr (Inr x), w) \<and>
     ExecuteFriendAction ref_friend_codec dev_config True ''a'' theft_auth (calls_at 13000 Delivered) 5 13000 id direct_request w
       = (Inr (Inr (without_patch x)), w)"
proof -
  let ?FC = ref_friend_codec and ?i = "replicate 16 9 :: bytes"
  obtain x w where first: "ExecuteFriendAction ?FC dev_config True ''a'' theft_auth (calls_at 12000 Delivered) 0 12000 id direct_request theft_world
      = (Inr (Inr x), w)" "\<exists>a. sw_farm w = theft_farm\<lparr>of_actor := a\<rparr> \<and> st_owner_epoch (ac_state a) = 1" "st_owner_epoch (sw_visitor w) = 1"
    by (rule direct_first)
  have q: "fx_caller direct_request = 8" "direct_action direct_request ?i = steal_action theft_request" by (simp_all add: direct_request_def direct_action_def steal_action_def theft_request_def)
  have e: "auth_Entry (ShardForPlayer 8) theft_auth = Some theft_entry" "authorizeCaller ''a'' theft_auth 8 = None" by (rule thief_entry)+
  have "reaches (steal_action theft_request) (calls_at 13000 Delivered) w"
    using first(2) theft_route_valid [of 13000] theft_lease [of 13000]
    by (auto simp: reaches_def calls_at_def owner_state_def theft_request_def theft_farm_def steal_action_def theft_route_def)
  then show ?thesis
    using direct_exactly_once [OF ref_friend_codec_ok direct_id first(1), of w id "calls_at 13000 Delivered" theft_auth theft_entry 5 13000]
      first q e by (auto simp: theft_entry_def)
qed

end
