(* ===== verification/Friend_Visits.thy ===== *)
theory Friend_Visits
  imports Friend_Direct
begin

text \<open>
  Visiting a friend's farm from end to end: the owner Zone's RPCs for visits (\<open>ownerFarmRPCServer\<close>), the
  client that resolves the owner's route (\<open>visit/owner_client.go\<close>), the visitor Zone's service with its one
  current visit per visitor (\<open>visit/service.go\<close>) and the RPCs in front of it (\<open>visitorZoneRPCServer\<close>).

  Every owner has a farm of its own here, with the part of its Zone's registry that is about this owner.
  What the friend service answers is an argument, and so are random identifiers, clocks, routes and fates.
  \<open>actorFor\<close> refuses a wrong epoch. Relation identifiers travel with the call and are only checked for length.
\<close>

section \<open>The owner's Zone\<close>

definition visit_failure_code :: "owner_failure \<Rightarrow> rpc_code" where
  "visit_failure_code e = (if e = SnapshotFailed ErrNotOwner then RpcFailedPrecondition else RpcInternal)"

definition EnterVisitor_rpc ::
  "(string \<Rightarrow> bool) \<Rightarrow> bytes option \<Rightarrow> config_snapshot option \<Rightarrow> u64 \<Rightarrow> u64 \<Rightarrow> string \<Rightarrow> bytes \<Rightarrow> string \<Rightarrow> string \<Rightarrow> int \<Rightarrow>
   committed_route \<Rightarrow> owner_farm \<Rightarrow> (rpc_code + bytes \<times> int \<times> farm_visit_snapshot) \<times> owner_farm" where
  "EnterVisitor_rpc VG newID config owner visitor gateID relationID requestID endpoint now route f =
     (if owner = 0 \<or> visitor = 0 \<or> gateID = [] \<or> length relationID \<noteq> 16 \<or> requestID = [] then (Inl RpcInvalidArgument, f)
      else case validateRoute (Some route) owner now (of_auth f) of
        Some e \<Rightarrow> (Inl e, f)
      | None \<Rightarrow>
          if epoch_error (cr_owner_epoch route) (ac_state (of_actor f)) \<noteq> None then (Inl RpcFailedPrecondition, f)
          else (case EnterVisitor VG newID config owner visitor gateID requestID endpoint now f of
                  (Inl e, _, f1) \<Rightarrow> (Inl (visit_failure_code e), f1)
                | (Inr x, _, f1) \<Rightarrow> (Inr x, f1)))"

definition RefreshVisitorHeartbeat_rpc ::
  "(string \<Rightarrow> bool) \<Rightarrow> u64 \<Rightarrow> u64 \<Rightarrow> bytes \<Rightarrow> string \<Rightarrow> string \<Rightarrow> int \<Rightarrow> committed_route \<Rightarrow> owner_farm \<Rightarrow>
   (rpc_code + error_code + int) \<times> owner_farm" where
  "RefreshVisitorHeartbeat_rpc VG owner visitor visitID gateID endpoint now route f =
     (if owner = 0 \<or> visitor = 0 \<or> length visitID \<noteq> 16 \<or> gateID = [] then (Inl RpcInvalidArgument, f)
      else case validateRoute (Some route) owner now (of_auth f) of
        Some e \<Rightarrow> (Inl e, f)
      | None \<Rightarrow>
          (case RefreshVisitorHeartbeat VG owner visitor visitID gateID endpoint now f of
             (Inl e, f1) \<Rightarrow> (Inl RpcInternal, f1) | (Inr x, f1) \<Rightarrow> (Inr x, f1)))"

definition ExitVisitor_rpc ::
  "u64 \<Rightarrow> u64 \<Rightarrow> bytes \<Rightarrow> int \<Rightarrow> committed_route \<Rightarrow> owner_farm \<Rightarrow> (rpc_code + error_code option) \<times> owner_farm" where
  "ExitVisitor_rpc owner visitor visitID now route f =
     (if owner = 0 \<or> visitor = 0 \<or> length visitID \<noteq> 16 then (Inl RpcInvalidArgument, f)
      else case validateRoute (Some route) owner now (of_auth f) of
        Some e \<Rightarrow> (Inl e, f)
      | None \<Rightarrow> let (res, _, f1) = ExitVisitor owner visitor visitID f in (Inr res, f1))"

definition GetPublicFarmSnapshot_rpc ::
  "config_snapshot option \<Rightarrow> u64 \<Rightarrow> u64 \<Rightarrow> bytes \<Rightarrow> int \<Rightarrow> committed_route \<Rightarrow> owner_farm \<Rightarrow>
   (rpc_code + error_code + farm_visit_snapshot) \<times> owner_farm" where
  "GetPublicFarmSnapshot_rpc config owner visitor visitID now route f =
     (if owner = 0 \<or> visitor = 0 \<or> length visitID \<noteq> 16 then (Inl RpcInvalidArgument, f)
      else case validateRoute (Some route) owner now (of_auth f) of
        Some e \<Rightarrow> (Inl e, f)
      | None \<Rightarrow>
          if ValidateVisitorAction owner visitor visitID now (of_visits f) = None \<and>
             epoch_error (cr_owner_epoch route) (ac_state (of_actor f)) \<noteq> None then (Inl RpcFailedPrecondition, f)
          else (case GetPublicFarmSnapshot config owner visitor visitID now f of
                  (Inl e, f1) \<Rightarrow> (Inl (if e = ErrNotOwner then RpcFailedPrecondition else RpcInternal), f1)
                | (Inr x, f1) \<Rightarrow> (Inr x, f1)))"

section \<open>The client\<close>

text \<open>A refusal for a wrong owner is tried once more on a route resolved anew; all three calls have this form.\<close>

definition with_route :: "conditions \<Rightarrow> (committed_route \<Rightarrow> 'w \<Rightarrow> (rpc_code + 'a) \<times> 'w) \<Rightarrow> 'w \<Rightarrow> (rpc_code + 'a) \<times> 'w" where
  "with_route c call f = (case cn_route c of
       None \<Rightarrow> (Inl RpcUnavailable, f)
     | Some route \<Rightarrow>
         (case call route f of
            (Inl RpcFailedPrecondition, f1) \<Rightarrow>
              (case cn_second_route c of None \<Rightarrow> (Inl RpcFailedPrecondition, f1) | Some route2 \<Rightarrow> call route2 f1)
          | res \<Rightarrow> res))"

definition EnterVisitorAt ::
  "(string \<Rightarrow> bool) \<Rightarrow> bytes option \<Rightarrow> config_snapshot option \<Rightarrow> conditions \<Rightarrow> u64 \<Rightarrow> u64 \<Rightarrow> string \<Rightarrow> string \<Rightarrow> bytes \<Rightarrow> string \<Rightarrow>
   owner_farm \<Rightarrow> (rpc_code + bytes \<times> int \<times> farm_visit_snapshot) \<times> owner_farm" where
  "EnterVisitorAt VG newID config c owner visitor gateID endpoint relationID requestID =
     with_fate (cn_call c) RpcUnavailable
       (with_route c (EnterVisitor_rpc VG newID config owner visitor gateID relationID requestID endpoint (cn_now c)))"

definition RefreshVisitorHeartbeatAt ::
  "(string \<Rightarrow> bool) \<Rightarrow> conditions \<Rightarrow> u64 \<Rightarrow> u64 \<Rightarrow> bytes \<Rightarrow> string \<Rightarrow> string \<Rightarrow> owner_farm \<Rightarrow> (rpc_code + error_code + int) \<times> owner_farm" where
  "RefreshVisitorHeartbeatAt VG c owner visitor visitID gateID endpoint =
     with_fate (cn_call c) RpcUnavailable
       (with_route c (RefreshVisitorHeartbeat_rpc VG owner visitor visitID gateID endpoint (cn_now c)))"

definition ExitVisitor_call ::
  "conditions \<Rightarrow> u64 \<Rightarrow> u64 \<Rightarrow> bytes \<Rightarrow> owner_farm \<Rightarrow> (rpc_code + error_code option) \<times> owner_farm" where
  "ExitVisitor_call c owner visitor visitID =
     with_fate (cn_call c) RpcUnavailable (with_route c (ExitVisitor_rpc owner visitor visitID (cn_now c)))"

section \<open>The visitor's Zone\<close>

record visit_world =
  vw_current :: "(u64, u64 \<times> bytes) fmap"
  vw_farms :: "u64 \<Rightarrow> owner_farm"

definition on_farm :: "u64 \<Rightarrow> (owner_farm \<Rightarrow> 'a \<times> owner_farm) \<Rightarrow> visit_world \<Rightarrow> 'a \<times> visit_world" where
  "on_farm owner call w = (let (res, f) = call (vw_farms w owner) in (res, w\<lparr>vw_farms := (vw_farms w)(owner := f)\<rparr>))"

definition clearIfMatches :: "u64 \<Rightarrow> u64 \<Rightarrow> bytes \<Rightarrow> visit_world \<Rightarrow> visit_world" where
  "clearIfMatches visitor owner visitID w =
     (if fmlookup (vw_current w) visitor = Some (owner, visitID) then w\<lparr>vw_current := fmdrop visitor (vw_current w)\<rparr> else w)"

text \<open>Leaving the previous farm: what the call answers is ignored.\<close>

definition leave_previous :: "conditions \<Rightarrow> u64 \<Rightarrow> u64 \<Rightarrow> visit_world \<Rightarrow> visit_world" where
  "leave_previous c visitor owner w = (case fmlookup (vw_current w) visitor of
       None \<Rightarrow> w
     | Some (previous, visitID) \<Rightarrow>
         if previous \<noteq> owner then snd (on_farm previous (ExitVisitor_call c previous visitor visitID) w) else w)"

text \<open>
  \<open>mutual\<close> is the answer of \<open>CheckMutualFriend\<close>, \<open>None\<close> when the call failed; \<open>leave\<close> and \<open>c\<close> are the
  circumstances of the two calls.
\<close>

definition EnterFriendFarm ::
  "(string \<Rightarrow> bool) \<Rightarrow> bytes option \<Rightarrow> config_snapshot option \<Rightarrow> (bool \<times> bytes) option \<Rightarrow> conditions \<Rightarrow> conditions \<Rightarrow>
   u64 \<Rightarrow> u64 \<Rightarrow> string \<Rightarrow> string \<Rightarrow> string \<Rightarrow> visit_world \<Rightarrow> (rpc_code + error_code + bytes \<times> int \<times> farm_visit_snapshot) \<times> visit_world" where
  "EnterFriendFarm VG newID config mutual leave c visitor owner gateID requestID endpoint w =
     (if visitor = 0 \<or> owner = 0 \<or> visitor = owner then (Inr (Inl INVALID_ARGUMENT), w)
      else case mutual of
        None \<Rightarrow> (Inl RpcInternal, w)
      | Some (False, _) \<Rightarrow> (Inr (Inl NOT_MUTUAL_FRIEND), w)
      | Some (True, relationID) \<Rightarrow>
          (case on_farm owner (EnterVisitorAt VG newID config c owner visitor gateID (trimmed_or_legacy endpoint) relationID requestID)
                  (leave_previous leave visitor owner w) of
             (Inl e, w1) \<Rightarrow> (Inl e, w1)
           | (Inr (visitID, expires, snapshot), w1) \<Rightarrow>
               (Inr (Inr (visitID, expires, snapshot)), w1\<lparr>vw_current := fmupd visitor (owner, visitID) (vw_current w1)\<rparr>)))"

definition HeartbeatFriendFarm ::
  "(string \<Rightarrow> bool) \<Rightarrow> conditions \<Rightarrow> u64 \<Rightarrow> u64 \<Rightarrow> bytes \<Rightarrow> string \<Rightarrow> string \<Rightarrow> visit_world \<Rightarrow> (rpc_code + error_code + int) \<times> visit_world" where
  "HeartbeatFriendFarm VG c visitor owner visitID gateID endpoint w =
     (if visitor = 0 \<or> owner = 0 \<or> length visitID \<noteq> 16 then (Inr (Inl INVALID_ARGUMENT), w)
      else case on_farm owner (RefreshVisitorHeartbeatAt VG c owner visitor visitID gateID (trimmed_or_legacy endpoint)) w of
        (Inl e, w1) \<Rightarrow> (Inl e, w1)
      | (Inr (Inl code), w1) \<Rightarrow> (Inr (Inl code), clearIfMatches visitor owner visitID w1)
      | (Inr (Inr expires), w1) \<Rightarrow> (Inr (Inr expires), w1))"

definition ExitFriendFarm ::
  "conditions \<Rightarrow> u64 \<Rightarrow> u64 \<Rightarrow> bytes \<Rightarrow> visit_world \<Rightarrow> (rpc_code + error_code option) \<times> visit_world" where
  "ExitFriendFarm c visitor owner visitID w =
     (if visitor = 0 \<or> owner = 0 \<or> length visitID \<noteq> 16 then (Inr (Some INVALID_ARGUMENT), w)
      else case on_farm owner (ExitVisitor_call c owner visitor visitID) w of
        (Inl e, w1) \<Rightarrow> (Inl e, w1)
      | (Inr code, w1) \<Rightarrow> (Inr code, clearIfMatches visitor owner visitID w1))"

text \<open>The RPCs in front of the service.\<close>

definition EnterFriendFarm_rpc ::
  "(string \<Rightarrow> bool) \<Rightarrow> bytes option \<Rightarrow> config_snapshot option \<Rightarrow> (bool \<times> bytes) option \<Rightarrow> conditions \<Rightarrow> conditions \<Rightarrow> string \<Rightarrow> auth_table \<Rightarrow>
   u64 \<Rightarrow> u64 \<Rightarrow> string \<Rightarrow> string \<Rightarrow> string \<Rightarrow> visit_world \<Rightarrow> (rpc_code + error_code + bytes \<times> int \<times> farm_visit_snapshot) \<times> visit_world" where
  "EnterFriendFarm_rpc VG newID config mutual leave c ownZoneID T caller owner gateID requestID endpoint w =
     (if caller = 0 \<or> owner = 0 \<or> gateID = [] \<or> requestID = [] then (Inl RpcInvalidArgument, w)
      else case authorizeCaller ownZoneID T caller of
        Some e \<Rightarrow> (Inl e, w)
      | None \<Rightarrow> apfst (map_sum (\<lambda>_. RpcInternal) id) (EnterFriendFarm VG newID config mutual leave c caller owner gateID requestID endpoint w))"

definition HeartbeatFriendFarm_rpc ::
  "(string \<Rightarrow> bool) \<Rightarrow> conditions \<Rightarrow> string \<Rightarrow> auth_table \<Rightarrow> u64 \<Rightarrow> u64 \<Rightarrow> bytes \<Rightarrow> string \<Rightarrow> string \<Rightarrow> visit_world \<Rightarrow>
   (rpc_code + error_code + int) \<times> visit_world" where
  "HeartbeatFriendFarm_rpc VG c ownZoneID T caller owner visitID gateID endpoint w =
     (if caller = 0 \<or> owner = 0 \<or> length visitID \<noteq> 16 \<or> gateID = [] then (Inl RpcInvalidArgument, w)
      else case authorizeCaller ownZoneID T caller of
        Some e \<Rightarrow> (Inl e, w)
      | None \<Rightarrow> apfst (map_sum (\<lambda>_. RpcInternal) id) (HeartbeatFriendFarm VG c caller owner visitID gateID endpoint w))"

definition ExitFriendFarm_rpc ::
  "conditions \<Rightarrow> string \<Rightarrow> auth_table \<Rightarrow> u64 \<Rightarrow> u64 \<Rightarrow> bytes \<Rightarrow> visit_world \<Rightarrow> (rpc_code + error_code option) \<times> visit_world" where
  "ExitFriendFarm_rpc c ownZoneID T caller owner visitID w =
     (if caller = 0 \<or> owner = 0 \<or> length visitID \<noteq> 16 then (Inl RpcInvalidArgument, w)
      else case authorizeCaller ownZoneID T caller of
        Some e \<Rightarrow> (Inl e, w)
      | None \<Rightarrow> apfst (map_sum (\<lambda>_. RpcInternal) id) (ExitFriendFarm c caller owner visitID w))"

section \<open>What the calls do to the leases\<close>

lemma with_route_effect:
  assumes "with_route c call f = (res, f')" "\<And>route g x g'. call route g = (x, g') \<Longrightarrow> Q x g g'" "\<And>e g. Q (Inl e) g g"
    "\<And>g g1 x g2. Q (Inl RpcFailedPrecondition) g g1 \<Longrightarrow> Q x g1 g2 \<Longrightarrow> Q x g g2"
  shows "Q res f f'"
proof (cases "cn_route c")
  case None
  then show ?thesis using assms(1) assms(3) [of RpcUnavailable f] by (auto simp: with_route_def)
next
  case (Some route)
  obtain x f1 where x: "call route f = (x, f1)" by fastforce
  show ?thesis
  proof (cases "x = Inl RpcFailedPrecondition \<and> cn_second_route c \<noteq> None")
    case True
    then obtain route2 where r2: "cn_second_route c = Some route2" by blast
    have "call route2 f1 = (res, f')" using assms(1) Some x True r2 by (simp add: with_route_def)
    then show ?thesis using True assms(2) [OF x] assms(2) assms(4) by blast
  next
    case False
    then have "(res, f') = (x, f1)"
      using assms(1) Some x by (auto simp: with_route_def split: sum.splits rpc_code.splits option.splits)
    then show ?thesis using assms(2) [OF x] by simp
  qed
qed

definition farm_leases :: "owner_farm \<Rightarrow> leases" where
  "farm_leases f = leases (of_visits f)"

definition only_lease :: "u64 \<Rightarrow> u64 \<Rightarrow> owner_farm \<Rightarrow> owner_farm \<Rightarrow> bool" where
  "only_lease owner visitor f f' \<longleftrightarrow> (registry_ok (of_visits f) \<longrightarrow> registry_ok (of_visits f') \<and>
     (\<forall>o' u. (o', u) \<noteq> (owner, visitor) \<longrightarrow> farm_leases f' o' u = farm_leases f o' u))"

definition enter_effect :: "u64 \<Rightarrow> u64 \<Rightarrow> rpc_code + bytes \<times> int \<times> farm_visit_snapshot \<Rightarrow> owner_farm \<Rightarrow> owner_farm \<Rightarrow> bool" where
  "enter_effect owner visitor res f f' \<longleftrightarrow> only_lease owner visitor f f' \<and> (registry_ok (of_visits f) \<longrightarrow>
     (case res of
        Inr (i, _, _) \<Rightarrow> map_option ls_id (farm_leases f' owner visitor) = Some i
      | Inl _ \<Rightarrow> farm_leases f' owner visitor = None \<or> farm_leases f' owner visitor = farm_leases f owner visitor))"

definition exit_effect :: "u64 \<Rightarrow> u64 \<Rightarrow> bytes \<Rightarrow> rpc_code + error_code option \<Rightarrow> owner_farm \<Rightarrow> owner_farm \<Rightarrow> bool" where
  "exit_effect owner visitor i res f f' \<longleftrightarrow> only_lease owner visitor f f' \<and> (registry_ok (of_visits f) \<longrightarrow>
     farm_leases f' owner visitor = (if isl res \<or> held i (farm_leases f owner visitor) = None then farm_leases f owner visitor else None))"

definition steady :: "string \<Rightarrow> string \<Rightarrow> lease option \<Rightarrow> bool" where
  "steady gate endpoint l \<longleftrightarrow> (case l of None \<Rightarrow> True | Some x \<Rightarrow> ls_gate x = gate \<and> ls_endpoint x = gate_or_legacy endpoint)"

definition refresh_effect ::
  "u64 \<Rightarrow> u64 \<Rightarrow> bytes \<Rightarrow> string \<Rightarrow> string \<Rightarrow> rpc_code + error_code + int \<Rightarrow> owner_farm \<Rightarrow> owner_farm \<Rightarrow> bool" where
  "refresh_effect owner visitor i gate endpoint res f f' \<longleftrightarrow> only_lease owner visitor f f' \<and> (registry_ok (of_visits f) \<longrightarrow>
     (isl res \<longrightarrow> farm_leases f' owner visitor = farm_leases f owner visitor) \<and>
     (farm_leases f' owner visitor = None \<or> map_option ls_id (farm_leases f' owner visitor) = map_option ls_id (farm_leases f owner visitor)) \<and>
     (\<not> isl res \<and> isl (projr res) \<and> steady gate endpoint (farm_leases f owner visitor) \<longrightarrow> held i (farm_leases f' owner visitor) = None))"

lemmas visit_effects = enter_effect_def exit_effect_def refresh_effect_def only_lease_def farm_leases_def

lemma set_lease_apply [simp]: "set_lease owner visitor l L o' u = (if o' = owner \<and> u = visitor then l else L o' u)"
  by (simp add: set_lease_def)

lemma Enter_effect:
  assumes "Enter VG newID owner visitor gate request now endpoint r = (res, r')" "registry_ok r"
  shows "registry_ok r'" "(o', u) \<noteq> (owner, visitor) \<Longrightarrow> leases r' o' u = leases r o' u"
    "res = Inr (i, t, b) \<Longrightarrow> map_option ls_id (leases r' owner visitor) = Some i"
    "isl res \<Longrightarrow> leases r' owner visitor = None \<or> leases r' owner visitor = leases r owner visitor"
proof -
  let ?op = "EnterOp newID owner visitor gate request now endpoint"
  have e: "exec_op VG ?op r = (case res of Inl e \<Rightarrow> Refused e | Inr (i, t, new) \<Rightarrow> Granted i t new, r')"
    using assms(1) by (simp split: sum.splits)
  note k = op_refines [OF assms(2) e]
  have L: "leases r' = snd (spec_op VG ?op (leases r))" using k by simp
  have R: "(case res of Inl e \<Rightarrow> Refused e | Inr (i, t, new) \<Rightarrow> Granted i t new) = fst (spec_op VG ?op (leases r))" using k by simp
  show "registry_ok r'" using k by simp
  show "leases r' o' u = leases r o' u" if "(o', u) \<noteq> (owner, visitor)"
    using that by (auto simp: L Let_def split: option.splits)
  show "map_option ls_id (leases r' owner visitor) = Some i" if "res = Inr (i, t, b)"
    using R that by (auto simp: L Let_def split: if_splits option.splits)
  show "leases r' owner visitor = None \<or> leases r' owner visitor = leases r owner visitor" if "isl res"
    using R that by (auto simp: L Let_def split: if_splits option.splits sum.splits)
qed

lemma Exit_effect:
  assumes "ExitVisit owner visitor i r = (res, r')" "registry_ok r"
  shows "registry_ok r'" "leases r' o' u = (if o' = owner \<and> u = visitor \<and> held i (leases r owner visitor) \<noteq> None then None else leases r o' u)"
proof -
  let ?op = "ExitOp owner visitor i"
  have "\<exists>x. exec_op VG ?op r = (x, r')" for VG using assms(1) by (cases res) simp_all
  then obtain x where e: "exec_op (\<lambda>_. True) ?op r = (x, r')" by blast
  note k = op_refines [OF assms(2) e]
  have L: "leases r' = snd (spec_op (\<lambda>_. True) ?op (leases r))" using k by simp
  show "registry_ok r'" using k by simp
  show "leases r' o' u = (if o' = owner \<and> u = visitor \<and> held i (leases r owner visitor) \<noteq> None then None else leases r o' u)"
    by (auto simp: L split: option.splits)
qed

lemma Refresh_effect:
  assumes "RefreshVisit VG owner visitor i gate now endpoint r = (res, r')" "registry_ok r"
  shows "registry_ok r'" "(o', u) \<noteq> (owner, visitor) \<Longrightarrow> leases r' o' u = leases r o' u"
    "leases r' owner visitor = None \<or> map_option ls_id (leases r' owner visitor) = map_option ls_id (leases r owner visitor)"
    "res = Inl e \<Longrightarrow> visit_ws_error e = None \<Longrightarrow> leases r' = leases r"
    "res = Inl e \<Longrightarrow> visit_ws_error e \<noteq> None \<Longrightarrow> steady gate endpoint (leases r owner visitor) \<Longrightarrow> held i (leases r' owner visitor) = None"
proof -
  let ?op = "RefreshOp owner visitor i gate now endpoint"
  have x: "exec_op VG ?op r = (case res of Inl e \<Rightarrow> Refused e | Inr t \<Rightarrow> Extended t, r')" using assms(1) by (simp split: sum.splits)
  note k = op_refines [OF assms(2) x]
  have L: "leases r' = snd (spec_op VG ?op (leases r))" using k by simp
  have R: "(case res of Inl e \<Rightarrow> Refused e | Inr t \<Rightarrow> Extended t) = fst (spec_op VG ?op (leases r))" using k by simp
  show "registry_ok r'" using k by simp
  show "leases r' o' u = leases r o' u" if "(o', u) \<noteq> (owner, visitor)"
    using that by (auto simp: L Let_def split: option.splits)
  show "leases r' owner visitor = None \<or> map_option ls_id (leases r' owner visitor) = map_option ls_id (leases r owner visitor)"
    by (auto simp: L Let_def held_def split: option.splits if_splits)
  show "leases r' = leases r" if "res = Inl e" "visit_ws_error e = None"
    using R that by (auto simp: L Let_def visit_ws_error_def split: option.splits if_splits)
  show "held i (leases r' owner visitor) = None" if "res = Inl e" "visit_ws_error e \<noteq> None" "steady gate endpoint (leases r owner visitor)"
    using R that by (auto simp: L Let_def visit_ws_error_def held_def steady_def split: option.splits if_splits)
qed

lemma BuildPublic_visits: "EnterVisitor VG newID config owner visitor gate request endpoint now f = (res, tips, f') \<Longrightarrow>
   of_visits f' = of_visits f \<and> isl res \<or>
   (\<exists>e. Enter VG newID owner visitor gate request now (trimmed_or_legacy endpoint) (of_visits f) = (Inl e, of_visits f') \<and> isl res) \<or>
   (\<exists>i t b sn. Enter VG newID owner visitor gate request now (trimmed_or_legacy endpoint) (of_visits f) = (Inr (i, t, b), of_visits f') \<and>
      res = Inr (i, t, sn))"
  by (auto simp: EnterVisitor_def split: prod.splits sum.splits)

lemma enter_rpc_effect:
  assumes "EnterVisitor_rpc VG newID config owner visitor gate relation request endpoint now route f = (res, f')"
  shows "enter_effect owner visitor res f f'"
proof (cases "f' = f \<and> isl res")
  case True
  then show ?thesis by (auto simp: visit_effects split: sum.splits)
next
  case False
  obtain x tips f1 where e: "EnterVisitor VG newID config owner visitor gate request endpoint now f = (x, tips, f1)" by (metis prod.exhaust)
  have r: "f' = f1 \<and> res = map_sum visit_failure_code id x"
    using assms False e by (cases x) (auto simp: EnterVisitor_rpc_def split: if_splits option.splits)
  from BuildPublic_visits [OF e] show ?thesis
  proof (elim disjE conjE exE)
    assume "of_visits f1 = of_visits f" "isl x"
    then show ?thesis using r by (cases x) (auto simp: visit_effects)
  next
    fix e' assume n: "Enter VG newID owner visitor gate request now (trimmed_or_legacy endpoint) (of_visits f) = (Inl e', of_visits f1)" "isl x"
    show ?thesis using Enter_effect(1,2,4) [OF n(1)] n(2) r by (cases x) (auto simp: visit_effects)
  next
    fix i t b sn assume n: "Enter VG newID owner visitor gate request now (trimmed_or_legacy endpoint) (of_visits f) = (Inr (i, t, b), of_visits f1)"
      "x = Inr (i, t, sn)"
    show ?thesis using Enter_effect(1,2) [OF n(1)] Enter_effect(3) [OF n(1) _ HOL.refl] n(2) r by (auto simp: visit_effects)
  qed
qed

lemma exit_rpc_effect:
  assumes "ExitVisitor_rpc owner visitor i now route f = (res, f')"
  shows "exit_effect owner visitor i res f f'"
proof (cases "f' = f \<and> isl res")
  case False
  obtain x r' where e: "ExitVisit owner visitor i (of_visits f) = (x, r')" by fastforce
  have "of_visits f' = r' \<and> \<not> isl res"
    using assms False e by (cases x) (auto simp: ExitVisitor_rpc_def ExitVisitor_def Let_def split: if_splits option.splits)
  then show ?thesis using Exit_effect [OF e] by (auto simp: visit_effects)
qed (auto simp: visit_effects)

lemma refresh_rpc_effect:
  assumes "RefreshVisitorHeartbeat_rpc VG owner visitor i gate endpoint now route f = (res, f')"
  shows "refresh_effect owner visitor i gate (trimmed_or_legacy endpoint) res f f'"
proof (cases "f' = f \<and> isl res")
  case False
  obtain x r' where e: "RefreshVisit VG owner visitor i gate now (trimmed_or_legacy endpoint) (of_visits f) = (x, r')" by fastforce
  note k = Refresh_effect [OF e]
  show ?thesis
  proof (cases x)
    case (Inl e')
    then have r: "of_visits f' = r'" "res = (case visit_ws_error e' of Some c \<Rightarrow> Inr (Inl c) | None \<Rightarrow> Inl RpcInternal)"
      using assms False e by (auto simp: RefreshVisitorHeartbeat_rpc_def RefreshVisitorHeartbeat_def split: if_splits option.splits)
    show ?thesis using r k(1-3) k(4,5) [OF _ Inl] by (cases "visit_ws_error e'") (auto simp: visit_effects)
  next
    case (Inr t)
    then have r: "of_visits f' = r'" "res = Inr (Inr t)"
      using assms False e by (auto simp: RefreshVisitorHeartbeat_rpc_def RefreshVisitorHeartbeat_def split: if_splits option.splits)
    show ?thesis using r k(1-3) by (auto simp: visit_effects)
  qed
qed (auto simp: visit_effects)

text \<open>The calls of the client: a lost reply leaves some effect behind.\<close>

lemma enter_effect_route:
  "with_route c (EnterVisitor_rpc VG newID config owner visitor gate relation request endpoint now) f = (res, f') \<Longrightarrow>
   enter_effect owner visitor res f f'"
  by (rule with_route_effect [where Q = "enter_effect owner visitor"], assumption, erule enter_rpc_effect)
    (auto simp: visit_effects split: sum.splits)

lemma EnterVisitorAt_effect:
  assumes "EnterVisitorAt VG newID config c owner visitor gate endpoint relation request f = (res, f')"
  shows "only_lease owner visitor f f'" "cn_call c \<noteq> ReplyLost \<Longrightarrow> enter_effect owner visitor res f f'"
proof -
  let ?call = "with_route c (EnterVisitor_rpc VG newID config owner visitor gate relation request endpoint (cn_now c))"
  obtain x f1 where x: "?call f = (x, f1)" by fastforce
  note k = enter_effect_route [OF x]
  have "cn_call c = RequestLost \<and> f' = f \<and> isl res \<or> f' = f1 \<and> (cn_call c = ReplyLost \<or> res = x)"
    using assms x by (auto simp: EnterVisitorAt_def with_fate_def split: fate.splits)
  then show "only_lease owner visitor f f'" "cn_call c \<noteq> ReplyLost \<Longrightarrow> enter_effect owner visitor res f f'"
    using k by (auto simp: visit_effects split: sum.splits)
qed

lemma ExitVisitor_call_effect:
  assumes "ExitVisitor_call c owner visitor i f = (res, f')"
  shows "exit_effect owner visitor i (Inl RpcInternal) f f' \<or> exit_effect owner visitor i (Inr None) f f'"
    "\<not> isl res \<Longrightarrow> exit_effect owner visitor i res f f'"
proof -
  obtain x f1 where x: "with_route c (ExitVisitor_rpc owner visitor i (cn_now c)) f = (x, f1)" by fastforce
  have k: "exit_effect owner visitor i x f f1"
    by (rule with_route_effect [where Q = "exit_effect owner visitor i", OF x], erule exit_rpc_effect) (auto simp: visit_effects)
  have "f' = f \<and> isl res \<or> f' = f1 \<and> (isl res \<or> res = x)"
    using assms x by (auto simp: ExitVisitor_call_def with_fate_def split: fate.splits)
  then show "exit_effect owner visitor i (Inl RpcInternal) f f' \<or> exit_effect owner visitor i (Inr None) f f'"
    "\<not> isl res \<Longrightarrow> exit_effect owner visitor i res f f'"
    using k by (cases x; auto simp: visit_effects)+
qed

lemma Heartbeat_effect:
  assumes "RefreshVisitorHeartbeatAt VG c owner visitor i gate endpoint f = (res, f')"
  shows "refresh_effect owner visitor i gate (trimmed_or_legacy endpoint) res f f' \<or>
     (isl res \<and> (\<exists>x. refresh_effect owner visitor i gate (trimmed_or_legacy endpoint) x f f'))"
proof -
  obtain x f1 where x: "with_route c (RefreshVisitorHeartbeat_rpc VG owner visitor i gate endpoint (cn_now c)) f = (x, f1)" by fastforce
  have "refresh_effect owner visitor i gate (trimmed_or_legacy endpoint) x f f1"
    by (rule with_route_effect [where Q = "refresh_effect owner visitor i gate (trimmed_or_legacy endpoint)", OF x], erule refresh_rpc_effect)
      (auto simp: visit_effects)
  moreover have "refresh_effect owner visitor i gate (trimmed_or_legacy endpoint) (Inl RpcUnavailable) f f" by (simp add: visit_effects)
  ultimately show ?thesis
    using assms x by (auto simp: RefreshVisitorHeartbeatAt_def with_fate_def split: fate.splits)
qed

section \<open>One farm at a time\<close>

definition lease_at :: "visit_world \<Rightarrow> u64 \<Rightarrow> u64 \<Rightarrow> lease option" where
  "lease_at w owner visitor = farm_leases (vw_farms w owner) owner visitor"

text \<open>The visitor has a lease at most where the service believes the visitor to be.\<close>

definition visit_inv :: "u64 \<Rightarrow> visit_world \<Rightarrow> bool" where
  "visit_inv v w \<longleftrightarrow> (\<forall>owner. registry_ok (of_visits (vw_farms w owner))) \<and>
     (\<forall>owner l. lease_at w owner v = Some l \<longrightarrow> fmlookup (vw_current w) v = Some (owner, ls_id l))"

definition visits_kept :: "visit_world \<Rightarrow> visit_world \<Rightarrow> bool" where
  "visits_kept w w' \<longleftrightarrow> vw_current w' = vw_current w \<and> (\<forall>owner. of_visits (vw_farms w' owner) = of_visits (vw_farms w owner))"

text \<open>Whether leaving the previous farm got through.\<close>

definition leaves :: "conditions \<Rightarrow> u64 \<Rightarrow> u64 \<Rightarrow> visit_world \<Rightarrow> bool" where
  "leaves c visitor owner w \<longleftrightarrow> (case fmlookup (vw_current w) visitor of
       None \<Rightarrow> True
     | Some (previous, i) \<Rightarrow> previous = owner \<or> \<not> isl (fst (ExitVisitor_call c previous visitor i (vw_farms w previous))))"

inductive visit_run :: "(string \<Rightarrow> bool) \<Rightarrow> u64 \<Rightarrow> visit_world \<Rightarrow> visit_world \<Rightarrow> bool" for VG v where
  arrive: "visit_run VG v w w"
| enter: "visit_run VG v w0 w \<Longrightarrow> EnterFriendFarm VG newID config mutual leave c u owner gate request endpoint w = (res, w') \<Longrightarrow>
    (u = v \<longrightarrow> leaves leave v owner w \<and> cn_call c \<noteq> ReplyLost) \<Longrightarrow> visit_run VG v w0 w'"
| heartbeat: "visit_run VG v w0 w \<Longrightarrow> HeartbeatFriendFarm VG c u owner i gate endpoint w = (res, w') \<Longrightarrow>
    (u = v \<longrightarrow> steady gate (trimmed_or_legacy (trimmed_or_legacy endpoint)) (lease_at w owner v)) \<Longrightarrow> visit_run VG v w0 w'"
| exit: "visit_run VG v w0 w \<Longrightarrow> ExitFriendFarm c u owner i w = (res, w') \<Longrightarrow> visit_run VG v w0 w'"
| evict: "visit_run VG v w0 w \<Longrightarrow> visit_run VG v w0 (w\<lparr>vw_farms := (vw_farms w)(owner := snd (evictExpired now (vw_farms w owner)))\<rparr>)"
| elsewhere: "visit_run VG v w0 w \<Longrightarrow> visits_kept w w' \<Longrightarrow> visit_run VG v w0 w'"

lemma on_farm_eq: "on_farm owner call w = (res, w') \<Longrightarrow> \<exists>f. call (vw_farms w owner) = (res, f) \<and> w' = w\<lparr>vw_farms := (vw_farms w)(owner := f)\<rparr>"
  by (auto simp: on_farm_def Let_def split: prod.splits)

text \<open>A call that touches one lease, and at most takes it away.\<close>

definition takes_away :: "u64 \<Rightarrow> u64 \<Rightarrow> owner_farm \<Rightarrow> owner_farm \<Rightarrow> bool" where
  "takes_away owner visitor f f' \<longleftrightarrow> only_lease owner visitor f f' \<and> (registry_ok (of_visits f) \<longrightarrow>
     farm_leases f' owner visitor = None \<or> map_option ls_id (farm_leases f' owner visitor) = map_option ls_id (farm_leases f owner visitor))"

lemma takes_awayI:
  "exit_effect owner visitor i res f f' \<Longrightarrow> takes_away owner visitor f f'"
  "refresh_effect owner visitor i gate endpoint x f f' \<Longrightarrow> takes_away owner visitor f f'"
  "enter_effect owner visitor (Inl e) f f' \<Longrightarrow> takes_away owner visitor f f'"
  by (auto simp: takes_away_def exit_effect_def refresh_effect_def enter_effect_def)

lemma takes_away_inv:
  assumes "visit_inv v w" "takes_away owner u (vw_farms w owner) f"
  shows "visit_inv v (w\<lparr>vw_farms := (vw_farms w)(owner := f)\<rparr>)"
proof -
  have ok: "registry_ok (of_visits (vw_farms w owner))" using assms(1) by (simp add: visit_inv_def)
  let ?w = "w\<lparr>vw_farms := (vw_farms w)(owner := f)\<rparr>"
  have k: "lease_at ?w o' v = None \<or> map_option ls_id (lease_at ?w o' v) = map_option ls_id (lease_at w o' v)" for o'
    using assms(2) ok by (cases "o' = owner \<and> u = v") (auto simp: takes_away_def only_lease_def lease_at_def)
  have "fmlookup (vw_current w) v = Some (o', ls_id l)" if t: "lease_at ?w o' v = Some l" for o' l
  proof -
    obtain l0 where "lease_at w o' v = Some l0" "ls_id l0 = ls_id l" using k [of o'] t by (cases "lease_at w o' v") auto
    then show ?thesis using assms(1) by (simp add: visit_inv_def)
  qed
  moreover have "registry_ok (of_visits f)" using assms(2) ok by (simp add: takes_away_def only_lease_def)
  ultimately show ?thesis using assms(1) by (simp add: visit_inv_def)
qed

lemma exit_takes_away:
  assumes "ExitVisitor_call c owner u i (vw_farms w owner) = (res, f)"
  shows "takes_away owner u (vw_farms w owner) f"
  using ExitVisitor_call_effect(1) [OF assms] takes_awayI(1) by blast

text \<open>Forgetting the current visit is right once its lease is gone.\<close>

lemma clear_inv:
  assumes "visit_inv v w" "u = v \<Longrightarrow> held i (lease_at w owner v) = None"
  shows "visit_inv v (clearIfMatches u owner i w)"
proof (cases "u = v \<and> fmlookup (vw_current w) v = Some (owner, i)")
  case True
  have "lease_at w o' v = None" for o'
  proof (cases "lease_at w o' v")
    case (Some l)
    then have "o' = owner \<and> ls_id l = i" using assms(1) True by (auto simp: visit_inv_def)
    then show ?thesis using assms(2) True Some by (simp add: held_def)
  qed
  then show ?thesis using assms(1) True by (simp add: visit_inv_def clearIfMatches_def lease_at_def)
next
  case False
  then show ?thesis using assms(1) by (auto simp: visit_inv_def clearIfMatches_def lease_at_def)
qed

lemma heartbeat_inv:
  assumes "visit_inv v w" "HeartbeatFriendFarm VG c u owner i gate endpoint w = (res, w')"
    "u = v \<Longrightarrow> steady gate (trimmed_or_legacy (trimmed_or_legacy endpoint)) (lease_at w owner v)"
  shows "visit_inv v w'"
proof (cases "w' = w")
  case False
  obtain x f where x: "RefreshVisitorHeartbeatAt VG c owner u i gate (trimmed_or_legacy endpoint) (vw_farms w owner) = (x, f)" by fastforce
  let ?w = "w\<lparr>vw_farms := (vw_farms w)(owner := f)\<rparr>"
  have w': "w' = (if \<not> isl x \<and> isl (projr x) then clearIfMatches u owner i ?w else ?w)"
    using assms(2) x False by (auto simp: HeartbeatFriendFarm_def on_farm_def split: if_splits sum.splits)
  note k = Heartbeat_effect [OF x]
  then have "takes_away owner u (vw_farms w owner) f" using takes_awayI(2) by blast
  then have inv: "visit_inv v ?w" by (rule takes_away_inv [OF assms(1)])
  have ok: "registry_ok (of_visits (vw_farms w owner))" using assms(1) by (simp add: visit_inv_def)
  have "held i (lease_at ?w owner v) = None" if "u = v" "\<not> isl x" "isl (projr x)"
    using k ok that assms(3) by (auto simp: refresh_effect_def lease_at_def)
  then show ?thesis using w' inv clear_inv [OF inv] by simp
qed (use assms in simp)

lemma exit_inv:
  assumes "visit_inv v w" "ExitFriendFarm c u owner i w = (res, w')"
  shows "visit_inv v w'"
proof (cases "w' = w")
  case False
  obtain x f where x: "ExitVisitor_call c owner u i (vw_farms w owner) = (x, f)" by fastforce
  let ?w = "w\<lparr>vw_farms := (vw_farms w)(owner := f)\<rparr>"
  have w': "w' = (if isl x then ?w else clearIfMatches u owner i ?w)"
    using assms(2) x False by (auto simp: ExitFriendFarm_def on_farm_def split: if_splits sum.splits)
  have inv: "visit_inv v ?w" by (rule takes_away_inv [OF assms(1) exit_takes_away [OF x]])
  have ok: "registry_ok (of_visits (vw_farms w owner))" using assms(1) by (simp add: visit_inv_def)
  have "held i (lease_at ?w owner v) = None" if "u = v" "\<not> isl x"
    using ExitVisitor_call_effect(2) [OF x that(2)] ok that by (auto simp: exit_effect_def lease_at_def held_def split: option.splits)
  then show ?thesis using w' inv clear_inv [OF inv] by simp
qed (use assms in simp)

lemma leave_inv:
  assumes "visit_inv v w"
  shows "visit_inv v (leave_previous c u owner w)"
    "leaves c v owner w \<Longrightarrow> o' \<noteq> owner \<Longrightarrow> lease_at (leave_previous c v owner w) o' v = None"
    "vw_current (leave_previous c u owner w) = vw_current w"
proof -
  show "vw_current (leave_previous c u owner w) = vw_current w"
    by (auto simp: leave_previous_def on_farm_def Let_def split: option.splits prod.splits)
  show "visit_inv v (leave_previous c u owner w)"
    using assms takes_away_inv [OF assms exit_takes_away]
    by (auto simp: leave_previous_def on_farm_def Let_def split: option.splits prod.splits)
  assume l: "leaves c v owner w" "o' \<noteq> owner"
  have cur: "lease_at w o' v = Some l \<Longrightarrow> fmlookup (vw_current w) v = Some (o', ls_id l)" for o' l
    using assms by (simp add: visit_inv_def)
  show "lease_at (leave_previous c v owner w) o' v = None"
  proof (cases "fmlookup (vw_current w) v")
    case None
    then show ?thesis using cur [of o'] by (cases "lease_at w o' v") (auto simp: leave_previous_def)
  next
    case (Some x)
    obtain prev i where x: "x = (prev, i)" by fastforce
    obtain y f where y: "ExitVisitor_call c prev v i (vw_farms w prev) = (y, f)" by fastforce
    have free: "lease_at w o' v = None" if "o' \<noteq> prev" using cur [of o'] that Some x by (cases "lease_at w o' v") auto
    show ?thesis
    proof (cases "prev = owner")
      case True
      then show ?thesis using free l(2) Some x by (simp add: leave_previous_def)
    next
      case False
      have "\<not> isl y" using l(1) Some x y False by (simp add: leaves_def)
      then have e: "exit_effect prev v i y (vw_farms w prev) f" by (rule ExitVisitor_call_effect(2) [OF y])
      have ok: "registry_ok (of_visits (vw_farms w prev))" using assms by (simp add: visit_inv_def)
      have "held i (lease_at w prev v) = lease_at w prev v" using cur [of prev] Some x by (auto simp: held_def split: option.splits)
      then show ?thesis using e ok free False Some x y \<open>\<not> isl y\<close>
        by (cases "o' = prev") (auto simp: leave_previous_def on_farm_def exit_effect_def lease_at_def)
    qed
  qed
qed

lemma enter_inv:
  assumes "visit_inv v w" "EnterFriendFarm VG newID config mutual leave c u owner gate request endpoint w = (res, w')"
    "u = v \<Longrightarrow> leaves leave v owner w \<and> cn_call c \<noteq> ReplyLost"
  shows "visit_inv v w'"
proof (cases "w' = w")
  case False
  let ?w1 = "leave_previous leave u owner w"
  obtain relation where m: "mutual = Some (True, relation)"
    using assms(2) False by (auto simp: EnterFriendFarm_def split: if_splits option.splits prod.splits bool.splits)
  obtain x f where x: "EnterVisitorAt VG newID config c owner u gate (trimmed_or_legacy endpoint) relation request (vw_farms ?w1 owner) = (x, f)"
    by fastforce
  let ?w2 = "?w1\<lparr>vw_farms := (vw_farms ?w1)(owner := f)\<rparr>"
  have w': "w' = (case x of Inl e \<Rightarrow> ?w2 | Inr (i, t, sn) \<Rightarrow> ?w2\<lparr>vw_current := fmupd u (owner, i) (vw_current ?w2)\<rparr>)"
    using assms(2) False m x by (auto simp: EnterFriendFarm_def on_farm_def split: if_splits sum.splits)
  have i1: "visit_inv v ?w1" by (rule leave_inv(1) [OF assms(1)])
  have ok: "registry_ok (of_visits (vw_farms ?w1 owner))" using i1 by (simp add: visit_inv_def)
  note only = EnterVisitorAt_effect(1) [OF x]
  show ?thesis
  proof (cases "u = v")
    case False
    have "lease_at ?w2 o' v = lease_at ?w1 o' v" for o' using only ok False by (auto simp: only_lease_def lease_at_def)
    moreover have "registry_ok (of_visits f)" using only ok by (simp add: only_lease_def)
    ultimately have "visit_inv v ?w2" using i1 by (auto simp: visit_inv_def)
    then show ?thesis using w' False by (auto simp: visit_inv_def lease_at_def split: sum.splits prod.splits)
  next
    case True
    note e = EnterVisitorAt_effect(2) [OF x]
    show ?thesis
    proof (cases x)
      case (Inl err)
      have "visit_inv v ?w2" by (rule takes_away_inv [OF i1 takes_awayI(3) [where e = err and visitor = u]]) (use e Inl assms(3) True in simp)
      then show ?thesis using w' Inl by simp
    next
      case (Inr y)
      obtain i t sn where y: "y = (i, t, sn)" by (metis prod.exhaust)
      have l: "map_option ls_id (lease_at ?w2 owner v) = Some i"
        using e assms(3) True Inr y ok by (simp add: enter_effect_def lease_at_def)
      have "lease_at ?w2 o' v = None" if "o' \<noteq> owner" for o'
        using leave_inv(2) [OF assms(1)] assms(3) True that by (simp add: lease_at_def)
      then have one: "o' = owner \<and> ls_id l' = i" if "lease_at ?w2 o' v = Some l'" for o' l' using that l by (cases "o' = owner") auto
      have W: "w' = ?w2\<lparr>vw_current := fmupd v (owner, i) (vw_current ?w2)\<rparr>" using w' Inr y True by simp
      have same: "lease_at w' o' v = lease_at ?w2 o' v" for o' unfolding W lease_at_def by simp
      have cur: "fmlookup (vw_current w') v = Some (owner, i)" unfolding W by simp
      have "fmlookup (vw_current w') v = Some (o', ls_id l')" if "lease_at w' o' v = Some l'" for o' l'
        using one [OF that [unfolded same]] cur by simp
      moreover have "registry_ok (of_visits (vw_farms w' o'))" for o'
        using only ok i1 unfolding W only_lease_def visit_inv_def by simp
      ultimately show ?thesis unfolding visit_inv_def by blast
    qed
  qed
qed (use assms in simp)

lemma evict_inv:
  assumes "visit_inv v w"
  shows "visit_inv v (w\<lparr>vw_farms := (vw_farms w)(owner := snd (evictExpired now (vw_farms w owner)))\<rparr>)"
proof -
  let ?f = "vw_farms w owner" and ?f' = "snd (evictExpired now (vw_farms w owner))"
  have ok: "registry_ok (of_visits ?f)" using assms by (simp add: visit_inv_def)
  obtain removed r' where e: "EvictExpired now (of_visits ?f) = (removed, r')" by fastforce
  have "\<exists>x. exec_op (\<lambda>_. True) (EvictOp now) (of_visits ?f) = (x, r')" using e by (simp add: Let_def)
  then obtain x where x: "exec_op (\<lambda>_. True) (EvictOp now) (of_visits ?f) = (x, r')" by blast
  have f': "of_visits ?f' = r'" using e by (simp add: evictExpired_def)
  note k = op_refines [OF ok x]
  then have L: "leases r' = snd (spec_op (\<lambda>_. True) (EvictOp now) (leases (of_visits ?f)))" by simp
  let ?w = "w\<lparr>vw_farms := (vw_farms w)(owner := ?f')\<rparr>"
  have "lease_at ?w o' v = None \<or> lease_at ?w o' v = lease_at w o' v" for o'
    by (auto simp: lease_at_def farm_leases_def f' L split: option.splits)
  then have "lease_at w o' v = Some l" if "lease_at ?w o' v = Some l" for o' l using that by (metis option.distinct(1))
  then have "fmlookup (vw_current w) v = Some (o', ls_id l)" if "lease_at ?w o' v = Some l" for o' l
    using assms that by (simp add: visit_inv_def)
  then show ?thesis using assms k f' by (simp add: visit_inv_def)
qed

lemma run_inv: "visit_run VG v w0 w \<Longrightarrow> visit_inv v w0 \<Longrightarrow> visit_inv v w"
proof (induction rule: visit_run.induct)
  case (enter w0 w newID config mutual leave c u owner gate request endpoint res w')
  then show ?case using enter_inv [of v w VG newID config mutual leave c u owner gate request endpoint res w'] by simp
next
  case (heartbeat w0 w c u owner i gate endpoint res w')
  then show ?case using heartbeat_inv [of v w VG c u owner i gate endpoint res w'] by simp
next
  case (exit w0 w c u owner i res w')
  then show ?case using exit_inv [of v w c u owner i res w'] by simp
next
  case (elsewhere w0 w w')
  then show ?case by (simp add: visit_inv_def visits_kept_def lease_at_def farm_leases_def)
qed (auto intro: evict_inv)

section \<open>A sample visit\<close>

definition route_to :: "u64 \<Rightarrow> committed_route" where
  "route_to owner = \<lparr>cr_shard_id = ShardForPlayer owner, cr_owner_zone_id = ''a'', cr_owner_epoch = 1, cr_route_version = 1\<rparr>"

definition visit_call :: "u64 \<Rightarrow> int \<Rightarrow> conditions" where
  "visit_call owner now = \<lparr>cn_call = Delivered, cn_update = Delivered, cn_now = now, cn_roll = 0, cn_route = Some (route_to owner), cn_second_route = None\<rparr>"

definition visit_farms :: visit_world where
  "visit_farms = \<lparr>vw_current = fmempty, vw_farms = (\<lambda>_. theft_farm\<lparr>of_visits := fmempty\<rparr>)\<rparr>"

definition is_sample_farm :: "owner_farm \<Rightarrow> bool" where
  "is_sample_farm f \<longleftrightarrow> ac_state (of_actor f) = hoarder \<and> of_auth f = theft_auth"

lemma sample_route: "owner = 6 \<or> owner = 7 \<Longrightarrow> now < 100000 \<Longrightarrow> validateRoute (Some (route_to owner)) owner now theft_auth = None"
proof -
  assume a: "owner = 6 \<or> owner = 7" "now < 100000"
  have "ShardForPlayer 6 < ShardCount" "ShardForPlayer 7 < ShardCount" by code_simp+
  then show ?thesis using a
    by (auto simp: validateRoute_def Validate_def route_to_def theft_auth_def theft_entry_def not_le [symmetric])
qed

lemma sample_enter:
  assumes "is_sample_farm f" "owner = 6 \<or> owner = 7" "now < 100000" "length relation = 16" "request \<noteq> []" "gate \<noteq> []" "visitor \<noteq> 0"
    "Enter (\<lambda>_. True) (Some i) owner visitor gate request now (trimmed_or_legacy endpoint) (of_visits f) = (Inr (j, t, b), r')"
  obtains sn f' where "EnterVisitorAt (\<lambda>_. True) (Some i) None (visit_call owner now) owner visitor gate endpoint relation request f = (Inr (j, t, sn), f')"
    "of_visits f' = r'" "is_sample_farm f'"
proof -
  have "materializeDueMaturities hoarder now = (True, [], hoarder)"
    by (rule materialize_idle) (auto simp: matured_at_def split: if_splits)
  then obtain sn where "BuildPublicFarmSnapshot owner None now (of_actor f) = (Inr (sn, []), of_actor f)"
    using assms(1) by (simp add: BuildPublicFarmSnapshot_def is_sample_farm_def)
  then have "EnterVisitorAt (\<lambda>_. True) (Some i) None (visit_call owner now) owner visitor gate endpoint relation request f =
      (Inr (j, t, sn), f\<lparr>of_visits := r'\<rparr>)"
    using assms sample_route [OF assms(2,3)]
    by (auto simp: EnterVisitorAt_def with_fate_def with_route_def visit_call_def EnterVisitor_rpc_def EnterVisitor_def
        is_sample_farm_def epoch_error_def route_to_def)
  then show thesis using that assms(1) by (simp add: is_sample_farm_def)
qed

lemma legacy_trimmed [simp]: "trimmed_or_legacy [] = legacy_gate" "trimmed_or_legacy legacy_gate = legacy_gate" "gate_or_legacy legacy_gate = legacy_gate"
proof -
  have "TrimSpace [] = []" "TrimSpace legacy_gate \<noteq> []" by code_simp+
  then show "trimmed_or_legacy [] = legacy_gate" "trimmed_or_legacy legacy_gate = legacy_gate" "gate_or_legacy legacy_gate = legacy_gate"
    by (simp_all add: trimmed_or_legacy_def gate_or_legacy_def legacy_gate_def)
qed

text \<open>Player 9 enters a farm without visitors through gate \<open>g\<close>.\<close>

definition sample_entering :: "bytes \<Rightarrow> u64 \<Rightarrow> int \<Rightarrow> conditions \<Rightarrow> visit_world \<Rightarrow> (rpc_code + error_code + bytes \<times> int \<times> farm_visit_snapshot) \<times> visit_world" where
  "sample_entering i owner now leave =
     EnterFriendFarm (\<lambda>_. True) (Some i) None (Some (True, replicate 16 1)) leave (visit_call owner now) 9 owner ''g'' ''r'' []"

lemma sample_visit:
  assumes "is_sample_farm (vw_farms (leave_previous leave 9 owner w) owner)" "owner = 6 \<or> owner = 7" "now < 100000"
    "of_visits (vw_farms (leave_previous leave 9 owner w) owner) = fmempty"
  obtains sn w' where "sample_entering i owner now leave w = (Inr (Inr (i, now + 90000, sn)), w')" "vw_current w' = fmupd 9 (owner, i) (vw_current w)"
    "lease_at w' owner 9 = Some (Lease i ''g'' legacy_gate now ''r'')" "is_sample_farm (vw_farms w' owner)"
    "\<And>o'. o' \<noteq> owner \<Longrightarrow> vw_farms w' o' = vw_farms (leave_previous leave 9 owner w) o'"
proof -
  let ?w1 = "leave_previous leave 9 owner w"
  define x where "x = \<lparr>vr_owner_id = owner, vr_visitor_id = 9, vr_visit_id = i, vr_gate_id = ''g'', vr_gate_endpoint = legacy_gate,
    vr_last_heartbeat = now, vr_expires = now + VisitTTL, vr_request_id = ''r''\<rparr>"
  let ?ow = "\<lparr>ov_by_visitor = fmupd 9 x fmempty, ov_by_visit_id = fmupd i 9 fmempty\<rparr>"
  have rel: "length (replicate 16 1 :: bytes) = 16" "''r'' \<noteq> []" "''g'' \<noteq> []" "(9 :: u64) \<noteq> 0" by simp_all
  have "Enter (\<lambda>_. True) (Some i) owner 9 ''g'' ''r'' now (trimmed_or_legacy legacy_gate) (of_visits (vw_farms ?w1 owner)) =
      (Inr (i, now + 90000, True), fmupd owner ?ow fmempty)"
    using assms(4) by (simp add: Enter_def Let_def visits_of_def no_visits_def x_def VisitTTL_def)
  then obtain sn f' where e: "EnterVisitorAt (\<lambda>_. True) (Some i) None (visit_call owner now) owner 9 ''g'' legacy_gate (replicate 16 1) ''r''
      (vw_farms ?w1 owner) = (Inr (i, now + 90000, sn), f')" "of_visits f' = fmupd owner ?ow fmempty" "is_sample_farm f'"
    by (rule sample_enter [OF assms(1-3) rel])
  let ?w' = "?w1\<lparr>vw_farms := (vw_farms ?w1)(owner := f'), vw_current := fmupd 9 (owner, i) (vw_current w)\<rparr>"
  have "vw_current ?w1 = vw_current w" by (auto simp: leave_previous_def on_farm_def Let_def split: option.splits prod.splits)
  then have "sample_entering i owner now leave w = (Inr (Inr (i, now + 90000, sn)), ?w')"
    using assms(2) e(1) by (auto simp: sample_entering_def EnterFriendFarm_def on_farm_def)
  moreover have "lease_at ?w' owner 9 = Some (Lease i ''g'' legacy_gate now ''r'')"
    by (simp add: lease_at_def farm_leases_def e(2) leases_def find_visit_def visits_of_def x_def lease_of_def)
  ultimately show thesis using e(3) by (intro that [of sn ?w']) simp_all
qed

lemma sample_first:
  obtains sn w where "sample_entering (replicate 16 3) 7 0 leave visit_farms = (Inr (Inr (replicate 16 3, 90000, sn)), w)"
    "vw_current w = fmupd 9 (7, replicate 16 3) fmempty" "lease_at w 7 9 = Some (Lease (replicate 16 3) ''g'' legacy_gate 0 ''r'')"
    "is_sample_farm (vw_farms w 7)" "vw_farms w 6 = theft_farm\<lparr>of_visits := fmempty\<rparr>" "visit_run (\<lambda>_. True) 9 visit_farms w"
proof -
  have l: "leave_previous leave 9 7 visit_farms = visit_farms" by (simp add: leave_previous_def visit_farms_def)
  have f: "is_sample_farm (theft_farm\<lparr>of_visits := fmempty\<rparr>)" by (simp add: is_sample_farm_def theft_farm_def)
  obtain sn w where w: "sample_entering (replicate 16 3) 7 0 leave visit_farms = (Inr (Inr (replicate 16 3, 0 + 90000, sn)), w)"
    "vw_current w = fmupd 9 (7, replicate 16 3) (vw_current visit_farms)" "lease_at w 7 9 = Some (Lease (replicate 16 3) ''g'' legacy_gate 0 ''r'')"
    "is_sample_farm (vw_farms w 7)" "\<And>o'. o' \<noteq> 7 \<Longrightarrow> vw_farms w o' = vw_farms (leave_previous leave 9 7 visit_farms) o'"
    by (rule sample_visit [of leave 7 visit_farms 0 "replicate 16 3"]) (use l f in \<open>auto simp: visit_farms_def\<close>)
  have "leaves leave 9 7 visit_farms" by (simp add: leaves_def visit_farms_def)
  then have "visit_run (\<lambda>_. True) 9 visit_farms w"
    by (intro visit_run.enter [OF visit_run.arrive w(1) [unfolded sample_entering_def]]) (simp add: visit_call_def)
  then show thesis using that w l by (simp add: visit_farms_def)
qed

section \<open>Properties\<close>



text \<open>
  C31: a change of gates undoes this. A heartbeat through another gate than the one of the lease is answered
  VISIT_NOT_FOUND although the lease stays; the visitor's service forgets the visit, so entering another farm
  does not leave the first one, and the visitor is on two farms, both leases alive.
\<close>

theorem gate_change_doubles_visit:
  "\<exists>x w w1 y w2. sample_entering (replicate 16 3) 7 0 (visit_call 7 0) visit_farms = (Inr (Inr x), w) \<and>
     HeartbeatFriendFarm (\<lambda>_. True) (visit_call 7 500) 9 7 (replicate 16 3) ''h'' [] w = (Inr (Inl VISIT_NOT_FOUND), w1) \<and>
     sample_entering (replicate 16 4) 6 1000 (visit_call 7 1000) w1 = (Inr (Inr y), w2) \<and>
     (\<exists>l l'. lease_at w2 7 9 = Some l \<and> alive 1000 l \<and> lease_at w2 6 9 = Some l' \<and> alive 1000 l')"
proof -
  obtain sn w where w: "sample_entering (replicate 16 3) 7 0 (visit_call 7 0) visit_farms = (Inr (Inr (replicate 16 3, 90000, sn)), w)"
    "vw_current w = fmupd 9 (7, replicate 16 3) fmempty" "lease_at w 7 9 = Some (Lease (replicate 16 3) ''g'' legacy_gate 0 ''r'')"
    "is_sample_farm (vw_farms w 7)" "vw_farms w 6 = theft_farm\<lparr>of_visits := fmempty\<rparr>" "visit_run (\<lambda>_. True) 9 visit_farms w"
    by (rule sample_first)
  let ?i = "replicate 16 3 :: bytes" and ?f = "vw_farms w 7"
  let ?w1 = "clearIfMatches 9 7 ?i w"
  have "visit_inv 9 visit_farms" by (simp add: visit_inv_def registry_ok_def lease_at_def farm_leases_def visit_farms_def leases_def)
  then have ok: "registry_ok (of_visits ?f)" using run_inv [OF w(6)] by (simp add: visit_inv_def)
  obtain x where x: "find_visit (of_visits ?f) 7 9 = Some x" "vr_visit_id x = ?i" "vr_gate_id x = ''g''" "vr_last_heartbeat x = 0"
    using w(3) by (auto simp: lease_at_def farm_leases_def leases_def lease_of_def)
  then have "vr_expires x = 90000" using ok by (simp add: registry_ok_def VisitTTL_def)
  then have "RefreshVisit (\<lambda>_. True) 7 9 ?i ''h'' 500 legacy_gate (of_visits ?f) = (Inl ErrVisitNotFound, of_visits ?f)"
    using x by (simp add: RefreshVisit_def Let_def lookupLocked_find)
  then have "RefreshVisitorHeartbeatAt (\<lambda>_. True) (visit_call 7 500) 7 9 ?i ''h'' legacy_gate ?f = (Inr (Inl VISIT_NOT_FOUND), ?f)"
    using w(4) sample_route [of 7 500] by (simp add: RefreshVisitorHeartbeatAt_def with_fate_def with_route_def visit_call_def
        RefreshVisitorHeartbeat_rpc_def RefreshVisitorHeartbeat_def visit_ws_error_def is_sample_farm_def)
  then have beat: "HeartbeatFriendFarm (\<lambda>_. True) (visit_call 7 500) 9 7 ?i ''h'' [] w = (Inr (Inl VISIT_NOT_FOUND), ?w1)"
    by (simp add: HeartbeatFriendFarm_def on_farm_def)
  have w1: "fmlookup (vw_current ?w1) 9 = None" "vw_farms ?w1 = vw_farms w" using w(2) by (simp_all add: clearIfMatches_def)
  have l: "leave_previous (visit_call 7 1000) 9 6 ?w1 = ?w1" using w1(1) by (simp add: leave_previous_def)
  have f: "is_sample_farm (theft_farm\<lparr>of_visits := fmempty\<rparr>)" by (simp add: is_sample_farm_def theft_farm_def)
  obtain sn' w2 where w2: "sample_entering (replicate 16 4) 6 1000 (visit_call 7 1000) ?w1 = (Inr (Inr (replicate 16 4, 1000 + 90000, sn')), w2)"
    "lease_at w2 6 9 = Some (Lease (replicate 16 4) ''g'' legacy_gate 1000 ''r'')"
    "\<And>o'. o' \<noteq> 6 \<Longrightarrow> vw_farms w2 o' = vw_farms (leave_previous (visit_call 7 1000) 9 6 ?w1) o'"
    by (rule sample_visit [of "visit_call 7 1000" 6 ?w1 1000 "replicate 16 4"]) (use l w1 w(5) f in simp_all)
  have "lease_at w2 7 9 = lease_at w 7 9" using w2(3) [of 7] l w1(2) by (simp add: lease_at_def)
  then show ?thesis using w(1,3) beat w2(1,2) by (fastforce simp: alive_def VisitTTL_def)
qed

end
