(* ===== verification/Mail_Reward.thy ===== *)
theory Mail_Reward
  imports Friend_Steps Authorization "HOL-Library.Multiset"
begin

text \<open>
  Rewards of claimed mail (\<open>player/mail_reward.go\<close>): attachments are
  merged and ordered, checked against the limits of the inventory as a whole, and credited once per mail.
  An inventory stack of a receipt is a pair of item and quantity.
\<close>

section \<open>Attachments\<close>

datatype mail_error = MailNotOwner | ErrMailInventoryCapacity | ErrMailClaimConflict | MailError string

fun merge_attachments :: "(u32 \<times> u32) list \<Rightarrow> (u32, u32) fmap \<Rightarrow> u32 list \<Rightarrow> mail_error + (u32, u32) fmap \<times> u32 list" where
  "merge_attachments [] merged order = Inr (merged, order)"
| "merge_attachments ((item, q) # rest) merged order =
     (if item = 0 \<or> q = 0 \<or> of_nat inventoryStackLimit < q then Inl (MailError ''invalid mail attachment'')
      else let order' = (case fmlookup merged item of None \<Rightarrow> order @ [item] | Some _ \<Rightarrow> order);
               next = map_get merged item + q
           in if next < map_get merged item \<or> of_nat inventoryStackLimit < next then Inl ErrMailInventoryCapacity
              else merge_attachments rest (fmupd item next merged) order')"

text \<open>The two nested loops that exchange entries out of order: the inner one leaves the least in front.\<close>

fun exchange_front :: "u32 \<Rightarrow> u32 list \<Rightarrow> u32 \<times> u32 list" where
  "exchange_front x [] = (x, [])"
| "exchange_front x (y # ys) = (let (m, zs) = exchange_front (if x > y then y else x) ys in (m, (if x > y then x else y) # zs))"

lemma exchange_front_length [simp]: "length (snd (exchange_front x ys)) = length ys"
  by (induction ys arbitrary: x) (simp_all add: case_prod_beta)

function exchange_sort :: "u32 list \<Rightarrow> u32 list" where
  "exchange_sort [] = []"
| "exchange_sort (x # xs) = (let (m, zs) = exchange_front x xs in m # exchange_sort zs)"
  by pat_completeness auto
termination
  by (relation "measure length") (simp_all, metis exchange_front_length lessI snd_conv)

definition normalizeMailAttachments :: "(u32 \<times> u32) list \<Rightarrow> int \<Rightarrow> mail_error + (u32 \<times> u32) list \<times> bytes" where
  "normalizeMailAttachments attachments coinAmount =
     (if coinAmount < 0 then Inl (MailError ''invalid mail coin amount'')
      else if attachments = [] then
        if coinAmount \<le> 0 then Inl (MailError ''invalid mail attachment count'') else Inr ([], sha256 [])
      else if 8 < length attachments then Inl (MailError ''invalid mail attachment count'')
      else case merge_attachments attachments fmempty [] of
        Inl e \<Rightarrow> Inl e
      | Inr (merged, order) \<Rightarrow>
          let out = map (\<lambda>i. (i, map_get merged i)) (exchange_sort order)
          in Inr (out, sha256 (concat (map (\<lambda>(i, q). be32 i @ be32 q) out))))"

fun projectMailAttachments :: "(u32 \<times> u32) list \<Rightarrow> nat \<Rightarrow> (u32, u32) fmap \<Rightarrow> mail_error + (u32, u32) fmap" where
  "projectMailAttachments [] typeCount inventory = Inr inventory"
| "projectMailAttachments ((item, q) # rest) typeCount inventory =
     (let current = map_get inventory item
      in if current = 0 \<and> inventoryTypeLimit \<le> typeCount then Inl ErrMailInventoryCapacity
         else let next = current + q
              in if next < current \<or> of_nat inventoryStackLimit < next then Inl ErrMailInventoryCapacity
                 else projectMailAttachments rest (if current = 0 then typeCount + 1 else typeCount) (fmupd item next inventory))"

section \<open>Crediting\<close>

record mail_result =
  mr_newly_applied :: bool
  mr_player_seq :: u64
  mr_items_added :: "item_stack_view list"
  mr_coins_added :: int
  mr_patch :: state_patch

definition stack_views :: "(u32 \<times> u32) list \<Rightarrow> item_stack_view list" where
  "stack_views = map (\<lambda>(i, q). ItemStackView i q)"

definition stock_views :: "state \<Rightarrow> (u32 \<times> u32) list \<Rightarrow> item_stack_view list" where
  "stock_views s = map (\<lambda>(i, q). ItemStackView i (map_get (st_inventory s) i))"

definition mail_patch :: "state \<Rightarrow> (u32 \<times> u32) list \<Rightarrow> int \<Rightarrow> state_patch" where
  "mail_patch s received coinAmount =
     PlayerStatePatch (if coinAmount > 0 then Some (st_coins s) else None) (stock_views s received) [] [] None None None"

definition replayMailReward :: "state \<Rightarrow> mail_claim_receipt \<Rightarrow> mail_result" where
  "replayMailReward s r = \<lparr>mr_newly_applied = False, mr_player_seq = st_player_seq s,
     mr_items_added = stack_views (mcr_attachments r), mr_coins_added = mcr_coin_amount r,
     mr_patch = mail_patch s (mcr_attachments r) (mcr_coin_amount r)\<rparr>"

definition credit_mail :: "bytes \<Rightarrow> string \<Rightarrow> (u32 \<times> u32) list \<Rightarrow> (u32, u32) fmap \<Rightarrow> int \<Rightarrow> int \<Rightarrow> state \<Rightarrow> state" where
  "credit_mail claimID mailID normalized projected coinAmount now s =
     s\<lparr>st_inventory := fold (\<lambda>(i, q). fmupd i (map_get projected i)) normalized (st_inventory s),
       st_coins := (if coinAmount > 0 then to_i64 (st_coins s + coinAmount) else st_coins s),
       st_mail_claim_receipts := st_mail_claim_receipts s @ [\<lparr>mcr_mail_id = mailID, mcr_claim_id = claimID,
         mcr_applied_at_ms = now, mcr_attachments = normalized, mcr_coin_amount = coinAmount\<rparr>],
       st_player_seq := st_player_seq s + 1, st_checkpoint_revision := st_checkpoint_revision s + 1, st_updated_at_ms := now\<rparr>"

definition applyMailReward ::
  "bytes \<Rightarrow> string \<Rightarrow> (u32 \<times> u32) list \<Rightarrow> int \<Rightarrow> int \<Rightarrow> state \<Rightarrow> (mail_error + mail_result) \<times> state" where
  "applyMailReward claimID mailID attachments coinAmount now s =
     (if coinAmount < 0 then (Inl (MailError ''invalid mail coin amount''), s)
      else case normalizeMailAttachments attachments coinAmount of
        Inl e \<Rightarrow> (Inl e, s)
      | Inr (normalized, _) \<Rightarrow>
          (case find (\<lambda>r. mcr_mail_id r = mailID \<and> mcr_claim_id r = claimID) (st_mail_claim_receipts s) of
             Some r \<Rightarrow>
               if mcr_attachments r \<noteq> normalized \<or> mcr_coin_amount r \<noteq> coinAmount then (Inl ErrMailClaimConflict, s)
               else (Inr (replayMailReward s r), s)
           | None \<Rightarrow>
               if list_ex (\<lambda>r. mcr_mail_id r = mailID) (st_mail_claim_receipts s) then (Inl ErrMailClaimConflict, s)
               else (case projectMailAttachments normalized (map_len (st_inventory s)) (st_inventory s) of
                       Inl e \<Rightarrow> (Inl e, s)
                     | Inr projected \<Rightarrow>
                         let s' = credit_mail claimID mailID normalized projected coinAmount now s
                         in (Inr \<lparr>mr_newly_applied = True, mr_player_seq = st_player_seq s', mr_items_added = stack_views normalized,
                               mr_coins_added = coinAmount, mr_patch = mail_patch s' normalized coinAmount\<rparr>, s'))))"

definition ApplyMailReward ::
  "u64 \<Rightarrow> bytes \<Rightarrow> string \<Rightarrow> (u32 \<times> u32) list \<Rightarrow> int \<Rightarrow> int \<Rightarrow> state \<Rightarrow> (mail_error + mail_result) \<times> state" where
  "ApplyMailReward ownerEpoch claimID mailID attachments coinAmount now s =
     (if ownerEpoch = 0 then (Inl MailNotOwner, s)
      else if length claimID \<noteq> 16 \<or> mailID = [] \<or> coinAmount < 0 \<or> attachments = [] \<and> coinAmount \<le> 0
      then (Inl (MailError ''invalid mail reward request''), s)
      else if epoch_error ownerEpoch s \<noteq> None then (Inl MailNotOwner, s)
      else applyMailReward claimID mailID attachments coinAmount now s)"

section \<open>Merging and sorting\<close>

lemma exchange_front_props:
  assumes "exchange_front x ys = (m, zs)"
  shows "mset (m # zs) = mset (x # ys)" "\<forall>z \<in> set zs. m \<le> z"
proof -
  have "mset (fst (exchange_front x ys) # snd (exchange_front x ys)) = mset (x # ys) \<and>
      (\<forall>z \<in> set (snd (exchange_front x ys)). fst (exchange_front x ys) \<le> z) \<and> fst (exchange_front x ys) \<le> x"
  proof (induction ys arbitrary: x)
    case (Cons y ys)
    show ?case using Cons.IH [of "if x > y then y else x"]
      by (cases "x > y") (auto simp: case_prod_beta not_less)
  qed simp
  then show "mset (m # zs) = mset (x # ys)" "\<forall>z \<in> set zs. m \<le> z" using assms by simp_all
qed

lemma exchange_sort_sorts: "mset (exchange_sort xs) = mset xs \<and> sorted (exchange_sort xs)"
proof (induction xs rule: exchange_sort.induct)
  case (2 x xs)
  obtain m zs where f: "exchange_front x xs = (m, zs)" by fastforce
  have IH: "mset (exchange_sort zs) = mset zs" "sorted (exchange_sort zs)" using 2 f by simp_all
  note k = exchange_front_props [OF f]
  have "set (exchange_sort zs) = set zs" using IH(1) by (metis set_mset_mset)
  then show ?case using k IH f by simp
qed simp

lemma exchange_sort_eq: "exchange_sort xs = sort xs"
  using exchange_sort_sorts [of xs] by (metis properties_for_sort)

definition quantity_of :: "u32 \<Rightarrow> (u32 \<times> u32) list \<Rightarrow> nat" where
  "quantity_of i ps = (\<Sum>(j, q) \<leftarrow> ps. if j = i then unat q else 0)"

lemma quantity_of_simps [simp]:
  "quantity_of i [] = 0" "quantity_of i ((j, q) # ps) = (if j = i then unat q else 0) + quantity_of i ps"
  by (simp_all add: quantity_of_def)

lemma stack_sum:
  fixes a b :: u32
  assumes "\<not> a + b < a" "\<not> of_nat inventoryStackLimit < a + b"
  shows "unat (a + b) = unat a + unat b" "a + b \<le> 300"
proof -
  show "a + b \<le> 300" using assms(2) by (simp add: inventoryStackLimit_def)
  show "unat (a + b) = unat a + unat b" using assms(1) by (metis unat_plus_simple not_le)
qed

lemma merge_total:
  assumes "merge_attachments ps m order = Inr (m', order')" "set order = fset (fmdom m)" "distinct order"
    "\<forall>i q. fmlookup m i = Some q \<longrightarrow> i \<noteq> 0 \<and> q \<noteq> 0"
  shows "(\<forall>i. unat (map_get m' i) = unat (map_get m i) + quantity_of i ps) \<and> set order' = fset (fmdom m') \<and> distinct order' \<and>
    (\<forall>i q. fmlookup m' i = Some q \<longrightarrow> i \<noteq> 0 \<and> q \<noteq> 0)"
  using assms
proof (induction ps arbitrary: m order)
  case (Cons p ps)
  obtain item q where p: "p = (item, q)" by fastforce
  let ?next = "map_get m item + q" and ?order = "case fmlookup m item of None \<Rightarrow> order @ [item] | Some _ \<Rightarrow> order"
  have c: "item \<noteq> 0" "q \<noteq> 0" "\<not> ?next < map_get m item" "\<not> of_nat inventoryStackLimit < ?next"
    and rest: "merge_attachments ps (fmupd item ?next m) ?order = Inr (m', order')"
    using Cons.prems(1) by (auto simp: p Let_def split: if_splits)
  note k = stack_sum [OF c(3,4)]
  have dom: "fmlookup m item = None \<longleftrightarrow> item \<notin> set order" using Cons.prems(2) by (simp add: fmlookup_dom_iff)
  have "unat ?next \<noteq> 0" using k(1) c(2) by (simp add: unat_eq_zero)
  then have "?next \<noteq> 0" by (metis unat_0)
  then have "\<forall>i r. fmlookup (fmupd item ?next m) i = Some r \<longrightarrow> i \<noteq> 0 \<and> r \<noteq> 0" using Cons.prems(4) c(1) by simp
  moreover have "set ?order = fset (fmdom (fmupd item ?next m))" "distinct ?order"
    using Cons.prems(2,3) dom by (cases "fmlookup m item"; simp add: insert_absorb)+
  ultimately have IH: "(\<forall>i. unat (map_get m' i) = unat (map_get (fmupd item ?next m) i) + quantity_of i ps) \<and> set order' = fset (fmdom m') \<and>
      distinct order' \<and> (\<forall>i q. fmlookup m' i = Some q \<longrightarrow> i \<noteq> 0 \<and> q \<noteq> 0)"
    by (intro Cons.IH [OF rest])
  then show ?case using k(1) by (auto simp: p map_get_def)
qed simp

lemma normalize_props:
  assumes "normalizeMailAttachments ps coin = Inr (ns, d)"
  shows "\<forall>i. quantity_of i ns = quantity_of i ps" "distinct (map fst ns)" "\<forall>(i, q) \<in> set ns. i \<noteq> 0 \<and> q \<noteq> 0" "sorted (map fst ns)"
proof -
  have "(\<forall>i. quantity_of i ns = quantity_of i ps) \<and> distinct (map fst ns) \<and> (\<forall>(i, q) \<in> set ns. i \<noteq> 0 \<and> q \<noteq> 0) \<and> sorted (map fst ns)"
  proof (cases "ps = []")
    case True
    then show ?thesis using assms by (auto simp: normalizeMailAttachments_def split: if_splits)
  next
    case False
    then obtain m order where m: "merge_attachments ps fmempty [] = Inr (m, order)" "ns = map (\<lambda>i. (i, map_get m i)) (sort order)"
      using assms by (auto simp: normalizeMailAttachments_def Let_def exchange_sort_eq split: if_splits sum.splits)
    have t: "\<forall>i. unat (map_get m i) = quantity_of i ps" "set order = fset (fmdom m)" "distinct order"
      "\<forall>i q. fmlookup m i = Some q \<longrightarrow> i \<noteq> 0 \<and> q \<noteq> 0"
      using merge_total [OF m(1)] by (simp_all add: map_get_def)
    have fs: "map fst ns = sort order" by (simp add: m(2) comp_def)
    have "quantity_of i (map (\<lambda>i. (i, map_get m i)) xs) = (if i \<in> set xs then unat (map_get m i) else 0)" if "distinct xs" for i xs
      using that by (induction xs) auto
    then have "quantity_of i ns = quantity_of i ps" for i
      using t by (auto simp: m(2) map_get_def fmdom_notD split: option.splits) (metis fmdomI option.distinct(1) option.simps(4) unat_0)+
    moreover have "i \<noteq> 0 \<and> q \<noteq> 0" if "(i, q) \<in> set ns" for i q
      using that t(2,4) by (auto simp: m(2) map_get_def fmlookup_dom_iff split: option.splits)
    ultimately show ?thesis using t(3) by (auto simp: fs)
  qed
  then show "\<forall>i. quantity_of i ns = quantity_of i ps" "distinct (map fst ns)" "\<forall>(i, q) \<in> set ns. i \<noteq> 0 \<and> q \<noteq> 0" "sorted (map fst ns)"
    by blast+
qed

section \<open>When a reward fits\<close>

lemma stack_fits: "\<not> a + b < a \<and> \<not> of_nat inventoryStackLimit < a + b \<longleftrightarrow> unat a + unat b \<le> 300" for a b :: u32
proof
  assume "\<not> a + b < a \<and> \<not> of_nat inventoryStackLimit < a + b"
  then have "unat (a + b) = unat a + unat b" "a + b \<le> 300" using stack_sum [of a b] by auto
  then show "unat a + unat b \<le> 300" by (simp add: word_le_nat_alt)
next
  assume f: "unat a + unat b \<le> 300"
  then have "unat (a + b) = unat a + unat b" using unat_add_lem [of a b] by simp
  then show "\<not> a + b < a \<and> \<not> of_nat inventoryStackLimit < a + b"
    using f by (simp add: word_less_nat_alt inventoryStackLimit_def)
qed

definition attachment_ok :: "u32 \<times> u32 \<Rightarrow> bool" where
  "attachment_ok p \<longleftrightarrow> fst p \<noteq> 0 \<and> snd p \<noteq> 0 \<and> snd p \<le> 300"

lemma merge_succeeds:
  "(\<exists>x. merge_attachments ps m order = Inr x) \<longleftrightarrow> list_all attachment_ok ps \<and> (\<forall>(i, q) \<in> set ps. unat (map_get m i) + quantity_of i ps \<le> 300)"
proof (induction ps arbitrary: m order)
  case (Cons p ps)
  obtain item q where p: "p = (item, q)" by fastforce
  let ?m = "fmupd item (map_get m item + q) m"
  show ?case
  proof (cases "attachment_ok p \<and> unat (map_get m item) + unat q \<le> 300")
    case True
    have n: "\<not> map_get m item + q < map_get m item" "\<not> of_nat inventoryStackLimit < map_get m item + q"
      using True stack_fits [of "map_get m item" q] by auto
    have g: "unat (map_get ?m i) + quantity_of i ps = unat (map_get m i) + quantity_of i (p # ps)" for i
      using stack_sum(1) [OF n] by (cases "i = item") (simp_all add: p map_simps)
    have a: "item \<noteq> 0" "q \<noteq> 0" "\<not> of_nat inventoryStackLimit < q" using True by (auto simp: attachment_ok_def p inventoryStackLimit_def)
    have "(\<exists>x. merge_attachments (p # ps) m order = Inr x) \<longleftrightarrow> list_all attachment_ok ps \<and>
        (\<forall>(i, q) \<in> set ps. unat (map_get m i) + quantity_of i (p # ps) \<le> 300)"
      using a n Cons.IH [of ?m] g by (simp add: p Let_def)
    moreover have "unat (map_get m item) + quantity_of item (p # ps) \<le> 300" if "\<forall>(i, q) \<in> set ps. unat (map_get m i) + quantity_of i (p # ps) \<le> 300"
    proof (cases "item \<in> fst ` set ps")
      case False
      then have "quantity_of item ps = 0" by (induction ps) auto
      then show ?thesis using True by (simp add: p)
    qed (use that in auto)
    ultimately show ?thesis using True by (auto simp: p)
  next
    case False
    then have "\<not> (\<exists>x. merge_attachments (p # ps) m order = Inr x)"
      using stack_fits [of "map_get m item" q] by (auto simp: p attachment_ok_def Let_def inventoryStackLimit_def)
    moreover have "\<not> (list_all attachment_ok (p # ps) \<and> (\<forall>(i, q) \<in> set (p # ps). unat (map_get m i) + quantity_of i (p # ps) \<le> 300))"
      using False by (auto simp: p)
    ultimately show ?thesis by blast
  qed
qed simp

definition mail_fits :: "(u32 \<times> u32) list \<Rightarrow> (u32, u32) fmap \<Rightarrow> bool" where
  "mail_fits ps m \<longleftrightarrow> (\<forall>i. unat (map_get m i) + quantity_of i ps \<le> 300) \<and> card (fset (fmdom m) \<union> fst ` set ps) \<le> inventoryTypeLimit"

lemma stock_limit: "inventory_ok m \<Longrightarrow> unat (map_get m i) \<le> 300"
  using inventory_ok_get [of m i] by (simp add: word_le_nat_alt)

lemma project_succeeds:
  assumes "distinct (map fst ns)" "\<forall>(i, q) \<in> set ns. i \<noteq> 0 \<and> q \<noteq> 0" "inventory_ok m" "map_len m \<le> inventoryTypeLimit"
  shows "if mail_fits ns m then \<exists>m'. projectMailAttachments ns (map_len m) m = Inr m' \<and> inventory_ok m' \<and>
      (\<forall>i. unat (map_get m' i) = unat (map_get m i) + quantity_of i ns) \<and> fset (fmdom m') = fset (fmdom m) \<union> fst ` set ns \<and>
      (\<forall>i. i \<notin> fst ` set ns \<longrightarrow> fmlookup m' i = fmlookup m i)
    else projectMailAttachments ns (map_len m) m = Inl ErrMailInventoryCapacity"
  using assms
proof (induction ns arbitrary: m)
  case Nil
  then show ?case using stock_limit [of m] by (simp add: mail_fits_def map_len_def fcard.rep_eq)
next
  case (Cons p ns)
  obtain item q where p: "p = (item, q)" by fastforce
  let ?cur = "map_get m item"
  let ?m = "fmupd item (?cur + q) m"
  have zero: "?cur = 0 \<longleftrightarrow> item \<notin> fset (fmdom m)"
    using Cons.prems(3) by (auto simp: inventory_ok_def map_get_def fmlookup_dom_iff split: option.splits)
  have dom: "fset (fmdom m) \<union> fst ` set (p # ns) = fset (fmdom ?m) \<union> fst ` set ns" by (auto simp: p)
  show ?case
  proof (cases "unat ?cur + unat q \<le> 300 \<and> \<not> (?cur = 0 \<and> inventoryTypeLimit \<le> map_len m)")
    case True
    have n: "\<not> ?cur + q < ?cur" "\<not> of_nat inventoryStackLimit < ?cur + q" using True stack_fits [of ?cur q] by auto
    note k = stack_sum [OF n]
    have "unat (?cur + q) \<noteq> 0" using k(1) Cons.prems(2) by (simp add: p unat_eq_zero)
    then have "0 < ?cur + q" by (metis unat_0 word_gt_0)
    then have ok: "inventory_ok ?m" using Cons.prems(2,3) k(2) by (intro inventory_ok_upd) (auto simp: p)
    have len: "map_len ?m = (if ?cur = 0 then map_len m + 1 else map_len m)" using zero by (simp add: map_len_upd)
    then have lim: "map_len ?m \<le> inventoryTypeLimit" using True Cons.prems(4) by auto
    have get: "unat (map_get ?m i) + quantity_of i ns = unat (map_get m i) + quantity_of i (p # ns)" for i
      using k(1) by (cases "i = item") (simp_all add: p map_simps)
    have fits: "mail_fits ns ?m = mail_fits (p # ns) m" unfolding mail_fits_def get dom ..
    have step: "projectMailAttachments (p # ns) (map_len m) m = projectMailAttachments ns (map_len ?m) ?m"
      using True n len by (auto simp: p Let_def)
    show ?thesis
      using Cons.IH [OF _ _ ok lim] Cons.prems(1,2) step fits get dom by (auto simp: p)
  next
    case False
    have "unat ?cur + quantity_of item (p # ns) \<ge> unat ?cur + unat q" by (simp add: p)
    moreover have "\<not> card (fset (fmdom m) \<union> fst ` set (p # ns)) \<le> inventoryTypeLimit" if "?cur = 0" "inventoryTypeLimit \<le> map_len m"
    proof -
      have "card (insert item (fset (fmdom m))) \<le> card (fset (fmdom m) \<union> fst ` set (p # ns))" by (rule card_mono) (auto simp: p)
      then show ?thesis using that zero by (simp add: map_len_def fcard.rep_eq)
    qed
    ultimately have "\<not> mail_fits (p # ns) m" using False unfolding mail_fits_def by (meson order_trans)
    moreover have "projectMailAttachments (p # ns) (map_len m) m = Inl ErrMailInventoryCapacity"
      using False stack_fits [of ?cur q] by (auto simp: p Let_def)
    ultimately show ?thesis by simp
  qed
qed

section \<open>Crediting\<close>

lemma fold_projected:
  assumes "\<forall>i. i \<notin> fst ` set ns \<longrightarrow> fmlookup m' i = fmlookup m i" "fst ` set ns \<subseteq> fset (fmdom m')"
  shows "fold (\<lambda>(i, q). fmupd i (map_get m' i)) ns m = m'"
proof -
  have "fmlookup (fold (\<lambda>(i, q). fmupd i (map_get m' i)) ns m) j = (if j \<in> fst ` set ns then Some (map_get m' j) else fmlookup m j)" for j
    by (induction ns arbitrary: m) auto
  moreover have "Some (map_get m' j) = fmlookup m' j" if "j \<in> fst ` set ns" for j
  proof -
    have "j |\<in>| fmdom m'" using assms(2) that by blast
    then show ?thesis by (auto simp: map_get_def fmlookup_dom_iff)
  qed
  ultimately show ?thesis using assms(1) by (intro fmap_ext) auto
qed

definition mail_request_ok :: "(u32 \<times> u32) list \<Rightarrow> int \<Rightarrow> bool" where
  "mail_request_ok ps coin \<longleftrightarrow> 0 \<le> coin \<and> (ps = [] \<longrightarrow> 0 < coin) \<and> length ps \<le> 8 \<and> list_all attachment_ok ps"

lemma normalize_fits:
  assumes "normalizeMailAttachments ps coin = Inr (ns, d)"
  shows "mail_fits ns m = mail_fits ps m"
proof -
  note k = normalize_props [OF assms]
  have mem: "i \<in> fst ` set qs \<longleftrightarrow> 0 < quantity_of i qs" if "\<forall>(i, q) \<in> set qs. q \<noteq> 0" for i qs
    using that by (induction qs) (auto simp: unat_gt_0)
  have "\<forall>(i, q) \<in> set ps. q \<noteq> 0"
  proof (cases "ps = []")
    case False
    then have "\<exists>x. merge_attachments ps fmempty [] = Inr x"
      using assms by (auto simp: normalizeMailAttachments_def split: if_splits sum.splits)
    then have "list_all attachment_ok ps" using merge_succeeds [of ps fmempty "[]"] by blast
    then show ?thesis by (auto simp: list_all_iff attachment_ok_def)
  qed simp
  then have a: "i \<in> fst ` set ps \<longleftrightarrow> 0 < quantity_of i ps" for i by (rule mem)
  have "\<forall>(i, q) \<in> set ns. q \<noteq> 0" using k(3) by auto
  then have "i \<in> fst ` set ns \<longleftrightarrow> 0 < quantity_of i ns" for i by (rule mem)
  then have "fst ` set ns = fst ` set ps" using a k(1) by (intro set_eqI) simp
  then show ?thesis using k(1) by (simp add: mail_fits_def)
qed

lemma normalize_succeeds:
  "(\<exists>x. normalizeMailAttachments ps coin = Inr x) \<longleftrightarrow> mail_request_ok ps coin \<and> (\<forall>(i, q) \<in> set ps. quantity_of i ps \<le> 300)"
  using merge_succeeds [of ps fmempty "[]"]
  by (auto simp: normalizeMailAttachments_def mail_request_ok_def Let_def map_simps split: sum.splits)

section \<open>Properties\<close>



text \<open>
  Any sequence of claims, with anything between them that keeps the receipts. The log holds the claim, the
  mail and the answer of each.
\<close>

inductive mail_run :: "state \<Rightarrow> (bytes \<times> string \<times> mail_result) list \<Rightarrow> state \<Rightarrow> bool" for s0 where
  idle: "mail_run s0 [] s0"
| claimed: "mail_run s0 log s \<Longrightarrow> ApplyMailReward epoch claimID mailID ps coin now s = (Inr r, s') \<Longrightarrow>
    mail_run s0 (log @ [(claimID, mailID, r)]) s'"
| refused: "mail_run s0 log s \<Longrightarrow> ApplyMailReward epoch claimID mailID ps coin now s = (Inl e, s') \<Longrightarrow> mail_run s0 log s'"
| meanwhile: "mail_run s0 log s \<Longrightarrow> st_mail_claim_receipts s' = st_mail_claim_receipts s \<Longrightarrow> mail_run s0 log s'"

definition receipt_matches :: "mail_claim_receipt \<Rightarrow> bytes \<times> string \<times> mail_result \<Rightarrow> bool" where
  "receipt_matches rc x \<longleftrightarrow> (case x of (c, m, r) \<Rightarrow> c = mcr_claim_id rc \<and> mr_items_added r = stack_views (mcr_attachments rc) \<and>
     mr_coins_added r = mcr_coin_amount rc)"

definition of_mail :: "string \<Rightarrow> (bytes \<times> string \<times> mail_result) list \<Rightarrow> (bytes \<times> string \<times> mail_result) list" where
  "of_mail m log = filter (\<lambda>(c, m', r). m' = m) log"

definition newly :: "bytes \<times> string \<times> mail_result \<Rightarrow> bool" where
  "newly x = mr_newly_applied (snd (snd x))"

text \<open>The receipts of a mail and its answers so far.\<close>

fun mail_books :: "mail_claim_receipt list \<Rightarrow> (bytes \<times> string \<times> mail_result) list \<Rightarrow> bool" where
  "mail_books [] answers \<longleftrightarrow> answers = []"
| "mail_books [rc] answers \<longleftrightarrow> list_all (receipt_matches rc) answers \<and> length (filter newly answers) = 1"
| "mail_books _ answers \<longleftrightarrow> False"

definition mail_ledger :: "string \<Rightarrow> (bytes \<times> string \<times> mail_result) list \<Rightarrow> state \<Rightarrow> bool" where
  "mail_ledger m log s = mail_books (filter (\<lambda>rc. mcr_mail_id rc = m) (st_mail_claim_receipts s)) (of_mail m log)"

lemma of_mail_append [simp]: "of_mail m [] = []" "of_mail m (log @ [(c, m', r)]) = of_mail m log @ (if m' = m then [(c, m', r)] else [])"
  by (simp_all add: of_mail_def)

lemma mail_booksD: "mail_books rcs answers \<Longrightarrow> rcs = [] \<and> answers = [] \<or>
   (\<exists>rc. rcs = [rc] \<and> list_all (receipt_matches rc) answers \<and> length (filter newly answers) = 1)"
  by (cases "(rcs, answers)" rule: mail_books.cases) auto

lemma find_mem: "find P xs = Some x \<Longrightarrow> P x \<and> x \<in> set xs"
  by (induction xs) (auto split: if_splits)

lemma list_ex_filter: "list_ex P xs \<longleftrightarrow> filter P xs \<noteq> []"
  by (induction xs) auto

lemma apply_ledger:
  assumes "mail_ledger m log s" "applyMailReward claimID mailID ps coin now s = (res, s')"
  shows "mail_ledger m (case res of Inl e \<Rightarrow> log | Inr r \<Rightarrow> log @ [(claimID, mailID, r)]) s'"
proof -
  let ?F = "\<lambda>m s. filter (\<lambda>rc. mcr_mail_id rc = m) (st_mail_claim_receipts s)"
  let ?log = "case res of Inl e \<Rightarrow> log | Inr r \<Rightarrow> log @ [(claimID, mailID, r)]"
  show ?thesis
  proof (cases res)
    case (Inl e)
    then have "s' = s" using assms(2) by (auto simp: applyMailReward_def Let_def split: if_splits sum.splits option.splits)
    then show ?thesis using assms(1) Inl by simp
  next
    case (Inr r)
    consider (replay) rc where "s' = s" "rc \<in> set (?F mailID s)" "mcr_claim_id rc = claimID" "r = replayMailReward s rc"
      | (fresh) ns projected where "?F mailID s = []" "s' = credit_mail claimID mailID ns projected coin now s" "mr_newly_applied r"
        "mr_items_added r = stack_views ns" "mr_coins_added r = coin"
      using assms(2) Inr by (auto simp: applyMailReward_def Let_def list_ex_filter split: if_splits sum.splits option.splits
          dest!: find_mem)
    then show ?thesis
    proof cases
      case replay
      show ?thesis
      proof (cases "mailID = m")
        case True
        then have mem: "rc \<in> set (?F m s)" using replay(2) by simp
        then have "?F m s \<noteq> []" by force
        then obtain rc2 where f: "?F m s = [rc2]" using mail_booksD [OF assms(1) [unfolded mail_ledger_def]] by blast
        then have "?F m s = [rc]" using mem by (metis empty_iff insert_iff list.set(1) list.set(2))
        then show ?thesis using assms(1) replay True Inr
          by (simp add: mail_ledger_def receipt_matches_def replayMailReward_def newly_def)
      qed (use assms(1) replay(1) Inr in \<open>simp add: mail_ledger_def\<close>)
    next
      case fresh
      show ?thesis
      proof (cases "mailID = m")
        case True
        then have "of_mail m log = []" using assms(1) fresh(1) by (simp add: mail_ledger_def)
        then show ?thesis using fresh True Inr
          by (simp add: mail_ledger_def credit_mail_def receipt_matches_def newly_def)
      qed (use assms(1) fresh(2) Inr in \<open>simp add: mail_ledger_def credit_mail_def\<close>)
    qed
  qed
qed

lemma mail_run_ledger: "mail_run s0 log s \<Longrightarrow> mail_ledger m [] s0 \<Longrightarrow> mail_ledger m log s"
proof (induction rule: mail_run.induct)
  case (claimed log s epoch claimID mailID ps coin now r s')
  then have "applyMailReward claimID mailID ps coin now s = (Inr r, s')" by (auto simp: ApplyMailReward_def split: if_splits)
  then show ?case using apply_ledger [of m log s claimID mailID ps coin now "Inr r" s'] claimed by simp
next
  case (refused log s epoch claimID mailID ps coin now e s')
  then have "s' = s \<or> applyMailReward claimID mailID ps coin now s = (Inl e, s')" by (auto simp: ApplyMailReward_def split: if_splits)
  then show ?case using apply_ledger [of m log s claimID mailID ps coin now "Inl e" s'] refused by auto
qed (simp_all add: mail_ledger_def)

text \<open>
  C40: a mail is credited at most once. From a player without a receipt of the mail, through any sequence of
  claims under any claim identifiers, epochs and contents, with anything in between that keeps the receipts,
  at most one answer about the mail says that it was newly credited, and all answers about it name the same
  claim, the same items and the same coins.
\<close>

theorem mail_credited_once:
  assumes "mail_run s0 log s" "\<forall>r \<in> set (st_mail_claim_receipts s0). mcr_mail_id r \<noteq> m"
  shows "length (filter newly (of_mail m log)) \<le> 1 \<and>
    (\<forall>x \<in> set (of_mail m log). \<forall>y \<in> set (of_mail m log). fst x = fst y \<and>
       mr_items_added (snd (snd x)) = mr_items_added (snd (snd y)) \<and> mr_coins_added (snd (snd x)) = mr_coins_added (snd (snd y)))"
proof -
  have "filter (\<lambda>rc. mcr_mail_id rc = m) (st_mail_claim_receipts s0) = []" using assms(2) by (simp add: filter_empty_conv)
  then have "mail_ledger m [] s0" by (simp add: mail_ledger_def)
  then have "mail_ledger m log s" by (rule mail_run_ledger [OF assms(1)])
  then consider "of_mail m log = []" | rc where "list_all (receipt_matches rc) (of_mail m log)" "length (filter newly (of_mail m log)) = 1"
    using mail_booksD by (auto simp: mail_ledger_def)
  then show ?thesis
  proof cases
    case (2 rc)
    have "fst x = mcr_claim_id rc \<and> mr_items_added (snd (snd x)) = stack_views (mcr_attachments rc) \<and> mr_coins_added (snd (snd x)) = mcr_coin_amount rc"
      if "x \<in> set (of_mail m log)" for x
      using 2(1) that by (cases x) (auto simp: list_all_iff receipt_matches_def)
    then show ?thesis using 2(2) by simp
  qed simp
qed

theorem mail_credited_once_witness:
  "\<exists>r s r' s'. ApplyMailReward 1 (replicate 16 1) ''m'' [(2001, 2)] 5 13000 hoarder = (Inr r, s) \<and>
     ApplyMailReward 1 (replicate 16 1) ''m'' [(2001, 2)] 5 14000 s = (Inr r', s') \<and>
     length (filter newly [(replicate 16 1, ''m'', r), (replicate 16 1, ''m'', r')]) \<le> 1 \<and> mr_items_added r' = mr_items_added r"
proof -
  let ?apply = "\<lambda>now. ApplyMailReward 1 (replicate 16 1) ''m'' [(2001, 2)] 5 now"
  have h: "st_mail_claim_receipts hoarder = []" by (simp add: hoarder_def garden_def NewDevelopmentState_def)
  have n: "normalizeMailAttachments [(2001, 2)] 5 = Inr ([(2001, 2)], sha256 (be32 2001 @ be32 2))"
    by (simp add: normalizeMailAttachments_def exchange_sort_eq map_simps inventoryStackLimit_def Let_def)
  obtain r s where r: "?apply 13000 hoarder = (Inr r, s)" "st_owner_epoch s = 1" "st_mail_claim_receipts s = [\<lparr>mcr_mail_id = ''m'',
      mcr_claim_id = replicate 16 1, mcr_applied_at_ms = 13000, mcr_attachments = [(2001, 2)], mcr_coin_amount = 5\<rparr>]"
    by (simp add: ApplyMailReward_def applyMailReward_def n h epoch_error_def map_simps inventoryStackLimit_def Let_def credit_mail_def)
  obtain r' where r': "?apply 14000 s = (Inr r', s)"
    using r(2,3) by (simp add: ApplyMailReward_def applyMailReward_def n epoch_error_def)
  let ?x = "(replicate 16 1 :: bytes, ''m'', r)" and ?y = "(replicate 16 1 :: bytes, ''m'', r')"
  have run: "mail_run hoarder (([] @ [?x]) @ [?y]) s" by (rule mail_run.claimed [OF mail_run.claimed [OF mail_run.idle r(1)] r'])
  have pre: "\<forall>rc \<in> set (st_mail_claim_receipts hoarder). mcr_mail_id rc \<noteq> ''m''" by (simp add: h)
  have log: "of_mail ''m'' (([] @ [?x]) @ [?y]) = [?x, ?y]" by (simp add: of_mail_def)
  note k = mail_credited_once [OF run pre, unfolded log]
  have "mr_items_added r' = mr_items_added r" using bspec [OF bspec [OF conjunct2 [OF k], of ?y], of ?x] by simp
  then show ?thesis using r(1) r' conjunct1 [OF k] by blast
qed

end
