(* ===== verification/Mailbox.thy ===== *)
theory Mailbox
  imports Steal_Saga Mail_Reward "HOL-Library.Product_Lexorder"
begin

text \<open>
  The mail service (package \<open>internal/mail\<close>): the store of mails, read and claimed marks and source events
  (\<open>memory_store.go\<close>), opening a mailbox page by page, marking mails read, counting unread ones, and creating
  mails once per source event (\<open>service.go\<close>, \<open>ids.go\<close>). Reads of the store succeed; a write has a \<open>fate\<close>. Between the
  read and the write of a marking loop other writers may act, as a function on the store. What the service sends
  to the info service and to the red-dot notifier is returned as a list of effects. Strings are UTF-8 bytes.
\<close>

section \<open>Records\<close>

datatype mail_type = MAIL_TYPE_UNSPECIFIED | MAIL_TYPE_PUBLIC | MAIL_TYPE_PRIVATE | MAIL_TYPE_GIFT
datatype mail_sender_type = MAIL_SENDER_TYPE_UNSPECIFIED | MAIL_SENDER_TYPE_SYSTEM | MAIL_SENDER_TYPE_PLAYER

text \<open>\<open>PublicMail\<close> and \<open>PrivateMail\<close> differ in the recipient only.\<close>

record mail_record =
  ml_mail_id :: string
  ml_mail_type :: mail_type
  ml_created_at_ms :: int
  ml_published_at_ms :: int
  ml_sender_type :: mail_sender_type
  ml_sender_player_id :: u64
  ml_sender_display_name :: string
  ml_title :: string
  ml_content :: string
  ml_attachments :: "(u32 \<times> u32) list"
  ml_source_event_id :: string
  ml_coin_amount :: int

record private_mail = mail_record +
  pm_recipient_player_id :: u64

type_synonym public_mail = mail_record

record mail_state =
  mt_player_id :: u64
  mt_mail_id :: string
  mt_read :: bool
  mt_claimed :: bool
  mt_updated_at_ms :: int

record source_dedup =
  sd_source_event_id :: string
  sd_mail_id :: string
  sd_created_at_ms :: int

datatype claim_status = CLAIM_STATUS_UNSPECIFIED | CLAIM_INIT | CLAIMING | PLAYER_APPLIED | CLAIM_COMPLETED | CANCELLING | AVAILABLE

record claim_saga =
  cl_claim_id :: bytes
  cl_mail_id :: string
  cl_player_id :: u64
  cl_attachments :: "(u32 \<times> u32) list"
  cl_state :: claim_status
  cl_retry_at_ms :: int
  cl_last_error :: string
  cl_created_at_ms :: int
  cl_updated_at_ms :: int
  cl_attachments_digest :: bytes
  cl_coin_amount :: int

text \<open>Versions are \<open>int32\<close> counters that are only compared for equality.\<close>

record mail_store =
  ms_accounts :: "(u64, int) fmap"
  ms_public :: "(string, public_mail) fmap"
  ms_private :: "(string, private_mail) fmap"
  ms_states :: "(string, mail_state \<times> u32) fmap"
  ms_dedup :: "(string, source_dedup) fmap"
  ms_claims :: "(bytes, claim_saga \<times> u32) fmap"

datatype mail_store_error = MailNotFound | MailAlreadyExists | MailVersionConflict | MailUnavailable

section \<open>The store\<close>

definition NewMemoryStore :: mail_store where
  "NewMemoryStore = \<lparr>ms_accounts = fmempty, ms_public = fmempty, ms_private = fmempty, ms_states = fmempty,
     ms_dedup = fmempty, ms_claims = fmempty\<rparr>"

definition SeedAccount :: "u64 \<Rightarrow> int \<Rightarrow> mail_store \<Rightarrow> mail_store" where
  "SeedAccount playerID registeredAt st = st\<lparr>ms_accounts := fmupd playerID registeredAt (ms_accounts st)\<rparr>"

definition RegisteredAtMS :: "u64 \<Rightarrow> mail_store \<Rightarrow> int option" where
  "RegisteredAtMS playerID st = fmlookup (ms_accounts st) playerID"

definition privateKey :: "u64 \<Rightarrow> string \<Rightarrow> string" where
  "privateKey recipient mailID = decimal (unat recipient) @ '':'' @ mailID"

definition stateKey :: "u64 \<Rightarrow> string \<Rightarrow> string" where
  "stateKey playerID mailID = decimal (unat playerID) @ '':'' @ mailID"

definition mailLessDesc :: "int \<Rightarrow> string \<Rightarrow> int \<Rightarrow> string \<Rightarrow> bool" where
  "mailLessDesc createdI idI createdJ idJ = (if createdI \<noteq> createdJ then createdI > createdJ else idI > idJ)"

text \<open>\<open>sort.Slice\<close> with \<open>mailLessDesc\<close>: the greatest key first.\<close>

definition sort_desc :: "('a \<Rightarrow> int) \<Rightarrow> ('a \<Rightarrow> string) \<Rightarrow> 'a list \<Rightarrow> 'a list" where
  "sort_desc created ident xs = rev (sort_key (\<lambda>x. (created x, ident x)) xs)"

definition map_values :: "('k::linorder, 'v) fmap \<Rightarrow> 'v list" where
  "map_values m = map (\<lambda>k. the (fmlookup m k)) (map_keys m)"

definition InsertPublicMail :: "public_mail \<Rightarrow> mail_store \<Rightarrow> (mail_store_error + unit) \<times> mail_store" where
  "InsertPublicMail r st =
     (if ml_mail_id r = [] then (Inl MailNotFound, st)
      else case fmlookup (ms_public st) (ml_mail_id r) of
        Some _ \<Rightarrow> (Inl MailAlreadyExists, st)
      | None \<Rightarrow> (Inr (), st\<lparr>ms_public := fmupd (ml_mail_id r) r (ms_public st)\<rparr>))"

definition GetPublicMail :: "string \<Rightarrow> mail_store \<Rightarrow> public_mail option" where
  "GetPublicMail mailID st = fmlookup (ms_public st) mailID"

definition ListPublicMails :: "mail_store \<Rightarrow> public_mail list" where
  "ListPublicMails st = sort_desc ml_created_at_ms ml_mail_id (map_values (ms_public st))"

definition InsertPrivateMail :: "private_mail \<Rightarrow> mail_store \<Rightarrow> (mail_store_error + unit) \<times> mail_store" where
  "InsertPrivateMail r st =
     (let key = privateKey (pm_recipient_player_id r) (ml_mail_id r)
      in if ml_mail_id r = [] \<or> pm_recipient_player_id r = 0 then (Inl MailNotFound, st)
         else case fmlookup (ms_private st) key of
           Some _ \<Rightarrow> (Inl MailAlreadyExists, st)
         | None \<Rightarrow> (Inr (), st\<lparr>ms_private := fmupd key r (ms_private st)\<rparr>))"

definition ListPrivateMails :: "u64 \<Rightarrow> mail_store \<Rightarrow> private_mail list" where
  "ListPrivateMails recipient st =
     sort_desc ml_created_at_ms ml_mail_id (filter (\<lambda>r. pm_recipient_player_id r = recipient) (map_values (ms_private st)))"

definition GetPrivateMail :: "u64 \<Rightarrow> string \<Rightarrow> mail_store \<Rightarrow> private_mail option" where
  "GetPrivateMail recipient mailID st = fmlookup (ms_private st) (privateKey recipient mailID)"

definition GetMailState :: "u64 \<Rightarrow> string \<Rightarrow> mail_store \<Rightarrow> (mail_state \<times> u32) option" where
  "GetMailState playerID mailID st = fmlookup (ms_states st) (stateKey playerID mailID)"

definition ListMailStates :: "u64 \<Rightarrow> mail_store \<Rightarrow> mail_state list" where
  "ListMailStates playerID st = filter (\<lambda>s. mt_player_id s = playerID) (map fst (map_values (ms_states st)))"

definition InsertMailState :: "mail_state \<Rightarrow> mail_store \<Rightarrow> (mail_store_error + u32) \<times> mail_store" where
  "InsertMailState r st =
     (let key = stateKey (mt_player_id r) (mt_mail_id r)
      in case fmlookup (ms_states st) key of
           Some _ \<Rightarrow> (Inl MailAlreadyExists, st)
         | None \<Rightarrow> (Inr 1, st\<lparr>ms_states := fmupd key (r, 1) (ms_states st)\<rparr>))"

definition UpdateMailState :: "mail_state \<Rightarrow> u32 \<Rightarrow> mail_store \<Rightarrow> (mail_store_error + u32) \<times> mail_store" where
  "UpdateMailState r expectedVersion st =
     (let key = stateKey (mt_player_id r) (mt_mail_id r)
      in case fmlookup (ms_states st) key of
           None \<Rightarrow> (Inl MailNotFound, st)
         | Some (_, version) \<Rightarrow>
             if version \<noteq> expectedVersion then (Inl MailVersionConflict, st)
             else (Inr (version + 1), st\<lparr>ms_states := fmupd key (r, version + 1) (ms_states st)\<rparr>))"

definition TryInsertSourceDedup :: "source_dedup \<Rightarrow> mail_store \<Rightarrow> (mail_store_error + unit) \<times> mail_store" where
  "TryInsertSourceDedup r st =
     (if sd_source_event_id r = [] then (Inl MailNotFound, st)
      else case fmlookup (ms_dedup st) (sd_source_event_id r) of
        Some _ \<Rightarrow> (Inl MailAlreadyExists, st)
      | None \<Rightarrow> (Inr (), st\<lparr>ms_dedup := fmupd (sd_source_event_id r) r (ms_dedup st)\<rparr>))"

definition GetSourceDedup :: "string \<Rightarrow> mail_store \<Rightarrow> source_dedup option" where
  "GetSourceDedup sourceEventID st = fmlookup (ms_dedup st) sourceEventID"

definition GetClaimSaga :: "bytes \<Rightarrow> mail_store \<Rightarrow> (claim_saga \<times> u32) option" where
  "GetClaimSaga claimID st = fmlookup (ms_claims st) claimID"

definition InsertClaimSaga :: "claim_saga \<Rightarrow> mail_store \<Rightarrow> (mail_store_error + u32) \<times> mail_store" where
  "InsertClaimSaga r st = (case fmlookup (ms_claims st) (cl_claim_id r) of
       Some _ \<Rightarrow> (Inl MailAlreadyExists, st)
     | None \<Rightarrow> (Inr 1, st\<lparr>ms_claims := fmupd (cl_claim_id r) (r, 1) (ms_claims st)\<rparr>))"

definition UpdateClaimSaga :: "claim_saga \<Rightarrow> u32 \<Rightarrow> mail_store \<Rightarrow> (mail_store_error + u32) \<times> mail_store" where
  "UpdateClaimSaga r expectedVersion st = (case fmlookup (ms_claims st) (cl_claim_id r) of
       None \<Rightarrow> (Inl MailNotFound, st)
     | Some (_, version) \<Rightarrow>
         if version \<noteq> expectedVersion then (Inl MailVersionConflict, st)
         else (Inr (version + 1), st\<lparr>ms_claims := fmupd (cl_claim_id r) (r, version + 1) (ms_claims st)\<rparr>))"

definition ListClaimSagas :: "mail_store \<Rightarrow> claim_saga list" where
  "ListClaimSagas st = map fst (map_values (ms_claims st))"

section \<open>Identifiers and page tokens\<close>

text \<open>\<open>strconv.FormatInt\<close> and \<open>ParseInt\<close> with base ten and 64 bits.\<close>

definition FormatInt :: "int \<Rightarrow> string" where
  "FormatInt i = (if i < 0 then CHR ''-'' # decimal (nat (- i)) else decimal (nat i))"

fun parse_digits :: "nat \<Rightarrow> string \<Rightarrow> nat option" where
  "parse_digits acc [] = Some acc"
| "parse_digits acc (c # cs) =
     (let d = of_char c in if 48 \<le> d \<and> d \<le> (57 :: nat) then parse_digits (acc * 10 + (d - 48)) cs else None)"

definition ParseInt :: "string \<Rightarrow> int option" where
  "ParseInt s =
     (let (negative, digits) = (case s of [] \<Rightarrow> (False, []) | c # cs \<Rightarrow>
            if c = CHR ''-'' then (True, cs) else if c = CHR ''+'' then (False, cs) else (False, s))
      in if digits = [] then None
         else case parse_digits 0 digits of None \<Rightarrow> None
           | Some n \<Rightarrow> let i = (if negative then - int n else int n) in if in_i64 i then Some i else None)"

text \<open>The eight random bytes are an argument; \<open>None\<close> when the generator fails.\<close>

definition newMailID :: "int \<Rightarrow> bytes option \<Rightarrow> string option" where
  "newMailID now raw = (case raw of None \<Rightarrow> None | Some bs \<Rightarrow> Some (''m'' @ FormatInt now @ hex_encode bs))"

definition encodePageToken :: "int \<Rightarrow> string \<Rightarrow> string" where
  "encodePageToken created mailID = FormatInt created @ ''|'' @ mailID"

definition decodePageToken :: "string \<Rightarrow> (int \<times> string) option" where
  "decodePageToken token =
     (let t = TrimSpace token
      in if t = [] then Some (0, [])
         else case dropWhile (\<lambda>c. c \<noteq> CHR ''|'') t of
           [] \<Rightarrow> None
         | _ # mailID \<Rightarrow>
             if mailID = [] then None
             else (case ParseInt (takeWhile (\<lambda>c. c \<noteq> CHR ''|'') t) of None \<Rightarrow> None | Some created \<Rightarrow> Some (created, mailID)))"

definition afterPageToken :: "int \<Rightarrow> string \<Rightarrow> int \<Rightarrow> string \<Rightarrow> bool" where
  "afterPageToken created mailID tokenCreated tokenMailID =
     (if tokenMailID = [] then True
      else if created \<noteq> tokenCreated then created < tokenCreated else mailID < tokenMailID)"

section \<open>Visible mails\<close>

datatype mail_kind = MAIL_KIND_PUBLIC | MAIL_KIND_PRIVATE | MAIL_KIND_GIFT

record mail_view =
  mv_mail_id :: string
  mv_kind :: mail_kind
  mv_created_at_ms :: int
  mv_published_at_ms :: int
  mv_sender_display_name :: string
  mv_sender_player_id :: u64
  mv_recipient_player_id :: u64
  mv_title :: string
  mv_content :: string
  mv_attachments :: "(u32 \<times> u32) list"
  mv_read :: bool
  mv_claimed :: bool
  mv_coin_amount :: int

definition GetRead :: "mail_state option \<Rightarrow> bool" where
  "GetRead s = (case s of None \<Rightarrow> False | Some x \<Rightarrow> mt_read x)"

definition GetClaimed :: "mail_state option \<Rightarrow> bool" where
  "GetClaimed s = (case s of None \<Rightarrow> False | Some x \<Rightarrow> mt_claimed x)"

definition toPublicView :: "public_mail \<Rightarrow> mail_state option \<Rightarrow> mail_view" where
  "toPublicView r s = \<lparr>mv_mail_id = ml_mail_id r, mv_kind = MAIL_KIND_PUBLIC, mv_created_at_ms = ml_created_at_ms r,
     mv_published_at_ms = ml_published_at_ms r, mv_sender_display_name = ml_sender_display_name r,
     mv_sender_player_id = ml_sender_player_id r, mv_recipient_player_id = 0, mv_title = ml_title r, mv_content = ml_content r,
     mv_attachments = ml_attachments r, mv_read = GetRead s, mv_claimed = GetClaimed s, mv_coin_amount = ml_coin_amount r\<rparr>"

definition toPrivateView :: "private_mail \<Rightarrow> mail_state option \<Rightarrow> mail_view" where
  "toPrivateView r s = \<lparr>mv_mail_id = ml_mail_id r,
     mv_kind = (if ml_mail_type r = MAIL_TYPE_GIFT then MAIL_KIND_GIFT else MAIL_KIND_PRIVATE),
     mv_created_at_ms = ml_created_at_ms r, mv_published_at_ms = ml_published_at_ms r,
     mv_sender_display_name = ml_sender_display_name r, mv_sender_player_id = ml_sender_player_id r,
     mv_recipient_player_id = pm_recipient_player_id r, mv_title = ml_title r, mv_content = ml_content r,
     mv_attachments = ml_attachments r, mv_read = GetRead s, mv_claimed = GetClaimed s, mv_coin_amount = ml_coin_amount r\<rparr>"

text \<open>The map filled by a loop over the states: the last entry of an identifier stays.\<close>

definition stateByMailID :: "mail_state list \<Rightarrow> string \<Rightarrow> mail_state option" where
  "stateByMailID states mailID = find (\<lambda>s. mt_mail_id s = mailID) (rev states)"

definition sortMailViews :: "mail_view list \<Rightarrow> mail_view list" where
  "sortMailViews = sort_desc mv_created_at_ms mv_mail_id"

definition listVisibleMails :: "u64 \<Rightarrow> int \<Rightarrow> mail_store \<Rightarrow> mail_view list" where
  "listVisibleMails playerID registeredAt st =
     (let states = stateByMailID (ListMailStates playerID st)
      in sortMailViews
        (map (\<lambda>r. toPublicView r (states (ml_mail_id r))) (filter (\<lambda>r. \<not> ml_published_at_ms r \<le> registeredAt) (ListPublicMails st)) @
         map (\<lambda>r. toPrivateView r (states (ml_mail_id r))) (ListPrivateMails playerID st)))"

definition mailVisibleToPlayer :: "u64 \<Rightarrow> int \<Rightarrow> string \<Rightarrow> mail_store \<Rightarrow> bool" where
  "mailVisibleToPlayer playerID registeredAt mailID st = (case GetPublicMail mailID st of
       Some r \<Rightarrow> ml_published_at_ms r > registeredAt
     | None \<Rightarrow> GetPrivateMail playerID mailID st \<noteq> None)"

definition countUnreadMailViews :: "mail_view list \<Rightarrow> u32" where
  "countUnreadMailViews views = of_nat (length (filter (\<lambda>v. \<not> mv_read v) views))"

definition countUnreadVisibleMails :: "u64 \<Rightarrow> int \<Rightarrow> mail_store \<Rightarrow> u32" where
  "countUnreadVisibleMails playerID registeredAt st = countUnreadMailViews (listVisibleMails playerID registeredAt st)"

definition collectUnreadPublicMailIDs :: "mail_view list \<Rightarrow> string list" where
  "collectUnreadPublicMailIDs views = map mv_mail_id (filter (\<lambda>v. mv_kind v = MAIL_KIND_PUBLIC \<and> \<not> mv_read v) views)"

definition markPublicViewsRead :: "mail_view list \<Rightarrow> mail_view list" where
  "markPublicViewsRead = map (\<lambda>v. if mv_kind v = MAIL_KIND_PUBLIC then v\<lparr>mv_read := True\<rparr> else v)"

section \<open>Reading a mailbox\<close>

text \<open>
  Go errors of the service: one of the store, one that wraps \<open>ErrNotFound\<close> with a message, a missing
  registration time or a failed random generator.
\<close>

datatype mail_failure = MailFailed mail_store_error | WrappedNotFound string | RegistrationMissing | RandomFailed

definition is_not_found :: "mail_failure \<Rightarrow> bool" where
  "is_not_found e = (case e of MailFailed x \<Rightarrow> x = MailNotFound | WrappedNotFound _ \<Rightarrow> True | _ \<Rightarrow> False)"

datatype mail_effect =
    SetMailbox u64 u32 int
  | AdvancePublicWatermark int
  | SetMailRedDot u64 string u32
  | BackfillReads u64 "string list"

definition DefaultPageSize :: nat where "DefaultPageSize = 20"
definition MaxPageSize :: nat where "MaxPageSize = 50"

definition resolveRegisteredAt :: "u64 \<Rightarrow> int \<Rightarrow> mail_store \<Rightarrow> mail_failure + int" where
  "resolveRegisteredAt playerID requested st =
     (if requested > 0 then Inr requested
      else case RegisteredAtMS playerID st of
        None \<Rightarrow> Inl RegistrationMissing
      | Some at \<Rightarrow> if at \<le> 0 then Inl RegistrationMissing else Inr at)"

definition page_size :: "u32 \<Rightarrow> nat" where
  "page_size requested = (let n = (if unat requested \<le> 0 then DefaultPageSize else unat requested)
     in if n > MaxPageSize then MaxPageSize else n)"

text \<open>The loop over the views: \<open>page\<close> is what was taken so far.\<close>

fun page_loop :: "int \<Rightarrow> string \<Rightarrow> nat \<Rightarrow> mail_view list \<Rightarrow> mail_view list \<Rightarrow> mail_view list \<times> string" where
  "page_loop tokenCreated tokenMailID limit page [] = (page, [])"
| "page_loop tokenCreated tokenMailID limit page (v # vs) =
     (if \<not> afterPageToken (mv_created_at_ms v) (mv_mail_id v) tokenCreated tokenMailID
      then page_loop tokenCreated tokenMailID limit page vs
      else if length page = limit
      then (page, encodePageToken (mv_created_at_ms (List.last page)) (mv_mail_id (List.last page)))
      else page_loop tokenCreated tokenMailID limit (page @ [v]) vs)"

datatype open_response = OpenMailboxResponse
  (or_mails: "mail_view list") (or_next_page_token: string) (or_opened_at_ms: int) (or_error: "ws_error option")

abbreviation invalidArg :: ws_error where
  "invalidArg \<equiv> plain_error INVALID_ARGUMENT"

definition OpenMailbox :: "u64 \<Rightarrow> int \<Rightarrow> u32 \<Rightarrow> string \<Rightarrow> int \<Rightarrow> mail_store \<Rightarrow> (mail_failure + open_response) \<times> mail_effect list" where
  "OpenMailbox playerID requestedAt pageSize pageToken now st =
     (if playerID = 0 then (Inr (OpenMailboxResponse [] [] 0 (Some invalidArg)), [])
      else case resolveRegisteredAt playerID requestedAt st of Inl e \<Rightarrow> (Inl e, [])
      | Inr registeredAt \<Rightarrow>
      (case decodePageToken pageToken of None \<Rightarrow> (Inr (OpenMailboxResponse [] [] 0 (Some invalidArg)), [])
      | Some (tokenCreated, tokenMailID) \<Rightarrow>
          let views = listVisibleMails playerID registeredAt st;
              unread = collectUnreadPublicMailIDs views;
              shown = markPublicViewsRead views;
              (page, nextToken) = page_loop tokenCreated tokenMailID (page_size pageSize) [] shown
          in (Inr (OpenMailboxResponse page nextToken now None),
              SetMailbox playerID (countUnreadMailViews shown) now # (if unread \<noteq> [] then [BackfillReads playerID unread] else []))))"

section \<open>Marking\<close>

text \<open>
  One attempt of the loops of \<open>markRead\<close> and \<open>markMailClaimed\<close> after the state was read: insert a new one, or stop
  when the mark is there, or write it back under the version read.
\<close>

datatype mark_outcome = Marked | TryAgain | MarkFailed mail_store_error

definition mark_write ::
  "(mail_state \<Rightarrow> bool) \<Rightarrow> (mail_state \<Rightarrow> mail_state) \<Rightarrow> mail_state \<Rightarrow> (mail_state \<times> u32) option \<Rightarrow> fate \<Rightarrow> mail_store \<Rightarrow>
   mark_outcome \<times> mail_store" where
  "mark_write marked mark fresh seen f st = (case seen of
       None \<Rightarrow>
         (case with_fate f MailUnavailable (InsertMailState fresh) st of
            (Inr _, st1) \<Rightarrow> (Marked, st1)
          | (Inl e, st1) \<Rightarrow> (if e = MailAlreadyExists then TryAgain else MarkFailed e, st1))
     | Some (s, version) \<Rightarrow>
         if marked s then (Marked, st)
         else (case with_fate f MailUnavailable (UpdateMailState (mark s) version) st of
                 (Inr _, st1) \<Rightarrow> (Marked, st1)
               | (Inl e, st1) \<Rightarrow> (if e = MailVersionConflict then TryAgain else MarkFailed e, st1)))"

text \<open>\<open>n\<close> attempts are left; \<open>cs n\<close> are the writes of others during this one and the fate of the write.\<close>

type_synonym mark_conditions = "nat \<Rightarrow> (mail_store \<Rightarrow> mail_store) \<times> fate"

fun mark_loop ::
  "(mail_state \<Rightarrow> bool) \<Rightarrow> (mail_state \<Rightarrow> mail_state) \<Rightarrow> mail_state \<Rightarrow> mark_conditions \<Rightarrow> nat \<Rightarrow> mail_store \<Rightarrow>
   (mail_failure + unit) \<times> mail_store" where
  "mark_loop marked mark fresh cs 0 st = (Inl (MailFailed MailVersionConflict), st)"
| "mark_loop marked mark fresh cs (Suc n) st =
     (let seen = GetMailState (mt_player_id fresh) (mt_mail_id fresh) st
      in case mark_write marked mark fresh seen (snd (cs n)) (fst (cs n) st) of
           (Marked, st1) \<Rightarrow> (Inr (), st1)
         | (TryAgain, st1) \<Rightarrow> mark_loop marked mark fresh cs n st1
         | (MarkFailed e, st1) \<Rightarrow> (Inl (MailFailed e), st1))"

definition read_state :: "u64 \<Rightarrow> string \<Rightarrow> int \<Rightarrow> mail_state" where
  "read_state playerID mailID now = \<lparr>mt_player_id = playerID, mt_mail_id = mailID, mt_read = True, mt_claimed = False, mt_updated_at_ms = now\<rparr>"

definition markRead :: "mark_conditions \<Rightarrow> u64 \<Rightarrow> string \<Rightarrow> int \<Rightarrow> mail_store \<Rightarrow> (mail_failure + unit) \<times> mail_store" where
  "markRead cs playerID mailID now =
     mark_loop mt_read (\<lambda>s. s\<lparr>mt_read := True, mt_updated_at_ms := now\<rparr>) (read_state playerID mailID now) cs 8"

text \<open>The goroutine of \<open>schedulePublicMailReadBackfill\<close> stops at the first failure.\<close>

fun backfill_reads :: "(nat \<Rightarrow> mark_conditions) \<Rightarrow> u64 \<Rightarrow> string list \<Rightarrow> int \<Rightarrow> mail_store \<Rightarrow> mail_store" where
  "backfill_reads css playerID [] now st = st"
| "backfill_reads css playerID (m # ms) now st =
     (case markRead (css (length ms)) playerID m now st of
        (Inl _, st1) \<Rightarrow> st1
      | (Inr _, st1) \<Rightarrow> backfill_reads css playerID ms now st1)"

definition MarkMailRead ::
  "mark_conditions \<Rightarrow> u64 \<Rightarrow> string \<Rightarrow> int \<Rightarrow> int \<Rightarrow> mail_store \<Rightarrow> (mail_failure + ws_error option) \<times> mail_effect list \<times> mail_store" where
  "MarkMailRead cs playerID rawID requestedAt now st =
     (let mailID = TrimSpace rawID
      in if playerID = 0 \<or> mailID = [] then (Inr (Some invalidArg), [], st)
         else case resolveRegisteredAt playerID requestedAt st of Inl e \<Rightarrow> (Inl e, [], st)
         | Inr registeredAt \<Rightarrow>
             if \<not> mailVisibleToPlayer playerID registeredAt mailID st then (Inr (Some invalidArg), [], st)
             else (case markRead cs playerID mailID now st of
                     (Inl e, st1) \<Rightarrow> (Inl e, [], st1)
                   | (Inr _, st1) \<Rightarrow> (Inr None, [SetMailbox playerID (countUnreadVisibleMails playerID registeredAt st1) now], st1)))"

definition CheckMailboxIndicator ::
  "u64 \<Rightarrow> int \<Rightarrow> int \<Rightarrow> mail_store \<Rightarrow> (mail_failure + bool \<times> u32 \<times> ws_error option) \<times> mail_effect list" where
  "CheckMailboxIndicator playerID requestedAt now st =
     (if playerID = 0 then (Inr (False, 0, Some invalidArg), [])
      else case resolveRegisteredAt playerID requestedAt st of Inl e \<Rightarrow> (Inl e, [])
      | Inr registeredAt \<Rightarrow>
          let n = countUnreadVisibleMails playerID registeredAt st
          in (Inr (n > 0, n, None), [SetMailbox playerID n now]))"

section \<open>Creating mails\<close>

definition MaxAttachments :: nat where "MaxAttachments = 8"
definition MaxAttachmentQty :: u32 where "MaxAttachmentQty = 999"
definition MaxTitleRunes :: nat where "MaxTitleRunes = 64"
definition MaxContentRunes :: nat where "MaxContentRunes = 2000"

text \<open>\<open>utf8.RuneCountInString\<close> of valid UTF-8: the bytes that do not continue a character.\<close>

definition rune_count :: "string \<Rightarrow> nat" where
  "rune_count s = length (filter (\<lambda>c. \<not> (128 \<le> (of_char c :: nat) \<and> (of_char c :: nat) < 192)) s)"

definition validateMailBody :: "string \<Rightarrow> string \<Rightarrow> (u32 \<times> u32) list \<Rightarrow> int \<Rightarrow> mail_failure option" where
  "validateMailBody rawTitle rawContent attachments coinAmount =
     (let title = TrimSpace rawTitle; content = TrimSpace rawContent
      in if title = [] \<or> rune_count title > MaxTitleRunes then Some (WrappedNotFound ''title'')
         else if content = [] \<or> rune_count content > MaxContentRunes then Some (WrappedNotFound ''content'')
         else if coinAmount < 0 then Some (WrappedNotFound ''coin_amount'')
         else if length attachments > MaxAttachments then Some (WrappedNotFound ''too many attachments'')
         else if list_ex (\<lambda>(item, q). item = 0 \<or> q = 0 \<or> q > MaxAttachmentQty) attachments then Some (WrappedNotFound ''attachment'')
         else None)"

text \<open>
  The clock, the random bytes, the fates of the two writes, and what the cache of the info service answers
  to \<open>ApplyMailEvent\<close> (whether it knows the mailbox, and its count).
\<close>

record create_conditions =
  cc_now :: int
  cc_random :: "bytes option"
  cc_dedup :: fate
  cc_insert :: fate
  cc_cache :: "bool \<times> u32"

definition mailCountAfterPrivateInsert :: "create_conditions \<Rightarrow> u64 \<Rightarrow> int \<Rightarrow> mail_store \<Rightarrow> u32 \<times> mail_effect list" where
  "mailCountAfterPrivateInsert c playerID createdAt st =
     (if fst (cc_cache c) then (snd (cc_cache c), [])
      else case resolveRegisteredAt playerID 0 st of
        Inl _ \<Rightarrow> (0, [])
      | Inr registeredAt \<Rightarrow>
          let n = countUnreadVisibleMails playerID registeredAt st in (n, [SetMailbox playerID n createdAt]))"

text \<open>The bytes of the sender's name and of the two texts of a gift mail.\<close>

definition friend_name :: string where
  "friend_name = map char_of [229 :: nat, 165, 189, 229, 143, 139]"

definition system_name :: string where
  "system_name = map char_of [231 :: nat, 179, 187, 231, 187, 159]"

definition gift_title :: string where
  "gift_title = map char_of [229 :: nat, 165, 189, 229, 143, 139, 232, 181, 160, 231, 164, 188]"

definition gift_content :: string where
  "gift_content = map char_of [32 :: nat, 233, 128, 129, 231, 187, 153, 228, 189, 160, 228, 184, 128, 230, 137, 185,
     228, 189, 156, 231, 137, 169, 239, 188, 140, 232, 174, 176, 229, 190, 151, 230, 159, 165, 230, 148, 182, 227, 128, 130]"

definition name_or :: "string \<Rightarrow> string \<Rightarrow> string" where
  "name_or fallback name = (if name = [] then fallback else name)"

record create_gift_request =
  gq_source_event_id :: bytes
  gq_sender_player_id :: u64
  gq_sender_display_name :: string
  gq_recipient_player_id :: u64
  gq_crop_item_id :: u32
  gq_quantity :: u32
  gq_created_at_ms :: int

datatype create_response = CreateMailResponse (cx_mail_id: string) (cx_already_applied: bool) (cx_error: "ws_error option")

definition gift_request_ok :: "create_gift_request \<Rightarrow> bool" where
  "gift_request_ok q \<longleftrightarrow> \<not> (length (gq_source_event_id q) \<noteq> 16 \<or> gq_sender_player_id q = 0 \<or> gq_recipient_player_id q = 0 \<or>
     gq_sender_player_id q = gq_recipient_player_id q \<or> gq_crop_item_id q = 0 \<or> gq_quantity q < 1 \<or> gq_quantity q > 10)"

definition gift_mail :: "create_gift_request \<Rightarrow> int \<Rightarrow> string \<Rightarrow> private_mail" where
  "gift_mail q createdAt mailID =
     (let displayName = name_or friend_name (TrimSpace (gq_sender_display_name q))
      in \<lparr>ml_mail_id = mailID, ml_mail_type = MAIL_TYPE_GIFT, ml_created_at_ms = createdAt, ml_published_at_ms = createdAt,
          ml_sender_type = MAIL_SENDER_TYPE_PLAYER, ml_sender_player_id = gq_sender_player_id q,
          ml_sender_display_name = displayName, ml_title = gift_title, ml_content = displayName @ gift_content,
          ml_attachments = [(gq_crop_item_id q, gq_quantity q)], ml_source_event_id = hex_encode (gq_source_event_id q),
          ml_coin_amount = 0, pm_recipient_player_id = gq_recipient_player_id q\<rparr>)"

definition CreateGiftMail ::
  "create_conditions \<Rightarrow> create_gift_request \<Rightarrow> mail_store \<Rightarrow> (mail_failure + create_response) \<times> mail_effect list \<times> mail_store" where
  "CreateGiftMail c q st =
     (if \<not> gift_request_ok q then (Inr (CreateMailResponse [] False (Some invalidArg)), [], st)
      else let sourceID = hex_encode (gq_source_event_id q) in
      case GetSourceDedup sourceID st of
        Some existing \<Rightarrow> (Inr (CreateMailResponse (sd_mail_id existing) True None), [], st)
      | None \<Rightarrow>
          let createdAt = (if gq_created_at_ms q \<le> 0 then cc_now c else gq_created_at_ms q) in
          (case newMailID (cc_now c) (cc_random c) of
             None \<Rightarrow> (Inl RandomFailed, [], st)
           | Some mailID \<Rightarrow>
               (case with_fate (cc_dedup c) MailUnavailable (TryInsertSourceDedup
                       \<lparr>sd_source_event_id = sourceID, sd_mail_id = mailID, sd_created_at_ms = createdAt\<rparr>) st of
                  (Inl e, st1) \<Rightarrow>
                    if e = MailAlreadyExists
                    then (case GetSourceDedup sourceID st1 of
                            None \<Rightarrow> (Inl (MailFailed MailNotFound), [], st1)
                          | Some existing \<Rightarrow> (Inr (CreateMailResponse (sd_mail_id existing) True None), [], st1))
                    else (Inl (MailFailed e), [], st1)
                | (Inr _, st1) \<Rightarrow>
                    (case with_fate (cc_insert c) MailUnavailable (InsertPrivateMail (gift_mail q createdAt mailID)) st1 of
                       (Inl e, st2) \<Rightarrow>
                         if e = MailAlreadyExists then (Inr (CreateMailResponse mailID True None), [], st2)
                         else (Inl (MailFailed e), [], st2)
                     | (Inr _, st2) \<Rightarrow>
                         let (n, effects) = mailCountAfterPrivateInsert c (gq_recipient_player_id q) createdAt st2
                         in (Inr (CreateMailResponse mailID False None), effects @ [SetMailRedDot (gq_recipient_player_id q) mailID n], st2)))))"

record mail_input =
  mi_recipient_player_id :: u64
  mi_title :: string
  mi_content :: string
  mi_sender_display_name :: string
  mi_published_at_ms :: int
  mi_source_event_id :: string
  mi_attachments :: "(u32 \<times> u32) list"
  mi_coin_amount :: int

text \<open>The optional source event of the two admin operations.\<close>

definition claim_source :: "create_conditions \<Rightarrow> string \<Rightarrow> string \<Rightarrow> mail_store \<Rightarrow> (mail_store_error + unit) \<times> mail_store" where
  "claim_source c source mailID st =
     (if source = [] then (Inr (), st)
      else with_fate (cc_dedup c) MailUnavailable (TryInsertSourceDedup
             \<lparr>sd_source_event_id = source, sd_mail_id = mailID, sd_created_at_ms = cc_now c\<rparr>) st)"

definition system_mail :: "mail_input \<Rightarrow> mail_type \<Rightarrow> int \<Rightarrow> int \<Rightarrow> string \<Rightarrow> mail_record" where
  "system_mail i type created published mailID =
     \<lparr>ml_mail_id = mailID, ml_mail_type = type, ml_created_at_ms = created, ml_published_at_ms = published,
      ml_sender_type = MAIL_SENDER_TYPE_SYSTEM, ml_sender_player_id = 0,
      ml_sender_display_name = name_or system_name (TrimSpace (mi_sender_display_name i)),
      ml_title = TrimSpace (mi_title i), ml_content = TrimSpace (mi_content i), ml_attachments = mi_attachments i,
      ml_source_event_id = TrimSpace (mi_source_event_id i), ml_coin_amount = mi_coin_amount i\<rparr>"

definition CreatePublicMail ::
  "create_conditions \<Rightarrow> mail_input \<Rightarrow> mail_store \<Rightarrow> (mail_failure + string) \<times> mail_effect list \<times> mail_store" where
  "CreatePublicMail c i st =
     (case validateMailBody (mi_title i) (mi_content i) (mi_attachments i) (mi_coin_amount i) of Some e \<Rightarrow> (Inl e, [], st)
      | None \<Rightarrow>
          let published = (if mi_published_at_ms i \<le> 0 then cc_now c else mi_published_at_ms i) in
          (case newMailID (cc_now c) (cc_random c) of None \<Rightarrow> (Inl RandomFailed, [], st)
           | Some mailID \<Rightarrow>
               (case claim_source c (TrimSpace (mi_source_event_id i)) mailID st of (Inl e, st1) \<Rightarrow> (Inl (MailFailed e), [], st1)
                | (Inr _, st1) \<Rightarrow>
                    (case with_fate (cc_insert c) MailUnavailable
                            (InsertPublicMail (system_mail i MAIL_TYPE_PUBLIC (cc_now c) published mailID)) st1 of
                       (Inl e, st2) \<Rightarrow> (Inl (MailFailed e), [], st2)
                     | (Inr _, st2) \<Rightarrow> (Inr mailID, [AdvancePublicWatermark published], st2)))))"

definition private_of :: "u64 \<Rightarrow> mail_record \<Rightarrow> private_mail" where
  "private_of recipient r = mail_record.extend r \<lparr>pm_recipient_player_id = recipient\<rparr>"

definition CreatePrivateMail ::
  "create_conditions \<Rightarrow> mail_input \<Rightarrow> mail_store \<Rightarrow> (mail_failure + string) \<times> mail_effect list \<times> mail_store" where
  "CreatePrivateMail c i st =
     (if mi_recipient_player_id i = 0 then (Inl (WrappedNotFound ''recipient required''), [], st)
      else case validateMailBody (mi_title i) (mi_content i) (mi_attachments i) (mi_coin_amount i) of Some e \<Rightarrow> (Inl e, [], st)
      | None \<Rightarrow>
          (case newMailID (cc_now c) (cc_random c) of None \<Rightarrow> (Inl RandomFailed, [], st)
           | Some mailID \<Rightarrow>
               (case claim_source c (TrimSpace (mi_source_event_id i)) mailID st of (Inl e, st1) \<Rightarrow> (Inl (MailFailed e), [], st1)
                | (Inr _, st1) \<Rightarrow>
                    (case with_fate (cc_insert c) MailUnavailable (InsertPrivateMail
                            (private_of (mi_recipient_player_id i) (system_mail i MAIL_TYPE_PRIVATE (cc_now c) (cc_now c) mailID))) st1 of
                       (Inl e, st2) \<Rightarrow> (Inl (MailFailed e), [], st2)
                     | (Inr _, st2) \<Rightarrow>
                         let (n, effects) = mailCountAfterPrivateInsert c (mi_recipient_player_id i) (cc_now c) st2
                         in (Inr mailID, effects @ [SetMailRedDot (mi_recipient_player_id i) mailID n], st2)))))"

definition CreateSystemRewardMail ::
  "create_conditions \<Rightarrow> mail_input \<Rightarrow> mail_store \<Rightarrow> (mail_failure + create_response) \<times> mail_effect list \<times> mail_store" where
  "CreateSystemRewardMail c i st =
     (let sourceID = TrimSpace (mi_source_event_id i); title = TrimSpace (mi_title i); content = TrimSpace (mi_content i)
      in if sourceID = [] \<or> mi_recipient_player_id i = 0 \<or> title = [] \<or> content = [] \<or> mi_attachments i = [] \<and> mi_coin_amount i \<le> 0
         then (Inr (CreateMailResponse [] False (Some invalidArg)), [], st)
         else case CreatePrivateMail c (i\<lparr>mi_title := title, mi_content := content, mi_source_event_id := sourceID\<rparr>) st of
           (Inr mailID, effects, st1) \<Rightarrow> (Inr (CreateMailResponse mailID False None), effects, st1)
         | (Inl e, effects, st1) \<Rightarrow>
             if e = MailFailed MailAlreadyExists
             then (case GetSourceDedup sourceID st1 of
                     None \<Rightarrow> (Inl (MailFailed MailNotFound), effects, st1)
                   | Some existing \<Rightarrow> (Inr (CreateMailResponse (sd_mail_id existing) True None), effects, st1))
             else if is_not_found e then (Inr (CreateMailResponse [] False (Some invalidArg)), effects, st1)
             else (Inl e, effects, st1))"

section \<open>Numbers in keys and tokens\<close>

lemma parse_digits_append: "parse_digits acc (xs @ ys) = Option.bind (parse_digits acc xs) (\<lambda>a. parse_digits a ys)"
  by (induction xs arbitrary: acc) (simp_all add: Let_def)

declare decimal.simps [simp del]

lemma digit_char: "n < 10 \<Longrightarrow> of_char (char_of (48 + n) :: char) = (48 + n :: nat)"
  by simp

lemma parse_decimal: "parse_digits acc (decimal n) = Some (acc * 10 ^ length (decimal n) + n)"
proof (induction n arbitrary: acc rule: decimal.induct)
  case (1 n)
  show ?case
  proof (cases "n < 10")
    case True
    then show ?thesis by (subst (1 2) decimal.simps) (simp add: Let_def)
  next
    case False
    have "parse_digits (acc * 10 ^ length (decimal (n div 10)) + n div 10) [char_of (48 + n mod 10)] =
        Some ((acc * 10 ^ length (decimal (n div 10)) + n div 10) * 10 + n mod 10)"
      by (simp add: Let_def)
    then show ?thesis
      using False 1 [of acc] by (subst (1 2) decimal.simps) (simp add: parse_digits_append algebra_simps)
  qed
qed

lemma decimal_digits: "c \<in> set (decimal n) \<Longrightarrow> 48 \<le> (of_char c :: nat) \<and> (of_char c :: nat) \<le> 57"
proof (induction n rule: decimal.induct)
  case (1 n)
  show ?case
  proof (cases "n < 10")
    case True
    then have "decimal n = [char_of (48 + n)]" by (subst decimal.simps) simp
    then show ?thesis using 1(2) True by simp
  next
    case False
    then have "decimal n = decimal (n div 10) @ [char_of (48 + n mod 10)]" by (subst decimal.simps) simp
    then show ?thesis using 1 False by auto
  qed
qed

lemma decimal_nonempty [simp]: "decimal n \<noteq> []"
  by (subst decimal.simps) simp

lemma decimal_other: "(of_char c :: nat) < 48 \<or> 57 < (of_char c :: nat) \<Longrightarrow> c \<notin> set (decimal n)"
  using decimal_digits by fastforce

lemma decimal_inject [simp]: "decimal a = decimal b \<longleftrightarrow> a = b"
proof
  assume "decimal a = decimal b"
  then have "parse_digits 0 (decimal a) = parse_digits 0 (decimal b)" by simp
  then show "a = b" by (simp add: parse_decimal)
qed simp

lemma privateKey_inject [simp]: "privateKey a m = privateKey b n \<longleftrightarrow> a = b \<and> m = n"
proof
  assume k: "privateKey a m = privateKey b n"
  have t: "takeWhile (\<lambda>c. c \<noteq> CHR '':'') (privateKey x y) = decimal (unat x)" for x y
    using decimal_other [of "CHR '':''"] by (simp add: privateKey_def takeWhile_append)
  have "decimal (unat a) = decimal (unat b)" using t [of a m] t [of b n] k by simp
  then show "a = b \<and> m = n" using k by (simp add: privateKey_def word_unat_eq_iff)
qed simp

lemma stateKey_inject [simp]: "stateKey a m = stateKey b n \<longleftrightarrow> a = b \<and> m = n"
  using privateKey_inject [of a m b n] by (simp only: privateKey_def stateKey_def)

lemma FormatInt_chars: "c \<in> set (FormatInt i) \<Longrightarrow> c = CHR ''-'' \<or> 48 \<le> (of_char c :: nat) \<and> (of_char c :: nat) \<le> 57"
  using decimal_digits by (auto simp: FormatInt_def split: if_splits)

lemma ParseInt_FormatInt: "in_i64 i \<Longrightarrow> ParseInt (FormatInt i) = Some i"
proof (cases "i < 0")
  case False
  assume "in_i64 i"
  obtain c cs where d: "decimal (nat i) = c # cs" by (cases "decimal (nat i)") simp_all
  then have "c \<noteq> CHR ''-''" "c \<noteq> CHR ''+''" using decimal_digits [of c "nat i"] by auto
  then show ?thesis using \<open>in_i64 i\<close> False parse_decimal [of 0 "nat i"] by (simp add: ParseInt_def FormatInt_def d)
qed (simp add: ParseInt_def FormatInt_def parse_decimal)

definition good_id :: "string \<Rightarrow> bool" where
  "good_id m \<longleftrightarrow> m \<noteq> [] \<and> \<not> ascii_space (List.last m)"

lemma page_token_round_trip:
  assumes "in_i64 created" "good_id m"
  shows "decodePageToken (encodePageToken created m) = Some (created, m)"
proof -
  let ?t = "encodePageToken created m"
  obtain c cs where f: "FormatInt created = c # cs" by (cases "FormatInt created") (auto simp: FormatInt_def split: if_splits)
  have "\<not> ascii_space c" using FormatInt_chars [of c created] by (auto simp: f ascii_space_def)
  moreover obtain d ds where m: "rev m = d # ds" "\<not> ascii_space d"
    using assms(2) by (cases m rule: rev_cases) (auto simp: good_id_def)
  ultimately have t: "TrimSpace ?t = ?t" by (simp add: TrimSpace_def encodePageToken_def f)
  have n: "CHR ''|'' \<notin> set (FormatInt created)" using FormatInt_chars [of "CHR ''|''" created] by auto
  then have "dropWhile (\<lambda>c. c \<noteq> CHR ''|'') ?t = CHR ''|'' # m" "takeWhile (\<lambda>c. c \<noteq> CHR ''|'') ?t = FormatInt created"
    by (auto simp: encodePageToken_def dropWhile_append takeWhile_append)
  moreover have "?t \<noteq> []" by (simp add: encodePageToken_def)
  ultimately show ?thesis
    using assms(2) t by (simp add: decodePageToken_def ParseInt_FormatInt [OF assms(1)] good_id_def)
qed

section \<open>Histories of created mails\<close>

datatype mail_call = GiftCall create_gift_request | PublicCall mail_input | PrivateCall mail_input | RewardCall mail_input

fun run_call :: "create_conditions \<Rightarrow> mail_call \<Rightarrow> mail_store \<Rightarrow> mail_store" where
  "run_call c (GiftCall q) st = snd (snd (CreateGiftMail c q st))"
| "run_call c (PublicCall i) st = snd (snd (CreatePublicMail c i st))"
| "run_call c (PrivateCall i) st = snd (snd (CreatePrivateMail c i st))"
| "run_call c (RewardCall i) st = snd (snd (CreateSystemRewardMail c i st))"

text \<open>
  Any sequence of creating calls that \<open>P\<close> admits, with anything else happening to the marks, the accounts and
  the claims.
\<close>

inductive mail_history :: "(create_conditions \<Rightarrow> mail_call \<Rightarrow> mail_store \<Rightarrow> bool) \<Rightarrow> mail_store \<Rightarrow> mail_store \<Rightarrow> bool" for P st where
  start: "mail_history P st st"
| call: "mail_history P st st1 \<Longrightarrow> P c q st1 \<Longrightarrow> mail_history P st (run_call c q st1)"
| other: "mail_history P st st1 \<Longrightarrow> ms_public st2 = ms_public st1 \<Longrightarrow> ms_private st2 = ms_private st1 \<Longrightarrow>
    ms_dedup st2 = ms_dedup st1 \<Longrightarrow> mail_history P st st2"

text \<open>
  What one call does to the three tables: it adds at most one mail, with the identifier drawn and one of the
  given times, and one with a source event only when it recorded that event.
\<close>

definition sourced :: "string \<Rightarrow> mail_store \<Rightarrow> mail_store \<Rightarrow> bool" where
  "sourced source st st' \<longleftrightarrow> source = [] \<or> fmlookup (ms_dedup st) source = None \<and> fmlookup (ms_dedup st') source \<noteq> None"

inductive creates :: "string option \<Rightarrow> int set \<Rightarrow> mail_store \<Rightarrow> mail_store \<Rightarrow> bool" for M T where
  no_mail: "ms_public st' = ms_public st \<Longrightarrow> ms_private st' = ms_private st \<Longrightarrow>
    ms_dedup st \<subseteq>\<^sub>f ms_dedup st' \<Longrightarrow> creates M T st st'"
| public_mail: "fmlookup (ms_public st) (ml_mail_id r) = None \<Longrightarrow> ms_public st' = fmupd (ml_mail_id r) r (ms_public st) \<Longrightarrow>
    ms_private st' = ms_private st \<Longrightarrow> ms_dedup st \<subseteq>\<^sub>f ms_dedup st' \<Longrightarrow> sourced (ml_source_event_id r) st st' \<Longrightarrow>
    M = Some (ml_mail_id r) \<Longrightarrow> ml_created_at_ms r \<in> T \<Longrightarrow> creates M T st st'"
| private_mail: "fmlookup (ms_private st) (privateKey (pm_recipient_player_id p) (ml_mail_id p)) = None \<Longrightarrow> ms_public st' = ms_public st \<Longrightarrow>
    ms_private st' = fmupd (privateKey (pm_recipient_player_id p) (ml_mail_id p)) p (ms_private st) \<Longrightarrow>
    ms_dedup st \<subseteq>\<^sub>f ms_dedup st' \<Longrightarrow> sourced (ml_source_event_id p) st st' \<Longrightarrow>
    M = Some (ml_mail_id p) \<Longrightarrow> ml_created_at_ms p \<in> T \<Longrightarrow> creates M T st st'"

lemma fmsubset_upd: "fmlookup m k = None \<Longrightarrow> m \<subseteq>\<^sub>f fmupd k v m"
  by (auto simp: fmsubset_alt_def fmpred_iff)

lemma fmsubset_lookup: "m \<subseteq>\<^sub>f n \<Longrightarrow> fmlookup m k = Some v \<Longrightarrow> fmlookup n k = Some v"
  by (auto simp: fmsubset_alt_def fmpred_iff)

lemma fmsubset_trans: "m \<subseteq>\<^sub>f n \<Longrightarrow> n \<subseteq>\<^sub>f k \<Longrightarrow> m \<subseteq>\<^sub>f k"
  unfolding fmsubset_alt_def fmpred_iff by blast

lemma fmsubset_refl [simp]: "m \<subseteq>\<^sub>f m"
  by (simp add: fmsubset_alt_def fmpred_iff)

text \<open>A lost write has either happened or not; \<open>Inr\<close> means that it has.\<close>

lemma with_fate_cases:
  assumes "with_fate f e call w = (res, w')"
  obtains (unsent) "res = Inl e" "w' = w" | (sent) x where "call w = (x, w')" "res = x \<or> res = Inl e"
  using assms by (cases f; cases "call w") (auto simp: with_fate_def)

lemma dedup_effect:
  assumes "with_fate f MailUnavailable (TryInsertSourceDedup r) st = (res, st')"
  shows "ms_public st' = ms_public st \<and> ms_private st' = ms_private st \<and> ms_dedup st \<subseteq>\<^sub>f ms_dedup st' \<and>
    (isl res \<or> sourced (sd_source_event_id r) st st' \<and> fmlookup (ms_dedup st') (sd_source_event_id r) = Some r) \<and>
    (res = Inl MailAlreadyExists \<longrightarrow> fmlookup (ms_dedup st) (sd_source_event_id r) \<noteq> None)"
  using assms
  by (rule with_fate_cases) (auto simp: TryInsertSourceDedup_def sourced_def fmsubset_upd split: if_splits option.splits)

lemma source_effect:
  assumes "claim_source c source m st = (res, st')"
  shows "ms_public st' = ms_public st \<and> ms_private st' = ms_private st \<and> ms_dedup st \<subseteq>\<^sub>f ms_dedup st' \<and> (isl res \<or> sourced source st st')"
  using assms dedup_effect [of "cc_dedup c" "\<lparr>sd_source_event_id = source, sd_mail_id = m, sd_created_at_ms = cc_now c\<rparr>" st res st']
  by (auto simp: claim_source_def sourced_def split: if_splits)

lemma creates_public:
  assumes "with_fate f MailUnavailable (InsertPublicMail r) st1 = (res, st')" "ms_public st1 = ms_public st" "ms_private st1 = ms_private st"
    "ms_dedup st \<subseteq>\<^sub>f ms_dedup st1" "sourced (ml_source_event_id r) st st1" "M = Some (ml_mail_id r)" "ml_created_at_ms r \<in> T"
  shows "creates M T st st'"
  using assms(1)
proof (cases rule: with_fate_cases)
  case unsent
  then show ?thesis using assms by (intro no_mail) simp_all
next
  case (sent x)
  show ?thesis
  proof (cases "st' = st1")
    case False
    then have "fmlookup (ms_public st1) (ml_mail_id r) = None" "st' = st1\<lparr>ms_public := fmupd (ml_mail_id r) r (ms_public st1)\<rparr>"
      using sent by (auto simp: InsertPublicMail_def split: if_splits option.splits)
    then show ?thesis using assms by (intro public_mail [of st r]) (simp_all add: sourced_def)
  qed (use assms in \<open>intro no_mail; simp\<close>)
qed

lemma creates_private:
  assumes "with_fate f MailUnavailable (InsertPrivateMail r) st1 = (res, st')" "ms_public st1 = ms_public st" "ms_private st1 = ms_private st"
    "ms_dedup st \<subseteq>\<^sub>f ms_dedup st1" "sourced (ml_source_event_id r) st st1" "M = Some (ml_mail_id r)" "ml_created_at_ms r \<in> T"
  shows "creates M T st st'"
  using assms(1)
proof (cases rule: with_fate_cases)
  case unsent
  then show ?thesis using assms by (intro no_mail) simp_all
next
  case (sent x)
  let ?key = "privateKey (pm_recipient_player_id r) (ml_mail_id r)"
  show ?thesis
  proof (cases "st' = st1")
    case False
    then have "fmlookup (ms_private st1) ?key = None" "st' = st1\<lparr>ms_private := fmupd ?key r (ms_private st1)\<rparr>"
      using sent by (auto simp: InsertPrivateMail_def Let_def split: if_splits option.splits)
    then show ?thesis using assms by (intro private_mail [of st r]) (simp_all add: sourced_def)
  qed (use assms in \<open>intro no_mail; simp\<close>)
qed

lemma creates_refl [simp]: "creates M T st st"
  by (rule no_mail) simp_all

lemma system_mail_source [simp]: "ml_source_event_id (system_mail i t a b m) = TrimSpace (mi_source_event_id i)"
    "ml_source_event_id (private_of p (system_mail i t a b m)) = TrimSpace (mi_source_event_id i)"
    "ml_source_event_id (gift_mail q d m) = hex_encode (gq_source_event_id q)"
    "ml_mail_id (system_mail i t a b m) = m" "ml_mail_id (private_of p (system_mail i t a b m)) = m" "ml_mail_id (gift_mail q d m) = m"
    "ml_created_at_ms (system_mail i t a b m) = a" "ml_created_at_ms (private_of p (system_mail i t a b m)) = a"
    "ml_created_at_ms (gift_mail q d m) = d"
  by (simp_all add: system_mail_def private_of_def mail_record.defs gift_mail_def Let_def)

lemma CreatePublicMail_creates:
  assumes "CreatePublicMail c i st = (res, effects, st')"
  shows "creates (newMailID (cc_now c) (cc_random c)) {cc_now c} st st'"
proof (cases "st' = st")
  case False
  then obtain m st1 x where x: "newMailID (cc_now c) (cc_random c) = Some m" "claim_source c (TrimSpace (mi_source_event_id i)) m st = (x, st1)"
    "st' = st1 \<and> isl x \<or> \<not> isl x \<and> (\<exists>p y. with_fate (cc_insert c) MailUnavailable
       (InsertPublicMail (system_mail i MAIL_TYPE_PUBLIC (cc_now c) p m)) st1 = (y, st'))"
    using assms by (auto simp: CreatePublicMail_def Let_def split: option.splits sum.splits prod.splits) fastforce+
  note e = source_effect [OF x(2)]
  show ?thesis
  proof (cases "isl x")
    case False
    then obtain p y where y: "with_fate (cc_insert c) MailUnavailable (InsertPublicMail (system_mail i MAIL_TYPE_PUBLIC (cc_now c) p m)) st1 = (y, st')" using x(3) by blast
    show ?thesis using e False x(1) by (intro creates_public [OF y]) simp_all
  qed (use e x in \<open>auto intro: no_mail\<close>)
qed simp

lemma CreatePrivateMail_creates:
  assumes "CreatePrivateMail c i st = (res, effects, st')"
  shows "creates (newMailID (cc_now c) (cc_random c)) {cc_now c} st st'"
proof (cases "st' = st")
  case False
  then obtain m st1 x where x: "newMailID (cc_now c) (cc_random c) = Some m" "claim_source c (TrimSpace (mi_source_event_id i)) m st = (x, st1)"
    "st' = st1 \<and> isl x \<or> \<not> isl x \<and> (\<exists>y. with_fate (cc_insert c) MailUnavailable
       (InsertPrivateMail (private_of (mi_recipient_player_id i) (system_mail i MAIL_TYPE_PRIVATE (cc_now c) (cc_now c) m))) st1 = (y, st'))"
    using assms by (auto simp: CreatePrivateMail_def Let_def split: option.splits sum.splits prod.splits if_splits)
  note e = source_effect [OF x(2)]
  show ?thesis
  proof (cases "isl x")
    case False
    then obtain y where y: "with_fate (cc_insert c) MailUnavailable (InsertPrivateMail (private_of (mi_recipient_player_id i) (system_mail i MAIL_TYPE_PRIVATE (cc_now c) (cc_now c) m))) st1 = (y, st')" using x(3) by blast
    show ?thesis using e False x(1) by (intro creates_private [OF y]) simp_all
  qed (use e x in \<open>auto intro: no_mail\<close>)
qed simp

lemma CreateGiftMail_cases:
  assumes "CreateGiftMail c q st = (res, effects, st')"
  obtains (refused) "\<not> gift_request_ok q" "st' = st" "res = Inr (CreateMailResponse [] False (Some invalidArg))"
  | (known) d where "gift_request_ok q" "fmlookup (ms_dedup st) (hex_encode (gq_source_event_id q)) = Some d" "st' = st" "effects = []"
      "res = Inr (CreateMailResponse (sd_mail_id d) True None)"
  | (failed) "gift_request_ok q" "fmlookup (ms_dedup st) (hex_encode (gq_source_event_id q)) = None" "isl res" "creates (newMailID (cc_now c) (cc_random c)) {if gq_created_at_ms q \<le> 0 then cc_now c else gq_created_at_ms q} st st'"
  | (recorded) m d where "gift_request_ok q" "fmlookup (ms_dedup st) (hex_encode (gq_source_event_id q)) = None"
      "\<exists>b. res = Inr (CreateMailResponse m b None)" "creates (newMailID (cc_now c) (cc_random c)) {if gq_created_at_ms q \<le> 0 then cc_now c else gq_created_at_ms q} st st'"
      "fmlookup (ms_dedup st') (hex_encode (gq_source_event_id q)) = Some d" "sd_mail_id d = m"
proof (cases "gift_request_ok q")
  case ok: True
  let ?s = "hex_encode (gq_source_event_id q)"
  let ?created = "if gq_created_at_ms q \<le> 0 then cc_now c else gq_created_at_ms q"
  show ?thesis
  proof (cases "fmlookup (ms_dedup st) ?s")
    case None
    show ?thesis
    proof (cases "newMailID (cc_now c) (cc_random c)")
      case n: None
      then show ?thesis using failed assms ok None by (auto simp: CreateGiftMail_def GetSourceDedup_def Let_def)
    next
      case (Some m)
      let ?d = "\<lparr>sd_source_event_id = ?s, sd_mail_id = m, sd_created_at_ms = ?created\<rparr>"
      obtain x st1 where x: "with_fate (cc_dedup c) MailUnavailable (TryInsertSourceDedup ?d) st = (x, st1)" by fastforce
      note e = dedup_effect [OF x, simplified]
      show ?thesis
      proof (cases x)
        case (Inl err)
        have "err \<noteq> MailAlreadyExists" using e Inl None by auto
        then have "res = Inl (MailFailed err) \<and> st' = st1" using assms ok None Some x Inl by (simp add: CreateGiftMail_def GetSourceDedup_def)
        then show ?thesis using failed ok None e by (auto intro: no_mail)
      next
        case (Inr u)
        obtain y st2 where y: "with_fate (cc_insert c) MailUnavailable (InsertPrivateMail (gift_mail q ?created m)) st1 = (y, st2)" by fastforce
        have c: "creates (newMailID (cc_now c) (cc_random c)) {?created} st st2" using e Inr Some by (intro creates_private [OF y]) simp_all
        have d: "ms_dedup st2 = ms_dedup st1"
          using y by (rule with_fate_cases) (auto simp: InsertPrivateMail_def Let_def split: if_splits option.splits)
        have r: "st' = st2 \<and> (isl res \<or> (\<exists>b. res = Inr (CreateMailResponse m b None)))"
          using assms ok None Some x Inr y
          by (cases y; cases "mailCountAfterPrivateInsert c (gq_recipient_player_id q) ?created st2")
            (auto simp: CreateGiftMail_def GetSourceDedup_def Let_def split: if_splits)
        show ?thesis using r c failed [OF ok None] recorded [OF ok None, of m ?d] e Inr d by auto
      qed
    qed
  next
    case (Some d)
    then show ?thesis using known [OF ok Some] assms ok by (simp add: CreateGiftMail_def GetSourceDedup_def Let_def)
  qed
next
  case False
  then show ?thesis using refused assms by (simp add: CreateGiftMail_def)
qed

fun call_time :: "create_conditions \<Rightarrow> mail_call \<Rightarrow> int" where
  "call_time c (GiftCall q) = (if gq_created_at_ms q \<le> 0 then cc_now c else gq_created_at_ms q)"
| "call_time c _ = cc_now c"

lemma call_creates: "creates (newMailID (cc_now c) (cc_random c)) {call_time c q} st (run_call c q st)"
proof (cases q)
  case (GiftCall g)
  obtain res effects st' where g: "CreateGiftMail c g st = (res, effects, st')" by (cases "CreateGiftMail c g st")
  from g have "creates (newMailID (cc_now c) (cc_random c)) {call_time c q} st st'" by (cases rule: CreateGiftMail_cases) (simp_all add: GiftCall)
  then show ?thesis using g by (simp add: GiftCall)
next
  case (PublicCall i)
  then show ?thesis by (cases "CreatePublicMail c i st") (simp add: CreatePublicMail_creates)
next
  case (PrivateCall i)
  then show ?thesis by (cases "CreatePrivateMail c i st") (simp add: CreatePrivateMail_creates)
next
  case (RewardCall i)
  let ?i = "i\<lparr>mi_title := TrimSpace (mi_title i), mi_content := TrimSpace (mi_content i), mi_source_event_id := TrimSpace (mi_source_event_id i)\<rparr>"
  obtain x effects st1 where x: "CreatePrivateMail c ?i st = (x, effects, st1)" by (cases "CreatePrivateMail c ?i st")
  have "snd (snd (CreateSystemRewardMail c i st)) \<in> {st, st1}"
    using x by (cases x) (auto simp: CreateSystemRewardMail_def Let_def split: option.splits)
  then show ?thesis using CreatePrivateMail_creates [OF x] by (auto simp: RewardCall)
qed

definition source_mails :: "string \<Rightarrow> mail_store \<Rightarrow> (string + string) set" where
  "source_mails source st = {x. case x of
       Inl k \<Rightarrow> (\<exists>r. fmlookup (ms_public st) k = Some r \<and> ml_source_event_id r = source)
     | Inr k \<Rightarrow> (\<exists>r. fmlookup (ms_private st) k = Some r \<and> ml_source_event_id r = source)}"

lemma source_mails_cong:
  assumes "ms_public st' = ms_public st" "ms_private st' = ms_private st"
  shows "source_mails source st' = source_mails source st"
  unfolding source_mails_def assms ..

definition source_ok :: "mail_store \<Rightarrow> bool" where
  "source_ok st \<longleftrightarrow> (\<forall>source. source \<noteq> [] \<longrightarrow> (fmlookup (ms_dedup st) source = None \<longrightarrow> source_mails source st = {}) \<and>
     (\<forall>x \<in> source_mails source st. \<forall>y \<in> source_mails source st. x = y))"

lemma creates_source:
  assumes "creates M T st st'" "source \<noteq> []"
  shows "source_mails source st' = source_mails source st \<or> fmlookup (ms_dedup st) source = None \<and>
    fmlookup (ms_dedup st') source \<noteq> None \<and> (\<exists>x. source_mails source st' = insert x (source_mails source st))"
  using assms(1)
proof cases
  case no_mail
  then show ?thesis using source_mails_cong [of st' st] by simp
next
  case (public_mail r)
  show ?thesis
  proof (cases "ml_source_event_id r = source")
    case True
    have "source_mails source st' = insert (Inl (ml_mail_id r)) (source_mails source st)"
      using public_mail True by (auto simp: source_mails_def split: sum.splits)
    then show ?thesis using public_mail True assms(2) by (auto simp: sourced_def)
  next
    case False
    then have "source_mails source st' = source_mails source st" using public_mail by (auto simp: source_mails_def split: sum.splits)
    then show ?thesis ..
  qed
next
  case (private_mail r)
  let ?key = "privateKey (pm_recipient_player_id r) (ml_mail_id r)"
  show ?thesis
  proof (cases "ml_source_event_id r = source")
    case True
    have "source_mails source st' = insert (Inr ?key) (source_mails source st)"
      using private_mail True by (auto simp: source_mails_def split: sum.splits)
    then show ?thesis using private_mail True assms(2) by (auto simp: sourced_def)
  next
    case False
    then have "source_mails source st' = source_mails source st" using private_mail by (auto simp: source_mails_def split: sum.splits)
    then show ?thesis ..
  qed
qed

lemma creates_dedup: "creates M T st st' \<Longrightarrow> ms_dedup st \<subseteq>\<^sub>f ms_dedup st'"
  by (erule creates.cases) simp_all

lemma creates_source_ok:
  assumes "creates M T st st'" "source_ok st"
  shows "source_ok st'"
  unfolding source_ok_def
proof (intro allI impI)
  fix source :: string
  assume s: "source \<noteq> []"
  have k: "fmlookup (ms_dedup st') source = None \<Longrightarrow> fmlookup (ms_dedup st) source = None"
    using fmsubset_lookup [OF creates_dedup [OF assms(1)]] by (cases "fmlookup (ms_dedup st) source") auto
  show "(fmlookup (ms_dedup st') source = None \<longrightarrow> source_mails source st' = {}) \<and>
      (\<forall>x \<in> source_mails source st'. \<forall>y \<in> source_mails source st'. x = y)"
    using creates_source [OF assms(1) s] assms(2) s k by (auto simp: source_ok_def)
qed

lemma mail_history_sources:
  assumes "mail_history P st0 st" "source_ok st0"
  shows "source_ok st \<and> ms_dedup st0 \<subseteq>\<^sub>f ms_dedup st \<and>
    (\<forall>source. source \<noteq> [] \<and> fmlookup (ms_dedup st0) source \<noteq> None \<longrightarrow> source_mails source st = source_mails source st0)"
  using assms
proof (induction rule: mail_history.induct)
  case (call st1 c q)
  note k = call_creates [of c q st1]
  have IH: "source_ok st1" "ms_dedup st0 \<subseteq>\<^sub>f ms_dedup st1"
    "\<forall>source. source \<noteq> [] \<and> fmlookup (ms_dedup st0) source \<noteq> None \<longrightarrow> source_mails source st1 = source_mails source st0"
    using call by simp_all
  have "ms_dedup st0 \<subseteq>\<^sub>f ms_dedup (run_call c q st1)" by (rule fmsubset_trans [OF IH(2) creates_dedup [OF k]])
  moreover have "source_mails source (run_call c q st1) = source_mails source st0"
    if t: "source \<noteq> []" "fmlookup (ms_dedup st0) source \<noteq> None" for source
  proof -
    obtain d where "fmlookup (ms_dedup st1) source = Some d" using t(2) fmsubset_lookup [OF IH(2), of source] by blast
    then show ?thesis using creates_source [OF k t(1)] IH(3) t by simp
  qed
  ultimately show ?case using creates_source_ok [OF k IH(1)] by blast
next
  case (other st1 st2)
  have m: "source_mails source st2 = source_mails source st1" for source by (rule source_mails_cong [OF other.hyps(2,3)])
  show ?case using other.IH [OF other.prems] unfolding source_ok_def m other.hyps(4) .
qed simp

lemma empty_source_ok: "source_ok NewMemoryStore"
proof -
  have "source_mails source NewMemoryStore = {}" for source by (auto simp: source_mails_def NewMemoryStore_def split: sum.splits)
  then show ?thesis by (simp add: source_ok_def)
qed

lemma hex_encode_empty: "hex_encode bs = [] \<longleftrightarrow> bs = []"
  using length_hex_encode [of bs] by (metis length_0_conv mult_eq_0_iff zero_neq_numeral)

text \<open>
  C37: Through any history of mail creations with any writes lost, a source event has at most one mail, public or
  private, and once a gift was answered without error every later request for it is answered with the same mail
  as already applied and changes nothing.
\<close>

theorem one_mail_per_source:
  assumes "mail_history P NewMemoryStore st"
  shows "(\<forall>source. source \<noteq> [] \<longrightarrow> (\<forall>x \<in> source_mails source st. \<forall>y \<in> source_mails source st. x = y)) \<and>
    (CreateGiftMail c q st = (Inr (CreateMailResponse m b None), effects, st') \<and> mail_history P st' st'' \<and>
     gift_request_ok q' \<and> gq_source_event_id q' = gq_source_event_id q \<longrightarrow>
       CreateGiftMail c' q' st'' = (Inr (CreateMailResponse m True None), [], st''))"
proof (intro conjI impI; (elim conjE)?)
  have ok: "source_ok st" using mail_history_sources [OF assms empty_source_ok] by blast
  then show "\<forall>source. source \<noteq> [] \<longrightarrow> (\<forall>x \<in> source_mails source st. \<forall>y \<in> source_mails source st. x = y)" by (simp add: source_ok_def)
  let ?s = "hex_encode (gq_source_event_id q)"
  assume r: "CreateGiftMail c q st = (Inr (CreateMailResponse m b None), effects, st')" "mail_history P st' st''"
    and q': "gift_request_ok q'" "gq_source_event_id q' = gq_source_event_id q"
  have "source_ok st'" using creates_source_ok [OF _ ok] call_creates [of c "GiftCall q" st] r(1) by simp
  then have keep: "ms_dedup st' \<subseteq>\<^sub>f ms_dedup st''" using mail_history_sources [OF r(2)] by blast
  from r(1) have "\<exists>d. fmlookup (ms_dedup st') ?s = Some d \<and> sd_mail_id d = m" by (cases rule: CreateGiftMail_cases) auto
  then obtain d where "fmlookup (ms_dedup st'') ?s = Some d" "sd_mail_id d = m" using fmsubset_lookup [OF keep] by blast
  then show "CreateGiftMail c' q' st'' = (Inr (CreateMailResponse m True None), [], st'')"
    using q' by (simp add: CreateGiftMail_def GetSourceDedup_def Let_def)
qed

definition sample_gift :: create_gift_request where
  "sample_gift = \<lparr>gq_source_event_id = replicate 16 7, gq_sender_player_id = 1, gq_sender_display_name = ''Ann'',
     gq_recipient_player_id = 2, gq_crop_item_id = 11, gq_quantity = 3, gq_created_at_ms = 500\<rparr>"

definition calm :: "fate \<Rightarrow> create_conditions" where
  "calm f = \<lparr>cc_now = 1000, cc_random = Some (replicate 8 1), cc_dedup = Delivered, cc_insert = f, cc_cache = (True, 1)\<rparr>"

definition sample_mail_id :: string where
  "sample_mail_id = ''m'' @ FormatInt 1000 @ hex_encode (replicate 8 1)"

lemma sample_gift_ok: "gift_request_ok sample_gift"
  by (simp add: gift_request_ok_def sample_gift_def)

lemma sample_gift_created:
  obtains st' where "CreateGiftMail (calm Delivered) sample_gift NewMemoryStore =
    (Inr (CreateMailResponse sample_mail_id False None), [SetMailRedDot 2 sample_mail_id 1], st')"
    "ms_public st' = fmempty" "GetPrivateMail 2 sample_mail_id st' \<noteq> None"
proof -
  have "hex_encode (replicate 16 7) \<noteq> []" by (simp add: hex_encode_empty)
  then show ?thesis
    using that sample_gift_ok
    by (simp add: CreateGiftMail_def GetSourceDedup_def NewMemoryStore_def calm_def newMailID_def with_fate_def TryInsertSourceDedup_def
        InsertPrivateMail_def gift_mail_def mailCountAfterPrivateInsert_def sample_gift_def sample_mail_id_def GetPrivateMail_def Let_def)
qed

theorem one_mail_per_source_witness:
  "\<exists>st'. CreateGiftMail (calm Delivered) sample_gift NewMemoryStore =
      (Inr (CreateMailResponse sample_mail_id False None), [SetMailRedDot 2 sample_mail_id 1], st') \<and>
    CreateGiftMail (calm ReplyLost) sample_gift st' = (Inr (CreateMailResponse sample_mail_id True None), [], st')"
proof -
  obtain st' where st': "CreateGiftMail (calm Delivered) sample_gift NewMemoryStore =
    (Inr (CreateMailResponse sample_mail_id False None), [SetMailRedDot 2 sample_mail_id 1], st')" by (rule sample_gift_created)
  show ?thesis
    using one_mail_per_source [of "\<lambda>_ _ _. True" NewMemoryStore "calm Delivered" sample_gift sample_mail_id False _ st' st' sample_gift "calm ReplyLost"]
      st' sample_gift_ok by (auto intro: mail_history.start)
qed

text \<open>
  C38: A gift whose mail could not be written after its source event was recorded is lost: the call is an error,
  every repetition of it, whatever else is created in between, is answered as already applied, and no mail of
  that event ever exists.
\<close>

theorem gift_mail_lost:
  assumes "mail_history P NewMemoryStore st" "gift_request_ok q" "GetSourceDedup (hex_encode (gq_source_event_id q)) st = None"
    "newMailID (cc_now c) (cc_random c) = Some m" "cc_dedup c = Delivered" "cc_insert c = RequestLost"
  shows "\<exists>st'. CreateGiftMail c q st = (Inl (MailFailed MailUnavailable), [], st') \<and>
    (\<forall>st'' c'. mail_history P st' st'' \<longrightarrow> CreateGiftMail c' q st'' = (Inr (CreateMailResponse m True None), [], st'') \<and>
       source_mails (hex_encode (gq_source_event_id q)) st'' = {})"
proof -
  let ?s = "hex_encode (gq_source_event_id q)"
  have s: "?s \<noteq> []" using assms(2) by (auto simp: hex_encode_empty gift_request_ok_def)
  have ok: "source_ok st" using mail_history_sources [OF assms(1) empty_source_ok] by blast
  have none: "source_mails ?s st = {}" using ok s assms(3) by (simp add: source_ok_def GetSourceDedup_def)
  define d where "d = \<lparr>sd_source_event_id = ?s, sd_mail_id = m, sd_created_at_ms = if gq_created_at_ms q \<le> 0 then cc_now c else gq_created_at_ms q\<rparr>"
  define st' where "st' = st\<lparr>ms_dedup := fmupd ?s d (ms_dedup st)\<rparr>"
  have call: "CreateGiftMail c q st = (Inl (MailFailed MailUnavailable), [], st')"
    using assms s by (simp add: CreateGiftMail_def GetSourceDedup_def TryInsertSourceDedup_def with_fate_def st'_def d_def Let_def)
  have d: "fmlookup (ms_dedup st') ?s = Some d" by (simp add: st'_def)
  have ok': "source_ok st'" using creates_source_ok [OF _ ok] call_creates [of c "GiftCall q" st] call by simp
  have none': "source_mails ?s st' = {}" using none source_mails_cong [of st' st] by (simp add: st'_def)
  have "CreateGiftMail c' q st'' = (Inr (CreateMailResponse m True None), [], st'') \<and> source_mails ?s st'' = {}"
    if r: "mail_history P st' st''" for st'' c'
  proof -
    note k = mail_history_sources [OF r ok']
    have "fmlookup (ms_dedup st'') ?s = Some d" by (rule fmsubset_lookup [OF k [THEN conjunct2, THEN conjunct1] d])
    moreover have "source_mails ?s st'' = source_mails ?s st'"
      by (rule k [THEN conjunct2, THEN conjunct2, rule_format]) (simp add: s d)
    ultimately show ?thesis using assms(2) none' by (simp add: CreateGiftMail_def GetSourceDedup_def Let_def d_def)
  qed
  then show ?thesis using call by blast
qed

theorem gift_mail_lost_witness:
  "\<exists>st'. CreateGiftMail (calm RequestLost) sample_gift NewMemoryStore = (Inl (MailFailed MailUnavailable), [], st') \<and>
     CreateGiftMail (calm Delivered) sample_gift st' = (Inr (CreateMailResponse sample_mail_id True None), [], st') \<and>
     source_mails (hex_encode (gq_source_event_id sample_gift)) st' = {}"
proof -
  have "\<exists>st'. CreateGiftMail (calm RequestLost) sample_gift NewMemoryStore = (Inl (MailFailed MailUnavailable), [], st') \<and>
    (\<forall>st'' c'. mail_history (\<lambda>_ _ _. True) st' st'' \<longrightarrow> CreateGiftMail c' sample_gift st'' = (Inr (CreateMailResponse sample_mail_id True None), [], st'') \<and>
       source_mails (hex_encode (gq_source_event_id sample_gift)) st'' = {})"
    by (rule gift_mail_lost [of "\<lambda>_ _ _. True" NewMemoryStore sample_gift "calm RequestLost" sample_mail_id])
      (simp_all add: mail_history.start sample_gift_ok GetSourceDedup_def NewMemoryStore_def calm_def newMailID_def sample_mail_id_def)
  then show ?thesis using mail_history.start by blast
qed

section \<open>Reading page by page\<close>

abbreviation view_key :: "mail_view \<Rightarrow> int \<times> string" where
  "view_key v \<equiv> (mv_created_at_ms v, mv_mail_id v)"

lemma afterPageToken_less: "afterPageToken c m tc tm \<longleftrightarrow> tm = [] \<or> (c, m) < (tc, tm)"
  by (auto simp: afterPageToken_def)

lemma mailLessDesc_less: "mailLessDesc c m c' m' \<longleftrightarrow> (c', m') < (c, m)"
  by (auto simp: mailLessDesc_def)

lemma page_loop_eq:
  assumes "length page \<le> n"
  shows "page_loop tc tm n page vs =
    (let ws = filter (\<lambda>v. afterPageToken (mv_created_at_ms v) (mv_mail_id v) tc tm) vs; all = page @ take (n - length page) ws
     in (all, if length page + length ws \<le> n then [] else encodePageToken (mv_created_at_ms (List.last all)) (mv_mail_id (List.last all))))"
  using assms
proof (induction vs arbitrary: page)
  case (Cons v vs)
  show ?case
  proof (cases "afterPageToken (mv_created_at_ms v) (mv_mail_id v) tc tm \<and> length page \<noteq> n")
    case True
    have "n - length page = Suc (n - Suc (length page))" using True Cons.prems by arith
    then have "take (n - length page) (v # ws) = v # take (n - Suc (length page)) ws" for ws by simp
    then show ?thesis using True Cons.prems Cons.IH [of "page @ [v]"] by (simp add: Let_def)
  qed (use Cons in \<open>auto simp: Let_def\<close>)
qed (simp add: Let_def)

lemma page_at:
  assumes "sorted_wrt (\<lambda>a b. view_key b < view_key a) xs" "0 < n" "i \<le> length xs"
    "if i = 0 then tm = [] else tm \<noteq> [] \<and> (tc, tm) = view_key (xs ! (i - 1))"
  shows "page_loop tc tm n [] xs = (take n (drop i xs), if length xs \<le> i + n then []
     else encodePageToken (mv_created_at_ms (xs ! (i + n - 1))) (mv_mail_id (xs ! (i + n - 1))))"
proof -
  have "filter (\<lambda>v. afterPageToken (mv_created_at_ms v) (mv_mail_id v) tc tm) xs = drop i xs"
  proof (cases i)
    case 0
    then show ?thesis using assms(4) by (simp add: afterPageToken_def)
  next
    case (Suc j)
    let ?P = "\<lambda>v. view_key v < view_key (xs ! j)"
    have split: "xs = take j xs @ xs ! j # drop (Suc j) xs" using Suc assms(3) id_take_nth_drop [of j xs] by simp
    have w: "sorted_wrt (\<lambda>a b. view_key b < view_key a) (take j xs @ xs ! j # drop (Suc j) xs)" using assms(1) split by simp
    have "\<forall>a \<in> set (take j xs). view_key (xs ! j) < view_key a" "\<forall>b \<in> set (drop (Suc j) xs). view_key b < view_key (xs ! j)"
      using w unfolding sorted_wrt_append by simp_all
    then have "filter ?P (take j xs) = []" "filter ?P (drop (Suc j) xs) = drop (Suc j) xs"
      by (auto simp del: less_prod_simp simp: filter_empty_conv filter_id_conv dest: less_asym)
    then have "filter ?P (take j xs @ xs ! j # drop (Suc j) xs) = drop (Suc j) xs" by (simp only: filter_append) simp
    then have "filter ?P xs = drop i xs" using split Suc by simp
    then show ?thesis using assms(4) Suc by (simp only: afterPageToken_less) auto
  qed
  moreover have "List.last (take n (drop i xs)) = xs ! (i + n - 1)" if "\<not> length xs \<le> i + n"
    using that assms(2) by (subst last_conv_nth) (auto simp: min_def)
  ultimately show ?thesis using assms(2,3) by (auto simp: page_loop_eq Let_def)
qed

text \<open>Tables as the service leaves them: mails under their own keys, with usable identifiers of which no two agree.\<close>

definition mailbox_ok :: "mail_store \<Rightarrow> bool" where
  "mailbox_ok st \<longleftrightarrow>
     (\<forall>k r. fmlookup (ms_public st) k = Some r \<longrightarrow> ml_mail_id r = k \<and> good_id k \<and> in_i64 (ml_created_at_ms r)) \<and>
     (\<forall>k r. fmlookup (ms_private st) k = Some r \<longrightarrow> k = privateKey (pm_recipient_player_id r) (ml_mail_id r) \<and> good_id (ml_mail_id r) \<and>
        in_i64 (ml_created_at_ms r) \<and> fmlookup (ms_public st) (ml_mail_id r) = None)"

lemma set_map_values [simp]: "set (map_values m) = {v. \<exists>k. fmlookup m k = Some v}"
  by (force simp: map_values_def fmlookup_dom_iff)

lemma sort_desc_mset [simp]: "mset (sort_desc f g xs) = mset xs" "set (sort_desc f g xs) = set xs" "length (sort_desc f g xs) = length xs"
  by (simp_all add: sort_desc_def)

lemma sort_desc_keys: "map (\<lambda>x. (f x, g x)) (sort_desc f g xs) = rev (sort (map (\<lambda>x. (f x, g x)) xs))"
proof -
  have "sort (map (\<lambda>x. (f x, g x)) xs) = map (\<lambda>x. (f x, g x)) (sort_key (\<lambda>x. (f x, g x)) xs)"
    by (rule properties_for_sort) simp_all
  then show ?thesis by (simp add: sort_desc_def rev_map)
qed

lemma sort_desc_distinct: "distinct (map h (sort_desc f g xs)) \<longleftrightarrow> distinct (map h xs)"
proof -
  have "mset (map h (sort_desc f g xs)) = mset (map h xs)" by simp
  then show ?thesis by (rule mset_eq_imp_distinct_iff)
qed

definition public_visible :: "int \<Rightarrow> mail_store \<Rightarrow> public_mail list" where
  "public_visible registeredAt st = filter (\<lambda>r. \<not> ml_published_at_ms r \<le> registeredAt) (ListPublicMails st)"

definition visible_keys :: "u64 \<Rightarrow> int \<Rightarrow> mail_store \<Rightarrow> (int \<times> string) list" where
  "visible_keys playerID registeredAt st = map (\<lambda>r. (ml_created_at_ms r, ml_mail_id r)) (public_visible registeredAt st) @
     map (\<lambda>r. (ml_created_at_ms r, ml_mail_id r)) (ListPrivateMails playerID st)"

lemma visible_views: "map view_key (listVisibleMails playerID registeredAt st) = rev (sort (visible_keys playerID registeredAt st))"
  by (simp add: listVisibleMails_def sortMailViews_def sort_desc_keys visible_keys_def public_visible_def toPublicView_def toPrivateView_def
      Let_def comp_def)

lemma visible_ids:
  assumes "mailbox_ok st"
  shows "distinct (map snd (visible_keys playerID registeredAt st))"
    "m \<in> set (map snd (visible_keys playerID registeredAt st)) \<longleftrightarrow> mailVisibleToPlayer playerID registeredAt m st"
    "(t, m) \<in> set (visible_keys playerID registeredAt st) \<Longrightarrow> good_id m \<and> in_i64 t"
proof -
  have ids: "map snd (visible_keys playerID registeredAt st) = map ml_mail_id (public_visible registeredAt st) @ map ml_mail_id (ListPrivateMails playerID st)"
    by (simp add: visible_keys_def comp_def)
  have "map ml_mail_id (map_values (ms_public st)) = map_keys (ms_public st)"
    unfolding map_values_def map_map by (rule map_idI) (use assms in \<open>auto simp: mailbox_ok_def fmlookup_dom_iff\<close>)
  then have "distinct (map ml_mail_id (ListPublicMails st))" by (simp add: ListPublicMails_def sort_desc_distinct)
  then have pub: "distinct (map ml_mail_id (public_visible registeredAt st))" by (simp add: public_visible_def distinct_map_filter)
  let ?key = "\<lambda>r. privateKey (pm_recipient_player_id r) (ml_mail_id r)" and ?mine = "filter (\<lambda>r. pm_recipient_player_id r = playerID) (map_values (ms_private st))"
  have "map ?key (map_values (ms_private st)) = map_keys (ms_private st)"
    unfolding map_values_def map_map by (rule map_idI) (use assms in \<open>auto simp: mailbox_ok_def fmlookup_dom_iff\<close>)
  then have "distinct (map ?key (map_values (ms_private st)))" by simp
  then have "distinct (map ?key ?mine)" by (rule distinct_map_filter)
  then have "distinct (map ml_mail_id ?mine)" by (simp add: distinct_map inj_on_def)
  then have priv: "distinct (map ml_mail_id (ListPrivateMails playerID st))" by (simp add: ListPrivateMails_def sort_desc_distinct)
  show "distinct (map snd (visible_keys playerID registeredAt st))"
    using pub priv assms unfolding ids
    by (fastforce simp: mailbox_ok_def public_visible_def ListPublicMails_def ListPrivateMails_def)
  show "m \<in> set (map snd (visible_keys playerID registeredAt st)) \<longleftrightarrow> mailVisibleToPlayer playerID registeredAt m st"
    using assms unfolding ids
    by (force simp: mailbox_ok_def public_visible_def ListPublicMails_def ListPrivateMails_def mailVisibleToPlayer_def GetPublicMail_def
        GetPrivateMail_def not_le split: option.splits)
  show "(t, m) \<in> set (visible_keys playerID registeredAt st) \<Longrightarrow> good_id m \<and> in_i64 t"
    using assms by (auto simp: visible_keys_def mailbox_ok_def public_visible_def ListPublicMails_def ListPrivateMails_def)
qed

text \<open>A call whose clock is a time and whose identifier is not in use.\<close>

definition fresh_call :: "create_conditions \<Rightarrow> mail_call \<Rightarrow> mail_store \<Rightarrow> bool" where
  "fresh_call c q st \<longleftrightarrow> in_i64 (call_time c q) \<and> (\<forall>m. newMailID (cc_now c) (cc_random c) = Some m \<longrightarrow>
     fmlookup (ms_public st) m = None \<and> (\<forall>k r. fmlookup (ms_private st) k = Some r \<longrightarrow> ml_mail_id r \<noteq> m))"

lemma hex_encode_no_space: "\<not> ascii_space c" if "c \<in> set (hex_encode bs)"
proof -
  have "\<forall>n \<in> set [0 ..< 16]. \<not> ascii_space (hex_digit n)" by code_simp
  then have d: "n < 16 \<Longrightarrow> \<not> ascii_space (hex_digit n)" for n by simp
  have "\<not> ascii_space (hex_digit (unat b div 16))" "\<not> ascii_space (hex_digit (unat b mod 16))" for b :: u8
    using d [OF byte_halves(1)] d [OF byte_halves(2)] by blast+
  then show ?thesis using that by (auto simp: hex_encode_def)
qed

lemma newMailID_good: "newMailID now raw = Some m \<Longrightarrow> good_id m"
proof -
  assume "newMailID now raw = Some m"
  then obtain bs where m: "m = ''m'' @ FormatInt now @ hex_encode bs" by (auto simp: newMailID_def split: option.splits)
  have "\<not> ascii_space c" if "c \<in> set m" for c
    using that hex_encode_no_space [of c bs] FormatInt_chars [of c now] by (auto simp: m ascii_space_def)
  moreover have "m \<noteq> []" by (simp add: m)
  ultimately show "good_id m" by (simp add: good_id_def)
qed

lemma creates_mailbox_ok:
  assumes "creates (newMailID (cc_now c) (cc_random c)) {call_time c q} st st'" "fresh_call c q st" "mailbox_ok st"
  shows "mailbox_ok st'"
  using assms(1)
proof cases
  case no_mail
  then show ?thesis using assms(3) by (simp add: mailbox_ok_def)
next
  case (public_mail r)
  then have g: "good_id (ml_mail_id r)" "in_i64 (ml_created_at_ms r)" "\<And>k x. fmlookup (ms_private st) k = Some x \<Longrightarrow> ml_mail_id x \<noteq> ml_mail_id r"
    using assms(2) newMailID_good [of "cc_now c" "cc_random c" "ml_mail_id r"] by (auto simp: fresh_call_def)
  show ?thesis using public_mail assms(3) g(1,2) by (auto simp: mailbox_ok_def dest: g(3))
next
  case (private_mail r)
  then show ?thesis using assms(2,3) newMailID_good [of "cc_now c" "cc_random c" "ml_mail_id r"]
    by (simp add: mailbox_ok_def fresh_call_def)
qed

lemma mail_history_ok: "mail_history fresh_call NewMemoryStore st \<Longrightarrow> mailbox_ok st"
proof (induction rule: mail_history.induct)
  case start
  show ?case by (simp add: mailbox_ok_def NewMemoryStore_def)
next
  case (call st1 c q)
  then show ?case using creates_mailbox_ok [OF call_creates] by blast
next
  case (other st1 st2)
  then show ?case by (simp add: mailbox_ok_def)
qed

text \<open>
  A client that follows the page tokens. \<open>stores n\<close> is the store at the call with \<open>n\<close> calls left to make: marks
  may change between the calls.
\<close>

fun read_pages :: "(nat \<Rightarrow> mail_store) \<Rightarrow> (nat \<Rightarrow> int) \<Rightarrow> u64 \<Rightarrow> int \<Rightarrow> u32 \<Rightarrow> nat \<Rightarrow> string \<Rightarrow> mail_view list option" where
  "read_pages stores clock playerID registeredAt pageSize 0 token = None"
| "read_pages stores clock playerID registeredAt pageSize (Suc n) token =
     (case OpenMailbox playerID registeredAt pageSize token (clock n) (stores n) of
        (Inr response, _) \<Rightarrow>
          if or_error response \<noteq> None then None
          else if or_next_page_token response = [] then Some (or_mails response)
          else map_option ((@) (or_mails response)) (read_pages stores clock playerID registeredAt pageSize n (or_next_page_token response))
      | (Inl _, _) \<Rightarrow> None)"

lemma shown_keys: "map view_key (markPublicViewsRead vs) = map view_key vs"
  by (simp add: markPublicViewsRead_def)

lemma strict_keys: "sorted_wrt (\<lambda>a b. view_key b < view_key a) vs \<longleftrightarrow> sorted_wrt (\<lambda>x y. y < x) (map view_key vs)"
  by (simp only: sorted_wrt_map)

lemma OpenMailbox_page:
  assumes "K = rev (sort (visible_keys playerID registeredAt st))" "n = page_size pageSize"
    "mailbox_ok st" "playerID \<noteq> 0" "0 < registeredAt" "i \<le> length K"
    "token = (if i = 0 then [] else encodePageToken (fst (K ! (i - 1))) (snd (K ! (i - 1))))"
  shows "\<exists>page effects. OpenMailbox playerID registeredAt pageSize token now st =
      (Inr (OpenMailboxResponse page (if length K \<le> i + n then [] else encodePageToken (fst (K ! (i + n - 1))) (snd (K ! (i + n - 1)))) now None), effects) \<and>
    map view_key page = take n (drop i K)"
proof -
  let ?views = "markPublicViewsRead (listVisibleMails playerID registeredAt st)"
  have keys: "map view_key ?views = K" by (simp only: shown_keys visible_views assms(1))
  then have len: "length ?views = length K" by (metis length_map)
  have nth: "view_key (?views ! j) = K ! j" if "j < length K" for j
    unfolding keys [symmetric] using that len by (subst nth_map) simp_all
  have "distinct (map snd (visible_keys playerID registeredAt st))" by (rule visible_ids(1) [OF assms(3)])
  then have "distinct (visible_keys playerID registeredAt st)" by (simp add: distinct_map)
  then have "sorted_wrt (<) (sort (visible_keys playerID registeredAt st))" by (simp add: strict_sorted_iff)
  then have sorted: "sorted_wrt (\<lambda>a b. view_key b < view_key a) ?views" unfolding strict_keys keys assms(1) by (simp only: sorted_wrt_rev)
  have n: "0 < n" by (simp add: assms(2) page_size_def DefaultPageSize_def MaxPageSize_def Let_def)
  have good: "good_id (snd (K ! j)) \<and> in_i64 (fst (K ! j))" if "j < length K" for j
  proof -
    have "K ! j \<in> set (visible_keys playerID registeredAt st)" using that nth_mem [of j K] by (simp add: assms(1))
    then show ?thesis using visible_ids(3) [OF assms(3)] by (metis prod.collapse)
  qed
  define t where "t = (if i = 0 then (0, []) else K ! (i - 1))"
  have dec: "decodePageToken token = Some t"
    using good [of "i - 1"] assms(6) page_token_round_trip [of "fst (K ! (i - 1))" "snd (K ! (i - 1))"]
    by (auto simp: assms(7) t_def decodePageToken_def TrimSpace_def)
  have tok: "if i = 0 then snd t = [] else snd t \<noteq> [] \<and> (fst t, snd t) = view_key (?views ! (i - 1))"
    using good [of "i - 1"] nth [of "i - 1"] assms(6) by (auto simp: t_def good_id_def)
  have page: "page_loop (fst t) (snd t) n [] ?views = (take n (drop i ?views),
      if length K \<le> i + n then [] else encodePageToken (fst (K ! (i + n - 1))) (snd (K ! (i + n - 1))))"
  proof (cases "length K \<le> i + n")
    case False
    then have "i + n - 1 < length K" by arith
    then have "K ! (i + n - 1) = view_key (?views ! (i + n - 1))" using nth by metis
    then have "fst (K ! (i + n - 1)) = mv_created_at_ms (?views ! (i + n - 1))" "snd (K ! (i + n - 1)) = mv_mail_id (?views ! (i + n - 1))"
      by simp_all
    then show ?thesis using page_at [OF sorted n _ tok] assms(6) len False by simp
  qed (use page_at [OF sorted n _ tok] assms(6) len in simp)
  have "map view_key (take n (drop i ?views)) = take n (drop i K)" using keys by (metis take_map drop_map)
  then show ?thesis
    using assms(4,5) dec page unfolding assms(2)
    by (cases t) (auto simp: OpenMailbox_def resolveRegisteredAt_def Let_def)
qed

lemma read_pages_rest:
  assumes "mailbox_ok st" "playerID \<noteq> 0" "0 < registeredAt"
    "\<forall>n. ms_public (stores n) = ms_public st \<and> ms_private (stores n) = ms_private st"
    "length K - i < fuel" "K = rev (sort (visible_keys playerID registeredAt st))" "i \<le> length K"
    "token = (if i = 0 then [] else encodePageToken (fst (K ! (i - 1))) (snd (K ! (i - 1))))"
  shows "\<exists>vs. read_pages stores clock playerID registeredAt pageSize fuel token = Some vs \<and> map view_key vs = drop i K"
  using assms(5,7,8)
proof (induction fuel arbitrary: i token)
  case (Suc fuel)
  let ?n = "page_size pageSize"
  have same: "visible_keys playerID registeredAt (stores fuel) = visible_keys playerID registeredAt st"
    using assms(4) by (simp add: visible_keys_def public_visible_def ListPublicMails_def ListPrivateMails_def)
  have ok: "mailbox_ok (stores fuel)" using assms(1,4) by (simp add: mailbox_ok_def)
  have n: "0 < ?n" by (simp add: page_size_def DefaultPageSize_def MaxPageSize_def Let_def)
  obtain page effects where p: "OpenMailbox playerID registeredAt pageSize token (clock fuel) (stores fuel) =
      (Inr (OpenMailboxResponse page (if length K \<le> i + ?n then [] else encodePageToken (fst (K ! (i + ?n - 1))) (snd (K ! (i + ?n - 1))))
        (clock fuel) None), effects)" "map view_key page = take ?n (drop i K)"
    using OpenMailbox_page [OF _ HOL.refl ok assms(2,3) Suc.prems(2,3), of pageSize "clock fuel"] same assms(6) by auto
  show ?case
  proof (cases "length K \<le> i + ?n")
    case True
    then show ?thesis using p by simp
  next
    case False
    have "length K - (i + ?n) < fuel" using False Suc.prems(1) n by linarith
    then obtain vs where "read_pages stores clock playerID registeredAt pageSize fuel (encodePageToken (fst (K ! (i + ?n - 1))) (snd (K ! (i + ?n - 1)))) = Some vs"
      "map view_key vs = drop (i + ?n) K"
      using Suc.IH [of "i + ?n" "encodePageToken (fst (K ! (i + ?n - 1))) (snd (K ! (i + ?n - 1)))"] False n by auto
    moreover have "take ?n (drop i K) @ drop (i + ?n) K = drop i K" by (metis append_take_drop_id drop_drop add.commute)
    ultimately show ?thesis using p False by (simp add: encodePageToken_def)
  qed
qed simp

text \<open>
  C36: After any history of mail creations with fresh identifiers, a client that opens its mailbox and follows the
  page tokens, with any page size and while marks change, ends within one call per visible mail and one more,
  and has received every visible mail exactly once, newest first.
\<close>

theorem mailbox_pages_complete:
  assumes "mail_history fresh_call NewMemoryStore st" "playerID \<noteq> 0" "0 < registeredAt"
    "\<forall>n. ms_public (stores n) = ms_public st \<and> ms_private (stores n) = ms_private st"
    "length (listVisibleMails playerID registeredAt st) < fuel"
  shows "\<exists>vs. read_pages stores clock playerID registeredAt pageSize fuel [] = Some vs \<and> distinct (map mv_mail_id vs) \<and>
    (\<forall>m. m \<in> set (map mv_mail_id vs) \<longleftrightarrow> mailVisibleToPlayer playerID registeredAt m st) \<and>
    sorted_wrt (\<lambda>a b. mailLessDesc (mv_created_at_ms a) (mv_mail_id a) (mv_created_at_ms b) (mv_mail_id b)) vs"
proof -
  let ?K = "rev (sort (visible_keys playerID registeredAt st))"
  have ok: "mailbox_ok st" by (rule mail_history_ok [OF assms(1)])
  have "length ?K < fuel" using assms(5) visible_views [of playerID registeredAt st] by (metis length_map)
  then obtain vs where vs: "read_pages stores clock playerID registeredAt pageSize fuel [] = Some vs" "map view_key vs = ?K"
    using read_pages_rest [OF ok assms(2,3,4), of ?K 0 fuel "[]"] by auto
  have ids: "map mv_mail_id vs = map snd ?K" unfolding vs(2) [symmetric] by simp
  note k = visible_ids [OF ok, where playerID = playerID and registeredAt = registeredAt]
  have "mset (map mv_mail_id vs) = mset (map snd (visible_keys playerID registeredAt st))" unfolding ids by simp
  then have "distinct (map mv_mail_id vs)" "set (map mv_mail_id vs) = set (map snd (visible_keys playerID registeredAt st))"
    using k(1) mset_eq_imp_distinct_iff mset_eq_setD by blast+
  moreover have "sorted_wrt (\<lambda>x y. y < x) ?K"
    using k(1) by (simp add: sorted_wrt_rev strict_sorted_iff distinct_map)
  then have "sorted_wrt (\<lambda>a b. view_key b < view_key a) vs" unfolding strict_keys vs(2) .
  ultimately show ?thesis using vs(1) k(2) by (simp only: mailLessDesc_less) blast
qed

theorem mailbox_pages_complete_witness:
  "\<exists>st vs. st = snd (snd (CreateGiftMail (calm Delivered) sample_gift NewMemoryStore)) \<and>
     read_pages (\<lambda>_. st) (\<lambda>_. 2000) 2 1 1 (Suc (length (listVisibleMails 2 1 st))) [] = Some vs \<and> sample_mail_id \<in> set (map mv_mail_id vs)"
proof -
  obtain st where st: "CreateGiftMail (calm Delivered) sample_gift NewMemoryStore =
      (Inr (CreateMailResponse sample_mail_id False None), [SetMailRedDot 2 sample_mail_id 1], st)"
    "ms_public st = fmempty" "GetPrivateMail 2 sample_mail_id st \<noteq> None" by (rule sample_gift_created)
  have "fresh_call (calm Delivered) (GiftCall sample_gift) NewMemoryStore"
    by (simp add: fresh_call_def NewMemoryStore_def sample_gift_def in_i64_def max_i64_def)
  then have run: "mail_history fresh_call NewMemoryStore st"
    using mail_history.call [OF mail_history.start, of fresh_call "calm Delivered" "GiftCall sample_gift" NewMemoryStore] st(1) by simp
  have "mailVisibleToPlayer 2 1 sample_mail_id st" using st(2,3) by (simp add: mailVisibleToPlayer_def GetPublicMail_def)
  then show ?thesis
    using mailbox_pages_complete [OF run, of 2 1 "\<lambda>_. st" "Suc (length (listVisibleMails 2 1 st))" "\<lambda>_. 2000" 1] st(1) by auto
qed

end
