(* ===== verification/Mail_Claim.thy ===== *)
theory Mail_Claim
  imports Mailbox Saga_Agreement
begin

text \<open>
  Claiming the reward of a mail (package \<open>internal/mail\<close>: \<open>claim_saga.go\<close>, \<open>claim_reconciler.go\<close>, \<open>zone_client.go\<close>;
  the Zone's RPC in \<open>cmd/zone/social_rpc.go\<close>). The service claims directly: it asks the Zone to credit the
  player and marks the mail in the background. The older saga stores a record and drives it through its
  states; several workers (requests, the reconciler) may drive one record at once, so its loop is a machine that
  makes one access to the store or the Zone per step.
\<close>

section \<open>The call to the Zone\<close>

record reward_response =
  rx_error :: "error_code option"
  rx_newly_applied :: bool
  rx_player_seq :: u64
  rx_items_added :: "item_stack_view list"
  rx_coins_added :: int
  rx_patch :: "state_patch option"
  rx_owner_epoch :: u64

definition reward_refused :: "error_code \<Rightarrow> reward_response" where
  "reward_refused code = \<lparr>rx_error = Some code, rx_newly_applied = False, rx_player_seq = 0, rx_items_added = [],
     rx_coins_added = 0, rx_patch = None, rx_owner_epoch = 0\<rparr>"

text \<open>The Zone's clock and table of authorized shards, and the player's state.\<close>

definition ApplyMailReward_rpc ::
  "int \<Rightarrow> auth_table \<Rightarrow> committed_route option \<Rightarrow> u64 \<Rightarrow> bytes \<Rightarrow> string \<Rightarrow> (u32 \<times> u32) list \<Rightarrow> int \<Rightarrow> state \<Rightarrow>
   (rpc_code + reward_response) \<times> state" where
  "ApplyMailReward_rpc now T route playerID claimID mailID attachments coinAmount s =
     (if playerID = 0 \<or> length claimID \<noteq> 16 \<or> mailID = [] \<or> coinAmount < 0 \<or> attachments = [] \<and> coinAmount \<le> 0
      then (Inl RpcInvalidArgument, s)
      else case route of None \<Rightarrow> (Inl RpcInvalidArgument, s)
      | Some c \<Rightarrow>
      (case validateRoute route playerID now T of Some e \<Rightarrow> (Inl e, s)
       | None \<Rightarrow>
           (case ApplyMailReward (cr_owner_epoch c) claimID mailID attachments coinAmount now s of
              (Inr result, s1) \<Rightarrow>
                (Inr \<lparr>rx_error = None, rx_newly_applied = mr_newly_applied result, rx_player_seq = mr_player_seq result,
                   rx_items_added = mr_items_added result, rx_coins_added = mr_coins_added result,
                   rx_patch = Some (mr_patch result), rx_owner_epoch = cr_owner_epoch c\<rparr>, s1)
            | (Inl e, s1) \<Rightarrow> (case e of
                  MailNotOwner \<Rightarrow> (Inl RpcFailedPrecondition, s1)
                | ErrMailInventoryCapacity \<Rightarrow> (Inr (reward_refused INVENTORY_CAPACITY_EXCEEDED), s1)
                | ErrMailClaimConflict \<Rightarrow> (Inr (reward_refused REQUEST_ID_CONFLICT), s1)
                | MailError _ \<Rightarrow> (Inl RpcInternal, s1)))))"

text \<open>The Zone's side of a call, the routes the client resolves, first and after an invalidation, and the fate of the call.\<close>

record zone_call =
  zn_now :: int
  zn_auth :: auth_table
  zn_route :: "committed_route option"
  zn_second_route :: "committed_route option"
  zn_fate :: fate

definition zone_ApplyMailReward ::
  "zone_call \<Rightarrow> u64 \<Rightarrow> bytes \<Rightarrow> string \<Rightarrow> (u32 \<times> u32) list \<Rightarrow> int \<Rightarrow> state \<Rightarrow> (rpc_code + reward_response) \<times> state" where
  "zone_ApplyMailReward c playerID claimID mailID attachments coinAmount s =
     (let applyOnce = (\<lambda>route. ApplyMailReward_rpc (zn_now c) (zn_auth c) (Some route) playerID claimID mailID attachments coinAmount)
      in case zn_route c of None \<Rightarrow> (Inl RpcUnavailable, s)
      | Some route \<Rightarrow>
          (case applyOnce route s of
             (Inl RpcFailedPrecondition, s1) \<Rightarrow>
               (case zn_second_route c of None \<Rightarrow> (Inl RpcUnavailable, s1) | Some route2 \<Rightarrow> applyOnce route2 s1)
           | res \<Rightarrow> res))"

text \<open>The mail store and the players, each on the Zone that owns it.\<close>

record claim_world =
  cw_store :: mail_store
  cw_players :: "u64 \<Rightarrow> state"

definition call_zone ::
  "zone_call \<Rightarrow> u64 \<Rightarrow> bytes \<Rightarrow> string \<Rightarrow> (u32 \<times> u32) list \<Rightarrow> int \<Rightarrow> claim_world \<Rightarrow> (rpc_code + reward_response) \<times> claim_world" where
  "call_zone c playerID claimID mailID attachments coinAmount w =
     (let (res, s) = with_fate (zn_fate c) RpcUnavailable (zone_ApplyMailReward c playerID claimID mailID attachments coinAmount) (cw_players w playerID)
      in (res, w\<lparr>cw_players := (cw_players w)(playerID := s)\<rparr>))"

section \<open>What can be claimed\<close>

datatype claim_error =
    ClaimFailed mail_failure
  | ClaimRpc rpc_code
  | ClaimRefused error_code
  | UnsupportedClaimState claim_status
  | ErrClaimInventoryFull
  | ErrClaimConflict
  | ErrClaimNotReady

record claim_request =
  cq_player_id :: u64
  cq_mail_id :: string
  cq_claim_id :: bytes
  cq_registered_at_ms :: int

record claim_response =
  cp_mail_id :: string
  cp_items_added :: "item_stack_view list"
  cp_coins_added :: int
  cp_patch :: "state_patch option"
  cp_state_version :: "(u64 \<times> u64) option"
  cp_error :: "ws_error option"

definition claim_failed :: "ws_error \<Rightarrow> claim_response" where
  "claim_failed e = \<lparr>cp_mail_id = [], cp_items_added = [], cp_coins_added = 0, cp_patch = None, cp_state_version = None, cp_error = Some e\<rparr>"

definition mapClaimError :: "claim_error \<Rightarrow> claim_response" where
  "mapClaimError e =
     (if e = ErrClaimInventoryFull then claim_failed (plain_error INVENTORY_CAPACITY_EXCEEDED)
      else if e = ErrClaimConflict \<or> e = ClaimFailed (MailFailed MailAlreadyExists) then claim_failed (plain_error REQUEST_ID_CONFLICT)
      else if (case e of ClaimFailed f \<Rightarrow> is_not_found f | _ \<Rightarrow> False) then claim_failed invalidArg
      else claim_failed (retryable_error SERVICE_UNAVAILABLE))"

definition toClaimAttachments :: "(u32 \<times> u32) list \<Rightarrow> (u32 \<times> u32) list" where
  "toClaimAttachments = filter (\<lambda>(item, q). \<not> (item = 0 \<or> q = 0))"

definition claimAttachmentsToViews :: "(u32 \<times> u32) list \<Rightarrow> item_stack_view list" where
  "claimAttachmentsToViews = map (\<lambda>(item, q). ItemStackView item q)"

definition attachmentsDigest :: "(u32 \<times> u32) list \<Rightarrow> bytes" where
  "attachmentsDigest attachments = sha256 (concat (map (\<lambda>(item, q). be32 item @ be32 q) attachments))"

definition appliedStateVersion :: "reward_response \<Rightarrow> (u64 \<times> u64) option" where
  "appliedStateVersion r =
     (if rx_owner_epoch r = 0 \<or> rx_player_seq r = 0 then None else Some (rx_owner_epoch r, rx_player_seq r))"

definition inventory_patch :: "item_stack_view list \<Rightarrow> state_patch" where
  "inventory_patch items = PlayerStatePatch None items [] [] None None None"

definition resolveRegistered :: "u64 \<Rightarrow> int \<Rightarrow> mail_store \<Rightarrow> claim_error + int" where
  "resolveRegistered playerID requested st =
     (case resolveRegisteredAt playerID requested st of Inl e \<Rightarrow> Inl (ClaimFailed e) | Inr at \<Rightarrow> Inr at)"

definition claimable :: "(u32 \<times> u32) list \<Rightarrow> int \<Rightarrow> claim_error + (u32 \<times> u32) list \<times> int" where
  "claimable raw coins =
     (let attachments = toClaimAttachments raw
      in if attachments = [] \<and> coins \<le> 0 then Inl (ClaimFailed (WrappedNotFound ''no claimable reward'')) else Inr (attachments, coins))"

definition loadDirectClaimableAttachments :: "u64 \<Rightarrow> int \<Rightarrow> string \<Rightarrow> mail_store \<Rightarrow> claim_error + (u32 \<times> u32) list \<times> int" where
  "loadDirectClaimableAttachments playerID registeredAtHint mailID st = (case GetPrivateMail playerID mailID st of
       Some r \<Rightarrow> claimable (ml_attachments r) (ml_coin_amount r)
     | None \<Rightarrow>
         (case GetPublicMail mailID st of None \<Rightarrow> Inl (ClaimFailed (MailFailed MailNotFound))
          | Some r \<Rightarrow>
              (case resolveRegistered playerID registeredAtHint st of Inl e \<Rightarrow> Inl e
               | Inr registeredAt \<Rightarrow>
                   if ml_published_at_ms r \<le> registeredAt then Inl (ClaimFailed (WrappedNotFound ''mail not visible''))
                   else claimable (ml_attachments r) (ml_coin_amount r))))"

definition loadClaimableAttachments :: "u64 \<Rightarrow> int \<Rightarrow> string \<Rightarrow> mail_store \<Rightarrow> claim_error + (u32 \<times> u32) list \<times> int" where
  "loadClaimableAttachments playerID registeredAt mailID st =
     (if \<not> mailVisibleToPlayer playerID registeredAt mailID st then Inl (ClaimFailed (WrappedNotFound ''mail not visible''))
      else case GetPublicMail mailID st of
        Some r \<Rightarrow> claimable (ml_attachments r) (ml_coin_amount r)
      | None \<Rightarrow>
          (case GetPrivateMail playerID mailID st of
             None \<Rightarrow> Inl (ClaimFailed (MailFailed MailNotFound))
           | Some r \<Rightarrow> claimable (ml_attachments r) (ml_coin_amount r)))"

section \<open>Claiming directly\<close>

definition claimed_state :: "u64 \<Rightarrow> string \<Rightarrow> int \<Rightarrow> mail_state" where
  "claimed_state playerID mailID now = \<lparr>mt_player_id = playerID, mt_mail_id = mailID, mt_read = True, mt_claimed = True, mt_updated_at_ms = now\<rparr>"

definition set_claimed :: "int \<Rightarrow> mail_state \<Rightarrow> mail_state" where
  "set_claimed now s = s\<lparr>mt_claimed := True, mt_read := True, mt_updated_at_ms := now\<rparr>"

definition markMailClaimed :: "mark_conditions \<Rightarrow> u64 \<Rightarrow> string \<Rightarrow> int \<Rightarrow> mail_store \<Rightarrow> (mail_failure + unit) \<times> mail_store" where
  "markMailClaimed cs playerID mailID now = mark_loop mt_claimed (set_claimed now) (claimed_state playerID mailID now) cs 8"

definition is_claimed :: "u64 \<Rightarrow> string \<Rightarrow> mail_store \<Rightarrow> bool" where
  "is_claimed playerID mailID st = (case GetMailState playerID mailID st of None \<Rightarrow> False | Some (s, _) \<Rightarrow> mt_claimed s)"

definition invalid_claim :: "claim_request \<Rightarrow> bool" where
  "invalid_claim q \<longleftrightarrow> cq_player_id q = 0 \<or> TrimSpace (cq_mail_id q) = [] \<or> length (cq_claim_id q) \<noteq> 16"

definition full_inventory :: "error_code \<Rightarrow> bool" where
  "full_inventory code \<longleftrightarrow> code = INVENTORY_CAPACITY_EXCEEDED \<or> code = INVENTORY_TYPE_LIMIT \<or> code = INVENTORY_STACK_LIMIT"

definition ClaimMailDirect :: "zone_call \<Rightarrow> claim_request \<Rightarrow> claim_world \<Rightarrow> (rpc_code + claim_response) \<times> claim_world" where
  "ClaimMailDirect c q w =
     (if invalid_claim q then (Inr (claim_failed invalidArg), w)
      else let playerID = cq_player_id q; mailID = TrimSpace (cq_mail_id q) in
      case loadDirectClaimableAttachments playerID (cq_registered_at_ms q) mailID (cw_store w) of
        Inl e \<Rightarrow> (Inr (mapClaimError e), w)
      | Inr (attachments, coinAmount) \<Rightarrow>
          if is_claimed playerID mailID (cw_store w) then (Inr (mapClaimError ErrClaimConflict), w)
          else (case call_zone c playerID (cq_claim_id q) mailID attachments coinAmount w of
                  (Inl e, w1) \<Rightarrow> (Inl e, w1)
                | (Inr applied, w1) \<Rightarrow>
                    (case rx_error applied of
                       Some code \<Rightarrow>
                         (Inr (if full_inventory code then mapClaimError ErrClaimInventoryFull else claim_failed (plain_error code)), w1)
                     | None \<Rightarrow>
                         let items = (if rx_items_added applied = [] then claimAttachmentsToViews attachments else rx_items_added applied)
                         in (Inr \<lparr>cp_mail_id = mailID, cp_items_added = items, cp_coins_added = rx_coins_added applied,
                               cp_patch = Some (case rx_patch applied of Some p \<Rightarrow> p | None \<Rightarrow> inventory_patch items),
                               cp_state_version = appliedStateVersion applied, cp_error = None\<rparr>, w1))))"

text \<open>
  \<open>Service.ClaimMail\<close>: the answer, and whether the goroutine that marks the mail was started. It marks the
  identifier of the request as it came.
\<close>

definition Service_ClaimMail :: "zone_call \<Rightarrow> claim_request \<Rightarrow> claim_world \<Rightarrow> (rpc_code + claim_response) \<times> bool \<times> claim_world" where
  "Service_ClaimMail c q w =
     (let (res, w1) = ClaimMailDirect c q w
      in (res, (case res of Inl _ \<Rightarrow> False | Inr r \<Rightarrow> cp_error r = None), w1))"

definition refreshUnreadQuickCache :: "u64 \<Rightarrow> int \<Rightarrow> int \<Rightarrow> mail_store \<Rightarrow> mail_effect list" where
  "refreshUnreadQuickCache playerID registeredAtHint now st =
     (if playerID = 0 then []
      else case resolveRegisteredAt playerID registeredAtHint st of
        Inl _ \<Rightarrow> []
      | Inr registeredAt \<Rightarrow> [SetMailbox playerID (countUnreadVisibleMails playerID registeredAt st) now])"

definition finishDirectClaim :: "mark_conditions \<Rightarrow> claim_request \<Rightarrow> int \<Rightarrow> mail_store \<Rightarrow> mail_effect list \<times> mail_store" where
  "finishDirectClaim cs q now st =
     (case markMailClaimed cs (cq_player_id q) (cq_mail_id q) now st of
        (Inl _, st1) \<Rightarrow> ([], st1)
      | (Inr _, st1) \<Rightarrow> (refreshUnreadQuickCache (cq_player_id q) (cq_registered_at_ms q) now st1, st1))"

section \<open>The saga\<close>

definition ensureNoActiveClaim :: "u64 \<Rightarrow> string \<Rightarrow> bytes \<Rightarrow> mail_store \<Rightarrow> bool" where
  "ensureNoActiveClaim playerID mailID claimID st =
     list_all (\<lambda>row. cl_player_id row \<noteq> playerID \<or> cl_mail_id row \<noteq> mailID \<or> cl_claim_id row = claimID \<or>
       cl_state row \<notin> {CLAIMING, PLAYER_APPLIED, CANCELLING, CLAIM_INIT, CLAIM_COMPLETED}) (ListClaimSagas st)"

definition claim_record :: "claim_request \<Rightarrow> (u32 \<times> u32) list \<Rightarrow> int \<Rightarrow> int \<Rightarrow> claim_saga" where
  "claim_record q attachments coinAmount now =
     \<lparr>cl_claim_id = cq_claim_id q, cl_mail_id = TrimSpace (cq_mail_id q), cl_player_id = cq_player_id q,
      cl_attachments = attachments, cl_state = CLAIMING, cl_retry_at_ms = now, cl_last_error = [], cl_created_at_ms = now,
      cl_updated_at_ms = now, cl_attachments_digest = attachmentsDigest attachments, cl_coin_amount = coinAmount\<rparr>"

definition BeginClaim :: "fate \<Rightarrow> claim_request \<Rightarrow> int \<Rightarrow> mail_store \<Rightarrow> (claim_error + claim_saga \<times> u32) \<times> mail_store" where
  "BeginClaim f q now st =
     (let playerID = cq_player_id q; mailID = TrimSpace (cq_mail_id q); claimID = cq_claim_id q in
      case resolveRegistered playerID (cq_registered_at_ms q) st of Inl e \<Rightarrow> (Inl e, st)
      | Inr registeredAt \<Rightarrow>
      (case loadClaimableAttachments playerID registeredAt mailID st of Inl e \<Rightarrow> (Inl e, st)
       | Inr (attachments, coinAmount) \<Rightarrow>
       (case GetClaimSaga claimID st of
          Some (existing, version) \<Rightarrow>
            if cl_player_id existing \<noteq> playerID \<or> cl_mail_id existing \<noteq> mailID then (Inl ErrClaimConflict, st)
            else if cl_attachments_digest existing \<noteq> attachmentsDigest attachments \<or> cl_coin_amount existing \<noteq> coinAmount
            then (Inl ErrClaimConflict, st)
            else (Inr (existing, version), st)
        | None \<Rightarrow>
            if \<not> ensureNoActiveClaim playerID mailID claimID st then (Inl ErrClaimConflict, st)
            else if is_claimed playerID mailID st then (Inl ErrClaimConflict, st)
            else let record = claim_record q attachments coinAmount now in
              (case with_fate f MailUnavailable (InsertClaimSaga record) st of
                 (Inr version, st1) \<Rightarrow> (Inr (record, version), st1)
               | (Inl e, st1) \<Rightarrow>
                   if e = MailAlreadyExists
                   then (case GetClaimSaga claimID st1 of
                           None \<Rightarrow> (Inl (ClaimFailed (MailFailed MailNotFound)), st1) | Some found \<Rightarrow> (Inr found, st1))
                   else (Inl (ClaimFailed (MailFailed e)), st1)))))"

text \<open>
  Where a worker in \<open>Advance\<close> stands: about to read the record, to call the Zone for it, to write it as applied or
  cancelled, in the loop of \<open>markMailClaimed\<close> (attempts left, state read), to write it as completed or, at the end of
  a cancellation, as available.
\<close>

datatype claim_pc =
    AtRead
  | AtApply claim_saga u32
  | AtApplied claim_saga u32
  | AtCancel claim_saga u32
  | AtMarkRead claim_saga u32 nat
  | AtMark claim_saga u32 nat "(mail_state \<times> u32) option"
  | AtComplete claim_saga u32
  | AtFinish claim_saga u32
  | Returned "claim_error + reward_response option"

text \<open>
  \<open>wk_left\<close> counts the attempts of the loop. \<open>cancelClaim\<close> calls \<open>Advance\<close> again and returns its error, or a full
  inventory when there is none: \<open>wk_cancelled\<close> marks a worker in such a call.
\<close>

record claim_worker =
  wk_claim_id :: bytes
  wk_left :: nat
  wk_cancelled :: bool
  wk_applied :: "reward_response option"
  wk_pc :: claim_pc

definition new_worker :: "bytes \<Rightarrow> claim_worker" where
  "new_worker claimID = \<lparr>wk_claim_id = claimID, wk_left = 8, wk_cancelled = False, wk_applied = None, wk_pc = AtRead\<rparr>"

definition goes :: "claim_pc \<Rightarrow> claim_worker \<Rightarrow> claim_worker" where
  "goes pc k = k\<lparr>wk_pc := pc\<rparr>"

definition fails :: "claim_error \<Rightarrow> claim_worker \<Rightarrow> claim_worker" where
  "fails e = goes (Returned (Inl e))"

definition store_fails :: "mail_store_error \<Rightarrow> claim_worker \<Rightarrow> claim_worker" where
  "store_fails e = fails (ClaimFailed (MailFailed e))"

definition succeeds :: "claim_worker \<Rightarrow> claim_worker" where
  "succeeds k = (if wk_cancelled k then fails ErrClaimInventoryFull k else goes (Returned (Inr (wk_applied k))) k)"

text \<open>The switch over the state of a record just read.\<close>

definition claim_switch :: "claim_saga \<Rightarrow> u32 \<Rightarrow> claim_worker \<Rightarrow> claim_worker" where
  "claim_switch r version k = (case cl_state r of
       CLAIM_COMPLETED \<Rightarrow> succeeds k
     | AVAILABLE \<Rightarrow> succeeds k
     | CLAIMING \<Rightarrow> goes (AtApply r version) k
     | CLAIM_INIT \<Rightarrow> goes (AtApply r version) k
     | PLAYER_APPLIED \<Rightarrow> goes (AtMarkRead r version 8) k
     | CANCELLING \<Rightarrow> goes (AtFinish r version) k
     | CLAIM_STATUS_UNSPECIFIED \<Rightarrow> fails (UnsupportedClaimState CLAIM_STATUS_UNSPECIFIED) k)"

text \<open>A write of the record under the version read; a conflict sends the worker where \<open>conflict\<close> says.\<close>

definition write_claim ::
  "fate \<Rightarrow> claim_saga \<Rightarrow> u32 \<Rightarrow> (claim_worker \<Rightarrow> claim_worker) \<Rightarrow> (claim_worker \<Rightarrow> claim_worker) \<Rightarrow> claim_worker \<Rightarrow> claim_world \<Rightarrow>
   claim_worker \<times> claim_world" where
  "write_claim f r version written conflict k w =
     (case with_fate f MailUnavailable (UpdateClaimSaga r version) (cw_store w) of
        (Inr _, st) \<Rightarrow> (written k, w\<lparr>cw_store := st\<rparr>)
      | (Inl e, st) \<Rightarrow> (if e = MailVersionConflict then conflict k else store_fails e k, w\<lparr>cw_store := st\<rparr>))"

text \<open>The Zone call, the fate of a store access, and the clock of a step.\<close>

record claim_conditions =
  ck_zone :: zone_call
  ck_store :: fate
  ck_now :: int

definition reenter :: "claim_worker \<Rightarrow> claim_worker" where
  "reenter k = k\<lparr>wk_left := 8, wk_cancelled := True, wk_applied := None, wk_pc := AtRead\<rparr>"

definition full_message :: string where
  "full_message = ''mail claim inventory capacity exceeded''"

definition advance_step :: "claim_conditions \<Rightarrow> claim_worker \<Rightarrow> claim_world \<Rightarrow> claim_worker \<times> claim_world" where
  "advance_step c k w = (case wk_pc k of
       AtRead \<Rightarrow>
         if wk_left k = 0 then (store_fails MailVersionConflict k, w)
         else let k1 = k\<lparr>wk_left := wk_left k - 1\<rparr>
              in (if ck_store c \<noteq> Delivered then store_fails MailUnavailable k1
                  else case GetClaimSaga (wk_claim_id k) (cw_store w) of
                    None \<Rightarrow> store_fails MailNotFound k1
                  | Some (r, version) \<Rightarrow> claim_switch r version k1, w)
     | AtApply r version \<Rightarrow>
         (case call_zone (ck_zone c) (cl_player_id r) (cl_claim_id r) (cl_mail_id r) (cl_attachments r) (cl_coin_amount r) w of
            (Inl e, w1) \<Rightarrow> (fails (ClaimRpc e) k, w1)
          | (Inr response, w1) \<Rightarrow>
              (case rx_error response of
                 Some code \<Rightarrow> (if full_inventory code then goes (AtCancel r version) k else fails (ClaimRefused code) k, w1)
               | None \<Rightarrow> (goes (AtApplied r version) (k\<lparr>wk_applied := Some response\<rparr>), w1)))
     | AtApplied r version \<Rightarrow>
         write_claim (ck_store c) (r\<lparr>cl_state := PLAYER_APPLIED, cl_updated_at_ms := ck_now c, cl_last_error := []\<rparr>) version
           (goes AtRead) (goes AtRead) k w
     | AtCancel r version \<Rightarrow>
         write_claim (ck_store c) (r\<lparr>cl_state := CANCELLING, cl_updated_at_ms := ck_now c, cl_last_error := full_message\<rparr>) version
           reenter (store_fails MailVersionConflict) k w
     | AtMarkRead r version n \<Rightarrow>
         (case n of
            0 \<Rightarrow> goes AtRead k
          | Suc m \<Rightarrow>
              if ck_store c \<noteq> Delivered then store_fails MailUnavailable k
              else goes (AtMark r version m (GetMailState (cl_player_id r) (cl_mail_id r) (cw_store w))) k, w)
     | AtMark r version n seen \<Rightarrow>
         (case mark_write mt_claimed (set_claimed (ck_now c)) (claimed_state (cl_player_id r) (cl_mail_id r) (ck_now c)) seen (ck_store c) (cw_store w) of
            (Marked, st) \<Rightarrow> (goes (AtComplete r version) k, w\<lparr>cw_store := st\<rparr>)
          | (TryAgain, st) \<Rightarrow> (goes (AtMarkRead r version n) k, w\<lparr>cw_store := st\<rparr>)
          | (MarkFailed e, st) \<Rightarrow> (store_fails e k, w\<lparr>cw_store := st\<rparr>))
     | AtComplete r version \<Rightarrow>
         write_claim (ck_store c) (r\<lparr>cl_state := CLAIM_COMPLETED, cl_updated_at_ms := ck_now c, cl_last_error := []\<rparr>) version
           succeeds (goes AtRead) k w
     | AtFinish r version \<Rightarrow>
         write_claim (ck_store c) (r\<lparr>cl_state := AVAILABLE, cl_updated_at_ms := ck_now c\<rparr>) version
           (fails ErrClaimInventoryFull) (goes AtRead) k w
     | Returned _ \<Rightarrow> (k, w))"

text \<open>
  \<open>Advance\<close> as one worker runs it: \<open>cs n\<close> are the circumstances with \<open>n\<close> steps left, with what others do to the
  world before this step. No run takes more than 400 steps.
\<close>

fun drive_worker ::
  "(nat \<Rightarrow> claim_conditions \<times> (claim_world \<Rightarrow> claim_world)) \<Rightarrow> nat \<Rightarrow> claim_worker \<Rightarrow> claim_world \<Rightarrow> claim_worker \<times> claim_world" where
  "drive_worker cs 0 k w = (k, w)"
| "drive_worker cs (Suc n) k w =
     (case wk_pc k of
        Returned _ \<Rightarrow> (k, w)
      | _ \<Rightarrow> (let (k1, w1) = advance_step (fst (cs n)) k (snd (cs n) w) in drive_worker cs n k1 w1))"

definition Advance ::
  "(nat \<Rightarrow> claim_conditions \<times> (claim_world \<Rightarrow> claim_world)) \<Rightarrow> bytes \<Rightarrow> claim_world \<Rightarrow>
   (claim_error + reward_response option) option \<times> claim_world" where
  "Advance cs claimID w =
     (let (k, w1) = drive_worker cs 400 (new_worker claimID) w
      in (case wk_pc k of Returned res \<Rightarrow> Some res | _ \<Rightarrow> None, w1))"

definition ClaimMail ::
  "fate \<Rightarrow> int \<Rightarrow> (nat \<Rightarrow> claim_conditions \<times> (claim_world \<Rightarrow> claim_world)) \<Rightarrow> claim_request \<Rightarrow> claim_world \<Rightarrow>
   (mail_store_error + claim_response) option \<times> claim_world" where
  "ClaimMail f now cs q w =
     (if invalid_claim q then (Some (Inr (claim_failed invalidArg)), w)
      else case BeginClaim f q now (cw_store w) of
        (Inl e, st) \<Rightarrow> (Some (Inr (mapClaimError e)), w\<lparr>cw_store := st\<rparr>)
      | (Inr (saga, _), st) \<Rightarrow>
          let w1 = w\<lparr>cw_store := st\<rparr>;
              answer = (\<lambda>r items coins patch version. \<lparr>cp_mail_id = cl_mail_id r, cp_items_added = items, cp_coins_added = coins,
                cp_patch = Some patch, cp_state_version = version, cp_error = None\<rparr>);
              views = (\<lambda>r. claimAttachmentsToViews (cl_attachments r))
          in if cl_state saga = CLAIM_COMPLETED
             then (Some (Inr (answer saga (views saga) (cl_coin_amount saga) (inventory_patch (views saga)) None)), w1)
             else (case Advance cs (cl_claim_id saga) w1 of
                     (None, w2) \<Rightarrow> (None, w2)
                   | (Some (Inl e), w2) \<Rightarrow> (Some (Inr (mapClaimError e)), w2)
                   | (Some (Inr applied), w2) \<Rightarrow>
                       (case GetClaimSaga (cq_claim_id q) (cw_store w2) of
                          None \<Rightarrow> (Some (Inl MailNotFound), w2)
                        | Some (final, _) \<Rightarrow>
                            if cl_state final \<noteq> CLAIM_COMPLETED then (Some (Inr (mapClaimError ErrClaimNotReady)), w2)
                            else (case applied of
                                    None \<Rightarrow> (Some (Inr (answer final (views final) (cl_coin_amount final) (inventory_patch (views final)) None)), w2)
                                  | Some a \<Rightarrow>
                                      (Some (Inr (answer final
                                         (if rx_items_added a \<noteq> [] then rx_items_added a else views final)
                                         (if rx_coins_added a > 0 then rx_coins_added a else cl_coin_amount final)
                                         (case rx_patch a of Some p \<Rightarrow> p | None \<Rightarrow> inventory_patch (views final))
                                         (appliedStateVersion a))), w2)))))"

section \<open>The reconciler\<close>

definition deferClaim :: "fate \<Rightarrow> bytes \<Rightarrow> string \<Rightarrow> int \<Rightarrow> mail_store \<Rightarrow> mail_store" where
  "deferClaim f claimID cause now st = (case GetClaimSaga claimID st of
       None \<Rightarrow> st
     | Some (r, version) \<Rightarrow> snd (with_fate f MailUnavailable (UpdateClaimSaga
         (r\<lparr>cl_retry_at_ms := now + 2000, cl_last_error := cause, cl_updated_at_ms := now\<rparr>) version) st))"

definition claim_due :: "int \<Rightarrow> claim_saga \<Rightarrow> bool" where
  "claim_due now row \<longleftrightarrow> cl_state row \<noteq> CLAIM_COMPLETED \<and> cl_state row \<noteq> AVAILABLE \<and> \<not> cl_retry_at_ms row > now"

text \<open>The rows listed at the start, in any order; the text of an error is an argument. The first error is returned.\<close>

fun reconcile_rows ::
  "(bytes \<Rightarrow> nat \<Rightarrow> claim_conditions \<times> (claim_world \<Rightarrow> claim_world)) \<Rightarrow> (bytes \<Rightarrow> fate) \<Rightarrow> (claim_error \<Rightarrow> string) \<Rightarrow> int \<Rightarrow>
   claim_saga list \<Rightarrow> claim_error option \<Rightarrow> claim_world \<Rightarrow> claim_error option \<times> claim_world" where
  "reconcile_rows css fs text_of now [] firstErr w = (firstErr, w)"
| "reconcile_rows css fs text_of now (row # rows) firstErr w =
     (if \<not> claim_due now row then reconcile_rows css fs text_of now rows firstErr w
      else case Advance (css (cl_claim_id row)) (cl_claim_id row) w of
        (Some (Inl e), w1) \<Rightarrow>
          reconcile_rows css fs text_of now rows (if firstErr = None then Some e else firstErr)
            (w1\<lparr>cw_store := deferClaim (fs (cl_claim_id row)) (cl_claim_id row) (text_of e) now (cw_store w1)\<rparr>)
      | (_, w1) \<Rightarrow> reconcile_rows css fs text_of now rows firstErr w1)"

definition ReconcileClaims ::
  "(bytes \<Rightarrow> nat \<Rightarrow> claim_conditions \<times> (claim_world \<Rightarrow> claim_world)) \<Rightarrow> (bytes \<Rightarrow> fate) \<Rightarrow> (claim_error \<Rightarrow> string) \<Rightarrow> int \<Rightarrow>
   claim_world \<Rightarrow> claim_error option \<times> claim_world" where
  "ReconcileClaims css fs text_of now w = reconcile_rows css fs text_of now (ListClaimSagas (cw_store w)) None w"

section \<open>The loop ends\<close>

definition claims_keyed :: "mail_store \<Rightarrow> bool" where
  "claims_keyed st \<longleftrightarrow> (\<forall>i r v. fmlookup (ms_claims st) i = Some (r, v) \<longrightarrow> cl_claim_id r = i)"

definition closing :: "bytes \<Rightarrow> mail_store \<Rightarrow> bool" where
  "closing i st \<longleftrightarrow> (\<exists>r v. fmlookup (ms_claims st) i = Some (r, v) \<and> cl_state r \<in> {CANCELLING, AVAILABLE})"

text \<open>What a worker relies on: others store records under their identifiers and do not take up a cancelled claim again.\<close>

definition relied_on :: "bytes \<Rightarrow> (claim_world \<Rightarrow> claim_world) \<Rightarrow> bool" where
  "relied_on i others \<longleftrightarrow> (\<forall>w. claims_keyed (cw_store w) \<longrightarrow> claims_keyed (cw_store (others w)) \<and>
     (closing i (cw_store w) \<longrightarrow> closing i (cw_store (others w))))"

fun pc_saga :: "claim_pc \<Rightarrow> claim_saga option" where
  "pc_saga AtRead = None"
| "pc_saga (AtApply r _) = Some r"
| "pc_saga (AtApplied r _) = Some r"
| "pc_saga (AtCancel r _) = Some r"
| "pc_saga (AtMarkRead r _ _) = Some r"
| "pc_saga (AtMark r _ _ _) = Some r"
| "pc_saga (AtComplete r _) = Some r"
| "pc_saga (AtFinish r _) = Some r"
| "pc_saga (Returned _) = None"

fun pc_rank :: "claim_pc \<Rightarrow> nat" where
  "pc_rank (AtApply _ _) = 2"
| "pc_rank (AtMarkRead _ _ n) = 2 * n + 2"
| "pc_rank (AtMark _ _ n _) = 2 * n + 3"
| "pc_rank AtRead = 0"
| "pc_rank _ = 1"

fun is_returned :: "claim_pc \<Rightarrow> bool" where
  "is_returned (Returned _) = True"
| "is_returned _ = False"

definition steps_left :: "claim_worker \<Rightarrow> nat" where
  "steps_left k = (if is_returned (wk_pc k) then 0 else (if wk_cancelled k then 0 else 200) + wk_left k * 20 + pc_rank (wk_pc k) + 1)"

definition worker_ok :: "claim_worker \<Rightarrow> mail_store \<Rightarrow> bool" where
  "worker_ok k st \<longleftrightarrow> claims_keyed st \<and> (\<forall>r. pc_saga (wk_pc k) = Some r \<longrightarrow> cl_claim_id r = wk_claim_id k) \<and>
     (wk_cancelled k \<longrightarrow> closing (wk_claim_id k) st \<and> (wk_pc k = AtRead \<or> is_returned (wk_pc k) \<or> (\<exists>r v. wk_pc k = AtFinish r v)))"

lemma worker_moves [simp]:
  "wk_pc (goes pc k) = pc" "wk_claim_id (goes pc k) = wk_claim_id k" "wk_left (goes pc k) = wk_left k" "wk_cancelled (goes pc k) = wk_cancelled k"
  "fails e k = goes (Returned (Inl e)) k" "store_fails s k = goes (Returned (Inl (ClaimFailed (MailFailed s)))) k"
  "wk_pc (reenter k) = AtRead" "wk_claim_id (reenter k) = wk_claim_id k" "wk_left (reenter k) = 8" "wk_cancelled (reenter k)"
  "is_returned (wk_pc (succeeds k))" "wk_claim_id (succeeds k) = wk_claim_id k" "wk_cancelled (succeeds k) = wk_cancelled k" "pc_saga (wk_pc (succeeds k)) = None"
  by (simp_all add: goes_def fails_def store_fails_def reenter_def succeeds_def)

lemma UpdateClaimSaga_effect:
  assumes "with_fate f MailUnavailable (UpdateClaimSaga r v) st = (res, st')"
  shows "st' = st \<and> isl res \<or> (\<exists>r0. fmlookup (ms_claims st) (cl_claim_id r) = Some (r0, v) \<and>
    st' = st\<lparr>ms_claims := fmupd (cl_claim_id r) (r, v + 1) (ms_claims st)\<rparr>)"
  using assms by (rule with_fate_cases) (auto simp: UpdateClaimSaga_def split: option.splits if_splits)

lemma write_claim_effect:
  assumes "write_claim f r v written conflict k w = (k', w')"
  shows "w' = w \<and> k' = conflict k \<or> w' = w \<and> (\<exists>e. k' = store_fails e k) \<or>
    (\<exists>r0. fmlookup (ms_claims (cw_store w)) (cl_claim_id r) = Some (r0, v) \<and>
       w' = w\<lparr>cw_store := (cw_store w)\<lparr>ms_claims := fmupd (cl_claim_id r) (r, v + 1) (ms_claims (cw_store w))\<rparr>\<rparr> \<and>
       (k' = written k \<or> (\<exists>e. k' = store_fails e k)))"
proof -
  obtain res st where e: "with_fate f MailUnavailable (UpdateClaimSaga r v) (cw_store w) = (res, st)" by fastforce
  have nc: "res = Inl MailVersionConflict \<Longrightarrow> st = cw_store w"
    using e by (rule with_fate_cases) (auto simp: UpdateClaimSaga_def split: option.splits if_splits)
  show ?thesis using UpdateClaimSaga_effect [OF e] assms e nc by (cases res) (auto simp: write_claim_def split: if_splits)
qed

lemma keyed_upd: "claims_keyed st \<Longrightarrow> claims_keyed (st\<lparr>ms_claims := fmupd (cl_claim_id r) (r, v) (ms_claims st)\<rparr>)"
  by (simp add: claims_keyed_def)

lemma mark_write_frame:
  assumes "mark_write marked mark fresh seen f st = (res, st')"
  shows "ms_claims st' = ms_claims st \<and> ms_public st' = ms_public st \<and> ms_private st' = ms_private st"
proof (cases seen)
  case None
  obtain x st1 where x: "with_fate f MailUnavailable (InsertMailState fresh) st = (x, st1)" by fastforce
  have "st' = st1" using assms None x by (auto simp: mark_write_def split: sum.splits)
  then show ?thesis using x by (auto elim!: with_fate_cases simp: InsertMailState_def Let_def split: option.splits)
next
  case (Some p)
  obtain s v where p: "p = (s, v)" by fastforce
  obtain x st1 where x: "with_fate f MailUnavailable (UpdateMailState (mark s) v) st = (x, st1)" by fastforce
  have "st' = st \<or> st' = st1" using assms Some p x by (auto simp: mark_write_def split: sum.splits if_splits)
  then show ?thesis using x by (auto elim!: with_fate_cases simp: UpdateMailState_def Let_def split: option.splits if_splits)
qed

lemma call_zone_store [simp]: "cw_store (snd (call_zone c p i m a n w)) = cw_store w"
  by (simp add: call_zone_def split: prod.splits)

lemma claim_switch_ok:
  assumes "worker_ok k st" "wk_pc k = AtRead" "GetClaimSaga (wk_claim_id k) st = Some (r, v)"
  shows "worker_ok (claim_switch r v (k\<lparr>wk_left := n\<rparr>)) st \<and> wk_cancelled (claim_switch r v (k\<lparr>wk_left := n\<rparr>)) = wk_cancelled k \<and>
    (is_returned (wk_pc (claim_switch r v (k\<lparr>wk_left := n\<rparr>))) \<or>
      wk_left (claim_switch r v (k\<lparr>wk_left := n\<rparr>)) = n \<and> pc_rank (wk_pc (claim_switch r v (k\<lparr>wk_left := n\<rparr>))) \<le> 18)"
proof -
  have r: "cl_claim_id r = wk_claim_id k" using assms(1,3) by (simp add: worker_ok_def claims_keyed_def GetClaimSaga_def)
  have c: "wk_cancelled k \<Longrightarrow> cl_state r \<in> {CANCELLING, AVAILABLE}" using assms(1,3) by (auto simp: worker_ok_def closing_def GetClaimSaga_def)
  show ?thesis using assms(1) r c by (cases "cl_state r") (auto simp: claim_switch_def worker_ok_def)
qed

text \<open>A write by a worker that is not cancelled keeps it in order, wherever it then goes without a record.\<close>

lemma write_step_ok:
  assumes "worker_ok k (cw_store w)" "write_claim f r v written conflict k w = (k', w')" "\<not> wk_cancelled k" "cl_claim_id r = wk_claim_id k"
    "wk_claim_id (written k) = wk_claim_id k \<and> pc_saga (wk_pc (written k)) = None \<and> steps_left (written k) < steps_left k"
    "wk_claim_id (conflict k) = wk_claim_id k \<and> pc_saga (wk_pc (conflict k)) = None \<and> steps_left (conflict k) < steps_left k"
    "\<not> wk_cancelled (conflict k)" "wk_cancelled (written k) \<Longrightarrow> cl_state r = CANCELLING \<and> wk_pc (written k) = AtRead" "0 < steps_left k"
  shows "worker_ok k' (cw_store w') \<and> wk_claim_id k' = wk_claim_id k \<and> steps_left k' < steps_left k"
proof -
  note p = assms(5,6)
  have sf: "worker_ok (store_fails e k) st \<and> wk_claim_id (store_fails e k) = wk_claim_id k \<and> steps_left (store_fails e k) < steps_left k"
    if "claims_keyed st" for e st using that assms(3,9) by (simp add: worker_ok_def steps_left_def)
  have key: "claims_keyed (cw_store w)" using assms(1) by (simp add: worker_ok_def)
  let ?st = "(cw_store w)\<lparr>ms_claims := fmupd (cl_claim_id r) (r, v + 1) (ms_claims (cw_store w))\<rparr>"
  have key': "claims_keyed ?st" by (rule keyed_upd [OF key])
  have "worker_ok (conflict k) (cw_store w)" using p key assms(7) by (simp add: worker_ok_def)
  moreover have "worker_ok (written k) ?st" using p key' assms(4,8) by (auto simp: worker_ok_def closing_def)
  ultimately show ?thesis using write_claim_effect [OF assms(2)] p sf [OF key] sf [OF key'] by auto
qed

lemma advance_step_ok:
  assumes "worker_ok k (cw_store w)" "advance_step c k w = (k', w')" "\<not> is_returned (wk_pc k)"
  shows "worker_ok k' (cw_store w') \<and> wk_claim_id k' = wk_claim_id k \<and> steps_left k' < steps_left k"
proof (cases "wk_pc k")
  case AtRead
  show ?thesis
  proof (cases "wk_left k = 0 \<or> ck_store c \<noteq> Delivered \<or> GetClaimSaga (wk_claim_id k) (cw_store w) = None")
    case True
    then show ?thesis using assms AtRead by (auto simp: advance_step_def worker_ok_def steps_left_def Let_def split: if_splits)
  next
    case False
    then obtain r v where g: "GetClaimSaga (wk_claim_id k) (cw_store w) = Some (r, v)" by auto
    have e: "k' = claim_switch r v (k\<lparr>wk_left := wk_left k - 1\<rparr>)" "w' = w" using assms(2) False AtRead g by (auto simp: advance_step_def Let_def)
    have "wk_claim_id k' = wk_claim_id k" unfolding e by (cases "cl_state r") (simp_all add: claim_switch_def)
    moreover have "steps_left k' < steps_left k"
      using claim_switch_ok [OF assms(1) AtRead g, of "wk_left k - 1"] False AtRead unfolding e by (cases "wk_left k") (auto simp: steps_left_def)
    ultimately show ?thesis using claim_switch_ok [OF assms(1) AtRead g] e by simp
  qed
next
  case (AtApply r v)
  obtain res w1 where z: "call_zone (ck_zone c) (cl_player_id r) (cl_claim_id r) (cl_mail_id r) (cl_attachments r) (cl_coin_amount r) w = (res, w1)"
    by fastforce
  have "cw_store w1 = cw_store w" using call_zone_store [of "ck_zone c" "cl_player_id r" "cl_claim_id r" "cl_mail_id r" "cl_attachments r" "cl_coin_amount r" w] z by simp
  then show ?thesis using assms AtApply z
    by (auto simp: advance_step_def worker_ok_def steps_left_def split: sum.splits option.splits if_splits)
next
  case (AtApplied r v)
  then show ?thesis using assms by (intro write_step_ok [OF assms(1)]) (auto simp: advance_step_def worker_ok_def steps_left_def)
next
  case (AtCancel r v)
  then show ?thesis using assms by (intro write_step_ok [OF assms(1)]) (auto simp: advance_step_def worker_ok_def steps_left_def)
next
  case (AtMarkRead r v n)
  then show ?thesis using assms by (cases n) (auto simp: advance_step_def worker_ok_def steps_left_def split: if_splits)
next
  case (AtMark r v n seen)
  obtain res st where m: "mark_write mt_claimed (set_claimed (ck_now c)) (claimed_state (cl_player_id r) (cl_mail_id r) (ck_now c)) seen (ck_store c) (cw_store w) = (res, st)"
    by fastforce
  then have "ms_claims st = ms_claims (cw_store w)" using mark_write_frame by blast
  then show ?thesis using assms AtMark m by (cases res) (auto simp: advance_step_def worker_ok_def claims_keyed_def steps_left_def)
next
  case (AtComplete r v)
  then show ?thesis using assms by (intro write_step_ok [OF assms(1)]) (auto simp: advance_step_def worker_ok_def steps_left_def)
next
  case (AtFinish r v)
  let ?r = "r\<lparr>cl_state := AVAILABLE, cl_updated_at_ms := ck_now c\<rparr>"
  have a: "write_claim (ck_store c) ?r v (fails ErrClaimInventoryFull) (goes AtRead) k w = (k', w')" using assms(2) AtFinish by (simp add: advance_step_def)
  have i: "cl_claim_id ?r = wk_claim_id k" using assms(1) AtFinish by (simp add: worker_ok_def)
  let ?st = "(cw_store w)\<lparr>ms_claims := fmupd (cl_claim_id ?r) (?r, v + 1) (ms_claims (cw_store w))\<rparr>"
  have "claims_keyed ?st" by (rule keyed_upd) (use assms(1) in \<open>simp add: worker_ok_def\<close>)
  moreover have "closing (wk_claim_id k) ?st" using i by (simp add: closing_def)
  ultimately show ?thesis using write_claim_effect [OF a] assms(1) AtFinish by (auto simp: worker_ok_def steps_left_def)
next
  case (Returned x)
  then show ?thesis using assms(3) by simp
qed

lemma drive_returns:
  assumes "worker_ok k (cw_store w)" "\<forall>n. relied_on (wk_claim_id k) (snd (cs n))" "steps_left k \<le> n"
  shows "is_returned (wk_pc (fst (drive_worker cs n k w)))"
  using assms
proof (induction n arbitrary: k w)
  case 0
  then show ?case by (auto simp: steps_left_def split: if_splits)
next
  case (Suc n)
  show ?case
  proof (cases "is_returned (wk_pc k)")
    case False
    let ?w = "snd (cs n) w"
    obtain k1 w1 where s: "advance_step (fst (cs n)) k ?w = (k1, w1)" by fastforce
    have "worker_ok k (cw_store ?w)" using Suc.prems(1,2) by (auto simp: worker_ok_def relied_on_def)
    note k1 = advance_step_ok [OF this s False]
    have "drive_worker cs (Suc n) k w = drive_worker cs n k1 w1" using False s by (cases "wk_pc k") simp_all
    then show ?thesis using Suc.IH [of k1 w1] k1 Suc.prems(2,3) by simp
  qed (cases "wk_pc k"; simp)
qed



section \<open>Claims and players agree\<close>

definition receipt_for :: "claim_saga \<Rightarrow> mail_claim_receipt \<Rightarrow> bool" where
  "receipt_for r x \<longleftrightarrow> mcr_mail_id x = cl_mail_id r \<and> mcr_claim_id x = cl_claim_id r \<and> mcr_coin_amount x = cl_coin_amount r \<and>
     (\<exists>d. normalizeMailAttachments (cl_attachments r) (cl_coin_amount r) = Inr (mcr_attachments x, d))"

definition paid :: "claim_saga \<Rightarrow> claim_world \<Rightarrow> bool" where
  "paid r w \<longleftrightarrow> (\<exists>x \<in> set (st_mail_claim_receipts (cw_players w (cl_player_id r))). receipt_for r x)"

definition one_receipt :: "state \<Rightarrow> bool" where
  "one_receipt s \<longleftrightarrow> (\<forall>m. length (filter (\<lambda>x. mcr_mail_id x = m) (st_mail_claim_receipts s)) \<le> 1)"

lemma applyMailReward_receipts:
  assumes "applyMailReward claimID mailID ps coin now s = (res, s')"
  shows "set (st_mail_claim_receipts s) \<subseteq> set (st_mail_claim_receipts s') \<and> (one_receipt s \<longrightarrow> one_receipt s') \<and>
    (\<forall>x. res = Inr x \<longrightarrow> (\<exists>y \<in> set (st_mail_claim_receipts s'). mcr_mail_id y = mailID \<and> mcr_claim_id y = claimID \<and> mcr_coin_amount y = coin \<and>
       (\<exists>d. normalizeMailAttachments ps coin = Inr (mcr_attachments y, d))))"
proof (cases res)
  case (Inl e)
  then have "s' = s" using assms by (auto simp: applyMailReward_def Let_def split: if_splits sum.splits option.splits)
  then show ?thesis using Inl by simp
next
  case (Inr x)
  then obtain ns d where n: "normalizeMailAttachments ps coin = Inr (ns, d)"
    using assms by (auto simp: applyMailReward_def split: if_splits sum.splits)
  consider (replay) y where "s' = s" "y \<in> set (st_mail_claim_receipts s)" "mcr_mail_id y = mailID" "mcr_claim_id y = claimID"
      "mcr_attachments y = ns" "mcr_coin_amount y = coin"
    | (fresh) projected where "filter (\<lambda>y. mcr_mail_id y = mailID) (st_mail_claim_receipts s) = []"
      "s' = credit_mail claimID mailID ns projected coin now s"
    using assms Inr n by (auto simp: applyMailReward_def Let_def list_ex_filter split: if_splits sum.splits option.splits dest!: find_mem)
  then show ?thesis
  proof cases
    case replay
    then show ?thesis using n by auto
  next
    case fresh
    have "one_receipt s'" if "one_receipt s" using that fresh by (auto simp: one_receipt_def credit_mail_def)
    then show ?thesis using fresh n by (auto simp: credit_mail_def)
  qed
qed

definition pays :: "bytes \<Rightarrow> string \<Rightarrow> (u32 \<times> u32) list \<Rightarrow> int \<Rightarrow> (rpc_code + reward_response) \<Rightarrow> state \<Rightarrow> state \<Rightarrow> bool" where
  "pays claimID mailID ps coin res s s' \<longleftrightarrow>
     set (st_mail_claim_receipts s) \<subseteq> set (st_mail_claim_receipts s') \<and> (one_receipt s \<longrightarrow> one_receipt s') \<and>
     (\<forall>x. res = Inr x \<and> rx_error x = None \<longrightarrow> (\<exists>y \<in> set (st_mail_claim_receipts s'). mcr_mail_id y = mailID \<and> mcr_claim_id y = claimID \<and>
        mcr_coin_amount y = coin \<and> (\<exists>d. normalizeMailAttachments ps coin = Inr (mcr_attachments y, d))))"

lemma pays_refl: "pays claimID mailID ps coin (Inl e) s s"
  by (simp add: pays_def)

lemma rpc_pays:
  assumes "ApplyMailReward_rpc now T route p claimID mailID ps coin s = (res, s')"
  shows "pays claimID mailID ps coin res s s'"
proof (cases "s' = s \<and> isl res")
  case True
  then show ?thesis by (auto simp: pays_def)
next
  case False
  then obtain c x where c: "route = Some c" "ApplyMailReward (cr_owner_epoch c) claimID mailID ps coin now s = (x, s')"
    "(\<exists>y. res = Inr y \<and> rx_error y = None) \<longrightarrow> \<not> isl x"
    using assms by (auto simp: ApplyMailReward_rpc_def reward_refused_def split: if_splits option.splits sum.splits prod.splits mail_error.splits)
  show ?thesis
  proof (cases "s' = s \<and> isl x")
    case True
    then show ?thesis using c(3) by (auto simp: pays_def)
  next
    case False
    then have "applyMailReward claimID mailID ps coin now s = (x, s')" using c(2) by (auto simp: ApplyMailReward_def split: if_splits)
    then show ?thesis using applyMailReward_receipts c(3) unfolding pays_def by (cases x) fastforce+
  qed
qed

lemma pays_trans: "pays i m ps coin (Inl e) s s1 \<Longrightarrow> pays i m ps coin res s1 s2 \<Longrightarrow> pays i m ps coin res s s2"
  unfolding pays_def by blast

lemma zone_pays:
  assumes "zone_ApplyMailReward c p claimID mailID ps coin s = (res, s')"
  shows "pays claimID mailID ps coin res s s'"
proof (cases "zn_route c")
  case None
  then show ?thesis using assms by (auto simp: zone_ApplyMailReward_def pays_def)
next
  case (Some route)
  obtain x s1 where x: "ApplyMailReward_rpc (zn_now c) (zn_auth c) (Some route) p claimID mailID ps coin s = (x, s1)" by fastforce
  note x' = rpc_pays [OF x]
  show ?thesis
  proof (cases "x = Inl RpcFailedPrecondition \<and> zn_second_route c \<noteq> None")
    case True
    then obtain route2 where "ApplyMailReward_rpc (zn_now c) (zn_auth c) (Some route2) p claimID mailID ps coin s1 = (res, s')"
      using assms Some x by (auto simp: zone_ApplyMailReward_def Let_def)
    then show ?thesis using rpc_pays pays_trans x' True by blast
  next
    case False
    then have "s' = s1 \<and> (res = x \<or> x = Inl RpcFailedPrecondition \<and> res = Inl RpcUnavailable)"
      using assms Some x by (auto simp: zone_ApplyMailReward_def Let_def split: sum.splits rpc_code.splits)
    then show ?thesis using x' by (auto simp: pays_def)
  qed
qed

lemma call_zone_pays:
  assumes "call_zone c p claimID mailID ps coin w = (res, w')"
  shows "pays claimID mailID ps coin res (cw_players w p) (cw_players w' p) \<and> (\<forall>q. q \<noteq> p \<longrightarrow> cw_players w' q = cw_players w q) \<and> cw_store w' = cw_store w"
proof -
  obtain s where s: "with_fate (zn_fate c) RpcUnavailable (zone_ApplyMailReward c p claimID mailID ps coin) (cw_players w p) = (res, s)"
    "w' = w\<lparr>cw_players := (cw_players w)(p := s)\<rparr>" using assms by (auto simp: call_zone_def split: prod.splits)
  have "pays claimID mailID ps coin res (cw_players w p) s"
    using s(1) by (rule with_fate_cases) (auto simp: pays_def dest!: zone_pays)
  then show ?thesis using s(2) by simp
qed

text \<open>
  A history of the system: workers start and take steps in any order, requests begin claims (the write of
  \<open>BeginClaim\<close>, whose checks may be out of date), claim directly, the reconciler defers records, and anything else
  happens that keeps the records, the receipts and the claimed marks.
\<close>

definition idle_worker :: claim_worker where
  "idle_worker = goes (Returned (Inr None)) (new_worker [])"

definition states_keyed :: "mail_store \<Rightarrow> bool" where
  "states_keyed st \<longleftrightarrow> (\<forall>p m s v. GetMailState p m st = Some (s, v) \<longrightarrow> mt_player_id s = p \<and> mt_mail_id s = m)"

inductive claim_history :: "claim_world \<Rightarrow> claim_world \<Rightarrow> (nat \<Rightarrow> claim_worker) \<Rightarrow> bool" for w0 where
  start: "claim_history w0 w0 (\<lambda>_. idle_worker)"
| spawn: "claim_history w0 w K \<Longrightarrow> claim_history w0 w (K(n := new_worker i))"
| work: "claim_history w0 w K \<Longrightarrow> advance_step c (K n) w = (k, w') \<Longrightarrow> claim_history w0 w' (K(n := k))"
| begins: "claim_history w0 w K \<Longrightarrow> with_fate f MailUnavailable (InsertClaimSaga (claim_record q atts coins now)) (cw_store w) = (res, st) \<Longrightarrow>
    claim_history w0 (w\<lparr>cw_store := st\<rparr>) K"
| direct: "claim_history w0 w K \<Longrightarrow> ClaimMailDirect z q w = (res', w') \<Longrightarrow> claim_history w0 w' K"
| deferred: "claim_history w0 w K \<Longrightarrow> claim_history w0 (w\<lparr>cw_store := deferClaim f i cause now (cw_store w)\<rparr>) K"
| other: "claim_history w0 w K \<Longrightarrow> ms_claims (cw_store w') = ms_claims (cw_store w) \<Longrightarrow> states_keyed (cw_store w') \<Longrightarrow>
    (\<And>p m. is_claimed p m (cw_store w) \<Longrightarrow> is_claimed p m (cw_store w')) \<Longrightarrow>
    (\<And>p. st_mail_claim_receipts (cw_players w' p) = st_mail_claim_receipts (cw_players w p)) \<Longrightarrow> claim_history w0 w' K"

definition marked_claim :: "claim_saga \<Rightarrow> claim_world \<Rightarrow> bool" where
  "marked_claim r w \<longleftrightarrow> is_claimed (cl_player_id r) (cl_mail_id r) (cw_store w)"

definition record_promise :: "claim_saga \<Rightarrow> claim_world \<Rightarrow> bool" where
  "record_promise r w \<longleftrightarrow> (cl_state r \<in> {PLAYER_APPLIED, CLAIM_COMPLETED} \<longrightarrow> paid r w) \<and> (cl_state r = CLAIM_COMPLETED \<longrightarrow> marked_claim r w)"

fun pc_promise :: "claim_pc \<Rightarrow> claim_world \<Rightarrow> bool" where
  "pc_promise (AtApplied r _) w = paid r w"
| "pc_promise (AtMarkRead r _ _) w = paid r w"
| "pc_promise (AtMark r _ _ seen) w = (paid r w \<and> (case seen of None \<Rightarrow> True
     | Some (s, _) \<Rightarrow> mt_player_id s = cl_player_id r \<and> mt_mail_id s = cl_mail_id r \<and> (mt_claimed s \<longrightarrow> marked_claim r w)))"
| "pc_promise (AtComplete r _) w = (paid r w \<and> marked_claim r w)"
| "pc_promise _ w = True"

definition claim_inv :: "claim_world \<Rightarrow> (nat \<Rightarrow> claim_worker) \<Rightarrow> bool" where
  "claim_inv w K \<longleftrightarrow> states_keyed (cw_store w) \<and> (\<forall>p. one_receipt (cw_players w p)) \<and>
     (\<forall>i r v. fmlookup (ms_claims (cw_store w)) i = Some (r, v) \<longrightarrow> record_promise r w) \<and> (\<forall>n. pc_promise (wk_pc (K n)) w)"

text \<open>Receipts and claimed marks only ever come on top.\<close>

definition grows :: "claim_world \<Rightarrow> claim_world \<Rightarrow> bool" where
  "grows w w' \<longleftrightarrow> (\<forall>p. set (st_mail_claim_receipts (cw_players w p)) \<subseteq> set (st_mail_claim_receipts (cw_players w' p))) \<and>
     (\<forall>p m. is_claimed p m (cw_store w) \<longrightarrow> is_claimed p m (cw_store w'))"

lemma grows_paid: "grows w w' \<Longrightarrow> paid r w \<Longrightarrow> paid r w'"
  by (auto simp: grows_def paid_def)

lemma grows_marked: "grows w w' \<Longrightarrow> marked_claim r w \<Longrightarrow> marked_claim r w'"
  by (simp add: grows_def marked_claim_def)

lemma grows_record: "grows w w' \<Longrightarrow> record_promise r w \<Longrightarrow> record_promise r w'"
  by (auto simp: record_promise_def dest: grows_paid grows_marked)

lemma grows_pc: "grows w w' \<Longrightarrow> pc_promise pc w \<Longrightarrow> pc_promise pc w'"
  by (cases pc) (auto dest: grows_paid grows_marked split: option.splits)

lemma claim_inv_step:
  assumes "claim_inv w K" "grows w w'" "states_keyed (cw_store w')" "\<And>p. one_receipt (cw_players w' p)"
    "\<And>i r v. fmlookup (ms_claims (cw_store w')) i = Some (r, v) \<Longrightarrow> fmlookup (ms_claims (cw_store w)) i = Some (r, v) \<or> record_promise r w'"
    "pc_promise (wk_pc k) w'"
  shows "claim_inv w' (K(n := k))"
  using assms grows_record [OF assms(2)] grows_pc [OF assms(2)] unfolding claim_inv_def by (auto simp del: pc_promise.simps) blast

lemma claim_inv_same:
  assumes "claim_inv w K" "grows w w'" "states_keyed (cw_store w')" "\<And>p. one_receipt (cw_players w' p)"
    "\<And>i r v. fmlookup (ms_claims (cw_store w')) i = Some (r, v) \<Longrightarrow> fmlookup (ms_claims (cw_store w)) i = Some (r, v) \<or> record_promise r w'"
  shows "claim_inv w' K"
proof -
  have "pc_promise (wk_pc (K 0)) w'" using grows_pc [OF assms(2)] assms(1) by (simp add: claim_inv_def)
  then show ?thesis using claim_inv_step [OF assms, of "K 0" 0] by simp
qed

lemma grows_refl [simp]: "grows w w"
  by (simp add: grows_def)

lemma claims_only:
  assumes "w' = w\<lparr>cw_store := (cw_store w)\<lparr>ms_claims := C\<rparr>\<rparr>"
  shows "grows w w'" "states_keyed (cw_store w') = states_keyed (cw_store w)" "cw_players w' = cw_players w"
    "record_promise r w' = record_promise r w" "pc_promise pc w' = pc_promise pc w"
proof -
  have s: "is_claimed p m (cw_store w') = is_claimed p m (cw_store w)" for p m by (simp add: assms is_claimed_def GetMailState_def)
  show "grows w w'" "states_keyed (cw_store w') = states_keyed (cw_store w)" "cw_players w' = cw_players w"
    by (simp_all add: grows_def s) (simp_all add: assms states_keyed_def GetMailState_def)
  have m: "paid r w' = paid r w" "marked_claim r w' = marked_claim r w" for r by (simp_all add: paid_def marked_claim_def s) (simp_all add: assms)
  show "record_promise r w' = record_promise r w" "pc_promise pc w' = pc_promise pc w"
    by (simp add: record_promise_def m) (cases pc; simp add: m split: option.splits)
qed

lemma call_zone_grows:
  assumes "call_zone c p i m ps coin w = (res, w')"
  shows "grows w w' \<and> cw_store w' = cw_store w \<and> ((\<forall>q. one_receipt (cw_players w q)) \<longrightarrow> (\<forall>q. one_receipt (cw_players w' q)))"
proof -
  note k = call_zone_pays [OF assms]
  have "set (st_mail_claim_receipts (cw_players w q)) \<subseteq> set (st_mail_claim_receipts (cw_players w' q)) \<and>
      (one_receipt (cw_players w q) \<longrightarrow> one_receipt (cw_players w' q))" for q
    using k by (cases "q = p") (auto simp: pays_def)
  then show ?thesis using k by (auto simp: grows_def)
qed

lemma put_claimed:
  assumes "st' = st\<lparr>ms_states := fmupd (stateKey (mt_player_id s) (mt_mail_id s)) (s, v) (ms_states st)\<rparr>" "mt_claimed s" "states_keyed st"
  shows "states_keyed st'" "is_claimed p m st \<Longrightarrow> is_claimed p m st'" "is_claimed (mt_player_id s) (mt_mail_id s) st'"
  using assms by (auto simp: states_keyed_def is_claimed_def GetMailState_def)

lemma mark_claimed_effect:
  assumes "mark_write mt_claimed (set_claimed now) (claimed_state p m now) seen f st = (res, st')" "states_keyed st"
    "\<And>s v. seen = Some (s, v) \<Longrightarrow> mt_player_id s = p \<and> mt_mail_id s = m \<and> (mt_claimed s \<longrightarrow> is_claimed p m st)"
  shows "states_keyed st' \<and> (\<forall>p m. is_claimed p m st \<longrightarrow> is_claimed p m st') \<and> (res = Marked \<longrightarrow> is_claimed p m st')"
proof (cases seen)
  case None
  let ?s = "claimed_state p m now"
  obtain x st1 where x: "with_fate f MailUnavailable (InsertMailState ?s) st = (x, st1)" by fastforce
  have r: "st' = st1" "res = Marked \<longrightarrow> \<not> isl x" using assms(1) None x by (auto simp: mark_write_def split: sum.splits if_splits)
  have "st1 = st \<and> isl x \<or> st1 = st\<lparr>ms_states := fmupd (stateKey (mt_player_id ?s) (mt_mail_id ?s)) (?s, 1) (ms_states st)\<rparr>"
    using x by (auto elim!: with_fate_cases simp: InsertMailState_def Let_def split: option.splits)
  moreover have "mt_claimed ?s" "mt_player_id ?s = p" "mt_mail_id ?s = m" by (simp_all add: claimed_state_def)
  ultimately show ?thesis using put_claimed [where st' = st1 and st = st and s = ?s and v = 1] r assms(2) by auto
next
  case (Some y)
  obtain s v where y: "y = (s, v)" by fastforce
  note s = assms(3) [of s v, unfolded Some y, simplified]
  let ?s = "set_claimed now s"
  obtain x st1 where x: "with_fate f MailUnavailable (UpdateMailState ?s v) st = (x, st1)" by fastforce
  have r: "mt_claimed s \<and> st' = st \<or> st' = st1 \<and> (res = Marked \<longrightarrow> \<not> isl x)"
    using assms(1) Some y x by (auto simp: mark_write_def split: sum.splits if_splits)
  have "st1 = st \<and> isl x \<or> st1 = st\<lparr>ms_states := fmupd (stateKey (mt_player_id ?s) (mt_mail_id ?s)) (?s, v + 1) (ms_states st)\<rparr>"
    using x by (auto elim!: with_fate_cases simp: UpdateMailState_def Let_def split: option.splits if_splits)
  moreover have "mt_claimed ?s" "mt_player_id ?s = p" "mt_mail_id ?s = m" using s by (simp_all add: set_claimed_def)
  ultimately show ?thesis using put_claimed [where st' = st1 and st = st and s = ?s and v = "v + 1"] r s assms(2) by auto
qed

text \<open>A write of a record keeps the invariant if the record keeps its promise.\<close>

lemma write_inv:
  assumes "claim_inv w K" "write_claim f r v written conflict k w = (k', w')" "record_promise r w"
    "pc_promise (wk_pc (written k)) w" "pc_promise (wk_pc (conflict k)) w"
  shows "claim_inv w' (K(n := k'))"
proof -
  let ?w = "w\<lparr>cw_store := (cw_store w)\<lparr>ms_claims := fmupd (cl_claim_id r) (r, v + 1) (ms_claims (cw_store w))\<rparr>\<rparr>"
  note k = claims_only [where w = w and w' = ?w, OF HOL.refl]
  have i: "states_keyed (cw_store w)" "\<And>p. one_receipt (cw_players w p)" using assms(1) by (simp_all add: claim_inv_def)
  have "claim_inv ?w (K(n := j))" if "pc_promise (wk_pc j) w" for j
  proof (rule claim_inv_step [OF assms(1) k(1)])
    show "states_keyed (cw_store ?w)" using k(2) i(1) by simp
    show "one_receipt (cw_players ?w p)" for p using k(3) i(2) by simp
    show "fmlookup (ms_claims (cw_store ?w)) a = Some (b, x) \<Longrightarrow> fmlookup (ms_claims (cw_store w)) a = Some (b, x) \<or> record_promise b ?w" for a b x
      using assms(3) k(4) by (auto split: if_splits)
    show "pc_promise (wk_pc j) ?w" using that k(5) by simp
  qed
  moreover have "claim_inv w (K(n := j))" if "pc_promise (wk_pc j) w" for j
    using that assms(1) by (simp add: claim_inv_def)
  moreover have "pc_promise (wk_pc (store_fails e k)) w" for e by simp
  ultimately show ?thesis using write_claim_effect [OF assms(2)] assms(4,5) by metis
qed

lemma work_inv:
  assumes "claim_inv w K" "advance_step c (K n) w = (k, w')"
  shows "claim_inv w' (K(n := k))"
proof -
  let ?k = "K n"
  have i: "states_keyed (cw_store w)" "\<And>p. one_receipt (cw_players w p)"
      "\<And>i r v. fmlookup (ms_claims (cw_store w)) i = Some (r, v) \<Longrightarrow> record_promise r w" "pc_promise (wk_pc ?k) w"
    using assms(1) unfolding claim_inv_def by blast+
  have stays: "claim_inv w (K(n := j))" if "pc_promise (wk_pc j) w" for j using that assms(1) by (simp add: claim_inv_def)
  show ?thesis
  proof (cases "wk_pc ?k")
    case AtRead
    have "pc_promise (wk_pc (claim_switch r v j)) w" if "GetClaimSaga (wk_claim_id ?k) (cw_store w) = Some (r, v)" for r v j
      using i(3) that by (cases "cl_state r") (auto simp: GetClaimSaga_def claim_switch_def record_promise_def succeeds_def)
    then show ?thesis
      using assms(2) AtRead stays by (auto simp: advance_step_def Let_def split: if_splits option.splits)
  next
    case (AtApply r v)
    obtain res w1 where z: "call_zone (ck_zone c) (cl_player_id r) (cl_claim_id r) (cl_mail_id r) (cl_attachments r) (cl_coin_amount r) w = (res, w1)"
      by fastforce
    note g = call_zone_grows [OF z]
    have w: "w' = w1" using assms(2) AtApply z by (auto simp: advance_step_def split: sum.splits option.splits)
    have "paid r w1" if "res = Inr x" "rx_error x = None" for x
      using call_zone_pays [OF z] that by (auto simp: pays_def paid_def receipt_for_def)
    then have "pc_promise (wk_pc k) w1"
      using assms(2) AtApply z by (auto simp: advance_step_def split: sum.splits option.splits if_splits)
    then show ?thesis unfolding w using g i by (intro claim_inv_step [OF assms(1)]) auto
  next
    case (AtApplied r v)
    show ?thesis using assms(2) AtApplied i(4)
      by (intro write_inv [OF assms(1)]) (auto simp: advance_step_def record_promise_def paid_def receipt_for_def)
  next
    case (AtCancel r v)
    show ?thesis using assms(2) AtCancel by (intro write_inv [OF assms(1)]) (auto simp: advance_step_def record_promise_def)
  next
    case (AtMarkRead r v m)
    have "pc_promise (AtMark r v j (GetMailState (cl_player_id r) (cl_mail_id r) (cw_store w))) w" for j
      using i(1,4) AtMarkRead by (auto simp: states_keyed_def marked_claim_def is_claimed_def split: option.splits)
    then show ?thesis using assms(2) AtMarkRead stays by (cases m) (auto simp: advance_step_def simp del: pc_promise.simps(3))
  next
    case (AtMark r v m seen)
    obtain res st where e: "mark_write mt_claimed (set_claimed (ck_now c)) (claimed_state (cl_player_id r) (cl_mail_id r) (ck_now c)) seen (ck_store c)
      (cw_store w) = (res, st)" by fastforce
    have seen: "mt_player_id s = cl_player_id r \<and> mt_mail_id s = cl_mail_id r \<and>
        (mt_claimed s \<longrightarrow> is_claimed (cl_player_id r) (cl_mail_id r) (cw_store w))" if "seen = Some (s, x)" for s x
      using i(4) AtMark that by (simp add: marked_claim_def)
    note m = mark_claimed_effect [OF e i(1) seen]
    let ?w = "w\<lparr>cw_store := st\<rparr>"
    have w: "w' = ?w" using assms(2) AtMark e by (cases res) (auto simp: advance_step_def)
    have g: "grows w ?w" using m by (simp add: grows_def)
    have p: "paid r ?w" using i(4) AtMark by (simp add: paid_def)
    have "pc_promise (wk_pc k) ?w" using assms(2) AtMark e m p by (cases res) (auto simp: advance_step_def marked_claim_def)
    then show ?thesis unfolding w using m i mark_write_frame [OF e] by (intro claim_inv_step [OF assms(1) g]) auto
  next
    case (AtComplete r v)
    show ?thesis using assms(2) AtComplete i(4)
      by (intro write_inv [OF assms(1)]) (auto simp: advance_step_def record_promise_def paid_def receipt_for_def marked_claim_def succeeds_def)
  next
    case (AtFinish r v)
    show ?thesis using assms(2) AtFinish by (intro write_inv [OF assms(1)]) (auto simp: advance_step_def record_promise_def)
  next
    case (Returned x)
    then show ?thesis using assms stays by (simp add: advance_step_def)
  qed
qed

lemma claims_upd_inv:
  assumes "claim_inv w K" "st = cw_store w \<or> (\<exists>i r v. st = (cw_store w)\<lparr>ms_claims := fmupd i (r, v) (ms_claims (cw_store w))\<rparr> \<and> record_promise r w)"
  shows "claim_inv (w\<lparr>cw_store := st\<rparr>) K"
  using assms(2)
proof (elim disjE exE conjE)
  fix i r v
  assume st: "st = (cw_store w)\<lparr>ms_claims := fmupd i (r, v) (ms_claims (cw_store w))\<rparr>" and r: "record_promise r w"
  let ?w = "w\<lparr>cw_store := st\<rparr>"
  note k = claims_only [where w = w and w' = ?w, OF st [THEN arg_cong]]
  have "states_keyed (cw_store w)" "\<And>p. one_receipt (cw_players w p)" using assms(1) by (simp_all add: claim_inv_def)
  then show ?thesis using k r by (intro claim_inv_same [OF assms(1)]) (auto simp: st split: if_splits)
qed (use assms(1) in simp)

lemma history_inv:
  assumes "claim_history w0 w K" "ms_claims (cw_store w0) = fmempty" "states_keyed (cw_store w0)" "\<And>p. one_receipt (cw_players w0 p)"
  shows "claim_inv w K"
  using assms(1)
proof (induction rule: claim_history.induct)
  case start
  then show ?case using assms(2-4) by (simp add: claim_inv_def idle_worker_def)
next
  case (spawn w K n i)
  then show ?case by (simp add: claim_inv_def new_worker_def)
next
  case (work w K c n k w')
  show ?case by (rule work_inv [OF work.IH work.hyps(2)])
next
  case (begins w K f q atts coins now res st)
  have "record_promise (claim_record q atts coins now) w" by (simp add: record_promise_def claim_record_def)
  moreover have "st = cw_store w \<or> st = (cw_store w)\<lparr>ms_claims := fmupd (cl_claim_id (claim_record q atts coins now))
      (claim_record q atts coins now, 1) (ms_claims (cw_store w))\<rparr>"
    using begins.hyps(2) by (auto elim!: with_fate_cases simp: InsertClaimSaga_def split: option.splits)
  ultimately show ?case by (intro claims_upd_inv [OF begins.IH]) blast
next
  case (direct w K z q res' w')
  have "w' = w \<or> (\<exists>p i m a n x. call_zone z p i m a n w = (x, w'))"
    using direct.hyps(2) by (auto simp: ClaimMailDirect_def Let_def split: if_splits sum.splits prod.splits option.splits)
  then show ?case
  proof (elim disjE exE)
    fix p i m a n x
    assume z: "call_zone z p i m a n w = (x, w')"
    have "states_keyed (cw_store w)" "\<And>p. one_receipt (cw_players w p)" using direct.IH by (simp_all add: claim_inv_def)
    then show ?thesis using call_zone_grows [OF z] by (intro claim_inv_same [OF direct.IH]) auto
  qed (use direct.IH in simp)
next
  case (deferred w K f i cause now)
  show ?case
  proof (cases "GetClaimSaga i (cw_store w)")
    case (Some x)
    obtain r v where x: "x = (r, v)" by fastforce
    let ?r = "r\<lparr>cl_retry_at_ms := now + 2000, cl_last_error := cause, cl_updated_at_ms := now\<rparr>"
    have "record_promise r w" using deferred.IH Some x unfolding claim_inv_def GetClaimSaga_def by blast
    then have "record_promise ?r w" by (simp add: record_promise_def paid_def receipt_for_def marked_claim_def)
    moreover obtain y st where e: "with_fate f MailUnavailable (UpdateClaimSaga ?r v) (cw_store w) = (y, st)" by fastforce
    ultimately show ?thesis using UpdateClaimSaga_effect [OF e] Some x
      by (intro claims_upd_inv [OF deferred.IH]) (auto simp: deferClaim_def)
  qed (use deferred.IH in \<open>simp add: deferClaim_def\<close>)
next
  case (other w K w')
  have "\<And>p. one_receipt (cw_players w p)" using other.IH by (simp add: claim_inv_def)
  then have "one_receipt (cw_players w' p)" for p using other.hyps(5) by (simp add: one_receipt_def)
  then show ?case using other.hyps by (intro claim_inv_same [OF other.IH]) (auto simp: grows_def)
qed

text \<open>
  C32: In every history of claims, with any number of workers on one record in any order of their steps, any calls
  lost, direct claims and other jobs in between, a record that is applied or completed has a receipt of its
  player for exactly its attachments and coins, a completed one has its mail marked as claimed, no player
  has two receipts of one mail, and two records of one mail that are applied or completed are one claim.
\<close>

theorem claim_agreement:
  assumes "claim_history w0 w K" "ms_claims (cw_store w0) = fmempty" "states_keyed (cw_store w0)" "\<And>p. one_receipt (cw_players w0 p)"
    "fmlookup (ms_claims (cw_store w)) i = Some (r, v)" "cl_state r \<in> {PLAYER_APPLIED, CLAIM_COMPLETED}"
  shows "(\<exists>x \<in> set (st_mail_claim_receipts (cw_players w (cl_player_id r))). receipt_for r x) \<and>
    (cl_state r = CLAIM_COMPLETED \<longrightarrow> is_claimed (cl_player_id r) (cl_mail_id r) (cw_store w)) \<and>
    length (filter (\<lambda>x. mcr_mail_id x = cl_mail_id r) (st_mail_claim_receipts (cw_players w (cl_player_id r)))) = 1 \<and>
    (\<forall>j r' v'. fmlookup (ms_claims (cw_store w)) j = Some (r', v') \<and> cl_state r' \<in> {PLAYER_APPLIED, CLAIM_COMPLETED} \<and>
       cl_player_id r' = cl_player_id r \<and> cl_mail_id r' = cl_mail_id r \<longrightarrow> cl_claim_id r' = cl_claim_id r)"
proof -
  have inv: "claim_inv w K" by (rule history_inv [OF assms(1-4)])
  then have pr: "record_promise x w" if "fmlookup (ms_claims (cw_store w)) j = Some (x, y)" for j x y using that unfolding claim_inv_def by blast
  have one: "one_receipt (cw_players w (cl_player_id r))" using inv by (simp add: claim_inv_def)
  let ?R = "st_mail_claim_receipts (cw_players w (cl_player_id r))"
  let ?F = "filter (\<lambda>x. mcr_mail_id x = cl_mail_id r) ?R"
  have p: "paid r w" using pr [OF assms(5)] assms(6) by (auto simp: record_promise_def)
  then obtain x where x: "x \<in> set ?R" "receipt_for r x" by (auto simp: paid_def)
  then have mem: "x \<in> set ?F" by (simp add: receipt_for_def)
  have "length ?F \<le> 1" using one by (simp add: one_receipt_def)
  then have F: "?F = [x]" using mem by (cases ?F) auto
  have "cl_claim_id r' = cl_claim_id r" if t: "fmlookup (ms_claims (cw_store w)) j = Some (r', v')" "cl_state r' \<in> {PLAYER_APPLIED, CLAIM_COMPLETED}"
    "cl_player_id r' = cl_player_id r" "cl_mail_id r' = cl_mail_id r" for j r' v'
  proof -
    have "paid r' w" using pr [OF t(1)] t(2) by (auto simp: record_promise_def)
    then obtain y where y: "y \<in> set ?R" "receipt_for r' y" using t(3) by (auto simp: paid_def)
    then have "y \<in> set ?F" using t(4) by (simp add: receipt_for_def)
    then have "y = x" unfolding F by simp
    then show ?thesis using x(2) y(2) by (simp add: receipt_for_def)
  qed
  then show ?thesis using x F pr [OF assms(5)] by (auto simp: record_promise_def marked_claim_def)
qed

text \<open>A claim of ten crops by a player who has 296 of them, while the limit is 300.\<close>

definition harvest_mail :: private_mail where
  "harvest_mail = \<lparr>ml_mail_id = ''m'', ml_mail_type = MAIL_TYPE_PRIVATE, ml_created_at_ms = 500, ml_published_at_ms = 500,
     ml_sender_type = MAIL_SENDER_TYPE_SYSTEM, ml_sender_player_id = 0, ml_sender_display_name = ''s'', ml_title = ''t'', ml_content = ''c'',
     ml_attachments = [(2001, 10)], ml_source_event_id = [], ml_coin_amount = 0, pm_recipient_player_id = 7\<rparr>"

definition claim_start :: claim_world where
  "claim_start = \<lparr>cw_store = NewMemoryStore\<lparr>ms_private := fmupd (privateKey 7 ''m'') harvest_mail fmempty\<rparr>, cw_players = (\<lambda>_. hoarder)\<rparr>"

definition sample_claim :: claim_request where
  "sample_claim = \<lparr>cq_player_id = 7, cq_mail_id = ''m'', cq_claim_id = replicate 16 1, cq_registered_at_ms = 1\<rparr>"

definition zone_at :: "int \<Rightarrow> zone_call" where
  "zone_at now = \<lparr>zn_now = now, zn_auth = theft_auth, zn_route = Some theft_route, zn_second_route = None, zn_fate = Delivered\<rparr>"

definition smooth :: "int \<Rightarrow> claim_conditions" where
  "smooth now = \<lparr>ck_zone = zone_at now, ck_store = Delivered, ck_now = now\<rparr>"

definition sold_out :: state where
  "sold_out = hoarder\<lparr>st_inventory := fmempty\<rparr>"

definition begun :: claim_saga where
  "begun = claim_record sample_claim [(2001, 10)] 0 1000"

lemma begun_fields [simp]:
  "cl_claim_id begun = replicate 16 1" "cl_mail_id begun = ''m''" "cl_player_id begun = 7" "cl_attachments begun = [(2001, 10)]"
  "cl_coin_amount begun = 0" "cl_state begun = CLAIMING"
proof -
  have "TrimSpace ''m'' = ''m''" by code_simp
  then show "cl_claim_id begun = replicate 16 1" "cl_mail_id begun = ''m''" "cl_player_id begun = 7" "cl_attachments begun = [(2001, 10)]"
    "cl_coin_amount begun = 0" "cl_state begun = CLAIMING" by (simp_all add: begun_def claim_record_def sample_claim_def)
qed

definition begun_world :: claim_world where
  "begun_world = claim_start\<lparr>cw_store := (cw_store claim_start)\<lparr>ms_claims := fmupd (replicate 16 1) (begun, 1) fmempty\<rparr>\<rparr>"

lemma sample_begins: "BeginClaim Delivered sample_claim 1000 (cw_store claim_start) = (Inr (begun, 1), cw_store begun_world)"
proof -
  have "TrimSpace ''m'' = ''m''" by code_simp
  moreover have "ListClaimSagas (cw_store claim_start) = []" by (simp add: ListClaimSagas_def map_values_def map_keys_def claim_start_def NewMemoryStore_def sorted_list_of_fset.rep_eq)
  ultimately show ?thesis
    by (simp add: BeginClaim_def resolveRegistered_def resolveRegisteredAt_def sample_claim_def loadClaimableAttachments_def mailVisibleToPlayer_def
        GetPublicMail_def GetPrivateMail_def claimable_def toClaimAttachments_def GetClaimSaga_def ensureNoActiveClaim_def is_claimed_def GetMailState_def
        with_fate_def InsertClaimSaga_def claim_start_def begun_world_def begun_def claim_record_def NewMemoryStore_def harvest_mail_def Let_def)
qed

lemma normalize_ten: "normalizeMailAttachments [(2001, 10)] 0 = Inr ([(2001, 10)], sha256 (be32 2001 @ be32 10))"
  by (simp add: normalizeMailAttachments_def exchange_sort_eq map_simps inventoryStackLimit_def Let_def)

lemma hoarder_unclaimed [simp]: "st_mail_claim_receipts hoarder = []"
  by (simp add: hoarder_def garden_def NewDevelopmentState_def)

lemma zone_full:
  assumes "now < 100000"
  shows "zone_ApplyMailReward (zone_at now) 7 (replicate 16 1) ''m'' [(2001, 10)] 0 hoarder = (Inr (reward_refused INVENTORY_CAPACITY_EXCEEDED), hoarder)"
proof -
  have "cr_owner_epoch theft_route = 1" by (simp add: theft_route_def)
  then have "ApplyMailReward_rpc now theft_auth (Some theft_route) 7 (replicate 16 1) ''m'' [(2001, 10)] 0 hoarder =
      (Inr (reward_refused INVENTORY_CAPACITY_EXCEEDED), hoarder)"
    using theft_route_valid [OF assms]
    by (simp add: ApplyMailReward_rpc_def ApplyMailReward_def applyMailReward_def normalize_ten epoch_error_def map_simps inventoryStackLimit_def
        inventoryTypeLimit_def Let_def)
  then show ?thesis by (simp add: zone_ApplyMailReward_def zone_at_def Let_def)
qed

lemma zone_pays_sold:
  assumes "now < 100000"
  obtains x s where "zone_ApplyMailReward (zone_at now) 7 (replicate 16 1) ''m'' [(2001, 10)] 0 sold_out = (Inr x, s)" "rx_error x = None"
    "rx_newly_applied x" "st_mail_claim_receipts s \<noteq> []"
proof -
  have "cr_owner_epoch theft_route = 1" by (simp add: theft_route_def)
  then show ?thesis
    using that theft_route_valid [OF assms]
    by (simp add: zone_ApplyMailReward_def zone_at_def ApplyMailReward_rpc_def ApplyMailReward_def applyMailReward_def normalize_ten epoch_error_def
        sold_out_def map_simps inventoryStackLimit_def inventoryTypeLimit_def credit_mail_def Let_def)
qed

definition two :: "claim_worker \<Rightarrow> claim_worker \<Rightarrow> nat \<Rightarrow> claim_worker" where
  "two a b = (\<lambda>_. idle_worker)(0 := a, 1 := b)"

lemma two_work:
  assumes "claim_history w0 w (two a b)"
  shows "advance_step c a w = (a', w') \<Longrightarrow> claim_history w0 w' (two a' b)" "advance_step c b w = (b', w') \<Longrightarrow> claim_history w0 w' (two a b')"
  using claim_history.work [OF assms, of c 0 a' w'] claim_history.work [OF assms, of c 1 b' w'] by (simp_all add: two_def fun_upd_twist)

lemma sample_history: "claim_history claim_start begun_world (two (new_worker (replicate 16 1)) (new_worker (replicate 16 1)))"
proof -
  have i: "InsertClaimSaga begun (cw_store claim_start) = (Inr 1, cw_store begun_world)"
    by (simp add: InsertClaimSaga_def claim_start_def begun_world_def NewMemoryStore_def)
  have "begun_world = claim_start\<lparr>cw_store := cw_store begun_world\<rparr>" by (simp add: begun_world_def)
  then have "claim_history claim_start begun_world (\<lambda>_. idle_worker)"
    using claim_history.begins [OF claim_history.start [of claim_start], where f = Delivered and q = sample_claim and atts = "[(2001, 10)]"
        and coins = 0 and now = 1000 and res = "Inr 1" and st = "cw_store begun_world"] i
    by (simp add: with_fate_def begun_def [symmetric])
  then show ?thesis unfolding two_def by (intro claim_history.spawn)
qed

definition reading :: claim_worker where
  "reading = (new_worker (replicate 16 1))\<lparr>wk_left := 7\<rparr>"

lemma sample_read: "ms_claims (cw_store w) = fmupd (replicate 16 1) (begun, 1) fmempty \<Longrightarrow>
  advance_step (smooth now) (new_worker (replicate 16 1)) w = (goes (AtApply begun 1) reading, w)"
  by (simp add: advance_step_def new_worker_def smooth_def GetClaimSaga_def claim_switch_def reading_def Let_def)

definition cancelling :: claim_worker where
  "cancelling = goes (AtCancel begun 1) reading"

definition paying :: "reward_response \<Rightarrow> claim_worker" where
  "paying x = goes (AtApplied begun 1) (reading\<lparr>wk_applied := Some x\<rparr>)"

definition paid_world :: "state \<Rightarrow> claim_world" where
  "paid_world s = begun_world\<lparr>cw_players := (\<lambda>_. hoarder)(7 := s)\<rparr>"

lemma begun_world_fields [simp]:
  "ms_claims (cw_store begun_world) = fmupd (replicate 16 1) (begun, 1) fmempty" "cw_players begun_world = (\<lambda>_. hoarder)"
  "ms_states (cw_store begun_world) = fmempty" "cw_store (paid_world s) = cw_store begun_world" "cw_players (paid_world s) 7 = s"
  by (simp_all add: begun_world_def claim_start_def NewMemoryStore_def paid_world_def)

text \<open>One worker has found the inventory full, the other has then paid.\<close>

lemma race_history:
  obtains x s where "claim_history claim_start (paid_world s) (two cancelling (paying x))" "st_mail_claim_receipts s \<noteq> []"
proof -
  let ?apply = "goes (AtApply begun 1) reading"
  note read = sample_read [OF begun_world_fields(1), of 1000]
  have "claim_history claim_start begun_world (two ?apply ?apply)"
    using two_work(2) [OF two_work(1) [OF sample_history read] read] .
  moreover have "advance_step (smooth 1000) ?apply begun_world = (cancelling, begun_world)"
    using zone_full [of 1000]
    by (simp add: advance_step_def call_zone_def smooth_def with_fate_def zone_at_def reward_refused_def full_inventory_def fun_upd_idem goes_def
        cancelling_def)
  ultimately have h1: "claim_history claim_start begun_world (two cancelling ?apply)" by (rule two_work(1))
  have "states_keyed (cw_store begun_world)" by (simp add: states_keyed_def GetMailState_def)
  then have h2: "claim_history claim_start (paid_world sold_out) (two cancelling ?apply)"
    by (intro claim_history.other [OF h1]) (simp_all add: sold_out_def paid_world_def)
  obtain x s where x: "zone_ApplyMailReward (zone_at 1000) 7 (replicate 16 1) ''m'' [(2001, 10)] 0 sold_out = (Inr x, s)" "rx_error x = None"
    "rx_newly_applied x" "st_mail_claim_receipts s \<noteq> []" by (rule zone_pays_sold [of 1000]) simp
  have "advance_step (smooth 1000) ?apply (paid_world sold_out) = (paying x, paid_world s)"
    using x by (simp add: advance_step_def call_zone_def smooth_def with_fate_def zone_at_def paid_world_def paying_def goes_def)
  then have "claim_history claim_start (paid_world s) (two cancelling (paying x))" by (rule two_work(2) [OF h2])
  then show ?thesis using x(4) that by blast
qed

theorem claim_agreement_witness:
  "\<exists>w K r x. claim_history claim_start w K \<and> GetClaimSaga (replicate 16 1) (cw_store w) = Some (r, 2) \<and> cl_state r = PLAYER_APPLIED \<and>
     x \<in> set (st_mail_claim_receipts (cw_players w 7)) \<and> mcr_claim_id x = replicate 16 1 \<and> mcr_attachments x = [(2001, 10)] \<and>
     length (filter (\<lambda>x. mcr_mail_id x = ''m'') (st_mail_claim_receipts (cw_players w 7))) = 1"
proof -
  obtain x s where h: "claim_history claim_start (paid_world s) (two cancelling (paying x))" by (rule race_history)
  let ?r = "begun\<lparr>cl_state := PLAYER_APPLIED, cl_updated_at_ms := 1000, cl_last_error := []\<rparr>"
  let ?w = "(paid_world s)\<lparr>cw_store := (cw_store begun_world)\<lparr>ms_claims := fmupd (replicate 16 1) (?r, 2) fmempty\<rparr>\<rparr>"
  have "advance_step (smooth 1000) (paying x) (paid_world s) = (goes AtRead (paying x), ?w)"
    by (simp add: advance_step_def write_claim_def smooth_def with_fate_def UpdateClaimSaga_def paying_def)
  then have run: "claim_history claim_start ?w (two cancelling (goes AtRead (paying x)))" by (rule two_work(2) [OF h])
  have pre: "ms_claims (cw_store claim_start) = fmempty" "states_keyed (cw_store claim_start)" "\<And>p. one_receipt (cw_players claim_start p)"
    by (simp_all add: claim_start_def NewMemoryStore_def states_keyed_def GetMailState_def one_receipt_def)
  have r: "fmlookup (ms_claims (cw_store ?w)) (replicate 16 1) = Some (?r, 2)" "cl_state ?r \<in> {PLAYER_APPLIED, CLAIM_COMPLETED}" by simp_all
  note k = claim_agreement [OF run pre r]
  have p: "cl_player_id ?r = 7" "cl_mail_id ?r = ''m''" by simp_all
  obtain y where y: "y \<in> set (st_mail_claim_receipts (cw_players ?w 7))" "receipt_for ?r y" using k unfolding p by blast
  have "mcr_claim_id y = replicate 16 1" "mcr_attachments y = [(2001, 10)]" using y(2) by (simp_all add: receipt_for_def normalize_ten)
  moreover have "length (filter (\<lambda>x. mcr_mail_id x = ''m'') (st_mail_claim_receipts (cw_players ?w 7))) = 1" using k unfolding p by blast
  moreover have "GetClaimSaga (replicate 16 1) (cw_store ?w) = Some (?r, 2)" "cl_state ?r = PLAYER_APPLIED" by (simp_all add: GetClaimSaga_def)
  ultimately show ?thesis using run y(1) by blast
qed

text \<open>
  C35: A cancelled claim may have been paid. While one worker finds the inventory full and cancels, another that read
  the record before pays the player from room made meanwhile; its write conflicts, it finishes the cancellation,
  both answer that the inventory is full, and the mail stays unclaimed.
\<close>

theorem cancelled_claim_paid:
  "\<exists>w K. claim_history claim_start w K \<and>
     wk_pc (K 0) = Returned (Inl ErrClaimInventoryFull) \<and> wk_pc (K 1) = Returned (Inl ErrClaimInventoryFull) \<and>
     (\<exists>r v. GetClaimSaga (replicate 16 1) (cw_store w) = Some (r, v) \<and> cl_state r = AVAILABLE) \<and>
     st_mail_claim_receipts (cw_players w 7) \<noteq> [] \<and> \<not> is_claimed 7 ''m'' (cw_store w)"
proof -
  let ?c = "replicate 16 1 :: bytes"
  obtain x s where h3: "claim_history claim_start (paid_world s) (two cancelling (paying x))" and x: "st_mail_claim_receipts s \<noteq> []"
    by (rule race_history)
  let ?r = "begun\<lparr>cl_state := CANCELLING, cl_updated_at_ms := 1000, cl_last_error := full_message\<rparr>"
  let ?w3 = "(paid_world s)\<lparr>cw_store := (cw_store begun_world)\<lparr>ms_claims := fmupd ?c (?r, 2) fmempty\<rparr>\<rparr>"
  have "advance_step (smooth 1000) cancelling (paid_world s) = (reenter cancelling, ?w3)"
    by (simp add: advance_step_def write_claim_def smooth_def with_fate_def UpdateClaimSaga_def cancelling_def)
  then have h4: "claim_history claim_start ?w3 (two (reenter cancelling) (paying x))" by (rule two_work(1) [OF h3])
  have "advance_step (smooth 1000) (paying x) ?w3 = (goes AtRead (paying x), ?w3)"
    by (simp add: advance_step_def write_claim_def smooth_def with_fate_def UpdateClaimSaga_def paying_def)
  then have h5: "claim_history claim_start ?w3 (two (reenter cancelling) (goes AtRead (paying x)))" by (rule two_work(2) [OF h4])
  let ?b1 = "goes (AtFinish ?r 2) ((goes AtRead (paying x))\<lparr>wk_left := 6\<rparr>)"
  have "advance_step (smooth 1000) (goes AtRead (paying x)) ?w3 = (?b1, ?w3)"
    by (simp add: advance_step_def smooth_def GetClaimSaga_def claim_switch_def paying_def reading_def new_worker_def goes_def Let_def)
  then have h6: "claim_history claim_start ?w3 (two (reenter cancelling) ?b1)" by (rule two_work(2) [OF h5])
  let ?r2 = "?r\<lparr>cl_state := AVAILABLE, cl_updated_at_ms := 1000\<rparr>"
  let ?w4 = "?w3\<lparr>cw_store := (cw_store begun_world)\<lparr>ms_claims := fmupd ?c (?r2, 3) fmempty\<rparr>\<rparr>"
  have "advance_step (smooth 1000) ?b1 ?w3 = (fails ErrClaimInventoryFull ?b1, ?w4)"
    by (simp add: advance_step_def write_claim_def smooth_def with_fate_def UpdateClaimSaga_def)
  then have h7: "claim_history claim_start ?w4 (two (reenter cancelling) (fails ErrClaimInventoryFull ?b1))"
    by (rule two_work(2) [OF h6])
  let ?a = "(reenter cancelling)"
  have "advance_step (smooth 1000) ?a ?w4 = (fails ErrClaimInventoryFull (?a\<lparr>wk_left := 7\<rparr>), ?w4)"
    by (simp add: advance_step_def smooth_def GetClaimSaga_def claim_switch_def succeeds_def reenter_def cancelling_def reading_def new_worker_def goes_def Let_def)
  then have h8: "claim_history claim_start ?w4 (two (fails ErrClaimInventoryFull (?a\<lparr>wk_left := 7\<rparr>)) (fails ErrClaimInventoryFull ?b1))"
    by (rule two_work(1) [OF h7])
  have "GetClaimSaga ?c (cw_store ?w4) = Some (?r2, 3)" "cl_state ?r2 = AVAILABLE" by (simp_all add: GetClaimSaga_def)
  moreover have "st_mail_claim_receipts (cw_players ?w4 7) \<noteq> []" using x by simp
  moreover have "\<not> is_claimed 7 ''m'' (cw_store ?w4)" by (simp add: is_claimed_def GetMailState_def)
  moreover have "wk_pc (two (fails ErrClaimInventoryFull a) (fails ErrClaimInventoryFull b) 0) = Returned (Inl ErrClaimInventoryFull)"
    "wk_pc (two (fails ErrClaimInventoryFull a) (fails ErrClaimInventoryFull b) 1) = Returned (Inl ErrClaimInventoryFull)" for a b
    by (simp_all add: two_def)
  ultimately show ?thesis using h8 by blast
qed

section \<open>Marking a direct claim\<close>

lemma mark_undisturbed:
  assumes "states_keyed st" "mark_loop mt_claimed (set_claimed now) (claimed_state p m now) (\<lambda>_. (id, Delivered)) (Suc n) st = (res, st')"
  shows "res = Inr () \<and> is_claimed p m st' \<and> (\<forall>q k. (q, k) \<noteq> (p, m) \<longrightarrow> is_claimed q k st' = is_claimed q k st)"
proof (cases "GetMailState p m st")
  case None
  then show ?thesis using assms(2)
    by (auto simp: claimed_state_def mark_write_def with_fate_def InsertMailState_def GetMailState_def is_claimed_def Let_def)
next
  case (Some y)
  obtain s v where y: "y = (s, v)" by fastforce
  have s: "mt_player_id s = p" "mt_mail_id s = m" using assms(1) Some y by (auto simp: states_keyed_def)
  show ?thesis using assms(2) Some y s
    by (cases "mt_claimed s") (auto simp: claimed_state_def mark_write_def with_fate_def UpdateMailState_def GetMailState_def is_claimed_def set_claimed_def Let_def)
qed

lemma direct_success:
  assumes "Service_ClaimMail z q w = (Inr resp, True, w')"
  shows "cw_store w' = cw_store w" "\<not> is_claimed (cq_player_id q) (TrimSpace (cq_mail_id q)) (cw_store w)"
    "\<exists>x \<in> set (st_mail_claim_receipts (cw_players w' (cq_player_id q))). mcr_mail_id x = TrimSpace (cq_mail_id q) \<and> mcr_claim_id x = cq_claim_id q"
proof -
  have d: "ClaimMailDirect z q w = (Inr resp, w')" "cp_error resp = None" using assms by (auto simp: Service_ClaimMail_def Let_def split: prod.splits sum.splits)
  have bad: "(cp_error (mapClaimError e) = None) = False" "cp_error (claim_failed x) = Some x" for e x
    by (simp_all add: mapClaimError_def claim_failed_def)
  obtain atts coins applied where c: "\<not> is_claimed (cq_player_id q) (TrimSpace (cq_mail_id q)) (cw_store w)"
    "call_zone z (cq_player_id q) (cq_claim_id q) (TrimSpace (cq_mail_id q)) atts coins w = (Inr applied, w')" "rx_error applied = None"
    using d by (auto simp: ClaimMailDirect_def Let_def bad split: if_splits sum.splits prod.splits option.splits)
  note k = call_zone_pays [OF c(2)]
  show "cw_store w' = cw_store w" using k by simp
  show "\<not> is_claimed (cq_player_id q) (TrimSpace (cq_mail_id q)) (cw_store w)" by (rule c(1))
  show "\<exists>x \<in> set (st_mail_claim_receipts (cw_players w' (cq_player_id q))). mcr_mail_id x = TrimSpace (cq_mail_id q) \<and> mcr_claim_id x = cq_claim_id q"
    using k c(3) by (auto simp: pays_def)
qed

text \<open>
  C34: A direct claim answered without error has been paid to the player under the trimmed identifier of the mail, but
  the goroutine that follows marks the identifier as requested: undisturbed it leaves the mail claimed exactly
  when the request had no surrounding blanks.
\<close>

theorem direct_claim_marks:
  assumes "Service_ClaimMail z q w = (Inr resp, True, w')" "states_keyed (cw_store w)"
    "finishDirectClaim (\<lambda>_. (id, Delivered)) q now (cw_store w') = (effects, st)"
  shows "(\<exists>x \<in> set (st_mail_claim_receipts (cw_players w' (cq_player_id q))). mcr_mail_id x = TrimSpace (cq_mail_id q) \<and> mcr_claim_id x = cq_claim_id q) \<and>
    (is_claimed (cq_player_id q) (TrimSpace (cq_mail_id q)) st \<longleftrightarrow> TrimSpace (cq_mail_id q) = cq_mail_id q)"
proof -
  note d = direct_success [OF assms(1)]
  obtain res where m: "mark_loop mt_claimed (set_claimed now) (claimed_state (cq_player_id q) (cq_mail_id q) now) (\<lambda>_. (id, Delivered)) (Suc 7) (cw_store w) = (res, st)"
    using assms(3) d(1) by (auto simp: finishDirectClaim_def markMailClaimed_def eval_nat_numeral split: prod.splits sum.splits)
  note k = mark_undisturbed [OF assms(2) m]
  show ?thesis using k d by (cases "TrimSpace (cq_mail_id q) = cq_mail_id q") auto
qed

definition blank_claim :: claim_request where
  "blank_claim = sample_claim\<lparr>cq_mail_id := '' m''\<rparr>"

lemma blank_trims: "TrimSpace '' m'' = ''m''"
  by code_simp

lemma blank_claim_paid:
  obtains resp w' where "Service_ClaimMail (zone_at 1000) blank_claim (claim_start\<lparr>cw_players := (\<lambda>_. sold_out)\<rparr>) = (Inr resp, True, w')"
proof -
  let ?w = "claim_start\<lparr>cw_players := (\<lambda>_. sold_out)\<rparr>"
  obtain x s where x: "zone_ApplyMailReward (zone_at 1000) 7 (replicate 16 1) ''m'' [(2001, 10)] 0 sold_out = (Inr x, s)" "rx_error x = None"
    "rx_newly_applied x" "st_mail_claim_receipts s \<noteq> []" by (rule zone_pays_sold [of 1000]) simp
  have "zn_fate (zone_at 1000) = Delivered" by (simp add: zone_at_def)
  then have z: "call_zone (zone_at 1000) 7 (replicate 16 1) ''m'' [(2001, 10)] 0 ?w = (Inr x, ?w\<lparr>cw_players := (\<lambda>_. sold_out)(7 := s)\<rparr>)"
    using x by (simp add: call_zone_def with_fate_def)
  have l: "loadDirectClaimableAttachments 7 1 ''m'' (cw_store ?w) = Inr ([(2001, 10)], 0)"
    by (simp add: loadDirectClaimableAttachments_def GetPrivateMail_def claim_start_def harvest_mail_def claimable_def toClaimAttachments_def)
  have u: "\<not> is_claimed 7 ''m'' (cw_store ?w)" by (simp add: is_claimed_def GetMailState_def claim_start_def NewMemoryStore_def)
  have q: "cq_player_id blank_claim = 7" "TrimSpace (cq_mail_id blank_claim) = ''m''" "cq_claim_id blank_claim = replicate 16 1"
    "cq_registered_at_ms blank_claim = 1" by (simp_all add: blank_claim_def sample_claim_def blank_trims)
  have "\<not> invalid_claim blank_claim" by (simp add: invalid_claim_def q)
  then show ?thesis using that z l u x(2) by (simp add: Service_ClaimMail_def ClaimMailDirect_def q Let_def)
qed

theorem direct_claim_marks_witness:
  "\<exists>resp w' effects st. Service_ClaimMail (zone_at 1000) blank_claim (claim_start\<lparr>cw_players := (\<lambda>_. sold_out)\<rparr>) = (Inr resp, True, w') \<and>
     finishDirectClaim (\<lambda>_. (id, Delivered)) blank_claim 1000 (cw_store w') = (effects, st) \<and>
     st_mail_claim_receipts (cw_players w' 7) \<noteq> [] \<and> \<not> is_claimed 7 ''m'' st"
proof -
  obtain resp w' where s: "Service_ClaimMail (zone_at 1000) blank_claim (claim_start\<lparr>cw_players := (\<lambda>_. sold_out)\<rparr>) = (Inr resp, True, w')"
    by (rule blank_claim_paid)
  obtain effects st where f: "finishDirectClaim (\<lambda>_. (id, Delivered)) blank_claim 1000 (cw_store w') = (effects, st)" by fastforce
  have "states_keyed (cw_store (claim_start\<lparr>cw_players := (\<lambda>_. sold_out)\<rparr>))"
    by (simp add: states_keyed_def GetMailState_def claim_start_def NewMemoryStore_def)
  note k = direct_claim_marks [OF s this f]
  have q: "cq_player_id blank_claim = 7" "cq_mail_id blank_claim = '' m''" by (simp_all add: blank_claim_def sample_claim_def)
  show ?thesis using s f k unfolding q blank_trims by fastforce
qed

end
