(* ===== verification/Spec2Isabelle.thy ===== *)
theory Spec2Isabelle
  imports Durability Placement Friend_Visits Mail_Claim
begin

text \<open>
  The farm game server: a verification library for the Go code under \<open>src/server\<close>.

  \<^bold>\<open>The program.\<close> A player owns a farm of plots, an inventory and coins. Players are spread over logical
  shards; a coordinator decides which Zone process owns which shard, and the owning Zone keeps each of its
  players as an actor: one state, one mailbox, one job at a time. A client's command travels through a
  gateway to the Zone, where \<open>Runtime.Handle\<close> (\<open>internal/player/runtime.go\<close>) checks it and runs the handler in
  a mailbox job. The job first matures the crops that are due, then executes the command under its request
  identifier, so that a command sent again is answered from the stored result. Friends visit a farm under a
  lease, see it through a versioned stream of patches, and act on it: they steal, plant pests, catch
  pests and clean. Such an action changes two players that may live in two Zones. Rewards reach a player by
  mail and are credited when the mail is claimed.

  \<^bold>\<open>Foundations.\<close>
  \<^item> \<open>Farm_Prelude\<close>: Go's integer types (unsigned ones as words, \<open>int64\<close> as integers with its bounds written
    out), maps as finite maps, byte strings, big-endian encoding.
  \<^item> \<open>Sha256\<close>: the hash the server takes of results and fingerprints, computed and not assumed.
  \<^item> \<open>Farm_Types\<close>: the enumerations and messages of \<open>src/proto\<close> that the modelled code builds or reads.
  \<^item> \<open>Farm_State\<close>: \<open>state.go\<close>, \<open>career.go\<close>, \<open>domain_change.go\<close>: the player aggregate, a new farm, snapshots,
    chapter progress, compendium.
  \<^item> \<open>Farm_Config\<close>: \<open>config.go\<close>: \<open>newConfigSnapshot\<close> with every check, the lookups and the built-in content. An
    accepted configuration is well formed, the shares of a crop add up to its yield.

  \<^bold>\<open>One player.\<close>
  \<^item> \<open>Growth\<close>: \<open>growth.go\<close> and \<open>actor_tick.go\<close>. Accumulated growth is the sum of the rate per millisecond, the
    estimate is the first instant at which the need is met, settling composes, a tick leaves nothing due.
  \<^item> \<open>Idempotency\<close>: the protocol shared by the commands (\<open>buy_seeds.go\<close>): request identifiers, stored
    results and their window, conflict, replay. \<open>Farm_Invariant\<close>: the invariant \<open>state_ok\<close>.
    \<open>Farm_Client\<close>: the account and the client's view, the two abstractions commands are measured against.
  \<^item> \<open>Shop\<close>, \<open>Farming\<close>, \<open>Chapter\<close>, \<open>Pets\<close>: the command handlers of the files \<open>buy_seeds.go\<close>,
    \<open>buy_fertilizer.go\<close>, \<open>sell_crop.go\<close>; \<open>plant.go\<close>, \<open>fertilizer.go\<close>, \<open>owner_catch_pest.go\<close>, \<open>harvest.go\<close>,
    \<open>clean_plot.go\<close>; \<open>claim_reward.go\<close>; \<open>pet.go\<close>. Each is one body under \<open>run_command\<close>; the lemmas say when it
    succeeds, what it moves and which error each other case gets.
  \<^item> \<open>Gift\<close>: \<open>gift.go\<close>, a command of two mailbox jobs with other jobs between them.
  \<^item> \<open>Lifecycle\<close>: the life of a crop as a step relation that every command follows.
  \<^item> \<open>Runtime\<close>: \<open>Handle\<close> of \<open>runtime.go\<close> and the pushes of \<open>push.go\<close>: exactly-once execution, invariant, client
    and server in step. \<open>Checkpoint\<close>, \<open>Durability\<close>: \<open>checkpoint.go\<close>, the durable form of a player, its round
    trip, and that commands keep a player storable with the exceptions the code leaves open.
  \<^item> \<open>Mail_Reward\<close>: \<open>mail_reward.go\<close>: merging and sorting attachments, all or nothing crediting, one credit
    per mail. \<open>Mailbox\<close>: package \<open>internal/mail\<close> (\<open>memory_store.go\<close>, \<open>service.go\<close>, \<open>ids.go\<close>): the mail store, paging,
    read marks and the creation of mails: the pages of a mailbox give every visible mail once, a source event
    has at most one mail, and a gift can be lost between the record of its event and its mail. \<open>Mail_Claim\<close>:
    \<open>claim_saga.go\<close>, \<open>claim_reconciler.go\<close>, \<open>zone_client.go\<close> and the RPC of \<open>cmd/zone/social_rpc.go\<close>: direct claims and the
    claim saga, whose workers interleave at every access to the store or the Zone: records and receipts
    agree in every history, a worker returns, a cancelled claim may have been paid.

  \<^bold>\<open>Which Zone owns a player.\<close>
  \<^item> \<open>Routing\<close>: \<open>internal/routing/routing.go\<close>, the committed shard map as a state machine with its histories.
    \<open>Authorization\<close>: \<open>authorization.go\<close> and \<open>runtime_lease.go\<close>, the Zone's table and the coordinator's leases.
    \<open>Placement\<close>: \<open>internal/coordinator/placement\<close>. An epoch has one owner, two Zones never both accept a
    command under one epoch, a placement moves as little as rendezvous hashing promises.

  \<^bold>\<open>Two players.\<close>
  \<^item> \<open>Farm_View\<close>: snapshots and patches for visitors (\<open>farm_visit_snapshot.go\<close>, \<open>farm_view_events.go\<close>,
    \<open>quick_info.go\<close>, \<open>internal/farmview/view.go\<close>): a visitor who applies the patches sees the farm as it is.
  \<^item> \<open>Friend_Steps\<close>: the mailbox jobs of friend actions (\<open>steal_crop.go\<close>, \<open>friend_action_chance.go\<close>,
    \<open>apply_pest.go\<close>, \<open>catch_pest.go\<close>, \<open>help_clean_plot.go\<close>, \<open>social_task_credit.go\<close>), each idempotent by receipt.
  \<^item> \<open>Visits\<close>: the lease registry and the owner's side (\<open>internal/visit/registry.go\<close>, \<open>owner_service.go\<close>,
    \<open>ApplyVisitorAction\<close> of \<open>cmd/zone/friend_rpc.go\<close>). The registry with its two indices refines a map from owner
    and visitor to a lease.
  \<^item> \<open>Steal_Saga\<close>, \<open>Saga_Agreement\<close>: package \<open>internal/interaction\<close>: the stored record, its versioned store, the
    loop of both sagas, \<open>Execute\<close>, \<open>Resume\<close>, the reconciler. A call may be lost before or after it took effect
    (\<open>fate\<close>); the properties quantify over every history of attempts with every choice of fates.
  \<^item> \<open>Friend_Direct\<close>: \<open>ExecuteFriendAction\<close> as the Zone runs it, with the visitor's mailbox free while the owner
    is asked. The Zone is wired to this path; sagas and reconciler are code that the Zone does not call.
  \<^item> \<open>Friend_Visits\<close>: the visitor's side (\<open>internal/visit/service.go\<close>, \<open>owner_client.go\<close>) and the RPCs between:
    one farm at a time, and how a change of gate breaks it.

  \<^bold>\<open>Interfaces.\<close> Contracts between components are locales, and each is interpreted on the code's own definitions:
  \<^item> \<open>command\<close> (a body under the protocol), extended by \<open>safe_command\<close> (keeps the invariant), \<open>synced_command\<close>
    (its patch is the change), \<open>farm_command\<close> (moves a plot by one step of its life) and \<open>durable_command\<close> (keeps
    the header of the checkpoint). Every handler of a mailbox command interprets the chain, and \<open>Runtime\<close> and
    \<open>Durability\<close> take their facts from it.
  \<^item> \<open>owner_action\<close>: an owner's job of a friend action, interpreted on theft, pest, catch and clean.
  \<^item> \<open>saga_contract\<close> and its extension \<open>saga_liveness\<close>: what the four steps of a saga owe each other for agreement
    and for progress, interpreted on the theft.

  \<^bold>\<open>Parameters.\<close> What is not code of the repository is an argument: protobuf encoding (\<open>codec\<close>,
  \<open>store_codec\<close>, \<open>friend_codec\<close>; decoding what was encoded gives it back is the one law, and its witnesses
  instantiate it with a concrete encoding), random bytes and dice rolls, the order in which Go ranges over a map
  (\<open>map_orders\<close>; the properties hold for every order), the clock, the fate of a remote call, the gate's
  validation and the friend service's answers.

  \<^bold>\<open>Loops and bounds.\<close> Handlers and their loops are total functions. The saga loop is cut off after
  \<open>maxSagaSteps\<close>, 32 passes, as in the code; no attempt takes more than five, so the bound is never the reason
  for an answer. A worker of the claim saga is run for at most 400 steps, and returns within 361. Counters keep their width: where a sum wraps or a limit is exceeded the lemmas say so.

  \<^bold>\<open>Not modelled.\<close> Database clients (\<open>tcaplus_store.go\<close>, MySQL, Redis), etcd leadership and the migration
  driver of \<open>cmd/coordinator\<close>, the WebSocket gateway, login and its cryptographic libraries, goroutines, timers
  and channels around the mailbox, delivery of pushes and patches, the friend and info services with
  their own stores, and the test and benchmark drivers: their work is I/O, or
  they are separate processes whose answers are arguments here.
\<close>

end
